(* ===== verification/Prelude.thy ===== *)
theory Prelude
  imports Main "HOL-Library.Multiset" "HOL-Library.Product_Lexorder" "HOL-Library.Code_Target_Numeral"
begin

text \<open>
  The vocabulary the components share: the outcome of a fallible Rust call, its sequencing
  (the operator \<^verbatim>\<open>?\<close>), the iterator adaptors that stop at the first error, checked
  and saturating machine arithmetic on \<open>nat\<close> and \<open>int\<close>, the panicking accessors of
  vectors, and the generic list lemmas of the component theories.

  An operation that returns \<^verbatim>\<open>Result<T, E>\<close> is modelled by \<open>('e, 'a) outcome\<close>:
  \<open>Ok\<close> and \<open>Err\<close> are the two results; \<open>Panic\<close> is an unwinding
  (\<^verbatim>\<open>expect\<close>, an index out of range); \<open>Diverge\<close> is a loop that never ends. A
  theorem that an operation neither panics nor diverges is therefore a statement about its
  value.
\<close>

section \<open>Outcomes\<close>

datatype ('e, 'a) outcome = Ok 'a | Err 'e | Panic | Diverge

named_theorems outcome_elims \<open>inversion of a successful sequenced computation\<close>
named_theorems arith_defs \<open>definitions of the machine arithmetic\<close>

fun rbind :: "('e, 'a) outcome \<Rightarrow> ('a \<Rightarrow> ('e, 'b) outcome) \<Rightarrow> ('e, 'b) outcome" where
  "rbind (Ok x) f = f x"
| "rbind (Err e) f = Err e"
| "rbind Panic f = Panic"
| "rbind Diverge f = Diverge"

text \<open>\<^verbatim>\<open>map_err\<close>, \<^verbatim>\<open>ok_or\<close>, \<^verbatim>\<open>expect\<close>, and a loop result that may be absent.\<close>

fun map_err :: "('e \<Rightarrow> 'f) \<Rightarrow> ('e, 'a) outcome \<Rightarrow> ('f, 'a) outcome" where
  "map_err h (Ok x) = Ok x"
| "map_err h (Err e) = Err (h e)"
| "map_err h Panic = Panic"
| "map_err h Diverge = Diverge"

fun ok_or :: "'e \<Rightarrow> 'a option \<Rightarrow> ('e, 'a) outcome" where
  "ok_or e None = Err e"
| "ok_or e (Some x) = Ok x"

fun expect :: "'a option \<Rightarrow> ('e, 'a) outcome" where
  "expect None = Panic"
| "expect (Some x) = Ok x"

fun of_loop :: "'a option \<Rightarrow> ('e, 'a) outcome" where
  "of_loop None = Diverge"
| "of_loop (Some x) = Ok x"

definition ensure :: "bool \<Rightarrow> 'e \<Rightarrow> ('e, unit) outcome" where
  "ensure b e = (if b then Ok () else Err e)"

text \<open>\<^verbatim>\<open>v[i]\<close> and \<^verbatim>\<open>v[i] = x\<close>: both panic out of range.\<close>

definition index_at :: "'a list \<Rightarrow> nat \<Rightarrow> ('e, 'a) outcome" where
  "index_at xs i = (if i < length xs then Ok (xs ! i) else Panic)"

definition store_at :: "'a list \<Rightarrow> nat \<Rightarrow> 'a \<Rightarrow> ('e, 'a list) outcome" where
  "store_at xs i x = (if i < length xs then Ok (xs[i := x]) else Panic)"

text \<open>\<^verbatim>\<open>iter().map(f).collect::<Result<Vec<_>, _>>()\<close> and a \<^verbatim>\<open>for\<close> loop over a state.\<close>

fun traverse :: "('a \<Rightarrow> ('e, 'b) outcome) \<Rightarrow> 'a list \<Rightarrow> ('e, 'b list) outcome" where
  "traverse f [] = Ok []"
| "traverse f (x # xs) = rbind (f x) (\<lambda>y. rbind (traverse f xs) (\<lambda>ys. Ok (y # ys)))"

fun try_fold :: "('s \<Rightarrow> 'a \<Rightarrow> ('e, 's) outcome) \<Rightarrow> 's \<Rightarrow> 'a list \<Rightarrow> ('e, 's) outcome" where
  "try_fold f s [] = Ok s"
| "try_fold f s (x # xs) = rbind (f s x) (\<lambda>s'. try_fold f s' xs)"

definition returns :: "('e, 'a) outcome \<Rightarrow> bool" where
  "returns r \<longleftrightarrow> (case r of Ok _ \<Rightarrow> True | Err _ \<Rightarrow> True | _ \<Rightarrow> False)"

section \<open>Machine integers\<close>

text \<open>Unsigned values of width \<open>w\<close> are naturals below \<open>2 ^ w\<close>; \<open>i32\<close> and \<open>i64\<close> are integers.\<close>

definition checked_add :: "nat \<Rightarrow> nat \<Rightarrow> nat \<Rightarrow> nat option" where
  "checked_add w a b = (if a + b < 2 ^ w then Some (a + b) else None)"

definition checked_mul :: "nat \<Rightarrow> nat \<Rightarrow> nat \<Rightarrow> nat option" where
  "checked_mul w a b = (if a * b < 2 ^ w then Some (a * b) else None)"

definition checked_sub :: "nat \<Rightarrow> nat \<Rightarrow> nat option" where
  "checked_sub a b = (if b \<le> a then Some (a - b) else None)"

definition saturating_add :: "nat \<Rightarrow> nat \<Rightarrow> nat \<Rightarrow> nat" where
  "saturating_add w a b = min (a + b) (2 ^ w - 1)"

definition saturating_mul :: "nat \<Rightarrow> nat \<Rightarrow> nat \<Rightarrow> nat" where
  "saturating_mul w a b = min (a * b) (2 ^ w - 1)"

definition try_from :: "nat \<Rightarrow> nat \<Rightarrow> nat option" where
  "try_from w a = (if a < 2 ^ w then Some a else None)"

definition signed_range :: "nat \<Rightarrow> int \<Rightarrow> bool" where
  "signed_range w a \<longleftrightarrow> - (2 ^ (w - 1)) \<le> a \<and> a < 2 ^ (w - 1)"

definition checked_add_signed :: "nat \<Rightarrow> int \<Rightarrow> int \<Rightarrow> int option" where
  "checked_add_signed w a b = (if signed_range w (a + b) then Some (a + b) else None)"

lemmas [arith_defs] =
  checked_add_def checked_mul_def checked_sub_def saturating_add_def saturating_mul_def
  try_from_def signed_range_def checked_add_signed_def

section \<open>Laws of outcomes\<close>

lemma rbind_Ok_iff [outcome_elims]: "rbind m f = Ok y \<longleftrightarrow> (\<exists>x. m = Ok x \<and> f x = Ok y)"
  by (cases m) auto

lemma rbind_OkE: "rbind m f = Ok y \<Longrightarrow> (\<And>x. m = Ok x \<Longrightarrow> f x = Ok y \<Longrightarrow> P) \<Longrightarrow> P"
  by (cases m) auto

lemma case_prod_OkE:
  "(case p of (a, b) \<Rightarrow> f a b) = Ok y \<Longrightarrow> (\<And>a b. p = (a, b) \<Longrightarrow> f a b = Ok y \<Longrightarrow> P) \<Longrightarrow> P"
  by (cases p) auto

lemma rbind_Panic_iff: "rbind m f = Panic \<longleftrightarrow> m = Panic \<or> (\<exists>x. m = Ok x \<and> f x = Panic)"
  by (cases m) auto

lemma rbind_Diverge_iff: "rbind m f = Diverge \<longleftrightarrow> m = Diverge \<or> (\<exists>x. m = Ok x \<and> f x = Diverge)"
  by (cases m) auto

lemma rbind_assoc: "rbind (rbind m f) g = rbind m (\<lambda>x. rbind (f x) g)"
  by (cases m) auto

lemma rbind_Ok_right [simp]: "rbind m Ok = m"
  by (cases m) auto

lemma map_err_Ok_iff [outcome_elims, simp]: "map_err h m = Ok x \<longleftrightarrow> m = Ok x"
  by (cases m) auto

lemma map_err_Panic_iff [simp]: "map_err h m = Panic \<longleftrightarrow> m = Panic"
  by (cases m) auto

lemma map_err_Diverge_iff [simp]: "map_err h m = Diverge \<longleftrightarrow> m = Diverge"
  by (cases m) auto

lemma ok_or_Ok_iff [outcome_elims, simp]: "ok_or e m = Ok x \<longleftrightarrow> m = Some x"
  by (cases m) auto

lemma ok_or_not_Panic [simp]: "ok_or e m \<noteq> Panic" "ok_or e m \<noteq> Diverge"
  by (cases m; simp)+

lemma expect_Ok_iff [outcome_elims, simp]: "expect m = Ok x \<longleftrightarrow> m = Some x"
  by (cases m) auto

lemma expect_Panic_iff [simp]: "expect m = Panic \<longleftrightarrow> m = None"
  by (cases m) auto

lemma of_loop_Ok_iff [outcome_elims, simp]: "of_loop m = Ok x \<longleftrightarrow> m = Some x"
  by (cases m) auto

lemma ensure_Ok_iff [outcome_elims, simp]: "ensure b e = Ok u \<longleftrightarrow> b"
  by (simp add: ensure_def)

lemma ensure_Err_iff [simp]: "ensure b e = Err e' \<longleftrightarrow> \<not> b \<and> e' = e"
  by (auto simp: ensure_def)

lemma ensure_not_Panic [simp]: "ensure b e \<noteq> Panic" "ensure b e \<noteq> Diverge"
  by (simp_all add: ensure_def)

lemma index_at_Ok_iff [outcome_elims, simp]: "index_at xs i = Ok x \<longleftrightarrow> i < length xs \<and> x = xs ! i"
  by (auto simp: index_at_def)

lemma index_at_Panic_iff [simp]: "index_at xs i = Panic \<longleftrightarrow> length xs \<le> i"
  by (auto simp: index_at_def)

lemma index_at_not_Err [simp]: "index_at xs i \<noteq> Err e" "index_at xs i \<noteq> Diverge"
  by (auto simp: index_at_def)

lemma store_at_Ok_iff [outcome_elims, simp]:
  "store_at xs i x = Ok ys \<longleftrightarrow> i < length xs \<and> ys = xs[i := x]"
  by (auto simp: store_at_def)

lemma store_at_Panic_iff [simp]: "store_at xs i x = Panic \<longleftrightarrow> length xs \<le> i"
  by (auto simp: store_at_def)

lemma store_at_not_Err [simp]: "store_at xs i x \<noteq> Err e" "store_at xs i x \<noteq> Diverge"
  by (auto simp: store_at_def)

lemma returns_simps [simp]:
  "returns (Ok x)" "returns (Err e)" "\<not> returns Panic" "\<not> returns Diverge"
  by (simp_all add: returns_def)

lemma returns_iff: "returns r \<longleftrightarrow> r \<noteq> Panic \<and> r \<noteq> Diverge"
  by (cases r) auto

lemma returns_rbind [intro]:
  "returns m \<Longrightarrow> (\<And>x. m = Ok x \<Longrightarrow> returns (f x)) \<Longrightarrow> returns (rbind m f)"
  by (cases m) auto

lemma returns_map_err [simp]: "returns (map_err h m) = returns m"
  by (cases m) auto

lemma returns_ok_or [simp]: "returns (ok_or e m)"
  by (cases m) auto

lemma returns_ensure [simp]: "returns (ensure b e)"
  by (simp add: ensure_def)

lemma returns_expect [simp]: "returns (expect m) \<longleftrightarrow> m \<noteq> None"
  by (cases m) auto

lemma returns_index_at [simp]: "returns (index_at xs i) \<longleftrightarrow> i < length xs"
  by (simp add: index_at_def)

lemma returns_store_at [simp]: "returns (store_at xs i x) \<longleftrightarrow> i < length xs"
  by (simp add: store_at_def)

lemma traverse_Ok_iff:
  "traverse f xs = Ok ys \<longleftrightarrow> list_all2 (\<lambda>x y. f x = Ok y) xs ys"
  by (induction xs arbitrary: ys) (auto simp: rbind_Ok_iff list_all2_Cons1)

lemma traverse_Ok_length: "traverse f xs = Ok ys \<Longrightarrow> length ys = length xs"
  by (auto simp: traverse_Ok_iff dest: list_all2_lengthD)

lemma traverse_returns: "(\<And>x. x \<in> set xs \<Longrightarrow> returns (f x)) \<Longrightarrow> returns (traverse f xs)"
  by (induction xs) (auto intro!: returns_rbind)

lemma traverse_map_Ok: "(\<And>x. x \<in> set xs \<Longrightarrow> f x = Ok (g x)) \<Longrightarrow> traverse f xs = Ok (map g xs)"
  by (induction xs) auto

lemma traverse_Ok_map:
  assumes "traverse f xs = Ok ys" and "\<And>x y. x \<in> set xs \<Longrightarrow> f x = Ok y \<Longrightarrow> y = g x"
  shows "ys = map g xs"
  using assms by (induction xs arbitrary: ys) (auto simp: rbind_Ok_iff)

lemma try_fold_append:
  "try_fold f s (xs @ ys) = rbind (try_fold f s xs) (\<lambda>s'. try_fold f s' ys)"
  by (induction xs arbitrary: s) (auto simp: rbind_assoc)

lemma try_fold_invariant:
  assumes "try_fold f s xs = Ok t" and "P s"
    and step: "\<And>s x s'. P s \<Longrightarrow> x \<in> set xs \<Longrightarrow> f s x = Ok s' \<Longrightarrow> P s'"
  shows "P t"
  using assms
proof (induction xs arbitrary: s)
  case Nil
  then show ?case by simp
next
  case (Cons x xs)
  from Cons.prems(1) obtain s' where s': "f s x = Ok s'" "try_fold f s' xs = Ok t"
    by (auto simp: rbind_Ok_iff)
  have "P s'" by (rule Cons.prems(3)[OF Cons.prems(2) _ s'(1)]) simp
  then show ?case
    by (rule Cons.IH[OF s'(2)]) (erule Cons.prems(3), simp_all)
qed

lemma try_fold_returns:
  assumes "P s" and "\<And>s x. P s \<Longrightarrow> x \<in> set xs \<Longrightarrow> returns (f s x)"
    and "\<And>s x s'. P s \<Longrightarrow> x \<in> set xs \<Longrightarrow> f s x = Ok s' \<Longrightarrow> P s'"
  shows "returns (try_fold f s xs)"
  using assms
proof (induction xs arbitrary: s)
  case Nil
  then show ?case by simp
next
  case (Cons x xs)
  have "returns (rbind (f s x) (\<lambda>s'. try_fold f s' xs))"
  proof (rule returns_rbind)
    show "returns (f s x)" using Cons.prems(1) by (rule Cons.prems(2)) simp
    fix s' assume s': "f s x = Ok s'"
    have "P s'" by (rule Cons.prems(3)[OF Cons.prems(1) _ s']) simp
    then show "returns (try_fold f s' xs)"
      by (rule Cons.IH) (erule Cons.prems(2), simp, erule Cons.prems(3), simp_all)
  qed
  then show ?case by simp
qed

section \<open>Generic list lemmas\<close>

lemma find_Some_mem: "List.find P xs = Some x \<Longrightarrow> x \<in> set xs \<and> P x"
  by (auto simp: find_Some_iff)

lemma mset_filter_partition: "mset (filter P xs) + mset (filter (\<lambda>x. \<not> P x) xs) = mset xs"
  by (induction xs) auto

lemma sum_list_map_update:
  fixes f :: "'a \<Rightarrow> int"
  assumes "i < length xs"
  shows "(\<Sum>x\<leftarrow>xs[i := y]. f x) = (\<Sum>x\<leftarrow>xs. f x) - f (xs ! i) + f y"
  using assms
proof (induction xs arbitrary: i)
  case Nil
  then show ?case by simp
next
  case (Cons x xs)
  then show ?case by (cases i) auto
qed

lemma concat_update_mset:
  assumes "i < length xs"
  shows "mset (concat (xs[i := y])) + mset (xs ! i) = mset (concat xs) + mset y"
  using assms
proof (induction xs arbitrary: i)
  case Nil
  then show ?case by simp
next
  case (Cons x xs)
  then show ?case by (cases i) (auto simp: ac_simps)
qed

lemma distinct_map_find:
  assumes "distinct (map k xs)" and "x \<in> set xs"
  shows "List.find (\<lambda>y. k y = k x) xs = Some x"
  using assms by (induction xs) auto

section \<open>Paths of a labelled step relation\<close>

inductive run_path :: "('g \<Rightarrow> 'e \<Rightarrow> 'g \<Rightarrow> bool) \<Rightarrow> 'g \<Rightarrow> 'e list \<Rightarrow> 'g \<Rightarrow> bool" for T where
  path_nil: "run_path T g [] g"
| path_snoc: "run_path T g es g' \<Longrightarrow> T g' e g'' \<Longrightarrow> run_path T g (es @ [e]) g''"

lemma path_invariant:
  assumes "run_path T g es g'" "I g" "\<And>h e h'. I h \<Longrightarrow> T h e h' \<Longrightarrow> I h'"
  shows "I g'"
  using assms by (induction rule: run_path.induct) blast+

text \<open>
  A journalled state machine: every step appends its event, and applying the event again to
  the state before it gives the state after it, for every record that covers the later
  state. Folding the journal over the first state then rebuilds the last one.
\<close>

locale event_sourced =
  fixes step :: "'g \<Rightarrow> 'e \<Rightarrow> 'g \<Rightarrow> bool"
    and inv :: "'g \<Rightarrow> bool"
    and journal :: "'g \<Rightarrow> 'e list"
    and covers :: "'b \<Rightarrow> 'g \<Rightarrow> bool"
    and reapply :: "'b \<Rightarrow> 'g \<Rightarrow> 'e \<Rightarrow> ('x, 'g) outcome"
  assumes inv_step: "inv g \<Longrightarrow> step g e g' \<Longrightarrow> inv g'"
    and journal_step: "inv g \<Longrightarrow> step g e g' \<Longrightarrow> journal g' = journal g @ [e]"
    and covers_step: "inv g \<Longrightarrow> step g e g' \<Longrightarrow> covers b g' \<Longrightarrow> covers b g"
    and reapply_step: "inv g \<Longrightarrow> step g e g' \<Longrightarrow> covers b g' \<Longrightarrow> reapply b g e = Ok g'"
begin

lemma path_inv: "run_path step g es g' \<Longrightarrow> inv g \<Longrightarrow> inv g'"
  by (erule path_invariant) (auto intro: inv_step)

lemma path_journal: "run_path step g es g' \<Longrightarrow> inv g \<Longrightarrow> journal g' = journal g @ es"
  by (induction rule: run_path.induct) (auto simp: journal_step dest: path_inv)

lemma path_replays:
  assumes "run_path step g es g'" "inv g" "covers b g'"
  shows "try_fold (reapply b) g es = Ok g'"
  using assms
proof (induction rule: run_path.induct)
  case (path_nil g)
  then show ?case by simp
next
  case (path_snoc g es g' e g'')
  then have "inv g'" by (auto dest: path_inv)
  with path_snoc show ?case
    by (simp add: try_fold_append reapply_step[of g' e g''] covers_step[of g' e g''])
qed

end

end
