(* ===== verification/RustText.thy ===== *)
theory RustText
  imports Prelude "HOL-Library.Word" "HOL-Library.List_Lexorder" "HOL-Library.Char_ord"
begin

text \<open>
  Rust strings and the code the repository imports from other packages.

  A Rust \<^verbatim>\<open>String\<close> is its UTF-8 byte sequence, an Isabelle \<open>string\<close>: \<^verbatim>\<open>len()\<close>
  is \<open>length\<close>, \<^verbatim>\<open>==\<close> is equality and \<^verbatim>\<open>cmp\<close> is the lexicographic byte order.
  \<open>utf8_chars\<close> decodes the bytes into Unicode scalar values (\<^verbatim>\<open>chars()\<close>), on which the
  standard predicates \<^verbatim>\<open>is_control\<close>, \<^verbatim>\<open>is_whitespace\<close> and \<^verbatim>\<open>trim\<close> work.

  The record \<open>env\<close> holds what is not part of the repository: SHA-256 (package sha2), the
  Unicode uppercase table of the standard library, canonical decomposition and combining
  marks (package unicode-normalization) and semantic-version syntax (package semver). They
  are arguments of every definition that uses them. \<open>unicode_ok\<close> states what the code
  relies on: on ASCII these tables act as ASCII does.
\<close>

section \<open>Bytes and characters\<close>

type_synonym byte = "8 word"
type_synonym scalar = nat

definition string_bytes :: "string \<Rightarrow> byte list" where
  "string_bytes s = map of_char s"

definition ascii_upper :: "char \<Rightarrow> bool" where
  "ascii_upper c \<longleftrightarrow> 65 \<le> (of_char c :: nat) \<and> (of_char c :: nat) \<le> 90"

definition ascii_lower :: "char \<Rightarrow> bool" where
  "ascii_lower c \<longleftrightarrow> 97 \<le> (of_char c :: nat) \<and> (of_char c :: nat) \<le> 122"

definition ascii_digit :: "char \<Rightarrow> bool" where
  "ascii_digit c \<longleftrightarrow> 48 \<le> (of_char c :: nat) \<and> (of_char c :: nat) \<le> 57"

fun decode_utf8 :: "nat list \<Rightarrow> scalar list" where
  "decode_utf8 [] = []"
| "decode_utf8 (a # bs) =
     (if a < 128 then a # decode_utf8 bs
      else if a < 224 then
        (case bs of b # cs \<Rightarrow> ((a - 192) * 64 + (b - 128)) # decode_utf8 cs | _ \<Rightarrow> [])
      else if a < 240 then
        (case bs of b # c # cs \<Rightarrow>
           ((a - 224) * 4096 + (b - 128) * 64 + (c - 128)) # decode_utf8 cs | _ \<Rightarrow> [])
      else
        (case bs of b # c # d # cs \<Rightarrow>
           ((a - 240) * 262144 + (b - 128) * 4096 + (c - 128) * 64 + (d - 128)) # decode_utf8 cs
         | _ \<Rightarrow> []))"

definition utf8_chars :: "string \<Rightarrow> scalar list" where
  "utf8_chars s = decode_utf8 (map of_char s)"

definition is_control :: "scalar \<Rightarrow> bool" where
  "is_control c \<longleftrightarrow> c < 32 \<or> (127 \<le> c \<and> c < 160)"

definition is_whitespace :: "scalar \<Rightarrow> bool" where
  "is_whitespace c \<longleftrightarrow> (9 \<le> c \<and> c \<le> 13) \<or> c = 32 \<or> c = 133 \<or> c = 160 \<or> c = 5760
     \<or> (8192 \<le> c \<and> c \<le> 8202) \<or> c = 8232 \<or> c = 8233 \<or> c = 8239 \<or> c = 8287 \<or> c = 12288"

definition trim_chars :: "scalar list \<Rightarrow> scalar list" where
  "trim_chars cs = rev (dropWhile is_whitespace (rev (dropWhile is_whitespace cs)))"

text \<open>\<^verbatim>\<open>value.trim() == value\<close>\<close>

definition is_trimmed :: "string \<Rightarrow> bool" where
  "is_trimmed s \<longleftrightarrow> trim_chars (utf8_chars s) = utf8_chars s"

text \<open>\<^verbatim>\<open>value.contains(pattern)\<close> for a nonempty pattern.\<close>

fun contains_str :: "string \<Rightarrow> string \<Rightarrow> bool" where
  "contains_str p [] = (p = [])"
| "contains_str p (c # cs) = (take (length p) (c # cs) = p \<or> contains_str p cs)"

text \<open>\<^verbatim>\<open>value.split(sep)\<close>: always at least one component.\<close>

fun split_on :: "char \<Rightarrow> string \<Rightarrow> string list" where
  "split_on sep [] = [[]]"
| "split_on sep (c # cs) =
     (if c = sep then [] # split_on sep cs
      else (case split_on sep cs of [] \<Rightarrow> [[c]] | w # ws \<Rightarrow> (c # w) # ws))"

section \<open>Imported code\<close>

record env =
  env_sha256 :: "byte list \<Rightarrow> byte list"
  env_to_uppercase :: "scalar \<Rightarrow> scalar list"
  env_nfd :: "scalar \<Rightarrow> scalar list"
  env_is_combining_mark :: "scalar \<Rightarrow> bool"
  env_semver :: "string \<Rightarrow> bool"

definition unicode_ok :: "env \<Rightarrow> bool" where
  "unicode_ok E \<longleftrightarrow> (\<forall>c < 128.
     env_to_uppercase E c = [if 97 \<le> c \<and> c \<le> 122 then c - 32 else c]
     \<and> env_nfd E c = [c] \<and> \<not> env_is_combining_mark E c)"

definition sha256_ok :: "env \<Rightarrow> bool" where
  "sha256_ok E \<longleftrightarrow> (\<forall>bs. length (env_sha256 E bs) = 32)"

text \<open>A concrete environment for witnesses: ASCII tables and a fixed-length digest.\<close>

definition demo_digest :: "byte list \<Rightarrow> byte list" where
  "demo_digest bs = (let s = sum_list bs + of_nat (length bs)
     in map (\<lambda>i. s * 167 + 13 * of_nat i * of_nat i + 7 * of_nat i + s * s) [0..<32])"

definition demo_env :: env where
  "demo_env = \<lparr>env_sha256 = demo_digest,
     env_to_uppercase = (\<lambda>c. [if 97 \<le> c \<and> c \<le> 122 then c - 32 else c]),
     env_nfd = (\<lambda>c. [c]), env_is_combining_mark = (\<lambda>c. 768 \<le> c \<and> c \<le> 879),
     env_semver = (\<lambda>s. s \<noteq> [])\<rparr>"

section \<open>Hexadecimal digests\<close>

definition hex_digit :: "nat \<Rightarrow> char" where
  "hex_digit n = ''0123456789abcdef'' ! n"

definition hex_lower :: "byte list \<Rightarrow> string" where
  "hex_lower bs = concat (map (\<lambda>b. [hex_digit (unat b div 16), hex_digit (unat b mod 16)]) bs)"

definition is_lower_hex :: "char \<Rightarrow> bool" where
  "is_lower_hex c \<longleftrightarrow> ascii_digit c \<or> (97 \<le> (of_char c :: nat) \<and> (of_char c :: nat) \<le> 102)"

definition valid_sha256 :: "string \<Rightarrow> bool" where
  "valid_sha256 s \<longleftrightarrow> length s = 64 \<and> list_all is_lower_hex s"

definition valid_id :: "nat \<Rightarrow> string \<Rightarrow> bool" where
  "valid_id maximum s \<longleftrightarrow> s \<noteq> [] \<and> length s \<le> maximum \<and> is_trimmed s
     \<and> list_all (\<lambda>c. \<not> is_control c) (utf8_chars s)"

text \<open>Big-endian bytes of an unsigned value of \<open>k\<close> bytes (\<^verbatim>\<open>to_be_bytes\<close>).\<close>

fun be_bytes :: "nat \<Rightarrow> nat \<Rightarrow> byte list" where
  "be_bytes 0 n = []"
| "be_bytes (Suc k) n = be_bytes k (n div 256) @ [of_nat n]"

fun be_value :: "byte list \<Rightarrow> nat" where
  "be_value bs = foldl (\<lambda>a b. a * 256 + unat b) 0 bs"

section \<open>Lemmas\<close>

lemma ascii_upper_range: "ascii_upper c \<Longrightarrow> (of_char c :: nat) < 128"
  by (simp add: ascii_upper_def)

lemma decode_utf8_ascii: "(\<And>b. b \<in> set bs \<Longrightarrow> b < 128) \<Longrightarrow> decode_utf8 bs = bs"
  by (induction bs) auto

lemma utf8_chars_ascii:
  "list_all ascii_upper s \<Longrightarrow> utf8_chars s = map of_char s"
  unfolding utf8_chars_def
  by (rule decode_utf8_ascii) (auto simp: list_all_iff dest: ascii_upper_range)

lemma hex_digit_lower: "n < 16 \<Longrightarrow> is_lower_hex (hex_digit n)"
proof -
  assume "n < 16"
  then have "n \<in> set [0..<16]" by simp
  moreover have "list_all (\<lambda>n. is_lower_hex (hex_digit n)) [0..<16]"
    by (simp add: hex_digit_def is_lower_hex_def ascii_digit_def upt_rec)
  ultimately show ?thesis by (simp add: list_all_iff)
qed

lemma unat_byte_div: "unat (b::byte) div 16 < 16"
  using unsigned_less[of b, where ?'a = nat] by (simp add: less_mult_imp_div_less)

lemma hex_lower_length: "length (hex_lower bs) = 2 * length bs"
  by (simp add: hex_lower_def length_concat comp_def sum_list_triv)

lemma hex_lower_valid: "length bs = 32 \<Longrightarrow> valid_sha256 (hex_lower bs)"
  unfolding valid_sha256_def
  by (rule conjI, simp add: hex_lower_length)
    (auto simp: hex_lower_def list_all_iff intro!: hex_digit_lower unat_byte_div)

lemma be_bytes_length [simp]: "length (be_bytes k n) = k"
  by (induction k n rule: be_bytes.induct) auto

lemma be_value_snoc: "be_value (bs @ [b]) = be_value bs * 256 + unat b"
  by simp

lemma be_roundtrip: "be_value (be_bytes k n) = n mod 256 ^ k"
proof (induction k n rule: be_bytes.induct)
  case (1 n)
  then show ?case by simp
next
  case (2 k n)
  have b: "unat (of_nat n :: byte) = n mod 256" by (simp add: unat_of_nat)
  have "be_value (be_bytes (Suc k) n) = (n div 256) mod 256 ^ k * 256 + n mod 256"
    using 2 b by (simp only: be_bytes.simps be_value_snoc)
  also have "\<dots> = n mod (256 * 256 ^ k)" by (simp add: mod_mult2_eq)
  finally show ?case by simp
qed

lemma demo_env_unicode_ok: "unicode_ok demo_env"
  by (simp add: unicode_ok_def demo_env_def)

lemma demo_env_sha256_ok: "sha256_ok demo_env"
  by (simp add: sha256_ok_def demo_env_def demo_digest_def Let_def)

end
