(* ===== verification/Lexicon.thy ===== *)
theory Lexicon
  imports RustText
begin

text \<open>
  The lexicon crate: exact-membership keys and their normalisation (\<^verbatim>\<open>key.rs\<close>), the
  immutable pack identity and the manifest schema (\<^verbatim>\<open>manifest.rs\<close>), and the pin checks
  (\<^verbatim>\<open>compatibility.rs\<close>).

  The locale \<open>key_normalizer\<close> is the contract the engine relies on: a key that
  normalises is a nonempty A-Z word, and an A-Z word of an implemented profile is its own
  key. It is interpreted on \<open>normalize_key\<close>.
\<close>

section \<open>Data\<close>

definition CURRENT_FORMAT_VERSION :: nat where "CURRENT_FORMAT_VERSION = 1"
definition NORMALIZATION_ALGORITHM :: string where "NORMALIZATION_ALGORITHM = ''word-arena-board-key''"
definition NORMALIZATION_VERSION :: nat where "NORMALIZATION_VERSION = 1"
definition ENGLISH_NORMALIZATION_PROFILE :: string where
  "ENGLISH_NORMALIZATION_PROFILE = ''en-basic-latin-v1''"
definition FRENCH_NORMALIZATION_PROFILE :: string where
  "FRENCH_NORMALIZATION_PROFILE = ''fr-basic-latin-fold-v1''"
definition GERMAN_NORMALIZATION_PROFILE :: string where
  "GERMAN_NORMALIZATION_PROFILE = ''de-basic-latin-fold-v1''"
definition SPANISH_NORMALIZATION_PROFILE :: string where
  "SPANISH_NORMALIZATION_PROFILE = ''es-basic-latin-fold-v1''"
definition MANIFEST_FILE :: string where "MANIFEST_FILE = ''manifest.toml''"
definition INDEX_FILE :: string where "INDEX_FILE = ''lexicon.fst''"
definition REQUIRED_PAYLOAD_FILES :: "string list" where
  "REQUIRED_PAYLOAD_FILES = [INDEX_FILE, ''curation/additions.toml'', ''curation/removals.toml'',
     ''LICENSE'', ''SOURCE.md'', ''THIRD_PARTY_NOTICES'']"

lemmas profile_defs =
  ENGLISH_NORMALIZATION_PROFILE_def FRENCH_NORMALIZATION_PROFILE_def
  GERMAN_NORMALIZATION_PROFILE_def SPANISH_NORMALIZATION_PROFILE_def

datatype NormalizedKeyError =
    Empty
  | InvalidUtf8
  | ForbiddenCharacter scalar
  | UnsupportedProfile string
  | UnsupportedCharacter string scalar

record NormalizationDescriptor =
  nd_algorithm :: string
  nd_version :: nat
  nd_profile :: string

record PackIdentity =
  pi_pack_id :: string
  pi_pack_version :: string
  pi_format_version :: nat
  pi_locale :: string
  pi_normalization :: NormalizationDescriptor
  pi_content_sha256 :: string

record SourceDescriptor =
  sd_id :: string
  sd_revision :: string
  sd_archive_sha256 :: string
  sd_license_id :: string

record PolicyDescriptor =
  pd_id :: string
  pd_version :: nat

record BuilderDescriptor =
  bd_name :: string
  bd_version :: string

record FileDescriptor =
  fd_path :: string
  fd_size_bytes :: nat
  fd_sha256 :: string

record PackManifest =
  pm_format_version :: nat
  pm_pack_id :: string
  pm_pack_version :: string
  pm_locale :: string
  pm_word_count :: nat
  pm_content_sha256 :: string
  pm_normalization :: NormalizationDescriptor
  pm_source :: SourceDescriptor
  pm_policy :: PolicyDescriptor
  pm_builder :: BuilderDescriptor
  pm_files :: "FileDescriptor list"

datatype CompatibilityContext = ContextRuleset | ContextReplay | ContextActiveGame

datatype CompatibilityError =
    ExactPackRequired CompatibilityContext PackIdentity PackIdentity
  | ConflictingPackVersion PackIdentity PackIdentity

datatype CacheDecision = AlreadyInstalled | InstallAlongside

text \<open>
  \<^verbatim>\<open>PackError\<close>, in the source's order. The path an error reports is kept as the canonical
  path below the pack root; the fixed advice text of \<open>InvalidManifestField\<close>, the same for
  every use of one validator, and the library diagnostics inside an error are left out.
\<close>

datatype PackError =
    MissingManifest string
  | ManifestSyntax
  | UnsupportedFormatVersion nat nat
  | UnsupportedNormalizationAlgorithm string string
  | UnsupportedNormalizationVersion nat nat
  | UnsupportedNormalizationProfile string string
  | InvalidManifestField string string
  | DuplicateFileRecord string
  | MissingRequiredFileRecord string
  | UnsafeFilePath string string
  | MissingPayloadFile string
  | PayloadNotRegularFile string
  | UnexpectedPayloadFile string
  | NonUtf8Path
  | FileSizeMismatch string nat nat
  | FileChecksumMismatch string string string
  | ContentChecksumMismatch string string
  | InvalidIndex
  | InvalidIndexKey nat
  | IndexWordCountMismatch nat nat
  | Io string

section \<open>Exact-membership keys\<close>

definition NormalizedKey_new :: "string \<Rightarrow> (NormalizedKeyError, string) outcome" where
  "NormalizedKey_new value =
     (if value = [] then Err Empty
      else case List.find (\<lambda>c. is_control c \<or> is_whitespace c) (utf8_chars value) of
        Some c \<Rightarrow> Err (ForbiddenCharacter c)
      | None \<Rightarrow> Ok value)"

definition push_basic_latin ::
  "string \<Rightarrow> string \<Rightarrow> scalar \<Rightarrow> (NormalizedKeyError, string) outcome" where
  "push_basic_latin profile output c =
     (if 65 \<le> c \<and> c \<le> 90 then Ok (output @ [char_of c]) else Err (UnsupportedCharacter profile c))"

definition uppercase_basic_latin ::
  "env \<Rightarrow> string \<Rightarrow> string \<Rightarrow> (NormalizedKeyError, string) outcome" where
  "uppercase_basic_latin E profile source =
     try_fold (push_basic_latin profile) [] (concat (map (env_to_uppercase E) (utf8_chars source)))"

definition fold_char ::
  "env \<Rightarrow> string \<Rightarrow> bool \<Rightarrow> string \<Rightarrow> scalar \<Rightarrow> (NormalizedKeyError, string) outcome" where
  "fold_char E profile expand_ligatures normalized c =
     (if (c = 339 \<or> c = 338) \<and> expand_ligatures then Ok (normalized @ ''OE'')
      else if (c = 230 \<or> c = 198) \<and> expand_ligatures then Ok (normalized @ ''AE'')
      else try_fold (\<lambda>out d. if env_is_combining_mark E d then Ok out else push_basic_latin profile out d)
             normalized (concat (map (env_nfd E) (env_to_uppercase E c))))"

definition latin_fold ::
  "env \<Rightarrow> string \<Rightarrow> string \<Rightarrow> bool \<Rightarrow> (NormalizedKeyError, string) outcome" where
  "latin_fold E profile source expand_ligatures =
     try_fold (fold_char E profile expand_ligatures) [] (utf8_chars source)"

definition normalize_key :: "env \<Rightarrow> string \<Rightarrow> string \<Rightarrow> (NormalizedKeyError, string) outcome" where
  "normalize_key E profile source =
     rbind
       (if profile = ENGLISH_NORMALIZATION_PROFILE then uppercase_basic_latin E profile source
        else if profile = FRENCH_NORMALIZATION_PROFILE then latin_fold E profile source True
        else if profile = GERMAN_NORMALIZATION_PROFILE \<or> profile = SPANISH_NORMALIZATION_PROFILE
          then latin_fold E profile source False
        else Err (UnsupportedProfile profile))
       NormalizedKey_new"

definition implemented_profile :: "string \<Rightarrow> bool" where
  "implemented_profile p \<longleftrightarrow> p = ENGLISH_NORMALIZATION_PROFILE \<or> p = FRENCH_NORMALIZATION_PROFILE
     \<or> p = GERMAN_NORMALIZATION_PROFILE \<or> p = SPANISH_NORMALIZATION_PROFILE"

definition board_word :: "string \<Rightarrow> bool" where
  "board_word w \<longleftrightarrow> w \<noteq> [] \<and> list_all ascii_upper w"

section \<open>Pack compatibility\<close>

definition ensure_exact_pack ::
  "CompatibilityContext \<Rightarrow> PackIdentity \<Rightarrow> PackIdentity \<Rightarrow> (CompatibilityError, unit) outcome" where
  "ensure_exact_pack context expected actual =
     (if expected = actual then Ok () else Err (ExactPackRequired context expected actual))"

definition plan_cache_install ::
  "PackIdentity list \<Rightarrow> PackIdentity \<Rightarrow> (CompatibilityError, CacheDecision) outcome" where
  "plan_cache_install installed candidate =
     (if list_ex (\<lambda>i. i = candidate) installed then Ok AlreadyInstalled
      else case List.find (\<lambda>i. pi_pack_id i = pi_pack_id candidate
                 \<and> pi_pack_version i = pi_pack_version candidate) installed of
        Some conflict \<Rightarrow> Err (ConflictingPackVersion conflict candidate)
      | None \<Rightarrow> Ok InstallAlongside)"

section \<open>Manifest schema\<close>

definition validate_file_path :: "string \<Rightarrow> (PackError, unit) outcome" where
  "validate_file_path path =
     (if path = MANIFEST_FILE then Err (UnsafeFilePath path ''manifest.toml cannot list or checksum itself'')
      else if path = [] then Err (UnsafeFilePath path ''path cannot be empty'')
      else if take 1 path = ''/'' \<or> CHR 92 \<in> set path
        then Err (UnsafeFilePath path ''use a relative path with canonical `/` separators'')
      else if list_ex (\<lambda>c. c = [] \<or> c = ''.'' \<or> c = ''..'') (split_on (CHR ''/'') path)
        then Err (UnsafeFilePath path ''empty, `.` and `..` components are forbidden'')
      else if list_ex is_control (utf8_chars path)
        then Err (UnsafeFilePath path ''control characters are forbidden'')
      else Ok ())"

definition validate_normalization ::
  "string \<Rightarrow> NormalizationDescriptor \<Rightarrow> (PackError, unit) outcome" where
  "validate_normalization locale n =
     (if nd_algorithm n \<noteq> NORMALIZATION_ALGORITHM
        then Err (UnsupportedNormalizationAlgorithm (nd_algorithm n) NORMALIZATION_ALGORITHM)
      else if nd_version n \<noteq> NORMALIZATION_VERSION
        then Err (UnsupportedNormalizationVersion (nd_version n) NORMALIZATION_VERSION)
      else if (locale, nd_profile n) \<in> set [(''en'', ENGLISH_NORMALIZATION_PROFILE),
             (''fr'', FRENCH_NORMALIZATION_PROFILE), (''de'', GERMAN_NORMALIZATION_PROFILE),
             (''es'', SPANISH_NORMALIZATION_PROFILE)]
        then Ok ()
      else Err (UnsupportedNormalizationProfile locale (nd_profile n)))"

definition ascii_alphanumeric :: "char \<Rightarrow> bool" where
  "ascii_alphanumeric c \<longleftrightarrow> ascii_upper c \<or> ascii_lower c \<or> ascii_digit c"

definition slug_ok :: "string \<Rightarrow> bool" where
  "slug_ok v \<longleftrightarrow> v \<noteq> [] \<and> length v \<le> 128
     \<and> list_all (\<lambda>c. ascii_lower c \<or> ascii_digit c \<or> c = CHR ''-'') v
     \<and> (case v of [] \<Rightarrow> False | c # _ \<Rightarrow> ascii_alphanumeric c)
     \<and> (case rev v of [] \<Rightarrow> False | c # _ \<Rightarrow> ascii_alphanumeric c)
     \<and> \<not> contains_str ''--'' v"

definition validate_slug :: "string \<Rightarrow> string \<Rightarrow> (PackError, unit) outcome" where
  "validate_slug field v = ensure (slug_ok v) (InvalidManifestField field v)"

definition source_id_ok :: "string \<Rightarrow> bool" where
  "source_id_ok v \<longleftrightarrow> v \<noteq> [] \<and> length v \<le> 128
     \<and> list_all (\<lambda>c. ascii_lower c \<or> ascii_digit c \<or> c = CHR ''-'' \<or> c = CHR ''.'') v
     \<and> (case v of [] \<Rightarrow> False | c # _ \<Rightarrow> ascii_alphanumeric c)
     \<and> (case rev v of [] \<Rightarrow> False | c # _ \<Rightarrow> ascii_alphanumeric c)
     \<and> \<not> contains_str ''--'' v \<and> \<not> contains_str ''..'' v
     \<and> \<not> contains_str ''-.'' v \<and> \<not> contains_str ''.-'' v"

definition validate_source_id :: "string \<Rightarrow> (PackError, unit) outcome" where
  "validate_source_id v = ensure (source_id_ok v) (InvalidManifestField ''source.id'' v)"

definition validate_semver :: "env \<Rightarrow> string \<Rightarrow> string \<Rightarrow> (PackError, unit) outcome" where
  "validate_semver E field v = ensure (env_semver E v) (InvalidManifestField field v)"

definition validate_nonempty :: "string \<Rightarrow> string \<Rightarrow> (PackError, unit) outcome" where
  "validate_nonempty field v =
     ensure (v \<noteq> [] \<and> \<not> list_ex is_control (utf8_chars v)) (InvalidManifestField field v)"

definition validate_sha256 :: "string \<Rightarrow> string \<Rightarrow> (PackError, unit) outcome" where
  "validate_sha256 field v = ensure (valid_sha256 v) (InvalidManifestField field v)"

definition validate_file_record ::
  "string list \<Rightarrow> FileDescriptor \<Rightarrow> (PackError, string list) outcome" where
  "validate_file_record paths file =
     rbind (validate_file_path (fd_path file)) (\<lambda>_.
     rbind (validate_sha256 ''files.sha256'' (fd_sha256 file)) (\<lambda>_.
     if fd_path file \<in> set paths then Err (DuplicateFileRecord (fd_path file))
     else Ok (fd_path file # paths)))"

text \<open>The policy version error carries the number's decimal text; the model keeps the field.\<close>

definition validate_schema :: "env \<Rightarrow> PackManifest \<Rightarrow> (PackError, unit) outcome" where
  "validate_schema E m =
     rbind (ensure (pm_format_version m = CURRENT_FORMAT_VERSION)
       (UnsupportedFormatVersion (pm_format_version m) CURRENT_FORMAT_VERSION)) (\<lambda>_.
     rbind (validate_slug ''pack_id'' (pm_pack_id m)) (\<lambda>_.
     rbind (validate_semver E ''pack_version'' (pm_pack_version m)) (\<lambda>_.
     rbind (validate_normalization (pm_locale m) (pm_normalization m)) (\<lambda>_.
     rbind (validate_source_id (sd_id (pm_source m))) (\<lambda>_.
     rbind (validate_nonempty ''source.revision'' (sd_revision (pm_source m))) (\<lambda>_.
     rbind (validate_sha256 ''source.archive_sha256'' (sd_archive_sha256 (pm_source m))) (\<lambda>_.
     rbind (validate_nonempty ''source.license_id'' (sd_license_id (pm_source m))) (\<lambda>_.
     rbind (validate_slug ''policy.id'' (pd_id (pm_policy m))) (\<lambda>_.
     rbind (ensure (pd_version (pm_policy m) \<noteq> 0) (InvalidManifestField ''policy.version'' ''0'')) (\<lambda>_.
     rbind (validate_slug ''builder.name'' (bd_name (pm_builder m))) (\<lambda>_.
     rbind (validate_semver E ''builder.version'' (bd_version (pm_builder m))) (\<lambda>_.
     rbind (validate_sha256 ''content_sha256'' (pm_content_sha256 m)) (\<lambda>_.
     rbind (try_fold validate_file_record [] (pm_files m)) (\<lambda>paths.
     try_fold (\<lambda>_ required. ensure (required \<in> set paths) (MissingRequiredFileRecord required))
       () REQUIRED_PAYLOAD_FILES))))))))))))))"

definition manifest_identity :: "PackManifest \<Rightarrow> PackIdentity" where
  "manifest_identity m = \<lparr>pi_pack_id = pm_pack_id m, pi_pack_version = pm_pack_version m,
     pi_format_version = pm_format_version m, pi_locale = pm_locale m,
     pi_normalization = pm_normalization m, pi_content_sha256 = pm_content_sha256 m\<rparr>"

text \<open>
  \<^verbatim>\<open>validate_complete_file_set\<close> over the relative paths found under the pack root, and
  \<^verbatim>\<open>validate_all_keys\<close> over the keys streamed from the index (each as decoded text).
\<close>

definition validate_complete_file_set ::
  "string list \<Rightarrow> FileDescriptor list \<Rightarrow> (PackError, unit) outcome" where
  "validate_complete_file_set actual files =
     rbind (try_fold (\<lambda>_ d. ensure (fd_path d \<in> set actual) (MissingPayloadFile (fd_path d))) () files) (\<lambda>_.
     case filter (\<lambda>p. p \<notin> set (MANIFEST_FILE # map fd_path files)) (sort actual) of
       path # _ \<Rightarrow> Err (UnexpectedPayloadFile path)
     | [] \<Rightarrow> Ok ())"

definition validate_index_key ::
  "env \<Rightarrow> string \<Rightarrow> nat \<Rightarrow> nat \<Rightarrow> string \<Rightarrow> (PackError, nat) outcome" where
  "validate_index_key E profile expected_count seen key =
     rbind (ok_or (IndexWordCountMismatch expected_count (2 ^ 64 - 1)) (checked_add 64 seen 1)) (\<lambda>n.
     rbind (map_err (\<lambda>_. InvalidIndexKey n) (normalize_key E profile key)) (\<lambda>normalized.
     if normalized \<noteq> key then Err (InvalidIndexKey n) else Ok n))"

definition validate_all_keys ::
  "env \<Rightarrow> string \<Rightarrow> nat \<Rightarrow> string list \<Rightarrow> (PackError, unit) outcome" where
  "validate_all_keys E profile expected_count keys =
     rbind (try_fold (validate_index_key E profile expected_count) 0 keys) (\<lambda>actual.
     ensure (actual = expected_count) (IndexWordCountMismatch expected_count actual))"

section \<open>Normalisation yields board words\<close>

lemma push_basic_latin_Ok:
  "push_basic_latin p out c = Ok out' \<longleftrightarrow> 65 \<le> c \<and> c \<le> 90 \<and> out' = out @ [char_of c]"
  by (auto simp: push_basic_latin_def)

lemma char_of_upper: "65 \<le> c \<Longrightarrow> c \<le> 90 \<Longrightarrow> ascii_upper (char_of (c::nat))"
  by (simp add: ascii_upper_def)

lemma push_keeps_upper:
  "list_all ascii_upper out \<Longrightarrow> push_basic_latin p out c = Ok out' \<Longrightarrow> list_all ascii_upper out'"
  by (auto simp: push_basic_latin_Ok char_of_upper)

lemma uppercase_basic_latin_upper:
  "uppercase_basic_latin E p s = Ok t \<Longrightarrow> list_all ascii_upper t"
  unfolding uppercase_basic_latin_def
  by (erule try_fold_invariant) (auto intro: push_keeps_upper)

lemma fold_char_keeps_upper:
  assumes "list_all ascii_upper out" and "fold_char E p b out c = Ok out'"
  shows "list_all ascii_upper out'"
proof (cases "b \<and> c \<in> {339, 338, 230, 198}")
  case True
  with assms show ?thesis by (auto simp: fold_char_def ascii_upper_def)
next
  case False
  with assms(2) have "try_fold (\<lambda>out d. if env_is_combining_mark E d then Ok out
      else push_basic_latin p out d) out (concat (map (env_nfd E) (env_to_uppercase E c))) = Ok out'"
    by (auto simp: fold_char_def split: if_splits)
  then show ?thesis using assms(1)
    by (rule try_fold_invariant) (auto split: if_splits intro: push_keeps_upper)
qed

lemma latin_fold_upper: "latin_fold E p s b = Ok t \<Longrightarrow> list_all ascii_upper t"
  unfolding latin_fold_def
  by (erule try_fold_invariant) (auto intro: fold_char_keeps_upper)

lemma NormalizedKey_new_Ok: "NormalizedKey_new v = Ok t \<Longrightarrow> t = v \<and> v \<noteq> []"
  by (auto simp: NormalizedKey_new_def split: if_splits option.splits)

lemma normalize_key_board_word:
  assumes "normalize_key E p s = Ok t"
  shows "board_word t"
  using assms
  by (auto simp: normalize_key_def board_word_def rbind_Ok_iff
      dest!: NormalizedKey_new_Ok uppercase_basic_latin_upper latin_fold_upper split: if_splits)

lemma normalize_key_profile: "normalize_key E p s = Ok t \<Longrightarrow> implemented_profile p"
  by (auto simp: normalize_key_def implemented_profile_def split: if_splits)

section \<open>Board words are their own keys\<close>

lemma NormalizedKey_new_board_word: "board_word w \<Longrightarrow> NormalizedKey_new w = Ok w"
proof -
  assume w: "board_word w"
  then have "utf8_chars w = map of_char w" by (simp add: board_word_def utf8_chars_ascii)
  moreover have "\<not> (is_control (of_char c) \<or> is_whitespace (of_char c))" if "c \<in> set w" for c
    using w that by (auto simp: board_word_def list_all_iff ascii_upper_def is_control_def is_whitespace_def)
  ultimately have "List.find (\<lambda>c. is_control c \<or> is_whitespace c) (utf8_chars w) = None"
    by (auto simp: find_None_iff)
  then show ?thesis using w by (simp add: NormalizedKey_new_def board_word_def)
qed

lemma unicode_ok_upper:
  assumes "unicode_ok E" and "ascii_upper c"
  shows "env_to_uppercase E (of_char c) = [of_char c]" "env_nfd E (of_char c) = [of_char c]"
    "\<not> env_is_combining_mark E (of_char c)"
proof -
  have "(of_char c :: nat) < 128" using assms(2) by (rule ascii_upper_range)
  then show "env_to_uppercase E (of_char c) = [of_char c]" "env_nfd E (of_char c) = [of_char c]"
    "\<not> env_is_combining_mark E (of_char c)"
    using assms by (auto simp: unicode_ok_def ascii_upper_def)
qed

lemma push_upper: "ascii_upper c \<Longrightarrow> push_basic_latin p out (of_char c) = Ok (out @ [c])"
  by (simp add: push_basic_latin_def ascii_upper_def)

lemma fold_char_upper:
  assumes "unicode_ok E" and "ascii_upper c"
  shows "fold_char E p b out (of_char c) = Ok (out @ [c])"
proof -
  have "(of_char c :: nat) < 128" using assms(2) by (rule ascii_upper_range)
  then show ?thesis using assms by (simp add: fold_char_def unicode_ok_upper push_upper)
qed

lemma try_fold_upper:
  assumes "\<And>out c. ascii_upper c \<Longrightarrow> f out (of_char c) = Ok (out @ [c])" and "list_all ascii_upper w"
  shows "try_fold f out (map of_char w) = Ok (out @ w)"
  using assms(2) by (induction w arbitrary: out) (auto simp: assms(1))

lemma uppercase_upper:
  assumes "unicode_ok E" and "list_all ascii_upper w"
  shows "uppercase_basic_latin E p w = Ok w"
proof -
  have "concat (map (env_to_uppercase E) (map of_char w)) = map of_char w"
    using assms by (induction w) (auto simp: unicode_ok_upper)
  moreover have "try_fold (push_basic_latin p) [] (map of_char w) = Ok ([] @ w)"
    using push_upper assms(2) by (rule try_fold_upper)
  ultimately show ?thesis
    by (simp add: uppercase_basic_latin_def utf8_chars_ascii assms(2))
qed

lemma latin_fold_board:
  assumes "unicode_ok E" and "list_all ascii_upper w"
  shows "latin_fold E p w b = Ok w"
proof -
  have "try_fold (fold_char E p b) [] (map of_char w) = Ok ([] @ w)"
    using fold_char_upper[OF assms(1)] assms(2) by (rule try_fold_upper)
  then show ?thesis by (simp add: latin_fold_def utf8_chars_ascii assms(2))
qed

lemma normalize_key_fixpoint:
  assumes "unicode_ok E" and "implemented_profile p" and "board_word w"
  shows "normalize_key E p w = Ok w"
  using assms
  by (auto simp: normalize_key_def implemented_profile_def board_word_def uppercase_upper
      latin_fold_board NormalizedKey_new_board_word)

lemma normalize_key_returns: "returns (normalize_key E p s)"
proof -
  have push: "returns (push_basic_latin p out c)" for out c
    by (simp add: push_basic_latin_def)
  have "returns (uppercase_basic_latin E p s)"
    unfolding uppercase_basic_latin_def by (rule try_fold_returns[where P = "\<lambda>_. True"]) (auto simp: push)
  moreover have "returns (fold_char E p b out c)" for b out c
    unfolding fold_char_def
    by (auto intro!: try_fold_returns[where P = "\<lambda>_. True"] simp: push)
  then have "returns (latin_fold E p s b)" for b
    unfolding latin_fold_def by (auto intro!: try_fold_returns[where P = "\<lambda>_. True"])
  ultimately show ?thesis
    unfolding normalize_key_def
    by (auto intro!: returns_rbind simp: NormalizedKey_new_def split: option.splits)
qed

section \<open>The contract of normalisation\<close>

locale key_normalizer =
  fixes normalize :: "env \<Rightarrow> string \<Rightarrow> string \<Rightarrow> ('e, string) outcome"
  assumes norm_word: "normalize E p s = Ok t \<Longrightarrow> board_word t"
    and norm_profile: "normalize E p s = Ok t \<Longrightarrow> implemented_profile p"
    and norm_fixpoint: "unicode_ok E \<Longrightarrow> implemented_profile p \<Longrightarrow> board_word w \<Longrightarrow> normalize E p w = Ok w"
    and norm_returns: "returns (normalize E p s)"
begin

lemma idempotent: "unicode_ok E \<Longrightarrow> normalize E p s = Ok t \<Longrightarrow> normalize E p t = Ok t"
  using norm_fixpoint norm_word norm_profile by blast

end

interpretation key: key_normalizer normalize_key
  by unfold_locales
    (auto intro: normalize_key_board_word normalize_key_profile normalize_key_fixpoint normalize_key_returns)

section \<open>Key streams and file records\<close>

lemma index_keys_Ok:
  assumes "m + length keys < 2 ^ 64"
  shows "try_fold (validate_index_key E profile n) m keys = Ok k \<longleftrightarrow>
    k = m + length keys \<and> list_all (\<lambda>key. normalize_key E profile key = Ok key) keys"
  using assms
proof (induction keys arbitrary: m)
  case Nil
  then show ?case by auto
next
  case (Cons key keys)
  have "validate_index_key E profile n m key = Ok j \<longleftrightarrow> j = Suc m \<and> normalize_key E profile key = Ok key" for j
    using Cons.prems by (auto simp: validate_index_key_def checked_add_def rbind_Ok_iff split: if_splits)
  then show ?case using Cons by (auto simp: rbind_Ok_iff)
qed

lemma validate_file_record_Ok:
  "validate_file_record ps f = Ok qs \<longleftrightarrow> validate_file_path (fd_path f) = Ok () \<and> valid_sha256 (fd_sha256 f)
     \<and> fd_path f \<notin> set ps \<and> qs = fd_path f # ps"
  by (auto simp: validate_file_record_def validate_sha256_def rbind_Ok_iff)

lemma file_records_Ok:
  "try_fold validate_file_record ps fs = Ok paths \<Longrightarrow>
     set paths = set ps \<union> set (map fd_path fs) \<and> distinct (map fd_path fs)
     \<and> set (map fd_path fs) \<inter> set ps = {}
     \<and> list_all (\<lambda>f. validate_file_path (fd_path f) = Ok () \<and> valid_sha256 (fd_sha256 f)) fs"
proof (induction fs arbitrary: ps)
  case Nil
  then show ?case by simp
next
  case (Cons f fs)
  then have "try_fold validate_file_record (fd_path f # ps) fs = Ok paths" "fd_path f \<notin> set ps"
    "validate_file_path (fd_path f) = Ok ()" "valid_sha256 (fd_sha256 f)"
    by (auto simp: rbind_Ok_iff validate_file_record_Ok)
  then show ?case using Cons.IH[of "fd_path f # ps"] by auto
qed

lemma ensure_all_mem: "try_fold (\<lambda>_ r. ensure (r \<in> S) (e r)) () rs = Ok () \<Longrightarrow> set rs \<subseteq> S"
  by (induction rs) (auto simp: rbind_Ok_iff)

section \<open>Properties\<close>

text \<open>
  Claim C14. A key that normalises is a nonempty word over A-Z, its profile is one of the four
  implemented ones, and normalising it again gives the same key, whatever the Unicode tables
  do outside ASCII.
\<close>
theorem normalized_keys_are_canonical:
  assumes "unicode_ok E" and "normalize_key E profile source = Ok key"
  shows "board_word key \<and> implemented_profile profile \<and> normalize_key E profile key = Ok key"
  using assms key.norm_word key.norm_profile key.idempotent by blast

theorem normalized_keys_are_canonical_witness:
  "unicode_ok demo_env \<and> normalize_key demo_env FRENCH_NORMALIZATION_PROFILE ''Cafe'' = Ok ''CAFE''
   \<and> board_word ''CAFE'' \<and> normalize_key demo_env FRENCH_NORMALIZATION_PROFILE ''CAFE'' = Ok ''CAFE''"
proof -
  have "normalize_key demo_env FRENCH_NORMALIZATION_PROFILE ''Cafe'' = Ok ''CAFE''" by code_simp
  then show ?thesis
    using normalized_keys_are_canonical[OF demo_env_unicode_ok] demo_env_unicode_ok by blast
qed

text \<open>
  The key stream of an index is accepted exactly when every key is its own
  normal form under the pack's profile and the number of keys is the declared one.
\<close>
theorem validate_all_keys_iff:
  assumes "length keys < 2 ^ 64"
  shows "validate_all_keys E profile n keys = Ok () \<longleftrightarrow>
    n = length keys \<and> list_all (\<lambda>key. normalize_key E profile key = Ok key) keys"
  using index_keys_Ok[of 0 keys E profile n] assms by (auto simp: validate_all_keys_def rbind_Ok_iff)

theorem validate_all_keys_iff_witness:
  "validate_all_keys demo_env ENGLISH_NORMALIZATION_PROFILE 2 [''AB'', ''CD''] = Ok ()"
proof -
  have "normalize_key demo_env ENGLISH_NORMALIZATION_PROFILE ''AB'' = Ok ''AB''"
    "normalize_key demo_env ENGLISH_NORMALIZATION_PROFILE ''CD'' = Ok ''CD''" by code_simp+
  then show ?thesis
    using validate_all_keys_iff[of "[''AB'', ''CD'']" demo_env ENGLISH_NORMALIZATION_PROFILE 2] by simp
qed

text \<open>
  A manifest that passes schema validation lists each payload file once, under a
  path that is relative, free of empty, dot and dot-dot components and different from the
  manifest itself, and lists every required file.
\<close>
theorem validate_schema_files:
  assumes "validate_schema E m = Ok ()"
  shows "distinct (map fd_path (pm_files m))
    \<and> list_all (\<lambda>f. validate_file_path (fd_path f) = Ok () \<and> valid_sha256 (fd_sha256 f)) (pm_files m)
    \<and> set REQUIRED_PAYLOAD_FILES \<subseteq> set (map fd_path (pm_files m))"
proof -
  obtain paths where p: "try_fold validate_file_record [] (pm_files m) = Ok paths"
    "try_fold (\<lambda>_ r. ensure (r \<in> set paths) (MissingRequiredFileRecord r)) () REQUIRED_PAYLOAD_FILES = Ok ()"
    using assms unfolding validate_schema_def by (elim rbind_OkE) blast
  show ?thesis using file_records_Ok[OF p(1)] ensure_all_mem[OF p(2)] by auto
qed

definition demo_manifest :: PackManifest where
  "demo_manifest = \<lparr>pm_format_version = 1, pm_pack_id = ''demo'', pm_pack_version = ''1.0.0'', pm_locale = ''en'',
     pm_word_count = 2, pm_content_sha256 = replicate 64 (CHR ''a''),
     pm_normalization = \<lparr>nd_algorithm = NORMALIZATION_ALGORITHM, nd_version = 1,
       nd_profile = ENGLISH_NORMALIZATION_PROFILE\<rparr>,
     pm_source = \<lparr>sd_id = ''demo.list'', sd_revision = ''r1'', sd_archive_sha256 = replicate 64 (CHR ''b''),
       sd_license_id = ''MIT''\<rparr>,
     pm_policy = \<lparr>pd_id = ''demo-policy'', pd_version = 1\<rparr>, pm_builder = \<lparr>bd_name = ''builder'', bd_version = ''0.1.0''\<rparr>,
     pm_files = map (\<lambda>p. \<lparr>fd_path = p, fd_size_bytes = 1, fd_sha256 = replicate 64 (CHR ''c'')\<rparr>) REQUIRED_PAYLOAD_FILES\<rparr>"

theorem validate_schema_files_witness:
  "validate_schema demo_env demo_manifest = Ok () \<and> distinct (map fd_path (pm_files demo_manifest))"
proof -
  have "validate_schema demo_env demo_manifest = Ok ()" by code_simp
  then show ?thesis using validate_schema_files by blast
qed

end
