(* ===== verification/Model.thy ===== *)
theory Model
  imports Lexicon
begin

text \<open>
  The value types of the engine (\<^verbatim>\<open>model.rs\<close>, \<^verbatim>\<open>language.rs\<close>) and its errors
  (\<^verbatim>\<open>error.rs\<close>): coordinates, seats, tiles, racks, the bag, the board definition and
  checked scores. Small unsigned values (\<^verbatim>\<open>u8\<close>, \<^verbatim>\<open>u16\<close>, \<^verbatim>\<open>usize\<close>) are naturals;
  scores are integers with the \<^verbatim>\<open>i32\<close> range written out. The locale \<open>tile_source\<close>
  is the contract of a private tile bag: drawing and returning tiles loses none.
\<close>

section \<open>Coordinates, languages and seats\<close>

datatype Coordinate = Coordinate (row: nat) (column: nat)

definition coord_index :: "Coordinate \<Rightarrow> nat \<Rightarrow> nat" where
  "coord_index c width = row c * width + column c"

definition in_bounds :: "Coordinate \<Rightarrow> nat \<Rightarrow> nat \<Rightarrow> bool" where
  "in_bounds c width height \<longleftrightarrow> row c < height \<and> column c < width"

datatype Language = English | French | German | Spanish

fun language_code :: "Language \<Rightarrow> string" where
  "language_code English = ''en''"
| "language_code French = ''fr''"
| "language_code German = ''de''"
| "language_code Spanish = ''es''"

datatype Seat = One | Two | Three | Four

type_synonym Player = Seat

definition SEAT_ALL :: "Seat list" where "SEAT_ALL = [One, Two, Three, Four]"

fun seat_index :: "Seat \<Rightarrow> nat" where
  "seat_index One = 0"
| "seat_index Two = 1"
| "seat_index Three = 2"
| "seat_index Four = 3"

fun seat_number :: "Seat \<Rightarrow> nat" where
  "seat_number One = 1"
| "seat_number Two = 2"
| "seat_number Three = 3"
| "seat_number Four = 4"

definition from_number :: "nat \<Rightarrow> Seat option" where
  "from_number n = (if n = 1 then Some One else if n = 2 then Some Two
     else if n = 3 then Some Three else if n = 4 then Some Four else None)"

definition seat_active :: "nat \<Rightarrow> Seat list option" where
  "seat_active player_count =
     (if 2 \<le> player_count \<and> player_count \<le> length SEAT_ALL then Some (take player_count SEAT_ALL)
      else None)"

definition seat_next :: "Seat \<Rightarrow> nat \<Rightarrow> Seat option" where
  "seat_next s player_count =
     map_option (\<lambda>seats. seats ! ((seat_index s + 1) mod length seats)) (seat_active player_count)"

section \<open>Tiles, racks and the bag\<close>

type_synonym TileToken = string
type_synonym TileId = nat

datatype TileTokenError = TileTokenError string

definition TileToken_new :: "string \<Rightarrow> (TileTokenError, TileToken) outcome" where
  "TileToken_new token =
     (if length token = 1 \<and> ascii_upper (token ! 0) then Ok token else Err (TileTokenError token))"

datatype TileFace = Letter TileToken | Blank

record PhysicalTile =
  pt_id :: TileId
  pt_face :: TileFace

type_synonym Rack = "PhysicalTile list"
type_synonym Bag = "PhysicalTile list"

text \<open>\<^verbatim>\<open>draw_up_to\<close> splits tiles off the end of the bag and reverses them.\<close>

definition draw_up_to :: "Bag \<Rightarrow> nat \<Rightarrow> Bag \<times> PhysicalTile list" where
  "draw_up_to bag n =
     (let draw_count = min n (length bag); keep = length bag - draw_count
      in (take keep bag, rev (drop keep bag)))"

section \<open>Board definition and scores\<close>

datatype Premium = Normal | DoubleLetter | TripleLetter | DoubleWord | TripleWord

record BoardSquare =
  bs_coordinate :: Coordinate
  bs_premium :: Premium

record BoardDefinition =
  bd_width :: nat
  bd_height :: nat
  bd_squares :: "BoardSquare list"

definition list_get :: "'a list \<Rightarrow> nat \<Rightarrow> 'a option" where
  "list_get xs i = (if i < length xs then Some (xs ! i) else None)"

definition board_square :: "BoardDefinition \<Rightarrow> Coordinate \<Rightarrow> BoardSquare option" where
  "board_square b c =
     (if in_bounds c (bd_width b) (bd_height b) then list_get (bd_squares b) (coord_index c (bd_width b))
      else None)"

type_synonym Score = int

definition score_checked_add :: "Score \<Rightarrow> int \<Rightarrow> Score option" where
  "score_checked_add s delta = checked_add_signed 32 s delta"

section \<open>Errors\<close>

datatype RulesetId = EnglishV1 | FrenchV1

datatype RulesetDefinitionError =
    DefSchema nat nat
  | DefBoard string
  | PremiumAsymmetry Coordinate
  | DefLimit string
  | DefTiles string

datatype ConservationError =
    CountMismatch nat nat
  | DuplicateTileId TileId
  | TileIdOutOfRange TileId nat
  | FaceDistribution

text \<open>
  Where the source stores the text of a nested error in a \<^verbatim>\<open>reason\<close>, the model keeps the
  nested error itself: \<open>TileStateReason\<close> lists the texts the engine can produce.
\<close>

datatype GameError =
    RulesetUnavailable Language
  | InvalidRuleset RulesetId
  | InvalidRulesetDefinition RulesetId RulesetDefinitionError
  | MissingLexicon RulesetId PackIdentity
  | IncompatibleLexicon CompatibilityError
  | RulesetMismatch RulesetId RulesetId
  | UnsupportedSchema string nat nat
  | WrongPlayer Player Player
  | StaleVersion nat nat
  | DuplicatePlacementTile TileId
  | TileNotOwned TileId
  | TileFaceMismatch TileId
  | EmptyExchange
  | ExchangeBagTooSmall nat nat
  | EmptyPlacement
  | CoordinateOutOfBounds Coordinate
  | DuplicateCoordinate Coordinate
  | OccupiedSquare Coordinate
  | NotAligned
  | NotContiguous Coordinate
  | OpeningMoveMissesCenter
  | DisconnectedPlacement
  | NoWordFormed
  | Normalization NormalizedKeyError
  | InvalidTileToken string string
  | NonCanonicalBoardTile string string
  | InvalidWord string string
  | ScoreOverflow
  | VersionOverflow
  | ScorelessTurnOverflow
  | InvalidTileState TileStateReason
  | SeedCommitmentMismatch
  | GameFinished
  | InvalidSnapshotBoard nat nat
  | ReplayEventMismatch nat
  | InvalidReplayEvent nat string
and TileStateReason =
    PlayerCountReason nat
  | ExceedsU8 nat
  | ExceedsU16 nat
  | InvalidPhysicalToken TileId
  | FromConservation ConservationError
  | FromRandom RandomError
  | ReasonText string
and RandomError =
    RandomPlayerCount nat
  | RandomRuleset GameError
  | TooManyTiles
  | RandomConservation ConservationError

type_synonym 'a result = "(GameError, 'a) outcome"

section \<open>Seats\<close>

lemma seat_index_less4: "seat_index s < 4"
  by (cases s) auto

lemma seat_index_inj [simp]: "seat_index s = seat_index t \<longleftrightarrow> s = t"
  by (cases s; cases t) auto

lemma SEAT_ALL_nth: "SEAT_ALL ! seat_index s = s"
  by (cases s) (auto simp: SEAT_ALL_def)

lemma seat_index_SEAT_ALL: "i < 4 \<Longrightarrow> seat_index (SEAT_ALL ! i) = i"
  by (auto simp: SEAT_ALL_def numeral_eq_Suc less_Suc_eq)

lemma from_number_seat_number: "from_number (seat_number s) = Some s"
  by (cases s) (auto simp: from_number_def)

lemma seat_active_Some_iff:
  "seat_active n = Some ss \<longleftrightarrow> 2 \<le> n \<and> n \<le> 4 \<and> ss = take n SEAT_ALL"
  by (auto simp: seat_active_def SEAT_ALL_def)

lemma seat_active_length: "seat_active n = Some ss \<Longrightarrow> length ss = n"
  by (auto simp: seat_active_Some_iff SEAT_ALL_def)

lemma seat_active_nth: "seat_active n = Some ss \<Longrightarrow> i < n \<Longrightarrow> ss ! i = SEAT_ALL ! i"
  by (auto simp: seat_active_Some_iff)

lemma seat_active_mem: "seat_active n = Some ss \<Longrightarrow> s \<in> set ss \<longleftrightarrow> seat_index s < n"
  by (cases s)
    (auto simp: seat_active_Some_iff SEAT_ALL_def take_Cons' less_Suc_eq numeral_eq_Suc split: if_splits)

lemma seat_active_distinct: "seat_active n = Some ss \<Longrightarrow> distinct ss"
  by (auto simp: seat_active_Some_iff SEAT_ALL_def intro!: distinct_take)

lemma seat_next_Some:
  assumes "2 \<le> n" "n \<le> 4"
  shows "seat_next s n = Some (SEAT_ALL ! ((seat_index s + 1) mod n))"
proof -
  from assms obtain ss where ss: "seat_active n = Some ss" by (auto simp: seat_active_Some_iff)
  have "(seat_index s + 1) mod length ss < n" using assms seat_active_length[OF ss] by simp
  then show ?thesis using ss seat_active_nth[OF ss] seat_active_length[OF ss]
    by (simp add: seat_next_def)
qed

lemma seat_next_index:
  assumes "seat_next s n = Some t"
  shows "2 \<le> n \<and> n \<le> 4 \<and> seat_index t = (seat_index s + 1) mod n"
proof -
  from assms have n: "2 \<le> n" "n \<le> 4"
    by (auto simp: seat_next_def seat_active_def SEAT_ALL_def split: if_splits)
  then have "(seat_index s + 1) mod n < 4" by (meson mod_less_divisor less_le_trans zero_less_numeral)
  then show ?thesis using assms n by (auto simp: seat_next_Some seat_index_SEAT_ALL)
qed

section \<open>Coordinates\<close>

lemma coord_index_less:
  assumes "in_bounds c w h"
  shows "coord_index c w < w * h"
proof -
  from assms have "row c + 1 \<le> h" "column c < w" by (auto simp: in_bounds_def)
  then have "row c * w + column c < (row c + 1) * w" by simp
  also have "\<dots> \<le> h * w" using \<open>row c + 1 \<le> h\<close> by (rule mult_le_mono1)
  finally show ?thesis by (simp add: coord_index_def mult.commute)
qed

lemma coord_index_inj:
  assumes "column c < w" "column d < w" "coord_index c w = coord_index d w"
  shows "c = d"
proof -
  have "(row c * w + column c) div w = (row d * w + column d) div w"
    "(row c * w + column c) mod w = (row d * w + column d) mod w"
    using assms(3) by (simp_all add: coord_index_def)
  then show ?thesis using assms(1,2) by (cases c; cases d) simp
qed

section \<open>The bag as a tile source\<close>

text \<open>The drawn tiles come off the end of the bag, the last one first.\<close>

lemma draw_up_to_order: "draw_up_to bag n = (rest, drawn) \<Longrightarrow> bag = rest @ rev drawn"
  by (auto simp: draw_up_to_def Let_def)

lemma draw_up_to_mset: "draw_up_to bag n = (rest, drawn) \<Longrightarrow> mset rest + mset drawn = mset bag"
  by (drule draw_up_to_order) simp

lemma draw_up_to_length:
  "draw_up_to bag n = (rest, drawn) \<Longrightarrow> length drawn = min n (length bag) \<and> length rest = length bag - length drawn"
  by (auto simp: draw_up_to_def Let_def)

locale tile_source =
  fixes draw :: "'t list \<Rightarrow> nat \<Rightarrow> 't list \<times> 't list"
    and put_back :: "'t list \<Rightarrow> 't list \<Rightarrow> 'k \<Rightarrow> 't list option"
  assumes draw_mset: "draw bag n = (rest, drawn) \<Longrightarrow> mset rest + mset drawn = mset bag"
    and draw_count: "draw bag n = (rest, drawn) \<Longrightarrow> length drawn = min n (length bag)"
    and put_back_mset: "put_back bag ts k = Some bag' \<Longrightarrow> mset bag' = mset bag + mset ts"
begin

text \<open>A refill moves tiles from the bag to a rack, an exchange swaps as many as it returns.\<close>

lemma refill_conserves:
  assumes "draw bag n = (rest, drawn)"
  shows "mset rest + mset (rack @ drawn) = mset bag + mset rack"
  using draw_mset[OF assms] by (simp add: ac_simps flip: draw_mset[OF assms])

lemma exchange_conserves:
  assumes "draw bag (length ts) = (rest, drawn)" and "put_back rest ts k = Some bag'"
    and "mset rack = mset kept + mset ts"
  shows "mset bag' + mset (kept @ drawn) = mset bag + mset rack"
  using draw_mset[OF assms(1)] put_back_mset[OF assms(2)] assms(3)
  by (simp add: ac_simps flip: draw_mset[OF assms(1)])

lemma exchange_sizes:
  assumes "draw bag (length ts) = (rest, drawn)" and "put_back rest ts k = Some bag'"
    and "length ts \<le> length bag"
  shows "length drawn = length ts \<and> length bag' = length bag"
proof -
  have d: "length drawn = length ts" using draw_count[OF assms(1)] assms(3) by simp
  have "size (mset rest + mset drawn) = length bag" using draw_mset[OF assms(1)] by simp
  moreover have "size (mset bag') = size (mset rest + mset ts)" using put_back_mset[OF assms(2)] by simp
  ultimately show ?thesis using d by simp
qed

end

end
