(* ===== verification/Ruleset.thy ===== *)
theory Ruleset
  imports Model
begin

text \<open>
  Versioned rulesets (\<^verbatim>\<open>ruleset.rs\<close>): the physical and scoring configuration, its
  structural validation, its content identity, and the two built-in fixtures of
  \<^verbatim>\<open>rulesets/\<close> expanded from their decoded TOML form. Decoding TOML text is the toml
  package's; the fixtures below are the decoded values of the three committed files.
\<close>

section \<open>Data\<close>

definition RULESET_SCHEMA_VERSION :: nat where "RULESET_SCHEMA_VERSION = 2"

definition ENGLISH_CONTENT_SHA256 :: string where
  "ENGLISH_CONTENT_SHA256 = ''27faaa6b78de526d7e7681bf1af45ce952cb0400897190c79eab7c67b278a54b''"
definition FRENCH_CONTENT_SHA256 :: string where
  "FRENCH_CONTENT_SHA256 = ''c926a5f1ead63711d041277c9bfb3af23f3a460bb6edf57ff66408552c495193''"

fun ruleset_id_str :: "RulesetId \<Rightarrow> string" where
  "ruleset_id_str EnglishV1 = ''english-v1''"
| "ruleset_id_str FrenchV1 = ''french-v1''"

record TileDefinition =
  td_face :: TileFace
  td_count :: nat
  td_value :: nat

record GameRules =
  gr_board :: BoardDefinition
  gr_rack_capacity :: nat
  gr_bingo_bonus :: nat
  gr_exchange_minimum :: nat
  gr_scoreless_turn_limit :: nat
  gr_tiles :: "TileDefinition list"

record RulesetIdentity =
  ri_schema_version :: nat
  ri_ruleset_id :: RulesetId
  ri_content_sha256 :: string

record Ruleset =
  rs_schema_version :: nat
  rs_id :: RulesetId
  rs_language :: Language
  rs_lexicon :: PackIdentity
  rs_game :: GameRules

text \<open>\<^verbatim>\<open>total_tiles\<close> sums \<^verbatim>\<open>u32\<close> values.\<close>

definition total_tiles :: "GameRules \<Rightarrow> nat" where
  "total_tiles g = sum_list (map td_count (gr_tiles g)) mod 2 ^ 32"

definition rules_letter :: "GameRules \<Rightarrow> string \<Rightarrow> TileDefinition option" where
  "rules_letter g token =
     List.find (\<lambda>d. case td_face d of Letter l \<Rightarrow> l = token | Blank \<Rightarrow> False) (gr_tiles g)"

definition rules_blank :: "GameRules \<Rightarrow> TileDefinition option" where
  "rules_blank g = List.find (\<lambda>d. td_face d = Blank) (gr_tiles g)"

definition letter_value :: "Ruleset \<Rightarrow> string \<Rightarrow> nat option" where
  "letter_value r token = map_option td_value (rules_letter (rs_game r) token)"

section \<open>Structural validation\<close>

definition validate_square ::
  "BoardDefinition \<Rightarrow> nat \<times> BoardSquare \<Rightarrow> (RulesetDefinitionError, unit) outcome" where
  "validate_square board entry = (case entry of (index, square) \<Rightarrow>
     rbind (ok_or (DefBoard ''board row cannot be represented'') (try_from 8 (index div bd_width board))) (\<lambda>row.
     rbind (ok_or (DefBoard ''board column cannot be represented'') (try_from 8 (index mod bd_width board))) (\<lambda>column.
     if bs_coordinate square \<noteq> Coordinate row column then Err (DefBoard ''squares must be unique and row-major'')
     else let horizontal = Coordinate row (bd_width board - 1 - column);
              vertical = Coordinate (bd_height board - 1 - row) column
       in if map_option bs_premium (board_square board horizontal) \<noteq> Some (bs_premium square)
            \<or> map_option bs_premium (board_square board vertical) \<noteq> Some (bs_premium square)
          then Err (PremiumAsymmetry (bs_coordinate square))
          else Ok ())))"

definition validate_board :: "BoardDefinition \<Rightarrow> (RulesetDefinitionError, unit) outcome" where
  "validate_board board =
     (if bd_width board = 0 \<or> bd_height board = 0 \<or> bd_width board \<noteq> bd_height board
        then Err (DefBoard ''board must be nonempty and square'')
      else rbind (ok_or (DefBoard ''board square count overflows'')
             (checked_mul 64 (bd_width board) (bd_height board))) (\<lambda>expected.
        if length (bd_squares board) \<noteq> expected
          then Err (DefBoard ''board must enumerate every square exactly once'')
        else rbind (try_fold (\<lambda>_ entry. validate_square board entry) () (List.enumerate 0 (bd_squares board))) (\<lambda>_.
          if map_option bs_premium (board_square board
                (Coordinate (bd_height board div 2) (bd_width board div 2))) \<noteq> Some DoubleWord
            then Err (DefBoard ''center square must be double-word'')
          else Ok ())))"

definition validate_limits :: "GameRules \<Rightarrow> (RulesetDefinitionError, unit) outcome" where
  "validate_limits game =
     (if gr_rack_capacity game = 0 then Err (DefLimit ''rack capacity must be positive'')
      else if gr_bingo_bonus game = 0 then Err (DefLimit ''bingo bonus must be positive'')
      else if gr_exchange_minimum game < gr_rack_capacity game
        then Err (DefLimit ''exchange minimum cannot be below rack capacity'')
      else if gr_scoreless_turn_limit game = 0 then Err (DefLimit ''scoreless-turn limit must be positive'')
      else Ok ())"

definition validate_tile ::
  "nat \<times> nat \<Rightarrow> nat \<times> TileDefinition \<Rightarrow> (RulesetDefinitionError, nat \<times> nat) outcome" where
  "validate_tile acc entry = (case (acc, entry) of ((sum_count, maximum_value), (index, d)) \<Rightarrow>
     if td_count d = 0 then Err (DefTiles ''every face must have a positive count'')
     else rbind (ok_or (DefTiles ''tile count overflows'') (checked_add 16 sum_count (td_count d))) (\<lambda>sum_count'.
       let maximum' = max maximum_value (td_value d) in
       if index < 26 then
         (case td_face d of
            Blank \<Rightarrow> Err (DefTiles ''letter definitions must precede blank'')
          | Letter token \<Rightarrow>
              if token \<noteq> [char_of (65 + index)] \<or> td_value d = 0
                then Err (DefTiles ''letters must be ordered A-Z with positive values'')
              else Ok (sum_count', maximum'))
       else if td_face d \<noteq> Blank \<or> td_value d \<noteq> 0
         then Err (DefTiles ''final definition must be a zero-value blank'')
       else Ok (sum_count', maximum')))"

definition validate_tiles ::
  "TileDefinition list \<Rightarrow> nat \<Rightarrow> (RulesetDefinitionError, unit) outcome" where
  "validate_tiles tiles rack_capacity =
     (if length tiles \<noteq> 27 then Err (DefTiles ''distribution must contain A-Z and one blank definition'')
      else rbind (try_fold validate_tile (0, 0) (List.enumerate 0 tiles)) (\<lambda>(sum_count, maximum_value).
        if sum_count < rack_capacity * 2 then Err (DefTiles ''distribution cannot deal two full opening racks'')
        else rbind (ok_or (DefTiles ''maximum tile-value total overflows'')
               (checked_mul 32 sum_count maximum_value)) (\<lambda>_. Ok ())))"

definition validate_definition :: "Ruleset \<Rightarrow> (RulesetDefinitionError, unit) outcome" where
  "validate_definition r =
     (if rs_schema_version r \<noteq> RULESET_SCHEMA_VERSION
        then Err (DefSchema (rs_schema_version r) RULESET_SCHEMA_VERSION)
      else rbind (validate_board (gr_board (rs_game r))) (\<lambda>_.
        rbind (validate_limits (rs_game r)) (\<lambda>_.
        validate_tiles (gr_tiles (rs_game r)) (gr_rack_capacity (rs_game r)))))"

section \<open>Fixtures\<close>

record TileFixture =
  tf_token :: "string option"
  tf_count :: nat
  tf_value :: nat

record GameFixture =
  gf_rack_capacity :: nat
  gf_bingo_bonus :: nat
  gf_exchange_minimum :: nat
  gf_scoreless_turn_limit :: nat
  gf_tiles :: "TileFixture list"

record RulesetFixture =
  rf_schema_version :: nat
  rf_id :: RulesetId
  rf_language :: Language
  rf_pack_id :: string
  rf_pack_version :: string
  rf_pack_format_version :: nat
  rf_locale :: string
  rf_normalization_profile :: string
  rf_lexicon_content_sha256 :: string
  rf_game :: GameFixture

record BoardFixture =
  bf_schema_version :: nat
  bf_width :: nat
  bf_height :: nat
  bf_double_letter :: "(nat \<times> nat) list"
  bf_triple_letter :: "(nat \<times> nat) list"
  bf_double_word :: "(nat \<times> nat) list"
  bf_triple_word :: "(nat \<times> nat) list"

datatype RulesetFixtureError =
    FixturePin string
  | FixtureBoard string
  | FixtureTileToken TileTokenError
  | FixtureDefinition RulesetDefinitionError

definition place_premium ::
  "Premium \<Rightarrow> BoardDefinition \<Rightarrow> nat \<times> nat \<Rightarrow> (RulesetFixtureError, BoardDefinition) outcome" where
  "place_premium premium board rc =
     (let c = Coordinate (fst rc) (snd rc) in
      if \<not> in_bounds c (bd_width board) (bd_height board)
        then Err (FixtureBoard ''premium coordinate is out of bounds'')
      else rbind (ok_or (FixtureBoard ''premium coordinate is missing'')
             (list_get (bd_squares board) (coord_index c (bd_width board)))) (\<lambda>square.
        if bs_coordinate square \<noteq> c \<or> bs_premium square \<noteq> Normal
          then Err (FixtureBoard ''premium coordinates overlap or are not canonical'')
        else Ok (board\<lparr>bd_squares := (bd_squares board)[coord_index c (bd_width board) :=
               square\<lparr>bs_premium := premium\<rparr>]\<rparr>)))"

definition blank_squares :: "nat \<Rightarrow> nat \<Rightarrow> BoardSquare list" where
  "blank_squares width height =
     concat (map (\<lambda>row. map (\<lambda>column. \<lparr>bs_coordinate = Coordinate row column, bs_premium = Normal\<rparr>)
       [0..<width]) [0..<height])"

definition expand_board :: "BoardFixture \<Rightarrow> (RulesetFixtureError, BoardDefinition) outcome" where
  "expand_board f =
     rbind (ok_or (FixtureBoard ''board dimensions overflow'') (checked_mul 64 (bf_width f) (bf_height f))) (\<lambda>_.
     try_fold (\<lambda>board (premium, coordinates). try_fold (place_premium premium) board coordinates)
       \<lparr>bd_width = bf_width f, bd_height = bf_height f, bd_squares = blank_squares (bf_width f) (bf_height f)\<rparr>
       [(DoubleLetter, bf_double_letter f), (TripleLetter, bf_triple_letter f),
        (DoubleWord, bf_double_word f), (TripleWord, bf_triple_word f)])"

definition tile_of_fixture :: "TileFixture \<Rightarrow> (RulesetFixtureError, TileDefinition) outcome" where
  "tile_of_fixture t =
     rbind (case tf_token t of
         Some token \<Rightarrow> rbind (map_err FixtureTileToken (TileToken_new token)) (\<lambda>tok. Ok (Letter tok))
       | None \<Rightarrow> Ok Blank) (\<lambda>face.
     Ok \<lparr>td_face = face, td_count = tf_count t, td_value = tf_value t\<rparr>)"

fun expected_pin :: "RulesetId \<Rightarrow> Language \<times> string \<times> string" where
  "expected_pin EnglishV1 = (English, ENGLISH_NORMALIZATION_PROFILE, ENGLISH_CONTENT_SHA256)"
| "expected_pin FrenchV1 = (French, FRENCH_NORMALIZATION_PROFILE, FRENCH_CONTENT_SHA256)"

definition load_builtin_ruleset ::
  "RulesetFixture \<Rightarrow> BoardFixture \<Rightarrow> RulesetId \<Rightarrow> (RulesetFixtureError, Ruleset) outcome" where
  "load_builtin_ruleset fixture board_fixture expected_id =
     (if rf_id fixture \<noteq> expected_id
        then Err (FixturePin ''fixture ID differs from selected built-in ruleset'')
      else if (rf_language fixture, rf_normalization_profile fixture, rf_lexicon_content_sha256 fixture)
          \<noteq> expected_pin (rf_id fixture)
        then Err (FixturePin ''fixture language, normalization, or lexicon pin differs from V1'')
      else if bf_schema_version board_fixture \<noteq> 1 then Err (FixtureBoard ''unsupported board fixture schema'')
      else rbind (expand_board board_fixture) (\<lambda>board.
        rbind (traverse tile_of_fixture (gf_tiles (rf_game fixture))) (\<lambda>tiles.
        let ruleset = \<lparr>rs_schema_version = rf_schema_version fixture, rs_id = rf_id fixture,
              rs_language = rf_language fixture,
              rs_lexicon = \<lparr>pi_pack_id = rf_pack_id fixture, pi_pack_version = rf_pack_version fixture,
                pi_format_version = rf_pack_format_version fixture, pi_locale = rf_locale fixture,
                pi_normalization = \<lparr>nd_algorithm = NORMALIZATION_ALGORITHM,
                  nd_version = NORMALIZATION_VERSION, nd_profile = rf_normalization_profile fixture\<rparr>,
                pi_content_sha256 = rf_lexicon_content_sha256 fixture\<rparr>,
              rs_game = \<lparr>gr_board = board, gr_rack_capacity = gf_rack_capacity (rf_game fixture),
                gr_bingo_bonus = gf_bingo_bonus (rf_game fixture),
                gr_exchange_minimum = gf_exchange_minimum (rf_game fixture),
                gr_scoreless_turn_limit = gf_scoreless_turn_limit (rf_game fixture), gr_tiles = tiles\<rparr>\<rparr>
        in rbind (map_err FixtureDefinition (validate_definition ruleset)) (\<lambda>_. Ok ruleset))))"

definition tile_fixtures :: "(string option \<times> nat \<times> nat) list \<Rightarrow> TileFixture list" where
  "tile_fixtures = map (\<lambda>(t, c, v). \<lparr>tf_token = t, tf_count = c, tf_value = v\<rparr>)"

definition english_tiles :: "TileFixture list" where
  "english_tiles = tile_fixtures
     [(Some ''A'', 9, 1), (Some ''B'', 2, 3), (Some ''C'', 2, 3), (Some ''D'', 4, 2),
      (Some ''E'', 12, 1), (Some ''F'', 2, 4), (Some ''G'', 3, 2), (Some ''H'', 2, 4),
      (Some ''I'', 9, 1), (Some ''J'', 1, 8), (Some ''K'', 1, 5), (Some ''L'', 4, 1),
      (Some ''M'', 2, 3), (Some ''N'', 6, 1), (Some ''O'', 8, 1), (Some ''P'', 2, 3),
      (Some ''Q'', 1, 10), (Some ''R'', 6, 1), (Some ''S'', 4, 1), (Some ''T'', 6, 1),
      (Some ''U'', 4, 1), (Some ''V'', 2, 4), (Some ''W'', 2, 4), (Some ''X'', 1, 8),
      (Some ''Y'', 2, 4), (Some ''Z'', 1, 10), (None, 2, 0)]"

definition french_tiles :: "TileFixture list" where
  "french_tiles = tile_fixtures
     [(Some ''A'', 9, 1), (Some ''B'', 2, 3), (Some ''C'', 2, 3), (Some ''D'', 3, 2),
      (Some ''E'', 15, 1), (Some ''F'', 2, 4), (Some ''G'', 2, 2), (Some ''H'', 2, 4),
      (Some ''I'', 8, 1), (Some ''J'', 1, 8), (Some ''K'', 1, 10), (Some ''L'', 5, 1),
      (Some ''M'', 3, 2), (Some ''N'', 6, 1), (Some ''O'', 6, 1), (Some ''P'', 2, 3),
      (Some ''Q'', 1, 8), (Some ''R'', 6, 1), (Some ''S'', 6, 1), (Some ''T'', 6, 1),
      (Some ''U'', 6, 1), (Some ''V'', 2, 4), (Some ''W'', 1, 10), (Some ''X'', 1, 10),
      (Some ''Y'', 1, 10), (Some ''Z'', 1, 10), (None, 2, 0)]"

definition classic_board_fixture :: BoardFixture where
  "classic_board_fixture = \<lparr>bf_schema_version = 1, bf_width = 15, bf_height = 15,
     bf_double_letter = [(0, 3), (0, 11), (2, 6), (2, 8), (3, 0), (3, 7), (3, 14), (6, 2), (6, 6),
       (6, 8), (6, 12), (7, 3), (7, 11), (8, 2), (8, 6), (8, 8), (8, 12), (11, 0), (11, 7),
       (11, 14), (12, 6), (12, 8), (14, 3), (14, 11)],
     bf_triple_letter = [(1, 5), (1, 9), (5, 1), (5, 5), (5, 9), (5, 13), (9, 1), (9, 5), (9, 9),
       (9, 13), (13, 5), (13, 9)],
     bf_double_word = [(1, 1), (1, 13), (2, 2), (2, 12), (3, 3), (3, 11), (4, 4), (4, 10), (7, 7),
       (10, 4), (10, 10), (11, 3), (11, 11), (12, 2), (12, 12), (13, 1), (13, 13)],
     bf_triple_word = [(0, 0), (0, 7), (0, 14), (7, 0), (7, 14), (14, 0), (14, 7), (14, 14)]\<rparr>"

definition game_fixture :: "TileFixture list \<Rightarrow> GameFixture" where
  "game_fixture tiles = \<lparr>gf_rack_capacity = 7, gf_bingo_bonus = 50, gf_exchange_minimum = 7,
     gf_scoreless_turn_limit = 6, gf_tiles = tiles\<rparr>"

definition english_fixture :: RulesetFixture where
  "english_fixture = \<lparr>rf_schema_version = 2, rf_id = EnglishV1, rf_language = English,
     rf_pack_id = ''word-arena-en-world-v1'', rf_pack_version = ''1.0.0'', rf_pack_format_version = 1,
     rf_locale = ''en'', rf_normalization_profile = ''en-basic-latin-v1'',
     rf_lexicon_content_sha256 = ''27faaa6b78de526d7e7681bf1af45ce952cb0400897190c79eab7c67b278a54b'',
     rf_game = game_fixture english_tiles\<rparr>"

definition french_fixture :: RulesetFixture where
  "french_fixture = \<lparr>rf_schema_version = 2, rf_id = FrenchV1, rf_language = French,
     rf_pack_id = ''word-arena-fr-v1'', rf_pack_version = ''1.0.0'', rf_pack_format_version = 1,
     rf_locale = ''fr'', rf_normalization_profile = ''fr-basic-latin-fold-v1'',
     rf_lexicon_content_sha256 = ''c926a5f1ead63711d041277c9bfb3af23f3a460bb6edf57ff66408552c495193'',
     rf_game = game_fixture french_tiles\<rparr>"

fun verify_builtin :: "RulesetId \<Rightarrow> (RulesetFixtureError, Ruleset) outcome" where
  "verify_builtin EnglishV1 = load_builtin_ruleset english_fixture classic_board_fixture EnglishV1"
| "verify_builtin FrenchV1 = load_builtin_ruleset french_fixture classic_board_fixture FrenchV1"

text \<open>\<^verbatim>\<open>english_v1\<close> and \<^verbatim>\<open>french_v1\<close>: \<^verbatim>\<open>verify_builtin(id).expect(..)\<close>.\<close>

definition builtin_ruleset :: "RulesetId \<Rightarrow> Ruleset result" where
  "builtin_ruleset i = (case verify_builtin i of Ok r \<Rightarrow> Ok r | _ \<Rightarrow> Panic)"

fun for_language :: "Language \<Rightarrow> Ruleset result" where
  "for_language English = builtin_ruleset EnglishV1"
| "for_language French = builtin_ruleset FrenchV1"
| "for_language l = Err (RulesetUnavailable l)"

definition validate_ruleset :: "Ruleset \<Rightarrow> unit result" where
  "validate_ruleset r =
     rbind (map_err (InvalidRulesetDefinition (rs_id r)) (validate_definition r)) (\<lambda>_.
     rbind (builtin_ruleset (rs_id r)) (\<lambda>expected.
     if r = expected then Ok () else Err (InvalidRuleset (rs_id r))))"

definition ensure_lexicon :: "Ruleset \<Rightarrow> CompatibilityContext \<Rightarrow> PackIdentity \<Rightarrow> unit result" where
  "ensure_lexicon r context actual =
     rbind (validate_ruleset r) (\<lambda>_. map_err IncompatibleLexicon (ensure_exact_pack context (rs_lexicon r) actual))"

section \<open>Content identity\<close>

fun premium_code :: "Premium \<Rightarrow> nat" where
  "premium_code Normal = 0"
| "premium_code DoubleLetter = 1"
| "premium_code TripleLetter = 2"
| "premium_code DoubleWord = 3"
| "premium_code TripleWord = 4"

definition hash_string :: "string \<Rightarrow> byte list" where
  "hash_string s = be_bytes 8 (min (length s) (2 ^ 64 - 1)) @ string_bytes s"

definition hash_pack :: "PackIdentity \<Rightarrow> byte list" where
  "hash_pack p = hash_string (pi_pack_id p) @ hash_string (pi_pack_version p)
     @ be_bytes 4 (pi_format_version p) @ hash_string (pi_locale p)
     @ hash_string (nd_algorithm (pi_normalization p)) @ be_bytes 4 (nd_version (pi_normalization p))
     @ hash_string (nd_profile (pi_normalization p)) @ hash_string (pi_content_sha256 p)"

definition hash_square :: "BoardSquare \<Rightarrow> byte list" where
  "hash_square s = [of_nat (row (bs_coordinate s)), of_nat (column (bs_coordinate s)),
     of_nat (premium_code (bs_premium s))]"

definition hash_tile :: "TileDefinition \<Rightarrow> byte list" where
  "hash_tile t = (case td_face t of Letter token \<Rightarrow> 1 # hash_string token | Blank \<Rightarrow> [0])
     @ be_bytes 2 (td_count t) @ be_bytes 2 (td_value t)"

definition ruleset_encoding :: "Ruleset \<Rightarrow> byte list" where
  "ruleset_encoding r =
     string_bytes ''word-arena-ruleset-v1'' @ [0] @ be_bytes 4 (rs_schema_version r)
     @ hash_string (ruleset_id_str (rs_id r)) @ hash_string (language_code (rs_language r))
     @ hash_pack (rs_lexicon r)
     @ [of_nat (bd_width (gr_board (rs_game r))), of_nat (bd_height (gr_board (rs_game r)))]
     @ be_bytes 4 (min (length (bd_squares (gr_board (rs_game r)))) (2 ^ 32 - 1))
     @ concat (map hash_square (bd_squares (gr_board (rs_game r))))
     @ [of_nat (gr_rack_capacity (rs_game r))] @ be_bytes 2 (gr_bingo_bonus (rs_game r))
     @ be_bytes 2 (gr_exchange_minimum (rs_game r)) @ [of_nat (gr_scoreless_turn_limit (rs_game r))]
     @ be_bytes 4 (min (length (gr_tiles (rs_game r))) (2 ^ 32 - 1))
     @ concat (map hash_tile (gr_tiles (rs_game r)))"

definition ruleset_identity :: "env \<Rightarrow> Ruleset \<Rightarrow> RulesetIdentity" where
  "ruleset_identity E r = \<lparr>ri_schema_version = rs_schema_version r, ri_ruleset_id = rs_id r,
     ri_content_sha256 = hex_lower (env_sha256 E (ruleset_encoding r))\<rparr>"

section \<open>The expanded board\<close>

text \<open>A row-major board described by its premium at each index.\<close>

definition board_of :: "nat \<Rightarrow> nat \<Rightarrow> (nat \<Rightarrow> Premium) \<Rightarrow> BoardDefinition" where
  "board_of w h p = \<lparr>bd_width = w, bd_height = h, bd_squares =
     map (\<lambda>i. \<lparr>bs_coordinate = Coordinate (i div w) (i mod w), bs_premium = p i\<rparr>) [0..<w * h]\<rparr>"

definition classic_premium :: "nat \<Rightarrow> Premium" where
  "classic_premium i =
     (if i \<in> set (map (\<lambda>(r, c). r * 15 + c) (bf_triple_word classic_board_fixture)) then TripleWord
      else if i \<in> set (map (\<lambda>(r, c). r * 15 + c) (bf_double_word classic_board_fixture)) then DoubleWord
      else if i \<in> set (map (\<lambda>(r, c). r * 15 + c) (bf_triple_letter classic_board_fixture)) then TripleLetter
      else if i \<in> set (map (\<lambda>(r, c). r * 15 + c) (bf_double_letter classic_board_fixture)) then DoubleLetter
      else Normal)"

lemma board_of_simps [simp]: "bd_width (board_of w h p) = w" "bd_height (board_of w h p) = h"
  "length (bd_squares (board_of w h p)) = w * h"
  by (simp_all add: board_of_def)

lemma board_of_nth: "i < w * h \<Longrightarrow> bd_squares (board_of w h p) ! i =
    \<lparr>bs_coordinate = Coordinate (i div w) (i mod w), bs_premium = p i\<rparr>"
  by (simp add: board_of_def)

lemma board_of_update:
  "i < w * h \<Longrightarrow> (board_of w h p)\<lparr>bd_squares := (bd_squares (board_of w h p))[i :=
     \<lparr>bs_coordinate = Coordinate (i div w) (i mod w), bs_premium = q\<rparr>]\<rparr> = board_of w h (p(i := q))"
  by (auto simp: board_of_def nth_list_update intro!: nth_equalityI)

lemma board_of_square:
  assumes "in_bounds c w h"
  shows "board_square (board_of w h p) c = Some \<lparr>bs_coordinate = c, bs_premium = p (coord_index c w)\<rparr>"
proof -
  have "coord_index c w < w * h" using assms by (rule coord_index_less)
  moreover have "Coordinate (coord_index c w div w) (coord_index c w mod w) = c"
    using assms by (cases c) (simp add: coord_index_def in_bounds_def)
  ultimately show ?thesis
    using assms by (simp add: board_square_def list_get_def board_of_nth)
qed

lemma place_premium_board_of:
  assumes "r < h" "c < w" "p (r * w + c) = Normal"
  shows "place_premium q (board_of w h p) (r, c) = Ok (board_of w h (p(r * w + c := q)))"
proof -
  let ?i = "r * w + c"
  have ib: "in_bounds (Coordinate r c) w h" using assms by (simp add: in_bounds_def)
  then have lt: "?i < w * h" using coord_index_less[OF ib] by (simp add: coord_index_def)
  have rc: "?i div w = r" "?i mod w = c" using assms(2) by simp_all
  have "list_get (bd_squares (board_of w h p)) ?i = Some \<lparr>bs_coordinate = Coordinate r c, bs_premium = Normal\<rparr>"
    using lt rc assms(3) by (simp add: list_get_def board_of_nth)
  moreover note board_of_update[OF lt, of p q, unfolded rc]
  ultimately show ?thesis using ib by (simp add: place_premium_def coord_index_def)
qed

lemma place_premiums_board_of:
  assumes "list_all (\<lambda>(r, c). r < h \<and> c < w \<and> p (r * w + c) = Normal) cs"
    and "distinct (map (\<lambda>(r, c). r * w + c) cs)"
  shows "try_fold (place_premium q) (board_of w h p) cs =
    Ok (board_of w h (\<lambda>i. if i \<in> set (map (\<lambda>(r, c). r * w + c) cs) then q else p i))"
  using assms
proof (induction cs arbitrary: p)
  case Nil
  then show ?case by simp
next
  case (Cons rc cs)
  obtain r c where rc: "rc = (r, c)" by force
  let ?p = "p(r * w + c := q)"
  have "?p (fst x * w + snd x) = p (fst x * w + snd x)" if "x \<in> set cs" for x
    using Cons.prems(2) that by (auto simp: rc image_iff split_def)
  then have "list_all (\<lambda>(r, c). r < h \<and> c < w \<and> ?p (r * w + c) = Normal) cs"
    using Cons.prems(1) by (simp add: list_all_iff split_def)
  then have "try_fold (place_premium q) (board_of w h ?p) cs =
      Ok (board_of w h (\<lambda>i. if i \<in> set (map (\<lambda>(r, c). r * w + c) cs) then q else ?p i))"
    using Cons.IH Cons.prems(2) by simp
  moreover have "(\<lambda>i. if i \<in> set (map (\<lambda>(r, c). r * w + c) cs) then q else ?p i)
      = (\<lambda>i. if i \<in> set (map (\<lambda>(r, c). r * w + c) (rc # cs)) then q else p i)"
    by (rule ext) (simp add: rc)
  ultimately show ?case using Cons.prems rc by (simp add: place_premium_board_of)
qed

lemma blank_squares_board_of: "blank_squares w h = bd_squares (board_of w h (\<lambda>_. Normal))"
proof (induction h)
  case 0
  then show ?case by (simp add: blank_squares_def board_of_def)
next
  case (Suc h)
  have "[0..<w * Suc h] = [0..<w * h] @ map (\<lambda>c. h * w + c) [0..<w]"
  proof -
    have "[0..<w * h + w] = [0..<w * h] @ [w * h..<w * h + w]" by (rule upt_add_eq_append) simp
    moreover have "map (\<lambda>c. h * w + c) [0..<w] = [w * h..<w * h + w]"
      by (rule nth_equalityI) (simp_all add: mult.commute)
    ultimately show ?thesis by (simp add: add.commute)
  qed
  then show ?case using Suc by (simp add: blank_squares_def board_of_def)
qed

abbreviation on_list :: "Premium \<Rightarrow> (nat \<times> nat) list \<Rightarrow> (nat \<Rightarrow> Premium) \<Rightarrow> nat \<Rightarrow> Premium" where
  "on_list q cs p \<equiv> \<lambda>i. if i \<in> set (map (\<lambda>(r, c). r * 15 + c) cs) then q else p i"

definition free_list :: "(nat \<Rightarrow> Premium) \<Rightarrow> (nat \<times> nat) list \<Rightarrow> bool" where
  "free_list p cs \<longleftrightarrow> list_all (\<lambda>(r, c). r < 15 \<and> c < 15 \<and> p (r * 15 + c) = Normal) cs
     \<and> distinct (map (\<lambda>(r, c). r * 15 + c) cs)"

lemma place_free_list:
  "free_list p cs \<Longrightarrow> try_fold (place_premium q) (board_of 15 15 p) cs = Ok (board_of 15 15 (on_list q cs p))"
  unfolding free_list_def by (rule place_premiums_board_of) auto

lemma expand_free:
  fixes f :: BoardFixture
  defines "dl \<equiv> on_list DoubleLetter (bf_double_letter f) (\<lambda>_. Normal)"
  defines "tl' \<equiv> on_list TripleLetter (bf_triple_letter f) dl"
  defines "dw \<equiv> on_list DoubleWord (bf_double_word f) tl'"
  assumes "bf_width f = 15" "bf_height f = 15"
    and "free_list (\<lambda>_. Normal) (bf_double_letter f)" "free_list dl (bf_triple_letter f)"
    and "free_list tl' (bf_double_word f)" "free_list dw (bf_triple_word f)"
  shows "expand_board f = Ok (board_of 15 15 (on_list TripleWord (bf_triple_word f) dw))"
proof -
  have start: "\<lparr>bd_width = 15, bd_height = 15, bd_squares = blank_squares 15 15\<rparr> = board_of 15 15 (\<lambda>_. Normal)"
    by (simp add: blank_squares_board_of board_of_def)
  note free = place_free_list[OF assms(6), of DoubleLetter, folded dl_def]
    place_free_list[OF assms(7), of TripleLetter, folded tl'_def]
    place_free_list[OF assms(8), of DoubleWord, folded dw_def]
    place_free_list[OF assms(9), of TripleWord]
  show ?thesis
    unfolding expand_board_def assms(4,5) start
    by (simp only: try_fold.simps rbind.simps free prod.case checked_mul_def) simp
qed

lemma expand_classic: "expand_board classic_board_fixture = Ok (board_of 15 15 classic_premium)"
proof -
  have "expand_board classic_board_fixture = Ok (board_of 15 15
      (on_list TripleWord (bf_triple_word classic_board_fixture)
      (on_list DoubleWord (bf_double_word classic_board_fixture)
      (on_list TripleLetter (bf_triple_letter classic_board_fixture)
      (on_list DoubleLetter (bf_double_letter classic_board_fixture) (\<lambda>_. Normal))))))"
    by (rule expand_free; code_simp)
  then show ?thesis by (simp only: classic_premium_def[abs_def])
qed

lemma try_fold_unit_Ok:
  "(\<And>x. x \<in> set xs \<Longrightarrow> f x = Ok ()) \<Longrightarrow> try_fold (\<lambda>_ x. f x) () xs = Ok ()"
  by (induction xs) auto

lemma validate_board_of:
  assumes "0 < w" "w \<le> 256"
    and "\<And>r c. r < w \<Longrightarrow> c < w \<Longrightarrow> p (r * w + (w - 1 - c)) = p (r * w + c)"
    and "\<And>r c. r < w \<Longrightarrow> c < w \<Longrightarrow> p ((w - 1 - r) * w + c) = p (r * w + c)"
    and "p (w div 2 * w + w div 2) = DoubleWord"
  shows "validate_board (board_of w w p) = Ok ()"
proof -
  have sq: "validate_square (board_of w w p) (i, bd_squares (board_of w w p) ! i) = Ok ()" if "i < w * w" for i
  proof -
    have d: "i div w < w" "i mod w < w" using that assms(1) by (simp_all add: less_mult_imp_div_less)
    have ib: "in_bounds (Coordinate (i div w) (w - 1 - i mod w)) w w"
      "in_bounds (Coordinate (w - 1 - i div w) (i mod w)) w w"
      using d assms(1) by (auto simp: in_bounds_def)
    have "p (i div w * w + (w - 1 - i mod w)) = p i" "p ((w - 1 - i div w) * w + i mod w) = p i"
      using assms(3)[OF d] assms(4)[OF d] by simp_all
    moreover have "bd_squares (board_of w w p) ! i
        = \<lparr>bs_coordinate = Coordinate (i div w) (i mod w), bs_premium = p i\<rparr>"
      using that by (simp add: board_of_def)
    ultimately show ?thesis
      using d(1) less_le_trans[OF d(1) assms(2)] less_le_trans[OF d(2) assms(2)] ib
      by (simp add: validate_square_def try_from_def Let_def board_of_square coord_index_def
          del: diff_diff_left mod_less_divisor)
  qed
  have "try_fold (\<lambda>_ e. validate_square (board_of w w p) e) () (List.enumerate 0 (bd_squares (board_of w w p))) = Ok ()"
    by (rule try_fold_unit_Ok) (auto simp: in_set_enumerate_eq sq)
  moreover have "w * w < 2 ^ 64"
  proof -
    have "w * w \<le> 256 * 256" by (rule mult_le_mono[OF assms(2) assms(2)])
    also have "(256 * 256 :: nat) < 2 ^ 64" by simp
    finally show ?thesis .
  qed
  moreover have "in_bounds (Coordinate (w div 2) (w div 2)) w w" using assms(1) by (simp add: in_bounds_def)
  ultimately show ?thesis
    using assms(1,5) by (simp add: validate_board_def checked_mul_def board_of_square coord_index_def)
qed

definition sym_list :: "(nat \<times> nat) list \<Rightarrow> bool" where
  "sym_list cs \<longleftrightarrow> list_all (\<lambda>(r, c). r < 15 \<and> c < 15
     \<and> List.member cs (r, 14 - c) \<and> List.member cs (14 - r, c)) cs"

lemma sym_list_mem:
  assumes "sym_list cs" "r < 15" "c < 15"
  shows "(r * 15 + c) \<in> set (map (\<lambda>(r, c). r * 15 + c) cs) \<longleftrightarrow> (r, c) \<in> set cs"
    "(r, 14 - c) \<in> set cs \<longleftrightarrow> (r, c) \<in> set cs" "(14 - r, c) \<in> set cs \<longleftrightarrow> (r, c) \<in> set cs"
proof -
  have cl: "a < 15 \<and> b < 15 \<and> (a, 14 - b) \<in> set cs \<and> (14 - a, b) \<in> set cs" if "(a, b) \<in> set cs" for a b
    using assms(1) that by (auto simp: sym_list_def list_all_iff)
  have inj: "a = r \<and> b = c" if "a * 15 + b = r * 15 + c" "b < 15" for a b
    using that assms(3) by presburger
  then show "(r * 15 + c) \<in> set (map (\<lambda>(r, c). r * 15 + c) cs) \<longleftrightarrow> (r, c) \<in> set cs"
    using cl by (force simp: image_iff)
  have "14 - (14 - c) = c" "14 - (14 - r) = r" using assms by auto
  then show "(r, 14 - c) \<in> set cs \<longleftrightarrow> (r, c) \<in> set cs" "(14 - r, c) \<in> set cs \<longleftrightarrow> (r, c) \<in> set cs"
    using cl by metis+
qed

lemma classic_symmetric:
  assumes "r < 15" "c < 15"
  shows "classic_premium (r * 15 + (14 - c)) = classic_premium (r * 15 + c)"
    "classic_premium ((14 - r) * 15 + c) = classic_premium (r * 15 + c)"
proof -
  have sym: "sym_list (bf_double_letter classic_board_fixture)" "sym_list (bf_triple_letter classic_board_fixture)"
    "sym_list (bf_double_word classic_board_fixture)" "sym_list (bf_triple_word classic_board_fixture)"
    by code_simp+
  have b: "14 - c < 15" "14 - r < 15" by simp_all
  show "classic_premium (r * 15 + (14 - c)) = classic_premium (r * 15 + c)"
    "classic_premium ((14 - r) * 15 + c) = classic_premium (r * 15 + c)"
    unfolding classic_premium_def
    by (simp_all only: sym[THEN sym_list_mem(1), OF assms] sym[THEN sym_list_mem(1), OF assms(1) b(1)]
        sym[THEN sym_list_mem(1), OF b(2) assms(2)] sym[THEN sym_list_mem(2), OF assms]
        sym[THEN sym_list_mem(3), OF assms])
qed

lemma validate_classic: "validate_board (board_of 15 15 classic_premium) = Ok ()"
proof (rule validate_board_of)
  show "classic_premium (15 div 2 * 15 + 15 div 2) = DoubleWord" by code_simp
qed (use classic_symmetric in auto)

section \<open>The built-in rulesets\<close>

definition builtin_tile_fixtures :: "RulesetId \<Rightarrow> TileFixture list" where
  "builtin_tile_fixtures i = (case i of EnglishV1 \<Rightarrow> english_tiles | FrenchV1 \<Rightarrow> french_tiles)"

definition tile_definitions :: "TileFixture list \<Rightarrow> TileDefinition list" where
  "tile_definitions = map (\<lambda>t. \<lparr>td_face = (case tf_token t of Some l \<Rightarrow> Letter l | None \<Rightarrow> Blank),
     td_count = tf_count t, td_value = tf_value t\<rparr>)"

definition the_builtin :: "RulesetId \<Rightarrow> Ruleset" where
  "the_builtin i = \<lparr>rs_schema_version = 2, rs_id = i, rs_language = fst (expected_pin i),
     rs_lexicon = \<lparr>
       pi_pack_id = (case i of EnglishV1 \<Rightarrow> ''word-arena-en-world-v1'' | FrenchV1 \<Rightarrow> ''word-arena-fr-v1''),
       pi_pack_version = ''1.0.0'', pi_format_version = 1,
       pi_locale = (case i of EnglishV1 \<Rightarrow> ''en'' | FrenchV1 \<Rightarrow> ''fr''),
       pi_normalization = \<lparr>nd_algorithm = NORMALIZATION_ALGORITHM, nd_version = NORMALIZATION_VERSION,
         nd_profile = fst (snd (expected_pin i))\<rparr>,
       pi_content_sha256 = snd (snd (expected_pin i))\<rparr>,
     rs_game = \<lparr>gr_board = board_of 15 15 classic_premium, gr_rack_capacity = 7, gr_bingo_bonus = 50,
       gr_exchange_minimum = 7, gr_scoreless_turn_limit = 6,
       gr_tiles = tile_definitions (builtin_tile_fixtures i)\<rparr>\<rparr>"

lemma expand_tiles: "traverse tile_of_fixture (builtin_tile_fixtures i) = Ok (tile_definitions (builtin_tile_fixtures i))"
  unfolding tile_definitions_def
proof (rule traverse_map_Ok)
  have "list_all (\<lambda>t. case tf_token t of Some l \<Rightarrow> length l = 1 \<and> ascii_upper (l ! 0) | None \<Rightarrow> True)
      (builtin_tile_fixtures i)"
    by (induction i; code_simp)
  then show "tile_of_fixture t = Ok \<lparr>td_face = (case tf_token t of Some l \<Rightarrow> Letter l | None \<Rightarrow> Blank),
      td_count = tf_count t, td_value = tf_value t\<rparr>" if "t \<in> set (builtin_tile_fixtures i)" for t
    using that by (auto simp: list_all_iff tile_of_fixture_def TileToken_new_def split: option.splits)
qed

lemma validate_tiles_builtin: "validate_tiles (tile_definitions (builtin_tile_fixtures i)) 7 = Ok ()"
  by (induction i; code_simp)

lemma validate_the_builtin: "validate_definition (the_builtin i) = Ok ()"
  by (simp add: validate_definition_def the_builtin_def RULESET_SCHEMA_VERSION_def validate_classic
      validate_limits_def validate_tiles_builtin)

lemma verify_builtin_Ok: "verify_builtin i = Ok (the_builtin i)"
proof (cases i)
  case EnglishV1
  then show ?thesis
    using expand_tiles[of EnglishV1] validate_the_builtin[of EnglishV1]
    by (simp add: load_builtin_ruleset_def english_fixture_def game_fixture_def expand_classic
        the_builtin_def builtin_tile_fixtures_def Let_def profile_defs ENGLISH_CONTENT_SHA256_def)
      (simp add: classic_board_fixture_def)
next
  case FrenchV1
  then show ?thesis
    using expand_tiles[of FrenchV1] validate_the_builtin[of FrenchV1]
    by (simp add: load_builtin_ruleset_def french_fixture_def game_fixture_def expand_classic
        the_builtin_def builtin_tile_fixtures_def Let_def profile_defs FRENCH_CONTENT_SHA256_def)
      (simp add: classic_board_fixture_def)
qed

lemma builtin_ruleset_Ok [simp]: "builtin_ruleset i = Ok (the_builtin i)"
  by (simp add: builtin_ruleset_def verify_builtin_Ok)

lemma validate_ruleset_iff: "validate_ruleset r = Ok u \<longleftrightarrow> r = the_builtin (rs_id r)"
proof
  assume "r = the_builtin (rs_id r)"
  then have "validate_definition r = Ok ()" by (metis validate_the_builtin)
  then show "validate_ruleset r = Ok u" using \<open>r = the_builtin (rs_id r)\<close>
    by (simp add: validate_ruleset_def)
qed (simp add: validate_ruleset_def rbind_Ok_iff split: if_splits)

lemma the_builtin_simps [simp]:
  "rs_id (the_builtin i) = i" "rs_schema_version (the_builtin i) = 2"
  "gr_board (rs_game (the_builtin i)) = board_of 15 15 classic_premium"
  "gr_rack_capacity (rs_game (the_builtin i)) = 7" "gr_bingo_bonus (rs_game (the_builtin i)) = 50"
  "gr_exchange_minimum (rs_game (the_builtin i)) = 7"
  "gr_scoreless_turn_limit (rs_game (the_builtin i)) = 6"
  "gr_tiles (rs_game (the_builtin i)) = tile_definitions (builtin_tile_fixtures i)"
  by (simp_all add: the_builtin_def)

lemma total_tiles_builtin: "total_tiles (rs_game (the_builtin i)) = (case i of EnglishV1 \<Rightarrow> 100 | FrenchV1 \<Rightarrow> 102)"
  unfolding total_tiles_def the_builtin_simps by (induction i; code_simp)

lemma builtin_profile: "implemented_profile (nd_profile (pi_normalization (rs_lexicon (the_builtin i))))"
  by (cases i) (simp_all add: the_builtin_def implemented_profile_def)

lemma builtin_values: "list_all (\<lambda>d. td_value d \<le> 10) (gr_tiles (rs_game (the_builtin i)))"
  unfolding the_builtin_simps by (induction i; code_simp)

lemma builtin_tile_faces:
  "map td_face (gr_tiles (rs_game (the_builtin i))) = map (\<lambda>n. Letter [char_of n]) [65..<91] @ [Blank]"
  unfolding the_builtin_simps by (induction i; code_simp)

section \<open>Properties\<close>

text \<open>
  Loading either committed fixture succeeds, so \<^verbatim>\<open>english_v1\<close> and
  \<^verbatim>\<open>french_v1\<close> never panic; the result passes its own validation and is a 15 by 15 board
  with racks of seven, a bonus of fifty, an exchange minimum of seven, a scoreless limit of six
  and 100 or 102 tiles.
\<close>
theorem builtin_rulesets_load:
  "\<exists>r. verify_builtin i = Ok r \<and> builtin_ruleset i = Ok r \<and> validate_ruleset r = Ok () \<and> rs_id r = i
     \<and> bd_width (gr_board (rs_game r)) = 15 \<and> bd_height (gr_board (rs_game r)) = 15
     \<and> gr_rack_capacity (rs_game r) = 7 \<and> gr_bingo_bonus (rs_game r) = 50
     \<and> gr_exchange_minimum (rs_game r) = 7 \<and> gr_scoreless_turn_limit (rs_game r) = 6
     \<and> total_tiles (rs_game r) = (case i of EnglishV1 \<Rightarrow> 100 | FrenchV1 \<Rightarrow> 102)"
  by (intro exI[of _ "the_builtin i"])
    (simp add: verify_builtin_Ok validate_ruleset_iff total_tiles_builtin del: the_builtin_simps(8))

text \<open>
  Validation accepts exactly the built-in definition of the ruleset's own id: a
  ruleset with any other board, distribution, limit or lexicon pin is refused.
\<close>
theorem accepted_rulesets_are_builtin:
  "validate_ruleset r = Ok () \<longleftrightarrow> builtin_ruleset (rs_id r) = Ok r"
  by (auto simp: validate_ruleset_iff)

end
