(* ===== verification/Deal.thy ===== *)
theory Deal
  imports Ruleset
begin

text \<open>
  Deterministic randomness, bag construction and deals (\<^verbatim>\<open>random.rs\<close>): the
  xoshiro256** generator on 64-bit words, rejection sampling, the Fisher-Yates shuffle, the
  opening deal, the return of exchanged tiles, and the check that no tile is lost or
  duplicated. SHA-256 is the parameter \<open>env_sha256\<close>.

  The rejection loop of \<^verbatim>\<open>uniform_below\<close> has no bound: it is a partial function, and a
  loop that never accepts is the outcome \<open>Diverge\<close>.
\<close>

unbundle bit_operations_syntax

section \<open>The generator\<close>

datatype RngAlgorithm = Xoshiro256StarStarV1

fun rng_as_str :: "RngAlgorithm \<Rightarrow> string" where
  "rng_as_str Xoshiro256StarStarV1 = ''xoshiro256-star-star-v1''"

type_synonym GameSeed = "byte list"

record SeedCommitment =
  sc_algorithm :: RngAlgorithm
  sc_sha256 :: string

record DeterministicRng =
  rng_s0 :: "64 word"
  rng_s1 :: "64 word"
  rng_s2 :: "64 word"
  rng_s3 :: "64 word"

definition u64_from_be_bytes :: "byte list \<Rightarrow> 64 word" where
  "u64_from_be_bytes bs = foldl (\<lambda>acc b. acc * 256 + ucast b) 0 bs"

text \<open>The four words of a digest; the all-zero state is replaced.\<close>

definition rng_of_digest :: "byte list \<Rightarrow> DeterministicRng" where
  "rng_of_digest bytes =
     (let chunk = (\<lambda>i. u64_from_be_bytes (take 8 (drop (8 * i) bytes)));
          state = \<lparr>rng_s0 = chunk 0, rng_s1 = chunk 1, rng_s2 = chunk 2, rng_s3 = chunk 3\<rparr>
      in if state = \<lparr>rng_s0 = 0, rng_s1 = 0, rng_s2 = 0, rng_s3 = 0\<rparr>
         then state\<lparr>rng_s0 := 0x9e3779b97f4a7c15\<rparr> else state)"

definition rng_new :: "env \<Rightarrow> GameSeed \<Rightarrow> DeterministicRng" where
  "rng_new E seed = rng_of_digest
     (env_sha256 E (string_bytes ''word-arena-xoshiro256-star-star-v1'' @ [0] @ seed))"

definition rng_for_exchange :: "env \<Rightarrow> GameSeed \<Rightarrow> nat \<Rightarrow> DeterministicRng" where
  "rng_for_exchange E seed transition = rng_of_digest
     (env_sha256 E (string_bytes ''word-arena-exchange-xoshiro256-star-star-v1'' @ [0] @ seed
        @ be_bytes 8 transition))"

definition next_u64 :: "DeterministicRng \<Rightarrow> 64 word \<times> DeterministicRng" where
  "next_u64 g =
     (let result = word_rotl 7 (rng_s1 g * 5) * 9;
          shifted = push_bit 17 (rng_s1 g);
          s2 = rng_s2 g XOR rng_s0 g;
          s3 = rng_s3 g XOR rng_s1 g;
          s1 = rng_s1 g XOR s2;
          s0 = rng_s0 g XOR s3
      in (result, \<lparr>rng_s0 = s0, rng_s1 = s1, rng_s2 = s2 XOR shifted, rng_s3 = word_rotl 45 s3\<rparr>))"

partial_function (option) uniform_loop ::
  "64 word \<Rightarrow> 64 word \<Rightarrow> DeterministicRng \<Rightarrow> (64 word \<times> DeterministicRng) option" where
  "uniform_loop threshold upper g =
     (let (value, g') = next_u64 g
      in if threshold \<le> value then Some (value mod upper, g') else uniform_loop threshold upper g')"

definition threshold_of :: "64 word \<Rightarrow> 64 word" where
  "threshold_of upper = (- upper) mod upper"

definition uniform_below :: "DeterministicRng \<Rightarrow> 64 word \<Rightarrow> (64 word \<times> DeterministicRng) option" where
  "uniform_below g upper = uniform_loop (threshold_of upper) upper g"

text \<open>\<^verbatim>\<open>values.swap(i, j)\<close> and the shuffle, \<open>upper_index\<close> counting down to one.\<close>

definition swap_at :: "'a list \<Rightarrow> nat \<Rightarrow> nat \<Rightarrow> ('e, 'a list) outcome" where
  "swap_at xs i j =
     (if i < length xs \<and> j < length xs then Ok (xs[i := xs ! j, j := xs ! i]) else Panic)"

fun shuffle_down :: "DeterministicRng \<Rightarrow> nat \<Rightarrow> 'a list \<Rightarrow> ('e, 'a list) outcome" where
  "shuffle_down g 0 xs = Ok xs"
| "shuffle_down g (Suc k) xs =
     rbind (of_loop (uniform_below g (of_nat (Suc k + 1)))) (\<lambda>(selected, g').
     rbind (swap_at xs (Suc k) (unat selected)) (\<lambda>ys.
     shuffle_down g' k ys))"

definition shuffle :: "DeterministicRng \<Rightarrow> 'a list \<Rightarrow> ('e, 'a list) outcome" where
  "shuffle g xs = shuffle_down g (length xs - 1) xs"

section \<open>Seed commitments\<close>

definition seed_commitment_sha256 :: "env \<Rightarrow> RngAlgorithm \<Rightarrow> GameSeed \<Rightarrow> string" where
  "seed_commitment_sha256 E algorithm seed = hex_lower (env_sha256 E
     (string_bytes ''word-arena-seed-commitment-v1'' @ [0] @ string_bytes (rng_as_str algorithm) @ [0] @ seed))"

definition commitment :: "env \<Rightarrow> GameSeed \<Rightarrow> RngAlgorithm \<Rightarrow> SeedCommitment" where
  "commitment E seed algorithm =
     \<lparr>sc_algorithm = algorithm, sc_sha256 = seed_commitment_sha256 E algorithm seed\<rparr>"

definition commitment_verify :: "env \<Rightarrow> SeedCommitment \<Rightarrow> GameSeed \<Rightarrow> bool" where
  "commitment_verify E c seed \<longleftrightarrow> sc_sha256 c = seed_commitment_sha256 E (sc_algorithm c) seed"

section \<open>Tiles, conservation and deals\<close>

definition push_tile :: "TileFace \<Rightarrow> PhysicalTile list \<Rightarrow> nat \<Rightarrow> (RandomError, PhysicalTile list) outcome" where
  "push_tile face tiles _ =
     rbind (ok_or TooManyTiles (try_from 16 (length tiles))) (\<lambda>i. Ok (tiles @ [\<lparr>pt_id = i, pt_face = face\<rparr>]))"

definition build_tiles :: "Ruleset \<Rightarrow> (RandomError, PhysicalTile list) outcome" where
  "build_tiles r =
     try_fold (\<lambda>tiles d. try_fold (push_tile (td_face d)) tiles [0..<td_count d]) [] (gr_tiles (rs_game r))"

definition expected_faces :: "Ruleset \<Rightarrow> TileFace list" where
  "expected_faces r = concat (map (\<lambda>d. replicate (td_count d) (td_face d)) (gr_tiles (rs_game r)))"

definition check_tile ::
  "nat \<Rightarrow> TileFace list \<Rightarrow> TileId list \<times> nat \<Rightarrow> PhysicalTile \<Rightarrow> (ConservationError, TileId list \<times> nat) outcome" where
  "check_tile expected_total faces acc tile = (case acc of (ids, actual_total) \<Rightarrow>
     rbind (ok_or (CountMismatch expected_total (2 ^ 64 - 1)) (checked_add 64 actual_total 1)) (\<lambda>actual'.
     if expected_total \<le> pt_id tile then Err (TileIdOutOfRange (pt_id tile) expected_total)
     else if pt_id tile \<in> set ids then Err (DuplicateTileId (pt_id tile))
     else rbind (index_at faces (pt_id tile)) (\<lambda>face.
       if face \<noteq> pt_face tile then Err FaceDistribution
       else Ok (pt_id tile # ids, actual'))))"

definition verify_tile_conservation ::
  "Ruleset \<Rightarrow> Bag \<Rightarrow> Rack list \<Rightarrow> PhysicalTile list \<Rightarrow> (ConservationError, unit) outcome" where
  "verify_tile_conservation r bag racks board =
     (let expected_total = total_tiles (rs_game r) in
      rbind (try_fold (check_tile expected_total (expected_faces r)) ([], 0) (bag @ concat racks @ board))
        (\<lambda>(ids, actual_total).
      if actual_total \<noteq> expected_total then Err (CountMismatch expected_total actual_total) else Ok ()))"

record InitialDeal =
  id_algorithm :: RngAlgorithm
  id_commitment :: SeedCommitment
  id_bag :: Bag
  id_racks :: "Rack list"

definition deal_step ::
  "nat \<Rightarrow> Bag \<times> Rack list \<Rightarrow> Seat \<Rightarrow> (RandomError, Bag \<times> Rack list) outcome" where
  "deal_step capacity acc seat = (case acc of (bag, racks) \<Rightarrow>
     (let (rest, drawn) = draw_up_to bag capacity in
      rbind (index_at racks (seat_index seat)) (\<lambda>rack.
      rbind (store_at racks (seat_index seat) (rack @ drawn)) (\<lambda>racks'. Ok (rest, racks')))))"

definition prepare_initial_deal_for_players ::
  "env \<Rightarrow> Ruleset \<Rightarrow> GameSeed \<Rightarrow> nat \<Rightarrow> (RandomError, InitialDeal) outcome" where
  "prepare_initial_deal_for_players E r seed player_count =
     rbind (map_err RandomRuleset (validate_ruleset r)) (\<lambda>_.
     rbind (ok_or (RandomPlayerCount player_count) (seat_active player_count)) (\<lambda>seats.
     rbind (build_tiles r) (\<lambda>tiles.
     rbind (shuffle (rng_new E seed) tiles) (\<lambda>shuffled.
     rbind (try_fold (deal_step (gr_rack_capacity (rs_game r))) (shuffled, replicate player_count []) seats)
       (\<lambda>(bag, racks).
     rbind (map_err RandomConservation (verify_tile_conservation r bag racks [])) (\<lambda>_.
     Ok \<lparr>id_algorithm = Xoshiro256StarStarV1, id_commitment = commitment E seed Xoshiro256StarStarV1,
       id_bag = bag, id_racks = racks\<rparr>))))))"

definition prepare_initial_deal :: "env \<Rightarrow> Ruleset \<Rightarrow> GameSeed \<Rightarrow> (RandomError, InitialDeal) outcome" where
  "prepare_initial_deal E r seed = prepare_initial_deal_for_players E r seed 2"

definition return_tiles_to_bag ::
  "env \<Rightarrow> Bag \<Rightarrow> PhysicalTile list \<Rightarrow> GameSeed \<Rightarrow> nat \<Rightarrow> Bag result" where
  "return_tiles_to_bag E bag returned seed transition =
     shuffle (rng_for_exchange E seed transition) (bag @ sort_key pt_id returned)"

section \<open>The generator never reaches the zero state\<close>

lemma bit_push_fixed:
  fixes w :: "64 word"
  assumes "w = push_bit 17 w"
  shows "w = 0"
proof (rule bit_word_eqI)
  fix n
  have "\<not> bit w n" for n
  proof (induction n rule: less_induct)
    case (less n)
    have "bit w n = bit (push_bit 17 w) n" using assms by simp
    then show ?case using less by (auto simp: bit_push_bit_iff)
  qed
  then show "bit w n = bit 0 n" by simp
qed

lemma xor_eq_0D: "a XOR b = 0 \<Longrightarrow> a = (b :: 64 word)"
proof -
  assume "a XOR b = 0"
  moreover have "a = (a XOR b) XOR b" by (simp add: xor.assoc)
  ultimately show ?thesis by simp
qed

lemma word_rotl_eq_0: "word_rotl n (w :: 64 word) = 0 \<longleftrightarrow> w = 0"
proof
  assume "word_rotl n w = 0"
  then have "word_rotr n (word_rotl n w) = word_rotr n 0" by simp
  then show "w = 0" by simp
qed simp

definition rng_zero :: "DeterministicRng" where
  "rng_zero = \<lparr>rng_s0 = 0, rng_s1 = 0, rng_s2 = 0, rng_s3 = 0\<rparr>"

lemma next_u64_nonzero:
  assumes "snd (next_u64 g) = rng_zero"
  shows "g = rng_zero"
proof -
  obtain a b c d where g: "g = \<lparr>rng_s0 = a, rng_s1 = b, rng_s2 = c, rng_s3 = d\<rparr>" by (cases g) simp
  from assms have "a XOR (d XOR b) = 0 \<and> b XOR (c XOR a) = 0
      \<and> (c XOR a) XOR push_bit 17 b = 0 \<and> d XOR b = 0"
    by (auto simp: next_u64_def Let_def g rng_zero_def word_rotl_eq_0)
  then have 1: "b XOR (c XOR a) = 0" "(c XOR a) XOR push_bit 17 b = 0" "d XOR b = 0" and "a XOR (d XOR b) = 0"
    by blast+
  from this(4) have a: "a = 0" unfolding 1(3) by simp
  have "b = c" "c = push_bit 17 b" "d = b"
    using 1[THEN xor_eq_0D] by (simp_all add: a)
  moreover from this have "b = 0" using bit_push_fixed by metis
  ultimately show ?thesis using a by (simp add: g rng_zero_def)
qed

lemma rng_of_digest_nonzero: "rng_of_digest bs \<noteq> rng_zero"
  by (simp add: rng_of_digest_def rng_zero_def Let_def)

section \<open>Rejection sampling\<close>

fun rng_stream :: "DeterministicRng \<Rightarrow> nat \<Rightarrow> 64 word" where
  "rng_stream g 0 = fst (next_u64 g)"
| "rng_stream g (Suc n) = rng_stream (snd (next_u64 g)) n"

lemma uniform_loop_terminates:
  "(\<exists>r. uniform_loop t u g = Some r) \<longleftrightarrow> (\<exists>n. t \<le> rng_stream g n)"
proof
  assume "\<exists>n. t \<le> rng_stream g n"
  then obtain n where "t \<le> rng_stream g n" by blast
  then show "\<exists>r. uniform_loop t u g = Some r"
  proof (induction n arbitrary: g)
    case 0
    then show ?case by (subst uniform_loop.simps) (auto simp: split_def Let_def)
  next
    case (Suc n)
    then show ?case by (subst uniform_loop.simps) (auto simp: split_def Let_def)
  qed
next
  have "\<exists>n. t \<le> rng_stream g n" if "uniform_loop t u g = Some r" for r
  proof (rule uniform_loop.raw_induct[of "\<lambda>t u g r. \<exists>n. t \<le> rng_stream g n", OF _ that])
    fix f :: "64 word \<Rightarrow> 64 word \<Rightarrow> DeterministicRng \<Rightarrow> (64 word \<times> DeterministicRng) option"
      and t u g r
    assume IH: "\<And>t u g r. f t u g = Some r \<Longrightarrow> \<exists>n. t \<le> rng_stream g n"
      and eq: "(let (value, g') = next_u64 g in if t \<le> value then Some (value mod u, g') else f t u g') = Some r"
    show "\<exists>n. t \<le> rng_stream g n"
    proof (cases "t \<le> fst (next_u64 g)")
      case True
      then show ?thesis by (intro exI[of _ 0]) simp
    next
      case False
      then have "f t u (snd (next_u64 g)) = Some r" using eq by (simp add: split_def Let_def)
      then obtain n where "t \<le> rng_stream (snd (next_u64 g)) n" using IH by blast
      then show ?thesis by (intro exI[of _ "Suc n"]) simp
    qed
  qed
  then show "\<exists>r. uniform_loop t u g = Some r \<Longrightarrow> \<exists>n. t \<le> rng_stream g n" by blast
qed

lemma uniform_loop_value:
  assumes "uniform_loop t u g = Some (v, g')"
  shows "\<exists>x. t \<le> x \<and> v = x mod u"
proof -
  have "\<exists>x. t \<le> x \<and> fst (v, g') = x mod u"
    by (rule uniform_loop.raw_induct[of "\<lambda>t u g r. \<exists>x. t \<le> x \<and> fst r = x mod u", OF _ assms])
      (auto simp: split_def Let_def split: if_splits)
  then show ?thesis by simp
qed

lemma uniform_below_less:
  assumes "uniform_below g u = Some (v, g')" and "0 < u"
  shows "v < u"
  using uniform_loop_value[OF assms(1)[unfolded uniform_below_def]] assms(2)
  by (auto simp: word_mod_less_divisor)

lemma residue_ex1:
  assumes "r < (n::nat)"
  shows "\<exists>!v. b \<le> v \<and> v < b + n \<and> v mod n = r"
proof (rule ex_ex1I)
  let ?d = "(r + (n - b mod n)) mod n"
  have "(b + ?d) mod n = (b mod n + (r + (n - b mod n))) mod n" by (simp add: mod_add_left_eq mod_add_right_eq)
  also have "b mod n + (r + (n - b mod n)) = r + n" using assms mod_less_divisor[of n b] by linarith
  also have "(r + n) mod n = r" using assms by simp
  finally have "b \<le> b + ?d \<and> b + ?d < b + n \<and> (b + ?d) mod n = r" using assms by simp
  then show "\<exists>v. b \<le> v \<and> v < b + n \<and> v mod n = r" by blast
next
  have le: "v = w" if "b \<le> v" "v \<le> w" "w < b + n" "v mod n = w mod n" for v w
  proof -
    have "n dvd w - v" using that mod_eq_dvd_iff_nat[of v w n] by simp
    moreover have "w - v < n" using that by linarith
    ultimately show ?thesis using that(2) dvd_imp_le[of n "w - v"] by (cases "w - v = 0") auto
  qed
  show "v = w" if "b \<le> v \<and> v < b + n \<and> v mod n = r" "b \<le> w \<and> w < b + n \<and> w mod n = r" for v w
    using le[of v w] le[of w v] that by (cases "v \<le> w") auto
qed

lemma card_residues:
  assumes "r < (n::nat)"
  shows "card {v. t \<le> v \<and> v < t + q * n \<and> v mod n = r} = q"
proof (induction q)
  case 0
  then show ?case by simp
next
  case (Suc q)
  let ?b = "t + q * n" and ?A = "\<lambda>l u. {v. l \<le> v \<and> v < u \<and> v mod n = r}"
  obtain m where m: "?A ?b (?b + n) = {m}"
  proof -
    obtain m where "?b \<le> m \<and> m < ?b + n \<and> m mod n = r"
      and "\<And>v. ?b \<le> v \<and> v < ?b + n \<and> v mod n = r \<Longrightarrow> v = m"
      using residue_ex1[OF assms, of ?b] by (elim ex1E) blast
    then have "?A ?b (?b + n) = {m}" by blast
    then show ?thesis by (rule that)
  qed
  have "m \<in> ?A ?b (?b + n)" unfolding m by simp
  then have "m \<notin> ?A t ?b" by simp
  moreover have "?A t (t + Suc q * n) = insert m (?A t ?b)"
  proof -
    have "?A t (t + Suc q * n) = ?A t ?b \<union> ?A ?b (?b + n)" by auto
    then show ?thesis by (simp only: m Un_insert_right Un_empty_right)
  qed
  moreover have "finite (?A t ?b)" by (rule finite_subset[of _ "{..<?b}"]) auto
  ultimately show ?case using Suc by simp
qed

lemma threshold_nat:
  assumes "0 < (u :: 64 word)"
  shows "unat (threshold_of u) = 2 ^ 64 mod unat u"
proof -
  have "0 < unat u" using assms by (simp add: word_less_nat_alt)
  moreover have "unat u < 2 ^ 64" using unsigned_less[of u, where ?'a = nat] by simp
  moreover have "unat (- u) = 2 ^ 64 - unat u"
  proof -
    have "(of_nat (2 ^ 64 - unat u) :: 64 word) = of_nat (2 ^ 64) - of_nat (unat u)"
      using \<open>unat u < 2 ^ 64\<close> by (intro of_nat_diff) simp
    also have "(of_nat (2 ^ 64) :: 64 word) = 0" by simp
    finally have "- u = of_nat (2 ^ 64 - unat u)" by simp
    then show ?thesis using \<open>0 < unat u\<close> by (simp only: unat_of_nat) simp
  qed
  ultimately show ?thesis
    by (simp add: threshold_of_def unat_mod_distrib le_mod_geq)
qed

lemma rejection_unbiased_card:
  assumes "(r :: 64 word) < u"
  shows "card {v. threshold_of u \<le> v \<and> v mod u = r} = 2 ^ 64 div unat u"
proof -
  let ?n = "unat u" and ?t = "2 ^ 64 mod unat u" and ?q = "2 ^ 64 div unat u"
  have u: "0 < u" using assms by (metis le_less_trans word_zero_le)
  have len: "?t + ?q * ?n = 2 ^ 64" by simp
  have "bij_betw unat {v. threshold_of u \<le> v \<and> v mod u = r} {v. ?t \<le> v \<and> v < ?t + ?q * ?n \<and> v mod ?n = unat r}"
  proof (rule bij_betw_byWitness[where f' = of_nat])
    show "unat ` {v. threshold_of u \<le> v \<and> v mod u = r} \<subseteq> {v. ?t \<le> v \<and> v < ?t + ?q * ?n \<and> v mod ?n = unat r}"
      unfolding len using threshold_nat[OF u]
      by (auto simp: word_le_nat_alt unat_mod_distrib intro!: unsigned_less[where ?'a = nat and ?'b = 64, simplified])
    show "of_nat ` {v. ?t \<le> v \<and> v < ?t + ?q * ?n \<and> v mod ?n = unat r} \<subseteq> {v. threshold_of u \<le> v \<and> v mod u = r}"
      unfolding len using threshold_nat[OF u]
      by (auto simp: word_le_nat_alt unat_mod_distrib unat_of_nat word_unat_eq_iff)
    show "\<forall>y\<in>{v. ?t \<le> v \<and> v < ?t + ?q * ?n \<and> v mod ?n = unat r}. unat (of_nat y :: 64 word) = y"
      unfolding len by (simp add: unat_of_nat)
  qed simp
  then have "card {v. threshold_of u \<le> v \<and> v mod u = r}
      = card {v. ?t \<le> v \<and> v < ?t + ?q * ?n \<and> v mod ?n = unat r}" by (rule bij_betw_same_card)
  also have "\<dots> = ?q" by (rule card_residues) (use assms in \<open>simp add: word_less_nat_alt\<close>)
  finally show ?thesis .
qed

section \<open>The shuffle is a permutation\<close>

lemma swap_at_mset: "swap_at xs i j = Ok ys \<Longrightarrow> mset ys = mset xs"
  by (auto simp: swap_at_def mset_swap split: if_splits)

lemma swap_at_length: "swap_at xs i j = Ok ys \<Longrightarrow> length ys = length xs"
  by (auto simp: swap_at_def split: if_splits)

lemma swap_at_Ok:
  "i < length xs \<Longrightarrow> j < length xs \<Longrightarrow> swap_at xs i j = Ok (xs[i := xs ! j, j := xs ! i])"
  by (simp add: swap_at_def)

lemma shuffle_down_mset: "shuffle_down g k xs = Ok ys \<Longrightarrow> mset ys = mset xs"
  by (induction k arbitrary: g xs) (auto simp: rbind_Ok_iff split_def dest!: swap_at_mset)

lemma shuffle_mset: "shuffle g xs = Ok ys \<Longrightarrow> mset ys = mset xs"
  by (simp add: shuffle_def shuffle_down_mset)

lemma uniform_below_index:
  assumes "uniform_below g (of_nat n) = Some (v, g')" and "0 < n" "n < 2 ^ 64"
  shows "unat v < n"
proof -
  have u: "unat (of_nat n :: 64 word) = n" using assms(3) by (simp add: unat_of_nat)
  have "0 < (of_nat n :: 64 word)" unfolding word_less_nat_alt u using assms(2) by simp
  then show ?thesis using uniform_below_less[OF assms(1)] by (simp add: word_less_nat_alt u)
qed

lemma shuffle_down_outcome:
  assumes "k < length xs \<or> k = 0" and "length xs < 2 ^ 64"
  shows "(\<exists>ys. shuffle_down g k xs = Ok ys) \<or> shuffle_down g k xs = Diverge"
  using assms
proof (induction k arbitrary: g xs)
  case 0
  then show ?case by simp
next
  case (Suc k)
  show ?case
  proof (cases "uniform_below g (of_nat (Suc k + 1))")
    case None
    then show ?thesis by simp
  next
    case (Some r)
    obtain v g' where r: "r = (v, g')" by force
    have "unat v < Suc k + 1"
      using Some Suc.prems unfolding r by (intro uniform_below_index) auto
    then show ?thesis using Suc Some r by (simp add: swap_at_Ok)
  qed
qed

lemma shuffle_outcome:
  assumes "length xs < 2 ^ 64"
  shows "(\<exists>ys. shuffle g xs = Ok ys) \<or> shuffle g xs = Diverge"
  unfolding shuffle_def using assms by (intro shuffle_down_outcome) auto

section \<open>Labelled tiles\<close>

definition label_tiles :: "TileFace list \<Rightarrow> PhysicalTile list" where
  "label_tiles faces = map (\<lambda>(i, f). \<lparr>pt_id = i, pt_face = f\<rparr>) (List.enumerate 0 faces)"

definition expected_tiles :: "Ruleset \<Rightarrow> PhysicalTile list" where
  "expected_tiles r = label_tiles (expected_faces r)"

lemma label_tiles_length [simp]: "length (label_tiles fs) = length fs"
  by (simp add: label_tiles_def)

lemma label_tiles_mem: "t \<in> set (label_tiles fs) \<longleftrightarrow> pt_id t < length fs \<and> fs ! pt_id t = pt_face t"
proof -
  have "t \<in> set (label_tiles fs) \<longleftrightarrow> (\<exists>i < length fs. t = \<lparr>pt_id = i, pt_face = fs ! i\<rparr>)"
    unfolding label_tiles_def in_set_conv_nth by (auto simp: nth_enumerate_eq)
  then show ?thesis by (cases t) auto
qed

lemma label_tiles_ids: "map pt_id (label_tiles fs) = [0..<length fs]"
  by (simp add: label_tiles_def comp_def split_def flip: map_map) (simp add: comp_def split_def)

lemma label_tiles_distinct: "distinct (label_tiles fs)"
  using label_tiles_ids[of fs] by (metis distinct_map distinct_upt)

lemma label_tiles_snoc: "label_tiles (fs @ [f]) = label_tiles fs @ [\<lparr>pt_id = length fs, pt_face = f\<rparr>]"
  by (simp add: label_tiles_def enumerate_append_eq)

lemma push_tiles:
  "length fs + length zs \<le> 2 ^ 16 \<Longrightarrow>
     try_fold (push_tile f) (label_tiles fs) zs = Ok (label_tiles (fs @ replicate (length zs) f))"
proof (induction zs arbitrary: fs)
  case Nil
  then show ?case by simp
next
  case (Cons z zs)
  have "push_tile f (label_tiles fs) z = Ok (label_tiles (fs @ [f]))"
    using Cons.prems by (simp add: push_tile_def try_from_def label_tiles_snoc)
  then show ?case using Cons by (simp add: replicate_app_Cons_same)
qed

lemma build_tiles_Ok:
  assumes "length (expected_faces r) \<le> 2 ^ 16"
  shows "build_tiles r = Ok (expected_tiles r)"
proof -
  have "try_fold (\<lambda>tiles d. try_fold (push_tile (td_face d)) tiles [0..<td_count d]) (label_tiles fs) ds
      = Ok (label_tiles (fs @ concat (map (\<lambda>d. replicate (td_count d) (td_face d)) ds)))"
    if "length fs + length (concat (map (\<lambda>d. replicate (td_count d) (td_face d)) ds)) \<le> 2 ^ 16" for fs ds
    using that
  proof (induction ds arbitrary: fs)
    case Nil
    then show ?case by simp
  next
    case (Cons d ds)
    then have "try_fold (push_tile (td_face d)) (label_tiles fs) [0..<td_count d]
        = Ok (label_tiles (fs @ replicate (td_count d) (td_face d)))"
      by (subst push_tiles) simp_all
    then show ?case using Cons by simp
  qed
  from this[of "[]" "gr_tiles (rs_game r)"] assms show ?thesis
    by (simp add: build_tiles_def expected_tiles_def expected_faces_def label_tiles_def)
qed

lemma expected_faces_builtin: "length (expected_faces (the_builtin i)) = total_tiles (rs_game (the_builtin i))"
proof -
  have "sum_list (map td_count (gr_tiles (rs_game (the_builtin i)))) \<le> 102"
    unfolding the_builtin_simps by (induction i; code_simp)
  then show ?thesis
    by (simp add: expected_faces_def total_tiles_def length_concat comp_def del: the_builtin_simps)
qed

section \<open>Tile conservation\<close>

lemma check_tile_Ok:
  "check_tile (length faces) faces (ids, k) t = Ok acc \<longleftrightarrow>
     t \<in> set (label_tiles faces) \<and> pt_id t \<notin> set ids \<and> k + 1 < 2 ^ 64 \<and> acc = (pt_id t # ids, k + 1)"
  by (auto simp: check_tile_def rbind_Ok_iff checked_add_def label_tiles_mem split: if_splits)

lemma check_tiles_sound:
  assumes "try_fold (check_tile (length faces) faces) (ids, k) ts = Ok (ids', k')"
  shows "k' = k + length ts \<and> list_all (\<lambda>t. t \<in> set (label_tiles faces)) ts
    \<and> distinct (map pt_id ts) \<and> set ids \<inter> pt_id ` set ts = {}"
  using assms
proof (induction ts arbitrary: ids k)
  case Nil
  then show ?case by simp
next
  case (Cons t ts)
  from Cons.prems have "try_fold (check_tile (length faces) faces) (pt_id t # ids, k + 1) ts = Ok (ids', k')"
    and "t \<in> set (label_tiles faces)" "pt_id t \<notin> set ids"
    by (auto simp: check_tile_Ok rbind_Ok_iff)
  then show ?case using Cons.IH[of "pt_id t # ids" "k + 1"] by auto
qed

lemma check_tiles_complete:
  assumes "list_all (\<lambda>t. t \<in> set (label_tiles faces)) ts" "distinct (map pt_id ts)"
    and "set ids \<inter> pt_id ` set ts = {}" "k + length ts < 2 ^ 64"
  shows "\<exists>ids'. try_fold (check_tile (length faces) faces) (ids, k) ts = Ok (ids', k + length ts)"
  using assms
proof (induction ts arbitrary: ids k)
  case Nil
  then show ?case by simp
next
  case (Cons t ts)
  then have "check_tile (length faces) faces (ids, k) t = Ok (pt_id t # ids, k + 1)"
    by (auto simp: check_tile_Ok)
  moreover have "\<exists>ids'. try_fold (check_tile (length faces) faces) (pt_id t # ids, k + 1) ts
      = Ok (ids', k + 1 + length ts)"
    by (rule Cons.IH) (use Cons.prems in auto)
  ultimately show ?case by simp
qed

lemma mset_eq_label_iff:
  "mset ts = mset (label_tiles fs) \<longleftrightarrow>
     length ts = length fs \<and> list_all (\<lambda>t. t \<in> set (label_tiles fs)) ts \<and> distinct (map pt_id ts)"
proof
  assume m: "mset ts = mset (label_tiles fs)"
  then have "mset (map pt_id ts) = mset (map pt_id (label_tiles fs))" by simp
  then have "distinct (map pt_id ts)" unfolding label_tiles_ids by (metis distinct_upt mset_eq_imp_distinct_iff)
  then show "length ts = length fs \<and> list_all (\<lambda>t. t \<in> set (label_tiles fs)) ts \<and> distinct (map pt_id ts)"
    using m mset_eq_length[OF m] mset_eq_setD[OF m] by (simp add: list_all_iff)
next
  assume a: "length ts = length fs \<and> list_all (\<lambda>t. t \<in> set (label_tiles fs)) ts \<and> distinct (map pt_id ts)"
  then have d: "distinct ts" by (simp add: distinct_map)
  have "set ts = set (label_tiles fs)"
  proof (rule card_subset_eq)
    show "set ts \<subseteq> set (label_tiles fs)" using a by (auto simp: list_all_iff)
    show "card (set ts) = card (set (label_tiles fs))"
      using a d label_tiles_distinct[of fs] by (simp add: distinct_card)
  qed simp
  then show "mset ts = mset (label_tiles fs)"
    using d label_tiles_distinct[of fs] by (simp add: set_eq_iff_mset_eq_distinct)
qed

lemma total_tiles_less: "total_tiles g < 2 ^ 64"
proof -
  have "total_tiles g < 2 ^ 32" by (simp add: total_tiles_def)
  also have "(2 ^ 32 :: nat) < 2 ^ 64" by simp
  finally show ?thesis .
qed

lemma verify_tile_conservation_iff:
  assumes "length (expected_faces r) = total_tiles (rs_game r)"
  shows "verify_tile_conservation r bag racks board = Ok u \<longleftrightarrow>
    mset (bag @ concat racks @ board) = mset (expected_tiles r)"
proof -
  let ?ts = "bag @ concat racks @ board"
  let ?P = "length ?ts = length (expected_faces r) \<and> list_all (\<lambda>t. t \<in> set (label_tiles (expected_faces r))) ?ts
      \<and> distinct (map pt_id ?ts)"
  have "verify_tile_conservation r bag racks board = Ok u \<longleftrightarrow> ?P"
  proof
    assume "verify_tile_conservation r bag racks board = Ok u"
    then obtain ids' k' where f: "try_fold (check_tile (length (expected_faces r)) (expected_faces r)) ([], 0) ?ts
        = Ok (ids', k')" "k' = length (expected_faces r)"
      by (auto simp: verify_tile_conservation_def Let_def rbind_Ok_iff assms[symmetric] split: if_splits)
    show ?P using check_tiles_sound[OF f(1)] f(2) by (simp only: add_0)
  next
    assume P: ?P
    then have "0 + length ?ts < 2 ^ 64" using total_tiles_less[of "rs_game r"] assms by simp
    with P obtain ids' where "try_fold (check_tile (total_tiles (rs_game r)) (expected_faces r)) ([], 0) ?ts
        = Ok (ids', length ?ts)"
      using check_tiles_complete[of "expected_faces r" ?ts "[]" 0] by (auto simp: assms)
    then show "verify_tile_conservation r bag racks board = Ok u"
      using P by (simp add: verify_tile_conservation_def assms)
  qed
  then show ?thesis by (simp only: mset_eq_label_iff expected_tiles_def)
qed

lemma verify_tile_conservation_returns:
  assumes "length (expected_faces r) = total_tiles (rs_game r)"
  shows "returns (verify_tile_conservation r bag racks board)"
proof -
  have "returns (check_tile (length (expected_faces r)) (expected_faces r) acc t)" for acc t
    by (cases acc) (auto simp: check_tile_def intro!: returns_rbind)
  then have "returns (try_fold (check_tile (total_tiles (rs_game r)) (expected_faces r)) acc ts)" for acc ts
    unfolding assms[symmetric] by (intro try_fold_returns[where P = "\<lambda>_. True"]) auto
  then show ?thesis unfolding verify_tile_conservation_def Let_def by (auto intro!: returns_rbind)
qed

section \<open>The opening deal\<close>

lemma deal_step_Ok:
  assumes "seat_index s < length racks" and "draw_up_to bag cap = (rest, drawn)"
  shows "deal_step cap (bag, racks) s = Ok (rest, racks[seat_index s := racks ! seat_index s @ drawn])"
  using assms by (simp add: deal_step_def index_at_def store_at_def)

lemma deal_racks:
  assumes "\<And>s. s \<in> set seats \<Longrightarrow> seat_index s < length racks \<and> racks ! seat_index s = []"
    and "distinct seats" "cap * length seats \<le> length bag"
  shows "\<exists>bag' racks'. try_fold (deal_step cap) (bag, racks) seats = Ok (bag', racks')
    \<and> mset bag' + mset (concat racks') = mset bag + mset (concat racks)
    \<and> length bag' = length bag - cap * length seats \<and> length racks' = length racks
    \<and> (\<forall>s \<in> set seats. length (racks' ! seat_index s) = cap)
    \<and> (\<forall>i < length racks. (\<forall>s \<in> set seats. seat_index s \<noteq> i) \<longrightarrow> racks' ! i = racks ! i)"
  using assms
proof (induction seats arbitrary: bag racks)
  case Nil
  then show ?case by auto
next
  case (Cons s seats)
  obtain rest drawn where d: "draw_up_to bag cap = (rest, drawn)" by force
  let ?racks = "racks[seat_index s := drawn]"
  have s: "seat_index s < length racks" "racks ! seat_index s = []" using Cons.prems(1) by auto
  have step: "deal_step cap (bag, racks) s = Ok (rest, ?racks)" using deal_step_Ok[OF s(1) d] s(2) by simp
  have len: "length drawn = cap" "length rest = length bag - cap"
    using draw_up_to_length[OF d] Cons.prems(3) by auto
  have ms: "mset rest + mset (concat ?racks) = mset bag + mset (concat racks)"
    using concat_update_mset[OF s(1), of drawn] draw_up_to_mset[OF d] s(2) by (simp add: ac_simps)
  have "\<exists>bag' racks'. try_fold (deal_step cap) (rest, ?racks) seats = Ok (bag', racks')
    \<and> mset bag' + mset (concat racks') = mset rest + mset (concat ?racks)
    \<and> length bag' = length rest - cap * length seats \<and> length racks' = length ?racks
    \<and> (\<forall>s \<in> set seats. length (racks' ! seat_index s) = cap)
    \<and> (\<forall>i < length ?racks. (\<forall>s \<in> set seats. seat_index s \<noteq> i) \<longrightarrow> racks' ! i = ?racks ! i)"
  proof (rule Cons.IH)
    show "seat_index t < length ?racks \<and> ?racks ! seat_index t = []" if "t \<in> set seats" for t
      using that Cons.prems(1,2) by (auto simp: nth_list_update)
  qed (use Cons.prems len in auto)
  then obtain bag' racks' where r: "try_fold (deal_step cap) (rest, ?racks) seats = Ok (bag', racks')"
    "mset bag' + mset (concat racks') = mset bag + mset (concat racks)"
    "length bag' = length rest - cap * length seats" "length racks' = length racks"
    "\<forall>s \<in> set seats. length (racks' ! seat_index s) = cap"
    "\<forall>i < length racks. (\<forall>s \<in> set seats. seat_index s \<noteq> i) \<longrightarrow> racks' ! i = ?racks ! i"
    unfolding ms by auto
  have "length (racks' ! seat_index s) = cap" using r(6) s(1) Cons.prems(2) len by auto
  then show ?case using step r len by (intro exI[of _ bag'] exI[of _ racks']) auto
qed

lemma initial_racks:
  assumes "seat_active n = Some seats" "7 * n \<le> length bag"
  shows "\<exists>bag' racks'. try_fold (deal_step 7) (bag, replicate n []) seats = Ok (bag', racks')
    \<and> mset bag' + mset (concat racks') = mset bag \<and> length bag' = length bag - 7 * n
    \<and> length racks' = n \<and> list_all (\<lambda>r. length r = 7) racks'"
proof -
  have n: "length seats = n" by (rule seat_active_length[OF assms(1)])
  obtain bag' racks' where r: "try_fold (deal_step 7) (bag, replicate n []) seats = Ok (bag', racks')"
    "mset bag' + mset (concat racks') = mset bag + mset (concat (replicate n []))"
    "length bag' = length bag - 7 * length seats" "length racks' = length (replicate n ([] :: Rack))"
    "\<forall>s \<in> set seats. length (racks' ! seat_index s) = 7"
    using deal_racks[of seats "replicate n []" 7 bag] assms n seat_active_distinct[OF assms(1)]
      seat_active_mem[OF assms(1)] by auto
  have "length (racks' ! i) = 7" if "i < n" for i
  proof -
    have "i < 4" using that assms(1) by (auto simp: seat_active_Some_iff)
    then have "seat_index (SEAT_ALL ! i) = i" by (rule seat_index_SEAT_ALL)
    then show ?thesis using r(5) that seat_active_mem[OF assms(1)] by metis
  qed
  then show ?thesis using r n by (auto simp: list_all_length)
qed

lemma deal_of_shuffle:
  assumes "2 \<le> n" "n \<le> 4" and sh: "shuffle (rng_new E seed) (expected_tiles (the_builtin i)) = (Ok ts :: (RandomError, _) outcome)"
  shows "\<exists>d. prepare_initial_deal_for_players E (the_builtin i) seed n = Ok d
    \<and> mset (id_bag d) + mset (concat (id_racks d)) = mset (expected_tiles (the_builtin i))
    \<and> length (id_racks d) = n \<and> list_all (\<lambda>r. length r = 7) (id_racks d)
    \<and> length (id_bag d) = total_tiles (rs_game (the_builtin i)) - 7 * n"
proof -
  let ?r = "the_builtin i"
  have tot: "length (expected_faces ?r) = total_tiles (rs_game ?r)" by (rule expected_faces_builtin)
  then have small: "length (expected_faces ?r) \<le> 102" "28 \<le> length (expected_faces ?r)"
    by (simp_all add: total_tiles_builtin split: RulesetId.splits)
  have ts: "mset ts = mset (expected_tiles ?r)" "length ts = total_tiles (rs_game ?r)"
    using shuffle_mset[OF sh] mset_eq_length[OF shuffle_mset[OF sh]] tot by (simp_all add: expected_tiles_def)
  obtain seats where seats: "seat_active n = Some seats" using assms by (auto simp: seat_active_Some_iff)
  obtain bag racks where d: "try_fold (deal_step 7) (ts, replicate n []) seats = Ok (bag, racks)"
    "mset bag + mset (concat racks) = mset ts" "length bag = length ts - 7 * n"
    "length racks = n" "list_all (\<lambda>r. length r = 7) racks"
    using initial_racks[OF seats, of ts] assms(2) small ts tot by auto
  have "verify_tile_conservation ?r bag racks [] = Ok ()"
    using d(2) ts(1) by (simp add: verify_tile_conservation_iff[OF tot])
  moreover have "validate_ruleset ?r = Ok ()" by (simp add: validate_ruleset_iff)
  moreover have "build_tiles ?r = Ok (expected_tiles ?r)" using small by (intro build_tiles_Ok) simp
  ultimately show ?thesis using d ts seats sh by (simp add: prepare_initial_deal_for_players_def)
qed

lemma prepare_initial_deal_Ok:
  assumes "prepare_initial_deal_for_players E r seed n = Ok d"
  shows "r = the_builtin (rs_id r)" "2 \<le> n" "n \<le> 4"
    "mset (id_bag d) + mset (concat (id_racks d)) = mset (expected_tiles r)"
    "length (id_racks d) = n" "list_all (\<lambda>x. length x = 7) (id_racks d)"
    "length (id_bag d) = total_tiles (rs_game r) - 7 * n"
    "id_algorithm d = Xoshiro256StarStarV1" "id_commitment d = commitment E seed Xoshiro256StarStarV1"
proof -
  have v: "validate_ruleset r = Ok ()" and n: "seat_active n \<noteq> None"
    using assms by (auto simp: prepare_initial_deal_for_players_def rbind_Ok_iff)
  from v show r: "r = the_builtin (rs_id r)" by (simp add: validate_ruleset_iff)
  from n show n': "2 \<le> n" "n \<le> 4" by (auto simp: seat_active_def SEAT_ALL_def split: if_splits)
  define i where "i = rs_id r"
  have i: "r = the_builtin i" using r by (simp only: i_def)
  have "length (expected_faces r) \<le> 102"
    unfolding i by (simp add: expected_faces_builtin total_tiles_builtin split: RulesetId.splits)
  then have b: "build_tiles r = Ok (expected_tiles r)" by (intro build_tiles_Ok) simp
  then obtain ts where "shuffle (rng_new E seed) (expected_tiles r) = (Ok ts :: (RandomError, _) outcome)"
    using assms by (auto simp: prepare_initial_deal_for_players_def rbind_Ok_iff)
  from deal_of_shuffle[OF n' this[unfolded i]] assms[unfolded i]
  show "mset (id_bag d) + mset (concat (id_racks d)) = mset (expected_tiles r)"
    "length (id_racks d) = n" "list_all (\<lambda>x. length x = 7) (id_racks d)"
    "length (id_bag d) = total_tiles (rs_game r) - 7 * n"
    unfolding i by auto
  show "id_algorithm d = Xoshiro256StarStarV1" "id_commitment d = commitment E seed Xoshiro256StarStarV1"
    using assms by (auto simp: prepare_initial_deal_for_players_def rbind_Ok_iff split_def)
qed

lemma deal_outcome:
  assumes "validate_ruleset r = Ok ()" "2 \<le> n" "n \<le> 4"
  shows "(\<exists>d. prepare_initial_deal_for_players E r seed n = Ok d)
    \<or> prepare_initial_deal_for_players E r seed n = Diverge"
proof -
  obtain i where i: "r = the_builtin i" using assms(1) by (auto simp: validate_ruleset_iff)
  have len: "length (expected_faces r) \<le> 102"
    unfolding i by (simp add: expected_faces_builtin total_tiles_builtin split: RulesetId.splits)
  have bt: "build_tiles r = Ok (expected_tiles r)" using len by (intro build_tiles_Ok) simp
  obtain seats where s: "seat_active n = Some seats" using assms by (auto simp: seat_active_Some_iff)
  let ?sh = "shuffle (rng_new E seed) (expected_tiles r) :: (RandomError, PhysicalTile list) outcome"
  have "length (expected_tiles r) < 2 ^ 64" using len by (simp add: expected_tiles_def)
  then have "(\<exists>ts. ?sh = Ok ts) \<or> ?sh = Diverge" by (rule shuffle_outcome)
  then show ?thesis
  proof
    assume "\<exists>ts. ?sh = Ok ts"
    then show ?thesis using deal_of_shuffle[OF assms(2,3)] unfolding i by blast
  next
    assume "?sh = Diverge"
    then show ?thesis using assms bt s by (simp add: prepare_initial_deal_for_players_def)
  qed
qed

section \<open>The bag as a tile source\<close>

definition put_back :: "Bag \<Rightarrow> PhysicalTile list \<Rightarrow> env \<times> GameSeed \<times> nat \<Rightarrow> Bag option" where
  "put_back bag ts k = (case k of (E, seed, t) \<Rightarrow>
     (case return_tiles_to_bag E bag ts seed t of Ok b \<Rightarrow> Some b | _ \<Rightarrow> None))"

lemma put_back_Some: "put_back bag ts (E, seed, t) = Some b \<longleftrightarrow> return_tiles_to_bag E bag ts seed t = Ok b"
  by (auto simp: put_back_def split: outcome.splits)

lemma return_tiles_mset: "return_tiles_to_bag E bag ts seed t = Ok b \<Longrightarrow> mset b = mset bag + mset ts"
  unfolding return_tiles_to_bag_def by (drule shuffle_mset) simp

lemma return_tiles_outcome:
  "length bag + length ts < 2 ^ 64 \<Longrightarrow>
     (\<exists>b. return_tiles_to_bag E bag ts seed t = Ok b) \<or> return_tiles_to_bag E bag ts seed t = Diverge"
  unfolding return_tiles_to_bag_def by (rule shuffle_outcome) simp

interpretation bag: tile_source draw_up_to put_back
proof
  show "mset b = mset bag + mset ts" if "put_back bag ts k = Some b" for bag ts k b
    using that by (cases k) (auto simp: put_back_Some return_tiles_mset)
qed (use draw_up_to_mset draw_up_to_length in blast)+

section \<open>Properties\<close>

text \<open>
  For an accepted ruleset the conservation check passes exactly when the tiles of
  the bag, the racks and the board together are the ruleset's distribution, tile for tile:
  no tile is lost, duplicated, foreign or relabelled.
\<close>
theorem conservation_exact:
  assumes "validate_ruleset r = Ok ()"
  shows "verify_tile_conservation r bag racks board = Ok () \<longleftrightarrow>
    mset (bag @ concat racks @ board) = mset (expected_tiles r)"
  by (rule verify_tile_conservation_iff) (metis assms validate_ruleset_iff expected_faces_builtin)

theorem conservation_exact_witness:
  "validate_ruleset (the_builtin FrenchV1) = Ok () \<and>
   verify_tile_conservation (the_builtin FrenchV1) (expected_tiles (the_builtin FrenchV1)) [] [] = Ok ()"
proof -
  have "validate_ruleset (the_builtin FrenchV1) = Ok ()" by (simp add: validate_ruleset_iff)
  then show ?thesis
    using conservation_exact[of "the_builtin FrenchV1" "expected_tiles (the_builtin FrenchV1)" "[]" "[]"] by simp
qed

text \<open>
  Rejection sampling is unbiased: for every residue below the bound, exactly
  \<open>2 ^ 64 div upper\<close> of the 64-bit values are accepted and reduced to it.
\<close>
theorem rejection_unbiased:
  assumes "(r :: 64 word) < upper"
  shows "card {v. threshold_of upper \<le> v \<and> v mod upper = r} = 2 ^ 64 div unat upper"
  using assms by (rule rejection_unbiased_card)

theorem rejection_unbiased_witness:
  "card {v. threshold_of 100 \<le> v \<and> v mod 100 = (7 :: 64 word)} = 184467440737095516"
  using rejection_unbiased[of 7 100] by simp

text \<open>
  Claim C13. \<^verbatim>\<open>uniform_below\<close> returns exactly when some value of its stream reaches the
  threshold, and then a value below the bound.
\<close>
theorem uniform_below_total:
  assumes "0 < upper"
  shows "((\<exists>r. uniform_below g upper = Some r) \<longleftrightarrow> (\<exists>n. threshold_of upper \<le> rng_stream g n))
    \<and> (\<forall>v g'. uniform_below g upper = Some (v, g') \<longrightarrow> v < upper)"
  using assms uniform_loop_terminates uniform_below_less unfolding uniform_below_def by blast

theorem uniform_below_total_witness:
  "\<exists>v g'. uniform_below \<lparr>rng_s0 = 1, rng_s1 = 1, rng_s2 = 0, rng_s3 = 0\<rparr> 4 = Some (v, g') \<and> v < 4"
proof -
  let ?g = "\<lparr>rng_s0 = 1, rng_s1 = 1, rng_s2 = 0, rng_s3 = 0\<rparr>"
  have "threshold_of 4 = 0" by (simp add: threshold_of_def)
  then have "threshold_of 4 \<le> rng_stream ?g 0" by simp
  then show ?thesis using uniform_below_total[of 4 ?g] by fastforce
qed

text \<open>
  A shuffle either returns a permutation of its input or waits for ever on the
  generator; it never panics on an index.
\<close>
theorem shuffle_permutes:
  assumes "length xs < 2 ^ 64"
  shows "(\<exists>ys. shuffle g xs = Ok ys \<and> mset ys = mset xs) \<or> shuffle g xs = Diverge"
  using shuffle_outcome[OF assms] shuffle_mset by blast

theorem shuffle_permutes_witness:
  "(\<exists>ys. shuffle rng_zero [1::nat, 2, 3] = Ok ys \<and> mset ys = mset [1, 2, 3]) \<or> shuffle rng_zero [1::nat, 2, 3] = Diverge"
  by (rule shuffle_permutes) simp

text \<open>
  The generator never reaches its absorbing all-zero state: neither seeding
  produces it, and no step leads into it from another state.
\<close>
theorem generator_never_zero:
  "rng_new E seed \<noteq> rng_zero \<and> rng_for_exchange E seed t \<noteq> rng_zero
   \<and> (snd (next_u64 g) = rng_zero \<longleftrightarrow> g = rng_zero)"
proof -
  have "snd (next_u64 rng_zero) = rng_zero" by (simp add: next_u64_def rng_zero_def Let_def)
  then show ?thesis
    using next_u64_nonzero rng_of_digest_nonzero by (auto simp: rng_new_def rng_for_exchange_def)
qed

text \<open>
  A deal that succeeds is for an accepted ruleset and two to four seats, gives
  every seat seven tiles, leaves the rest in the bag and conserves the distribution; and for
  such a request the only other outcome is a shuffle that never ends.
\<close>
theorem opening_deal:
  "(\<forall>d. prepare_initial_deal_for_players E r seed n = Ok d \<longrightarrow>
      validate_ruleset r = Ok () \<and> 2 \<le> n \<and> n \<le> 4 \<and> length (id_racks d) = n
      \<and> list_all (\<lambda>rack. length rack = 7) (id_racks d)
      \<and> length (id_bag d) = total_tiles (rs_game r) - 7 * n
      \<and> mset (id_bag d) + mset (concat (id_racks d)) = mset (expected_tiles r))
   \<and> (validate_ruleset r = Ok () \<and> 2 \<le> n \<and> n \<le> 4 \<longrightarrow>
      (\<exists>d. prepare_initial_deal_for_players E r seed n = Ok d)
      \<or> prepare_initial_deal_for_players E r seed n = Diverge)"
  using prepare_initial_deal_Ok[of E r seed n] deal_outcome[of r n E seed] by (auto simp: validate_ruleset_iff)

theorem opening_deal_witness:
  "validate_ruleset (the_builtin EnglishV1) = Ok () \<and>
   ((\<exists>d. prepare_initial_deal_for_players demo_env (the_builtin EnglishV1) [] 3 = Ok d)
    \<or> prepare_initial_deal_for_players demo_env (the_builtin EnglishV1) [] 3 = Diverge)"
  using opening_deal[of demo_env "the_builtin EnglishV1" "[]" 3] by (simp add: validate_ruleset_iff)

end
