(* ===== verification/GameTypes.thy ===== *)
theory GameTypes
  imports Deal
begin

text \<open>
  The data of a game (\<^verbatim>\<open>game.rs\<close>): moves, board tiles, the public state, public and
  private events, results, snapshots, replay bundles and the projections. Each struct is a
  record whose fields keep the source's names behind a prefix; each enum is a datatype with
  the source's variants. \<open>WordValidator\<close> is the trait object of \<^verbatim>\<open>lexicon.rs\<close>: the pack
  identity and the exact-membership test.
\<close>

definition BOARD_SIZE :: nat where "BOARD_SIZE = 15"
definition BOARD_SQUARES :: nat where "BOARD_SQUARES = BOARD_SIZE * BOARD_SIZE"
definition CENTER :: Coordinate where "CENTER = Coordinate 7 7"
definition SNAPSHOT_SCHEMA_VERSION :: nat where "SNAPSHOT_SCHEMA_VERSION = 3"
definition REPLAY_SCHEMA_VERSION :: nat where "REPLAY_SCHEMA_VERSION = 3"
definition PUBLIC_REPLAY_SCHEMA_VERSION :: nat where "PUBLIC_REPLAY_SCHEMA_VERSION = 1"
definition PROJECTION_SCHEMA_VERSION :: nat where "PROJECTION_SCHEMA_VERSION = 1"

record WordValidator =
  wv_identity :: PackIdentity
  wv_contains :: "string \<Rightarrow> bool"

record Tile =
  tl_letter :: string
  tl_is_blank :: bool

record Placement =
  pl_tile_id :: TileId
  pl_coordinate :: Coordinate
  pl_tile :: Tile

datatype Move =
    Place "Placement list"
  | Exchange "TileId list"
  | Pass
  | Resign

record BoardTile =
  bt_tile_id :: TileId
  bt_letter :: string
  bt_is_blank :: bool

datatype GameMode = Competitive | Practice

datatype GamePhase = Active | Finished

datatype TerminalReason =
    Resignation Seat
  | ScorelessTurns
  | RackEmptied Seat

record FormedWord =
  fw_text :: string
  fw_normalized :: string
  fw_coordinates :: "Coordinate list"
  fw_letter_score :: nat
  fw_word_multiplier :: nat
  fw_score :: nat

record GameResult =
  res_game_id :: string
  res_ruleset_id :: RulesetId
  res_lexicon :: PackIdentity
  res_scores :: "Score list"
  res_winner :: "Player option"
  res_final_version :: nat
  res_reason :: TerminalReason

record PublicGameState =
  gs_game_id :: string
  gs_ruleset_id :: RulesetId
  gs_ruleset :: RulesetIdentity
  gs_lexicon :: PackIdentity
  gs_mode :: GameMode
  gs_rng_algorithm :: RngAlgorithm
  gs_seed_commitment :: SeedCommitment
  gs_board :: "BoardTile option list"
  gs_scores :: "Score list"
  gs_current_player :: Player
  gs_version :: nat
  gs_scoreless_turns :: nat
  gs_rack_counts :: "nat list"
  gs_bag_count :: nat
  gs_phase :: GamePhase
  gs_result :: "GameResult option"

text \<open>
  The arguments of each event are the source's fields in order: \<open>Created\<close> carries the game
  id, ruleset, mode, algorithm, commitment, rack counts and bag count; \<open>MovePlayed\<close> the
  player, placements, words, bingo bonus, score, draw count, rack counts, bag count, scores,
  scoreless turns, next player and result.
\<close>

datatype GameEventKind =
    Created string Ruleset GameMode RngAlgorithm SeedCommitment "nat list" nat
  | MovePlayed Player "Placement list" "FormedWord list" nat nat nat "nat list" nat "Score list" nat
      Player "GameResult option"
  | Passed Player nat Player "GameResult option"
  | Exchanged Player "TileId list" "nat list" nat nat Player "GameResult option"
  | Resigned Player GameResult

datatype EventVisibility = Public | SeatPrivate Seat

record GameEvent =
  ge_sequence :: nat
  ge_visibility :: EventVisibility
  ge_lexicon :: PackIdentity
  ge_kind :: GameEventKind

record PrivateGameEvent =
  pe_sequence :: nat
  pe_visibility :: EventVisibility
  pe_seat :: Seat
  pe_removed :: "PhysicalTile list"
  pe_drawn :: "PhysicalTile list"
  pe_rack_after :: Rack

record GameSnapshot =
  sn_schema_version :: nat
  sn_ruleset :: RulesetIdentity
  sn_rng_algorithm :: RngAlgorithm
  sn_state :: PublicGameState
  sn_bag :: Bag
  sn_racks :: "Rack list"
  sn_seed :: "byte list"
  sn_events :: "GameEvent list"
  sn_private_events :: "PrivateGameEvent list"

record ReplayBundle =
  rb_schema_version :: nat
  rb_ruleset_identity :: RulesetIdentity
  rb_ruleset :: Ruleset
  rb_lexicon :: PackIdentity
  rb_rng_algorithm :: RngAlgorithm
  rb_seed_reveal :: "byte list"
  rb_events :: "GameEvent list"
  rb_private_events :: "PrivateGameEvent list"

record PublicReplayBundle =
  pb_schema_version :: nat
  pb_ruleset_identity :: RulesetIdentity
  pb_ruleset :: Ruleset
  pb_lexicon :: PackIdentity
  pb_rng_algorithm :: RngAlgorithm
  pb_seed_reveal :: "byte list"
  pb_events :: "GameEvent list"

record PublicProjection =
  pp_schema_version :: nat
  pp_state :: PublicGameState
  pp_events :: "GameEvent list"

record SeatProjection =
  sp_schema_version :: nat
  sp_seat :: Seat
  sp_public :: PublicProjection
  sp_rack :: Rack
  sp_private_events :: "PrivateGameEvent list"

record HumanSpectatorProjection =
  hp_schema_version :: nat
  hp_public :: PublicProjection
  hp_racks :: "Rack list"
  hp_private_events :: "PrivateGameEvent list"

record AdministratorProjection =
  ap_schema_version :: nat
  ap_snapshot :: GameSnapshot

record Game =
  g_ruleset :: Ruleset
  g_lexicon :: WordValidator
  g_seed :: GameSeed
  g_bag :: Bag
  g_racks :: "Rack list"
  g_state :: PublicGameState
  g_events :: "GameEvent list"
  g_private_events :: "PrivateGameEvent list"

record PreparedMove =
  pr_placements :: "Placement list"
  pr_played :: "PhysicalTile list"
  pr_words :: "FormedWord list"
  pr_bingo_bonus :: nat
  pr_score :: nat

datatype TileRef = Proposed Placement | Board BoardTile

fun ref_letter :: "TileRef \<Rightarrow> string" where
  "ref_letter (Proposed p) = tl_letter (pl_tile p)"
| "ref_letter (Board t) = bt_letter t"

fun ref_is_blank :: "TileRef \<Rightarrow> bool" where
  "ref_is_blank (Proposed p) = tl_is_blank (pl_tile p)"
| "ref_is_blank (Board t) = bt_is_blank t"

datatype Orientation = Horizontal | Vertical | Single

definition tile_at :: "PublicGameState \<Rightarrow> Coordinate \<Rightarrow> BoardTile option" where
  "tile_at s c = (if in_bounds c BOARD_SIZE BOARD_SIZE
     then Option.bind (list_get (gs_board s) (coord_index c BOARD_SIZE)) id else None)"

end
