(* ===== verification/Placement.thy ===== *)
theory Placement
  imports GameTypes
begin

text \<open>
  Preparing a placement (\<^verbatim>\<open>prepare_placement\<close> and its helpers in \<^verbatim>\<open>game.rs\<close>): ownership
  and canonical letters, alignment, contiguity, connection, the words formed and their
  scores. The scan of a word runs until it leaves the board or meets an empty square; it is
  a partial function of its steps, and the lemmas show that both axes end.
\<close>

section \<open>Tokens and assignments\<close>

definition canonical_tile_token :: "env \<Rightarrow> string \<Rightarrow> string \<Rightarrow> string result" where
  "canonical_tile_token E profile token =
     rbind (map_err Normalization (normalize_key E profile token)) (\<lambda>normalized.
     if length normalized = 1 then Ok normalized else Err (InvalidTileToken token normalized))"

definition validate_assignment :: "PhysicalTile \<Rightarrow> Tile \<Rightarrow> unit result" where
  "validate_assignment physical assigned =
     (if (case pt_face physical of
            Letter token \<Rightarrow> \<not> tl_is_blank assigned \<and> tl_letter assigned = token
          | Blank \<Rightarrow> tl_is_blank assigned)
      then Ok () else Err (TileFaceMismatch (pt_id physical)))"

definition profile_of :: "Ruleset \<Rightarrow> string" where
  "profile_of r = nd_profile (pi_normalization (rs_lexicon r))"

definition own_step ::
  "env \<Rightarrow> Game \<Rightarrow> Rack \<Rightarrow> (TileId \<times> PhysicalTile) list \<times> Placement list \<Rightarrow> Placement
     \<Rightarrow> ((TileId \<times> PhysicalTile) list \<times> Placement list) result" where
  "own_step E g rack acc placement = (case acc of (played_by_id, updated) \<Rightarrow>
     if pl_tile_id placement \<in> fst ` set played_by_id then Err (DuplicatePlacementTile (pl_tile_id placement))
     else rbind (ok_or (TileNotOwned (pl_tile_id placement))
            (List.find (\<lambda>t. pt_id t = pl_tile_id placement) rack)) (\<lambda>physical.
       if \<not> in_bounds (pl_coordinate placement) BOARD_SIZE BOARD_SIZE
         then Err (CoordinateOutOfBounds (pl_coordinate placement))
       else rbind (canonical_tile_token E (profile_of (g_ruleset g)) (tl_letter (pl_tile placement))) (\<lambda>letter.
         let placement' = placement\<lparr>pl_tile := (pl_tile placement)\<lparr>tl_letter := letter\<rparr>\<rparr> in
         rbind (validate_assignment physical (pl_tile placement')) (\<lambda>_.
         if tile_at (g_state g) (pl_coordinate placement) \<noteq> None
           then Err (OccupiedSquare (pl_coordinate placement))
         else Ok ((pt_id physical, physical) # played_by_id, updated @ [placement'])))))"

definition validate_owned_placements ::
  "env \<Rightarrow> Game \<Rightarrow> Player \<Rightarrow> Placement list \<Rightarrow> ((TileId \<times> PhysicalTile) list \<times> Placement list) result" where
  "validate_owned_placements E g player placements =
     rbind (index_at (g_racks g) (seat_index player)) (\<lambda>rack.
     try_fold (own_step E g rack) ([], []) placements)"

definition validate_unique_coordinates :: "Placement list \<Rightarrow> unit result" where
  "validate_unique_coordinates placements =
     (let coordinates = map pl_coordinate placements in
      if length (remdups coordinates) \<noteq> length placements
      then rbind (expect (List.find (\<lambda>c. 1 < length (filter (\<lambda>d. d = c) coordinates)) coordinates)) (\<lambda>duplicate.
        Err (DuplicateCoordinate duplicate))
      else Ok ())"

definition orientation_of :: "Placement list \<Rightarrow> Orientation result" where
  "orientation_of placements =
     (if length placements = 1 then Ok Single
      else let same_row = list_all (\<lambda>p. row (pl_coordinate p) = row (pl_coordinate (hd placements))) placements;
               same_column = list_all (\<lambda>p. column (pl_coordinate p) = column (pl_coordinate (hd placements))) placements
        in if same_row \<and> \<not> same_column then Ok Horizontal
           else if \<not> same_row \<and> same_column then Ok Vertical
           else Err NotAligned)"

definition sort_placements :: "Orientation \<Rightarrow> Placement list \<Rightarrow> Placement list" where
  "sort_placements o' placements = sort_key (\<lambda>p. case o' of
       Horizontal \<Rightarrow> (column (pl_coordinate p), row (pl_coordinate p))
     | _ \<Rightarrow> (row (pl_coordinate p), column (pl_coordinate p))) placements"

section \<open>The board with the proposed tiles\<close>

text \<open>The \<^verbatim>\<open>BTreeMap\<close> of proposed placements; a later entry replaces an earlier one.\<close>

type_synonym Proposal = "Placement list"

definition proposed_get :: "Proposal \<Rightarrow> Coordinate \<Rightarrow> Placement option" where
  "proposed_get proposed c = List.find (\<lambda>p. pl_coordinate p = c) (rev proposed)"

definition tile_with_proposed :: "PublicGameState \<Rightarrow> Proposal \<Rightarrow> Coordinate \<Rightarrow> TileRef option" where
  "tile_with_proposed s proposed c = (case proposed_get proposed c of
       Some p \<Rightarrow> Some (Proposed p)
     | None \<Rightarrow> map_option Board (tile_at s c))"

definition coordinate_at :: "int \<Rightarrow> int \<Rightarrow> Coordinate option" where
  "coordinate_at r c =
     (if 0 \<le> r \<and> r < 256 \<and> 0 \<le> c \<and> c < 256 \<and> in_bounds (Coordinate (nat r) (nat c)) BOARD_SIZE BOARD_SIZE
      then Some (Coordinate (nat r) (nat c)) else None)"

definition neighbors :: "Coordinate \<Rightarrow> Coordinate option list" where
  "neighbors c =
     [coordinate_at (int (row c) - 1) (int (column c)), coordinate_at (int (row c) + 1) (int (column c)),
      coordinate_at (int (row c)) (int (column c) - 1), coordinate_at (int (row c)) (int (column c) + 1)]"

definition validate_contiguous ::
  "PublicGameState \<Rightarrow> Placement list \<Rightarrow> Orientation \<Rightarrow> Proposal \<Rightarrow> unit result" where
  "validate_contiguous s placements o' proposed =
     (if o' = Single then Ok ()
      else rbind (expect (list_get placements 0)) (\<lambda>p.
        rbind (expect (list_get placements (length placements - 1))) (\<lambda>q.
        let first = pl_coordinate p; last' = pl_coordinate q;
            occupied = (\<lambda>c. ensure (tile_with_proposed s proposed c \<noteq> None) (NotContiguous c))
        in case o' of
             Horizontal \<Rightarrow> try_fold (\<lambda>_ k. occupied (Coordinate (row first) k)) () [column first..<Suc (column last')]
           | Vertical \<Rightarrow> try_fold (\<lambda>_ k. occupied (Coordinate k (column first))) () [row first..<Suc (row last')]
           | Single \<Rightarrow> Ok ())))"

definition validate_connection :: "PublicGameState \<Rightarrow> Proposal \<Rightarrow> unit result" where
  "validate_connection s proposed =
     (if list_all (\<lambda>t. t = None) (gs_board s)
      then ensure (proposed_get proposed CENTER \<noteq> None) OpeningMoveMissesCenter
      else ensure (list_ex (\<lambda>p. list_ex (\<lambda>n. case n of Some d \<Rightarrow> tile_at s d \<noteq> None | None \<Rightarrow> False)
             (neighbors (pl_coordinate p))) proposed) DisconnectedPlacement)"

section \<open>Words\<close>

partial_function (option) scan_back ::
  "(Coordinate \<Rightarrow> bool) \<Rightarrow> int \<Rightarrow> int \<Rightarrow> int \<Rightarrow> int \<Rightarrow> (int \<times> int) option" where
  "scan_back occupied row_step column_step r c =
     (case coordinate_at (r - row_step) (c - column_step) of
        None \<Rightarrow> Some (r, c)
      | Some previous \<Rightarrow>
          if \<not> occupied previous then Some (r, c)
          else scan_back occupied row_step column_step (r - row_step) (c - column_step))"

partial_function (option) scan_forward ::
  "(Coordinate \<Rightarrow> bool) \<Rightarrow> int \<Rightarrow> int \<Rightarrow> Coordinate list \<Rightarrow> int \<Rightarrow> int \<Rightarrow> Coordinate list option" where
  "scan_forward occupied row_step column_step coordinates r c =
     (case coordinate_at r c of
        None \<Rightarrow> Some coordinates
      | Some coordinate \<Rightarrow>
          if \<not> occupied coordinate then Some coordinates
          else scan_forward occupied row_step column_step (coordinates @ [coordinate]) (r + row_step) (c + column_step))"

definition word_segment ::
  "PublicGameState \<Rightarrow> Proposal \<Rightarrow> Coordinate \<Rightarrow> int \<Rightarrow> int \<Rightarrow> Coordinate list result" where
  "word_segment s proposed origin row_step column_step =
     (let occupied = (\<lambda>c. tile_with_proposed s proposed c \<noteq> None) in
      rbind (of_loop (scan_back occupied row_step column_step (int (row origin)) (int (column origin)))) (\<lambda>(r, c).
      of_loop (scan_forward occupied row_step column_step [] r c)))"

definition push_if_word :: "Coordinate list list \<Rightarrow> Coordinate list \<Rightarrow> Coordinate list list" where
  "push_if_word words coordinates = (if 2 \<le> length coordinates then words @ [coordinates] else words)"

text \<open>\<^verbatim>\<open>retain\<close> keeps the first of equal words.\<close>

definition retain_first :: "'a list \<Rightarrow> 'a list" where
  "retain_first xs = rev (remdups (rev xs))"

definition push_segments ::
  "PublicGameState \<Rightarrow> Proposal \<Rightarrow> Coordinate list list \<Rightarrow> (Coordinate \<times> int \<times> int) list
     \<Rightarrow> Coordinate list list result" where
  "push_segments s proposed words origins =
     try_fold (\<lambda>ws (origin, dr, dc). rbind (word_segment s proposed origin dr dc) (\<lambda>cs. Ok (push_if_word ws cs)))
       words origins"

definition word_origins :: "Orientation \<Rightarrow> Placement \<Rightarrow> Placement list \<Rightarrow> (Coordinate \<times> int \<times> int) list" where
  "word_origins o' p placements = (case o' of
       Horizontal \<Rightarrow> (pl_coordinate p, 0, 1) # map (\<lambda>q. (pl_coordinate q, 1, 0)) placements
     | Vertical \<Rightarrow> (pl_coordinate p, 1, 0) # map (\<lambda>q. (pl_coordinate q, 0, 1)) placements
     | Single \<Rightarrow> [(pl_coordinate p, 0, 1), (pl_coordinate p, 1, 0)])"

definition formed_word_coordinates ::
  "PublicGameState \<Rightarrow> Placement list \<Rightarrow> Orientation \<Rightarrow> Proposal \<Rightarrow> Coordinate list list result" where
  "formed_word_coordinates s placements o' proposed =
     rbind (index_at placements 0) (\<lambda>p.
     rbind (push_segments s proposed [] (word_origins o' p placements)) (\<lambda>words.
     Ok (retain_first words)))"

definition premium_step :: "Premium \<Rightarrow> nat \<Rightarrow> nat \<Rightarrow> (nat \<times> nat) result" where
  "premium_step premium value word_multiplier = (case premium of
       Normal \<Rightarrow> Ok (value, word_multiplier)
     | DoubleLetter \<Rightarrow> rbind (ok_or ScoreOverflow (checked_mul 32 value 2)) (\<lambda>v. Ok (v, word_multiplier))
     | TripleLetter \<Rightarrow> rbind (ok_or ScoreOverflow (checked_mul 32 value 3)) (\<lambda>v. Ok (v, word_multiplier))
     | DoubleWord \<Rightarrow> rbind (ok_or ScoreOverflow (checked_mul 32 word_multiplier 2)) (\<lambda>m. Ok (value, m))
     | TripleWord \<Rightarrow> rbind (ok_or ScoreOverflow (checked_mul 32 word_multiplier 3)) (\<lambda>m. Ok (value, m)))"

definition tile_value :: "Ruleset \<Rightarrow> TileRef \<Rightarrow> nat" where
  "tile_value r t = (if ref_is_blank t then 0
     else (case letter_value r (ref_letter t) of Some v \<Rightarrow> v | None \<Rightarrow> 0))"

definition word_step ::
  "Ruleset \<Rightarrow> PublicGameState \<Rightarrow> Proposal \<Rightarrow> string \<times> nat \<times> nat \<Rightarrow> Coordinate \<Rightarrow> (string \<times> nat \<times> nat) result" where
  "word_step r s proposed acc c = (case acc of (text, letter_score, word_multiplier) \<Rightarrow>
     rbind (expect (tile_with_proposed s proposed c)) (\<lambda>tile.
     rbind (if proposed_get proposed c \<noteq> None
            then rbind (expect (board_square (gr_board (rs_game r)) c)) (\<lambda>square.
              premium_step (bs_premium square) (tile_value r tile) word_multiplier)
            else Ok (tile_value r tile, word_multiplier)) (\<lambda>(value, word_multiplier').
     rbind (ok_or ScoreOverflow (checked_add 32 letter_score value)) (\<lambda>letter_score'.
     Ok (text @ ref_letter tile, letter_score', word_multiplier')))))"

definition validate_word :: "env \<Rightarrow> Game \<Rightarrow> Proposal \<Rightarrow> Coordinate list \<Rightarrow> FormedWord result" where
  "validate_word E g proposed coordinates =
     rbind (try_fold (word_step (g_ruleset g) (g_state g) proposed) ([], 0, 1) coordinates)
       (\<lambda>(text, letter_score, word_multiplier).
     rbind (map_err Normalization (normalize_key E (profile_of (g_ruleset g)) text)) (\<lambda>normalized.
     if \<not> wv_contains (g_lexicon g) normalized then Err (InvalidWord text normalized)
     else rbind (ok_or ScoreOverflow (checked_mul 32 letter_score word_multiplier)) (\<lambda>score.
       Ok \<lparr>fw_text = text, fw_normalized = normalized, fw_coordinates = coordinates,
         fw_letter_score = letter_score, fw_word_multiplier = word_multiplier, fw_score = score\<rparr>)))"

definition score_word ::
  "env \<Rightarrow> Game \<Rightarrow> Proposal \<Rightarrow> FormedWord list \<times> nat \<Rightarrow> Coordinate list \<Rightarrow> (FormedWord list \<times> nat) result" where
  "score_word E g proposed acc coordinates = (case acc of (words, score) \<Rightarrow>
     rbind (validate_word E g proposed coordinates) (\<lambda>word.
     rbind (ok_or ScoreOverflow (checked_add 32 score (fw_score word))) (\<lambda>score'.
     Ok (words @ [word], score'))))"

definition prepare_placement :: "env \<Rightarrow> Game \<Rightarrow> Player \<Rightarrow> Placement list \<Rightarrow> PreparedMove result" where
  "prepare_placement E g player placements =
     (if placements = [] then Err EmptyPlacement
      else rbind (validate_owned_placements E g player placements) (\<lambda>(played_by_id, updated).
        rbind (validate_unique_coordinates updated) (\<lambda>_.
        rbind (orientation_of updated) (\<lambda>o'.
        let ordered = sort_placements o' updated; proposed = ordered in
        rbind (validate_contiguous (g_state g) ordered o' proposed) (\<lambda>_.
        rbind (validate_connection (g_state g) proposed) (\<lambda>_.
        rbind (formed_word_coordinates (g_state g) ordered o' proposed) (\<lambda>word_coordinates.
        if word_coordinates = [] then Err NoWordFormed
        else rbind (try_fold (score_word E g proposed) ([], 0) word_coordinates) (\<lambda>(words, word_total).
          let bingo_bonus = (if length ordered = gr_rack_capacity (rs_game (g_ruleset g))
                then gr_bingo_bonus (rs_game (g_ruleset g)) else 0) in
          rbind (ok_or ScoreOverflow (checked_add 32 word_total bingo_bonus)) (\<lambda>score.
          rbind (traverse (\<lambda>p. expect (map_of played_by_id (pl_tile_id p))) ordered) (\<lambda>owned_tiles.
          Ok \<lparr>pr_placements = ordered, pr_played = owned_tiles, pr_words = words,
            pr_bingo_bonus = bingo_bonus, pr_score = score\<rparr>))))))))))"

section \<open>Owned placements\<close>

definition rack_tile :: "Rack \<Rightarrow> TileId \<Rightarrow> PhysicalTile" where
  "rack_tile rack i = the (List.find (\<lambda>t. pt_id t = i) rack)"

definition placeable :: "env \<Rightarrow> Game \<Rightarrow> Rack \<Rightarrow> Placement \<Rightarrow> Placement \<Rightarrow> bool" where
  "placeable E g rack p q \<longleftrightarrow>
     (\<exists>t l. List.find (\<lambda>t. pt_id t = pl_tile_id p) rack = Some t
       \<and> in_bounds (pl_coordinate p) BOARD_SIZE BOARD_SIZE
       \<and> canonical_tile_token E (profile_of (g_ruleset g)) (tl_letter (pl_tile p)) = Ok l
       \<and> q = p\<lparr>pl_tile := (pl_tile p)\<lparr>tl_letter := l\<rparr>\<rparr>
       \<and> validate_assignment t (pl_tile q) = Ok ()
       \<and> tile_at (g_state g) (pl_coordinate p) = None)"

lemma own_step_Ok:
  "own_step E g rack (pb, up) p = Ok acc \<longleftrightarrow> pl_tile_id p \<notin> fst ` set pb
     \<and> (\<exists>q. placeable E g rack p q \<and> acc = ((pl_tile_id p, rack_tile rack (pl_tile_id p)) # pb, up @ [q]))"
  by (auto simp: own_step_def placeable_def rack_tile_def rbind_Ok_iff Let_def
      split: if_splits dest: find_Some_mem)

lemma own_fold_Ok:
  "try_fold (own_step E g rack) (pb, up) ps = Ok (pb', up') \<longleftrightarrow>
     (\<exists>qs. list_all2 (placeable E g rack) ps qs \<and> distinct (map pl_tile_id ps)
       \<and> pl_tile_id ` set ps \<inter> fst ` set pb = {} \<and> up' = up @ qs
       \<and> pb' = rev (map (\<lambda>p. (pl_tile_id p, rack_tile rack (pl_tile_id p))) ps) @ pb)"
proof (induction ps arbitrary: pb up)
  case Nil
  then show ?case by auto
next
  case (Cons p ps)
  let ?e = "(pl_tile_id p, rack_tile rack (pl_tile_id p))"
  have "try_fold (own_step E g rack) (pb, up) (p # ps) = Ok (pb', up') \<longleftrightarrow>
      (\<exists>q. pl_tile_id p \<notin> fst ` set pb \<and> placeable E g rack p q
        \<and> try_fold (own_step E g rack) (?e # pb, up @ [q]) ps = Ok (pb', up'))"
    by (auto simp: rbind_Ok_iff own_step_Ok)
  also have "\<dots> \<longleftrightarrow> (\<exists>q qs. placeable E g rack p q \<and> list_all2 (placeable E g rack) ps qs
      \<and> distinct (map pl_tile_id (p # ps)) \<and> pl_tile_id ` set (p # ps) \<inter> fst ` set pb = {}
      \<and> up' = up @ (q # qs)
      \<and> pb' = rev (map (\<lambda>p. (pl_tile_id p, rack_tile rack (pl_tile_id p))) (p # ps)) @ pb)"
    unfolding Cons.IH by (intro iff_exI) auto
  finally show ?case by (simp add: list_all2_Cons1 del: distinct.simps) blast
qed

lemma placeable_fields:
  "placeable E g rack p q \<Longrightarrow> pl_tile_id q = pl_tile_id p \<and> pl_coordinate q = pl_coordinate p"
  by (auto simp: placeable_def)

lemma canonical_token_Ok:
  "canonical_tile_token E prof tok = Ok l \<longleftrightarrow> normalize_key E prof tok = Ok l \<and> length l = 1"
  by (auto simp: canonical_tile_token_def rbind_Ok_iff)

lemma canonical_token_word: "canonical_tile_token E prof tok = Ok l \<Longrightarrow> board_word l \<and> length l = 1"
  by (auto simp: canonical_token_Ok dest: key.norm_word)

lemma canonical_token_fixpoint:
  "unicode_ok E \<Longrightarrow> canonical_tile_token E prof tok = Ok l \<Longrightarrow> canonical_tile_token E prof l = Ok l"
  by (auto simp: canonical_token_Ok dest: key.idempotent)

lemma placeable_self: "unicode_ok E \<Longrightarrow> placeable E g rack p q \<Longrightarrow> placeable E g rack q q"
  unfolding placeable_def by (elim exE conjE, intro exI conjI) (simp_all add: canonical_token_fixpoint)

lemma orientation_of_mset:
  assumes "mset xs = mset ys"
  shows "orientation_of xs = orientation_of ys"
proof (cases "xs = []")
  case True
  then show ?thesis using assms by simp
next
  case False
  have s: "set xs = set ys" and l: "length xs = length ys" using assms mset_eq_setD mset_eq_length by blast+
  then have ne: "ys \<noteq> []" using False by auto
  have all: "list_all (\<lambda>p. f p = f (hd zs)) zs \<longleftrightarrow> (\<forall>p \<in> set zs. \<forall>q \<in> set zs. f p = f q)"
    if nz: "zs \<noteq> []" for zs :: "Placement list" and f :: "Placement \<Rightarrow> nat"
  proof -
    obtain z zs' where "zs = z # zs'" using nz by (cases zs) auto
    then show ?thesis by (auto simp: list_all_iff)
  qed
  show ?thesis unfolding orientation_of_def Let_def
    by (simp only: all[OF False, of "\<lambda>p. row (pl_coordinate p)"] all[OF False, of "\<lambda>p. column (pl_coordinate p)"]
        all[OF ne, of "\<lambda>p. row (pl_coordinate p)"] all[OF ne, of "\<lambda>p. column (pl_coordinate p)"] s l)
qed

lemma sort_placements_mset [simp]: "mset (sort_placements o' xs) = mset xs"
  by (simp add: sort_placements_def)

lemma sort_placements_set [simp]: "set (sort_placements o' xs) = set xs"
  by (simp add: sort_placements_def)

lemma sort_placements_length [simp]: "length (sort_placements o' xs) = length xs"
  by (simp add: sort_placements_def)

lemma sort_placements_idem: "sort_placements o' (sort_placements o' xs) = sort_placements o' xs"
  unfolding sort_placements_def by (rule sort_key_id_if_sorted) simp

lemma validate_unique_Ok: "validate_unique_coordinates ps = Ok u \<longleftrightarrow> distinct (map pl_coordinate ps)"
proof -
  have "length (remdups (map pl_coordinate ps)) = length ps \<longleftrightarrow> distinct (map pl_coordinate ps)"
    by (metis length_map length_remdups_eq remdups_id_iff_distinct)
  then show ?thesis by (auto simp: validate_unique_coordinates_def Let_def rbind_Ok_iff)
qed

lemma played_lookup:
  assumes "distinct (map pl_tile_id ps)" "p \<in> set ps"
  shows "map_of (rev (map (\<lambda>p. (pl_tile_id p, f p)) ps)) (pl_tile_id p) = Some (f p)"
  using assms by (intro map_of_is_SomeI) (simp_all add: comp_def flip: rev_map)

section \<open>Preparation is idempotent\<close>

text \<open>The part of the preparation after ownership, alignment and sorting.\<close>

definition finish_placement :: "env \<Rightarrow> Game \<Rightarrow> Rack \<Rightarrow> Orientation \<Rightarrow> Placement list \<Rightarrow> PreparedMove result" where
  "finish_placement E g rack o' ordered =
     rbind (validate_contiguous (g_state g) ordered o' ordered) (\<lambda>_.
     rbind (validate_connection (g_state g) ordered) (\<lambda>_.
     rbind (formed_word_coordinates (g_state g) ordered o' ordered) (\<lambda>word_coordinates.
     if word_coordinates = [] then Err NoWordFormed
     else rbind (try_fold (score_word E g ordered) ([], 0) word_coordinates) (\<lambda>(words, word_total).
       let bingo_bonus = (if length ordered = gr_rack_capacity (rs_game (g_ruleset g))
             then gr_bingo_bonus (rs_game (g_ruleset g)) else 0) in
       rbind (ok_or ScoreOverflow (checked_add 32 word_total bingo_bonus)) (\<lambda>score.
       Ok \<lparr>pr_placements = ordered, pr_played = map (\<lambda>p. rack_tile rack (pl_tile_id p)) ordered,
         pr_words = words, pr_bingo_bonus = bingo_bonus, pr_score = score\<rparr>)))))"

lemma owned_tiles_Ok:
  assumes "distinct (map pl_tile_id ps)" "list_all2 (placeable E g rack) ps qs" "set xs = set qs"
  shows "traverse (\<lambda>p. expect (map_of (rev (map (\<lambda>p. (pl_tile_id p, rack_tile rack (pl_tile_id p))) ps)) (pl_tile_id p))) xs
    = Ok (map (\<lambda>p. rack_tile rack (pl_tile_id p)) xs)"
proof (rule traverse_map_Ok)
  fix q assume "q \<in> set xs"
  then obtain p where "p \<in> set ps" "pl_tile_id q = pl_tile_id p"
    using assms(2,3) placeable_fields by (metis in_set_conv_nth list_all2_conv_all_nth)
  then show "expect (map_of (rev (map (\<lambda>p. (pl_tile_id p, rack_tile rack (pl_tile_id p))) ps)) (pl_tile_id q))
      = Ok (rack_tile rack (pl_tile_id q))"
    using played_lookup[OF assms(1), of p "\<lambda>p. rack_tile rack (pl_tile_id p)"] by simp
qed

lemma validate_owned_Ok:
  assumes "seat_index pl < length (g_racks g)"
  shows "validate_owned_placements E g pl ps = Ok (pb, qs) \<longleftrightarrow>
    list_all2 (placeable E g (g_racks g ! seat_index pl)) ps qs \<and> distinct (map pl_tile_id ps)
    \<and> pb = rev (map (\<lambda>p. (pl_tile_id p, rack_tile (g_racks g ! seat_index pl) (pl_tile_id p))) ps)"
  using assms by (auto simp: validate_owned_placements_def index_at_def own_fold_Ok)

lemma prepare_placement_finish:
  assumes "seat_index pl < length (g_racks g)" "ps \<noteq> []"
    and own: "validate_owned_placements E g pl ps = Ok (pb, qs)"
    and "distinct (map pl_coordinate qs)" "orientation_of qs = Ok o'"
  shows "prepare_placement E g pl ps = finish_placement E g (g_racks g ! seat_index pl) o' (sort_placements o' qs)"
proof -
  let ?rack = "g_racks g ! seat_index pl"
  note o = own[unfolded validate_owned_Ok[OF assms(1)]]
  have tr: "rbind (traverse (\<lambda>p. expect (map_of pb (pl_tile_id p))) (sort_placements o' qs)) k
      = k (map (\<lambda>p. rack_tile ?rack (pl_tile_id p)) (sort_placements o' qs))"
    for k :: "PhysicalTile list \<Rightarrow> PreparedMove result"
    using o by (simp only: owned_tiles_Ok[of ps E g ?rack qs "sort_placements o' qs"] sort_placements_set rbind.simps)
  have "validate_unique_coordinates qs = Ok ()" using assms by (simp add: validate_unique_Ok)
  then show ?thesis
    using assms(2) unfolding prepare_placement_def finish_placement_def
    by (simp only: own assms(5) rbind.simps prod.case Let_def tr if_False)
qed

lemma prepare_placement_Ok:
  assumes "seat_index pl < length (g_racks g)"
  shows "prepare_placement E g pl ps = Ok pr \<longleftrightarrow> ps \<noteq> [] \<and>
    (\<exists>qs o'. list_all2 (placeable E g (g_racks g ! seat_index pl)) ps qs \<and> distinct (map pl_tile_id ps)
      \<and> distinct (map pl_coordinate qs) \<and> orientation_of qs = Ok o'
      \<and> finish_placement E g (g_racks g ! seat_index pl) o' (sort_placements o' qs) = Ok pr)"
    (is "?L \<longleftrightarrow> ?R")
proof
  assume ?L
  then obtain pb qs o' where 1: "ps \<noteq> []" "validate_owned_placements E g pl ps = Ok (pb, qs)"
      "validate_unique_coordinates qs = Ok ()" "orientation_of qs = Ok o'"
    unfolding prepare_placement_def by (auto simp: rbind_Ok_iff split: if_splits)
  note own1 = 1(2)[unfolded validate_owned_Ok[OF assms]] and u = 1(3)[unfolded validate_unique_Ok]
  have "finish_placement E g (g_racks g ! seat_index pl) o' (sort_placements o' qs) = Ok pr"
    using prepare_placement_finish[OF assms 1(1,2) u 1(4)] \<open>?L\<close> by simp
  then show ?R using 1 own1 u by blast
next
  assume ?R
  then show ?L using prepare_placement_finish[OF assms] validate_owned_Ok[OF assms] by auto
qed

lemma finish_placement_fields:
  assumes "finish_placement E g rack o' xs = Ok pr"
  shows "pr_placements pr = xs" "pr_played pr = map (\<lambda>p. rack_tile rack (pl_tile_id p)) xs"
  using assms by (auto simp: finish_placement_def rbind_Ok_iff Let_def split_def split: if_splits)

lemma prepare_placement_idem:
  assumes "seat_index pl < length (g_racks g)" "unicode_ok E" "prepare_placement E g pl ps = Ok pr"
  shows "prepare_placement E g pl (pr_placements pr) = Ok pr"
proof -
  let ?P = "placeable E g (g_racks g ! seat_index pl)"
  from assms(3) obtain qs o' where 1: "ps \<noteq> []" "list_all2 ?P ps qs" "distinct (map pl_tile_id ps)"
      "distinct (map pl_coordinate qs)" "orientation_of qs = Ok o'"
      "finish_placement E g (g_racks g ! seat_index pl) o' (sort_placements o' qs) = Ok pr"
    unfolding prepare_placement_Ok[OF assms(1)] by auto
  let ?s = "sort_placements o' qs"
  have "map pl_tile_id qs = map pl_tile_id ps"
    using 1(2) by (induction rule: list_all2_induct) (auto simp: placeable_fields)
  then have "distinct (map pl_tile_id qs)" using 1(3) by simp
  then have "distinct (map pl_tile_id ?s)" "distinct (map pl_coordinate ?s)"
    using 1(4) by (simp_all add: distinct_map mset_eq_imp_distinct_iff[OF sort_placements_mset])
  moreover have "?P q q" if "q \<in> set qs" for q
    using 1(2) that placeable_self[OF assms(2)] by (metis in_set_conv_nth list_all2_conv_all_nth)
  then have "list_all2 ?P ?s ?s" by (simp add: list_all2_same)
  moreover have "orientation_of ?s = Ok o'" using orientation_of_mset[OF sort_placements_mset] 1(5) by metis
  moreover have "?s \<noteq> []" using 1(1,2) by (metis length_0_conv list_all2_lengthD sort_placements_length)
  ultimately show ?thesis
    unfolding prepare_placement_Ok[OF assms(1)] finish_placement_fields(1)[OF 1(6)]
    using 1(6) by (auto simp: sort_placements_idem intro!: exI[of _ ?s] exI[of _ o'])
qed

end
