(* ===== verification/WordScan.thy ===== *)
theory WordScan
  imports Placement
begin

text \<open>
  What the word scan and the scoring compute: along either axis \<open>word_segment\<close> ends and
  returns the maximal run of occupied squares through its origin; \<open>validate_word\<close> multiplies
  the sum of letter values by the word premiums of the newly covered squares; and a placement
  that reaches these steps cannot panic.
\<close>

section \<open>Scanning\<close>

definition axis :: "int \<Rightarrow> int \<Rightarrow> bool" where
  "axis dr dc \<longleftrightarrow> (dr = 0 \<and> dc = 1) \<or> (dr = 1 \<and> dc = 0)"

text \<open>The square \<open>k\<close> steps from \<open>(r, c)\<close>, and whether it is on the board and occupied.\<close>

definition step_at :: "int \<Rightarrow> int \<Rightarrow> int \<Rightarrow> int \<Rightarrow> int \<Rightarrow> Coordinate option" where
  "step_at dr dc r c k = coordinate_at (r + k * dr) (c + k * dc)"

definition filled :: "(Coordinate \<Rightarrow> bool) \<Rightarrow> Coordinate option \<Rightarrow> bool" where
  "filled occ q = (case q of Some c \<Rightarrow> occ c | None \<Rightarrow> False)"

lemma coordinate_at_Some:
  "coordinate_at r c = Some q \<longleftrightarrow> 0 \<le> r \<and> r < 15 \<and> 0 \<le> c \<and> c < 15 \<and> q = Coordinate (nat r) (nat c)"
  by (auto simp: coordinate_at_def in_bounds_def BOARD_SIZE_def)

lemma step_at_shift: "step_at dr dc (r + j * dr) (c + j * dc) k = step_at dr dc r c (j + k)"
  by (simp add: step_at_def algebra_simps)

lemma step_at_bounds:
  assumes "axis dr dc" "step_at dr dc r c k = Some q"
  shows "0 \<le> dr * r + dc * c + k" "dr * r + dc * c + k < 15"
  using assms by (auto simp: axis_def step_at_def coordinate_at_Some)

lemma map_shift_upto: "map (\<lambda>k. k + a) [m..n] = [m + a..n + a]" for a :: int
  by (rule nth_equalityI) (simp_all add: nth_upto)

lemma scan_back_spec:
  assumes "axis dr dc"
  shows "\<exists>n. scan_back occ dr dc r c = Some (r - int n * dr, c - int n * dc)
    \<and> (\<forall>j \<in> {1..int n}. filled occ (step_at dr dc r c (- j)))
    \<and> \<not> filled occ (step_at dr dc r c (- int n - 1))"
proof (induction m \<equiv> "nat (dr * r + dc * c)" arbitrary: r c)
  case (0 r c)
  have "coordinate_at (r - dr) (c - dc) = None"
  proof (cases "coordinate_at (r - dr) (c - dc)")
    case (Some q)
    then show ?thesis using step_at_bounds[OF assms, of r c "-1" q] 0 by (simp add: step_at_def)
  qed simp
  then show ?case
    by (intro exI[of _ 0], subst scan_back.simps) (simp add: step_at_def filled_def)
next
  case (Suc m r c)
  show ?case
  proof (cases "filled occ (step_at dr dc r c (-1))")
    case False
    then show ?thesis
      by (intro exI[of _ 0], subst scan_back.simps) (auto simp: step_at_def filled_def split: option.splits)
  next
    case True
    then obtain q where q: "coordinate_at (r - dr) (c - dc) = Some q" "occ q"
      by (auto simp: step_at_def filled_def split: option.splits)
    have "m = nat (dr * (r - dr) + dc * (c - dc))" using Suc.hyps(2) assms by (auto simp: axis_def)
    from Suc.hyps(1)[OF this] obtain n where
      n: "scan_back occ dr dc (r - dr) (c - dc) = Some (r - dr - int n * dr, c - dc - int n * dc)"
      "\<forall>j \<in> {1..int n}. filled occ (step_at dr dc (r - dr) (c - dc) (- j))"
      "\<not> filled occ (step_at dr dc (r - dr) (c - dc) (- int n - 1))" by blast
    have shift: "step_at dr dc (r - dr) (c - dc) k = step_at dr dc r c (k - 1)" for k
      using step_at_shift[of dr dc r "-1" c k] by simp
    have "filled occ (step_at dr dc r c (- j))" if "j \<in> {1..int (Suc n)}" for j
      using that True n(2)[unfolded shift] by (cases "j = 1") (auto dest!: bspec[of _ _ "j - 1"])
    moreover have "scan_back occ dr dc r c = Some (r - int (Suc n) * dr, c - int (Suc n) * dc)"
      using q n(1) by (subst scan_back.simps) (simp add: algebra_simps)
    moreover have "\<not> filled occ (step_at dr dc r c (- int (Suc n) - 1))"
      using n(3)[unfolded shift] by (simp add: algebra_simps)
    ultimately show ?thesis by blast
  qed
qed

lemma scan_forward_spec:
  assumes "axis dr dc"
  shows "\<exists>n. scan_forward occ dr dc acc r c = Some (acc @ map (\<lambda>k. the (step_at dr dc r c k)) [0..int n - 1])
    \<and> (\<forall>j \<in> {0..<int n}. filled occ (step_at dr dc r c j)) \<and> \<not> filled occ (step_at dr dc r c (int n))"
proof (induction m \<equiv> "nat (15 - (dr * r + dc * c))" arbitrary: r c acc)
  case (0 r c acc)
  have "coordinate_at r c = None"
  proof (cases "coordinate_at r c")
    case (Some q)
    then show ?thesis using step_at_bounds[OF assms, of r c 0 q] 0 by (simp add: step_at_def)
  qed simp
  then show ?case
    by (intro exI[of _ 0], subst scan_forward.simps) (simp add: step_at_def filled_def)
next
  case (Suc m r c acc)
  show ?case
  proof (cases "filled occ (step_at dr dc r c 0)")
    case False
    then show ?thesis
      by (intro exI[of _ 0], subst scan_forward.simps) (auto simp: step_at_def filled_def split: option.splits)
  next
    case True
    then obtain q where q: "coordinate_at r c = Some q" "occ q"
      by (auto simp: step_at_def filled_def split: option.splits)
    have "m = nat (15 - (dr * (r + dr) + dc * (c + dc)))" using Suc.hyps(2) assms by (auto simp: axis_def)
    from Suc.hyps(1)[OF this] obtain n where
      n: "scan_forward occ dr dc (acc @ [q]) (r + dr) (c + dc)
        = Some ((acc @ [q]) @ map (\<lambda>k. the (step_at dr dc (r + dr) (c + dc) k)) [0..int n - 1])"
      "\<forall>j \<in> {0..<int n}. filled occ (step_at dr dc (r + dr) (c + dc) j)"
      "\<not> filled occ (step_at dr dc (r + dr) (c + dc) (int n))" by blast
    have shift: "step_at dr dc (r + dr) (c + dc) k = step_at dr dc r c (k + 1)" for k
      using step_at_shift[of dr dc r 1 c k] by (simp add: add.commute)
    have list: "q # map (\<lambda>k. the (step_at dr dc (r + dr) (c + dc) k)) [0..int n - 1]
        = map (\<lambda>k. the (step_at dr dc r c k)) [0..int (Suc n) - 1]"
    proof -
      have "[0..int n] = 0 # map (\<lambda>k. k + 1) [0..int n - 1]"
        by (subst upto_rec1) (simp_all add: map_shift_upto)
      then show ?thesis using q(1) by (simp add: shift) (simp add: step_at_def)
    qed
    have "filled occ (step_at dr dc r c j)" if "j \<in> {0..<int (Suc n)}" for j
      using that True n(2)[unfolded shift] by (cases "j = 0") (auto dest!: bspec[of _ _ "j - 1"])
    moreover have "scan_forward occ dr dc acc r c
        = Some (acc @ map (\<lambda>k. the (step_at dr dc r c k)) [0..int (Suc n) - 1])"
      unfolding list[symmetric] using q n(1) by (subst scan_forward.simps) simp
    moreover have "\<not> filled occ (step_at dr dc r c (int (Suc n)))"
      using n(3)[unfolded shift] by (simp add: add.commute)
    ultimately show ?thesis by blast
  qed
qed

lemma word_segment_run:
  fixes s and pps and origin and dr and dc
  defines "occ \<equiv> \<lambda>c. tile_with_proposed s pps c \<noteq> None"
  defines "at \<equiv> step_at dr dc (int (row origin)) (int (column origin))"
  assumes ax: "axis dr dc" and ib: "in_bounds origin BOARD_SIZE BOARD_SIZE" and oc: "occ origin"
  shows "\<exists>a b. word_segment s pps origin dr dc = Ok (map (\<lambda>k. the (at k)) [- int a..int b])
    \<and> (\<forall>k \<in> {- int a..int b}. filled occ (at k)) \<and> \<not> filled occ (at (- int a - 1))
    \<and> \<not> filled occ (at (int b + 1))"
proof -
  let ?r = "int (row origin)" and ?c = "int (column origin)"
  obtain a where a: "scan_back occ dr dc ?r ?c = Some (?r - int a * dr, ?c - int a * dc)"
    "\<forall>j \<in> {1..int a}. filled occ (at (- j))" "\<not> filled occ (at (- int a - 1))"
    using scan_back_spec[OF ax, of occ ?r ?c] unfolding at_def by blast
  have shift: "step_at dr dc (?r - int a * dr) (?c - int a * dc) k = at (k - int a)" for k
    using step_at_shift[of dr dc ?r "- int a" ?c k] unfolding at_def by simp
  obtain n where n: "scan_forward occ dr dc [] (?r - int a * dr) (?c - int a * dc)
      = Some (map (\<lambda>k. the (at (k - int a))) [0..int n - 1])"
    "\<forall>j \<in> {0..<int n}. filled occ (at (j - int a))" "\<not> filled occ (at (int n - int a))"
    using scan_forward_spec[OF ax, of occ "[]" "?r - int a * dr" "?c - int a * dc"] unfolding shift by auto
  have "at 0 = Some origin"
    using ib by (cases origin) (simp add: at_def step_at_def coordinate_at_Some in_bounds_def BOARD_SIZE_def)
  then have behind: "filled occ (at (- j))" if "j \<in> {0..int a}" for j
    using that a(2) oc by (cases "j = 0") (auto simp: filled_def)
  have "int a < int n"
  proof (rule ccontr)
    assume "\<not> int a < int n"
    then show False using behind[of "int a - int n"] n(3) by simp
  qed
  define b where "b = n - 1 - a"
  have b: "int b = int n - 1 - int a" using \<open>int a < int n\<close> by (simp add: b_def)
  have "map (\<lambda>k. the (at (k - int a))) [0..int n - 1] = map (\<lambda>k. the (at k)) (map (\<lambda>k. k + (- int a)) [0..int n - 1])"
    by simp
  also have "\<dots> = map (\<lambda>k. the (at k)) [- int a..int b]" by (simp only: map_shift_upto) (simp add: b)
  finally have "word_segment s pps origin dr dc = Ok (map (\<lambda>k. the (at k)) [- int a..int b])"
    using a(1) n(1) by (simp add: word_segment_def occ_def)
  moreover have "filled occ (at k)" if "k \<in> {- int a..int b}" for k
    using n(2)[rule_format, of "k + int a"] that b by simp
  moreover have "\<not> filled occ (at (int b + 1))" using n(3) by (simp add: b)
  ultimately show ?thesis using a(3) by blast
qed

lemma word_segment_squares:
  assumes "axis dr dc" "in_bounds origin BOARD_SIZE BOARD_SIZE" "tile_with_proposed s pps origin \<noteq> None"
  shows "\<exists>cs. word_segment s pps origin dr dc = Ok cs \<and>
    list_all (\<lambda>c. in_bounds c BOARD_SIZE BOARD_SIZE \<and> tile_with_proposed s pps c \<noteq> None) cs"
proof -
  obtain a b where w: "word_segment s pps origin dr dc
      = Ok (map (\<lambda>k. the (step_at dr dc (int (row origin)) (int (column origin)) k)) [- int a..int b])"
    "\<forall>k \<in> {- int a..int b}. filled (\<lambda>c. tile_with_proposed s pps c \<noteq> None)
      (step_at dr dc (int (row origin)) (int (column origin)) k)"
    using word_segment_run[OF assms] by blast
  have "in_bounds q BOARD_SIZE BOARD_SIZE" if "step_at dr dc r c k = Some q" for r c k q
    using that by (auto simp: step_at_def coordinate_at_Some in_bounds_def BOARD_SIZE_def)
  then show ?thesis using w by (force simp: list_all_iff filled_def split: option.splits)
qed

section \<open>Scoring\<close>

fun letter_multiplier :: "Premium \<Rightarrow> nat" where
  "letter_multiplier DoubleLetter = 2"
| "letter_multiplier TripleLetter = 3"
| "letter_multiplier _ = 1"

fun word_multiplier_of :: "Premium \<Rightarrow> nat" where
  "word_multiplier_of DoubleWord = 2"
| "word_multiplier_of TripleWord = 3"
| "word_multiplier_of _ = 1"

text \<open>A premium counts only under a tile placed in this move.\<close>

definition active_premium :: "Ruleset \<Rightarrow> Proposal \<Rightarrow> Coordinate \<Rightarrow> Premium" where
  "active_premium r pps c = (if proposed_get pps c \<noteq> None
     then bs_premium (the (board_square (gr_board (rs_game r)) c)) else Normal)"

definition square_points :: "Ruleset \<Rightarrow> PublicGameState \<Rightarrow> Proposal \<Rightarrow> Coordinate \<Rightarrow> nat" where
  "square_points r s pps c =
     tile_value r (the (tile_with_proposed s pps c)) * letter_multiplier (active_premium r pps c)"

definition word_text :: "PublicGameState \<Rightarrow> Proposal \<Rightarrow> Coordinate list \<Rightarrow> string" where
  "word_text s pps cs = concat (map (\<lambda>c. ref_letter (the (tile_with_proposed s pps c))) cs)"

lemma premium_step_Ok:
  "premium_step p v m = Ok r \<Longrightarrow> r = (v * letter_multiplier p, m * word_multiplier_of p)"
  by (cases p) (auto simp: premium_step_def rbind_Ok_iff checked_mul_def split: if_splits)

lemma word_step_Ok:
  assumes "word_step r s pps (tx, ls, wm) c = Ok acc"
  shows "acc = (tx @ ref_letter (the (tile_with_proposed s pps c)), ls + square_points r s pps c,
    wm * word_multiplier_of (active_premium r pps c))"
  using assms
  by (auto simp: word_step_def rbind_Ok_iff square_points_def active_premium_def checked_add_def
      split: if_splits dest!: premium_step_Ok)

lemma word_fold_Ok:
  assumes "try_fold (word_step r s pps) (tx, ls, wm) cs = Ok acc"
  shows "acc = (tx @ word_text s pps cs, ls + sum_list (map (square_points r s pps) cs),
    wm * prod_list (map (\<lambda>c. word_multiplier_of (active_premium r pps c)) cs))"
  using assms
proof (induction cs arbitrary: tx ls wm)
  case Nil
  then show ?case by (simp add: word_text_def)
next
  case (Cons c cs)
  then obtain acc' where step: "word_step r s pps (tx, ls, wm) c = Ok acc'"
    "try_fold (word_step r s pps) acc' cs = Ok acc" by (auto simp: rbind_Ok_iff)
  note rest = step(2)[unfolded word_step_Ok[OF step(1)]]
  show ?case unfolding Cons.IH[OF rest] by (simp add: word_text_def add.assoc mult.assoc)
qed

lemma validate_word_Ok:
  assumes "validate_word E g pps cs = Ok w"
  shows "fw_text w = word_text (g_state g) pps cs" "fw_coordinates w = cs"
    "fw_score w = sum_list (map (square_points (g_ruleset g) (g_state g) pps) cs)
       * prod_list (map (\<lambda>c. word_multiplier_of (active_premium (g_ruleset g) pps c)) cs)"
    "fw_score w < 2 ^ 32"
    "normalize_key E (profile_of (g_ruleset g)) (fw_text w) = Ok (fw_normalized w)"
    "wv_contains (g_lexicon g) (fw_normalized w)"
  using assms
  by (auto simp: validate_word_def rbind_Ok_iff checked_mul_def split: if_splits dest!: word_fold_Ok)

lemma score_word_Ok:
  "score_word E g pps (ws, n) cs = Ok acc \<longleftrightarrow> (\<exists>w. validate_word E g pps cs = Ok w
     \<and> n + fw_score w < 2 ^ 32 \<and> acc = (ws @ [w], n + fw_score w))"
  by (auto simp: rbind_Ok_iff score_word_def checked_add_def split: if_splits)

lemma score_words_Ok:
  assumes "try_fold (score_word E g pps) (ws, n) css = Ok (ws', n')"
  shows "\<exists>vs. ws' = ws @ vs \<and> n' = n + sum_list (map fw_score vs)
    \<and> list_all2 (\<lambda>cs w. validate_word E g pps cs = Ok w) css vs"
  using assms
proof (induction css arbitrary: ws n)
  case Nil
  then show ?case by simp
next
  case (Cons cs css)
  then obtain w where w: "validate_word E g pps cs = Ok w"
    "try_fold (score_word E g pps) (ws @ [w], n + fw_score w) css = Ok (ws', n')"
    by (auto simp: rbind_Ok_iff score_word_Ok)
  from Cons.IH[OF w(2)] obtain vs where "ws' = (ws @ [w]) @ vs" "n' = n + fw_score w + sum_list (map fw_score vs)"
    "list_all2 (\<lambda>cs w. validate_word E g pps cs = Ok w) css vs" by blast
  then show ?case using w(1) by (intro exI[of _ "w # vs"]) simp
qed

section \<open>No placement panics\<close>

abbreviation live_square :: "PublicGameState \<Rightarrow> Proposal \<Rightarrow> Coordinate \<Rightarrow> bool" where
  "live_square s pps c \<equiv> in_bounds c BOARD_SIZE BOARD_SIZE \<and> tile_with_proposed s pps c \<noteq> None"

definition board_total :: "Ruleset \<Rightarrow> bool" where
  "board_total r \<longleftrightarrow> (\<forall>c. in_bounds c BOARD_SIZE BOARD_SIZE \<longrightarrow> board_square (gr_board (rs_game r)) c \<noteq> None)"

lemma board_total_builtin: "board_total (the_builtin i)"
  by (simp add: board_total_def BOARD_SIZE_def board_of_square)

lemma premium_step_returns: "returns (premium_step p v m)"
  by (cases p) (auto simp: premium_step_def intro!: returns_rbind)

lemma word_step_returns:
  "board_total r \<Longrightarrow> live_square s pps c \<Longrightarrow> returns (word_step r s pps acc c)"
  by (cases acc) (auto simp: word_step_def board_total_def premium_step_returns intro!: returns_rbind)

lemma validate_word_returns:
  assumes "board_total (g_ruleset g)" "list_all (live_square (g_state g) pps) cs"
  shows "returns (validate_word E g pps cs)"
proof -
  have "returns (try_fold (word_step (g_ruleset g) (g_state g) pps) ([], 0, 1) cs)"
    by (rule try_fold_returns[where P = "\<lambda>_. True"])
      (use assms in \<open>auto simp: list_all_iff intro!: word_step_returns\<close>)
  then show ?thesis
    unfolding validate_word_def by (auto intro!: returns_rbind key.norm_returns)
qed

lemma push_segments_live:
  assumes "\<And>c dr dc. (c, dr, dc) \<in> set os \<Longrightarrow> axis dr dc \<and> live_square s pps c"
  shows "returns (push_segments s pps [] os)"
    and "push_segments s pps [] os = Ok css \<Longrightarrow> list_all (\<lambda>cs. 2 \<le> length cs \<and> list_all (live_square s pps) cs) css"
proof -
  let ?f = "\<lambda>ws (origin, dr, dc). rbind (word_segment s pps origin dr dc) (\<lambda>cs. Ok (push_if_word ws cs))"
  let ?P = "\<lambda>css. list_all (\<lambda>cs. 2 \<le> length cs \<and> list_all (live_square s pps) cs) css"
  have step: "\<exists>ws'. ?f ws x = Ok ws' \<and> ?P ws'" if x: "x \<in> set os" and ws: "?P ws" for ws x
  proof -
    obtain c dr dc where c: "x = (c, dr, dc)" by (cases x) auto
    obtain cs where "word_segment s pps c dr dc = Ok cs" "list_all (live_square s pps) cs"
      using word_segment_squares[of dr dc c s pps] assms x c by blast
    then show ?thesis using ws c by (auto simp: push_if_word_def)
  qed
  show "returns (push_segments s pps [] os)" unfolding push_segments_def
  proof (rule try_fold_returns[where P = ?P])
    show "returns (?f ws x)" if "?P ws" "x \<in> set os" for ws x using step[OF that(2,1)] by force
    show "?P ws'" if "?P ws" "x \<in> set os" "?f ws x = Ok ws'" for ws x ws' using step[OF that(2,1)] that(3) by force
  qed simp
  show "?P css" if "push_segments s pps [] os = Ok css"
    using that[unfolded push_segments_def]
  proof (rule try_fold_invariant)
    show "?P ws'" if "?P ws" "x \<in> set os" "?f ws x = Ok ws'" for ws x ws' using step[OF that(2,1)] that(3) by force
  qed simp
qed

lemma proposed_live:
  "p \<in> set ps \<Longrightarrow> tile_with_proposed s ps (pl_coordinate p) \<noteq> None"
  by (auto simp: tile_with_proposed_def proposed_get_def find_None_iff split: option.splits)

lemma formed_words_live:
  assumes "ps \<noteq> []" "\<And>p. p \<in> set ps \<Longrightarrow> in_bounds (pl_coordinate p) BOARD_SIZE BOARD_SIZE"
  shows "returns (formed_word_coordinates s ps o' ps)"
    and "formed_word_coordinates s ps o' ps = Ok css \<Longrightarrow>
      list_all (\<lambda>cs. 2 \<le> length cs \<and> list_all (live_square s ps) cs) css"
proof -
  have hd: "ps ! 0 \<in> set ps" using assms(1) by simp
  have pre: "axis dr dc \<and> live_square s ps c" if "(c, dr, dc) \<in> set (word_origins o' (ps ! 0) ps)" for c dr dc
    using that assms(2) hd proposed_live by (cases o') (auto simp: axis_def word_origins_def)
  note seg = push_segments_live[of "word_origins o' (ps ! 0) ps", OF pre]
  show "returns (formed_word_coordinates s ps o' ps)"
    unfolding formed_word_coordinates_def using assms(1) seg(1) by (auto simp: index_at_def intro!: returns_rbind)
  show "list_all (\<lambda>cs. 2 \<le> length cs \<and> list_all (live_square s ps) cs) css"
    if fw: "formed_word_coordinates s ps o' ps = Ok css"
  proof -
    obtain ws where "push_segments s ps [] (word_origins o' (ps ! 0) ps) = Ok ws" "css = retain_first ws"
      using fw assms(1) by (auto simp: formed_word_coordinates_def rbind_Ok_iff)
    then show ?thesis using seg(2) by (simp add: retain_first_def list_all_iff)
  qed
qed

lemma validate_contiguous_returns: "ps \<noteq> [] \<Longrightarrow> returns (validate_contiguous s ps o' pps)"
  unfolding validate_contiguous_def Let_def
  by (auto simp: list_get_def split: Orientation.splits intro!: returns_rbind try_fold_returns[where P = "\<lambda>_. True"])

lemma validate_unique_returns: "returns (validate_unique_coordinates ps)"
proof (cases "distinct (map pl_coordinate ps)")
  case True
  then show ?thesis using validate_unique_Ok[of ps] by force
next
  case False
  then obtain xs ys zs c where "map pl_coordinate ps = xs @ [c] @ ys @ [c] @ zs" using not_distinct_decomp by blast
  then have "List.find (\<lambda>c. 1 < length (filter (\<lambda>d. d = c) (map pl_coordinate ps))) (map pl_coordinate ps) \<noteq> None"
    unfolding find_None_iff by (auto intro!: exI[of _ c])
  then show ?thesis by (auto simp: validate_unique_coordinates_def Let_def intro!: returns_rbind)
qed

lemma finish_placement_returns:
  assumes "board_total (g_ruleset g)" "ps \<noteq> []"
    "\<And>p. p \<in> set ps \<Longrightarrow> in_bounds (pl_coordinate p) BOARD_SIZE BOARD_SIZE"
  shows "returns (finish_placement E g rack o' ps)"
proof -
  have "returns (try_fold (score_word E g ps) ([], 0) css)" if "formed_word_coordinates (g_state g) ps o' ps = Ok css" for css
  proof (rule try_fold_returns[where P = "\<lambda>_. True"])
    show "returns (score_word E g ps acc cs)" if "cs \<in> set css" for acc cs
      using that formed_words_live(2)[OF assms(2,3) \<open>formed_word_coordinates (g_state g) ps o' ps = Ok css\<close>] assms(1)
      by (cases acc) (auto simp: score_word_def list_all_iff intro!: returns_rbind validate_word_returns)
  qed simp_all
  then show ?thesis
    unfolding finish_placement_def Let_def
    by (auto simp: validate_connection_def intro!: returns_rbind validate_contiguous_returns[OF assms(2)]
        formed_words_live(1)[OF assms(2,3)])
qed

lemma canonical_token_returns: "returns (canonical_tile_token E prof tok)"
  by (auto simp: canonical_tile_token_def key.norm_returns intro!: returns_rbind)

lemma own_step_returns: "returns (own_step E g rack acc p)"
  by (cases acc) (auto simp: own_step_def Let_def validate_assignment_def
      intro!: returns_rbind canonical_token_returns)

lemma prepare_placement_returns:
  assumes "seat_index pl < length (g_racks g)" "board_total (g_ruleset g)"
  shows "returns (prepare_placement E g pl ps)"
proof (cases "ps = []")
  case True
  then show ?thesis by (simp add: prepare_placement_def)
next
  case False
  have own: "returns (validate_owned_placements E g pl ps)"
    unfolding validate_owned_placements_def using assms(1)
    by (auto intro!: returns_rbind try_fold_returns[where P = "\<lambda>_. True"] own_step_returns)
  have ori: "returns (orientation_of qs)" for qs by (simp add: orientation_of_def Let_def)
  show ?thesis
  proof (cases "\<exists>pb qs o'. validate_owned_placements E g pl ps = Ok (pb, qs)
      \<and> validate_unique_coordinates qs = Ok () \<and> orientation_of qs = Ok o'")
    case True
    then obtain pb qs o' where 1: "validate_owned_placements E g pl ps = Ok (pb, qs)"
      "distinct (map pl_coordinate qs)" "orientation_of qs = Ok o'" by (auto simp: validate_unique_Ok)
    note o = 1(1)[unfolded validate_owned_Ok[OF assms(1)]]
    have "in_bounds (pl_coordinate q) BOARD_SIZE BOARD_SIZE" if "q \<in> set qs" for q
      using o that by (auto simp: list_all2_conv_all_nth in_set_conv_nth placeable_def)
    moreover have "qs \<noteq> []" using o False by auto
    moreover from this have "sort_placements o' qs \<noteq> []" by (metis length_0_conv sort_placements_length)
    ultimately show ?thesis
      unfolding prepare_placement_finish[OF assms(1) False 1]
      by (intro finish_placement_returns assms) simp_all
  next
    case no: False
    show ?thesis unfolding prepare_placement_def if_not_P[OF False]
    proof (rule returns_rbind[OF own])
      fix x assume x: "validate_owned_placements E g pl ps = Ok x"
      obtain pb qs where pq: "x = (pb, qs)" by (cases x) blast
      show "returns (case x of (played_by_id, updated) \<Rightarrow> rbind (validate_unique_coordinates updated)
          (\<lambda>_. rbind (orientation_of updated) (f played_by_id updated)))" for f
        unfolding pq prod.case
        by (intro returns_rbind[OF validate_unique_returns] returns_rbind[OF ori]) (use no x pq in auto)
    qed
  qed
qed

end
