(* ===== verification/Game.thy ===== *)
theory Game
  imports WordScan
begin

text \<open>
  The aggregate (\<^verbatim>\<open>impl Game\<close> in \<^verbatim>\<open>game.rs\<close>): creation, the four moves, completion, replay
  and resumption, and the projections. A method on \<^verbatim>\<open>&mut self\<close> returns the updated game
  with its event; every method assigns its fields only after the last fallible step, so an
  \<open>Err\<close> leaves the caller's game as it was.
\<close>

section \<open>Counts, winners and completion\<close>

definition invalid_player_count :: "nat \<Rightarrow> GameError" where
  "invalid_player_count n = InvalidTileState (PlayerCountReason n)"

definition count_u8 :: "nat \<Rightarrow> nat result" where
  "count_u8 n = ok_or (InvalidTileState (ExceedsU8 n)) (try_from 8 n)"

definition count_u16 :: "nat \<Rightarrow> nat result" where
  "count_u16 n = ok_or (InvalidTileState (ExceedsU16 n)) (try_from 16 n)"

definition rack_counts :: "Rack list \<Rightarrow> nat list result" where
  "rack_counts racks = traverse (\<lambda>rack. count_u8 (length rack)) racks"

definition next_scoreless :: "nat \<Rightarrow> nat \<Rightarrow> nat result" where
  "next_scoreless current score =
     (if score = 0 then ok_or ScorelessTurnOverflow (checked_add 8 current 1) else Ok 0)"

text \<open>The loop of \<^verbatim>\<open>unique_winner\<close> over the scores from \<open>index\<close> on; \<^verbatim>\<open>?\<close> leaves it with \<open>None\<close>.\<close>

fun winner_loop ::
  "Seat option \<Rightarrow> nat \<Rightarrow> (Seat \<times> Score) option \<Rightarrow> bool \<Rightarrow> Score list \<Rightarrow> Seat option" where
  "winner_loop excluded index best tied [] =
     (case best of None \<Rightarrow> None | Some (seat, _) \<Rightarrow> if \<not> tied then Some seat else None)"
| "winner_loop excluded index best tied (score # scores) =
     (case list_get SEAT_ALL index of
        None \<Rightarrow> None
      | Some seat \<Rightarrow>
          if Some seat = excluded then winner_loop excluded (index + 1) best tied scores
          else (case best of
              None \<Rightarrow> winner_loop excluded (index + 1) (Some (seat, score)) False scores
            | Some (_, best_score) \<Rightarrow>
                if best_score < score then winner_loop excluded (index + 1) (Some (seat, score)) False scores
                else if score = best_score then winner_loop excluded (index + 1) best True scores
                else winner_loop excluded (index + 1) best tied scores))"

definition unique_winner :: "Score list \<Rightarrow> Seat option \<Rightarrow> Seat option" where
  "unique_winner scores excluded = winner_loop excluded 0 None False scores"

definition face_value :: "Ruleset \<Rightarrow> TileFace \<Rightarrow> nat" where
  "face_value r face = (case face of
       Letter token \<Rightarrow> (case letter_value r token of Some v \<Rightarrow> v | None \<Rightarrow> 0)
     | Blank \<Rightarrow> 0)"

definition rack_value :: "Ruleset \<Rightarrow> Rack \<Rightarrow> int result" where
  "rack_value r rack = try_fold (\<lambda>total' tile.
     ok_or ScoreOverflow (checked_add_signed 32 total' (int (face_value r (pt_face tile))))) 0 rack"

definition deduct ::
  "Ruleset \<Rightarrow> Rack list \<Rightarrow> Score list \<times> int \<Rightarrow> Seat \<Rightarrow> (Score list \<times> int) result" where
  "deduct r racks acc seat = (case acc of (scores, bonus) \<Rightarrow>
     rbind (index_at racks (seat_index seat)) (\<lambda>rack.
     rbind (rack_value r rack) (\<lambda>deduction.
     rbind (index_at scores (seat_index seat)) (\<lambda>score.
     rbind (ok_or ScoreOverflow (score_checked_add score (- deduction))) (\<lambda>score'.
     rbind (store_at scores (seat_index seat) score') (\<lambda>scores'.
     rbind (ok_or ScoreOverflow (checked_add_signed 32 bonus deduction)) (\<lambda>bonus'.
     Ok (scores', bonus'))))))))"

text \<open>The first loop of \<^verbatim>\<open>complete_state\<close> does not sum the deductions.\<close>

definition deduct_only :: "Ruleset \<Rightarrow> Rack list \<Rightarrow> Score list \<Rightarrow> Seat \<Rightarrow> Score list result" where
  "deduct_only r racks scores seat =
     rbind (index_at racks (seat_index seat)) (\<lambda>rack.
     rbind (rack_value r rack) (\<lambda>deduction.
     rbind (index_at scores (seat_index seat)) (\<lambda>score.
     rbind (ok_or ScoreOverflow (score_checked_add score (- deduction))) (\<lambda>score'.
     store_at scores (seat_index seat) score'))))"

definition final_scores ::
  "Ruleset \<Rightarrow> Score list \<Rightarrow> Rack list \<Rightarrow> Seat list \<Rightarrow> TerminalReason \<Rightarrow> Score list result" where
  "final_scores r scores racks active reason = (case reason of
       Resignation _ \<Rightarrow> Ok scores
     | ScorelessTurns \<Rightarrow> try_fold (deduct_only r racks) scores active
     | RackEmptied outgoing \<Rightarrow>
         rbind (try_fold (deduct r racks) (scores, 0) (filter (\<lambda>seat. seat \<noteq> outgoing) active)) (\<lambda>(scores', bonus).
         rbind (index_at scores' (seat_index outgoing)) (\<lambda>score.
         rbind (ok_or ScoreOverflow (score_checked_add score bonus)) (\<lambda>score'.
         store_at scores' (seat_index outgoing) score'))))"

definition winner_of :: "Score list \<Rightarrow> Seat list \<Rightarrow> TerminalReason \<Rightarrow> Seat option" where
  "winner_of scores active reason = (case reason of
       Resignation resigned \<Rightarrow>
         if length active = 2 then List.find (\<lambda>seat. seat \<noteq> resigned) active
         else unique_winner scores (Some resigned)
     | _ \<Rightarrow> unique_winner scores None)"

definition complete_state ::
  "Game \<Rightarrow> PublicGameState \<Rightarrow> Rack list \<Rightarrow> TerminalReason \<Rightarrow> (GameResult \<times> PublicGameState) result" where
  "complete_state g state racks reason =
     rbind (ok_or (invalid_player_count (length racks)) (seat_active (length racks))) (\<lambda>active.
     rbind (final_scores (g_ruleset g) (gs_scores state) racks active reason) (\<lambda>scores.
     let winner = winner_of scores active reason;
         result' = \<lparr>res_game_id = gs_game_id (g_state g), res_ruleset_id = gs_ruleset_id state,
           res_lexicon = gs_lexicon state, res_scores = scores, res_winner = winner,
           res_final_version = gs_version state, res_reason = reason\<rparr>
     in Ok (result', state\<lparr>gs_scores := scores, gs_phase := Finished, gs_result := Some result'\<rparr>)))"

definition physical_tile :: "Ruleset \<Rightarrow> env \<Rightarrow> BoardTile \<Rightarrow> PhysicalTile result" where
  "physical_tile r E tile =
     rbind (canonical_tile_token E (profile_of r) (bt_letter tile)) (\<lambda>canonical.
     if canonical \<noteq> bt_letter tile then Err (NonCanonicalBoardTile (bt_letter tile) canonical)
     else rbind (if bt_is_blank tile then Ok Blank
            else rbind (map_err (\<lambda>_. InvalidTileState (InvalidPhysicalToken (bt_tile_id tile)))
                   (TileToken_new (bt_letter tile))) (\<lambda>token. Ok (Letter token))) (\<lambda>face.
       Ok \<lparr>pt_id = bt_tile_id tile, pt_face = face\<rparr>))"

definition board_tiles :: "BoardTile option list \<Rightarrow> BoardTile list" where
  "board_tiles board = List.map_filter id board"

definition physical_board :: "env \<Rightarrow> PublicGameState \<Rightarrow> Ruleset \<Rightarrow> PhysicalTile list result" where
  "physical_board E state r = traverse (physical_tile r E) (board_tiles (gs_board state))"

section \<open>Creation\<close>

definition create_with_mode_and_players ::
  "env \<Rightarrow> string \<Rightarrow> Ruleset \<Rightarrow> WordValidator option \<Rightarrow> GameSeed \<Rightarrow> GameMode \<Rightarrow> nat \<Rightarrow> Game result" where
  "create_with_mode_and_players E game_id r lexicon seed mode player_count =
     rbind (validate_ruleset r) (\<lambda>_.
     rbind (ok_or (MissingLexicon (rs_id r) (rs_lexicon r)) lexicon) (\<lambda>lex.
     rbind (ensure_lexicon r ContextRuleset (wv_identity lex)) (\<lambda>_.
     rbind (map_err (\<lambda>e. InvalidTileState (FromRandom e))
       (prepare_initial_deal_for_players E r seed player_count)) (\<lambda>deal.
     rbind (rack_counts (id_racks deal)) (\<lambda>counts.
     rbind (count_u16 (length (id_bag deal))) (\<lambda>bag_count.
     let state = \<lparr>gs_game_id = game_id, gs_ruleset_id = rs_id r, gs_ruleset = ruleset_identity E r,
           gs_lexicon = wv_identity lex, gs_mode = mode, gs_rng_algorithm = id_algorithm deal,
           gs_seed_commitment = id_commitment deal, gs_board = replicate BOARD_SQUARES None,
           gs_scores = replicate player_count 0, gs_current_player = One, gs_version = 0,
           gs_scoreless_turns = 0, gs_rack_counts = counts, gs_bag_count = bag_count,
           gs_phase = Active, gs_result = None\<rparr>;
         event = \<lparr>ge_sequence = 0, ge_visibility = Public, ge_lexicon = wv_identity lex,
           ge_kind = Created game_id r mode (id_algorithm deal) (id_commitment deal) counts bag_count\<rparr>
     in Ok \<lparr>g_ruleset = r, g_lexicon = lex, g_seed = seed, g_bag = id_bag deal, g_racks = id_racks deal,
          g_state = state, g_events = [event], g_private_events = []\<rparr>))))))"

definition create_with_mode ::
  "env \<Rightarrow> string \<Rightarrow> Ruleset \<Rightarrow> WordValidator option \<Rightarrow> GameSeed \<Rightarrow> GameMode \<Rightarrow> Game result" where
  "create_with_mode E game_id r lexicon seed mode = create_with_mode_and_players E game_id r lexicon seed mode 2"

definition create :: "env \<Rightarrow> string \<Rightarrow> Ruleset \<Rightarrow> WordValidator option \<Rightarrow> GameSeed \<Rightarrow> Game result" where
  "create E game_id r lexicon seed = create_with_mode E game_id r lexicon seed Competitive"

section \<open>Moves\<close>

definition validate_action :: "Game \<Rightarrow> Player \<Rightarrow> nat \<Rightarrow> unit result" where
  "validate_action g player expected_version =
     (if gs_phase (g_state g) = Finished then Err GameFinished
      else if player \<noteq> gs_current_player (g_state g)
        then Err (WrongPlayer (gs_current_player (g_state g)) player)
      else if expected_version \<noteq> gs_version (g_state g)
        then Err (StaleVersion (gs_version (g_state g)) expected_version)
      else Ok ())"

definition next_version :: "Game \<Rightarrow> nat result" where
  "next_version g = ok_or VersionOverflow (checked_add 64 (gs_version (g_state g)) 1)"

definition next_player :: "Game \<Rightarrow> Player \<Rightarrow> Player result" where
  "next_player g player =
     ok_or (invalid_player_count (length (g_racks g))) (seat_next player (length (g_racks g)))"

definition board_tile_of :: "Placement \<Rightarrow> BoardTile" where
  "board_tile_of p = \<lparr>bt_tile_id = pl_tile_id p, bt_letter = tl_letter (pl_tile p),
     bt_is_blank = tl_is_blank (pl_tile p)\<rparr>"

definition put_tile :: "BoardTile option list \<Rightarrow> Placement \<Rightarrow> BoardTile option list result" where
  "put_tile board p = store_at board (coord_index (pl_coordinate p) BOARD_SIZE) (Some (board_tile_of p))"

definition conservation_check ::
  "env \<Rightarrow> Ruleset \<Rightarrow> PublicGameState \<Rightarrow> Bag \<Rightarrow> Rack list \<Rightarrow> unit result" where
  "conservation_check E r state bag racks =
     rbind (physical_board E state r) (\<lambda>board.
     map_err (\<lambda>e. InvalidTileState (FromConservation e)) (verify_tile_conservation r bag racks board))"

text \<open>\<^verbatim>\<open>Some(self.complete_state(..)?)\<close> when the condition holds, \<^verbatim>\<open>None\<close> otherwise.\<close>

definition complete_when ::
  "bool \<Rightarrow> Game \<Rightarrow> PublicGameState \<Rightarrow> Rack list \<Rightarrow> TerminalReason
     \<Rightarrow> (GameResult option \<times> PublicGameState) result" where
  "complete_when b g state racks reason =
     (if b then rbind (complete_state g state racks reason) (\<lambda>(res, state'). Ok (Some res, state'))
      else Ok (None, state))"

definition play_tiles :: "env \<Rightarrow> Game \<Rightarrow> Player \<Rightarrow> nat \<Rightarrow> Placement list \<Rightarrow> (Game \<times> GameEvent) result" where
  "play_tiles E g player expected_version placements =
     rbind (validate_action g player expected_version) (\<lambda>_.
     rbind (prepare_placement E g player placements) (\<lambda>prepared.
     rbind (ensure (signed_range 32 (int (pr_score prepared))) ScoreOverflow) (\<lambda>_.
     rbind (index_at (gs_scores (g_state g)) (seat_index player)) (\<lambda>old_score.
     rbind (ok_or ScoreOverflow (score_checked_add old_score (int (pr_score prepared)))) (\<lambda>updated_score.
     rbind (next_version g) (\<lambda>updated_version.
     rbind (next_scoreless (gs_scoreless_turns (g_state g)) (pr_score prepared)) (\<lambda>scoreless_turns.
     rbind (index_at (g_racks g) (seat_index player)) (\<lambda>rack.
     let played_ids = map pl_tile_id (pr_placements prepared);
         retained = filter (\<lambda>tile. pt_id tile \<notin> set played_ids) rack in
     rbind (ok_or (InvalidTileState (ReasonText ''rack exceeds configured capacity''))
       (checked_sub (gr_rack_capacity (rs_game (g_ruleset g))) (length retained))) (\<lambda>refill_count.
     let (next_bag, drawn) = draw_up_to (g_bag g) refill_count;
         next_racks = (g_racks g)[seat_index player := retained @ drawn] in
     rbind (try_fold put_tile (gs_board (g_state g)) (pr_placements prepared)) (\<lambda>board'.
     rbind (store_at (gs_scores (g_state g)) (seat_index player) updated_score) (\<lambda>scores'.
     rbind (next_player g player) (\<lambda>current'.
     rbind (rack_counts next_racks) (\<lambda>counts'.
     rbind (count_u16 (length next_bag)) (\<lambda>bag_count'.
     let next_state = (g_state g)\<lparr>gs_board := board', gs_scores := scores', gs_current_player := current',
           gs_version := updated_version, gs_scoreless_turns := scoreless_turns,
           gs_rack_counts := counts', gs_bag_count := bag_count'\<rparr> in
     rbind (conservation_check E (g_ruleset g) next_state next_bag next_racks) (\<lambda>_.
     rbind (index_at next_racks (seat_index player)) (\<lambda>rack_after.
     rbind (if next_bag = [] \<and> rack_after = []
            then complete_when True g next_state next_racks (RackEmptied player)
            else complete_when (gr_scoreless_turn_limit (rs_game (g_ruleset g)) \<le> gs_scoreless_turns next_state)
                   g next_state next_racks ScorelessTurns) (\<lambda>(res, final_state).
     rbind (count_u8 (length drawn)) (\<lambda>draw_count.
     let event = \<lparr>ge_sequence = updated_version, ge_visibility = Public, ge_lexicon = gs_lexicon final_state,
           ge_kind = MovePlayed player (pr_placements prepared) (pr_words prepared) (pr_bingo_bonus prepared)
             (pr_score prepared) draw_count (gs_rack_counts final_state) (gs_bag_count final_state)
             (gs_scores final_state) (gs_scoreless_turns final_state) (gs_current_player final_state) res\<rparr>;
         private_event = \<lparr>pe_sequence = updated_version, pe_visibility = SeatPrivate player, pe_seat = player,
           pe_removed = pr_played prepared, pe_drawn = drawn, pe_rack_after = rack_after\<rparr>
     in Ok (g\<lparr>g_bag := next_bag, g_racks := next_racks, g_state := final_state,
              g_events := g_events g @ [event], g_private_events := g_private_events g @ [private_event]\<rparr>,
            event)))))))))))))))))))"

definition pass :: "Game \<Rightarrow> Player \<Rightarrow> nat \<Rightarrow> (Game \<times> GameEvent) result" where
  "pass g player expected_version =
     rbind (validate_action g player expected_version) (\<lambda>_.
     rbind (next_version g) (\<lambda>updated_version.
     rbind (next_player g player) (\<lambda>current'.
     rbind (ok_or ScorelessTurnOverflow (checked_add 8 (gs_scoreless_turns (g_state g)) 1)) (\<lambda>scoreless'.
     let next_state = (g_state g)\<lparr>gs_version := updated_version, gs_current_player := current',
           gs_scoreless_turns := scoreless'\<rparr> in
     rbind (complete_when (gr_scoreless_turn_limit (rs_game (g_ruleset g)) \<le> scoreless')
              g next_state (g_racks g) ScorelessTurns) (\<lambda>(res, final_state).
     let event = \<lparr>ge_sequence = updated_version, ge_visibility = Public, ge_lexicon = gs_lexicon final_state,
           ge_kind = Passed player (gs_scoreless_turns final_state) (gs_current_player final_state) res\<rparr>
     in Ok (g\<lparr>g_state := final_state, g_events := g_events g @ [event]\<rparr>, event))))))"

fun adjacent_duplicate :: "nat list \<Rightarrow> nat option" where
  "adjacent_duplicate (a # b # xs) = (if a = b then Some a else adjacent_duplicate (b # xs))"
| "adjacent_duplicate _ = None"

definition exchange_tiles :: "env \<Rightarrow> Game \<Rightarrow> Player \<Rightarrow> nat \<Rightarrow> TileId list \<Rightarrow> (Game \<times> GameEvent) result" where
  "exchange_tiles E g player expected_version ids =
     rbind (validate_action g player expected_version) (\<lambda>_.
     rbind (ensure (ids \<noteq> []) EmptyExchange) (\<lambda>_.
     let tile_ids = sort ids in
     rbind (case adjacent_duplicate tile_ids of Some d \<Rightarrow> Err (DuplicatePlacementTile d) | None \<Rightarrow> Ok ()) (\<lambda>_.
     rbind (count_u16 (length (g_bag g))) (\<lambda>bag_count.
     rbind (ensure (gr_exchange_minimum (rs_game (g_ruleset g)) \<le> bag_count)
       (ExchangeBagTooSmall (gr_exchange_minimum (rs_game (g_ruleset g))) bag_count)) (\<lambda>_.
     rbind (index_at (g_racks g) (seat_index player)) (\<lambda>rack.
     rbind (traverse (\<lambda>i. ok_or (TileNotOwned i) (List.find (\<lambda>tile. pt_id tile = i) rack)) tile_ids) (\<lambda>returned.
     rbind (next_version g) (\<lambda>updated_version.
     let retained = filter (\<lambda>tile. pt_id tile \<notin> set tile_ids) rack;
         (rest_bag, drawn) = draw_up_to (g_bag g) (length returned);
         next_racks = (g_racks g)[seat_index player := retained @ drawn] in
     rbind (return_tiles_to_bag E rest_bag returned (g_seed g) updated_version) (\<lambda>next_bag.
     rbind (next_player g player) (\<lambda>current'.
     rbind (ok_or ScorelessTurnOverflow (checked_add 8 (gs_scoreless_turns (g_state g)) 1)) (\<lambda>scoreless'.
     rbind (rack_counts next_racks) (\<lambda>counts'.
     rbind (count_u16 (length next_bag)) (\<lambda>bag_count'.
     let next_state = (g_state g)\<lparr>gs_current_player := current', gs_version := updated_version,
           gs_scoreless_turns := scoreless', gs_rack_counts := counts', gs_bag_count := bag_count'\<rparr> in
     rbind (conservation_check E (g_ruleset g) next_state next_bag next_racks) (\<lambda>_.
     rbind (complete_when (gr_scoreless_turn_limit (rs_game (g_ruleset g)) \<le> scoreless')
              g next_state next_racks ScorelessTurns) (\<lambda>(res, final_state).
     rbind (index_at next_racks (seat_index player)) (\<lambda>rack_after.
     let event = \<lparr>ge_sequence = updated_version, ge_visibility = Public, ge_lexicon = gs_lexicon final_state,
           ge_kind = Exchanged player tile_ids (gs_rack_counts final_state) (gs_bag_count final_state)
             (gs_scoreless_turns final_state) (gs_current_player final_state) res\<rparr>;
         private_event = \<lparr>pe_sequence = updated_version, pe_visibility = SeatPrivate player, pe_seat = player,
           pe_removed = returned, pe_drawn = drawn, pe_rack_after = rack_after\<rparr>
     in Ok (g\<lparr>g_bag := next_bag, g_racks := next_racks, g_state := final_state,
              g_events := g_events g @ [event], g_private_events := g_private_events g @ [private_event]\<rparr>,
            event)))))))))))))))))"

definition resign :: "Game \<Rightarrow> Player \<Rightarrow> nat \<Rightarrow> (Game \<times> GameEvent) result" where
  "resign g player expected_version =
     rbind (validate_action g player expected_version) (\<lambda>_.
     rbind (next_version g) (\<lambda>updated_version.
     let next_state = (g_state g)\<lparr>gs_version := updated_version\<rparr> in
     rbind (complete_state g next_state (g_racks g) (Resignation player)) (\<lambda>(res, final_state).
     let event = \<lparr>ge_sequence = updated_version, ge_visibility = Public, ge_lexicon = gs_lexicon final_state,
           ge_kind = Resigned player res\<rparr>
     in Ok (g\<lparr>g_state := final_state, g_events := g_events g @ [event]\<rparr>, event))))"

fun apply_move :: "env \<Rightarrow> Game \<Rightarrow> Player \<Rightarrow> nat \<Rightarrow> Move \<Rightarrow> (Game \<times> GameEvent) result" where
  "apply_move E g player v (Place placements) = play_tiles E g player v placements"
| "apply_move E g player v (Exchange tile_ids) = exchange_tiles E g player v tile_ids"
| "apply_move E g player v Pass = pass g player v"
| "apply_move E g player v Resign = resign g player v"

end
