(* ===== verification/GameInv.thy ===== *)
theory GameInv
  imports Game
begin

text \<open>
  The invariant of a game and its preservation. \<open>game_step\<close> is the step relation of the
  four moves; \<open>game_inv\<close> collects that the ruleset is a built-in one, that every tile of the
  distribution is in exactly one place, that the public counts are the true ones, that the
  journal is numbered without gaps and that a result exists exactly when the game is over.
  Every created game satisfies it and every move keeps it; the conservation check inside a
  move never fails.
\<close>

section \<open>Steps and the invariant\<close>

inductive game_step :: "env \<Rightarrow> Game \<Rightarrow> GameEvent \<Rightarrow> Game \<Rightarrow> bool" for E where
  step_play: "play_tiles E g player v ps = Ok (g', ev) \<Longrightarrow> game_step E g ev g'"
| step_pass: "pass g player v = Ok (g', ev) \<Longrightarrow> game_step E g ev g'"
| step_exchange: "exchange_tiles E g player v ids = Ok (g', ev) \<Longrightarrow> game_step E g ev g'"
| step_resign: "resign g player v = Ok (g', ev) \<Longrightarrow> game_step E g ev g'"

inductive_cases game_stepE: "game_step E g ev g'"

definition table_ok :: "Game \<Rightarrow> bool" where
  "table_ok g \<longleftrightarrow> g_ruleset g = the_builtin (rs_id (g_ruleset g))
     \<and> 2 \<le> length (g_racks g) \<and> length (g_racks g) \<le> 4
     \<and> length (gs_scores (g_state g)) = length (g_racks g)
     \<and> seat_index (gs_current_player (g_state g)) < length (g_racks g)
     \<and> length (gs_board (g_state g)) = BOARD_SQUARES
     \<and> list_all (\<lambda>rack. length rack \<le> 7) (g_racks g)
     \<and> gs_rack_counts (g_state g) = map length (g_racks g)
     \<and> gs_bag_count (g_state g) = length (g_bag g)"

definition tiles_ok :: "env \<Rightarrow> Game \<Rightarrow> bool" where
  "tiles_ok E g \<longleftrightarrow> (case physical_board E (g_state g) (g_ruleset g) of
       Ok board \<Rightarrow> mset (g_bag g @ concat (g_racks g) @ board) = mset (expected_tiles (g_ruleset g))
     | _ \<Rightarrow> False)"

definition log_ok :: "Game \<Rightarrow> bool" where
  "log_ok g \<longleftrightarrow> map ge_sequence (g_events g) = [0..<Suc (gs_version (g_state g))]
     \<and> list_all (\<lambda>e. ge_lexicon e = gs_lexicon (g_state g)) (g_events g)
     \<and> sorted_wrt (<) (map pe_sequence (g_private_events g))
     \<and> list_all (\<lambda>e. pe_sequence e \<le> gs_version (g_state g)) (g_private_events g)"

definition end_ok :: "Game \<Rightarrow> bool" where
  "end_ok g \<longleftrightarrow> (gs_phase (g_state g) = Finished) = (gs_result (g_state g) \<noteq> None)
     \<and> (gs_phase (g_state g) = Active \<longrightarrow> gs_scoreless_turns (g_state g) < gr_scoreless_turn_limit (rs_game (g_ruleset g)))
     \<and> (case gs_result (g_state g) of None \<Rightarrow> True
        | Some res \<Rightarrow> res_scores res = gs_scores (g_state g) \<and> res_final_version res = gs_version (g_state g))"

definition ident_ok :: "env \<Rightarrow> Game \<Rightarrow> bool" where
  "ident_ok E g \<longleftrightarrow> gs_ruleset_id (g_state g) = rs_id (g_ruleset g)
     \<and> gs_ruleset (g_state g) = ruleset_identity E (g_ruleset g)
     \<and> gs_lexicon (g_state g) = rs_lexicon (g_ruleset g)
     \<and> wv_identity (g_lexicon g) = rs_lexicon (g_ruleset g)
     \<and> gs_rng_algorithm (g_state g) = Xoshiro256StarStarV1
     \<and> gs_seed_commitment (g_state g) = commitment E (g_seed g) Xoshiro256StarStarV1"

definition game_inv :: "env \<Rightarrow> Game \<Rightarrow> bool" where
  "game_inv E g \<longleftrightarrow> table_ok g \<and> tiles_ok E g \<and> log_ok g \<and> end_ok g \<and> ident_ok E g"

section \<open>Completion\<close>

lemma try_fold_length:
  assumes "try_fold f s xs = Ok t" "\<And>s x s'. f s x = Ok s' \<Longrightarrow> length s' = length s"
  shows "length t = length s"
  using assms(1) by (rule try_fold_invariant[where P = "\<lambda>t. length t = length s"]) (auto dest: assms(2))

lemma final_scores_length:
  assumes "final_scores r scores racks active reason = Ok scores'"
  shows "length scores' = length scores"
proof (cases reason)
  case (RackEmptied outgoing)
  then obtain acc where acc: "try_fold (deduct r racks) (scores, 0) (filter (\<lambda>s. s \<noteq> outgoing) active) = Ok acc"
    and "length scores' = length (fst acc)"
    using assms by (auto simp: final_scores_def rbind_Ok_iff)
  moreover from acc have "length (fst acc) = length scores"
    by (rule try_fold_invariant[where P = "\<lambda>acc. length (fst acc) = length scores"])
      (auto simp: deduct_def rbind_Ok_iff)
  ultimately show ?thesis by simp
next
  case ScorelessTurns
  then show ?thesis using assms
    by (auto simp: final_scores_def deduct_only_def rbind_Ok_iff dest!: try_fold_length)
qed (use assms in \<open>simp add: final_scores_def\<close>)

lemma complete_state_Ok:
  assumes "complete_state g st racks reason = Ok (res, st')"
  shows "st' = st\<lparr>gs_scores := res_scores res, gs_phase := Finished, gs_result := Some res\<rparr>"
    "length (res_scores res) = length (gs_scores st)" "res_final_version res = gs_version st"
    "res_reason res = reason"
    "seat_active (length racks) = Some active \<Longrightarrow>
       final_scores (g_ruleset g) (gs_scores st) racks active reason = Ok (res_scores res)
       \<and> res_winner res = winner_of (res_scores res) active reason"
  using assms by (auto simp: complete_state_def rbind_Ok_iff Let_def dest: final_scores_length)

lemma complete_when_Ok:
  assumes "complete_when b g st racks reason = Ok (res, st')"
  shows "(\<not> b \<and> res = None \<and> st' = st) \<or>
    (\<exists>r. b \<and> res = Some r \<and> length (res_scores r) = length (gs_scores st) \<and> res_final_version r = gs_version st
      \<and> st' = st\<lparr>gs_scores := res_scores r, gs_phase := Finished, gs_result := Some r\<rparr>)"
  using assms
  by (auto simp: complete_when_def rbind_Ok_iff split: if_splits dest: complete_state_Ok(1-3))

section \<open>Shape of a step\<close>

lemma validate_action_Ok:
  "validate_action g player v = Ok u \<longleftrightarrow> gs_phase (g_state g) = Active
     \<and> player = gs_current_player (g_state g) \<and> v = gs_version (g_state g)"
  by (cases "gs_phase (g_state g)") (auto simp: validate_action_def)

lemma next_version_Ok: "next_version g = Ok v \<longleftrightarrow> v = Suc (gs_version (g_state g)) \<and> v < 2 ^ 64"
  by (auto simp: next_version_def checked_add_def split: if_splits)

lemma next_player_Ok:
  "next_player g p = Ok q \<Longrightarrow> seat_index q < length (g_racks g)"
  by (auto simp: next_player_def dest!: seat_next_index intro!: mod_less_divisor)

lemma rack_counts_Ok:
  "rack_counts racks = Ok cs \<longleftrightarrow> cs = map length racks \<and> list_all (\<lambda>rack. length rack < 2 ^ 8) racks"
  unfolding rack_counts_def
  by (induction racks arbitrary: cs) (auto simp: rbind_Ok_iff count_u8_def try_from_def split: if_splits)

lemma checked_succ_Ok: "checked_add w n 1 = Some m \<longleftrightarrow> m = Suc n \<and> Suc n < 2 ^ w"
  by (auto simp: checked_add_def)

lemma option_guard_Ok: "(case x of None \<Rightarrow> Ok () | Some d \<Rightarrow> Err (e d)) = Ok u \<longleftrightarrow> x = None"
  by (cases x) auto

lemma count_u16_Ok: "count_u16 n = Ok m \<longleftrightarrow> m = n \<and> n < 2 ^ 16"
  by (auto simp: count_u16_def try_from_def split: if_splits)

lemma count_u8_Ok: "count_u8 n = Ok m \<longleftrightarrow> m = n \<and> n < 2 ^ 8"
  by (auto simp: count_u8_def try_from_def split: if_splits)

lemma conservation_check_Ok:
  assumes "g_ruleset g = the_builtin i"
  shows "conservation_check E (g_ruleset g) st bag racks = Ok u \<longleftrightarrow>
    (\<exists>B. physical_board E st (g_ruleset g) = Ok B \<and> mset (bag @ concat racks @ B) = mset (expected_tiles (g_ruleset g)))"
  using verify_tile_conservation_iff[OF expected_faces_builtin]
  by (auto simp: conservation_check_def assms rbind_Ok_iff)

text \<open>What every successful move shares.\<close>

definition log_step :: "Game \<Rightarrow> GameEvent \<Rightarrow> Game \<Rightarrow> bool" where
  "log_step g ev g' \<longleftrightarrow> g_events g' = g_events g @ [ev]
     \<and> (g_private_events g' = g_private_events g
        \<or> (\<exists>pe. g_private_events g' = g_private_events g @ [pe] \<and> pe_sequence pe = Suc (gs_version (g_state g))))
     \<and> gs_version (g_state g') = Suc (gs_version (g_state g)) \<and> ge_sequence ev = Suc (gs_version (g_state g))
     \<and> ge_lexicon ev = gs_lexicon (g_state g) \<and> gs_lexicon (g_state g') = gs_lexicon (g_state g)
     \<and> gs_ruleset_id (g_state g') = gs_ruleset_id (g_state g) \<and> gs_ruleset (g_state g') = gs_ruleset (g_state g)
     \<and> gs_rng_algorithm (g_state g') = gs_rng_algorithm (g_state g)
     \<and> gs_seed_commitment (g_state g') = gs_seed_commitment (g_state g)
     \<and> gs_game_id (g_state g') = gs_game_id (g_state g) \<and> gs_mode (g_state g') = gs_mode (g_state g)
     \<and> g_ruleset g' = g_ruleset g \<and> g_lexicon g' = g_lexicon g \<and> g_seed g' = g_seed g
     \<and> gs_phase (g_state g) = Active"

lemma log_step_log_ok: "log_ok g \<Longrightarrow> log_step g ev g' \<Longrightarrow> log_ok g'"
  by (auto simp: log_ok_def log_step_def sorted_wrt_append list_all_iff less_Suc_eq_le intro: le_SucI)

lemma log_step_ident_ok: "ident_ok E g \<Longrightarrow> log_step g ev g' \<Longrightarrow> ident_ok E g'"
  by (simp add: ident_ok_def log_step_def)

lemma if_complete_when:
  "(if c then complete_when True g st racks R1 else complete_when b g st racks R2) =
     complete_when (c \<or> b) g st racks (if c then R1 else R2)"
  by simp

lemma pair_Ok: "Ok (a, b) = Ok (c, d) \<longleftrightarrow> c = a \<and> d = b"
  by auto

lemmas guard_Ok = validate_action_Ok next_version_Ok count_u16_Ok count_u8_Ok rack_counts_Ok index_at_Ok_iff
  store_at_Ok_iff ensure_Ok_iff ok_or_Ok_iff checked_succ_Ok option_guard_Ok pair_Ok

lemma pass_shape:
  assumes "pass g player v = Ok (g', ev)"
  obtains ver q sl st0 res st where
    "gs_phase (g_state g) = Active" "player = gs_current_player (g_state g)" "v = gs_version (g_state g)"
    "ver = Suc (gs_version (g_state g))" "next_player g player = Ok q"
    "sl = Suc (gs_scoreless_turns (g_state g))"
    "st0 = (g_state g)\<lparr>gs_version := ver, gs_current_player := q, gs_scoreless_turns := sl\<rparr>"
    "complete_when (gr_scoreless_turn_limit (rs_game (g_ruleset g)) \<le> sl) g st0 (g_racks g) ScorelessTurns = Ok (res, st)"
    "ev = \<lparr>ge_sequence = ver, ge_visibility = Public, ge_lexicon = gs_lexicon st,
       ge_kind = Passed player (gs_scoreless_turns st) (gs_current_player st) res\<rparr>"
    "g' = g\<lparr>g_state := st, g_events := g_events g @ [ev]\<rparr>"
proof -
  from assms[unfolded pass_def Let_def] show thesis
    by (elim rbind_OkE case_prod_OkE, simp only: guard_Ok, elim conjE, intro that) (assumption | rule refl | simp only:)+
qed

lemma resign_shape:
  assumes "resign g player v = Ok (g', ev)"
  obtains ver res st where
    "gs_phase (g_state g) = Active" "player = gs_current_player (g_state g)" "v = gs_version (g_state g)"
    "ver = Suc (gs_version (g_state g))"
    "complete_state g ((g_state g)\<lparr>gs_version := ver\<rparr>) (g_racks g) (Resignation player) = Ok (res, st)"
    "ev = \<lparr>ge_sequence = ver, ge_visibility = Public, ge_lexicon = gs_lexicon st, ge_kind = Resigned player res\<rparr>"
    "g' = g\<lparr>g_state := st, g_events := g_events g @ [ev]\<rparr>"
proof -
  from assms[unfolded resign_def Let_def] show thesis
    by (elim rbind_OkE case_prod_OkE, simp only: guard_Ok, elim conjE, intro that) (assumption | rule refl | simp only:)+
qed

lemma exchange_shape:
  assumes "exchange_tiles E g player v ids = Ok (g', ev)"
  obtains rack returned ver rest drawn racks' bag' q sl counts bag_count after st0 res st u where
    "gs_phase (g_state g) = Active" "player = gs_current_player (g_state g)" "v = gs_version (g_state g)"
    "ids \<noteq> []" "adjacent_duplicate (sort ids) = None"
    "seat_index player < length (g_racks g)" "rack = g_racks g ! seat_index player"
    "traverse (\<lambda>i. ok_or (TileNotOwned i) (List.find (\<lambda>tile. pt_id tile = i) rack)) (sort ids) = Ok returned"
    "ver = Suc (gs_version (g_state g))"
    "draw_up_to (g_bag g) (length returned) = (rest, drawn)"
    "racks' = (g_racks g)[seat_index player := filter (\<lambda>tile. pt_id tile \<notin> set (sort ids)) rack @ drawn]"
    "return_tiles_to_bag E rest returned (g_seed g) ver = Ok bag'"
    "next_player g player = Ok q" "sl = Suc (gs_scoreless_turns (g_state g))"
    "counts = map length racks'" "bag_count = length bag'" "after = racks' ! seat_index player"
    "st0 = (g_state g)\<lparr>gs_current_player := q, gs_version := ver, gs_scoreless_turns := sl,
       gs_rack_counts := counts, gs_bag_count := bag_count\<rparr>"
    "conservation_check E (g_ruleset g) st0 bag' racks' = Ok u"
    "complete_when (gr_scoreless_turn_limit (rs_game (g_ruleset g)) \<le> sl) g st0 racks' ScorelessTurns = Ok (res, st)"
    "ev = \<lparr>ge_sequence = ver, ge_visibility = Public, ge_lexicon = gs_lexicon st,
       ge_kind = Exchanged player (sort ids) (gs_rack_counts st) (gs_bag_count st)
         (gs_scoreless_turns st) (gs_current_player st) res\<rparr>"
    "g' = g\<lparr>g_bag := bag', g_racks := racks', g_state := st, g_events := g_events g @ [ev],
       g_private_events := g_private_events g @ [\<lparr>pe_sequence = ver,
         pe_visibility = SeatPrivate player, pe_seat = player, pe_removed = returned, pe_drawn = drawn,
         pe_rack_after = after\<rparr>]\<rparr>"
    "gr_exchange_minimum (rs_game (g_ruleset g)) \<le> length (g_bag g)"
proof -
  from assms[unfolded exchange_tiles_def Let_def] show thesis
    by (elim rbind_OkE case_prod_OkE, simp only: guard_Ok, elim conjE, intro that) (assumption | rule refl | simp only:)+
qed

lemma play_shape:
  assumes "play_tiles E g player v ps = Ok (g', ev)"
  obtains prepared score upd ver sl rack retained refill bag' drawn racks' board' scores' q counts bag_count
    after draw_count st0 res st u where
    "gs_phase (g_state g) = Active" "player = gs_current_player (g_state g)" "v = gs_version (g_state g)"
    "prepare_placement E g player ps = Ok prepared"
    "seat_index player < length (gs_scores (g_state g))"
    "score = gs_scores (g_state g) ! seat_index player"
    "score_checked_add score (int (pr_score prepared)) = Some upd"
    "ver = Suc (gs_version (g_state g))"
    "next_scoreless (gs_scoreless_turns (g_state g)) (pr_score prepared) = Ok sl"
    "seat_index player < length (g_racks g)" "rack = g_racks g ! seat_index player"
    "retained = filter (\<lambda>tile. pt_id tile \<notin> set (map pl_tile_id (pr_placements prepared))) rack"
    "checked_sub (gr_rack_capacity (rs_game (g_ruleset g))) (length retained) = Some refill"
    "draw_up_to (g_bag g) refill = (bag', drawn)"
    "racks' = (g_racks g)[seat_index player := retained @ drawn]"
    "try_fold put_tile (gs_board (g_state g)) (pr_placements prepared) = Ok board'"
    "scores' = (gs_scores (g_state g))[seat_index player := upd]" "next_player g player = Ok q"
    "counts = map length racks'" "bag_count = length bag'" "after = racks' ! seat_index player"
    "draw_count = length drawn"
    "st0 = (g_state g)\<lparr>gs_board := board', gs_scores := scores', gs_current_player := q,
       gs_version := ver, gs_scoreless_turns := sl, gs_rack_counts := counts, gs_bag_count := bag_count\<rparr>"
    "conservation_check E (g_ruleset g) st0 bag' racks' = Ok u"
    "complete_when (bag' = [] \<and> after = []
         \<or> gr_scoreless_turn_limit (rs_game (g_ruleset g)) \<le> gs_scoreless_turns st0) g st0 racks'
       (if bag' = [] \<and> after = [] then RackEmptied player else ScorelessTurns) = Ok (res, st)"
    "ev = \<lparr>ge_sequence = ver, ge_visibility = Public, ge_lexicon = gs_lexicon st,
       ge_kind = MovePlayed player (pr_placements prepared) (pr_words prepared) (pr_bingo_bonus prepared)
         (pr_score prepared) draw_count (gs_rack_counts st) (gs_bag_count st)
         (gs_scores st) (gs_scoreless_turns st) (gs_current_player st) res\<rparr>"
    "g' = g\<lparr>g_bag := bag', g_racks := racks', g_state := st, g_events := g_events g @ [ev],
       g_private_events := g_private_events g @ [\<lparr>pe_sequence = ver,
         pe_visibility = SeatPrivate player, pe_seat = player, pe_removed = pr_played prepared, pe_drawn = drawn,
         pe_rack_after = after\<rparr>]\<rparr>"
proof -
  from assms[unfolded play_tiles_def Let_def if_complete_when] show thesis
    by (elim rbind_OkE case_prod_OkE, simp only: guard_Ok, elim conjE, intro that) (assumption | rule refl | simp only:)+
qed

text \<open>The state a successful move starts its completion from, and what completion changes.\<close>

lemma complete_when_frame:
  assumes "complete_when b g st racks reason = Ok (res, st')"
  shows "gs_version st' = gs_version st" "gs_lexicon st' = gs_lexicon st" "gs_ruleset_id st' = gs_ruleset_id st"
    "gs_ruleset st' = gs_ruleset st" "gs_rng_algorithm st' = gs_rng_algorithm st"
    "gs_seed_commitment st' = gs_seed_commitment st" "gs_game_id st' = gs_game_id st" "gs_mode st' = gs_mode st"
    "gs_board st' = gs_board st" "gs_current_player st' = gs_current_player st"
    "gs_rack_counts st' = gs_rack_counts st" "gs_bag_count st' = gs_bag_count st"
    "gs_scoreless_turns st' = gs_scoreless_turns st" "length (gs_scores st') = length (gs_scores st)"
  using complete_when_Ok[OF assms] by auto

lemma complete_state_frame:
  assumes "complete_state g st racks reason = Ok (res, st')"
  shows "complete_when True g st racks reason = Ok (Some res, st')"
  using assms by (simp add: complete_when_def)

lemma complete_when_end:
  assumes "complete_when b g st racks reason = Ok (res, st')" "gs_phase st = Active" "gs_result st = None"
  shows "(gs_phase st' = Finished) = (gs_result st' \<noteq> None)" "gs_result st' = res" "b \<longleftrightarrow> res \<noteq> None"
    "case gs_result st' of None \<Rightarrow> True
     | Some r \<Rightarrow> res_scores r = gs_scores st' \<and> res_final_version r = gs_version st'"
  using complete_when_Ok[OF assms(1)] assms(2,3) by auto


section \<open>The journal\<close>

lemma game_step_log: "game_step E g ev g' \<Longrightarrow> log_step g ev g'"
proof (erule game_stepE)
  fix player v assume "pass g player v = Ok (g', ev)"
  then show ?thesis by (rule pass_shape) (simp add: log_step_def complete_when_frame)
next
  fix player v assume "resign g player v = Ok (g', ev)"
  then show ?thesis
    by (rule resign_shape) (drule complete_state_frame, simp add: log_step_def complete_when_frame)
next
  fix player v ids assume "exchange_tiles E g player v ids = Ok (g', ev)"
  then show ?thesis by (rule exchange_shape) (simp add: log_step_def complete_when_frame)
next
  fix player v ps assume "play_tiles E g player v ps = Ok (g', ev)"
  then show ?thesis by (rule play_shape) (simp add: log_step_def complete_when_frame)
qed

section \<open>Phases and results\<close>

lemma end_ok_complete:
  assumes "complete_when b g st racks reason = Ok (res, st')" "gs_phase st = Active" "gs_result st = None"
    "\<not> b \<longrightarrow> gs_scoreless_turns st < gr_scoreless_turn_limit (rs_game (g_ruleset g))"
    "g_ruleset g' = g_ruleset g" "g_state g' = st'"
  shows "end_ok g'"
  using complete_when_end[OF assms(1-3)] complete_when_frame(13)[OF assms(1)] assms(4-6)
  by (auto simp: end_ok_def)

lemma game_step_end: "end_ok g \<Longrightarrow> game_step E g ev g' \<Longrightarrow> end_ok g'"
proof -
  assume e: "end_ok g" and "game_step E g ev g'"
  have none: "gs_result (g_state g) = None" if "gs_phase (g_state g) = Active" using e that by (simp add: end_ok_def)
  from \<open>game_step E g ev g'\<close> show ?thesis
  proof (rule game_stepE)
    fix player v assume "pass g player v = Ok (g', ev)"
    then show ?thesis by (rule pass_shape) (erule end_ok_complete; simp add: none not_le)
  next
    fix player v assume "resign g player v = Ok (g', ev)"
    then show ?thesis
      by (rule resign_shape) (drule complete_state_frame, erule end_ok_complete; simp add: none)
  next
    fix player v ids assume "exchange_tiles E g player v ids = Ok (g', ev)"
    then show ?thesis by (rule exchange_shape) (erule end_ok_complete; simp add: none not_le)
  next
    fix player v ps assume "play_tiles E g player v ps = Ok (g', ev)"
    then show ?thesis by (rule play_shape) (erule end_ok_complete; simp add: none not_le)
  qed
qed

section \<open>Tiles on the table\<close>

lemma seat_active_range: "seat_active n = Some seats \<Longrightarrow> 2 \<le> n \<and> n \<le> 4"
  by (simp add: seat_active_Some_iff)

lemma try_fold_put_tile_length: "try_fold put_tile board ps = Ok board' \<Longrightarrow> length board' = length board"
  by (erule try_fold_length) (auto simp: put_tile_def)

lemma find_traverse_ids:
  "traverse (\<lambda>i. ok_or (e i) (List.find (\<lambda>t. pt_id t = i) rack)) is = Ok ts \<Longrightarrow>
     map pt_id ts = is \<and> set ts \<subseteq> set rack"
  by (induction "is" arbitrary: ts) (auto simp: rbind_Ok_iff dest: find_Some_mem)

lemma adjacent_duplicate_None: "sorted xs \<Longrightarrow> adjacent_duplicate xs = None \<longleftrightarrow> distinct xs"
  by (induction xs rule: adjacent_duplicate.induct) (auto simp: le_less dest: order.asym)

lemma physical_board_frame: "gs_board st = gs_board st' \<Longrightarrow> physical_board E st r = physical_board E st' r"
  by (simp add: physical_board_def)

lemma tiles_ok_iff:
  "tiles_ok E g \<longleftrightarrow> (\<exists>B. physical_board E (g_state g) (g_ruleset g) = Ok B
     \<and> mset (g_bag g @ concat (g_racks g) @ B) = mset (expected_tiles (g_ruleset g)))"
  by (auto simp: tiles_ok_def split: outcome.splits)

lemma length_filter_ids:
  assumes "distinct (map pt_id rack)" "set ids \<subseteq> pt_id ` set rack" "distinct ids"
  shows "length (filter (\<lambda>t. pt_id t \<notin> set ids) rack) + length ids = length rack"
proof -
  have "length (filter (\<lambda>t. pt_id t \<in> set ids) rack) = card (set ids)"
  proof -
    have "length (filter (\<lambda>t. pt_id t \<in> set ids) rack) = length (map pt_id (filter (\<lambda>t. pt_id t \<in> set ids) rack))" by simp
    also have "\<dots> = card (set (map pt_id (filter (\<lambda>t. pt_id t \<in> set ids) rack)))"
      using assms(1) by (intro distinct_card[symmetric]) (simp add: distinct_map_filter)
    also have "set (map pt_id (filter (\<lambda>t. pt_id t \<in> set ids) rack)) = set ids" using assms(2) by force
    finally show ?thesis .
  qed
  then show ?thesis using sum_length_filter_compl[of "\<lambda>t. pt_id t \<in> set ids" rack] distinct_card[OF assms(3)] by simp
qed

lemma mset_filter_ids:
  assumes "distinct (map pt_id rack)" "set ts \<subseteq> set rack" "distinct (map pt_id ts)"
  shows "mset (filter (\<lambda>t. pt_id t \<notin> pt_id ` set ts) rack) + mset ts = mset rack"
proof -
  have inj: "inj_on pt_id (set rack)" using assms(1) by (simp add: distinct_map)
  have "mset (filter (\<lambda>t. pt_id t \<in> pt_id ` set ts) rack) = mset ts"
  proof (rule set_eq_iff_mset_eq_distinct[THEN iffD1])
    show "distinct (filter (\<lambda>t. pt_id t \<in> pt_id ` set ts) rack)" "distinct ts"
      using assms by (simp_all add: distinct_map)
    show "set (filter (\<lambda>t. pt_id t \<in> pt_id ` set ts) rack) = set ts"
      using inj assms(2) by (auto dest: inj_onD subsetD)
  qed
  then show ?thesis using mset_filter_partition[of "\<lambda>t. pt_id t \<in> pt_id ` set ts" rack] by (simp add: add.commute)
qed

lemma tiles_ok_rack_distinct:
  assumes "tiles_ok E g" "i < length (g_racks g)"
  shows "distinct (map pt_id (g_racks g ! i))"
proof -
  obtain B where "mset (g_bag g @ concat (g_racks g) @ B) = mset (expected_tiles (g_ruleset g))"
    using assms(1) by (auto simp: tiles_ok_iff)
  then have "distinct (map pt_id (g_bag g @ concat (g_racks g) @ B))"
    unfolding expected_tiles_def mset_eq_label_iff by blast
  then have "distinct (map pt_id (concat (g_racks g)))" by simp
  then have "distinct (concat (map (map pt_id) (g_racks g)))" by (simp add: map_concat)
  then show ?thesis using assms(2) by (simp add: distinct_concat_iff)
qed

section \<open>Preservation\<close>

lemma table_ok_capacity: "table_ok g \<Longrightarrow> gr_rack_capacity (rs_game (g_ruleset g)) = 7"
  unfolding table_ok_def by (metis the_builtin_simps(4))

lemma table_ok_update:
  assumes "table_ok g" "seat_index p < length (g_racks g)" "length rack' \<le> 7"
    "g_racks g' = (g_racks g)[seat_index p := rack']" "g_ruleset g' = g_ruleset g"
    "length (gs_scores (g_state g')) = length (gs_scores (g_state g))"
    "seat_index (gs_current_player (g_state g')) < length (g_racks g)"
    "length (gs_board (g_state g')) = length (gs_board (g_state g))"
    "gs_rack_counts (g_state g') = map length (g_racks g')" "gs_bag_count (g_state g') = length (g_bag g')"
  shows "table_ok g'"
  using assms set_update_subset_insert[of "g_racks g" "seat_index p" rack']
  by (auto simp: table_ok_def list_all_iff)

lemma exchange_returned:
  assumes "tiles_ok E g" "seat_index p < length (g_racks g)" "rack = g_racks g ! seat_index p"
    "adjacent_duplicate (sort ids) = None"
    "traverse (\<lambda>i. ok_or (TileNotOwned i) (List.find (\<lambda>t. pt_id t = i) rack)) (sort ids) = Ok returned"
  shows "length (filter (\<lambda>t. pt_id t \<notin> set (sort ids)) rack) + length returned = length rack"
    "mset (filter (\<lambda>t. pt_id t \<notin> set (sort ids)) rack) + mset returned = mset rack"
    "length returned \<le> length rack"
proof -
  have d: "distinct (map pt_id rack)" using tiles_ok_rack_distinct[OF assms(1,2)] assms(3) by simp
  have r: "map pt_id returned = sort ids" "set returned \<subseteq> set rack" using find_traverse_ids[OF assms(5)] by auto
  have "distinct (sort ids)" using adjacent_duplicate_None[of "sort ids"] assms(4) by simp
  then have "distinct (map pt_id returned)" by (simp only: r(1))
  moreover have "set (sort ids) = pt_id ` set returned" by (simp only: r(1)[symmetric] set_map)
  ultimately show m: "mset (filter (\<lambda>t. pt_id t \<notin> set (sort ids)) rack) + mset returned = mset rack"
    using mset_filter_ids[OF d r(2)] by simp
  have "size (mset (filter (\<lambda>t. pt_id t \<notin> set (sort ids)) rack) + mset returned) = size (mset rack)" by (simp only: m)
  then show "length (filter (\<lambda>t. pt_id t \<notin> set (sort ids)) rack) + length returned = length rack"
    by (simp only: size_union size_mset)
  then show "length returned \<le> length rack" by linarith
qed

lemma table_ok_rack: "table_ok g \<Longrightarrow> i < length (g_racks g) \<Longrightarrow> length (g_racks g ! i) \<le> 7"
  by (auto simp: table_ok_def list_all_length)

lemma game_step_table:
  assumes t: "table_ok g" and ti: "tiles_ok E g" and "game_step E g ev g'"
  shows "table_ok g'"
  using assms(3)
proof (rule game_stepE)
  fix player v assume "pass g player v = Ok (g', ev)"
  then show ?thesis
    by (rule pass_shape) (use t in \<open>auto simp: table_ok_def complete_when_frame dest: next_player_Ok\<close>)
next
  fix player v assume "resign g player v = Ok (g', ev)"
  then show ?thesis
    by (rule resign_shape)
      (drule complete_state_frame, use t in \<open>auto simp: table_ok_def complete_when_frame\<close>)
next
  fix player v ids assume "exchange_tiles E g player v ids = Ok (g', ev)"
  then show ?thesis
  proof (rule exchange_shape)
    fix rack returned ver rest drawn racks' bag' q sl counts bag_count after st0 res st u
    assume p: "seat_index player < length (g_racks g)" "rack = g_racks g ! seat_index player"
      "adjacent_duplicate (sort ids) = None"
      and r: "traverse (\<lambda>i. ok_or (TileNotOwned i) (List.find (\<lambda>t. pt_id t = i) rack)) (sort ids) = Ok returned"
      and d: "draw_up_to (g_bag g) (length returned) = (rest, drawn)"
      and eqs: "racks' = (g_racks g)[seat_index player := filter (\<lambda>t. pt_id t \<notin> set (sort ids)) rack @ drawn]"
        "counts = map length racks'" "bag_count = length bag'"
        "st0 = (g_state g)\<lparr>gs_current_player := q, gs_version := ver, gs_scoreless_turns := sl,
          gs_rack_counts := counts, gs_bag_count := bag_count\<rparr>"
        "g' = g\<lparr>g_bag := bag', g_racks := racks', g_state := st, g_events := g_events g @ [ev],
          g_private_events := g_private_events g @ [\<lparr>pe_sequence = ver,
            pe_visibility = SeatPrivate player, pe_seat = player, pe_removed = returned, pe_drawn = drawn,
            pe_rack_after = after\<rparr>]\<rparr>"
      and c: "complete_when (gr_scoreless_turn_limit (rs_game (g_ruleset g)) \<le> sl) g st0 racks' ScorelessTurns = Ok (res, st)"
      and q: "next_player g player = Ok q"
    have "length (filter (\<lambda>t. pt_id t \<notin> set (sort ids)) rack @ drawn) \<le> 7"
      using exchange_returned(1)[OF ti p r] draw_up_to_length[OF d] table_ok_rack[OF t p(1)] p(2) by simp
    then show ?thesis
      by (rule table_ok_update[OF t p(1)]) (simp_all add: eqs complete_when_frame[OF c] next_player_Ok[OF q])
  qed
next
  fix player v ps assume "play_tiles E g player v ps = Ok (g', ev)"
  then show ?thesis
  proof (rule play_shape)
    fix prepared score upd ver sl rack retained refill bag' drawn racks' board' scores' q counts bag_count
      after draw_count st0 res st u
    assume p: "seat_index player < length (g_racks g)"
      and r: "checked_sub (gr_rack_capacity (rs_game (g_ruleset g))) (length retained) = Some refill"
      and d: "draw_up_to (g_bag g) refill = (bag', drawn)"
      and b: "try_fold put_tile (gs_board (g_state g)) (pr_placements prepared) = Ok board'"
      and eqs: "racks' = (g_racks g)[seat_index player := retained @ drawn]"
        "scores' = (gs_scores (g_state g))[seat_index player := upd]"
        "counts = map length racks'" "bag_count = length bag'"
        "st0 = (g_state g)\<lparr>gs_board := board', gs_scores := scores', gs_current_player := q,
          gs_version := ver, gs_scoreless_turns := sl, gs_rack_counts := counts, gs_bag_count := bag_count\<rparr>"
        "g' = g\<lparr>g_bag := bag', g_racks := racks', g_state := st, g_events := g_events g @ [ev],
          g_private_events := g_private_events g @ [\<lparr>pe_sequence = ver,
            pe_visibility = SeatPrivate player, pe_seat = player, pe_removed = pr_played prepared, pe_drawn = drawn,
            pe_rack_after = after\<rparr>]\<rparr>"
      and c: "complete_when (bag' = [] \<and> after = []
          \<or> gr_scoreless_turn_limit (rs_game (g_ruleset g)) \<le> gs_scoreless_turns st0) g st0 racks'
          (if bag' = [] \<and> after = [] then RackEmptied player else ScorelessTurns) = Ok (res, st)"
      and q: "next_player g player = Ok q"
    have "length (retained @ drawn) \<le> 7"
      using r draw_up_to_length[OF d] table_ok_capacity[OF t] by (auto simp: checked_sub_def split: if_splits)
    then show ?thesis
      by (rule table_ok_update[OF t p])
        (simp_all add: eqs complete_when_frame[OF c] next_player_Ok[OF q] try_fold_put_tile_length[OF b])
  qed
qed

lemma game_step_tiles:
  assumes t: "table_ok g" and ti: "tiles_ok E g" and "game_step E g ev g'"
  shows "tiles_ok E g'"
proof -
  obtain i where i: "g_ruleset g = the_builtin i" using t by (auto simp: table_ok_def)
  from assms(3) show ?thesis
  proof (rule game_stepE)
    fix player v assume "pass g player v = Ok (g', ev)"
    then show ?thesis
      by (rule pass_shape)
        (use ti in \<open>simp add: tiles_ok_iff complete_when_frame physical_board_def\<close>)
  next
    fix player v assume "resign g player v = Ok (g', ev)"
    then show ?thesis
      by (rule resign_shape)
        (drule complete_state_frame, use ti in \<open>simp add: tiles_ok_iff complete_when_frame physical_board_def\<close>)
  next
    fix player v ids assume "exchange_tiles E g player v ids = Ok (g', ev)"
    then show ?thesis
      by (rule exchange_shape)
        (simp add: tiles_ok_iff conservation_check_Ok[OF i] complete_when_frame physical_board_def)
  next
    fix player v ps assume "play_tiles E g player v ps = Ok (g', ev)"
    then show ?thesis
      by (rule play_shape)
        (simp add: tiles_ok_iff conservation_check_Ok[OF i] complete_when_frame physical_board_def)
  qed
qed

lemma game_step_inv: "game_inv E g \<Longrightarrow> game_step E g ev g' \<Longrightarrow> game_inv E g'"
  unfolding game_inv_def
  by (blast intro: game_step_table game_step_tiles game_step_end log_step_log_ok log_step_ident_ok game_step_log)

lemma create_inv:
  assumes "create_with_mode_and_players E gid r lexi seed mode n = Ok g"
  shows "game_inv E g"
proof -
  obtain l d counts bc where l: "lexi = Some l" and v: "validate_ruleset r = Ok ()"
    and el: "ensure_lexicon r ContextRuleset (wv_identity l) = Ok ()"
    and d: "prepare_initial_deal_for_players E r seed n = Ok d"
    and c: "rack_counts (id_racks d) = Ok counts" "count_u16 (length (id_bag d)) = Ok bc"
    using assms by (auto simp: create_with_mode_and_players_def rbind_Ok_iff)
  have g: "g = \<lparr>g_ruleset = r, g_lexicon = l, g_seed = seed, g_bag = id_bag d, g_racks = id_racks d,
      g_state = \<lparr>gs_game_id = gid, gs_ruleset_id = rs_id r, gs_ruleset = ruleset_identity E r,
           gs_lexicon = wv_identity l, gs_mode = mode, gs_rng_algorithm = id_algorithm d,
           gs_seed_commitment = id_commitment d, gs_board = replicate BOARD_SQUARES None,
           gs_scores = replicate n 0, gs_current_player = One, gs_version = 0,
           gs_scoreless_turns = 0, gs_rack_counts = counts, gs_bag_count = bc,
           gs_phase = Active, gs_result = None\<rparr>,
      g_events = [\<lparr>ge_sequence = 0, ge_visibility = Public, ge_lexicon = wv_identity l,
           ge_kind = Created gid r mode (id_algorithm d) (id_commitment d) counts bc\<rparr>], g_private_events = []\<rparr>"
    using assms by (simp add: create_with_mode_and_players_def l v el d c Let_def)
  note deal = prepare_initial_deal_Ok[OF d]
  have lex: "wv_identity l = rs_lexicon r"
    using el by (auto simp: ensure_lexicon_def ensure_exact_pack_def rbind_Ok_iff split: if_splits)
  have lim: "gr_scoreless_turn_limit (rs_game r) = 6" using deal(1) by (metis the_builtin_simps(7))
  have "table_ok g" using deal c
    by (auto simp: g table_ok_def rack_counts_Ok count_u16_Ok list_all_iff)
  moreover have "physical_board E (g_state g) r = Ok []"
    by (simp add: g physical_board_def board_tiles_def map_filter_def BOARD_SQUARES_def)
  then have "tiles_ok E g" using deal(4) by (simp add: tiles_ok_def g)
  moreover have "log_ok g" "ident_ok E g" using deal lex by (simp_all add: g log_ok_def ident_ok_def)
  moreover have "end_ok g" by (simp add: g end_ok_def lim)
  ultimately show ?thesis by (simp add: game_inv_def)
qed

end
