(* ===== verification/Replay.thy ===== *)
theory Replay
  imports GameInv
begin

text \<open>
  Journals (\<^verbatim>\<open>replay\<close>, \<^verbatim>\<open>replay_public\<close>, \<^verbatim>\<open>resume\<close>, \<^verbatim>\<open>snapshot\<close>, \<^verbatim>\<open>replay_bundle\<close> in \<^verbatim>\<open>game.rs\<close>)
  and the role-specific projections. The locale \<open>event_sourced\<close> is interpreted on the engine's
  two replay loops, which gives the round trips: a reachable game is rebuilt from its
  journal, from its public journal and from its snapshot. The body of \<^verbatim>\<open>replay\<close> up to the
  first event is the text of \<^verbatim>\<open>begin_replay\<close>, modelled once.
\<close>

section \<open>Replay\<close>

definition list_last :: "'a list \<Rightarrow> 'a option" where
  "list_last xs = (if xs = [] then None else Some (last xs))"

definition begin_replay :: "env \<Rightarrow> ReplayBundle \<Rightarrow> WordValidator option \<Rightarrow> Game result" where
  "begin_replay E bundle lexicon =
     rbind (validate_ruleset (rb_ruleset bundle)) (\<lambda>_.
     rbind (ensure (rb_ruleset_identity bundle = ruleset_identity E (rb_ruleset bundle))
       (InvalidTileState (ReasonText ''replay ruleset identity differs from embedded ruleset''))) (\<lambda>_.
     rbind (ok_or (MissingLexicon (rs_id (rb_ruleset bundle)) (rb_lexicon bundle)) lexicon) (\<lambda>validator.
     rbind (ensure_lexicon (rb_ruleset bundle) ContextReplay (wv_identity validator)) (\<lambda>_.
     rbind (map_err IncompatibleLexicon
       (ensure_exact_pack ContextReplay (rb_lexicon bundle) (wv_identity validator))) (\<lambda>_.
     rbind (ok_or (InvalidReplayEvent 0 ''creation event is required'') (list_get (rb_events bundle) 0)) (\<lambda>created.
     case ge_kind created of
       Created game_id ruleset mode rng_algorithm seed_commitment counts _ \<Rightarrow>
         if ge_sequence created \<noteq> 0 \<or> ruleset \<noteq> rb_ruleset bundle \<or> ge_lexicon created \<noteq> rb_lexicon bundle
            \<or> rng_algorithm \<noteq> rb_rng_algorithm bundle \<or> sc_algorithm seed_commitment \<noteq> rb_rng_algorithm bundle
         then Err (ReplayEventMismatch (ge_sequence created))
         else if \<not> commitment_verify E seed_commitment (rb_seed_reveal bundle) then Err SeedCommitmentMismatch
         else rbind (create_with_mode_and_players E game_id (rb_ruleset bundle) (Some validator)
                (rb_seed_reveal bundle) mode (length counts)) (\<lambda>game.
           rbind (index_at (g_events game) 0) (\<lambda>first.
           if first \<noteq> created then Err (ReplayEventMismatch 0) else Ok game))
     | _ \<Rightarrow> Err (InvalidReplayEvent (ge_sequence created) ''first event must create the game'')))))))"

definition replay_public_event :: "env \<Rightarrow> PackIdentity \<Rightarrow> Game \<Rightarrow> GameEvent \<Rightarrow> Game result" where
  "replay_public_event E lexicon g expected =
     (if ge_lexicon expected \<noteq> lexicon then Err (ReplayEventMismatch (ge_sequence expected))
      else rbind (case ge_kind expected of
          Created _ _ _ _ _ _ _ \<Rightarrow> Err (InvalidReplayEvent (ge_sequence expected) ''creation may occur only once'')
        | MovePlayed player placements _ _ _ _ _ _ _ _ _ _ \<Rightarrow>
            play_tiles E g player (gs_version (g_state g)) placements
        | Passed player _ _ _ \<Rightarrow> pass g player (gs_version (g_state g))
        | Exchanged player tile_ids _ _ _ _ _ \<Rightarrow> exchange_tiles E g player (gs_version (g_state g)) tile_ids
        | Resigned player _ \<Rightarrow> resign g player (gs_version (g_state g))) (\<lambda>(g', _).
        if list_last (g_events g') \<noteq> Some expected then Err (ReplayEventMismatch (ge_sequence expected))
        else Ok g'))"

definition replay_event :: "env \<Rightarrow> ReplayBundle \<Rightarrow> Game \<Rightarrow> GameEvent \<Rightarrow> Game result" where
  "replay_event E bundle g expected =
     (if ge_lexicon expected \<noteq> rb_lexicon bundle then Err (ReplayEventMismatch (ge_sequence expected))
      else rbind (case ge_kind expected of
          Created _ _ _ _ _ _ _ \<Rightarrow> Err (InvalidReplayEvent (ge_sequence expected) ''creation may occur only once'')
        | MovePlayed player placements _ _ _ _ _ _ _ _ _ _ \<Rightarrow>
            rbind (play_tiles E g player (gs_version (g_state g)) placements) (\<lambda>(g', _).
            Ok (g', Some ''placement requires one private transition''))
        | Passed player _ _ _ \<Rightarrow>
            rbind (pass g player (gs_version (g_state g))) (\<lambda>(g', _). Ok (g', None))
        | Exchanged player tile_ids _ _ _ _ _ \<Rightarrow>
            rbind (exchange_tiles E g player (gs_version (g_state g)) tile_ids) (\<lambda>(g', _).
            Ok (g', Some ''exchange requires one private transition''))
        | Resigned player _ \<Rightarrow>
            rbind (resign g player (gs_version (g_state g))) (\<lambda>(g', _). Ok (g', None))) (\<lambda>(g', expects_private).
        rbind (case expects_private of
            None \<Rightarrow> Ok ()
          | Some reason \<Rightarrow>
              rbind (ok_or (InvalidReplayEvent (ge_sequence expected) reason)
                (List.find (\<lambda>e. pe_sequence e = ge_sequence expected) (rb_private_events bundle))) (\<lambda>expected_private.
              ensure (list_last (g_private_events g') = Some expected_private)
                (ReplayEventMismatch (ge_sequence expected)))) (\<lambda>_.
        if list_last (g_events g') \<noteq> Some expected then Err (ReplayEventMismatch (ge_sequence expected))
        else Ok g')))"

definition replay :: "env \<Rightarrow> ReplayBundle \<Rightarrow> WordValidator option \<Rightarrow> Game result" where
  "replay E bundle lexicon =
     (if rb_schema_version bundle \<noteq> REPLAY_SCHEMA_VERSION
      then Err (UnsupportedSchema ''replay'' (rb_schema_version bundle) REPLAY_SCHEMA_VERSION)
      else rbind (begin_replay E bundle lexicon) (\<lambda>game.
        rbind (try_fold (replay_event E bundle) game (drop 1 (rb_events bundle))) (\<lambda>game'.
        if length (g_private_events game') \<noteq> length (rb_private_events bundle)
        then Err (InvalidReplayEvent (gs_version (g_state game')) ''replay contains unmatched private transitions'')
        else Ok game')))"

definition replay_public :: "env \<Rightarrow> PublicReplayBundle \<Rightarrow> WordValidator option \<Rightarrow> Game result" where
  "replay_public E bundle lexicon =
     (if pb_schema_version bundle \<noteq> PUBLIC_REPLAY_SCHEMA_VERSION
      then Err (UnsupportedSchema ''public replay'' (pb_schema_version bundle) PUBLIC_REPLAY_SCHEMA_VERSION)
      else
        let complete_shape = \<lparr>rb_schema_version = REPLAY_SCHEMA_VERSION,
              rb_ruleset_identity = pb_ruleset_identity bundle, rb_ruleset = pb_ruleset bundle,
              rb_lexicon = pb_lexicon bundle, rb_rng_algorithm = pb_rng_algorithm bundle,
              rb_seed_reveal = pb_seed_reveal bundle, rb_events = pb_events bundle, rb_private_events = []\<rparr>
        in rbind (begin_replay E complete_shape lexicon) (\<lambda>game.
           try_fold (replay_public_event E (pb_lexicon bundle)) game (drop 1 (pb_events bundle))))"

definition resume :: "env \<Rightarrow> GameSnapshot \<Rightarrow> Ruleset \<Rightarrow> WordValidator option \<Rightarrow> Game result" where
  "resume E snapshot r lexicon =
     (if sn_schema_version snapshot \<noteq> SNAPSHOT_SCHEMA_VERSION
      then Err (UnsupportedSchema ''snapshot'' (sn_schema_version snapshot) SNAPSHOT_SCHEMA_VERSION)
      else rbind (validate_ruleset r) (\<lambda>_.
        let identity = ruleset_identity E r in
        if gs_ruleset_id (sn_state snapshot) \<noteq> rs_id r \<or> gs_ruleset (sn_state snapshot) \<noteq> identity
           \<or> sn_ruleset snapshot \<noteq> identity
        then Err (RulesetMismatch (gs_ruleset_id (sn_state snapshot)) (rs_id r))
        else if length (gs_board (sn_state snapshot)) \<noteq> BOARD_SQUARES
        then Err (InvalidSnapshotBoard (length (gs_board (sn_state snapshot))) BOARD_SQUARES)
        else if sn_rng_algorithm snapshot \<noteq> gs_rng_algorithm (sn_state snapshot)
           \<or> sn_rng_algorithm snapshot \<noteq> sc_algorithm (gs_seed_commitment (sn_state snapshot))
        then Err (InvalidTileState (ReasonText ''snapshot RNG identities differ''))
        else
          let bundle = \<lparr>rb_schema_version = REPLAY_SCHEMA_VERSION, rb_ruleset_identity = identity, rb_ruleset = r,
                rb_lexicon = gs_lexicon (sn_state snapshot), rb_rng_algorithm = sn_rng_algorithm snapshot,
                rb_seed_reveal = sn_seed snapshot, rb_events = sn_events snapshot,
                rb_private_events = sn_private_events snapshot\<rparr>
          in rbind (replay E bundle lexicon) (\<lambda>replayed.
             if g_state replayed \<noteq> sn_state snapshot \<or> g_bag replayed \<noteq> sn_bag snapshot
                \<or> g_racks replayed \<noteq> sn_racks snapshot \<or> g_events replayed \<noteq> sn_events snapshot
                \<or> g_private_events replayed \<noteq> sn_private_events snapshot
             then Err (InvalidTileState (ReasonText ''snapshot state differs from deterministic event replay''))
             else Ok replayed)))"

section \<open>Projections and bundles\<close>

definition public_bundle :: "ReplayBundle \<Rightarrow> PublicReplayBundle" where
  "public_bundle b = \<lparr>pb_schema_version = PUBLIC_REPLAY_SCHEMA_VERSION,
     pb_ruleset_identity = rb_ruleset_identity b, pb_ruleset = rb_ruleset b, pb_lexicon = rb_lexicon b,
     pb_rng_algorithm = rb_rng_algorithm b, pb_seed_reveal = rb_seed_reveal b, pb_events = rb_events b\<rparr>"

definition private_events :: "Game \<Rightarrow> Seat \<Rightarrow> PrivateGameEvent list" where
  "private_events g seat = filter (\<lambda>e. pe_seat e = seat) (g_private_events g)"

definition public_projection :: "Game \<Rightarrow> PublicProjection" where
  "public_projection g = \<lparr>pp_schema_version = PROJECTION_SCHEMA_VERSION, pp_state = g_state g, pp_events = g_events g\<rparr>"

definition seat_projection :: "Game \<Rightarrow> Seat \<Rightarrow> SeatProjection result" where
  "seat_projection g seat = rbind (index_at (g_racks g) (seat_index seat)) (\<lambda>rack.
     Ok \<lparr>sp_schema_version = PROJECTION_SCHEMA_VERSION, sp_seat = seat, sp_public = public_projection g,
       sp_rack = rack, sp_private_events = private_events g seat\<rparr>)"

definition human_spectator_projection :: "Game \<Rightarrow> HumanSpectatorProjection" where
  "human_spectator_projection g = \<lparr>hp_schema_version = PROJECTION_SCHEMA_VERSION,
     hp_public = public_projection g, hp_racks = g_racks g, hp_private_events = g_private_events g\<rparr>"

definition snapshot :: "env \<Rightarrow> Game \<Rightarrow> GameSnapshot" where
  "snapshot E g = \<lparr>sn_schema_version = SNAPSHOT_SCHEMA_VERSION, sn_ruleset = ruleset_identity E (g_ruleset g),
     sn_rng_algorithm = gs_rng_algorithm (g_state g), sn_state = g_state g, sn_bag = g_bag g,
     sn_racks = g_racks g, sn_seed = g_seed g, sn_events = g_events g, sn_private_events = g_private_events g\<rparr>"

definition administrator_projection :: "env \<Rightarrow> Game \<Rightarrow> AdministratorProjection" where
  "administrator_projection E g = \<lparr>ap_schema_version = PROJECTION_SCHEMA_VERSION, ap_snapshot = snapshot E g\<rparr>"

definition is_created :: "GameEventKind \<Rightarrow> bool" where
  "is_created k = (case k of Created _ _ _ _ _ _ _ \<Rightarrow> True | _ \<Rightarrow> False)"

definition journal_bundle :: "env \<Rightarrow> Game \<Rightarrow> ReplayBundle" where
  "journal_bundle E g = \<lparr>rb_schema_version = REPLAY_SCHEMA_VERSION,
     rb_ruleset_identity = ruleset_identity E (g_ruleset g), rb_ruleset = g_ruleset g,
     rb_lexicon = gs_lexicon (g_state g), rb_rng_algorithm = gs_rng_algorithm (g_state g),
     rb_seed_reveal = g_seed g, rb_events = g_events g, rb_private_events = g_private_events g\<rparr>"

definition replay_bundle :: "env \<Rightarrow> Game \<Rightarrow> ReplayBundle option" where
  "replay_bundle E g =
     (if gs_phase (g_state g) = Finished \<and> (case g_events g of e # _ \<Rightarrow> is_created (ge_kind e) | [] \<Rightarrow> False)
      then Some (journal_bundle E g) else None)"

section \<open>A move replays from its own event\<close>

lemma list_last_snoc [simp]: "list_last (xs @ [x]) = Some x"
  by (simp add: list_last_def)

lemma play_tiles_cong:
  "prepare_placement E g p ps = prepare_placement E g p qs \<Longrightarrow> play_tiles E g p v ps = play_tiles E g p v qs"
  by (simp add: play_tiles_def)

lemma play_tiles_again:
  assumes "play_tiles E g p v ps = Ok (g', ev)" "unicode_ok E"
  obtains qs a1 a2 a3 a4 a5 a6 a7 a8 a9 a10 where
    "ge_kind ev = MovePlayed p qs a1 a2 a3 a4 a5 a6 a7 a8 a9 a10"
    "play_tiles E g p (gs_version (g_state g)) qs = Ok (g', ev)"
    "\<exists>pe. g_private_events g' = g_private_events g @ [pe] \<and> pe_sequence pe = Suc (gs_version (g_state g))"
  using assms(1)
proof (rule play_shape)
  fix prepared score upd ver sl rack retained refill bag' drawn racks' board' scores' q counts bag_count
      after draw_count st0 res st u
  assume v: "v = gs_version (g_state g)" and pr: "prepare_placement E g p ps = Ok prepared"
    and ix: "seat_index p < length (g_racks g)" and ver: "ver = Suc (gs_version (g_state g))"
    and ev: "ev = \<lparr>ge_sequence = ver, ge_visibility = Public, ge_lexicon = gs_lexicon st,
       ge_kind = MovePlayed p (pr_placements prepared) (pr_words prepared) (pr_bingo_bonus prepared)
         (pr_score prepared) draw_count (gs_rack_counts st) (gs_bag_count st)
         (gs_scores st) (gs_scoreless_turns st) (gs_current_player st) res\<rparr>"
    and g': "g' = g\<lparr>g_bag := bag', g_racks := racks', g_state := st, g_events := g_events g @ [ev],
       g_private_events := g_private_events g @ [\<lparr>pe_sequence = ver,
         pe_visibility = SeatPrivate p, pe_seat = p, pe_removed = pr_played prepared, pe_drawn = drawn,
         pe_rack_after = after\<rparr>]\<rparr>"
  have "prepare_placement E g p (pr_placements prepared) = Ok prepared"
    by (rule prepare_placement_idem[OF ix assms(2) pr])
  then have "play_tiles E g p v (pr_placements prepared) = Ok (g', ev)"
    using assms(1) play_tiles_cong[of E g p ps "pr_placements prepared" v] pr by simp
  then show thesis using that[of "pr_placements prepared"] v ver ev g' by simp
qed

lemma exchange_again:
  assumes "exchange_tiles E g p v ids = Ok (g', ev)"
  obtains js a1 a2 a3 a4 a5 where "ge_kind ev = Exchanged p js a1 a2 a3 a4 a5"
    "exchange_tiles E g p (gs_version (g_state g)) js = Ok (g', ev)"
    "\<exists>pe. g_private_events g' = g_private_events g @ [pe] \<and> pe_sequence pe = Suc (gs_version (g_state g))"
proof -
  have e: "sort ids = [] \<longleftrightarrow> ids = []" by (metis length_0_conv length_sort)
  have i: "sort (sort ids) = sort ids" by (rule sorted_sort_id) simp
  have same: "exchange_tiles E g p w (sort ids) = exchange_tiles E g p w ids" for w
    unfolding exchange_tiles_def by (simp only: e i)
  show thesis
    using assms by (rule exchange_shape) (rule that[of "sort ids"]; use assms same in simp)
qed

lemma pass_again:
  assumes "pass g p v = Ok (g', ev)"
  obtains a1 a2 a3 where "ge_kind ev = Passed p a1 a2 a3" "pass g p (gs_version (g_state g)) = Ok (g', ev)"
  using assms by (rule pass_shape) (rule that; use assms in simp)

lemma resign_again:
  assumes "resign g p v = Ok (g', ev)"
  obtains a1 where "ge_kind ev = Resigned p a1" "resign g p (gs_version (g_state g)) = Ok (g', ev)"
  using assms by (rule resign_shape) (rule that; use assms in simp)

section \<open>The engine as an event-sourced machine\<close>

definition covers :: "ReplayBundle \<Rightarrow> Game \<Rightarrow> bool" where
  "covers b g \<longleftrightarrow> rb_lexicon b = gs_lexicon (g_state g) \<and>
     (\<exists>rest. rb_private_events b = g_private_events g @ rest
       \<and> (\<forall>e \<in> set rest. gs_version (g_state g) < pe_sequence e))"

definition covers_public :: "PackIdentity \<Rightarrow> Game \<Rightarrow> bool" where
  "covers_public lexicon g \<longleftrightarrow> lexicon = gs_lexicon (g_state g)"

lemma covers_step: "log_step g ev g' \<Longrightarrow> covers b g' \<Longrightarrow> covers b g"
  by (auto simp: covers_def log_step_def dest!: Suc_lessD)

lemma find_skip: "(\<And>x. x \<in> set xs \<Longrightarrow> \<not> P x) \<Longrightarrow> P y \<Longrightarrow> List.find P (xs @ y # ys) = Some y"
  by (induction xs) auto

lemma covers_find:
  assumes "log_ok g" "log_step g ev g'" "covers b g'" "g_private_events g' = g_private_events g @ [pe]"
    "pe_sequence pe = Suc (gs_version (g_state g))"
  shows "List.find (\<lambda>e. pe_sequence e = ge_sequence ev) (rb_private_events b) = Some pe"
proof -
  obtain rest where "rb_private_events b = g_private_events g @ pe # rest" using assms(3,4) by (auto simp: covers_def)
  moreover have "\<forall>e \<in> set (g_private_events g). pe_sequence e \<noteq> ge_sequence ev"
    using assms(1,2) by (auto simp: log_ok_def log_step_def list_all_iff)
  then have "List.find (\<lambda>e. pe_sequence e = ge_sequence ev) (g_private_events g @ pe # rest) = Some pe" for rest
    using assms(2,5) by (intro find_skip) (auto simp: log_step_def)
  ultimately show ?thesis by simp
qed

lemma replay_event_step:
  assumes "unicode_ok E" "game_inv E g" "game_step E g ev g'" "covers b g'"
  shows "replay_event E b g ev = Ok g'"
proof -
  have ls: "log_step g ev g'" using assms(3) by (rule game_step_log)
  have lx: "ge_lexicon ev = rb_lexicon b" using assms(4) ls by (auto simp: covers_def log_step_def)
  have last: "list_last (g_events g') = Some ev" using ls by (simp add: log_step_def)
  have lo: "log_ok g" using assms(2) by (simp add: game_inv_def)
  from assms(3) show ?thesis
  proof (rule game_stepE)
    fix p v ps assume "play_tiles E g p v ps = Ok (g', ev)"
    then show ?thesis using assms(1)
      by (rule play_tiles_again)
        (use covers_find[OF lo ls assms(4)] lx last in \<open>auto simp: replay_event_def ensure_def\<close>)
  next
    fix p v ids assume "exchange_tiles E g p v ids = Ok (g', ev)"
    then show ?thesis
      by (rule exchange_again) (use covers_find[OF lo ls assms(4)] lx last in \<open>auto simp: replay_event_def ensure_def\<close>)
  next
    fix p v assume "pass g p v = Ok (g', ev)"
    then show ?thesis by (rule pass_again) (use lx last in \<open>simp add: replay_event_def\<close>)
  next
    fix p v assume "resign g p v = Ok (g', ev)"
    then show ?thesis by (rule resign_again) (use lx last in \<open>simp add: replay_event_def\<close>)
  qed
qed

lemma replay_public_event_step:
  assumes "unicode_ok E" "game_step E g ev g'" "covers_public l g'"
  shows "replay_public_event E l g ev = Ok g'"
proof -
  have ls: "log_step g ev g'" using assms(2) by (rule game_step_log)
  have lx: "ge_lexicon ev = l" using assms(3) ls by (auto simp: covers_public_def log_step_def)
  have last: "list_last (g_events g') = Some ev" using ls by (simp add: log_step_def)
  from assms(2) show ?thesis
  proof (rule game_stepE)
    fix p v ps assume "play_tiles E g p v ps = Ok (g', ev)"
    then show ?thesis using assms(1)
      by (rule play_tiles_again) (use lx last in \<open>simp add: replay_public_event_def\<close>)
  next
    fix p v ids assume "exchange_tiles E g p v ids = Ok (g', ev)"
    then show ?thesis by (rule exchange_again) (use lx last in \<open>simp add: replay_public_event_def\<close>)
  next
    fix p v assume "pass g p v = Ok (g', ev)"
    then show ?thesis by (rule pass_again) (use lx last in \<open>simp add: replay_public_event_def\<close>)
  next
    fix p v assume "resign g p v = Ok (g', ev)"
    then show ?thesis by (rule resign_again) (use lx last in \<open>simp add: replay_public_event_def\<close>)
  qed
qed

definition replay_inv :: "env \<Rightarrow> Game \<Rightarrow> bool" where
  "replay_inv E g \<longleftrightarrow> unicode_ok E \<and> game_inv E g"

interpretation journal: event_sourced "game_step E" "replay_inv E" g_events covers "replay_event E" for E
proof
  fix g g' ev b assume inv: "replay_inv E g" and s: "game_step E g ev g'"
  show "replay_inv E g'" using inv s game_step_inv by (auto simp: replay_inv_def)
  show "g_events g' = g_events g @ [ev]" using game_step_log[OF s] by (simp add: log_step_def)
  show "covers b g" if "covers b g'" using game_step_log[OF s] that by (rule covers_step)
  show "replay_event E b g ev = Ok g'" if "covers b g'"
    using inv s that by (auto simp: replay_inv_def intro: replay_event_step)
qed

interpretation public_journal:
  event_sourced "game_step E" "replay_inv E" g_events covers_public "replay_public_event E" for E
proof
  fix g g' ev l assume inv: "replay_inv E g" and s: "game_step E g ev g'"
  show "replay_inv E g'" by (rule journal.inv_step[OF inv s])
  show "g_events g' = g_events g @ [ev]" by (rule journal.journal_step[OF inv s])
  show "covers_public l g" if "covers_public l g'"
    using game_step_log[OF s] that by (simp add: covers_public_def log_step_def)
  show "replay_public_event E l g ev = Ok g'" if "covers_public l g'"
    using inv s that by (auto simp: replay_inv_def intro: replay_public_event_step)
qed

section \<open>Reachable games and their round trips\<close>

inductive reachable :: "env \<Rightarrow> Game \<Rightarrow> bool" for E where
  reach_create: "create_with_mode_and_players E gid r lexicon seed mode n = Ok g \<Longrightarrow> reachable E g"
| reach_step: "reachable E g \<Longrightarrow> game_step E g ev g' \<Longrightarrow> reachable E g'"

lemma reachable_inv: "reachable E g \<Longrightarrow> game_inv E g"
  by (induction rule: reachable.induct) (auto intro: create_inv game_step_inv)

lemma reachable_path:
  assumes "reachable E g"
  shows "\<exists>gid r lexicon seed mode n g0 es. create_with_mode_and_players E gid r lexicon seed mode n = Ok g0
    \<and> run_path (game_step E) g0 es g"
  using assms by (induction rule: reachable.induct) (blast intro: path_nil path_snoc)+

definition same_table :: "Game \<Rightarrow> Game \<Rightarrow> bool" where
  "same_table g g' \<longleftrightarrow> g_ruleset g' = g_ruleset g \<and> g_lexicon g' = g_lexicon g \<and> g_seed g' = g_seed g
     \<and> gs_lexicon (g_state g') = gs_lexicon (g_state g) \<and> gs_rng_algorithm (g_state g') = gs_rng_algorithm (g_state g)"

lemma path_same_table: "run_path (game_step E) g es g' \<Longrightarrow> same_table g g'"
  by (induction rule: run_path.induct)
    (auto simp: same_table_def log_step_def dest!: game_step_log)

lemma create_event:
  assumes "create_with_mode_and_players E gid r lexicon seed mode n = Ok g"
  shows "\<exists>counts bc. g_events g = [\<lparr>ge_sequence = 0, ge_visibility = Public, ge_lexicon = wv_identity (g_lexicon g),
      ge_kind = Created gid r mode Xoshiro256StarStarV1 (commitment E seed Xoshiro256StarStarV1) counts bc\<rparr>]
      \<and> length counts = n"
    "lexicon = Some (g_lexicon g)" "g_ruleset g = r" "g_seed g = seed" "g_private_events g = []"
    "gs_version (g_state g) = 0"
  using assms prepare_initial_deal_Ok(5,8,9)
  by (auto simp: create_with_mode_and_players_def rbind_Ok_iff Let_def rack_counts_Ok)

lemma begin_replay_create:
  assumes c: "create_with_mode_and_players E gid r lexicon seed mode n = Ok g0"
    and b: "rb_ruleset b = g_ruleset g0" "rb_ruleset_identity b = ruleset_identity E (g_ruleset g0)"
      "rb_lexicon b = gs_lexicon (g_state g0)" "rb_rng_algorithm b = gs_rng_algorithm (g_state g0)"
      "rb_seed_reveal b = g_seed g0" "rb_events b = g_events g0 @ es"
  shows "begin_replay E b (Some (g_lexicon g0)) = Ok g0"
proof -
  note ev = create_event[OF c]
  have inv: "game_inv E g0" by (rule create_inv[OF c])
  then have ids: "wv_identity (g_lexicon g0) = rs_lexicon r" "gs_lexicon (g_state g0) = rs_lexicon r"
    "gs_rng_algorithm (g_state g0) = Xoshiro256StarStarV1"
    using ev(3) by (auto simp: game_inv_def ident_ok_def)
  have v: "validate_ruleset r = Ok ()" using c by (auto simp: create_with_mode_and_players_def rbind_Ok_iff)
  then have el: "ensure_lexicon r ContextReplay (rs_lexicon r) = Ok ()"
    by (simp add: ensure_lexicon_def ensure_exact_pack_def)
  obtain counts bc where e: "g_events g0 = [\<lparr>ge_sequence = 0, ge_visibility = Public,
      ge_lexicon = wv_identity (g_lexicon g0),
      ge_kind = Created gid r mode Xoshiro256StarStarV1 (commitment E seed Xoshiro256StarStarV1) counts bc\<rparr>]"
    "length counts = n" using ev(1) by blast
  have "commitment_verify E (commitment E seed Xoshiro256StarStarV1) seed" "sc_algorithm (commitment E seed a) = a" for a
    by (simp_all add: commitment_verify_def commitment_def)
  then show ?thesis
    using c[unfolded ev(2)] by (simp add: begin_replay_def b ev(3,4) v el ids e list_get_def ensure_exact_pack_def index_at_def ensure_def)
qed

lemma journal_bundle_simps [simp]:
  "rb_events (journal_bundle E g) = g_events g" "rb_private_events (journal_bundle E g) = g_private_events g"
  "rb_lexicon (journal_bundle E g) = gs_lexicon (g_state g)" "rb_ruleset (journal_bundle E g) = g_ruleset g"
  "rb_schema_version (journal_bundle E g) = REPLAY_SCHEMA_VERSION"
  "rb_ruleset_identity (journal_bundle E g) = ruleset_identity E (g_ruleset g)"
  "rb_rng_algorithm (journal_bundle E g) = gs_rng_algorithm (g_state g)"
  "rb_seed_reveal (journal_bundle E g) = g_seed g"
  by (simp_all add: journal_bundle_def)

lemma replay_journal:
  assumes "reachable E g" "unicode_ok E"
  shows "replay E (journal_bundle E g) (Some (g_lexicon g)) = Ok g"
proof -
  obtain gid r lexicon seed mode n g0 es where
    c: "create_with_mode_and_players E gid r lexicon seed mode n = Ok g0" and p: "run_path (game_step E) g0 es g"
    using reachable_path[OF assms(1)] by blast
  have inv: "replay_inv E g0" using create_inv[OF c] assms(2) by (simp add: replay_inv_def)
  have ev: "g_events g = g_events g0 @ es" by (rule journal.path_journal[OF p inv])
  note st = path_same_table[OF p, unfolded same_table_def]
  have "begin_replay E (journal_bundle E g) (Some (g_lexicon g0)) = Ok g0"
    by (rule begin_replay_create[OF c, where es = es]) (simp_all add: st ev)
  moreover have "covers (journal_bundle E g) g" by (simp add: covers_def)
  then have "try_fold (replay_event E (journal_bundle E g)) g0 es = Ok g"
    by (rule journal.path_replays[OF p inv])
  moreover have "drop 1 (g_events g) = es" using create_event(1)[OF c] ev by auto
  ultimately show ?thesis by (simp add: replay_def st)
qed

lemma replay_public_journal:
  assumes "reachable E g" "unicode_ok E"
  shows "replay_public E (public_bundle (journal_bundle E g)) (Some (g_lexicon g)) = Ok g"
proof -
  obtain gid r lexicon seed mode n g0 es where
    c: "create_with_mode_and_players E gid r lexicon seed mode n = Ok g0" and p: "run_path (game_step E) g0 es g"
    using reachable_path[OF assms(1)] by blast
  have inv: "replay_inv E g0" using create_inv[OF c] assms(2) by (simp add: replay_inv_def)
  have ev: "g_events g = g_events g0 @ es" by (rule journal.path_journal[OF p inv])
  note st = path_same_table[OF p, unfolded same_table_def]
  let ?b = "\<lparr>rb_schema_version = REPLAY_SCHEMA_VERSION, rb_ruleset_identity = ruleset_identity E (g_ruleset g),
    rb_ruleset = g_ruleset g, rb_lexicon = gs_lexicon (g_state g), rb_rng_algorithm = gs_rng_algorithm (g_state g),
    rb_seed_reveal = g_seed g, rb_events = g_events g, rb_private_events = []\<rparr>"
  have "begin_replay E ?b (Some (g_lexicon g0)) = Ok g0"
    by (rule begin_replay_create[OF c, where es = es]) (simp_all add: st ev)
  moreover have "covers_public (gs_lexicon (g_state g)) g" by (simp add: covers_public_def)
  then have "try_fold (replay_public_event E (gs_lexicon (g_state g))) g0 es = Ok g"
    by (rule public_journal.path_replays[OF p inv])
  moreover have "drop 1 (g_events g) = es" using create_event(1)[OF c] ev by auto
  ultimately show ?thesis using st by (simp add: replay_public_def public_bundle_def Let_def)
qed

lemma resume_snapshot:
  assumes "reachable E g" "unicode_ok E"
  shows "resume E (snapshot E g) (g_ruleset g) (Some (g_lexicon g)) = Ok g"
proof -
  have inv: "table_ok g" "ident_ok E g" using reachable_inv[OF assms(1)] by (auto simp: game_inv_def)
  then have v: "validate_ruleset (g_ruleset g) = Ok ()" by (simp add: validate_ruleset_iff table_ok_def)
  have id: "gs_ruleset_id (g_state g) = rs_id (g_ruleset g)" "gs_ruleset (g_state g) = ruleset_identity E (g_ruleset g)"
    "gs_rng_algorithm (g_state g) = Xoshiro256StarStarV1"
    "sc_algorithm (gs_seed_commitment (g_state g)) = Xoshiro256StarStarV1"
    "length (gs_board (g_state g)) = BOARD_SQUARES"
    using inv by (simp_all add: ident_ok_def table_ok_def commitment_def)
  show ?thesis
    using replay_journal[OF assms] by (simp add: resume_def snapshot_def v id Let_def journal_bundle_def)
qed

end
