(* ===== verification/GameSafety.thy ===== *)
theory GameSafety
  imports Replay
begin

text \<open>
  Safety of the moves. On a game that satisfies the invariant a move never panics and is
  never rejected with \<open>InvalidTileState\<close>: the conservation check that ends every placement
  and exchange cannot fail. A placement, a pass and a resignation always return; an exchange
  returns unless the rejection sampling of its reshuffle never accepts.
\<close>

section \<open>Sound outcomes\<close>

text \<open>No panic, no internal tile error, and a diverging loop only where \<open>b\<close> allows it.\<close>

definition sound :: "bool \<Rightarrow> 'a result \<Rightarrow> bool" where
  "sound b r \<longleftrightarrow> r \<noteq> Panic \<and> (r = Diverge \<longrightarrow> b) \<and> (\<forall>reason. r \<noteq> Err (InvalidTileState reason))"

named_theorems sound_intros \<open>closure of sound outcomes\<close>

lemma sound_Ok [simp]: "sound b (Ok x)"
  by (simp add: sound_def)

lemma sound_Err [simp]: "sound b (Err e) \<longleftrightarrow> (\<forall>reason. e \<noteq> InvalidTileState reason)"
  by (simp add: sound_def)

lemma sound_not_Panic [simp]: "\<not> sound b Panic"
  by (simp add: sound_def)

lemma sound_rbind [sound_intros]:
  "sound b m \<Longrightarrow> (\<And>x. m = Ok x \<Longrightarrow> sound b (f x)) \<Longrightarrow> sound b (rbind m f)"
  by (cases m) (auto simp: sound_def)

lemma sound_case_prod [sound_intros]: "(\<And>a c. p = (a, c) \<Longrightarrow> sound b (f a c)) \<Longrightarrow> sound b (case p of (a, c) \<Rightarrow> f a c)"
  by (cases p) auto

lemma sound_ok_or: "(\<And>reason. e \<noteq> InvalidTileState reason) \<Longrightarrow> sound b (ok_or e m)"
  by (cases m) auto

lemma sound_ok_or_Some: "m \<noteq> None \<Longrightarrow> sound b (ok_or e m)"
  by (cases m) auto

lemma sound_ensure: "(\<And>reason. e \<noteq> InvalidTileState reason) \<Longrightarrow> sound b (ensure c e)"
  by (simp add: ensure_def)

lemma sound_index_at [simp]: "sound b (index_at xs i) \<longleftrightarrow> i < length xs"
  by (auto simp: sound_def index_at_def)

lemma sound_store_at [simp]: "sound b (store_at xs i x) \<longleftrightarrow> i < length xs"
  by (auto simp: sound_def store_at_def)

lemma sound_try_fold:
  assumes "P s" "\<And>s x. P s \<Longrightarrow> x \<in> set xs \<Longrightarrow> sound b (f s x)"
    "\<And>s x s'. P s \<Longrightarrow> x \<in> set xs \<Longrightarrow> f s x = Ok s' \<Longrightarrow> P s'"
  shows "sound b (try_fold f s xs)"
  using assms
proof (induction xs arbitrary: s)
  case Nil
  then show ?case by simp
next
  case (Cons x xs)
  have "sound b (rbind (f s x) (\<lambda>s'. try_fold f s' xs))"
  proof (rule sound_rbind)
    show "sound b (f s x)" using Cons.prems(1,2) by simp
    fix s' assume s': "f s x = Ok s'"
    have "P s'" by (rule Cons.prems(3)[OF Cons.prems(1) _ s']) simp
    then show "sound b (try_fold f s' xs)"
      by (rule Cons.IH) (erule Cons.prems(2), simp, erule Cons.prems(3), simp_all)
  qed
  then show ?case by simp
qed

lemma sound_try_fold_simple: "(\<And>s x. x \<in> set xs \<Longrightarrow> sound b (f s x)) \<Longrightarrow> sound b (try_fold f s xs)"
  by (rule sound_try_fold[where P = "\<lambda>_. True"]) auto

lemma sound_traverse: "(\<And>x. x \<in> set xs \<Longrightarrow> sound b (f x)) \<Longrightarrow> sound b (traverse f xs)"
  by (induction xs) (auto intro!: sound_rbind)

text \<open>Errors alone: a computation that never raises \<open>InvalidTileState\<close>, whatever its input.\<close>

definition tile_free :: "'a result \<Rightarrow> bool" where
  "tile_free r \<longleftrightarrow> (\<forall>reason. r \<noteq> Err (InvalidTileState reason))"

lemma sound_returns: "returns r \<Longrightarrow> tile_free r \<Longrightarrow> sound b r"
  by (cases r) (auto simp: tile_free_def)

lemma tile_free_simps [simp]: "tile_free (Ok x)" "tile_free Panic" "tile_free Diverge"
  "tile_free (Err e) \<longleftrightarrow> (\<forall>reason. e \<noteq> InvalidTileState reason)"
  by (simp_all add: tile_free_def)

lemma tile_free_rbind: "tile_free m \<Longrightarrow> (\<And>x. tile_free (f x)) \<Longrightarrow> tile_free (rbind m f)"
  by (cases m) auto

lemma tile_free_map_err: "(\<And>e reason. h e \<noteq> InvalidTileState reason) \<Longrightarrow> tile_free (map_err h m)"
  by (cases m) auto

lemma tile_free_ok_or: "(\<And>reason. e \<noteq> InvalidTileState reason) \<Longrightarrow> tile_free (ok_or e m)"
  by (cases m) auto

lemma tile_free_ensure: "(\<And>reason. e \<noteq> InvalidTileState reason) \<Longrightarrow> tile_free (ensure c e)"
  by (simp add: ensure_def)

lemma tile_free_plain [simp]: "tile_free (expect m)" "tile_free (of_loop m)" "tile_free (index_at xs i)"
  by (cases m; simp add: index_at_def)+

lemma tile_free_try_fold: "(\<And>s x. tile_free (f s x)) \<Longrightarrow> tile_free (try_fold f s xs)"
  by (induction xs arbitrary: s) (auto intro!: tile_free_rbind)

lemma tile_free_traverse: "(\<And>x. tile_free (f x)) \<Longrightarrow> tile_free (traverse f xs)"
  by (induction xs) (auto intro!: tile_free_rbind)

lemmas tile_free_intros = tile_free_rbind tile_free_map_err tile_free_ok_or tile_free_ensure
  tile_free_try_fold tile_free_traverse

section \<open>Preparing a placement\<close>

lemma tile_free_canonical: "tile_free (canonical_tile_token E prof tok)"
  unfolding canonical_tile_token_def by (auto intro!: tile_free_intros)

lemma tile_free_own_step: "tile_free (own_step E g rack acc p)"
  unfolding own_step_def Let_def validate_assignment_def
  by (auto intro!: tile_free_intros tile_free_canonical split: prod.splits)

lemma tile_free_validate_word: "tile_free (validate_word E g pps cs)"
  unfolding validate_word_def word_step_def premium_step_def
  by (auto intro!: tile_free_intros split: prod.splits Premium.splits)

lemma tile_free_contiguous: "tile_free (validate_contiguous s ps o' pps)"
  unfolding validate_contiguous_def Let_def
  by (auto intro!: tile_free_intros split: Orientation.splits)

lemma tile_free_prepare: "tile_free (prepare_placement E g p ps)"
  unfolding prepare_placement_def validate_owned_placements_def validate_unique_coordinates_def
    orientation_of_def validate_connection_def formed_word_coordinates_def push_segments_def word_segment_def
    score_word_def Let_def
  by (auto intro!: tile_free_intros tile_free_own_step tile_free_validate_word tile_free_contiguous
      split: prod.splits option.splits)

section \<open>Tiles on the board\<close>

lemma board_tiles_update:
  "i < length board \<Longrightarrow> board ! i = None \<Longrightarrow>
     mset (board_tiles (board[i := Some t])) = mset (board_tiles board) + {#t#}"
proof (induction board arbitrary: i)
  case Nil
  then show ?case by simp
next
  case (Cons a board)
  then show ?case by (cases i) (auto simp: board_tiles_def map_filter_simps split: option.splits)
qed

lemma put_tiles_Ok:
  assumes "length board = BOARD_SQUARES" "distinct (map pl_coordinate ps)"
    "\<And>p. p \<in> set ps \<Longrightarrow> in_bounds (pl_coordinate p) BOARD_SIZE BOARD_SIZE
      \<and> board ! coord_index (pl_coordinate p) BOARD_SIZE = None"
  shows "\<exists>board'. try_fold put_tile board ps = Ok board'
    \<and> mset (board_tiles board') = mset (board_tiles board) + mset (map board_tile_of ps)"
  using assms
proof (induction ps arbitrary: board)
  case Nil
  then show ?case by simp
next
  case (Cons p ps)
  let ?i = "\<lambda>p. coord_index (pl_coordinate p) BOARD_SIZE" and ?t = "Some (board_tile_of p)"
  have ib: "in_bounds (pl_coordinate q) BOARD_SIZE BOARD_SIZE" if "q \<in> set (p # ps)" for q using Cons.prems(3) that by blast
  have i: "?i p < length board" using coord_index_less[OF ib, of p] Cons.prems(1) by (simp add: BOARD_SQUARES_def)
  have ne: "?i q \<noteq> ?i p" if "q \<in> set ps" for q
  proof
    assume "?i q = ?i p"
    then have "pl_coordinate q = pl_coordinate p"
      using ib[of q] ib[of p] that by (intro coord_index_inj[of _ BOARD_SIZE]) (auto simp: in_bounds_def)
    then show False using Cons.prems(2) that by (metis distinct.simps(2) image_eqI list.simps(9) set_map)
  qed
  have "\<exists>board'. try_fold put_tile (board[?i p := ?t]) ps = Ok board'
    \<and> mset (board_tiles board') = mset (board_tiles (board[?i p := ?t])) + mset (map board_tile_of ps)"
  proof (rule Cons.IH)
    fix q assume q: "q \<in> set ps"
    show "in_bounds (pl_coordinate q) BOARD_SIZE BOARD_SIZE \<and> board[?i p := ?t] ! ?i q = None"
      using Cons.prems(3)[of q] ne[OF q] q by simp
  qed (use Cons.prems in auto)
  moreover have "put_tile board p = Ok (board[?i p := ?t])" using i by (simp add: put_tile_def store_at_def)
  ultimately show ?case using board_tiles_update[OF i, of "board_tile_of p"] Cons.prems(3)[of p] by auto
qed

lemma tile_at_None:
  assumes "in_bounds c BOARD_SIZE BOARD_SIZE" "length (gs_board st) = BOARD_SQUARES"
  shows "tile_at st c = None \<longleftrightarrow> gs_board st ! coord_index c BOARD_SIZE = None"
  using assms coord_index_less[OF assms(1)] by (simp add: tile_at_def list_get_def BOARD_SQUARES_def)

lemma physical_tile_placed:
  assumes "placeable E g rack p q" "unicode_ok E"
  shows "physical_tile (g_ruleset g) E (board_tile_of q) = Ok (rack_tile rack (pl_tile_id q))"
    "pt_id (rack_tile rack (pl_tile_id q)) = pl_tile_id q" "rack_tile rack (pl_tile_id q) \<in> set rack"
proof -
  obtain t l where t: "List.find (\<lambda>t. pt_id t = pl_tile_id p) rack = Some t"
    "canonical_tile_token E (profile_of (g_ruleset g)) (tl_letter (pl_tile p)) = Ok l"
    "q = p\<lparr>pl_tile := (pl_tile p)\<lparr>tl_letter := l\<rparr>\<rparr>" "validate_assignment t (pl_tile q) = Ok ()"
    using assms(1) by (auto simp: placeable_def)
  have id: "pt_id t = pl_tile_id p" "t \<in> set rack" using find_Some_mem[OF t(1)] by auto
  have rt: "rack_tile rack (pl_tile_id q) = t" using t by (simp add: rack_tile_def)
  then show "pt_id (rack_tile rack (pl_tile_id q)) = pl_tile_id q" "rack_tile rack (pl_tile_id q) \<in> set rack"
    using id t(3) by simp_all
  have l: "board_word l" "length l = 1" using canonical_token_word[OF t(2)] by auto
  then have "TileToken_new l = Ok l" by (cases l) (auto simp: TileToken_new_def board_word_def)
  moreover have "canonical_tile_token E (profile_of (g_ruleset g)) l = Ok l"
    by (rule canonical_token_fixpoint[OF assms(2) t(2)])
  moreover have "pt_face t = (if tl_is_blank (pl_tile p) then Blank else Letter l)"
    using t(3,4) by (auto simp: validate_assignment_def split: TileFace.splits if_splits)
  ultimately show "physical_tile (g_ruleset g) E (board_tile_of q) = Ok (rack_tile rack (pl_tile_id q))"
    unfolding rt using id t(3) by (cases t) (auto simp: physical_tile_def board_tile_of_def)
qed

lemma traverse_more:
  assumes "traverse f xs = Ok ys" "mset xs' = mset xs + mset zs" "\<And>z. z \<in> set zs \<Longrightarrow> f z = Ok (h z)"
  shows "\<exists>ys'. traverse f xs' = Ok ys' \<and> mset ys' = mset ys + mset (map h zs)"
proof -
  define k where "k x = (case f x of Ok y \<Rightarrow> y | _ \<Rightarrow> undefined)" for x
  have kx: "f x = Ok (k x)" if "x \<in> set xs" for x
    using assms(1)[unfolded traverse_Ok_iff] that by (induction rule: list_all2_induct) (auto simp: k_def)
  have "ys = map k xs" using assms(1) by (rule traverse_Ok_map) (simp add: k_def)
  moreover have hk: "map h zs = map k zs" by (auto simp: k_def assms(3))
  have "f x = Ok (k x)" if "x \<in> set xs'" for x
    using that mset_eq_setD[of xs' "xs @ zs"] assms(2,3) kx by (auto simp: k_def)
  then have "traverse f xs' = Ok (map k xs')" by (rule traverse_map_Ok)
  moreover have "mset (map k xs') = mset (map k xs) + mset (map k zs)" using assms(2) by simp
  ultimately show ?thesis unfolding hk by auto
qed

section \<open>Conservation never fails\<close>

lemma table_ok_builtin: "table_ok g \<Longrightarrow> \<exists>i. g_ruleset g = the_builtin i"
  by (auto simp: table_ok_def)

lemma prepared_facts:
  assumes "seat_index p < length (g_racks g)" "prepare_placement E g p ps = Ok pr" "unicode_ok E"
  shows "distinct (map pl_coordinate (pr_placements pr))"
    "\<And>q. q \<in> set (pr_placements pr) \<Longrightarrow> placeable E g (g_racks g ! seat_index p) q q"
    "pr_played pr = map (\<lambda>q. rack_tile (g_racks g ! seat_index p) (pl_tile_id q)) (pr_placements pr)"
    "distinct (map pl_tile_id (pr_placements pr))"
proof -
  note idem = prepare_placement_idem[OF assms(1,3,2)]
  from idem[unfolded prepare_placement_Ok[OF assms(1)]] obtain qs o' where
    1: "list_all2 (placeable E g (g_racks g ! seat_index p)) (pr_placements pr) qs"
      "distinct (map pl_tile_id (pr_placements pr))" "distinct (map pl_coordinate qs)"
      "finish_placement E g (g_racks g ! seat_index p) o' (sort_placements o' qs) = Ok pr" by blast
  show "distinct (map pl_tile_id (pr_placements pr))" by (rule 1(2))
  show "pr_played pr = map (\<lambda>q. rack_tile (g_racks g ! seat_index p) (pl_tile_id q)) (pr_placements pr)"
    by (simp add: finish_placement_fields[OF 1(4)])
  have srt: "pr_placements pr = sort_placements o' qs" by (rule finish_placement_fields(1)[OF 1(4)])
  then have m: "mset (pr_placements pr) = mset qs" by simp
  then show "distinct (map pl_coordinate (pr_placements pr))"
    using 1(3) by (metis mset_eq_imp_distinct_iff mset_map)
  fix q assume "q \<in> set (pr_placements pr)"
  then have "q \<in> set qs" using mset_eq_setD[OF m] by simp
  then show "placeable E g (g_racks g ! seat_index p) q q"
    using 1(1) placeable_self[OF assms(3)] by (metis in_set_conv_nth list_all2_conv_all_nth)
qed

lemma play_conserves:
  assumes inv: "table_ok g" "tiles_ok E g" and uni: "unicode_ok E" and ix: "seat_index p < length (g_racks g)"
    and pr: "prepare_placement E g p ps = Ok pr"
    and ret: "retained = filter (\<lambda>t. pt_id t \<notin> set (map pl_tile_id (pr_placements pr))) (g_racks g ! seat_index p)"
    and dr: "draw_up_to (g_bag g) k = (bag', drawn)"
  shows "\<exists>board'. try_fold put_tile (gs_board (g_state g)) (pr_placements pr) = Ok board' \<and>
    (\<forall>st. gs_board st = board' \<longrightarrow>
      conservation_check E (g_ruleset g) st bag' ((g_racks g)[seat_index p := retained @ drawn]) = Ok ())"
    and "length retained \<le> 7"
proof -
  let ?rack = "g_racks g ! seat_index p" and ?qs = "pr_placements pr" and ?r = "g_ruleset g"
  note f = prepared_facts[OF ix pr uni]
  have free: "in_bounds (pl_coordinate q) BOARD_SIZE BOARD_SIZE
      \<and> gs_board (g_state g) ! coord_index (pl_coordinate q) BOARD_SIZE = None" if "q \<in> set ?qs" for q
    using f(2)[OF that] inv(1) tile_at_None by (auto simp: placeable_def table_ok_def)
  obtain board' where b: "try_fold put_tile (gs_board (g_state g)) ?qs = Ok board'"
    "mset (board_tiles board') = mset (board_tiles (gs_board (g_state g))) + mset (map board_tile_of ?qs)"
    using put_tiles_Ok[of "gs_board (g_state g)" ?qs] f(1) free inv(1) by (auto simp: table_ok_def)
  obtain B where B: "physical_board E (g_state g) ?r = Ok B"
    "mset (g_bag g @ concat (g_racks g) @ B) = mset (expected_tiles ?r)" using inv(2) by (auto simp: tiles_ok_iff)
  have ids: "map pt_id (pr_played pr) = map pl_tile_id ?qs"
    by (simp add: f(3) physical_tile_placed(2)[OF f(2) uni])
  have sub: "set (pr_played pr) \<subseteq> set ?rack" by (auto simp: f(3) intro!: physical_tile_placed(3)[OF f(2) uni])
  have dist: "distinct (map pt_id ?rack)" by (rule tiles_ok_rack_distinct[OF inv(2) ix])
  have "set (map pl_tile_id ?qs) = pt_id ` set (pr_played pr)" by (simp only: ids[symmetric] set_map)
  then have m: "mset retained + mset (pr_played pr) = mset ?rack"
    using mset_filter_ids[OF dist sub] f(4) ids ret by simp
  show "length retained \<le> 7"
    using ret table_ok_rack[OF inv(1) ix] length_filter_le order_trans by blast
  have "\<exists>i. ?r = the_builtin i" by (rule table_ok_builtin[OF inv(1)])
  then obtain i where i: "?r = the_builtin i" ..
  have "conservation_check E ?r st bag' ((g_racks g)[seat_index p := retained @ drawn]) = Ok ()"
    if st: "gs_board st = board'" for st
  proof -
    have "\<exists>B'. traverse (physical_tile ?r E) (board_tiles board') = Ok B'
        \<and> mset B' = mset B + mset (map (\<lambda>t. rack_tile ?rack (bt_tile_id t)) (map board_tile_of ?qs))"
    proof (rule traverse_more[OF B(1)[unfolded physical_board_def] b(2)])
      fix t assume "t \<in> set (map board_tile_of ?qs)"
      then obtain q where q: "q \<in> set ?qs" "t = board_tile_of q" by auto
      show "physical_tile ?r E t = Ok (rack_tile ?rack (bt_tile_id t))"
        using physical_tile_placed(1)[OF f(2)[OF q(1)] uni] q(2) by (simp add: board_tile_of_def)
    qed
    then obtain B' where B': "traverse (physical_tile ?r E) (board_tiles board') = Ok B'"
      "mset B' = mset B + mset (pr_played pr)" by (auto simp: f(3) board_tile_of_def comp_def)
    have "mset (bag' @ concat ((g_racks g)[seat_index p := retained @ drawn]) @ B') = mset (expected_tiles ?r)"
    proof -
      have "mset bag' + mset (retained @ drawn) = mset (g_bag g) + mset retained"
        by (rule bag.refill_conserves[OF dr])
      moreover note concat_update_mset[OF ix, of "retained @ drawn"]
      ultimately have "mset bag' + mset (concat ((g_racks g)[seat_index p := retained @ drawn])) + mset B' + mset ?rack
          = mset (g_bag g) + mset (concat (g_racks g)) + mset B + mset ?rack"
        using B'(2) m by (simp add: ac_simps)
      then show ?thesis using B(2) by (simp add: ac_simps)
    qed
    then show ?thesis
      using B'(1) by (auto simp: conservation_check_Ok[OF i] physical_board_def st)
  qed
  then show "\<exists>board'. try_fold put_tile (gs_board (g_state g)) ?qs = Ok board' \<and> (\<forall>st. gs_board st = board' \<longrightarrow>
      conservation_check E ?r st bag' ((g_racks g)[seat_index p := retained @ drawn]) = Ok ())" using b(1) by blast
qed

lemma exchange_keeps_tiles:
  assumes inv: "table_ok g" "tiles_ok E g" and ix: "seat_index p < length (g_racks g)"
    and ad: "adjacent_duplicate (sort ids) = None"
    and ret: "traverse (\<lambda>i. ok_or (TileNotOwned i) (List.find (\<lambda>t. pt_id t = i) (g_racks g ! seat_index p))) (sort ids)
      = Ok returned"
    and dr: "draw_up_to (g_bag g) (length returned) = (rest, drawn)"
    and rb: "return_tiles_to_bag E rest returned seed v = Ok bag'"
    and kept: "kept = filter (\<lambda>t. pt_id t \<notin> set (sort ids)) (g_racks g ! seat_index p)"
    and st: "gs_board st = gs_board (g_state g)"
  shows "conservation_check E (g_ruleset g) st bag' ((g_racks g)[seat_index p := kept @ drawn]) = Ok ()"
proof -
  let ?rack = "g_racks g ! seat_index p"
  obtain i where i: "g_ruleset g = the_builtin i" using table_ok_builtin[OF inv(1)] by blast
  obtain B where B: "physical_board E (g_state g) (g_ruleset g) = Ok B"
    "mset (g_bag g @ concat (g_racks g) @ B) = mset (expected_tiles (g_ruleset g))" using inv(2) by (auto simp: tiles_ok_iff)
  have "mset ?rack = mset kept + mset returned"
    using exchange_returned(2)[OF inv(2) ix refl ad ret] kept by simp
  then have "mset bag' + mset (kept @ drawn) = mset (g_bag g) + mset ?rack"
    using bag.exchange_conserves[OF dr, of "(E, seed, v)" bag'] rb by (simp add: put_back_Some)
  moreover note concat_update_mset[OF ix, of "kept @ drawn"]
  ultimately have "mset bag' + mset (concat ((g_racks g)[seat_index p := kept @ drawn])) + mset B + mset ?rack
      = mset (g_bag g) + mset (concat (g_racks g)) + mset B + mset ?rack" by (simp add: ac_simps)
  then have "mset (bag' @ concat ((g_racks g)[seat_index p := kept @ drawn]) @ B) = mset (expected_tiles (g_ruleset g))"
    using B(2) by (simp add: ac_simps)
  then show ?thesis
    using B(1) physical_board_frame[OF st] by (auto simp: conservation_check_Ok[OF i])
qed

section \<open>Moves are sound\<close>

lemma table_ok_bag:
  assumes "table_ok g" "tiles_ok E g"
  shows "length (g_bag g) + length (concat (g_racks g)) \<le> 102"
proof -
  obtain i where i: "g_ruleset g = the_builtin i" using table_ok_builtin[OF assms(1)] by blast
  obtain B where "mset (g_bag g @ concat (g_racks g) @ B) = mset (expected_tiles (g_ruleset g))"
    using assms(2) by (auto simp: tiles_ok_iff)
  then have "length (g_bag g @ concat (g_racks g) @ B) = length (expected_tiles (g_ruleset g))" by (rule mset_eq_length)
  moreover have "length (expected_tiles (g_ruleset g)) \<le> 102"
    unfolding i expected_tiles_def label_tiles_length expected_faces_builtin
    by (simp add: total_tiles_builtin split: RulesetId.splits)
  ultimately show ?thesis by simp
qed

lemma sound_rack_value: "sound b (rack_value r rack)"
  unfolding rack_value_def by (auto intro!: sound_try_fold_simple sound_ok_or)

lemma sound_deduct_only:
  "seat_index s < length racks \<Longrightarrow> seat_index s < length scores \<Longrightarrow> sound b (deduct_only r racks scores s)"
  unfolding deduct_only_def by (intro sound_rbind sound_rack_value sound_ok_or) auto

lemma deduct_only_length: "deduct_only r racks scores s = Ok scores' \<Longrightarrow> length scores' = length scores"
  by (auto simp: deduct_only_def rbind_Ok_iff)

lemma sound_deduct:
  "seat_index s < length racks \<Longrightarrow> seat_index s < length (fst acc) \<Longrightarrow> sound b (deduct r racks acc s)"
  unfolding deduct_def by (intro sound_case_prod sound_rbind sound_rack_value sound_ok_or) auto

lemma deduct_length: "deduct r racks acc s = Ok acc' \<Longrightarrow> length (fst acc') = length (fst acc)"
  by (cases acc) (auto simp: deduct_def rbind_Ok_iff)

lemma sound_final_scores:
  assumes "seat_active (length racks) = Some active" "length scores = length racks"
    "case reason of RackEmptied out \<Rightarrow> seat_index out < length racks | _ \<Rightarrow> True"
  shows "sound b (final_scores r scores racks active reason)"
proof -
  have seats: "seat_index s < length racks" if "s \<in> set active" for s using seat_active_mem[OF assms(1)] that by blast
  show ?thesis
  proof (cases reason)
    case (Resignation s)
    then show ?thesis by (simp add: final_scores_def)
  next
    case ScorelessTurns
    have "sound b (try_fold (deduct_only r racks) scores active)"
      by (rule sound_try_fold[where P = "\<lambda>s. length s = length racks"])
        (use assms(2) seats in \<open>auto intro!: sound_deduct_only simp: deduct_only_length\<close>)
    then show ?thesis using ScorelessTurns by (simp add: final_scores_def)
  next
    case (RackEmptied out)
    let ?m = "try_fold (deduct r racks) (scores, 0) (filter (\<lambda>s. s \<noteq> out) active)"
    have "sound b ?m"
      by (rule sound_try_fold[where P = "\<lambda>acc. length (fst acc) = length racks"])
        (use assms(2) seats in \<open>auto intro!: sound_deduct simp: deduct_length\<close>)
    moreover have "length (fst acc) = length racks" if "?m = Ok acc" for acc
      using that by (rule try_fold_invariant[where P = "\<lambda>acc. length (fst acc) = length racks"])
        (use assms(2) in \<open>auto simp: deduct_length\<close>)
    ultimately show ?thesis
      using assms(3) RackEmptied unfolding final_scores_def
      by (auto intro!: sound_rbind sound_ok_or simp: split_def)
  qed
qed

lemma sound_complete_state:
  assumes "2 \<le> length racks" "length racks \<le> 4" "length (gs_scores st) = length racks"
    "case reason of RackEmptied out \<Rightarrow> seat_index out < length racks | _ \<Rightarrow> True"
  shows "sound b (complete_state g st racks reason)"
proof -
  obtain active where a: "seat_active (length racks) = Some active" using assms by (auto simp: seat_active_Some_iff)
  then show ?thesis unfolding complete_state_def Let_def a
    by (auto intro!: sound_rbind sound_final_scores[OF a] assms)
qed

lemma sound_complete_when:
  assumes "2 \<le> length racks" "length racks \<le> 4" "length (gs_scores st) = length racks"
    "case reason of RackEmptied out \<Rightarrow> seat_index out < length racks | _ \<Rightarrow> True"
  shows "sound b (complete_when c g st racks reason)"
  unfolding complete_when_def by (auto intro!: sound_rbind sound_complete_state assms)

lemma sound_action: "sound b (validate_action g p v)" "sound b (next_version g)" "sound b (next_scoreless k n)"
  by (simp_all add: validate_action_def next_version_def next_scoreless_def sound_ok_or)

lemma sound_next_player: "table_ok g \<Longrightarrow> sound b (next_player g p)"
  by (auto simp: next_player_def table_ok_def seat_next_Some)

lemma sound_pass: "table_ok g \<Longrightarrow> sound b (pass g p v)"
  unfolding pass_def Let_def
  by (intro sound_rbind sound_case_prod sound_action sound_next_player sound_ok_or sound_complete_when)
    (auto simp: table_ok_def)

lemma sound_resign: "table_ok g \<Longrightarrow> sound b (resign g p v)"
  unfolding resign_def Let_def
  by (intro sound_rbind sound_case_prod sound_action sound_complete_state) (auto simp: table_ok_def)

lemma sound_prepare:
  assumes "table_ok g" "seat_index p < length (g_racks g)"
  shows "sound b (prepare_placement E g p ps)"
proof -
  obtain i where i: "g_ruleset g = the_builtin i" using table_ok_builtin[OF assms(1)] by blast
  have "returns (prepare_placement E g p ps)"
    using assms(2) by (rule prepare_placement_returns) (simp add: i board_total_builtin)
  then show ?thesis by (rule sound_returns) (rule tile_free_prepare)
qed

lemma sound_rack_counts: "list_all (\<lambda>rack. length rack \<le> 7) racks \<Longrightarrow> sound b (rack_counts racks)"
  unfolding rack_counts_def
  by (rule sound_traverse) (auto simp: count_u8_def try_from_def list_all_iff)

lemma sound_count_u16: "n \<le> 102 \<Longrightarrow> sound b (count_u16 n)"
  by (simp add: count_u16_def try_from_def)

lemma sound_count_u8: "n \<le> 102 \<Longrightarrow> sound b (count_u8 n)"
  by (simp add: count_u8_def try_from_def)

lemma racks_update_le:
  "list_all (\<lambda>rack. length rack \<le> 7) racks \<Longrightarrow> length new \<le> 7 \<Longrightarrow>
     list_all (\<lambda>rack. length rack \<le> 7) (racks[i := new])"
  by (auto simp: list_all_iff dest!: set_update_subset_insert[THEN subsetD])

lemma sound_play:
  assumes inv: "table_ok g" "tiles_ok E g" and uni: "unicode_ok E"
  shows "sound b (play_tiles E g p v ps)"
proof (cases "\<exists>pr. validate_action g p v = Ok () \<and> prepare_placement E g p ps = Ok pr")
  case False
  have "seat_index p < length (g_racks g)" if "validate_action g p v = Ok u" for u
    using that inv(1) by (simp add: validate_action_Ok table_ok_def)
  then show ?thesis unfolding play_tiles_def
    by (intro sound_rbind[OF sound_action(1)] sound_rbind[OF sound_prepare[OF inv(1)]]) (use False in auto)
next
  case True
  then obtain pr where va: "validate_action g p v = Ok ()" and pr: "prepare_placement E g p ps = Ok pr" by blast
  then have ix: "seat_index p < length (g_racks g)" using inv(1) by (simp add: validate_action_Ok table_ok_def)
  note t = inv(1)[unfolded table_ok_def]
  let ?kept = "filter (\<lambda>t. pt_id t \<notin> set (map pl_tile_id (pr_placements pr))) (g_racks g ! seat_index p)"
  obtain bag' drawn where dr: "draw_up_to (g_bag g) (7 - length ?kept) = (bag', drawn)" by force
  have kept: "length ?kept \<le> 7" by (rule play_conserves(2)[OF inv uni ix pr refl dr])
  obtain board' where bd: "try_fold put_tile (gs_board (g_state g)) (pr_placements pr) = Ok board'"
    and cons: "\<And>st. gs_board st = board' \<Longrightarrow>
      conservation_check E (g_ruleset g) st bag' ((g_racks g)[seat_index p := ?kept @ drawn]) = Ok ()"
    using play_conserves(1)[OF inv uni ix pr refl dr] by blast
  have len: "length (?kept @ drawn) \<le> 7" "length bag' \<le> 102" "length drawn \<le> 102"
    using draw_up_to_length[OF dr] kept table_ok_bag[OF inv] by auto
  have sub: "checked_sub (gr_rack_capacity (rs_game (g_ruleset g))) (length ?kept) = Some (7 - length ?kept)"
    using kept table_ok_capacity[OF inv(1)] by (simp add: checked_sub_def)
  have scons: "gs_board st = board' \<Longrightarrow>
      sound b (conservation_check E (g_ruleset g) st bag' ((g_racks g)[seat_index p := ?kept @ drawn]))" for st
    by (simp only: cons sound_Ok)
  have ixs: "index_at (g_racks g) (seat_index p) = (Ok (g_racks g ! seat_index p) :: Rack result)"
    using ix by (simp add: index_at_def)
  show ?thesis
    unfolding play_tiles_def Let_def if_complete_when va pr ixs rbind.simps sub ok_or.simps dr prod.case bd
    by (intro sound_rbind sound_case_prod sound_ensure sound_action sound_next_player[OF inv(1)] sound_ok_or
        sound_rack_counts sound_count_u16 sound_count_u8 sound_complete_when racks_update_le len scons)
      (use t ix in auto)
qed

lemma sound_exchange:
  assumes inv: "table_ok g" "tiles_ok E g"
  shows "sound True (exchange_tiles E g p v ids)"
proof (cases "\<exists>returned. validate_action g p v = Ok () \<and> adjacent_duplicate (sort ids) = None
    \<and> traverse (\<lambda>i. ok_or (TileNotOwned i) (List.find (\<lambda>t. pt_id t = i) (g_racks g ! seat_index p))) (sort ids)
      = (Ok returned :: PhysicalTile list result)")
  case False
  have ix: "seat_index p < length (g_racks g)" if "validate_action g p v = Ok u" for u
    using that inv(1) by (simp add: validate_action_Ok table_ok_def)
  have tr: "sound b (traverse (\<lambda>i. ok_or (TileNotOwned i) (List.find (\<lambda>t. pt_id t = i) rack)) is)" for b rack "is"
    by (auto intro!: sound_traverse sound_ok_or)
  have bag: "length (g_bag g) \<le> 102" using table_ok_bag[OF inv] by simp
  show ?thesis unfolding exchange_tiles_def Let_def
    by (intro sound_rbind[OF sound_action(1)] sound_rbind[OF sound_ensure] sound_rbind[OF sound_count_u16[OF bag]]
        sound_rbind[OF tr] sound_rbind)
      (use False ix in \<open>auto split: option.splits\<close>)
next
  case True
  then obtain returned where va: "validate_action g p v = Ok ()" and ad: "adjacent_duplicate (sort ids) = None"
    and tr: "traverse (\<lambda>i. ok_or (TileNotOwned i) (List.find (\<lambda>t. pt_id t = i) (g_racks g ! seat_index p))) (sort ids)
      = (Ok returned :: PhysicalTile list result)" by blast
  then have ix: "seat_index p < length (g_racks g)" using inv(1) by (simp add: validate_action_Ok table_ok_def)
  note t = inv(1)[unfolded table_ok_def]
  let ?kept = "filter (\<lambda>t. pt_id t \<notin> set (sort ids)) (g_racks g ! seat_index p)"
  obtain rest drawn where dr: "draw_up_to (g_bag g) (length returned) = (rest, drawn)" by force
  note ret = exchange_returned[OF inv(2) ix refl ad tr]
  have bag: "length (g_bag g) \<le> 102" "length (g_racks g ! seat_index p) \<le> 7"
    using table_ok_bag[OF inv] table_ok_rack[OF inv(1) ix] by auto
  have len: "length (?kept @ drawn) \<le> 7" "length rest + length returned \<le> 109"
    using draw_up_to_length[OF dr] ret bag by auto
  have rb: "sound True (return_tiles_to_bag E rest returned (g_seed g) w)" for w
    using return_tiles_outcome[of rest returned E "g_seed g" w] len(2) by (auto simp: sound_def)
  have bag': "length bag' \<le> 109" if "return_tiles_to_bag E rest returned (g_seed g) w = Ok bag'" for w bag'
  proof -
    have "size (mset bag') = size (mset rest + mset returned)" using return_tiles_mset[OF that] by simp
    then show ?thesis using len(2) by simp
  qed
  have c16: "sound True (count_u16 (length bag'))" if "return_tiles_to_bag E rest returned (g_seed g) w = Ok bag'" for w bag'
    using bag'[OF that] by (simp add: count_u16_def try_from_def)
  have scons: "return_tiles_to_bag E rest returned (g_seed g) w = Ok bag' \<Longrightarrow> gs_board st = gs_board (g_state g) \<Longrightarrow>
      sound True (conservation_check E (g_ruleset g) st bag' ((g_racks g)[seat_index p := ?kept @ drawn]))" for w bag' st
    by (simp only: exchange_keeps_tiles[OF inv ix ad tr dr _ refl] sound_Ok)
  have ixs: "index_at (g_racks g) (seat_index p) = (Ok (g_racks g ! seat_index p) :: Rack result)"
    using ix by (simp add: index_at_def)
  show ?thesis
    unfolding exchange_tiles_def Let_def va ad ixs option.case rbind.simps tr dr prod.case
    by (intro sound_rbind[OF rb] sound_rbind sound_case_prod sound_ensure sound_action sound_next_player[OF inv(1)]
        sound_ok_or sound_rack_counts c16 sound_count_u16 sound_complete_when racks_update_le len bag scons)
      (use t ix in auto)
qed

end
