(* ===== verification/Endgame.thy ===== *)
theory Endgame
  imports GameSafety
begin

text \<open>
  The end of a game: what \<^verbatim>\<open>unique_winner\<close> selects, how the final deductions move points,
  when a move ends the game, and what each projection reveals.
\<close>

section \<open>The unique winner\<close>

definition eligible :: "Score list \<Rightarrow> Seat option \<Rightarrow> Seat \<Rightarrow> bool" where
  "eligible scores excluded s \<longleftrightarrow> seat_index s < length scores \<and> Some s \<noteq> excluded"

definition strict_best :: "Score list \<Rightarrow> Seat option \<Rightarrow> Seat \<Rightarrow> bool" where
  "strict_best scores excluded s \<longleftrightarrow> eligible scores excluded s
     \<and> (\<forall>t. eligible scores excluded t \<and> t \<noteq> s \<longrightarrow> scores ! seat_index t < scores ! seat_index s)"

text \<open>What the loop knows after \<open>i\<close> scores.\<close>

definition best_so_far :: "Score list \<Rightarrow> Seat option \<Rightarrow> nat \<Rightarrow> (Seat \<times> Score) option \<Rightarrow> bool \<Rightarrow> bool" where
  "best_so_far scores excluded i best tied \<longleftrightarrow>
     (let seen = (\<lambda>t. eligible scores excluded t \<and> seat_index t < i) in
      case best of
        None \<Rightarrow> (\<forall>t. \<not> seen t)
      | Some (s, b) \<Rightarrow> seen s \<and> scores ! seat_index s = b \<and> (\<forall>t. seen t \<longrightarrow> scores ! seat_index t \<le> b)
          \<and> tied = (\<exists>t. seen t \<and> t \<noteq> s \<and> scores ! seat_index t = b))"

lemma best_so_far_step:
  assumes "best_so_far scores excluded i best tied" "i < length scores" "seat_index s = i"
  shows "Some s = excluded \<Longrightarrow> best_so_far scores excluded (Suc i) best tied"
    "Some s \<noteq> excluded \<Longrightarrow> best = None \<Longrightarrow> best_so_far scores excluded (Suc i) (Some (s, scores ! i)) False"
    "Some s \<noteq> excluded \<Longrightarrow> best = Some (s', b) \<Longrightarrow> b < scores ! i \<Longrightarrow>
       best_so_far scores excluded (Suc i) (Some (s, scores ! i)) False"
    "Some s \<noteq> excluded \<Longrightarrow> best = Some (s', b) \<Longrightarrow> b = scores ! i \<Longrightarrow>
       best_so_far scores excluded (Suc i) best True"
    "Some s \<noteq> excluded \<Longrightarrow> best = Some (s', b) \<Longrightarrow> scores ! i < b \<Longrightarrow>
       best_so_far scores excluded (Suc i) best tied"
proof -
  have suc: "eligible scores excluded t \<and> seat_index t < Suc i \<longleftrightarrow>
      eligible scores excluded t \<and> seat_index t < i \<or> t = s \<and> Some s \<noteq> excluded" for t
    using assms(2,3) seat_index_inj[of t s] by (auto simp: eligible_def less_Suc_eq)
  note d = best_so_far_def Let_def suc
  have ns: "\<not> (eligible scores excluded s \<and> seat_index s < i)" using assms(3) by simp
  show "Some s = excluded \<Longrightarrow> best_so_far scores excluded (Suc i) best tied"
    using assms(1) unfolding d by (auto split: option.splits)
  show "best_so_far scores excluded (Suc i) (Some (s, scores ! i)) False" if "Some s \<noteq> excluded" "best = None"
    using assms(1,3) that unfolding d by auto
  show "best_so_far scores excluded (Suc i) (Some (s, scores ! i)) False"
    if "Some s \<noteq> excluded" "best = Some (s', b)" "b < scores ! i"
    using assms(1,3) that unfolding d by fastforce
  show "best_so_far scores excluded (Suc i) best True"
    if "Some s \<noteq> excluded" "best = Some (s', b)" "b = scores ! i"
    using assms(1,3) that ns unfolding d by auto
  show "best_so_far scores excluded (Suc i) best tied"
    if "Some s \<noteq> excluded" "best = Some (s', b)" "scores ! i < b"
    using assms(1,3) that ns unfolding d by auto
qed

lemma winner_loop_spec:
  assumes "best_so_far scores excluded i best tied" "xs = drop i scores" "i \<le> length scores" "length scores \<le> 4"
  shows "winner_loop excluded i best tied xs = Some s \<longleftrightarrow> strict_best scores excluded s"
  using assms
proof (induction xs arbitrary: i best tied)
  case Nil
  then have all: "eligible scores excluded t \<and> seat_index t < i \<longleftrightarrow> eligible scores excluded t" for t
    by (auto simp: eligible_def)
  show ?case
  proof (cases best)
    case None
    then show ?thesis using Nil.prems(1) by (auto simp: best_so_far_def all strict_best_def)
  next
    case (Some sb)
    obtain t b where t: "sb = (t, b)" by force
    have k: "eligible scores excluded t" "scores ! seat_index t = b"
      "\<And>u. eligible scores excluded u \<Longrightarrow> scores ! seat_index u \<le> b"
      "tied \<longleftrightarrow> (\<exists>u. eligible scores excluded u \<and> u \<noteq> t \<and> scores ! seat_index u = b)"
      using Nil.prems(1) by (auto simp: best_so_far_def all Some t Let_def)
    have "strict_best scores excluded s \<longleftrightarrow> s = t \<and> \<not> tied"
    proof
      assume s: "strict_best scores excluded s"
      have "s = t"
      proof (rule ccontr)
        assume "s \<noteq> t"
        then have "scores ! seat_index t < scores ! seat_index s" using s k(1) by (auto simp: strict_best_def)
        then show False using k(2) k(3)[of s] s by (auto simp: strict_best_def)
      qed
      then show "s = t \<and> \<not> tied" using s k by (auto simp: strict_best_def)
    next
      assume "s = t \<and> \<not> tied"
      then show "strict_best scores excluded s" using k unfolding strict_best_def by (metis order_le_less)
    qed
    then show ?thesis by (auto simp: Some t)
  qed
next
  case (Cons x xs)
  have i: "i < length scores" using Cons.prems(2) by (metis drop_all list.distinct(1) not_le)
  then have i4: "i < 4" using Cons.prems(4) by simp
  have "x # xs = scores ! i # drop (Suc i) scores" using Cons.prems(2) Cons_nth_drop_Suc[OF i] by simp
  then have x: "x = scores ! i" "xs = drop (Suc i) scores" by simp_all
  define seat where "seat = SEAT_ALL ! i"
  have s: "list_get SEAT_ALL i = Some seat" "seat_index seat = i"
    using i4 seat_index_SEAT_ALL by (auto simp: list_get_def seat_def SEAT_ALL_def)
  note step = best_so_far_step[OF Cons.prems(1) i s(2)]
  have IH: "winner_loop excluded (Suc i) best' tied' xs = Some s \<longleftrightarrow> strict_best scores excluded s"
    if "best_so_far scores excluded (Suc i) best' tied'" for best' tied'
    by (rule Cons.IH[OF that x(2)]) (use i Cons.prems(4) in simp_all)
  show ?case
  proof (cases "Some seat = excluded")
    case True
    then show ?thesis using IH[OF step(1)[OF True]] by (simp add: s(1) flip: True)
  next
    case False
    show ?thesis
    proof (cases best)
      case None
      then show ?thesis using IH[OF step(2)[OF False None]] False by (simp add: s(1) x(1))
    next
      case (Some sb)
      obtain t b where b: "best = Some (t, b)" using Some by (cases sb) auto
      then show ?thesis
        using IH[OF step(3)[OF False b]] IH[OF step(4)[OF False b]] IH[OF step(5)[OF False b]] False
        by (cases "scores ! i" b rule: linorder_cases) (simp_all add: s(1) x(1))
    qed
  qed
qed

lemma unique_winner_spec:
  assumes "length scores \<le> 4"
  shows "unique_winner scores excluded = Some s \<longleftrightarrow> strict_best scores excluded s"
  unfolding unique_winner_def
  by (rule winner_loop_spec) (use assms in \<open>auto simp: best_so_far_def\<close>)

section \<open>Final deductions\<close>

definition rack_points :: "Ruleset \<Rightarrow> Rack \<Rightarrow> int" where
  "rack_points r rack = (\<Sum>t\<leftarrow>rack. int (face_value r (pt_face t)))"

lemma rack_value_Ok: "rack_value r rack = Ok v \<Longrightarrow> v = rack_points r rack"
proof -
  have "try_fold (\<lambda>total' t. ok_or ScoreOverflow (checked_add_signed 32 total' (int (face_value r (pt_face t))))) a rack = Ok v
      \<Longrightarrow> v = a + rack_points r rack" for a
  proof (induction rack arbitrary: a)
    case (Cons t rack)
    have "v = (a + int (face_value r (pt_face t))) + rack_points r rack"
      by (rule Cons.IH) (use Cons.prems in \<open>auto simp: rbind_Ok_iff checked_add_signed_def split: if_splits\<close>)
    then show ?case by (simp add: rack_points_def)
  qed (simp add: rack_points_def)
  from this[of 0] show "rack_value r rack = Ok v \<Longrightarrow> v = rack_points r rack" by (simp add: rack_value_def)
qed

lemma deduct_only_Ok:
  "deduct_only r racks scores s = Ok scores' \<Longrightarrow> seat_index s < length scores
     \<and> scores' = scores[seat_index s := scores ! seat_index s - rack_points r (racks ! seat_index s)]"
  by (auto simp: deduct_only_def rbind_Ok_iff score_checked_add_def checked_add_signed_def
      split: if_splits dest!: rack_value_Ok)

lemma deduct_Ok:
  "deduct r racks (scores, bonus) s = Ok (scores', bonus') \<Longrightarrow> seat_index s < length scores
     \<and> scores' = scores[seat_index s := scores ! seat_index s - rack_points r (racks ! seat_index s)]
     \<and> bonus' = bonus + rack_points r (racks ! seat_index s)"
  by (auto simp: deduct_def rbind_Ok_iff score_checked_add_def checked_add_signed_def
      split: if_splits dest!: rack_value_Ok)

lemma deduct_fold_sum:
  assumes "try_fold (deduct r racks) (scores, bonus) seats = Ok (scores', bonus')"
  shows "sum_list scores' + bonus' = sum_list scores + bonus \<and> length scores' = length scores"
  using assms
proof (induction seats arbitrary: scores bonus)
  case Nil
  then show ?case by simp
next
  case (Cons s seats)
  then obtain sc bo where d: "deduct r racks (scores, bonus) s = Ok (sc, bo)"
    "try_fold (deduct r racks) (sc, bo) seats = Ok (scores', bonus')" by (auto simp: rbind_Ok_iff)
  note k = deduct_Ok[OF d(1)]
  have "sum_list sc + bo = sum_list scores + bonus"
    using k sum_list_map_update[of "seat_index s" scores "\<lambda>x. x"] by simp
  then show ?case using Cons.IH[OF d(2)] k by simp
qed

lemma rack_emptied_zero_sum:
  assumes "final_scores r scores racks active (RackEmptied out) = Ok scores'"
  shows "sum_list scores' = sum_list scores"
proof -
  obtain sc bo where f: "try_fold (deduct r racks) (scores, 0) (filter (\<lambda>s. s \<noteq> out) active) = Ok (sc, bo)"
    and o: "seat_index out < length sc" "scores' = sc[seat_index out := sc ! seat_index out + bo]"
    using assms by (auto simp: final_scores_def rbind_Ok_iff score_checked_add_def checked_add_signed_def split: if_splits)
  show ?thesis
    using deduct_fold_sum[OF f] o sum_list_map_update[of "seat_index out" sc "\<lambda>x. x"] by simp
qed

lemma deduct_only_fold:
  assumes "try_fold (deduct_only r racks) scores seats = Ok scores'" "distinct seats" "i < length scores"
  shows "scores' ! i = (if i \<in> seat_index ` set seats then scores ! i - rack_points r (racks ! i) else scores ! i)"
  using assms
proof (induction seats arbitrary: scores)
  case Nil
  then show ?case by simp
next
  case (Cons s seats)
  then obtain sc where d: "deduct_only r racks scores s = Ok sc" "try_fold (deduct_only r racks) sc seats = Ok scores'"
    by (auto simp: rbind_Ok_iff)
  note k = deduct_only_Ok[OF d(1)]
  have "scores' ! i = (if i \<in> seat_index ` set seats then sc ! i - rack_points r (racks ! i) else sc ! i)"
    by (rule Cons.IH[OF d(2)]) (use Cons.prems k in auto)
  moreover have "seat_index s \<notin> seat_index ` set seats" using Cons.prems(2) by auto
  ultimately show ?case using k by (auto simp: nth_list_update)
qed

lemma scoreless_scores:
  assumes "final_scores r scores racks active ScorelessTurns = Ok scores'"
    "seat_active (length racks) = Some active" "length scores = length racks" "i < length racks"
  shows "scores' ! i = scores ! i - rack_points r (racks ! i)"
proof -
  have "i < 4" using assms(2,4) by (auto simp: seat_active_Some_iff)
  then have "i \<in> seat_index ` set active"
    using seat_active_mem[OF assms(2)] seat_index_SEAT_ALL[of i] assms(4) by (metis imageI)
  then show ?thesis
    using deduct_only_fold[OF _ seat_active_distinct[OF assms(2)], of r racks scores scores' i] assms
    by (simp add: final_scores_def)
qed

section \<open>Projections\<close>

text \<open>Two games that differ only in other seats' racks, the bag, the seed and other seats' transitions.\<close>

definition same_for_seat :: "Seat \<Rightarrow> Game \<Rightarrow> Game \<Rightarrow> bool" where
  "same_for_seat seat g h \<longleftrightarrow> g_state g = g_state h \<and> g_events g = g_events h
     \<and> seat_index seat < length (g_racks g) \<and> seat_index seat < length (g_racks h)
     \<and> g_racks g ! seat_index seat = g_racks h ! seat_index seat
     \<and> filter (\<lambda>e. pe_seat e = seat) (g_private_events g) = filter (\<lambda>e. pe_seat e = seat) (g_private_events h)"

lemma seat_projection_eq:
  "same_for_seat seat g h \<Longrightarrow> seat_projection g seat = seat_projection h seat"
  by (simp add: same_for_seat_def seat_projection_def public_projection_def private_events_def index_at_def)

end
