(* ===== verification/ReplaySound.thy ===== *)
theory ReplaySound
  imports Endgame
begin

text \<open>
  The converse of the round trips of \<^verbatim>\<open>Replay\<close>: a journal that is accepted is the journal of
  a reachable game. Whatever a replay, a public replay or a resumption returns was created by
  \<^verbatim>\<open>create_with_mode_and_players\<close> and reached by legal moves, and its events are the events of
  the bundle.
\<close>

section \<open>An accepted event is a move\<close>

lemma step_last_event:
  assumes "game_step E g ev g'" "list_last (g_events g') = Some e"
  shows "game_step E g e g'"
  using assms game_step_log[OF assms(1)] by (simp add: log_step_def)

definition reapplied :: "env \<Rightarrow> Game \<Rightarrow> GameEvent \<Rightarrow> (Game \<times> GameEvent) result" where
  "reapplied E g e = (case ge_kind e of
       Created _ _ _ _ _ _ _ \<Rightarrow> Err (InvalidReplayEvent (ge_sequence e) ''creation may occur only once'')
     | MovePlayed player placements _ _ _ _ _ _ _ _ _ _ \<Rightarrow> play_tiles E g player (gs_version (g_state g)) placements
     | Passed player _ _ _ \<Rightarrow> pass g player (gs_version (g_state g))
     | Exchanged player tile_ids _ _ _ _ _ \<Rightarrow> exchange_tiles E g player (gs_version (g_state g)) tile_ids
     | Resigned player _ \<Rightarrow> resign g player (gs_version (g_state g)))"

lemma reapplied_step: "reapplied E g e = Ok (g', ev) \<Longrightarrow> game_step E g ev g'"
  unfolding reapplied_def by (cases "ge_kind e") (simp_all add: game_step.intros)

lemma replay_public_event_Ok:
  assumes "replay_public_event E l g e = Ok g'"
  shows "game_step E g e g'"
proof -
  have "rbind (reapplied E g e) (\<lambda>(g1, _). if list_last (g_events g1) \<noteq> Some e
      then Err (ReplayEventMismatch (ge_sequence e)) else Ok g1) = Ok g'"
    using assms unfolding replay_public_event_def reapplied_def by (simp split: if_splits)
  then obtain ev where "reapplied E g e = Ok (g', ev)" "list_last (g_events g') = Some e"
    by (auto elim!: rbind_OkE case_prod_OkE split: if_splits)
  then show ?thesis using reapplied_step step_last_event by blast
qed

lemma replay_event_split:
  assumes "replay_event E b g e = Ok g'"
  obtains ev where "reapplied E g e = Ok (g', ev)" "list_last (g_events g') = Some e"
    "(\<exists>p a1 a2 a3. ge_kind e = Passed p a1 a2 a3) \<or> (\<exists>p a1. ge_kind e = Resigned p a1)
      \<or> (\<exists>pe. list_last (g_private_events g') = Some pe \<and> pe \<in> set (rb_private_events b))"
  using assms
  by (cases "ge_kind e")
    (auto simp: replay_event_def reapplied_def ensure_Ok_iff elim!: rbind_OkE case_prod_OkE split: if_splits dest!: find_Some_mem)

lemma pass_resign_private:
  "pass g p v = Ok (g', ev) \<Longrightarrow> g_private_events g' = g_private_events g"
  "resign g p v = Ok (g', ev) \<Longrightarrow> g_private_events g' = g_private_events g"
  by (erule pass_shape, simp) (erule resign_shape, simp)

lemma replay_event_Ok:
  assumes "replay_event E b g e = Ok g'"
  shows "game_step E g e g'"
    and "set (g_private_events g') \<subseteq> set (g_private_events g) \<union> set (rb_private_events b)"
proof -
  obtain ev where r: "reapplied E g e = Ok (g', ev)" and last: "list_last (g_events g') = Some e"
    and priv: "(\<exists>p a1 a2 a3. ge_kind e = Passed p a1 a2 a3) \<or> (\<exists>p a1. ge_kind e = Resigned p a1)
      \<or> (\<exists>pe. list_last (g_private_events g') = Some pe \<and> pe \<in> set (rb_private_events b))"
    using assms by (rule replay_event_split)
  note s = reapplied_step[OF r]
  show "game_step E g e g'" using step_last_event[OF s last] .
  have "g_private_events g' = g_private_events g
      \<or> (\<exists>pe. list_last (g_private_events g') = Some pe \<and> pe \<in> set (rb_private_events b))"
    using priv r pass_resign_private by (auto simp: reapplied_def)
  then show "set (g_private_events g') \<subseteq> set (g_private_events g) \<union> set (rb_private_events b)"
    using game_step_log[OF s] by (auto simp: log_step_def)
qed

section \<open>An accepted journal is a run\<close>

lemma begin_replay_Ok:
  assumes "begin_replay E b lexicon = Ok g"
  shows "\<exists>gid mode n. create_with_mode_and_players E gid (rb_ruleset b) lexicon (rb_seed_reveal b) mode n = Ok g"
    and "rb_events b = g_events g @ drop 1 (rb_events b)"
    and "rb_ruleset_identity b = ruleset_identity E (rb_ruleset b)" and "rb_lexicon b = gs_lexicon (g_state g)"
    and "rb_rng_algorithm b = gs_rng_algorithm (g_state g)"
proof -
  obtain l c gid mode k al com counts bc where l: "lexicon = Some l" "rb_lexicon b = wv_identity l"
    and c: "list_get (rb_events b) 0 = Some c" "ge_kind c = Created gid k mode al com counts bc" "al = rb_rng_algorithm b"
    and cr: "create_with_mode_and_players E gid (rb_ruleset b) (Some l) (rb_seed_reveal b) mode (length counts) = Ok g"
    and f: "index_at (g_events g) 0 = (Ok c :: GameEvent result)"
    and id: "rb_ruleset_identity b = ruleset_identity E (rb_ruleset b)"
    using assms unfolding begin_replay_def
    by (auto elim!: rbind_OkE simp: ensure_Ok_iff ensure_exact_pack_def split: GameEventKind.splits if_splits)
  show "\<exists>gid mode n. create_with_mode_and_players E gid (rb_ruleset b) lexicon (rb_seed_reveal b) mode n = Ok g"
    using cr l by blast
  show "rb_ruleset_identity b = ruleset_identity E (rb_ruleset b)" by (rule id)
  obtain cs bc' where e: "g_events g = [\<lparr>ge_sequence = 0, ge_visibility = Public, ge_lexicon = wv_identity (g_lexicon g),
      ge_kind = Created gid (rb_ruleset b) mode Xoshiro256StarStarV1
        (commitment E (rb_seed_reveal b) Xoshiro256StarStarV1) cs bc'\<rparr>]" using create_event(1)[OF cr] by blast
  then have "g_events g = [c]" using f by (simp add: index_at_def)
  then show "rb_events b = g_events g @ drop 1 (rb_events b)"
    using c(1) by (cases "rb_events b") (auto simp: list_get_def)
  have "ident_ok E g" using create_inv[OF cr] by (simp add: game_inv_def)
  moreover have "wv_identity (g_lexicon g) = wv_identity l" using create_event(2)[OF cr] by simp
  ultimately show "rb_lexicon b = gs_lexicon (g_state g)" "rb_rng_algorithm b = gs_rng_algorithm (g_state g)"
    using l(2) c e f by (auto simp: ident_ok_def index_at_def)
qed

lemma fold_steps:
  assumes "try_fold f g es = Ok g'" "reachable E g" "\<And>g e g'. f g e = Ok g' \<Longrightarrow> game_step E g e g'"
  shows "reachable E g' \<and> g_events g' = g_events g @ es \<and> same_table g g'"
  using assms(1,2)
proof (induction es arbitrary: g)
  case Nil
  then show ?case by (simp add: same_table_def)
next
  case (Cons e es)
  then obtain g1 where g1: "f g e = Ok g1" "try_fold f g1 es = Ok g'" by (auto elim!: rbind_OkE)
  note s = assms(3)[OF g1(1)]
  have "same_table g g1" using s by (auto simp: same_table_def log_step_def dest!: game_step_log)
  then show ?case
    using Cons.IH[OF g1(2) reach_step[OF Cons.prems(2) s]] game_step_log[OF s]
    by (auto simp: log_step_def same_table_def)
qed

lemma replay_private_subset:
  assumes "try_fold (replay_event E b) g es = Ok g'" "set (g_private_events g) \<subseteq> set (rb_private_events b)"
  shows "set (g_private_events g') \<subseteq> set (rb_private_events b)"
  using assms(1) by (rule try_fold_invariant) (use assms(2) replay_event_Ok(2) in blast)+

lemma mset_eq_of_subset_length:
  assumes "distinct xs" "set xs \<subseteq> set ys" "length xs = length ys"
  shows "mset xs = mset ys"
  using assms by (metis List.finite_set card_distinct card_length card_subset_eq distinct_card le_antisym
      card_mono set_eq_iff_mset_eq_distinct)

lemma replay_sound:
  assumes "replay E b lexicon = Ok g"
  shows "reachable E g" and "rb_events b = g_events g" and "mset (rb_private_events b) = mset (g_private_events g)"
    and "lexicon = Some (g_lexicon g)"
    and "b = (journal_bundle E g)\<lparr>rb_private_events := rb_private_events b\<rparr>"
proof -
  obtain g0 where b: "begin_replay E b lexicon = Ok g0" and f: "try_fold (replay_event E b) g0 (drop 1 (rb_events b)) = Ok g"
    and len: "length (g_private_events g) = length (rb_private_events b)" and sv: "rb_schema_version b = REPLAY_SCHEMA_VERSION"
    using assms by (auto simp: replay_def elim!: rbind_OkE split: if_splits)
  obtain gid mode n where c: "create_with_mode_and_players E gid (rb_ruleset b) lexicon (rb_seed_reveal b) mode n = Ok g0"
    using begin_replay_Ok(1)[OF b] by blast
  have st: "reachable E g \<and> g_events g = g_events g0 @ drop 1 (rb_events b) \<and> same_table g0 g"
    by (rule fold_steps[OF f reach_create[OF c] replay_event_Ok(1)])
  show r: "reachable E g" and ev: "rb_events b = g_events g" using st begin_replay_Ok(2)[OF b] by simp_all
  show "lexicon = Some (g_lexicon g)" using create_event(2)[OF c] st by (simp add: same_table_def)
  have "sorted_wrt (<) (map pe_sequence (g_private_events g))"
    using reachable_inv[OF r] by (simp add: game_inv_def log_ok_def)
  then have "distinct (g_private_events g)" by (simp add: strict_sorted_iff distinct_map)
  moreover have "set (g_private_events g) \<subseteq> set (rb_private_events b)"
    by (rule replay_private_subset[OF f]) (simp add: create_event(5)[OF c])
  ultimately show "mset (rb_private_events b) = mset (g_private_events g)"
    using len mset_eq_of_subset_length by metis
  have "same_table g0 g" using st by blast
  then show "b = (journal_bundle E g)\<lparr>rb_private_events := rb_private_events b\<rparr>"
    using ev sv begin_replay_Ok(3-5)[OF b] create_event(3,4)[OF c]
    by (auto simp: same_table_def journal_bundle_def intro!: ReplayBundle.equality)
qed

lemma replay_public_sound:
  assumes "replay_public E b lexicon = Ok g"
  shows "reachable E g" and "lexicon = Some (g_lexicon g)" and "b = public_bundle (journal_bundle E g)"
proof -
  let ?b = "\<lparr>rb_schema_version = REPLAY_SCHEMA_VERSION, rb_ruleset_identity = pb_ruleset_identity b,
    rb_ruleset = pb_ruleset b, rb_lexicon = pb_lexicon b, rb_rng_algorithm = pb_rng_algorithm b,
    rb_seed_reveal = pb_seed_reveal b, rb_events = pb_events b, rb_private_events = []\<rparr>"
  obtain g0 where b: "begin_replay E ?b lexicon = Ok g0" and sv: "pb_schema_version b = PUBLIC_REPLAY_SCHEMA_VERSION"
    and f: "try_fold (replay_public_event E (pb_lexicon b)) g0 (drop 1 (pb_events b)) = Ok g"
    using assms by (auto simp: replay_public_def Let_def elim!: rbind_OkE split: if_splits)
  obtain gid mode n where c: "create_with_mode_and_players E gid (pb_ruleset b) lexicon (pb_seed_reveal b) mode n = Ok g0"
    using begin_replay_Ok(1)[OF b] by auto
  have st: "reachable E g \<and> g_events g = g_events g0 @ drop 1 (pb_events b) \<and> same_table g0 g"
    by (rule fold_steps[OF f reach_create[OF c] replay_public_event_Ok])
  then show "reachable E g" by simp
  show "lexicon = Some (g_lexicon g)" using create_event(2)[OF c] st by (simp add: same_table_def)
  have "same_table g0 g" "pb_events b = g_events g" using st begin_replay_Ok(2)[OF b] by auto
  then show "b = public_bundle (journal_bundle E g)"
    using sv begin_replay_Ok(3-5)[OF b] create_event(3,4)[OF c]
    by (auto simp: same_table_def journal_bundle_def public_bundle_def intro!: PublicReplayBundle.equality)
qed

lemma resume_sound:
  assumes "resume E s r lexicon = Ok g"
  shows "reachable E g" and "lexicon = Some (g_lexicon g)" and "r = g_ruleset g" and "s = snapshot E g"
proof -
  let ?b = "\<lparr>rb_schema_version = REPLAY_SCHEMA_VERSION, rb_ruleset_identity = ruleset_identity E r, rb_ruleset = r,
     rb_lexicon = gs_lexicon (sn_state s), rb_rng_algorithm = sn_rng_algorithm s,
     rb_seed_reveal = sn_seed s, rb_events = sn_events s, rb_private_events = sn_private_events s\<rparr>"
  have b: "replay E ?b lexicon = Ok g" and sv: "sn_schema_version s = SNAPSHOT_SCHEMA_VERSION"
    and id: "sn_ruleset s = ruleset_identity E r"
    and eq: "sn_state s = g_state g" "sn_bag s = g_bag g" "sn_racks s = g_racks g"
      "sn_events s = g_events g" "sn_private_events s = g_private_events g" "sn_rng_algorithm s = gs_rng_algorithm (g_state g)"
    using assms by (auto simp: resume_def Let_def elim!: rbind_OkE split: if_splits)
  show "reachable E g" "lexicon = Some (g_lexicon g)" using replay_sound(1,4)[OF b] by auto
  have "?b = (journal_bundle E g)\<lparr>rb_private_events := sn_private_events s\<rparr>" using replay_sound(5)[OF b] by simp
  then show "r = g_ruleset g" and "s = snapshot E g"
    using sv id eq by (auto simp: journal_bundle_def snapshot_def intro!: GameSnapshot.equality)
qed

end
