(* ===== verification/Progress.thy ===== *)
theory Progress
  imports ReplaySound
begin

text \<open>
  How a game advances: a placed tile stays where it is, the turn passes to the next seat, and
  every game is over after a bounded number of moves, because six scoreless turns in a row end
  it and a scoring move puts at least one of the ruleset's tiles on the board for good.
\<close>

section \<open>The board only grows\<close>

definition placed :: "Game \<Rightarrow> nat" where
  "placed g = length (board_tiles (gs_board (g_state g)))"

lemma tiles_total:
  assumes "tiles_ok E g"
  shows "length (g_bag g) + length (concat (g_racks g)) + placed g = length (expected_tiles (g_ruleset g))"
proof -
  obtain B where B: "physical_board E (g_state g) (g_ruleset g) = Ok B"
    "mset (g_bag g @ concat (g_racks g) @ B) = mset (expected_tiles (g_ruleset g))"
    using assms by (auto simp: tiles_ok_iff)
  have "length B = placed g" using traverse_Ok_length[OF B(1)[unfolded physical_board_def]] by (simp add: placed_def)
  then show ?thesis using arg_cong[OF B(2), of size] by simp
qed

lemma placed_bound:
  assumes "game_inv E g"
  shows "placed g \<le> 102"
proof -
  obtain i where "g_ruleset g = the_builtin i" using assms table_ok_builtin by (auto simp: game_inv_def)
  then have "length (expected_tiles (g_ruleset g)) \<le> 102"
    by (simp add: expected_tiles_def expected_faces_builtin total_tiles_builtin split: RulesetId.splits)
  moreover have "tiles_ok E g" using assms by (simp add: game_inv_def)
  ultimately show ?thesis using tiles_total[of E g] by simp
qed

lemma prepared_nonempty:
  assumes "seat_index p < length (g_racks g)" "prepare_placement E g p ps = Ok pr"
  shows "pr_placements pr \<noteq> []"
proof -
  obtain qs o' where q: "ps \<noteq> []" "list_all2 (placeable E g (g_racks g ! seat_index p)) ps qs"
    "finish_placement E g (g_racks g ! seat_index p) o' (sort_placements o' qs) = Ok pr"
    using assms(2) unfolding prepare_placement_Ok[OF assms(1)] by blast
  have "length (pr_placements pr) = length ps"
    using finish_placement_fields(1)[OF q(3)] list_all2_lengthD[OF q(2)] by (simp add: sort_placements_def)
  then show ?thesis using q(1) by auto
qed

lemma prepared_free:
  assumes inv: "table_ok g" and uni: "unicode_ok E" and ix: "seat_index p < length (g_racks g)"
    and pr: "prepare_placement E g p ps = Ok pr" and q: "q \<in> set (pr_placements pr)"
  shows "in_bounds (pl_coordinate q) BOARD_SIZE BOARD_SIZE
    \<and> gs_board (g_state g) ! coord_index (pl_coordinate q) BOARD_SIZE = None"
  using prepared_facts(2)[OF ix pr uni q] inv tile_at_None by (auto simp: placeable_def table_ok_def)

lemma play_places:
  assumes "game_inv E g" "unicode_ok E" "play_tiles E g p v ps = Ok (g', ev)"
  shows "placed g < placed g'"
proof -
  have t: "table_ok g" using assms(1) by (simp add: game_inv_def)
  from assms(3) show ?thesis
  proof (rule play_shape, goal_cases)
    case (1 prepared score upd ver sl rack retained refill bag' drawn racks' board' scores' q counts bag_count
        after draw_count st0 res st u)
    note pr = 1(4) and ix = 1(10) and put = 1(16) and st0 = 1(23) and cw = 1(25) and g' = 1(27)
    obtain b2 where "try_fold put_tile (gs_board (g_state g)) (pr_placements prepared) = Ok b2"
      "mset (board_tiles b2) = mset (board_tiles (gs_board (g_state g))) + mset (map board_tile_of (pr_placements prepared))"
      using put_tiles_Ok[of "gs_board (g_state g)" "pr_placements prepared"] prepared_facts(1)[OF ix pr assms(2)]
        prepared_free[OF t assms(2) ix pr] t by (auto simp: table_ok_def)
    then have "mset (board_tiles board') = mset (board_tiles (gs_board (g_state g))) + mset (map board_tile_of (pr_placements prepared))"
      using put by simp
    then have "length (board_tiles board') = placed g + length (pr_placements prepared)"
      unfolding placed_def by (metis length_map size_mset size_union)
    moreover have "gs_board st = board'" using complete_when_frame(9)[OF cw] st0 by simp
    ultimately show ?case using prepared_nonempty[OF ix pr] g' by (simp add: placed_def)
  qed
qed

text \<open>A tile on the board stays on its square, with its letter, through every move.\<close>

lemma put_tiles_elsewhere:
  assumes "try_fold put_tile board ps = Ok board'"
    "\<And>p. p \<in> set ps \<Longrightarrow> coord_index (pl_coordinate p) BOARD_SIZE \<noteq> i"
  shows "board' ! i = board ! i"
  using assms(1) by (rule try_fold_invariant) (use assms(2) in \<open>auto simp: put_tile_def store_at_Ok_iff\<close>)

lemma step_keeps_tiles:
  assumes "game_inv E g" "unicode_ok E" "game_step E g ev g'" "gs_board (g_state g) ! i = Some t"
  shows "gs_board (g_state g') ! i = Some t"
  using assms(3)
proof (rule game_stepE)
  fix p v ps assume "play_tiles E g p v ps = Ok (g', ev)"
  then show ?thesis
  proof (rule play_shape, goal_cases)
    case (1 prepared score upd ver sl rack retained refill bag' drawn racks' board' scores' q counts bag_count
        after draw_count st0 res st u)
    note pr = 1(4) and ix = 1(10) and put = 1(16) and st0 = 1(23) and cw = 1(25) and g' = 1(27)
    have "table_ok g" using assms(1) by (simp add: game_inv_def)
    then have "board' ! i = gs_board (g_state g) ! i"
      using assms(4) prepared_free[OF _ assms(2) ix pr] by (intro put_tiles_elsewhere[OF put]) force
    moreover have "gs_board st = board'" using complete_when_frame(9)[OF cw] st0 by simp
    ultimately show ?case using assms(4) g' by simp
  qed
next
  fix p v assume "pass g p v = Ok (g', ev)"
  then show ?thesis by (rule pass_shape) (use assms(4) in \<open>simp add: complete_when_frame\<close>)
next
  fix p v ids assume "exchange_tiles E g p v ids = Ok (g', ev)"
  then show ?thesis by (rule exchange_shape) (use assms(4) in \<open>simp add: complete_when_frame\<close>)
next
  fix p v assume "resign g p v = Ok (g', ev)"
  then show ?thesis
    by (rule resign_shape) (use assms(4) in \<open>auto dest!: complete_state_Ok(1)\<close>)
qed

section \<open>Every game ends\<close>

definition length_ok :: "Game \<Rightarrow> bool" where
  "length_ok g \<longleftrightarrow> gs_version (g_state g) \<le> 6 * placed g + gs_scoreless_turns (g_state g)
     + (if gs_phase (g_state g) = Finished then 1 else 0) \<and> gs_scoreless_turns (g_state g) \<le> 6"

lemma active_scoreless:
  assumes "game_inv E g" "gs_phase (g_state g) = Active"
  shows "gs_scoreless_turns (g_state g) \<le> 5"
proof -
  obtain i where "g_ruleset g = the_builtin i" using assms table_ok_builtin by (auto simp: game_inv_def)
  then show ?thesis using assms by (auto simp: game_inv_def end_ok_def)
qed

lemma next_scoreless_Ok: "next_scoreless n s = Ok m \<Longrightarrow> m = (if s = 0 then Suc n else 0)"
  by (auto simp: next_scoreless_def checked_add_def split: if_splits)

lemma step_length_ok:
  assumes "game_inv E g" "unicode_ok E" "game_step E g ev g'" "length_ok g"
  shows "length_ok g'"
  using assms(3)
proof (rule game_stepE)
  fix p v ps assume play: "play_tiles E g p v ps = Ok (g', ev)"
  note more = play_places[OF assms(1,2) play]
  from play show ?thesis
    by (rule play_shape)
      (use more assms(4) active_scoreless[OF assms(1)] in
        \<open>auto simp: length_ok_def complete_when_frame dest!: next_scoreless_Ok split: if_splits\<close>)
next
  fix p v assume "pass g p v = Ok (g', ev)"
  then show ?thesis by (rule pass_shape)
    (use assms(4) active_scoreless[OF assms(1)] in \<open>auto simp: length_ok_def placed_def complete_when_frame split: if_splits\<close>)
next
  fix p v ids assume "exchange_tiles E g p v ids = Ok (g', ev)"
  then show ?thesis by (rule exchange_shape)
    (use assms(4) active_scoreless[OF assms(1)] in \<open>auto simp: length_ok_def placed_def complete_when_frame split: if_splits\<close>)
next
  fix p v assume "resign g p v = Ok (g', ev)"
  then show ?thesis by (rule resign_shape)
    (use assms(4) in \<open>auto simp: length_ok_def placed_def split: if_splits dest!: complete_state_Ok(1)\<close>)
qed

lemma reachable_length_ok:
  assumes "reachable E g" "unicode_ok E"
  shows "length_ok g"
  using assms
proof (induction rule: reachable.induct)
  case (reach_create gid r lexicon seed mode n g)
  then have "gs_version (g_state g) = 0" "gs_scoreless_turns (g_state g) = 0"
    by (auto simp: create_with_mode_and_players_def rbind_Ok_iff Let_def)
  then show ?case by (simp add: length_ok_def)
next
  case (reach_step g ev g')
  then show ?case using step_length_ok reachable_inv by blast
qed

section \<open>Turns rotate\<close>

lemma next_player_rotates:
  assumes "next_player g p = Ok q"
  shows "seat_index q = Suc (seat_index p) mod length (g_racks g)"
  using assms by (auto simp: next_player_def dest!: seat_next_index)

lemma step_rotates:
  assumes "game_step E g ev g'"
  shows "seat_index (gs_current_player (g_state g')) =
      Suc (seat_index (gs_current_player (g_state g))) mod length (g_racks g)
    \<or> (\<exists>p r. ge_kind ev = Resigned p r)"
  using assms
proof (rule game_stepE)
  fix p v ps assume "play_tiles E g p v ps = Ok (g', ev)"
  then show ?thesis by (rule play_shape) (auto simp: complete_when_frame dest: next_player_rotates)
next
  fix p v assume "pass g p v = Ok (g', ev)"
  then show ?thesis by (rule pass_shape) (auto simp: complete_when_frame dest: next_player_rotates)
next
  fix p v ids assume "exchange_tiles E g p v ids = Ok (g', ev)"
  then show ?thesis by (rule exchange_shape) (auto simp: complete_when_frame dest: next_player_rotates)
next
  fix p v assume "resign g p v = Ok (g', ev)"
  then show ?thesis by (rule resign_shape) auto
qed

section \<open>What ends a game\<close>

definition rack_out :: "Game \<Rightarrow> GameEvent \<Rightarrow> bool" where
  "rack_out g ev \<longleftrightarrow> (case ge_kind ev of
       MovePlayed p _ _ _ _ _ _ _ _ _ _ _ \<Rightarrow> g_bag g = [] \<and> g_racks g ! seat_index p = []
     | _ \<Rightarrow> False)"

definition resigns :: "GameEvent \<Rightarrow> bool" where
  "resigns ev \<longleftrightarrow> (case ge_kind ev of Resigned _ _ \<Rightarrow> True | _ \<Rightarrow> False)"

lemma step_finishes:
  assumes "game_inv E g" "game_step E g ev g'"
  shows "gs_phase (g_state g') = Finished \<longleftrightarrow>
    resigns ev \<or> rack_out g' ev \<or> gs_scoreless_turns (g_state g') = 6"
proof -
  obtain i where i: "g_ruleset g = the_builtin i" using assms(1) table_ok_builtin by (auto simp: game_inv_def)
  have lim: "gr_scoreless_turn_limit (rs_game (g_ruleset g)) = 6" by (simp add: i)
  have none: "gs_result (g_state g) = None" if "gs_phase (g_state g) = Active"
    using assms(1) that by (simp add: game_inv_def end_ok_def)
  have le: "gs_scoreless_turns (g_state g) \<le> 5" if "gs_phase (g_state g) = Active"
    using active_scoreless[OF assms(1) that] .
  note act = complete_when_end(1,2,3) complete_when_frame(13)
  from assms(2) show ?thesis
  proof (rule game_stepE)
    fix p v ps assume "play_tiles E g p v ps = Ok (g', ev)"
    then show ?thesis
    proof (rule play_shape, goal_cases)
      case (1 prepared score upd ver sl rack retained refill bag' drawn racks' board' scores' q counts bag_count
        after draw_count st0 res st u)
      have a: "gs_phase st0 = Active" "gs_result st0 = None" using 1(1,23) none by simp_all
      have "gs_scoreless_turns st \<le> 6"
        using complete_when_frame(13)[OF 1(25)] 1(9,23) le[OF 1(1)] by (auto dest!: next_scoreless_Ok)
      then show ?case
        using act(1,2,3)[OF 1(25) a] complete_when_frame(13)[OF 1(25)] 1(21,26,27) lim
        by (auto simp: rack_out_def resigns_def)
    qed
  next
    fix p v assume "pass g p v = Ok (g', ev)"
    then show ?thesis
    proof (rule pass_shape, goal_cases)
      case (1 ver q sl st0 res st)
      have a: "gs_phase st0 = Active" "gs_result st0 = None" using 1(1,7) none by simp_all
      show ?case using act(1,2,3)[OF 1(8) a] complete_when_frame(13)[OF 1(8)] 1(6,7,9,10) lim le[OF 1(1)]
        by (auto simp: rack_out_def resigns_def)
    qed
  next
    fix p v ids assume "exchange_tiles E g p v ids = Ok (g', ev)"
    then show ?thesis
    proof (rule exchange_shape, goal_cases)
      case (1 rack returned ver rest drawn racks' bag' q sl counts bag_count after st0 res st u)
      have a: "gs_phase st0 = Active" "gs_result st0 = None" using 1(1,18) none by simp_all
      show ?case using act(1,2,3)[OF 1(20) a] complete_when_frame(13)[OF 1(20)] 1(14,18,21,22) lim le[OF 1(1)]
        by (auto simp: rack_out_def resigns_def)
    qed
  next
    fix p v assume "resign g p v = Ok (g', ev)"
    then show ?thesis by (rule resign_shape) (auto simp: resigns_def dest!: complete_state_Ok(1))
  qed
qed

end
