(* ===== verification/WordRuns.thy ===== *)
theory WordRuns
  imports WordScan
begin

text \<open>
  The words a move forms, stated on the board alone: the maximal runs of at least two occupied squares of a
  row or a column that contain a newly placed tile. \<open>word_segment\<close> returns the run through its origin, and a
  maximal run is determined by any of its squares.
\<close>

section \<open>Maximal runs\<close>

text \<open>The squares \<open>line i\<close> to \<open>line j\<close> of a row or column, all occupied, with no occupied square before or after.\<close>

definition maximal_run :: "(Coordinate \<Rightarrow> bool) \<Rightarrow> (nat \<Rightarrow> Coordinate) \<Rightarrow> nat \<Rightarrow> nat \<Rightarrow> bool" where
  "maximal_run occ line i j \<longleftrightarrow> i \<le> j \<and> j < BOARD_SIZE \<and> (\<forall>k \<in> {i..j}. occ (line k))
     \<and> (i = 0 \<or> \<not> occ (line (i - 1))) \<and> (j + 1 = BOARD_SIZE \<or> \<not> occ (line (j + 1)))"

abbreviation (input) board_row :: "nat \<Rightarrow> nat \<Rightarrow> Coordinate" where "board_row r \<equiv> \<lambda>k. Coordinate r k"
abbreviation (input) board_column :: "nat \<Rightarrow> nat \<Rightarrow> Coordinate" where "board_column c \<equiv> \<lambda>k. Coordinate k c"

definition formed_word :: "PublicGameState \<Rightarrow> Placement list \<Rightarrow> Coordinate list \<Rightarrow> bool" where
  "formed_word s ps cs \<longleftrightarrow> (\<exists>n line i j. n < BOARD_SIZE \<and> (line = board_row n \<or> line = board_column n)
     \<and> maximal_run (\<lambda>c. tile_with_proposed s ps c \<noteq> None) line i j \<and> i < j \<and> cs = map line [i..<Suc j]
     \<and> (\<exists>p \<in> set ps. pl_coordinate p \<in> set cs))"

lemma formed_word_occupied: "formed_word s ps cs \<Longrightarrow> c \<in> set cs \<Longrightarrow> tile_with_proposed s ps c \<noteq> None"
  by (auto simp: formed_word_def maximal_run_def less_Suc_eq_le simp del: upt_Suc)

lemma formed_word_length: "formed_word s ps cs \<Longrightarrow> 2 \<le> length cs"
  by (auto simp: formed_word_def simp del: upt_Suc)

lemma maximal_run_reaches:
  assumes r: "maximal_run occ line i j" and k: "i \<le> k" "k \<le> j" and m: "m < BOARD_SIZE"
    and between: "\<And>l. min k m \<le> l \<Longrightarrow> l \<le> max k m \<Longrightarrow> occ (line l)"
  shows "i \<le> m \<and> m \<le> j"
proof (rule ccontr)
  assume "\<not> (i \<le> m \<and> m \<le> j)"
  then consider "m < i" | "j < m" by linarith
  then show False
  proof cases
    case 1
    then have "occ (line (i - 1))" using between[of "i - 1"] k by auto
    then show False using r 1 by (auto simp: maximal_run_def)
  next
    case 2
    then have "occ (line (j + 1))" using between[of "j + 1"] k by auto
    then show False using r 2 m by (auto simp: maximal_run_def)
  qed
qed

lemma maximal_run_unique:
  assumes "maximal_run occ line i j" "maximal_run occ line i' j'" "i \<le> k" "k \<le> j" "i' \<le> k" "k \<le> j'"
  shows "i' = i" "j' = j"
proof -
  have sub: "c \<le> a \<and> b \<le> d" if "maximal_run occ line a b" "maximal_run occ line c d" "a \<le> k" "k \<le> b" "c \<le> k" "k \<le> d" for a b c d
    using maximal_run_reaches[OF that(2,5,6), of a] maximal_run_reaches[OF that(2,5,6), of b] that(1,3,4)
    by (auto simp: maximal_run_def min_def max_def split: if_splits)
  show "i' = i" "j' = j" using sub[OF assms(1,2)] sub[OF assms(2,1)] assms(3-6) by force+
qed

section \<open>The scan returns a maximal run\<close>

lemma shifted_run:
  fixes a b n :: nat
  assumes "\<And>k. line k \<noteq> None \<Longrightarrow> 0 \<le> int n + k \<and> int n + k < int BOARD_SIZE"
    and at: "\<And>m. m < BOARD_SIZE \<Longrightarrow> line (int m - int n) = Some (sq m)"
    and f: "\<forall>k \<in> {- int a..int b}. filled occ (line k)" "\<not> filled occ (line (- int a - 1))" "\<not> filled occ (line (int b + 1))"
  shows "map (\<lambda>k. the (line k)) [- int a..int b] = map sq [n - a..<Suc (n + b)] \<and> maximal_run occ sq (n - a) (n + b)
    \<and> n - a \<le> n \<and> n \<le> n + b"
proof -
  have "line (- int a) \<noteq> None" "line (int b) \<noteq> None"
    using f(1)[THEN bspec, of "- int a"] f(1)[THEN bspec, of "int b"] by (auto simp: filled_def split: option.splits)
  then have n: "a \<le> n" "n + b < BOARD_SIZE" using assms(1)[of "- int a"] assms(1)[of "int b"] by auto
  have sq: "line (int m - int n) = Some (sq m)" if "m < BOARD_SIZE" for m using at[OF that] .
  have occ: "occ (sq m)" if "n - a \<le> m" "m \<le> n + b" for m
    using f(1)[THEN bspec, of "int m - int n"] sq[of m] that n by (auto simp: filled_def)
  have lo: "n - a = 0 \<or> \<not> occ (sq (n - a - 1))"
  proof (cases "n = a")
    case False
    then have "int (n - a - 1) - int n = - int a - 1" using n by simp
    then have "line (- int a - 1) = Some (sq (n - a - 1))" using sq[of "n - a - 1"] n by (simp only: add_lessD1 less_imp_diff_less)
    then show ?thesis using f(2) by (simp add: filled_def)
  qed simp
  have hi: "n + b + 1 = BOARD_SIZE \<or> \<not> occ (sq (n + b + 1))"
    using f(3) sq[of "n + b + 1"] n by (cases "n + b + 1 = BOARD_SIZE") (auto simp: filled_def algebra_simps)
  have "map (\<lambda>k. the (line k)) [- int a..int b] = map sq [n - a..<Suc (n + b)]"
  proof (rule nth_equalityI)
    show "length (map (\<lambda>k. the (line k)) [- int a..int b]) = length (map sq [n - a..<Suc (n + b)])"
      using n by (simp add: nat_eq_iff del: upt_Suc)
    fix i assume "i < length (map (\<lambda>k. the (line k)) [- int a..int b])"
    then have i: "i < a + b + 1" by simp
    then have "- int a + int i = int (n - a + i) - int n" using n by simp
    then have "the (line (- int a + int i)) = sq (n - a + i)" using sq[of "n - a + i"] i n by simp
    then show "map (\<lambda>k. the (line k)) [- int a..int b] ! i = map sq [n - a..<Suc (n + b)] ! i"
      using i n nth_upto[of "- int a" i "int b"] by (simp del: upt_Suc)
  qed
  then show ?thesis using occ lo hi n by (auto simp: maximal_run_def)
qed

lemma segment_in_row:
  assumes "in_bounds c BOARD_SIZE BOARD_SIZE" "tile_with_proposed s ps c \<noteq> None"
  shows "\<exists>i j. word_segment s ps c 0 1 = Ok (map (board_row (row c)) [i..<Suc j])
    \<and> maximal_run (\<lambda>c. tile_with_proposed s ps c \<noteq> None) (board_row (row c)) i j \<and> i \<le> column c \<and> column c \<le> j"
proof -
  let ?line = "step_at 0 1 (int (row c)) (int (column c))" and ?occ = "\<lambda>c. tile_with_proposed s ps c \<noteq> None"
  obtain a b where w: "word_segment s ps c 0 1 = Ok (map (\<lambda>k. the (?line k)) [- int a..int b])"
    "\<forall>k \<in> {- int a..int b}. filled ?occ (?line k)" "\<not> filled ?occ (?line (- int a - 1))" "\<not> filled ?occ (?line (int b + 1))"
    using word_segment_run[OF _ assms, of 0 1] by (auto simp: axis_def)
  have 1: "0 \<le> int (column c) + k \<and> int (column c) + k < int BOARD_SIZE" if "?line k \<noteq> None" for k
    using that by (auto simp: step_at_def coordinate_at_Some BOARD_SIZE_def)
  have 2: "?line (int m - int (column c)) = Some (Coordinate (row c) m)" if "m < BOARD_SIZE" for m
    using that assms(1) by (simp add: step_at_def coordinate_at_Some BOARD_SIZE_def in_bounds_def)
  show ?thesis using shifted_run[OF 1 2 w(2-4)] w(1) by metis
qed

lemma segment_in_column:
  assumes "in_bounds c BOARD_SIZE BOARD_SIZE" "tile_with_proposed s ps c \<noteq> None"
  shows "\<exists>i j. word_segment s ps c 1 0 = Ok (map (board_column (column c)) [i..<Suc j])
    \<and> maximal_run (\<lambda>c. tile_with_proposed s ps c \<noteq> None) (board_column (column c)) i j \<and> i \<le> row c \<and> row c \<le> j"
proof -
  let ?line = "step_at 1 0 (int (row c)) (int (column c))" and ?occ = "\<lambda>c. tile_with_proposed s ps c \<noteq> None"
  obtain a b where w: "word_segment s ps c 1 0 = Ok (map (\<lambda>k. the (?line k)) [- int a..int b])"
    "\<forall>k \<in> {- int a..int b}. filled ?occ (?line k)" "\<not> filled ?occ (?line (- int a - 1))" "\<not> filled ?occ (?line (int b + 1))"
    using word_segment_run[OF _ assms, of 1 0] by (auto simp: axis_def)
  have 1: "0 \<le> int (row c) + k \<and> int (row c) + k < int BOARD_SIZE" if "?line k \<noteq> None" for k
    using that by (auto simp: step_at_def coordinate_at_Some BOARD_SIZE_def)
  have 2: "?line (int m - int (row c)) = Some (Coordinate m (column c))" if "m < BOARD_SIZE" for m
    using that assms(1) by (simp add: step_at_def coordinate_at_Some BOARD_SIZE_def in_bounds_def)
  show ?thesis using shifted_run[OF 1 2 w(2-4)] w(1) by metis
qed

text \<open>So it returns every maximal run through its origin.\<close>

lemma row_word:
  assumes "in_bounds c BOARD_SIZE BOARD_SIZE" "tile_with_proposed s ps c \<noteq> None"
    "maximal_run (\<lambda>c. tile_with_proposed s ps c \<noteq> None) (board_row (row c)) i j" "i \<le> column c" "column c \<le> j"
  shows "word_segment s ps c 0 1 = Ok (map (board_row (row c)) [i..<Suc j])"
  using segment_in_row[OF assms(1,2)] maximal_run_unique[OF assms(3) _ assms(4,5)] by metis

lemma column_word:
  assumes "in_bounds c BOARD_SIZE BOARD_SIZE" "tile_with_proposed s ps c \<noteq> None"
    "maximal_run (\<lambda>c. tile_with_proposed s ps c \<noteq> None) (board_column (column c)) i j" "i \<le> row c" "row c \<le> j"
  shows "word_segment s ps c 1 0 = Ok (map (board_column (column c)) [i..<Suc j])"
  using segment_in_column[OF assms(1,2)] maximal_run_unique[OF assms(3) _ assms(4,5)] by metis

section \<open>The collected words\<close>

lemma push_segments_set:
  assumes "push_segments s ps ws os = Ok ws'"
  shows "set ws' = set ws \<union> {cs. 2 \<le> length cs \<and> (\<exists>(c, dr, dc) \<in> set os. word_segment s ps c dr dc = Ok cs)}"
  using assms
proof (induction os arbitrary: ws)
  case Nil
  then show ?case by (simp add: push_segments_def)
next
  case (Cons x os)
  obtain c dr dc where x: "x = (c, dr, dc)" by (cases x)
  obtain cs where cs: "word_segment s ps c dr dc = Ok cs" "push_segments s ps (push_if_word ws cs) os = Ok ws'"
    using Cons.prems by (auto simp: push_segments_def x rbind_Ok_iff)
  show ?case using Cons.IH[OF cs(2)] cs(1) by (auto simp: x push_if_word_def)
qed

end
