(* ===== verification/Legality.thy ===== *)
theory Legality
  imports Progress WordRuns
begin

text \<open>
  What \<^verbatim>\<open>prepare_placement\<close> guarantees of a move it accepts, stated on the board and the
  rack: ownership, one line without gaps, connection, words of the lexicon and their score.
\<close>

lemma list_all2_right_mem: "list_all2 R xs ys \<Longrightarrow> y \<in> set ys \<Longrightarrow> \<exists>x \<in> set xs. R x y"
  by (induction rule: list_all2_induct) auto

section \<open>Geometry\<close>

definition between :: "Coordinate \<Rightarrow> Coordinate \<Rightarrow> Coordinate \<Rightarrow> bool" where
  "between a c b \<longleftrightarrow>
     row a = row c \<and> row c = row b \<and> column a \<le> column c \<and> column c \<le> column b
     \<or> column a = column c \<and> column c = column b \<and> row a \<le> row c \<and> row c \<le> row b"

definition in_line :: "Placement list \<Rightarrow> bool" where
  "in_line ps \<longleftrightarrow> (\<exists>r. \<forall>p \<in> set ps. row (pl_coordinate p) = r) \<or> (\<exists>c. \<forall>p \<in> set ps. column (pl_coordinate p) = c)"

definition gap_free :: "PublicGameState \<Rightarrow> Placement list \<Rightarrow> bool" where
  "gap_free s ps \<longleftrightarrow> (\<forall>p \<in> set ps. \<forall>q \<in> set ps. \<forall>c. between (pl_coordinate p) c (pl_coordinate q) \<longrightarrow>
     tile_with_proposed s ps c \<noteq> None)"

definition connects :: "PublicGameState \<Rightarrow> Placement list \<Rightarrow> bool" where
  "connects s ps \<longleftrightarrow> (if list_all (\<lambda>t. t = None) (gs_board s) then CENTER \<in> pl_coordinate ` set ps
     else \<exists>p \<in> set ps. \<exists>d. Some d \<in> set (neighbors (pl_coordinate p)) \<and> tile_at s d \<noteq> None)"

lemma orientation_of_Ok:
  assumes "orientation_of ps = Ok o'"
  shows "o' = Single \<Longrightarrow> length ps = 1" "o' = Horizontal \<Longrightarrow> \<exists>r. \<forall>p \<in> set ps. row (pl_coordinate p) = r"
    "o' = Vertical \<Longrightarrow> \<exists>c. \<forall>p \<in> set ps. column (pl_coordinate p) = c"
  using assms by (auto simp: orientation_of_def Let_def list_all_iff split: if_splits)

lemma orientation_in_line:
  assumes "orientation_of ps = Ok o'" "mset qs = mset ps"
  shows "in_line qs"
proof -
  have s: "set qs = set ps" "length qs = length ps" using assms(2) by (auto dest: mset_eq_setD mset_eq_length)
  show ?thesis
  proof (cases o')
    case Single
    then obtain p where "ps = [p]" using orientation_of_Ok(1)[OF assms(1)] by (cases ps) auto
    then show ?thesis using s by (auto simp: in_line_def)
  qed (use orientation_of_Ok(2,3)[OF assms(1)] s in \<open>auto simp: in_line_def\<close>)
qed

lemma try_fold_ensure_Ok:
  "try_fold (\<lambda>_ k. ensure (P k) (e k)) () ks = Ok () \<longleftrightarrow> (\<forall>k \<in> set ks. P k)"
  by (induction ks) (auto simp: rbind_Ok_iff ensure_Ok_iff)

lemma list_get_ends:
  assumes "xs \<noteq> []"
  shows "list_get xs 0 = Some (hd xs)" "list_get xs (length xs - Suc 0) = Some (last xs)"
  using assms by (simp_all add: list_get_def hd_conv_nth last_conv_nth)

lemma sorted_ends:
  assumes "sorted (map f xs)" "x \<in> set xs"
  shows "f (hd xs) \<le> f x" "f x \<le> f (last xs)"
proof -
  obtain i where i: "i < length xs" "x = xs ! i" using assms(2) by (metis in_set_conv_nth)
  then have "xs \<noteq> []" by auto
  then show "f (hd xs) \<le> f x" "f x \<le> f (last xs)"
    using sorted_nth_mono[OF assms(1), of 0 i] sorted_nth_mono[OF assms(1), of i "length xs - 1"] i
    by (simp_all add: hd_conv_nth last_conv_nth)
qed

lemma line_filled:
  assumes srt: "sorted (map (\<lambda>p. (along (pl_coordinate p), across (pl_coordinate p))) xs)"
    and line: "\<And>p. p \<in> set xs \<Longrightarrow> across (pl_coordinate p) = r"
    and occ: "\<forall>k \<in> set [along (pl_coordinate (hd xs))..<Suc (along (pl_coordinate (last xs)))].
      occ (mk k (across (pl_coordinate (hd xs))))"
    and p: "p \<in> set xs" and q: "q \<in> set xs" and c: "across c = r" "mk (along c) r = c"
    and le: "along (pl_coordinate p) \<le> along c" "along c \<le> along (pl_coordinate q)"
  shows "occ c"
proof -
  have "hd xs \<in> set xs" using p by (cases xs) auto
  then have hd: "across (pl_coordinate (hd xs)) = r" by (rule line)
  have "along (pl_coordinate (hd xs)) \<le> along (pl_coordinate p)" "along (pl_coordinate q) \<le> along (pl_coordinate (last xs))"
    using sorted_ends(1)[OF srt p] sorted_ends(2)[OF srt q] by (auto simp: less_eq_prod_def)
  then have "along c \<in> set [along (pl_coordinate (hd xs))..<Suc (along (pl_coordinate (last xs)))]"
    using le by (simp add: less_Suc_eq_le del: upt_Suc)
  then have "occ (mk (along c) (across (pl_coordinate (hd xs))))" using occ by blast
  then show ?thesis using hd c(2) by simp
qed

lemma contiguous_lines:
  assumes v: "validate_contiguous s xs o' pps = Ok ()" and ne: "xs \<noteq> []"
  shows "o' = Horizontal \<Longrightarrow> \<forall>k \<in> set [column (pl_coordinate (hd xs))..<Suc (column (pl_coordinate (last xs)))].
      tile_with_proposed s pps (Coordinate (row (pl_coordinate (hd xs))) k) \<noteq> None"
    "o' = Vertical \<Longrightarrow> \<forall>k \<in> set [row (pl_coordinate (hd xs))..<Suc (row (pl_coordinate (last xs)))].
      tile_with_proposed s pps (Coordinate k (column (pl_coordinate (hd xs)))) \<noteq> None"
  using v by (simp_all add: validate_contiguous_def list_get_ends[OF ne] Let_def try_fold_ensure_Ok del: set_upt upt_Suc)

lemma contiguous_gap_free:
  assumes v: "validate_contiguous s (sort_placements o' ps) o' (sort_placements o' ps) = Ok ()"
    and o': "orientation_of ps = Ok o'" and ne: "ps \<noteq> []"
  shows "gap_free s (sort_placements o' ps)"
proof -
  let ?xs = "sort_placements o' ps"
  have m: "mset ?xs = mset ps" by simp
  then have set: "set ?xs = set ps" by (rule mset_eq_setD)
  have ne': "?xs \<noteq> []" using set ne by (metis set_empty)
  note lines = contiguous_lines[OF v ne']
  have "tile_with_proposed s ?xs c \<noteq> None"
    if p: "p \<in> set ?xs" and q: "q \<in> set ?xs" and b: "between (pl_coordinate p) c (pl_coordinate q)" for p q c
  proof (cases o')
    case Single
    then have "length ps = 1" by (rule orientation_of_Ok(1)[OF o'])
    then have "p = q" using p q set by (cases ps) auto
    then have "c = pl_coordinate p" using b by (cases c; cases "pl_coordinate p") (auto simp: between_def)
    then show ?thesis using proposed_live[OF p] by simp
  next
    case Horizontal
    obtain r where r: "\<And>p. p \<in> set ?xs \<Longrightarrow> row (pl_coordinate p) = r"
      using orientation_of_Ok(2)[OF o' Horizontal] set by auto
    have "row c = r" "column (pl_coordinate p) \<le> column c" "column c \<le> column (pl_coordinate q)"
      using b r[OF p] r[OF q] by (auto simp: between_def)
    then show ?thesis
      using r by (intro line_filled[where mk = "\<lambda>k r. Coordinate r k" and along = column and across = row
          and occ = "\<lambda>c. tile_with_proposed s ?xs c \<noteq> None", OF _ _ lines(1)[OF Horizontal] p q])
        (auto simp: sort_placements_def Horizontal)
  next
    case Vertical
    obtain r where r: "\<And>p. p \<in> set ?xs \<Longrightarrow> column (pl_coordinate p) = r"
      using orientation_of_Ok(3)[OF o' Vertical] set by auto
    have "column c = r" "row (pl_coordinate p) \<le> row c" "row c \<le> row (pl_coordinate q)"
      using b r[OF p] r[OF q] by (auto simp: between_def)
    then show ?thesis
      using r by (intro line_filled[where mk = Coordinate and along = row and across = column
          and occ = "\<lambda>c. tile_with_proposed s ?xs c \<noteq> None", OF _ _ lines(2)[OF Vertical] p q])
        (auto simp: sort_placements_def Vertical)
  qed
  then show ?thesis by (auto simp: gap_free_def)
qed

lemma connection_connected:
  assumes "validate_connection s ps = Ok ()"
  shows "connects s ps"
proof (cases "list_all (\<lambda>t. t = None) (gs_board s)")
  case True
  then have "proposed_get ps CENTER \<noteq> None" using assms by (simp add: validate_connection_def ensure_Ok_iff)
  then obtain p where "p \<in> set ps" "pl_coordinate p = CENTER" by (auto simp: proposed_get_def dest!: find_Some_mem)
  then show ?thesis using True by (auto simp: connects_def intro: rev_image_eqI)
next
  case False
  then have "list_ex (\<lambda>p. list_ex (\<lambda>n. case n of Some d \<Rightarrow> tile_at s d \<noteq> None | None \<Rightarrow> False)
      (neighbors (pl_coordinate p))) ps"
    using assms unfolding validate_connection_def ensure_Ok_iff by (simp only: if_False ensure_Ok_iff)
  then obtain p n where n: "p \<in> set ps" "n \<in> set (neighbors (pl_coordinate p))"
    "case n of Some d \<Rightarrow> tile_at s d \<noteq> None | None \<Rightarrow> False" by (auto simp: list_ex_iff)
  then obtain d where "Some d \<in> set (neighbors (pl_coordinate p))" "tile_at s d \<noteq> None" by (cases n) auto
  then show ?thesis using False n(1) unfolding connects_def by auto
qed

section \<open>Every word that is formed\<close>

text \<open>
  The words collected for scoring are the words formed on the board, each once: a cross-word through every
  placed tile and the word along the line of the placement, which is one word because the line has no gap.
\<close>

lemma segments_formed:
  assumes p: "p \<in> set ps" and ib: "in_bounds (pl_coordinate p) BOARD_SIZE BOARD_SIZE"
    and w: "word_segment s ps (pl_coordinate p) dr dc = Ok cs" "2 \<le> length cs" and ax: "axis dr dc"
  shows "formed_word s ps cs"
proof -
  let ?c = "pl_coordinate p"
  have n: "row ?c < BOARD_SIZE" "column ?c < BOARD_SIZE" using ib by (auto simp: in_bounds_def)
  note occ = proposed_live[OF p, of s]
  obtain line m i j where r: "m < BOARD_SIZE" "line = board_row m \<or> line = board_column m" "cs = map line [i..<Suc j]"
    "maximal_run (\<lambda>c. tile_with_proposed s ps c \<noteq> None) line i j" "?c \<in> line ` {i..j}"
    using ax
  proof (unfold axis_def, elim disjE conjE)
    assume "dr = 0" "dc = 1"
    then show thesis using segment_in_row[OF ib occ] w(1) n that[of "row ?c" "board_row (row ?c)"] by force
  next
    assume "dr = 1" "dc = 0"
    then show thesis using segment_in_column[OF ib occ] w(1) n that[of "column ?c" "board_column (column ?c)"] by force
  qed
  have "i < j" using w(2) r(3) by (simp del: upt_Suc)
  moreover have "?c \<in> set cs" using r(3,5) by (auto simp del: upt_Suc)
  ultimately show ?thesis using r p unfolding formed_word_def by blast
qed

lemma main_run:
  assumes p: "p \<in> set ps" and q: "q \<in> set ps" and gap: "gap_free s ps"
    and m: "maximal_run (\<lambda>c. tile_with_proposed s ps c \<noteq> None) line i j" and k: "i \<le> k" "k \<le> j" "l < BOARD_SIZE"
    and line: "line = board_row n \<or> line = board_column n" "pl_coordinate p = line k" "pl_coordinate q = line l"
  shows "i \<le> l \<and> l \<le> j"
proof (rule maximal_run_reaches[OF m k])
  fix x assume x: "min k l \<le> x" "x \<le> max k l"
  then have "between (line k) (line x) (line l) \<or> between (line l) (line x) (line k)"
    using line(1) by (cases "k \<le> l"; elim disjE; simp add: between_def)
  then show "tile_with_proposed s ps (line x) \<noteq> None"
    using gap[unfolded gap_free_def, rule_format, OF p q, of "line x"] gap[unfolded gap_free_def, rule_format, OF q p, of "line x"]
    unfolding line(2,3) by blast
qed

lemma formed_words_exact:
  assumes o': "orientation_of qs = Ok o'" and set: "set ps = set qs" "length ps = length qs" and ne: "ps \<noteq> []"
    and ib: "\<And>p. p \<in> set ps \<Longrightarrow> in_bounds (pl_coordinate p) BOARD_SIZE BOARD_SIZE"
    and gap: "gap_free s ps" and f: "formed_word_coordinates s ps o' ps = Ok css"
  shows "set css = {cs. formed_word s ps cs}" "distinct css"
proof -
  let ?os = "word_origins o' (ps ! 0) ps"
  obtain ws where ws: "push_segments s ps [] ?os = Ok ws" "css = retain_first ws"
    using f ne by (auto simp: formed_word_coordinates_def rbind_Ok_iff)
  show "distinct css" by (simp add: ws(2) retain_first_def)
  have css: "set css = {cs. 2 \<le> length cs \<and> (\<exists>(c, dr, dc) \<in> set ?os. word_segment s ps c dr dc = Ok cs)}"
    using push_segments_set[OF ws(1)] by (simp add: ws(2) retain_first_def)
  have hd: "ps ! 0 \<in> set ps" using ne by simp
  have origin: "axis dr dc \<and> (\<exists>p \<in> set ps. c = pl_coordinate p)" if "(c, dr, dc) \<in> set ?os" for c dr dc
    using that hd by (cases o') (auto simp: axis_def word_origins_def)
  have "formed_word s ps cs" if "cs \<in> set css" for cs
    using that origin segments_formed[OF _ ib] unfolding css by blast
  moreover have "cs \<in> set css" if "formed_word s ps cs" for cs
  proof -
    obtain n line i j p where w: "n < BOARD_SIZE" "line = board_row n \<or> line = board_column n"
      "maximal_run (\<lambda>c. tile_with_proposed s ps c \<noteq> None) line i j" "i < j" "cs = map line [i..<Suc j]"
      "p \<in> set ps" "pl_coordinate p \<in> set cs"
      using \<open>formed_word s ps cs\<close> unfolding formed_word_def by blast
    obtain k where k: "i \<le> k" "k \<le> j" "pl_coordinate p = line k" using w(5,7) by (auto simp: less_Suc_eq_le simp del: upt_Suc)
    have "2 \<le> length cs" using w(4,5) by (simp del: upt_Suc)
    moreover have "\<exists>(c, dr, dc) \<in> set ?os. word_segment s ps c dr dc = Ok cs"
    proof -
      note single = orientation_of_Ok(1)[OF o', folded set] and lines = orientation_of_Ok(2,3)[OF o', folded set]
      show ?thesis
        using w(2)
      proof
        assume l: "line = board_row n"
        have "\<exists>q \<in> set ps. (pl_coordinate q, 0, 1) \<in> set ?os \<and> row (pl_coordinate q) = n \<and> i \<le> column (pl_coordinate q) \<and> column (pl_coordinate q) \<le> j"
        proof (cases o')
          case Horizontal
          then have r: "row (pl_coordinate (ps ! 0)) = n" using lines(1) w(6) hd k(3) l by force
          then have "pl_coordinate (ps ! 0) = line (column (pl_coordinate (ps ! 0)))" by (cases "pl_coordinate (ps ! 0)") (simp add: l)
          then show ?thesis using main_run[OF w(6) hd gap w(3) k(1,2) _ w(2) k(3)] ib[OF hd] hd r Horizontal
            by (auto simp: in_bounds_def word_origins_def)
        qed (use w(6) k l single ne in \<open>force simp: word_origins_def length_Suc_conv\<close>)+
        then show ?thesis using row_word[OF ib proposed_live] w(3,5) l by fastforce
      next
        assume l: "line = board_column n"
        have "\<exists>q \<in> set ps. (pl_coordinate q, 1, 0) \<in> set ?os \<and> column (pl_coordinate q) = n \<and> i \<le> row (pl_coordinate q) \<and> row (pl_coordinate q) \<le> j"
        proof (cases o')
          case Vertical
          then have r: "column (pl_coordinate (ps ! 0)) = n" using lines(2) w(6) hd k(3) l by force
          then have "pl_coordinate (ps ! 0) = line (row (pl_coordinate (ps ! 0)))" by (cases "pl_coordinate (ps ! 0)") (simp add: l)
          then show ?thesis using main_run[OF w(6) hd gap w(3) k(1,2) _ w(2) k(3)] ib[OF hd] hd r Vertical
            by (auto simp: in_bounds_def word_origins_def)
        qed (use w(6) k l single ne in \<open>force simp: word_origins_def length_Suc_conv\<close>)+
        then show ?thesis using column_word[OF ib proposed_live] w(3,5) l by fastforce
      qed
    qed
    ultimately show ?thesis unfolding css by blast
  qed
  ultimately show "set css = {cs. formed_word s ps cs}" by blast
qed

section \<open>Words and score\<close>

definition words_score :: "FormedWord list \<Rightarrow> nat" where
  "words_score ws = sum_list (map fw_score ws)"

definition word_ok :: "env \<Rightarrow> Game \<Rightarrow> Proposal \<Rightarrow> FormedWord \<Rightarrow> bool" where
  "word_ok E g pps w \<longleftrightarrow> formed_word (g_state g) pps (fw_coordinates w)
     \<and> fw_text w = word_text (g_state g) pps (fw_coordinates w)
     \<and> normalize_key E (profile_of (g_ruleset g)) (fw_text w) = Ok (fw_normalized w)
     \<and> wv_contains (g_lexicon g) (fw_normalized w)
     \<and> fw_score w = sum_list (map (square_points (g_ruleset g) (g_state g) pps) (fw_coordinates w))
         * prod_list (map (\<lambda>c. word_multiplier_of (active_premium (g_ruleset g) pps c)) (fw_coordinates w))"

lemma finish_words:
  assumes "finish_placement E g rack o' ps = Ok pr" "orientation_of qs = Ok o'" "qs \<noteq> []" and ps: "ps = sort_placements o' qs"
    and ib: "\<And>p. p \<in> set ps \<Longrightarrow> in_bounds (pl_coordinate p) BOARD_SIZE BOARD_SIZE"
  shows "distinct (map fw_coordinates (pr_words pr))" "set (map fw_coordinates (pr_words pr)) = {cs. formed_word (g_state g) ps cs}"
    "pr_words pr \<noteq> []" "list_all (word_ok E g ps) (pr_words pr)"
    "pr_bingo_bonus pr = (if length ps = gr_rack_capacity (rs_game (g_ruleset g))
       then gr_bingo_bonus (rs_game (g_ruleset g)) else 0)"
    "pr_score pr = words_score (pr_words pr) + pr_bingo_bonus pr"
    "gap_free (g_state g) ps" "validate_connection (g_state g) ps = Ok ()"
proof -
  obtain css total where f: "formed_word_coordinates (g_state g) ps o' ps = Ok css" "css \<noteq> []"
    and t: "try_fold (score_word E g ps) ([], 0) css = Ok (pr_words pr, total)"
    and b: "pr_bingo_bonus pr = (if length ps = gr_rack_capacity (rs_game (g_ruleset g))
       then gr_bingo_bonus (rs_game (g_ruleset g)) else 0)" "pr_score pr = total + pr_bingo_bonus pr"
    and v: "validate_contiguous (g_state g) ps o' ps = Ok ()" "validate_connection (g_state g) ps = Ok ()"
    using assms(1) unfolding finish_placement_def Let_def
    by (auto elim!: rbind_OkE case_prod_OkE simp: checked_add_def split: if_splits)
  obtain vs where vs: "pr_words pr = vs" "total = words_score vs"
    "list_all2 (\<lambda>cs w. validate_word E g ps cs = Ok w) css vs"
    using score_words_Ok[OF t] by (auto simp: words_score_def)
  show "pr_words pr \<noteq> []" using vs f(2) by auto
  show "pr_bingo_bonus pr = (if length ps = gr_rack_capacity (rs_game (g_ruleset g))
       then gr_bingo_bonus (rs_game (g_ruleset g)) else 0)" "pr_score pr = words_score (pr_words pr) + pr_bingo_bonus pr"
    using b vs by simp_all
  show "validate_connection (g_state g) ps = Ok ()" by (fact v)
  have ne: "ps \<noteq> []" using assms(3) by (metis ps length_0_conv sort_placements_length)
  show gap: "gap_free (g_state g) ps" unfolding ps by (rule contiguous_gap_free[OF v(1)[unfolded ps] assms(2,3)])
  have css: "set css = {cs. formed_word (g_state g) ps cs}" "distinct css"
    using formed_words_exact[OF assms(2) _ _ ne ib gap f(1)] by (simp_all add: ps)
  have "map fw_coordinates vs = css"
    using vs(3) by (induction rule: list_all2_induct) (auto dest: validate_word_Ok(2))
  then show "distinct (map fw_coordinates (pr_words pr))" "set (map fw_coordinates (pr_words pr)) = {cs. formed_word (g_state g) ps cs}"
    using css vs(1) by simp_all
  have "word_ok E g ps w" if w: "w \<in> set vs" for w
  proof -
    obtain cs where cs: "cs \<in> set css" "validate_word E g ps cs = Ok w"
      using list_all2_right_mem[OF vs(3) w] by blast
    then show ?thesis using validate_word_Ok[OF cs(2)] css(1) by (auto simp: word_ok_def)
  qed
  then show "list_all (word_ok E g ps) (pr_words pr)" using vs(1) by (simp add: list_all_iff)
qed

section \<open>Accepted placements\<close>

text \<open>Each placement carries one of the seat's tiles, with its face, onto a free square.\<close>

definition own_placement :: "Game \<Rightarrow> Rack \<Rightarrow> Placement \<Rightarrow> bool" where
  "own_placement g rack p \<longleftrightarrow> in_bounds (pl_coordinate p) BOARD_SIZE BOARD_SIZE
     \<and> tile_at (g_state g) (pl_coordinate p) = None
     \<and> (\<exists>t \<in> set rack. pt_id t = pl_tile_id p \<and> (case pt_face t of
          Letter token \<Rightarrow> \<not> tl_is_blank (pl_tile p) \<and> tl_letter (pl_tile p) = token
        | Blank \<Rightarrow> tl_is_blank (pl_tile p)))"

lemma placeable_own:
  assumes "placeable E g rack p q"
  shows "own_placement g rack q"
proof -
  obtain t l where t: "List.find (\<lambda>t. pt_id t = pl_tile_id p) rack = Some t"
    "in_bounds (pl_coordinate p) BOARD_SIZE BOARD_SIZE" "q = p\<lparr>pl_tile := (pl_tile p)\<lparr>tl_letter := l\<rparr>\<rparr>"
    "validate_assignment t (pl_tile q) = Ok ()" "tile_at (g_state g) (pl_coordinate p) = None"
    using assms by (auto simp: placeable_def)
  have "t \<in> set rack" "pt_id t = pl_tile_id q" using find_Some_mem[OF t(1)] t(3) by auto
  moreover have "case pt_face t of Letter token \<Rightarrow> \<not> tl_is_blank (pl_tile q) \<and> tl_letter (pl_tile q) = token
      | Blank \<Rightarrow> tl_is_blank (pl_tile q)" using t(4) by (simp add: validate_assignment_def split: if_splits)
  ultimately show ?thesis using t(2,3,5) unfolding own_placement_def by auto
qed

lemma prepared_legal:
  assumes ix: "seat_index p < length (g_racks g)" and pr: "prepare_placement E g p ps = Ok pr"
  shows "list_all (own_placement g (g_racks g ! seat_index p)) (pr_placements pr)"
    and "distinct (map pl_tile_id (pr_placements pr))" and "distinct (map pl_coordinate (pr_placements pr))"
    and "in_line (pr_placements pr)" and "gap_free (g_state g) (pr_placements pr)"
    and "connects (g_state g) (pr_placements pr)" and "pr_words pr \<noteq> []"
    and "list_all (word_ok E g (pr_placements pr)) (pr_words pr)" and "distinct (map fw_coordinates (pr_words pr))"
    and "set (map fw_coordinates (pr_words pr)) = {cs. formed_word (g_state g) (pr_placements pr) cs}"
    and "pr_score pr = words_score (pr_words pr) + (if length (pr_placements pr) = gr_rack_capacity (rs_game (g_ruleset g))
       then gr_bingo_bonus (rs_game (g_ruleset g)) else 0)"
proof -
  let ?rack = "g_racks g ! seat_index p"
  obtain qs o' where q: "ps \<noteq> []" "list_all2 (placeable E g ?rack) ps qs" "distinct (map pl_tile_id ps)"
    "distinct (map pl_coordinate qs)" "orientation_of qs = Ok o'"
    "finish_placement E g ?rack o' (sort_placements o' qs) = Ok pr"
    using pr unfolding prepare_placement_Ok[OF ix] by blast
  let ?xs = "sort_placements o' qs"
  have xs: "pr_placements pr = ?xs" by (rule finish_placement_fields(1)[OF q(6)])
  have m: "mset ?xs = mset qs" by simp
  have ne: "qs \<noteq> []" using q(1,2) by auto
  have own: "own_placement g ?rack x" if "x \<in> set ?xs" for x
  proof -
    have "x \<in> set qs" using that mset_eq_setD[OF m] by simp
    then show ?thesis using list_all2_right_mem[OF q(2)] placeable_own by blast
  qed
  then have ib: "in_bounds (pl_coordinate x) BOARD_SIZE BOARD_SIZE" if "x \<in> set ?xs" for x
    using that by (simp add: own_placement_def)
  note w = finish_words[OF q(6,5) ne refl ib]
  have ids: "map pl_tile_id qs = map pl_tile_id ps"
    using q(2) by (induction rule: list_all2_induct) (auto simp: placeable_def)
  show "list_all (own_placement g ?rack) (pr_placements pr)" using own by (simp add: xs list_all_iff)
  show "distinct (map pl_tile_id (pr_placements pr))"
    using q(3) ids m unfolding xs by (metis mset_eq_imp_distinct_iff mset_map)
  show "distinct (map pl_coordinate (pr_placements pr))"
    using q(4) m unfolding xs by (metis mset_eq_imp_distinct_iff mset_map)
  show "in_line (pr_placements pr)" unfolding xs by (rule orientation_in_line[OF q(5) m])
  show "gap_free (g_state g) (pr_placements pr)" unfolding xs by (rule w(7))
  show "connects (g_state g) (pr_placements pr)" unfolding xs by (rule connection_connected[OF w(8)])
  show "pr_words pr \<noteq> []" "list_all (word_ok E g (pr_placements pr)) (pr_words pr)" using w(3,4) unfolding xs by simp_all
  show "distinct (map fw_coordinates (pr_words pr))"
    "set (map fw_coordinates (pr_words pr)) = {cs. formed_word (g_state g) (pr_placements pr) cs}" using w(1,2) unfolding xs by simp_all
  show "pr_score pr = words_score (pr_words pr) + (if length (pr_placements pr) = gr_rack_capacity (rs_game (g_ruleset g))
       then gr_bingo_bonus (rs_game (g_ruleset g)) else 0)" using w(5,6) unfolding xs by simp
qed

end
