(* ===== verification/DemoGame.thy ===== *)
theory DemoGame
  imports Legality
begin

text \<open>
  A concrete game, for the hypotheses of the properties. The generator is evaluated on
  integers (\<open>next_int\<close>); a state whose next outputs are all at least 128 shuffles every list
  of at most 128 elements. \<open>demo_game\<close> is the English two-seat game that the concrete
  environment \<open>demo_env\<close> deals from a fixed seed.
\<close>

unbundle bit_operations_syntax

section \<open>Evaluating the generator on integers\<close>

definition rot :: "nat \<Rightarrow> int \<Rightarrow> int" where
  "rot n x = push_bit n (take_bit (64 - n) x) OR drop_bit (64 - n) x"

type_synonym int_rng = "int \<times> int \<times> int \<times> int"

definition next_int :: "int_rng \<Rightarrow> int \<times> int_rng" where
  "next_int s = (case s of (a, b, c, d) \<Rightarrow>
     let r = take_bit 64 (rot 7 (take_bit 64 (b * 5)) * 9); c1 = c XOR a; d1 = d XOR b;
         b1 = b XOR c1; a1 = a XOR d1; c2 = c1 XOR take_bit 64 (push_bit 17 b); d2 = rot 45 d1
     in (r, a1, b1, c2, d2))"

fun accepts :: "nat \<Rightarrow> int_rng \<Rightarrow> bool" where
  "accepts 0 s = True"
| "accepts (Suc n) s = (case next_int s of (r, s') \<Rightarrow> 128 \<le> r \<and> accepts n s')"

definition ints_of :: "DeterministicRng \<Rightarrow> int_rng" where
  "ints_of g = (uint (rng_s0 g), uint (rng_s1 g), uint (rng_s2 g), uint (rng_s3 g))"

lemma uint_rotl:
  assumes "n < 64"
  shows "uint (word_rotl n (w :: 64 word)) = rot n (uint w)"
proof (rule bit_eqI)
  fix k
  have hi: "\<not> bit w j" if "64 \<le> j" for j using that by (auto dest: bit_imp_le_length)
  show "bit (uint (word_rotl n w)) k = bit (rot n (uint w)) k"
  proof (cases "k < n")
    case True
    then have "(k + 64 - n) mod 64 = 64 + k - n" using assms by simp
    then show ?thesis using True assms by (auto simp: rot_def bit_simps bit_uint_iff)
  next
    case False
    then have "(k + 64 - n) mod 64 = (64 + (k - n)) mod 64" by (simp add: add.commute)
    then have "(k + 64 - n) mod 64 = (k - n) mod 64" by simp
    then show ?thesis using False assms hi[of "64 + k - n"] by (auto simp: rot_def bit_simps bit_uint_iff)
  qed
qed

lemma next_int_correct: "next_int (ints_of g) = (uint (fst (next_u64 g)), ints_of (snd (next_u64 g)))"
proof -
  have "uint (w * 5) = take_bit 64 (uint w * 5)" "uint (w * 9) = take_bit 64 (uint w * 9)" for w :: "64 word"
    by (simp_all add: uint_word_ariths take_bit_eq_mod)
  moreover have "uint (push_bit 17 w) = take_bit 64 (push_bit 17 (uint w))" for w :: "64 word"
    by (rule bit_eqI) (auto simp: bit_simps bit_uint_iff)
  ultimately show ?thesis
    by (simp add: next_int_def ints_of_def next_u64_def Let_def uint_rotl uint_xor)
qed

lemma accepts_numeral:
  "accepts (numeral k) s = (case next_int s of (r, s') \<Rightarrow> 128 \<le> r \<and> accepts (pred_numeral k) s')"
  by (simp add: numeral_eq_Suc)

lemma uniform_below_accepts:
  assumes "128 \<le> uint (fst (next_u64 g))" "0 < n" "n \<le> 128"
  shows "uniform_below g (of_nat n) = Some (fst (next_u64 g) mod of_nat n, snd (next_u64 g))"
proof -
  have u: "unat (of_nat n :: 64 word) = n" using assms by (simp add: unat_of_nat)
  then have "0 < (of_nat n :: 64 word)" using assms(2) by (simp add: word_less_nat_alt)
  then have "unat (threshold_of (of_nat n)) < n" using assms(2) u by (simp add: threshold_nat)
  moreover have "int 128 \<le> int (unat (fst (next_u64 g)))" using assms(1) by simp
  then have "128 \<le> unat (fst (next_u64 g))" by (simp only: of_nat_le_iff)
  ultimately have "threshold_of (of_nat n) \<le> fst (next_u64 g)" using assms(3) by (simp add: word_le_nat_alt)
  then show ?thesis
    unfolding uniform_below_def by (subst uniform_loop.simps) (simp add: split_def Let_def)
qed

lemma accepts_shuffle:
  assumes "accepts k (ints_of g)" "k < length xs \<or> k = 0" "length xs \<le> 128"
  shows "\<exists>ys. shuffle_down g k xs = Ok ys"
  using assms
proof (induction k arbitrary: g xs)
  case 0
  then show ?case by simp
next
  case (Suc k)
  then have a: "128 \<le> uint (fst (next_u64 g))" "accepts k (ints_of (snd (next_u64 g)))"
    by (simp_all add: next_int_correct)
  have u: "uniform_below g (of_nat (Suc k + 1)) = Some (fst (next_u64 g) mod of_nat (Suc k + 1), snd (next_u64 g))"
    using a(1) Suc.prems by (intro uniform_below_accepts) auto
  have "unat (fst (next_u64 g) mod of_nat (Suc k + 1)) < Suc k + 1"
    using Suc.prems by (intro uniform_below_index[OF u]) auto
  then show ?case
    using u a(2) Suc by (simp add: swap_at_Ok del: of_nat_Suc of_nat_add)
qed

section \<open>The concrete game\<close>

definition demo_seed :: GameSeed where
  "demo_seed = replicate 32 7"

definition demo_lexicon :: WordValidator where
  "demo_lexicon = \<lparr>wv_identity = rs_lexicon (the_builtin EnglishV1), wv_contains = (\<lambda>w. w \<noteq> [])\<rparr>"

definition demo_create :: "Game result" where
  "demo_create = create_with_mode_and_players demo_env ''demo'' (the_builtin EnglishV1) (Some demo_lexicon)
     demo_seed Competitive 2"

definition demo_game :: Game where
  "demo_game = (case demo_create of Ok g \<Rightarrow> g | _ \<Rightarrow> undefined)"

lemma demo_digest_sum:
  "sum_list (string_bytes ''word-arena-xoshiro256-star-star-v1'' @ [0] @ demo_seed) = (72 :: byte)"
  by (simp add: string_bytes_def demo_seed_def sum_list_replicate)

lemma demo_digest_value:
  "env_sha256 demo_env (string_bytes ''word-arena-xoshiro256-star-star-v1'' @ [0] @ demo_seed) =
    [38, 58, 104, 176, 18, 142, 36, 212, 158, 130, 128, 152, 202, 22, 124, 252,
     150, 74, 24, 0, 2, 30, 84, 164, 14, 146, 48, 232, 186, 166, 172, 204]"
  unfolding demo_env_def env.select_convs demo_digest_def demo_digest_sum by (simp add: upt_rec demo_seed_def string_bytes_def)

lemma demo_rng: "rng_new demo_env demo_seed =
  \<lparr>rng_s0 = 2754629227525317844, rng_s1 = 11421832998678854908,
   rng_s2 = 10829494642280387748, rng_s3 = 1049955439252778188\<rparr>"
  unfolding rng_new_def demo_digest_value by (simp add: rng_of_digest_def u64_from_be_bytes_def Let_def)

lemma demo_accepts:
  "accepts 99 (2754629227525317844, 11421832998678854908, 10829494642280387748, 1049955439252778188)"
  by (simp add: next_int_def rot_def Let_def accepts_numeral)

lemma demo_shuffles: "\<exists>ts. shuffle (rng_new demo_env demo_seed) (expected_tiles (the_builtin EnglishV1)) = Ok ts"
proof -
  have "length (expected_tiles (the_builtin EnglishV1)) = 100"
    by (simp add: expected_tiles_def expected_faces_builtin total_tiles_builtin)
  then show ?thesis
    unfolding shuffle_def
    by (intro accepts_shuffle) (simp_all add: demo_rng ints_of_def demo_accepts)
qed

lemma demo_created: "demo_create = Ok demo_game"
proof -
  obtain ts where "shuffle (rng_new demo_env demo_seed) (expected_tiles (the_builtin EnglishV1))
      = (Ok ts :: (RandomError, PhysicalTile list) outcome)" using demo_shuffles by blast
  from deal_of_shuffle[OF _ _ this, of 2] obtain d where
    d: "prepare_initial_deal_for_players demo_env (the_builtin EnglishV1) demo_seed 2 = Ok d"
    "list_all (\<lambda>r. length r = 7) (id_racks d)" "length (id_bag d) \<le> 100"
    by (auto simp: total_tiles_builtin)
  have "rack_counts (id_racks d) = Ok (map length (id_racks d))" "count_u16 (length (id_bag d)) = Ok (length (id_bag d))"
    using d by (auto simp: rack_counts_Ok count_u16_Ok list_all_iff)
  moreover have "validate_ruleset (the_builtin EnglishV1) = Ok ()" by (simp add: validate_ruleset_iff)
  moreover have "ensure_lexicon (the_builtin EnglishV1) ContextRuleset (wv_identity demo_lexicon) = Ok ()"
    by (simp add: ensure_lexicon_def validate_ruleset_iff ensure_exact_pack_def demo_lexicon_def rbind_Ok_iff)
  ultimately obtain g where g: "demo_create = Ok g"
    by (simp add: demo_create_def create_with_mode_and_players_def d Let_def)
  show ?thesis unfolding demo_game_def g by simp
qed

lemma demo_reachable: "reachable demo_env demo_game"
  using demo_created[unfolded demo_create_def] by (rule reach_create)

lemma demo_inv: "game_inv demo_env demo_game"
  by (rule reachable_inv[OF demo_reachable])

lemma create_state:
  assumes "create_with_mode_and_players E gid r lexicon seed mode n = Ok g"
  shows "gs_phase (g_state g) = Active" "gs_current_player (g_state g) = One" "gs_version (g_state g) = 0"
    "gs_scoreless_turns (g_state g) = 0" "length (g_racks g) = n" "gs_board (g_state g) = replicate BOARD_SQUARES None"
  using assms prepare_initial_deal_Ok(5)
  by (auto simp: create_with_mode_and_players_def rbind_Ok_iff Let_def)

lemmas demo_state = create_state[OF demo_created[unfolded demo_create_def]]

text \<open>The concrete game after its first seat resigns.\<close>

lemma demo_resigns: "\<exists>g' ev. resign demo_game One 0 = Ok (g', ev) \<and> gs_phase (g_state g') = Finished
  \<and> reachable demo_env g' \<and> (\<exists>b. replay_bundle demo_env g' = Some b)"
proof -
  have "validate_action demo_game One 0 = Ok ()" "next_version demo_game = Ok 1"
    by (simp_all add: validate_action_Ok next_version_Ok demo_state)
  moreover have "seat_active 2 = Some [One, Two]" by (simp add: seat_active_def SEAT_ALL_def)
  ultimately obtain g' ev where r: "resign demo_game One 0 = Ok (g', ev)"
    by (simp add: resign_def complete_state_def final_scores_def demo_state Let_def)
  then have "game_step demo_env demo_game ev g'" by (rule step_resign)
  then have re: "reachable demo_env g'" and ls: "log_step demo_game ev g'"
    using reach_step[OF demo_reachable] game_step_log by blast+
  have fin: "gs_phase (g_state g') = Finished" using r by (rule resign_shape) (auto dest: complete_state_Ok(1))
  moreover obtain e where "g_events demo_game = [e]" "is_created (ge_kind e)"
    using create_event(1)[OF demo_created[unfolded demo_create_def]] by (auto simp: is_created_def)
  then have "replay_bundle demo_env g' = Some (journal_bundle demo_env g')"
    using ls fin by (simp add: replay_bundle_def log_step_def)
  ultimately show ?thesis using r re by blast
qed

end
