(* ===== verification/DemoTable.thy ===== *)
theory DemoTable
  imports DemoGame
begin

text \<open>
  A concrete table with a known rack, on which a placement is evaluated: the hypotheses of
  the properties about accepted placements hold there.
\<close>

definition table_game :: Game where
  "table_game = \<lparr>g_ruleset = the_builtin EnglishV1, g_lexicon = demo_lexicon, g_seed = demo_seed, g_bag = [],
     g_racks = [[\<lparr>pt_id = 0, pt_face = Letter ''A''\<rparr>, \<lparr>pt_id = 9, pt_face = Letter ''B''\<rparr>], []],
     g_state = \<lparr>gs_game_id = ''table'', gs_ruleset_id = EnglishV1, gs_ruleset = ruleset_identity demo_env (the_builtin EnglishV1),
           gs_lexicon = rs_lexicon (the_builtin EnglishV1), gs_mode = Competitive, gs_rng_algorithm = Xoshiro256StarStarV1,
           gs_seed_commitment = commitment demo_env demo_seed Xoshiro256StarStarV1, gs_board = replicate BOARD_SQUARES None,
           gs_scores = [0, 0], gs_current_player = One, gs_version = 0,
           gs_scoreless_turns = 0, gs_rack_counts = [2, 0], gs_bag_count = 0,
           gs_phase = Active, gs_result = None\<rparr>,
     g_events = [], g_private_events = []\<rparr>"
definition table_move :: "Placement list" where
  "table_move = [\<lparr>pl_tile_id = 9, pl_coordinate = Coordinate 7 8, pl_tile = \<lparr>tl_letter = ''b'', tl_is_blank = False\<rparr>\<rparr>,
     \<lparr>pl_tile_id = 0, pl_coordinate = Coordinate 7 7, pl_tile = \<lparr>tl_letter = ''A'', tl_is_blank = False\<rparr>\<rparr>]"

abbreviation table_tiles :: "Placement list" where
  "table_tiles \<equiv> [\<lparr>pl_tile_id = 0, pl_coordinate = Coordinate 7 7, pl_tile = \<lparr>tl_letter = ''A'', tl_is_blank = False\<rparr>\<rparr>,
     \<lparr>pl_tile_id = 9, pl_coordinate = Coordinate 7 8, pl_tile = \<lparr>tl_letter = ''B'', tl_is_blank = False\<rparr>\<rparr>]"

lemma demo_profile: "profile_of (the_builtin EnglishV1) = ENGLISH_NORMALIZATION_PROFILE"
  by (simp add: profile_of_def the_builtin_def)

lemma demo_tokens:
  "canonical_tile_token demo_env ENGLISH_NORMALIZATION_PROFILE ''b'' = Ok ''B''"
  "canonical_tile_token demo_env ENGLISH_NORMALIZATION_PROFILE ''A'' = Ok ''A''"
  "normalize_key demo_env ENGLISH_NORMALIZATION_PROFILE ''AB'' = Ok ''AB''"
  by code_simp+

lemma demo_values:
  "letter_value (the_builtin EnglishV1) ''A'' = Some 1" "letter_value (the_builtin EnglishV1) ''B'' = Some 3"
  unfolding letter_value_def rules_letter_def the_builtin_simps by code_simp+

lemma demo_premiums: "classic_premium 112 = DoubleWord" "classic_premium 113 = Normal"
  by code_simp+

lemma table_tile_at: "tile_at (g_state table_game) c = None"
  by (simp add: tile_at_def table_game_def list_get_def)

lemma table_owned: "validate_owned_placements demo_env table_game One table_move
   = Ok ([(0, \<lparr>pt_id = 0, pt_face = Letter ''A''\<rparr>), (9, \<lparr>pt_id = 9, pt_face = Letter ''B''\<rparr>)], rev table_tiles)"
  by (simp add: validate_owned_placements_def table_game_def own_step_def table_move_def index_at_def
     demo_profile demo_tokens in_bounds_def BOARD_SIZE_def Let_def validate_assignment_def table_tile_at[unfolded table_game_def, simplified])

lemma table_words: "formed_word_coordinates (g_state table_game) table_tiles Horizontal table_tiles
   = Ok [[Coordinate 7 7, Coordinate 7 8]]"
  by (simp add: formed_word_coordinates_def index_at_def push_segments_def word_origins_def word_segment_def
   scan_back.simps scan_forward.simps coordinate_at_def in_bounds_def BOARD_SIZE_def tile_with_proposed_def proposed_get_def
   table_tile_at push_if_word_def retain_first_def)

lemma table_word: "validate_word demo_env table_game table_tiles [Coordinate 7 7, Coordinate 7 8]
  = Ok \<lparr>fw_text = ''AB'', fw_normalized = ''AB'', fw_coordinates = [Coordinate 7 7, Coordinate 7 8],
     fw_letter_score = 4, fw_word_multiplier = 2, fw_score = 8\<rparr>"
  by (simp add: validate_word_def word_step_def tile_with_proposed_def proposed_get_def
     tile_value_def demo_values premium_step_def demo_premiums board_of_square coord_index_def in_bounds_def demo_profile demo_tokens checked_add_def checked_mul_def
     table_game_def demo_lexicon_def)


lemma table_sorted: "orientation_of (rev table_tiles) = Ok Horizontal"
  "sort_placements Horizontal (rev table_tiles) = table_tiles"
  "validate_unique_coordinates (rev table_tiles) = Ok ()"
  by (simp_all add: orientation_of_def Let_def sort_placements_def sort_key_def validate_unique_coordinates_def)

lemma table_placed: "validate_contiguous (g_state table_game) table_tiles Horizontal table_tiles = Ok ()"
  "validate_connection (g_state table_game) table_tiles = Ok ()"
  by (simp_all add: validate_contiguous_def list_get_def Let_def tile_with_proposed_def proposed_get_def ensure_def upt_rec
     validate_connection_def CENTER_def table_game_def list_all_iff)

lemma table_prepared: "prepare_placement demo_env table_game One table_move = Ok \<lparr>pr_placements = table_tiles,
    pr_played = hd (g_racks table_game), pr_words = [\<lparr>fw_text = ''AB'', fw_normalized = ''AB'',
      fw_coordinates = [Coordinate 7 7, Coordinate 7 8], fw_letter_score = 4, fw_word_multiplier = 2, fw_score = 8\<rparr>],
    pr_bingo_bonus = 0, pr_score = 8\<rparr>"
proof -
  have "g_ruleset table_game = the_builtin EnglishV1" "hd (g_racks table_game) =
    [\<lparr>pt_id = 0, pt_face = Letter ''A''\<rparr>, \<lparr>pt_id = 9, pt_face = Letter ''B''\<rparr>]" by (simp_all add: table_game_def)
  moreover have "table_move \<noteq> []" by (simp add: table_move_def)
  ultimately show ?thesis
    by (simp add: prepare_placement_def table_owned table_sorted[simplified] table_placed table_words table_word
      score_word_def checked_add_def)
qed

text \<open>A valid game in which one tile lies on the board and every other tile is in the bag.\<close>

definition mid_game :: Game where
  "mid_game = table_game\<lparr>g_bag := tl (expected_tiles (the_builtin EnglishV1)), g_racks := [[], []],
     g_state := (g_state table_game)\<lparr>
       gs_board := replicate 112 None @ Some \<lparr>bt_tile_id = 0, bt_letter = ''A'', bt_is_blank = False\<rparr> # replicate 112 None,
       gs_rack_counts := [0, 0], gs_bag_count := 99\<rparr>,
     g_events := [\<lparr>ge_sequence = 0, ge_visibility = Public, ge_lexicon = rs_lexicon (the_builtin EnglishV1),
       ge_kind = Passed One 0 One None\<rparr>]\<rparr>"

lemma label_tiles_Cons: "label_tiles (f # fs) = \<lparr>pt_id = 0, pt_face = f\<rparr> # tl (label_tiles (f # fs))"
  by (simp add: label_tiles_def)

lemma demo_first_tile:
  "expected_tiles (the_builtin EnglishV1) = \<lparr>pt_id = 0, pt_face = Letter ''A''\<rparr> # tl (expected_tiles (the_builtin EnglishV1))"
proof -
  have "expected_faces (the_builtin EnglishV1) = Letter ''A'' # tl (expected_faces (the_builtin EnglishV1))"
    unfolding expected_faces_def the_builtin_simps by code_simp
  then show ?thesis unfolding expected_tiles_def by (metis label_tiles_Cons)
qed

lemma mid_game_simps [simp]:
  "g_ruleset mid_game = the_builtin EnglishV1" "g_racks mid_game = [[], []]"
  "g_bag mid_game = tl (expected_tiles (the_builtin EnglishV1))"
  "gs_phase (g_state mid_game) = Active" "gs_current_player (g_state mid_game) = One"
  "gs_version (g_state mid_game) = 0" "gs_scoreless_turns (g_state mid_game) = 0" "gs_result (g_state mid_game) = None"
  "gs_board (g_state mid_game) ! 112 = Some \<lparr>bt_tile_id = 0, bt_letter = ''A'', bt_is_blank = False\<rparr>"
  by (simp_all add: mid_game_def table_game_def nth_append)

lemma mid_board: "physical_board demo_env (g_state mid_game) (the_builtin EnglishV1) = Ok [\<lparr>pt_id = 0, pt_face = Letter ''A''\<rparr>]"
proof -
  have "board_tiles (gs_board (g_state mid_game)) = [\<lparr>bt_tile_id = 0, bt_letter = ''A'', bt_is_blank = False\<rparr>]"
    by (simp add: board_tiles_def mid_game_def map_filter_def filter_replicate)
  then show ?thesis
    by (simp add: physical_board_def physical_tile_def demo_profile demo_tokens TileToken_new_def ascii_upper_def)
qed

lemma mid_inv: "game_inv demo_env mid_game"
proof -
  have "length (expected_tiles (the_builtin EnglishV1)) = 100"
    by (simp add: expected_tiles_def expected_faces_builtin total_tiles_builtin)
  then have "table_ok mid_game" by (simp add: table_ok_def BOARD_SQUARES_def BOARD_SIZE_def mid_game_def table_game_def)
  moreover have "mset (expected_tiles (the_builtin EnglishV1)) = add_mset \<lparr>pt_id = 0, pt_face = Letter ''A''\<rparr>
      (mset (tl (expected_tiles (the_builtin EnglishV1))))" using arg_cong[OF demo_first_tile, of mset] by simp
  then have "tiles_ok demo_env mid_game" by (simp add: tiles_ok_def mid_board)
  moreover have "log_ok mid_game" "end_ok mid_game" "ident_ok demo_env mid_game"
    by (simp_all add: log_ok_def end_ok_def ident_ok_def mid_game_def table_game_def demo_lexicon_def)
  ultimately show ?thesis by (simp add: game_inv_def)
qed

lemma mid_pass: "\<exists>g' ev. pass mid_game One 0 = Ok (g', ev) \<and> ge_kind ev = Passed One 1 Two None"
  by (simp add: pass_def validate_action_Ok[THEN iffD2] validate_action_def next_version_def next_player_def seat_next_def
    seat_active_def SEAT_ALL_def checked_add_def complete_when_def Let_def list_get_def)
end
