(* ===== verification/Pairing.thy ===== *)
theory Pairing
  imports Lexicon
begin

text \<open>
  The pairing algorithms of \<^verbatim>\<open>application/src/tournament.rs\<close>: the circle method of the
  round-robin formats (\<^verbatim>\<open>circle_rounds\<close>), the choice of the Swiss bye and the search for
  Swiss pairs without a rematch.

  A \<^verbatim>\<open>BTreeSet\<close> is a set; entrants are byte strings, compared bytewise.
\<close>

section \<open>Model\<close>

record EntrantPairing =
  ep_a :: string
  ep_b :: string

definition EntrantPairing_new :: "string \<Rightarrow> string \<Rightarrow> EntrantPairing" where
  "EntrantPairing_new first second =
     (if first \<le> second then \<lparr>ep_a = first, ep_b = second\<rparr> else \<lparr>ep_a = second, ep_b = first\<rparr>)"

record RoundPairings =
  rp_pairs :: "(string \<times> string) list"
  rp_bye :: "string option"

text \<open>One table of a round; \<^verbatim>\<open>(None, None)\<close> pairs nobody.\<close>

definition circle_table ::
  "string option list \<Rightarrow> RoundPairings \<Rightarrow> nat \<Rightarrow> ('e, RoundPairings) outcome" where
  "circle_table slots acc table =
     rbind (index_at slots table) (\<lambda>left.
     rbind (index_at slots (length slots - 1 - table)) (\<lambda>right.
     Ok (case (left, right) of
         (Some first, Some second) \<Rightarrow> acc\<lparr>rp_pairs := rp_pairs acc @ [(first, second)]\<rparr>
       | (Some entrant, None) \<Rightarrow> acc\<lparr>rp_bye := Some entrant\<rparr>
       | (None, Some entrant) \<Rightarrow> acc\<lparr>rp_bye := Some entrant\<rparr>
       | (None, None) \<Rightarrow> acc)))"

definition circle_round :: "string option list \<Rightarrow> ('e, RoundPairings) outcome" where
  "circle_round slots =
     try_fold (circle_table slots) \<lparr>rp_pairs = [], rp_bye = None\<rparr> [0..<length slots div 2]"

text \<open>\<^verbatim>\<open>slots.pop().expect(..)\<close> and \<^verbatim>\<open>slots.insert(1, last)\<close>, which panics beyond the end.\<close>

definition insert_at :: "nat \<Rightarrow> 'a \<Rightarrow> 'a list \<Rightarrow> ('e, 'a list) outcome" where
  "insert_at i x xs = (if i \<le> length xs then Ok (take i xs @ x # drop i xs) else Panic)"

definition rotate_slots :: "'a list \<Rightarrow> ('e, 'a list) outcome" where
  "rotate_slots slots = (if slots = [] then Panic else insert_at 1 (last slots) (butlast slots))"

fun circle_loop :: "nat \<Rightarrow> string option list \<Rightarrow> ('e, RoundPairings list) outcome" where
  "circle_loop 0 slots = Ok []"
| "circle_loop (Suc n) slots =
     rbind (circle_round slots) (\<lambda>r.
     rbind (rotate_slots slots) (\<lambda>slots'.
     rbind (circle_loop n slots') (\<lambda>rs. Ok (r # rs))))"

definition circle_slots :: "string list \<Rightarrow> string option list" where
  "circle_slots entrants = map Some entrants @ (if length entrants mod 2 = 0 then [] else [None])"

definition circle_rounds :: "string list \<Rightarrow> ('e, RoundPairings list) outcome" where
  "circle_rounds entrants = (let slots = circle_slots entrants in circle_loop (length slots - 1) slots)"

definition remove_at :: "nat \<Rightarrow> 'a list \<Rightarrow> 'a list" where
  "remove_at i xs = take i xs @ drop (Suc i) xs"

text \<open>\<^verbatim>\<open>rposition\<close>: the last index whose element satisfies the test.\<close>

definition rposition :: "('a \<Rightarrow> bool) \<Rightarrow> 'a list \<Rightarrow> nat option" where
  "rposition P xs = List.find (\<lambda>i. P (xs ! i)) (rev [0..<length xs])"

definition choose_swiss_bye :: "string list \<Rightarrow> string set \<Rightarrow> string option \<times> string list" where
  "choose_swiss_bye ordered prior_byes =
     (if length ordered mod 2 = 0 then (None, ordered)
      else let index = (case rposition (\<lambda>e. e \<notin> prior_byes) ordered of
                 Some i \<Rightarrow> i | None \<Rightarrow> length ordered - 1)
        in (Some (ordered ! index), remove_at index ordered))"

text \<open>A loop that returns the first success.\<close>

fun first_some :: "('a \<Rightarrow> 'b option) \<Rightarrow> 'a list \<Rightarrow> 'b option" where
  "first_some f [] = None"
| "first_some f (x # xs) = (case f x of Some y \<Rightarrow> Some y | None \<Rightarrow> first_some f xs)"

lemma first_some_cong [fundef_cong]:
  "xs = ys \<Longrightarrow> (\<And>x. x \<in> set ys \<Longrightarrow> f x = g x) \<Longrightarrow> first_some f xs = first_some g ys"
  by (induction ys arbitrary: xs) (auto split: option.splits)

lemma remove_at_length: "i < length xs \<Longrightarrow> length (remove_at i xs) = length xs - 1"
  by (simp add: remove_at_def)

function pair_without_rematches ::
  "EntrantPairing set \<Rightarrow> string list \<Rightarrow> (string \<times> string) list option" where
  "pair_without_rematches prior [] = Some []"
| "pair_without_rematches prior (first # rest) =
     first_some (\<lambda>partner_index.
       if EntrantPairing_new first (rest ! partner_index) \<in> prior then None
       else case pair_without_rematches prior (remove_at partner_index rest) of
           Some pairs \<Rightarrow> Some ((first, rest ! partner_index) # pairs)
         | None \<Rightarrow> None) [0..<length rest]"
  by pat_completeness auto
termination
  by (relation "measure (\<lambda>(_, xs). length xs)") (auto simp: remove_at_length)

datatype SwissRematchPolicy = Avoid | AllowWhenRequired

fun chunks_exact_2 :: "'a list \<Rightarrow> ('a \<times> 'a) list" where
  "chunks_exact_2 (x # y # xs) = (x, y) # chunks_exact_2 xs"
| "chunks_exact_2 _ = []"

definition swiss_pairs ::
  "string list \<Rightarrow> EntrantPairing set \<Rightarrow> SwissRematchPolicy \<Rightarrow> (string \<times> string) list option" where
  "swiss_pairs ordered prior policy = (case pair_without_rematches prior ordered of
       Some pairs \<Rightarrow> Some pairs
     | None \<Rightarrow> if policy = AllowWhenRequired then Some (chunks_exact_2 ordered) else None)"

section \<open>Swiss pairing: the search is sound and complete\<close>

definition members :: "(string \<times> string) list \<Rightarrow> string list" where
  "members pairs = concat (map (\<lambda>(a, b). [a, b]) pairs)"

definition fresh_matching :: "EntrantPairing set \<Rightarrow> string list \<Rightarrow> (string \<times> string) list \<Rightarrow> bool" where
  "fresh_matching prior ordered pairs \<longleftrightarrow> mset (members pairs) = mset ordered
     \<and> (\<forall>(a, b) \<in> set pairs. EntrantPairing_new a b \<notin> prior)"

lemma members_simps [simp]: "members [] = []" "members ((a, b) # ps) = a # b # members ps"
  by (simp_all add: members_def)

lemma EntrantPairing_new_sym: "EntrantPairing_new a b = EntrantPairing_new b a"
  by (auto simp: EntrantPairing_new_def)

lemma first_some_Some:
  "first_some f xs = Some y \<Longrightarrow> \<exists>x \<in> set xs. f x = Some y"
  by (induction xs) (auto split: option.splits)

lemma first_some_None: "first_some f xs = None \<longleftrightarrow> (\<forall>x \<in> set xs. f x = None)"
  by (induction xs) (auto split: option.splits)

lemma remove_at_mset: "i < length xs \<Longrightarrow> add_mset (xs ! i) (mset (remove_at i xs)) = mset xs"
  by (metis add_mset_add_single id_take_nth_drop mset.simps(2) mset_append remove_at_def union_mset_add_mset_right)

lemma pair_without_rematches_sound:
  "pair_without_rematches prior ordered = Some pairs \<Longrightarrow> fresh_matching prior ordered pairs"
proof (induction prior ordered arbitrary: pairs rule: pair_without_rematches.induct)
  case (1 prior)
  then show ?case by (simp add: fresh_matching_def)
next
  case (2 prior first rest)
  from first_some_Some[OF 2(2)[unfolded pair_without_rematches.simps]] obtain i ps where i: "i < length rest"
    "EntrantPairing_new first (rest ! i) \<notin> prior" "pair_without_rematches prior (remove_at i rest) = Some ps"
    "pairs = (first, rest ! i) # ps" by (auto split: if_splits option.splits)
  have "fresh_matching prior (remove_at i rest) ps" by (rule 2(1)) (use i in auto)
  then show ?case using i remove_at_mset[OF i(1)] by (auto simp: fresh_matching_def)
qed

lemma pair_without_rematches_complete:
  "fresh_matching prior ordered pairs \<Longrightarrow> pair_without_rematches prior ordered \<noteq> None"
proof (induction prior ordered arbitrary: pairs rule: pair_without_rematches.induct)
  case (1 prior)
  then show ?case by simp
next
  case (2 prior first rest)
  have "first \<in> set (members pairs)" using 2(2) by (metis fresh_matching_def list.set_intros(1) mset_eq_setD)
  then obtain a b where ab: "(a, b) \<in> set pairs" "first = a \<or> first = b" by (auto simp: members_def)
  define partner where "partner = (if first = a then b else a)"
  obtain ps qs where ps: "pairs = ps @ (a, b) # qs" using ab(1) by (metis split_list)
  have m: "mset (members (ps @ qs)) + {#first, partner#} = mset (first # rest)"
    using 2(2) ab(2) by (auto simp: fresh_matching_def ps partner_def members_def)
  then have rest: "add_mset partner (mset (members (ps @ qs))) = mset rest" by simp
  then have "partner \<in> set rest" by (metis set_mset_mset union_single_eq_member)
  then obtain i where i: "i < length rest" "rest ! i = partner" by (metis in_set_conv_nth)
  have fresh: "EntrantPairing_new first partner \<notin> prior"
    using 2(2) ab EntrantPairing_new_sym by (auto simp: fresh_matching_def partner_def)
  have "mset (members (ps @ qs)) = mset (remove_at i rest)"
    using rest remove_at_mset[OF i(1)] i(2) by (metis add_mset_add_mset_same_iff)
  then have "fresh_matching prior (remove_at i rest) (ps @ qs)" using 2(2) by (auto simp: fresh_matching_def ps)
  then have "pair_without_rematches prior (remove_at i rest) \<noteq> None"
    by (rule 2(1)[rotated 2]) (use i fresh in auto)
  then show ?case using i fresh by (auto simp: first_some_None split: option.splits intro!: bexI[of _ i])
qed

lemma chunks_exact_2_members: "even (length xs) \<Longrightarrow> members (chunks_exact_2 xs) = xs"
  by (induction xs rule: chunks_exact_2.induct) auto

section \<open>The Swiss bye\<close>

lemma rposition_Some:
  assumes "rposition P xs = Some i"
  shows "i < length xs" "P (xs ! i)" "\<And>j. i < j \<Longrightarrow> j < length xs \<Longrightarrow> \<not> P (xs ! j)"
proof -
  obtain k where k: "k < length xs" "P (xs ! (rev [0..<length xs] ! k))" "i = rev [0..<length xs] ! k"
    "\<forall>j < k. \<not> P (xs ! (rev [0..<length xs] ! j))"
    using assms by (auto simp: rposition_def find_Some_iff)
  have r: "rev [0..<length xs] ! j = length xs - Suc j" if "j < length xs" for j
    using that by (simp add: rev_nth)
  show "i < length xs" "P (xs ! i)" using k r[OF k(1)] by auto
  fix j assume j: "i < j" "j < length xs"
  have lt: "length xs - Suc j < k" using j k(1,3) r[OF k(1)] by linarith
  have "rev [0..<length xs] ! (length xs - Suc j) = j" using r[of "length xs - Suc j"] j by simp
  then show "\<not> P (xs ! j)" using k(4) lt by metis
qed

lemma rposition_None: "rposition P xs = None \<longleftrightarrow> (\<forall>x \<in> set xs. \<not> P x)"
  by (auto simp: rposition_def find_None_iff all_set_conv_all_nth)

text \<open>The bye goes to the last entrant in the order that had none, or to the last entrant.\<close>

lemma choose_swiss_bye_even: "even (length ordered) \<Longrightarrow> choose_swiss_bye ordered byes = (None, ordered)"
  by (simp add: choose_swiss_bye_def even_iff_mod_2_eq_zero)

lemma choose_swiss_bye_odd:
  assumes "odd (length ordered)" "choose_swiss_bye ordered byes = (bye, active)"
  shows "\<exists>i < length ordered. bye = Some (ordered ! i) \<and> active = remove_at i ordered \<and> even (length active)
    \<and> (ordered ! i \<in> byes \<longrightarrow> set ordered \<subseteq> byes) \<and> (\<forall>j. i < j \<and> j < length ordered \<longrightarrow> ordered ! j \<in> byes)
    \<and> (set ordered \<subseteq> byes \<longrightarrow> i = length ordered - 1)"
proof (cases "rposition (\<lambda>e. e \<notin> byes) ordered")
  case None
  have l: "length ordered - 1 < length ordered" using assms(1) by (cases ordered) auto
  show ?thesis
    using assms None l rposition_None[of "\<lambda>e. e \<notin> byes" ordered]
    by (intro exI[of _ "length ordered - 1"]) (auto simp: choose_swiss_bye_def Let_def odd_iff_mod_2_eq_one remove_at_length)
next
  case (Some i)
  note r = rposition_Some[OF Some]
  have "\<not> set ordered \<subseteq> byes" using r(1,2) nth_mem by blast
  then show ?thesis
    using assms Some r by (intro exI[of _ i]) (auto simp: choose_swiss_bye_def Let_def odd_iff_mod_2_eq_one remove_at_length)
qed

section \<open>The circle method\<close>

text \<open>
  After \<open>r\<close> rotations of \<open>m\<close> slots, slot 0 still holds the first entry and slot \<open>i \<ge> 1\<close> the
  entry whose number above 1 is \<open>i - 1 - r\<close> modulo \<open>m - 1\<close>.
\<close>

definition slot_index :: "nat \<Rightarrow> nat \<Rightarrow> nat \<Rightarrow> nat" where
  "slot_index m r i = (if i = 0 then 0 else 1 + nat ((int i - 1 - int r) mod (int m - 1)))"

definition rotated :: "nat \<Rightarrow> 'a list \<Rightarrow> 'a list" where
  "rotated r xs = map (\<lambda>i. xs ! slot_index (length xs) r i) [0..<length xs]"

lemma slot_index_less:
  assumes "2 \<le> m" "i < m"
  shows "slot_index m r i < m"
proof -
  have "0 \<le> (int i - 1 - int r) mod (int m - 1)" "(int i - 1 - int r) mod (int m - 1) < int m - 1"
    using assms by simp_all
  then have "nat ((int i - 1 - int r) mod (int m - 1)) < m - 1" by (subst nat_less_iff) linarith+
  then show ?thesis using assms by (simp add: slot_index_def less_diff_conv)
qed

lemma rotated_length [simp]: "length (rotated r xs) = length xs"
  by (simp add: rotated_def)

lemma rotated_nth: "i < length xs \<Longrightarrow> rotated r xs ! i = xs ! slot_index (length xs) r i"
  by (simp add: rotated_def)

lemma rotated_0: "2 \<le> length xs \<Longrightarrow> rotated 0 xs = xs"
proof (rule nth_equalityI)
  fix i assume "2 \<le> length xs" "i < length (rotated 0 xs)"
  moreover from this have "i \<noteq> 0 \<Longrightarrow> (int i - 1) mod (int (length xs) - 1) = int i - 1" by (intro mod_pos_pos_trivial) auto
  ultimately show "rotated 0 xs ! i = xs ! i" by (auto simp: rotated_nth slot_index_def nat_diff_distrib')
qed simp

lemma slot_index_Suc:
  assumes "2 \<le> m" "i < m"
  shows "slot_index m (Suc r) i = slot_index m r (if i = 0 then 0 else if i = 1 then m - 1 else i - 1)"
proof -
  have "(- 1 - int r) mod (int m - 1) = (int (m - 1) - 1 - int r) mod (int m - 1)"
    using assms mod_add_self1[of "int m - 1" "- 1 - int r"] by (simp add: of_nat_diff algebra_simps)
  then show ?thesis using assms by (auto simp: slot_index_def of_nat_diff algebra_simps)
qed

lemma rotate_slots_rotated:
  assumes "2 \<le> length xs"
  shows "rotate_slots (rotated r xs) = Ok (rotated (Suc r) xs)"
proof -
  let ?ys = "rotated r xs" and ?m = "length xs"
  have ne: "?ys \<noteq> []" "butlast ?ys \<noteq> []" using assms by (auto simp: rotated_def simp flip: length_0_conv)
  have "take 1 (butlast ?ys) @ last ?ys # drop 1 (butlast ?ys) = rotated (Suc r) xs"
  proof (rule nth_equalityI)
    show "length (take 1 (butlast ?ys) @ last ?ys # drop 1 (butlast ?ys)) = length (rotated (Suc r) xs)" using assms by simp
    fix i assume "i < length (take 1 (butlast ?ys) @ last ?ys # drop 1 (butlast ?ys))"
    then have i: "i < ?m" using assms by simp
    have l: "last ?ys = xs ! slot_index ?m r (?m - 1)" using assms ne(1) by (simp add: last_conv_nth rotated_nth)
    show "(take 1 (butlast ?ys) @ last ?ys # drop 1 (butlast ?ys)) ! i = rotated (Suc r) xs ! i"
      using i assms l by (auto simp: nth_append nth_Cons' nth_butlast rotated_nth slot_index_Suc not_less Suc_diff_Suc)
  qed
  moreover have "1 \<le> length (butlast ?ys)" using assms by simp
  ultimately show ?thesis using ne by (simp add: rotate_slots_def insert_at_def)
qed

text \<open>The tables of a round, and what the round keeps of them.\<close>

definition tables :: "'a list \<Rightarrow> ('a \<times> 'a) list" where
  "tables xs = map (\<lambda>t. (xs ! t, xs ! (length xs - 1 - t))) [0..<length xs div 2]"

fun table_pairs :: "'a option \<times> 'a option \<Rightarrow> ('a \<times> 'a) list" where
  "table_pairs (Some a, Some b) = [(a, b)]"
| "table_pairs _ = []"

fun table_byes :: "'a option \<times> 'a option \<Rightarrow> 'a list" where
  "table_byes (Some a, None) = [a]"
| "table_byes (None, Some b) = [b]"
| "table_byes _ = []"

definition round_of :: "string option list \<Rightarrow> RoundPairings" where
  "round_of xs = \<lparr>rp_pairs = concat (map table_pairs (tables xs)),
     rp_bye = (let byes = concat (map table_byes (tables xs)) in if byes = [] then None else Some (last byes))\<rparr>"

lemma circle_table_fold:
  assumes "\<forall>t \<in> set ts. t < length xs \<and> length xs - 1 - t < length xs"
  shows "try_fold (circle_table xs) acc ts = Ok \<lparr>
    rp_pairs = rp_pairs acc @ concat (map (\<lambda>t. table_pairs (xs ! t, xs ! (length xs - 1 - t))) ts),
    rp_bye = (let byes = concat (map (\<lambda>t. table_byes (xs ! t, xs ! (length xs - 1 - t))) ts)
      in if byes = [] then rp_bye acc else Some (last byes))\<rparr>"
  using assms
proof (induction ts arbitrary: acc)
  case Nil
  then show ?case by simp
next
  case (Cons t ts)
  then show ?case
    by (cases "xs ! t"; cases "xs ! (length xs - 1 - t)")
      (auto simp: circle_table_def index_at_def Let_def)
qed

lemma circle_round_Ok: "2 \<le> length xs \<Longrightarrow> circle_round xs = Ok (round_of xs)"
  unfolding circle_round_def
  by (subst circle_table_fold) (auto simp: round_of_def tables_def comp_def)

lemma circle_loop_Ok:
  assumes "2 \<le> length xs"
  shows "circle_loop n (rotated r xs) = Ok (map (\<lambda>k. round_of (rotated (r + k) xs)) [0..<n])"
proof (induction n arbitrary: r)
  case 0
  then show ?case by simp
next
  case (Suc n)
  have "map (\<lambda>k. round_of (rotated (r + k) xs)) [0..<Suc n] =
      round_of (rotated r xs) # map (\<lambda>k. round_of (rotated (Suc r + k) xs)) [0..<n]"
    by (simp add: upt_conv_Cons map_Suc_upt[symmetric] comp_def del: upt_Suc)
  then show ?case using assms by (simp add: circle_round_Ok rotate_slots_rotated Suc del: upt_Suc)
qed

section \<open>Every pair meets once\<close>

text \<open>The two slot numbers of a table add up to \<open>- 2 - 2 * r\<close>; 0 counts as its partner.\<close>

definition slot_weight :: "nat \<Rightarrow> nat \<Rightarrow> int" where
  "slot_weight i j = (if i = 0 then 2 * (int j - 1) else if j = 0 then 2 * (int i - 1) else int i + int j - 2)"

lemma slot_weight_sym: "slot_weight i j = slot_weight j i"
  by (simp add: slot_weight_def)

lemma table_weight:
  assumes "even m" "2 \<le> m" "t < m div 2"
  shows "slot_weight (slot_index m r t) (slot_index m r (m - 1 - t)) mod (int m - 1) = (- 2 - 2 * int r) mod (int m - 1)"
proof -
  let ?M = "int m - 1"
  have pos: "0 < m - 1 - t" using assms by auto
  have nn: "0 \<le> x mod ?M" for x using assms(2) by simp
  have mt: "int (m - 1 - t) = int m - 1 - int t" using assms by auto
  show ?thesis
  proof (cases "t = 0")
    case True
    have "2 * ((int m - 2 - int r) mod ?M) mod ?M = (- 2 - 2 * int r) mod ?M"
    proof -
      have "2 * ((int m - 2 - int r) mod ?M) mod ?M = (2 * (int m - 2 - int r)) mod ?M" by (simp add: mod_mult_right_eq)
      also have "2 * (int m - 2 - int r) = (- 2 - 2 * int r) + 2 * ?M" by simp
      finally show ?thesis by (metis mod_mult_self3 add.commute mod_mult_self1 mult.commute)
    qed
    then show ?thesis using True pos nn assms by (simp add: slot_weight_def slot_index_def mt algebra_simps)
  next
    case False
    have "((int t - 1 - int r) mod ?M + (int m - 2 - int t - int r) mod ?M) mod ?M = (- 2 - 2 * int r) mod ?M"
    proof -
      have "((int t - 1 - int r) mod ?M + (int m - 2 - int t - int r) mod ?M) mod ?M
          = ((int t - 1 - int r) + (int m - 2 - int t - int r)) mod ?M" by (simp add: mod_add_eq)
      also have "(int t - 1 - int r) + (int m - 2 - int t - int r) = (- 2 - 2 * int r) + ?M" by simp
      finally show ?thesis by (simp only: mod_add_self2)
    qed
    then show ?thesis using False pos nn assms by (simp add: slot_weight_def slot_index_def mt algebra_simps)
  qed
qed

lemma small_multiple: "M dvd d \<Longrightarrow> \<bar>d\<bar> < M \<Longrightarrow> d = 0" for d M :: int
  using dvd_imp_le_int[of d M] by linarith

lemma slot_index_inj:
  assumes "2 \<le> m" "i < m" "j < m" "slot_index m r i = slot_index m r j"
  shows "i = j"
proof -
  let ?M = "int m - 1"
  have nn: "0 \<le> x mod ?M" for x using assms(1) by simp
  show ?thesis
  proof (cases "i = 0 \<or> j = 0")
    case True
    then show ?thesis using assms(4) by (auto simp: slot_index_def split: if_splits)
  next
    case False
    then have "(int i - 1 - int r) mod ?M = (int j - 1 - int r) mod ?M"
      using assms(4) nn by (simp add: slot_index_def eq_nat_nat_iff)
    then have "(int i - 1 - int r - (int j - 1 - int r)) mod ?M = 0" by (simp add: mod_eq_dvd_iff mod_0_imp_dvd)
    then have d: "?M dvd int i - int j" by (simp add: mod_0_imp_dvd)
    have "\<bar>int i - int j\<bar> < ?M" using False assms(2,3) by auto
    then show ?thesis using small_multiple[OF d] by simp
  qed
qed

lemma odd_double_cancel:
  assumes "even m" "2 \<le> m" "r < m - 1" "q < m - 1" "(- 2 - 2 * int r) mod (int m - 1) = (- 2 - 2 * int q) mod (int m - 1)"
  shows "r = q"
proof -
  let ?M = "int m - 1"
  have "?M dvd (- 2 - 2 * int r) - (- 2 - 2 * int q)" using assms(5) by (simp add: mod_eq_dvd_iff)
  then have d: "?M dvd 2 * (int q - int r)" by (simp add: algebra_simps)
  have "odd ?M" using assms(1) by simp
  then have "coprime ?M 2" by (simp add: coprime_right_2_iff_odd)
  then have "?M dvd int q - int r" using d coprime_dvd_mult_right_iff by blast
  moreover have "\<bar>int q - int r\<bar> < ?M" using assms(3,4) by auto
  ultimately show ?thesis using small_multiple by fastforce
qed

definition table_slots :: "nat \<Rightarrow> nat \<times> nat \<Rightarrow> nat set" where
  "table_slots m rt = (case rt of (r, t) \<Rightarrow> {slot_index m r t, slot_index m r (m - 1 - t)})"

lemma table_slots_inj:
  assumes "even m" "2 \<le> m"
  shows "inj_on (table_slots m) ({0..<m - 1} \<times> {0..<m div 2})"
proof (rule inj_onI, clarsimp simp: table_slots_def)
  fix r t r' t' assume rt: "r < m - Suc 0" "t < m div 2" "r' < m - Suc 0" "t' < m div 2"
    and e: "{slot_index m r t, slot_index m r (m - Suc t)} = {slot_index m r' t', slot_index m r' (m - Suc t')}"
  have "slot_weight (slot_index m r t) (slot_index m r (m - 1 - t)) = slot_weight (slot_index m r' t') (slot_index m r' (m - 1 - t'))"
    using e slot_weight_sym by (auto simp: doubleton_eq_iff)
  then have rr: "r = r'"
    using table_weight[OF assms rt(2), of r] table_weight[OF assms rt(4), of r'] rt(1,3)
    by (intro odd_double_cancel[OF assms]) auto
  have inj: "slot_index m r i = slot_index m r j \<Longrightarrow> i < m \<Longrightarrow> j < m \<Longrightarrow> i = j" for i j
    using slot_index_inj[OF assms(2)] by blast
  have "t = t'" using e rt assms unfolding rr[symmetric] by (auto simp: doubleton_eq_iff dest!: inj)
  then show "r = r' \<and> t = t'" using rr by simp
qed

lemma table_slots_all:
  assumes "even m" "2 \<le> m"
  shows "table_slots m ` ({0..<m - 1} \<times> {0..<m div 2}) = {P. P \<subseteq> {0..<m} \<and> card P = 2}"
proof (rule card_subset_eq)
  show "finite {P. P \<subseteq> {0..<m} \<and> card P = 2}" by simp
  show "table_slots m ` ({0..<m - 1} \<times> {0..<m div 2}) \<subseteq> {P. P \<subseteq> {0..<m} \<and> card P = 2}"
  proof (clarsimp simp: table_slots_def)
    fix r t assume "t < m div 2"
    then have "t < m" "m - Suc t < m" "t \<noteq> m - Suc t" using assms by auto
    moreover from this have "slot_index m r t \<noteq> slot_index m r (m - Suc t)" using slot_index_inj[OF assms(2)] by blast
    ultimately show "slot_index m r t < m \<and> slot_index m r (m - Suc t) < m \<and>
        card {slot_index m r t, slot_index m r (m - Suc t)} = 2"
      by (simp add: slot_index_less[OF assms(2)])
  qed
  have "card (table_slots m ` ({0..<m - 1} \<times> {0..<m div 2})) = (m - 1) * (m div 2)"
    using card_image[OF table_slots_inj[OF assms]] by simp
  also have "\<dots> = m choose 2" using assms by (auto simp: choose_two elim!: evenE)
  finally show "card (table_slots m ` ({0..<m - 1} \<times> {0..<m div 2})) = card {P. P \<subseteq> {0..<m} \<and> card P = 2}"
    by (simp add: n_subsets)
qed

definition all_tables :: "'a list \<Rightarrow> 'a set list" where
  "all_tables xs = concat (map (\<lambda>r. map (\<lambda>(a, b). {a, b}) (tables (rotated r xs))) [0..<length xs - 1])"

lemma tables_rotated:
  assumes "2 \<le> length xs"
  shows "map (\<lambda>(a, b). {a, b}) (tables (rotated r xs)) =
    map (\<lambda>t. (!) xs ` table_slots (length xs) (r, t)) [0..<length xs div 2]"
  using assms by (auto simp: tables_def table_slots_def rotated_nth)

lemma all_tables_map:
  assumes "2 \<le> length xs"
  shows "all_tables xs = map (\<lambda>rt. (!) xs ` table_slots (length xs) rt)
    (List.product [0..<length xs - 1] [0..<length xs div 2])"
  unfolding all_tables_def tables_rotated[OF assms] by (simp add: product_concat_map map_concat comp_def)

text \<open>Over the rounds, the tables are all the pairs of distinct slots, each once.\<close>

lemma all_tables_once:
  assumes "even (length xs)" "2 \<le> length xs" "distinct xs"
  shows "distinct (all_tables xs)" "set (all_tables xs) = {P. P \<subseteq> set xs \<and> card P = 2}"
proof -
  let ?m = "length xs" and ?R = "{0..<length xs - 1} \<times> {0..<length xs div 2}"
  have inj: "inj_on ((!) xs) {0..<?m}" using assms(3) by (auto simp: inj_on_def nth_eq_iff_index_eq)
  have sub: "table_slots ?m ` ?R = {P. P \<subseteq> {0..<?m} \<and> card P = 2}" by (rule table_slots_all[OF assms(1,2)])
  have img: "inj_on (image ((!) xs)) (table_slots ?m ` ?R)"
    unfolding sub using inj_on_image_Pow[OF inj] by (rule inj_on_subset) auto
  have "inj_on (\<lambda>rt. (!) xs ` table_slots ?m rt) ?R"
    using comp_inj_on[OF table_slots_inj[OF assms(1,2)] img] by (simp add: comp_def)
  then show "distinct (all_tables xs)"
    by (simp add: all_tables_map[OF assms(2)] distinct_map distinct_product)
  have "set (all_tables xs) = image ((!) xs) ` (table_slots ?m ` ?R)"
    by (simp add: all_tables_map[OF assms(2)] image_image)
  also have "\<dots> = {P. P \<subseteq> set xs \<and> card P = 2}" unfolding sub
  proof (intro subset_antisym subsetI)
    fix Q assume "Q \<in> image ((!) xs) ` {P. P \<subseteq> {0..<?m} \<and> card P = 2}"
    then obtain P where P: "P \<subseteq> {0..<?m}" "card P = 2" "Q = (!) xs ` P" by auto
    then show "Q \<in> {P. P \<subseteq> set xs \<and> card P = 2}" using card_image[OF inj_on_subset[OF inj P(1)]] by auto
  next
    fix Q assume Q: "Q \<in> {P. P \<subseteq> set xs \<and> card P = 2}"
    have "set xs = (!) xs ` {0..<?m}" by (auto simp: set_conv_nth)
    then obtain P where P: "P \<subseteq> {0..<?m}" "Q = (!) xs ` P" using Q subset_image_iff[of Q "(!) xs"] by auto
    then show "Q \<in> image ((!) xs) ` {P. P \<subseteq> {0..<?m} \<and> card P = 2}"
      using Q card_image[OF inj_on_subset[OF inj P(1)]] by auto
  qed
  finally show "set (all_tables xs) = {P. P \<subseteq> set xs \<and> card P = 2}" .
qed

section \<open>Rounds of entrants\<close>

lemma rotated_mset:
  assumes "2 \<le> length xs"
  shows "mset (rotated r xs) = mset xs"
proof -
  let ?f = "slot_index (length xs) r"
  have inj: "inj_on ?f {0..<length xs}" using slot_index_inj[OF assms] by (auto simp: inj_on_def)
  moreover have "?f ` {0..<length xs} \<subseteq> {0..<length xs}" using slot_index_less[OF assms] by auto
  ultimately have "?f ` {0..<length xs} = {0..<length xs}" by (simp add: endo_inj_surj)
  then have "mset (map ?f [0..<length xs]) = mset [0..<length xs]"
    using image_mset_mset_set[OF inj] by simp
  then have "mset (map ((!) xs) (map ?f [0..<length xs])) = mset (map ((!) xs) [0..<length xs])" by (metis mset_map)
  then show ?thesis by (simp add: rotated_def comp_def map_nth)
qed

lemma tables_mset:
  assumes "even (length xs)"
  shows "mset (concat (map (\<lambda>(a, b). [a, b]) (tables xs))) = mset xs"
proof -
  obtain k where k: "length xs = 2 * k" using assms by (elim evenE)
  have flat: "mset (concat (map (\<lambda>(a, b). [a, b]) (map (\<lambda>t. (xs ! t, xs ! (2 * k - 1 - t))) ts)))
      = mset (map ((!) xs) ts) + mset (map (\<lambda>t. xs ! (2 * k - 1 - t)) ts)" for ts
    by (induction ts) auto
  have "map (\<lambda>t. 2 * k - 1 - t) [0..<k] = rev [k..<2 * k]"
    by (rule nth_equalityI) (auto simp: rev_nth)
  then have "map (\<lambda>t. xs ! (2 * k - 1 - t)) [0..<k] = rev (map ((!) xs) [k..<2 * k])"
    using map_map[of "(!) xs" "\<lambda>t. 2 * k - 1 - t" "[0..<k]"] by (simp add: comp_def rev_map)
  then have upper: "mset (map (\<lambda>t. xs ! (2 * k - 1 - t)) [0..<k]) = mset (map ((!) xs) [k..<2 * k])" by (simp only: mset_rev)
  have "xs = map ((!) xs) ([0..<k] @ [k..<2 * k])" using k map_nth[of xs] upt_add_eq_append[of 0 k k] by (simp add: mult_2)
  then have "mset xs = mset (map ((!) xs) [0..<k]) + mset (map ((!) xs) [k..<2 * k])" by (metis map_append mset_append)
  moreover have "tables xs = map (\<lambda>t. (xs ! t, xs ! (2 * k - 1 - t))) [0..<k]" using k by (simp add: tables_def)
  ultimately show ?thesis by (simp only: flat upper)
qed

text \<open>A round seats every entrant once, at a table or at the bye.\<close>

lemma tables_entrants:
  "mset (List.map_filter id (concat (map (\<lambda>(a, b). [a, b]) ts)))
    = mset (concat (map (\<lambda>(a, b). [a, b]) (concat (map table_pairs ts)))) + mset (concat (map table_byes ts))"
proof (induction ts)
  case (Cons t ts)
  obtain a b where "t = (a, b)" by force
  then show ?case using Cons by (cases a; cases b) (auto simp: List.map_filter_simps)
qed (simp add: List.map_filter_simps)

lemma circle_slots_facts:
  assumes "2 \<le> length es" "distinct es"
  shows "even (length (circle_slots es))" "2 \<le> length (circle_slots es)" "distinct (circle_slots es)"
    "List.map_filter id (circle_slots es) = es"
    "set (circle_slots es) = Some ` set es \<union> (if even (length es) then {} else {None})"
    "length (circle_slots es) - 1 = (if even (length es) then length es - 1 else length es)"
proof -
  show "List.map_filter id (circle_slots es) = es"
    by (simp add: circle_slots_def List.map_filter_def filter_map comp_def)
qed (use assms in \<open>auto simp: circle_slots_def distinct_map odd_iff_mod_2_eq_one[symmetric]\<close>)

lemma map_filter_mset: "mset xs = mset ys \<Longrightarrow> mset (List.map_filter f xs) = mset (List.map_filter f ys)"
  by (simp add: List.map_filter_def)

lemma tables_byes_length:
  assumes "distinct (concat (map (\<lambda>(a, b). [a, b]) ts))"
  shows "length (concat (map table_byes ts)) = (if None \<in> set (concat (map (\<lambda>(a, b). [a, b]) ts)) then 1 else 0)"
  using assms
proof (induction ts)
  case (Cons t ts)
  obtain a b where "t = (a, b)" by force
  then show ?case using Cons by (cases a; cases b) auto
qed simp

lemma round_entrants:
  fixes es :: "string list" and k :: nat
  assumes "2 \<le> length es" "distinct es"
  defines "r \<equiv> round_of (rotated k (circle_slots es))"
  shows "mset (members (rp_pairs r)) + (case rp_bye r of Some e \<Rightarrow> {#e#} | None \<Rightarrow> {#}) = mset es"
    "rp_bye r \<noteq> None \<longleftrightarrow> odd (length es)"
    "(case rp_bye r of Some e \<Rightarrow> [e] | None \<Rightarrow> []) = concat (map table_byes (tables (rotated k (circle_slots es))))"
proof -
  note f = circle_slots_facts[OF assms(1,2)]
  let ?xs = "rotated k (circle_slots es)" and ?flat = "concat (map (\<lambda>(a, b). [a, b]) (tables (rotated k (circle_slots es))))"
  let ?byes = "concat (map table_byes (tables (rotated k (circle_slots es))))"
  have m: "mset ?flat = mset (circle_slots es)" using tables_mset[of ?xs] rotated_mset[OF f(2)] f(1) by simp
  then have d: "distinct ?flat" using f(3) by (metis mset_eq_imp_distinct_iff)
  have len: "length ?byes = (if odd (length es) then 1 else 0)"
    unfolding tables_byes_length[OF d] mset_eq_setD[OF m] f(5) by auto
  then show b: "(case rp_bye r of Some e \<Rightarrow> [e] | None \<Rightarrow> []) = ?byes"
    by (cases ?byes) (auto simp: r_def round_of_def Let_def split: if_splits)
  show "rp_bye r \<noteq> None \<longleftrightarrow> odd (length es)" using len unfolding b[symmetric] by (cases "rp_bye r") (auto split: if_splits)
  have "mset es = mset (List.map_filter id ?flat)" using map_filter_mset[OF m, of id] f(4) by simp
  also have "\<dots> = mset (members (rp_pairs r)) + mset ?byes"
    unfolding tables_entrants by (simp add: r_def round_of_def members_def)
  finally show "mset (members (rp_pairs r)) + (case rp_bye r of Some e \<Rightarrow> {#e#} | None \<Rightarrow> {#}) = mset es"
    using b by (cases "rp_bye r") auto
qed

text \<open>
  The sets \<open>{a, b}\<close> of the pairs of all rounds, and the byes of all rounds, read off the tables.
\<close>

lemma table_pairs_sets:
  "map (\<lambda>(a, b). {a, b}) (concat (map table_pairs ts)) =
    map (image the) (filter (\<lambda>P. None \<notin> P) (map (\<lambda>(a, b). {a, b}) ts))"
proof (induction ts)
  case (Cons t ts)
  obtain a b where "t = (a, b)" by force
  then show ?case using Cons by (cases a; cases b) auto
qed simp

lemma table_byes_sets:
  assumes "(None, None) \<notin> set ts"
  shows "concat (map table_byes ts) =
    map (\<lambda>P. the (the_elem (P - {None}))) (filter (\<lambda>P. None \<in> P) (map (\<lambda>(a, b). {a, b}) ts))"
  using assms
proof (induction ts)
  case (Cons t ts)
  obtain a b where t: "t = (a, b)" by force
  have [simp]: "{None, Some x} - {None} = {Some x}" "{Some x, None} - {None} = {Some x}" for x :: 'a by auto
  show ?case using Cons t by (cases a; cases b) auto
qed simp

lemma inj_on_the_image: "inj_on (image the) {P. None \<notin> P}"
proof (rule inj_onI)
  fix P Q :: "'a option set" assume "P \<in> {P. None \<notin> P}" "Q \<in> {P. None \<notin> P}" "the ` P = the ` Q"
  moreover have "P = Some ` the ` P" if "None \<notin> P" for P :: "'a option set"
  proof -
    have "Some ` the ` P = (\<lambda>x. x) ` P" unfolding image_image using that by (intro image_cong refl) (metis option.collapse)
    then show ?thesis by simp
  qed
  ultimately show "P = Q" by (metis mem_Collect_eq)
qed

lemma circle_rounds_Ok:
  assumes "2 \<le> length es" "distinct es"
  shows "circle_rounds es = Ok (map (\<lambda>k. round_of (rotated k (circle_slots es))) [0..<length (circle_slots es) - 1])"
  using circle_loop_Ok[OF circle_slots_facts(2)[OF assms], of "length (circle_slots es) - 1" 0]
    rotated_0[OF circle_slots_facts(2)[OF assms]] by (simp add: circle_rounds_def Let_def)

lemma circle_pairs_once:
  assumes "2 \<le> length es" "distinct es" "circle_rounds es = Ok rs"
  shows "mset (map (\<lambda>(a, b). {a, b}) (concat (map rp_pairs rs))) = mset_set {P. P \<subseteq> set es \<and> card P = 2}"
proof -
  note f = circle_slots_facts[OF assms(1,2)]
  let ?xs = "circle_slots es"
  have rs: "rs = map (\<lambda>k. round_of (rotated k ?xs)) [0..<length ?xs - 1]"
    using assms(3) by (simp add: circle_rounds_Ok[OF assms(1,2)])
  have L: "map (\<lambda>(a, b). {a, b}) (concat (map rp_pairs rs)) = map (image the) (filter (\<lambda>P. None \<notin> P) (all_tables ?xs))"
    unfolding rs all_tables_def map_concat filter_concat by (simp add: comp_def round_of_def table_pairs_sets del: filter_map)
  have d: "distinct (map (image the) (filter (\<lambda>P. None \<notin> P) (all_tables ?xs)))"
    using all_tables_once(1)[OF f(1-3)] by (auto simp: distinct_map intro: inj_on_subset[OF inj_on_the_image])
  have S: "set (map (image the) (filter (\<lambda>P. None \<notin> P) (all_tables ?xs))) = {P. P \<subseteq> set es \<and> card P = 2}"
  proof -
    have e: "{P. P \<subseteq> set ?xs \<and> card P = 2 \<and> None \<notin> P} = image Some ` {P. P \<subseteq> set es \<and> card P = 2}"
    proof (intro subset_antisym subsetI)
      fix Q assume Q: "Q \<in> {P. P \<subseteq> set ?xs \<and> card P = 2 \<and> None \<notin> P}"
      then have "Q \<subseteq> Some ` set es" using f(5) by (auto split: if_splits)
      then obtain P where "P \<subseteq> set es" "Q = Some ` P" by (auto simp: subset_image_iff)
      then show "Q \<in> image Some ` {P. P \<subseteq> set es \<and> card P = 2}" using Q by (auto simp: card_image)
    next
      fix Q assume "Q \<in> image Some ` {P. P \<subseteq> set es \<and> card P = 2}"
      then show "Q \<in> {P. P \<subseteq> set ?xs \<and> card P = 2 \<and> None \<notin> P}" using f(5) by (auto simp: card_image)
    qed
    have "set (filter (\<lambda>P. None \<notin> P) (all_tables ?xs)) = {P. P \<subseteq> set ?xs \<and> card P = 2 \<and> None \<notin> P}"
      unfolding set_filter all_tables_once(2)[OF f(1-3)] by blast
    then show ?thesis unfolding e by (simp add: image_image)
  qed
  show ?thesis unfolding L S[symmetric] using mset_set_set[OF d] by (simp only:)
qed

lemma tables_no_empty:
  assumes "distinct (concat (map (\<lambda>(a, b). [a, b]) ts))"
  shows "(x, x) \<notin> set ts"
  using assms by (induction ts) auto

lemma circle_byes_once:
  assumes "2 \<le> length es" "distinct es" "circle_rounds es = Ok rs" "odd (length es)"
  shows "mset (List.map_filter rp_bye rs) = mset es"
proof -
  note f = circle_slots_facts[OF assms(1,2)]
  let ?xs = "circle_slots es" and ?the = "\<lambda>P. the (the_elem (P - {None}))"
  have rs: "rs = map (\<lambda>k. round_of (rotated k ?xs)) [0..<length ?xs - 1]"
    using assms(3) by (simp add: circle_rounds_Ok[OF assms(1,2)])
  have flat: "distinct (concat (map (\<lambda>(a, b). [a, b]) (tables (rotated k ?xs))))" for k
    using tables_mset[of "rotated k ?xs"] rotated_mset[OF f(2)] f(1,3) by (metis mset_eq_imp_distinct_iff rotated_length)
  have "List.map_filter rp_bye rs = concat (map (\<lambda>r. case rp_bye r of Some e \<Rightarrow> [e] | None \<Rightarrow> []) rs)"
    by (induction rs) (auto simp: List.map_filter_simps split: option.splits)
  also have "\<dots> = concat (map (\<lambda>k. concat (map table_byes (tables (rotated k ?xs)))) [0..<length ?xs - 1])"
    unfolding rs using round_entrants(3)[OF assms(1,2)] by (simp add: comp_def)
  also have "\<dots> = map ?the (filter (\<lambda>P. None \<in> P) (all_tables ?xs))"
    unfolding all_tables_def map_concat filter_concat
    by (simp add: comp_def table_byes_sets[OF tables_no_empty[OF flat]] del: filter_map)
  finally have byes: "List.map_filter rp_bye rs = map ?the (filter (\<lambda>P. None \<in> P) (all_tables ?xs))" .
  have sets: "set (filter (\<lambda>P. None \<in> P) (all_tables ?xs)) = (\<lambda>e. {None, Some e}) ` set es"
    using all_tables_once(2)[OF f(1-3)] f(5) assms(4) by (auto simp: card_2_iff)
  have val: "?the {None, Some e} = e" for e :: string
  proof -
    have "{None, Some e} - {None} = {Some e}" by auto
    then show ?thesis by simp
  qed
  have "distinct (map ?the (filter (\<lambda>P. None \<in> P) (all_tables ?xs)))"
    unfolding distinct_map sets using all_tables_once(1)[OF f(1-3)] by (auto simp: inj_on_def val)
  moreover have "set (map ?the (filter (\<lambda>P. None \<in> P) (all_tables ?xs))) = set es"
    unfolding set_map sets image_image val by simp
  ultimately show ?thesis using assms(2) unfolding byes by (simp only: set_eq_iff_mset_eq_distinct)
qed

end
