(* ===== verification/Tournament.thy ===== *)
theory Tournament
  imports Pairing
begin

text \<open>
  Tournaments (\<^verbatim>\<open>application/src/tournament.rs\<close>): specifications, static schedules, Swiss rounds
  and the lifecycle. The pairing algorithms are in \<^verbatim>\<open>Pairing\<close>.

  A \<^verbatim>\<open>BTreeMap\<close> is a partial function, or an association list where its size is read. The JSON bytes of a format and its profiles
  (\<^verbatim>\<open>serde_json::to_vec\<close>) are the argument \<open>json\<close>, \<open>None\<close> when serialisation fails.
\<close>

section \<open>Specifications\<close>

definition TOURNAMENT_FORMAT_SCHEMA_VERSION :: nat where "TOURNAMENT_FORMAT_SCHEMA_VERSION = 1"
definition TOURNAMENT_SCHEDULE_SCHEMA_VERSION :: nat where "TOURNAMENT_SCHEDULE_SCHEMA_VERSION = 1"
definition TOURNAMENT_LIFECYCLE_SCHEMA_VERSION :: nat where "TOURNAMENT_LIFECYCLE_SCHEMA_VERSION = 1"

record TournamentEntrant =
  te_entrant_id :: string
  te_seed_number :: nat
  te_manifest_sha256 :: "string option"

record TournamentGameProfile =
  tp_language :: string
  tp_ruleset_id :: string
  tp_ruleset_sha256 :: string
  tp_lexicon :: PackIdentity

datatype SeriesSeatPolicy = Alternate | PairedSwap

datatype TournamentFormat =
    RoundRobin nat
  | PairedSeatSwap nat
  | Swiss nat nat SwissRematchPolicy
  | Series nat nat SeriesSeatPolicy

fun format_kind :: "TournamentFormat \<Rightarrow> string" where
  "format_kind (RoundRobin _) = ''round_robin''"
| "format_kind (PairedSeatSwap _) = ''paired_seat_swap''"
| "format_kind (Swiss _ _ _) = ''swiss''"
| "format_kind (Series _ _ _) = ''series''"

fun games_per_series :: "TournamentFormat \<Rightarrow> nat" where
  "games_per_series (RoundRobin _) = 1"
| "games_per_series (PairedSeatSwap _) = 2"
| "games_per_series (Swiss _ games _) = games"
| "games_per_series (Series _ games _) = games"

fun static_cycles :: "TournamentFormat \<Rightarrow> nat option" where
  "static_cycles (RoundRobin cycles) = Some cycles"
| "static_cycles (PairedSeatSwap cycles) = Some cycles"
| "static_cycles (Series cycles _ _) = Some cycles"
| "static_cycles (Swiss _ _ _) = None"

record TournamentSpec =
  ts_schema_version :: nat
  ts_tournament_id :: string
  ts_format :: TournamentFormat
  ts_entrants :: "TournamentEntrant list"
  ts_profiles :: "TournamentGameProfile list"
  ts_game_seed_commitments :: "string list"

record TournamentFormatIdentity =
  fi_schema_version :: nat
  fi_sha256 :: string

record ScheduledSeries =
  ss_series_id :: string
  ss_round_number :: nat
  ss_table_number :: nat
  ss_entrant_a :: string
  ss_entrant_b :: string
  ss_match_ids :: "string list"

record ScheduledMatch =
  sm_match_id :: string
  sm_series_id :: string
  sm_sequence :: nat
  sm_round_number :: nat
  sm_table_number :: nat
  sm_series_game_number :: nat
  sm_seat_one :: string
  sm_seat_two :: string
  sm_profile :: TournamentGameProfile
  sm_seed_commitment :: string

record TournamentBye =
  tb_round_number :: nat
  tb_entrant_id :: string

record TournamentSchedule =
  sch_schema_version :: nat
  sch_tournament_id :: string
  sch_format_identity :: TournamentFormatIdentity
  sch_series :: "ScheduledSeries list"
  sch_matches :: "ScheduledMatch list"
  sch_byes :: "TournamentBye list"

datatype TournamentError =
    InvalidSpec
  | SwissProgressRequired
  | InvalidSwissProgress
  | SwissPairingUnavailable
  | MissingGameSeeds
  | ExtraGameSeeds
  | Overflow
  | Serialization

definition valid_entrant :: "TournamentEntrant \<Rightarrow> bool" where
  "valid_entrant e \<longleftrightarrow> valid_id 256 (te_entrant_id e) \<and> 0 < te_seed_number e
     \<and> (case te_manifest_sha256 e of None \<Rightarrow> True | Some digest \<Rightarrow> valid_sha256 digest)"

definition valid_profile :: "TournamentGameProfile \<Rightarrow> bool" where
  "valid_profile p \<longleftrightarrow> valid_id 256 (tp_language p) \<and> valid_id 256 (tp_ruleset_id p)
     \<and> valid_sha256 (tp_ruleset_sha256 p) \<and> valid_id 256 (pi_pack_id (tp_lexicon p))
     \<and> valid_id 256 (pi_pack_version (tp_lexicon p)) \<and> valid_sha256 (pi_content_sha256 (tp_lexicon p))"

fun valid_format :: "TournamentFormat \<Rightarrow> bool" where
  "valid_format (RoundRobin cycles) \<longleftrightarrow> cycles \<noteq> 0"
| "valid_format (PairedSeatSwap cycles) \<longleftrightarrow> cycles \<noteq> 0"
| "valid_format (Swiss rounds games _) \<longleftrightarrow> rounds \<noteq> 0 \<and> games \<noteq> 0"
| "valid_format (Series cycles games policy) \<longleftrightarrow>
     cycles \<noteq> 0 \<and> games \<noteq> 0 \<and> \<not> (policy = PairedSwap \<and> games mod 2 \<noteq> 0)"

definition validate_spec :: "TournamentSpec \<Rightarrow> (TournamentError, unit) outcome" where
  "validate_spec spec =
     (if ts_schema_version spec \<noteq> TOURNAMENT_FORMAT_SCHEMA_VERSION \<or> \<not> valid_id 256 (ts_tournament_id spec)
         \<or> length (ts_entrants spec) < 2 \<or> ts_profiles spec = []
         \<or> list_ex (\<lambda>e. \<not> valid_entrant e) (ts_entrants spec) \<or> list_ex (\<lambda>p. \<not> valid_profile p) (ts_profiles spec)
         \<or> list_ex (\<lambda>s. \<not> valid_sha256 s) (ts_game_seed_commitments spec)
      then Err InvalidSpec
      else if length (remdups (map te_entrant_id (ts_entrants spec))) \<noteq> length (ts_entrants spec)
         \<or> length (remdups (map te_seed_number (ts_entrants spec))) \<noteq> length (ts_entrants spec)
      then Err InvalidSpec
      else if valid_format (ts_format spec) then Ok () else Err InvalidSpec)"

type_synonym format_json = "TournamentFormat \<Rightarrow> TournamentGameProfile list \<Rightarrow> byte list option"

definition format_identity ::
  "env \<Rightarrow> format_json \<Rightarrow> TournamentSpec \<Rightarrow> (TournamentError, TournamentFormatIdentity) outcome" where
  "format_identity E json spec =
     rbind (validate_spec spec) (\<lambda>_.
     rbind (ok_or Serialization (json (ts_format spec) (ts_profiles spec))) (\<lambda>bytes.
     Ok \<lparr>fi_schema_version = TOURNAMENT_FORMAT_SCHEMA_VERSION, fi_sha256 = hex_lower (env_sha256 E bytes)\<rparr>))"

definition ordered_entrant_ids :: "TournamentSpec \<Rightarrow> string list" where
  "ordered_entrant_ids spec =
     map te_entrant_id (sort_key (\<lambda>e. (te_seed_number e, te_entrant_id e)) (ts_entrants spec))"

text \<open>\<^verbatim>\<open>iter().enumerate().map(|(rank, entrant)| (entrant, rank)).collect()\<close>\<close>

type_synonym ranks = "(string \<times> nat) list"

definition rank_map :: "string list \<Rightarrow> ranks" where
  "rank_map entrants = rev (zip entrants [0..<length entrants])"

definition rank_count :: "ranks \<Rightarrow> nat" where
  "rank_count ranks = length (remdups (map fst ranks))"

section \<open>Identifiers\<close>

fun decimal :: "nat \<Rightarrow> string" where
  "decimal n = (if n < 10 then [char_of (48 + n)] else decimal (n div 10) @ [char_of (48 + n mod 10)])"

declare decimal.simps [simp del]

text \<open>\<^verbatim>\<open>{n:04}\<close>\<close>

definition padded :: "nat \<Rightarrow> string" where
  "padded n = replicate (4 - length (decimal n)) (CHR ''0'') @ decimal n"

definition series_id_of :: "TournamentSpec \<Rightarrow> nat \<Rightarrow> nat \<Rightarrow> string" where
  "series_id_of spec round_number table_number =
     ts_tournament_id spec @ ''-r'' @ padded round_number @ ''-t'' @ padded table_number"

definition match_id_of :: "string \<Rightarrow> nat \<Rightarrow> string" where
  "match_id_of series_id game_number = series_id @ ''-g'' @ padded game_number"

section \<open>Seats\<close>

type_synonym balance = "string \<rightharpoonup> nat \<times> nat"

definition balance_get :: "balance \<Rightarrow> string \<Rightarrow> nat \<times> nat" where
  "balance_get balance e = (case balance e of Some b \<Rightarrow> b | None \<Rightarrow> (0, 0))"

definition abs_diff :: "nat \<Rightarrow> nat \<Rightarrow> nat" where
  "abs_diff a b = (if a \<le> b then b - a else a - b)"

definition orientation_penalty :: "nat \<times> nat \<Rightarrow> nat \<times> nat \<Rightarrow> nat" where
  "orientation_penalty seat_one seat_two =
     abs_diff (saturating_add 32 (fst seat_one) 1) (snd seat_one)
     + abs_diff (fst seat_two) (saturating_add 32 (snd seat_two) 1)"

definition preferred_orientation :: "string \<Rightarrow> string \<Rightarrow> balance \<Rightarrow> string \<times> string" where
  "preferred_orientation first second balance =
     (let first_balance = balance_get balance first; second_balance = balance_get balance second;
          first_one = orientation_penalty first_balance second_balance;
          second_one = orientation_penalty second_balance first_balance
      in if first_one < second_one \<or> first_one = second_one \<and> first \<le> second then (first, second) else (second, first))"

definition update_seat_balance :: "balance \<Rightarrow> string \<Rightarrow> string \<Rightarrow> balance" where
  "update_seat_balance balance seat_one seat_two =
     (let (a, b) = balance_get balance seat_one; balance' = balance(seat_one \<mapsto> (saturating_add 32 a 1, b));
          (c, d) = balance_get balance' seat_two
      in balance'(seat_two \<mapsto> (c, saturating_add 32 d 1)))"

definition orient_pair ::
  "ranks \<Rightarrow> nat \<Rightarrow> nat \<Rightarrow> string \<times> string \<Rightarrow> (TournamentError, string \<times> string) outcome" where
  "orient_pair ranks entrant_count cycle pair = (case pair of (first, second) \<Rightarrow>
     rbind (expect (map_of ranks first)) (\<lambda>first_rank.
     rbind (expect (map_of ranks second)) (\<lambda>second_rank.
     let difference = (second_rank + entrant_count - first_rank) mod entrant_count;
         first_is_seat_one =
           (if entrant_count mod 2 = 0 \<and> difference = entrant_count div 2
            then (min first_rank second_rank mod 2 = 0) = (first_rank < second_rank)
            else difference \<le> entrant_count div 2)
     in Ok (if first_is_seat_one \<noteq> (cycle mod 2 \<noteq> 0) then (first, second) else (second, first)))))"

definition orient_static_round ::
  "RoundPairings \<Rightarrow> ranks \<Rightarrow> nat \<Rightarrow> nat \<Rightarrow> (TournamentError, RoundPairings) outcome" where
  "orient_static_round rnd ranks entrant_count cycle =
     rbind (traverse (orient_pair ranks entrant_count cycle) (rp_pairs rnd)) (\<lambda>pairs.
     Ok \<lparr>rp_pairs = pairs, rp_bye = rp_bye rnd\<rparr>)"

section \<open>The schedule builder\<close>

record ScheduleBuilder =
  sb_spec :: TournamentSpec
  sb_format_identity :: TournamentFormatIdentity
  sb_seed_index :: nat
  sb_next_sequence :: nat
  sb_series :: "ScheduledSeries list"
  sb_matches :: "ScheduledMatch list"
  sb_byes :: "TournamentBye list"
  sb_profile_exposure :: "string \<times> nat \<rightharpoonup> nat"
  sb_entrant_ranks :: ranks
  sb_static_rounds_per_cycle :: nat

definition ScheduleBuilder_new ::
  "env \<Rightarrow> format_json \<Rightarrow> TournamentSpec \<Rightarrow> nat \<Rightarrow> nat \<Rightarrow> (TournamentError, ScheduleBuilder) outcome" where
  "ScheduleBuilder_new E json spec seed_index next_sequence =
     (let ordered_entrants = ordered_entrant_ids spec;
          static_round_count = (if length ordered_entrants mod 2 = 0 then length ordered_entrants - 1
            else length ordered_entrants)
      in rbind (format_identity E json spec) (\<lambda>identity.
         rbind (ok_or Overflow (try_from 16 static_round_count)) (\<lambda>rounds_per_cycle.
         Ok \<lparr>sb_spec = spec, sb_format_identity = identity, sb_seed_index = seed_index,
           sb_next_sequence = next_sequence, sb_series = [], sb_matches = [], sb_byes = [],
           sb_profile_exposure = Map.empty, sb_entrant_ranks = rank_map ordered_entrants,
           sb_static_rounds_per_cycle = rounds_per_cycle\<rparr>)))"

definition exposure_get :: "ScheduleBuilder \<Rightarrow> string \<Rightarrow> nat \<Rightarrow> nat" where
  "exposure_get b e p = (case sb_profile_exposure b (e, p) of Some n \<Rightarrow> n | None \<Rightarrow> 0)"

text \<open>\<^verbatim>\<open>min_by_key\<close> keeps the first of equal minima.\<close>

fun min_by_key :: "('a \<Rightarrow> 'k::linorder) \<Rightarrow> 'a list \<Rightarrow> 'a option" where
  "min_by_key f [] = None"
| "min_by_key f (x # xs) = (case min_by_key f xs of
     None \<Rightarrow> Some x | Some y \<Rightarrow> if f y < f x then Some y else Some x)"

definition preferred_profile :: "ScheduleBuilder \<Rightarrow> string \<Rightarrow> string \<Rightarrow> (TournamentError, nat) outcome" where
  "preferred_profile b first second =
     (let profile_count = length (ts_profiles (sb_spec b));
          start = length (sb_series b) mod profile_count
      in expect (min_by_key (\<lambda>profile.
           let first_count = exposure_get b first profile; second_count = exposure_get b second profile
           in (saturating_add 32 first_count second_count, max first_count second_count,
               (profile + profile_count - start) mod profile_count))
         (map (\<lambda>offset. (start + offset) mod profile_count) [0..<profile_count])))"

text \<open>Integer underflow and a zero divisor panic.\<close>

definition static_profile :: "ScheduleBuilder \<Rightarrow> string \<Rightarrow> string \<Rightarrow> nat \<Rightarrow> (TournamentError, nat) outcome" where
  "static_profile b first second round_number =
     rbind (expect (map_of (sb_entrant_ranks b) first)) (\<lambda>first_rank.
     rbind (expect (map_of (sb_entrant_ranks b) second)) (\<lambda>second_rank.
     let direct_distance = abs_diff first_rank second_rank;
         entrant_count = rank_count (sb_entrant_ranks b) in
     rbind (expect (checked_sub entrant_count direct_distance)) (\<lambda>other_way.
     let circular_distance = min direct_distance other_way in
     rbind (expect (checked_sub round_number 1)) (\<lambda>round_index.
     if sb_static_rounds_per_cycle b = 0 \<or> ts_profiles (sb_spec b) = [] then Panic
     else let cycle = round_index div sb_static_rounds_per_cycle b in
     rbind (expect (checked_sub circular_distance 1)) (\<lambda>steps.
     Ok ((steps + cycle) mod length (ts_profiles (sb_spec b))))))))"

definition add_game ::
  "string \<Rightarrow> nat \<Rightarrow> nat \<Rightarrow> string \<times> string \<Rightarrow> nat \<Rightarrow> ScheduleBuilder \<times> balance \<times> string list \<Rightarrow> nat
     \<Rightarrow> (TournamentError, ScheduleBuilder \<times> balance \<times> string list) outcome" where
  "add_game series_id round_number table_number base profile_index acc game_index = (case acc of (b, balance, match_ids) \<Rightarrow>
     rbind (ok_or Overflow (checked_add 16 game_index 1)) (\<lambda>series_game_number.
     let match_id = match_id_of series_id series_game_number;
         (seat_one, seat_two) = (if game_index mod 2 = 0 then base else (snd base, fst base)) in
     rbind (ok_or MissingGameSeeds (if sb_seed_index b < length (ts_game_seed_commitments (sb_spec b))
         then Some (ts_game_seed_commitments (sb_spec b) ! sb_seed_index b) else None)) (\<lambda>seed.
     rbind (ok_or Overflow (checked_add 64 (sb_seed_index b) 1)) (\<lambda>seed_index.
     rbind (ok_or Overflow (checked_add 64 (sb_next_sequence b) 1)) (\<lambda>next_sequence.
     rbind (index_at (ts_profiles (sb_spec b)) profile_index) (\<lambda>profile.
     let m = \<lparr>sm_match_id = match_id, sm_series_id = series_id, sm_sequence = sb_next_sequence b,
           sm_round_number = round_number, sm_table_number = table_number,
           sm_series_game_number = series_game_number, sm_seat_one = seat_one, sm_seat_two = seat_two,
           sm_profile = profile, sm_seed_commitment = seed\<rparr>
     in Ok (b\<lparr>sb_seed_index := seed_index, sb_next_sequence := next_sequence, sb_matches := sb_matches b @ [m]\<rparr>,
            update_seat_balance balance seat_one seat_two, match_ids @ [match_id])))))))"

definition expose :: "nat \<Rightarrow> nat \<Rightarrow> ScheduleBuilder \<Rightarrow> string \<Rightarrow> ScheduleBuilder" where
  "expose profile_index games b entrant =
     b\<lparr>sb_profile_exposure := (sb_profile_exposure b)
       ((entrant, profile_index) \<mapsto> saturating_add 32 (exposure_get b entrant profile_index) games)\<rparr>"

definition add_series ::
  "nat \<Rightarrow> bool \<Rightarrow> ScheduleBuilder \<times> balance \<Rightarrow> nat \<Rightarrow> string \<times> string
     \<Rightarrow> (TournamentError, ScheduleBuilder \<times> balance) outcome" where
  "add_series round_number respect_pair_order acc table_number pair = (case acc of (b, balance) \<Rightarrow> case pair of (first, second) \<Rightarrow>
     let series_id = series_id_of (sb_spec b) round_number table_number;
         base = (if respect_pair_order then (first, second) else preferred_orientation first second balance);
         games = games_per_series (ts_format (sb_spec b)) in
     rbind (if respect_pair_order then static_profile b first second round_number
            else preferred_profile b first second) (\<lambda>profile_index.
     rbind (try_fold (add_game series_id round_number table_number base profile_index) (b, balance, []) [0..<games])
       (\<lambda>(b', balance', match_ids).
     let b'' = fold (\<lambda>e b. expose profile_index games b e) [first, second] b'
     in Ok (b''\<lparr>sb_series := sb_series b'' @ [\<lparr>ss_series_id = series_id, ss_round_number = round_number,
          ss_table_number = table_number, ss_entrant_a = first, ss_entrant_b = second, ss_match_ids = match_ids\<rparr>]\<rparr>,
          balance'))))"

definition add_table ::
  "nat \<Rightarrow> bool \<Rightarrow> ScheduleBuilder \<times> balance \<Rightarrow> nat \<times> string \<times> string
     \<Rightarrow> (TournamentError, ScheduleBuilder \<times> balance) outcome" where
  "add_table round_number respect_pair_order acc entry = (case entry of (table_index, pair) \<Rightarrow>
     rbind (ok_or Overflow (try_from 16 (table_index + 1))) (\<lambda>table_number.
     add_series round_number respect_pair_order acc table_number pair))"

definition add_round ::
  "bool \<Rightarrow> ScheduleBuilder \<times> balance \<Rightarrow> nat \<Rightarrow> RoundPairings
     \<Rightarrow> (TournamentError, ScheduleBuilder \<times> balance) outcome" where
  "add_round respect_pair_order acc round_number rnd = (case acc of (b, balance) \<Rightarrow>
     let b' = (case rp_bye rnd of
           None \<Rightarrow> b
         | Some e \<Rightarrow> b\<lparr>sb_byes := sb_byes b @ [\<lparr>tb_round_number = round_number, tb_entrant_id = e\<rparr>]\<rparr>)
     in try_fold (add_table round_number respect_pair_order) (b', balance) (List.enumerate 0 (rp_pairs rnd)))"

definition builder_finish :: "ScheduleBuilder \<Rightarrow> bool \<Rightarrow> (TournamentError, TournamentSchedule) outcome" where
  "builder_finish b require_all_seeds =
     (if require_all_seeds \<and> sb_seed_index b \<noteq> length (ts_game_seed_commitments (sb_spec b)) then Err ExtraGameSeeds
      else Ok \<lparr>sch_schema_version = TOURNAMENT_SCHEDULE_SCHEMA_VERSION,
        sch_tournament_id = ts_tournament_id (sb_spec b), sch_format_identity = sb_format_identity b,
        sch_series = sb_series b, sch_matches = sb_matches b, sch_byes = sb_byes b\<rparr>)"

section \<open>Schedules\<close>

definition static_round ::
  "ranks \<Rightarrow> nat \<Rightarrow> nat \<Rightarrow> nat \<Rightarrow> ScheduleBuilder \<times> balance \<Rightarrow> nat \<times> RoundPairings
     \<Rightarrow> (TournamentError, ScheduleBuilder \<times> balance) outcome" where
  "static_round ranks entrant_count round_count cycle acc entry = (case entry of (round_index, rnd) \<Rightarrow>
     rbind (ok_or Overflow (try_from 16 round_index)) (\<lambda>round_offset.
     rbind (ok_or Overflow (try_from 16 round_count)) (\<lambda>rounds_len.
     rbind (ok_or Overflow (Option.bind (checked_mul 16 cycle rounds_len) (\<lambda>v.
         Option.bind (checked_add 16 v round_offset) (\<lambda>v. checked_add 16 v 1)))) (\<lambda>round_number.
     rbind (orient_static_round rnd ranks entrant_count cycle) (\<lambda>oriented.
     add_round True acc round_number oriented)))))"

definition schedule :: "env \<Rightarrow> format_json \<Rightarrow> TournamentSpec \<Rightarrow> (TournamentError, TournamentSchedule) outcome" where
  "schedule E json spec =
     rbind (validate_spec spec) (\<lambda>_.
     rbind (ok_or SwissProgressRequired (static_cycles (ts_format spec))) (\<lambda>cycles.
     let ordered_entrants = ordered_entrant_ids spec; ranks = rank_map ordered_entrants in
     rbind (circle_rounds ordered_entrants) (\<lambda>rounds.
     rbind (ScheduleBuilder_new E json spec 0 0) (\<lambda>builder.
     rbind (try_fold (\<lambda>acc cycle. try_fold (static_round ranks (length ordered_entrants) (length rounds) cycle) acc
         (List.enumerate 0 rounds)) (builder, Map.empty) [0..<cycles]) (\<lambda>(b, _).
     builder_finish b True)))))"

record SwissStanding =
  st_entrant_id :: string
  st_match_points :: int
  st_spread :: int
  st_wins :: nat

record SeatBalance =
  bal_entrant_id :: string
  bal_seat_one_games :: nat
  bal_seat_two_games :: nat

record SwissProgress =
  sw_completed_rounds :: nat
  sw_standings :: "SwissStanding list"
  sw_prior_pairings :: "EntrantPairing set"
  sw_prior_byes :: "string set"
  sw_seat_balance :: "SeatBalance list"
  sw_next_seed_index :: nat
  sw_next_match_sequence :: nat

definition validate_swiss_progress ::
  "TournamentSpec \<Rightarrow> SwissProgress \<Rightarrow> nat \<Rightarrow> (TournamentError, unit) outcome" where
  "validate_swiss_progress spec progress rounds =
     (if rounds \<le> sw_completed_rounds progress \<or> length (sw_standings progress) \<noteq> length (ts_entrants spec)
         \<or> length (ts_game_seed_commitments spec) < sw_next_seed_index progress
      then Err InvalidSwissProgress
      else let expected = set (map te_entrant_id (ts_entrants spec));
               actual = set (map st_entrant_id (sw_standings progress))
        in if actual \<noteq> expected \<or> card actual \<noteq> length (sw_standings progress)
           then Err InvalidSwissProgress else Ok ())"

text \<open>
  The comparator reads \<^verbatim>\<open>seeds[id]\<close>, which panics on an unknown entrant; here an unknown entrant
  panics even when no comparison reaches its seed.
\<close>

definition ordered_swiss_entrants ::
  "TournamentSpec \<Rightarrow> SwissProgress \<Rightarrow> (TournamentError, string list) outcome" where
  "ordered_swiss_entrants spec progress =
     (let seeds = map_of (rev (map (\<lambda>e. (te_entrant_id e, te_seed_number e)) (ts_entrants spec)))
      in if list_ex (\<lambda>s. seeds (st_entrant_id s) = None) (sw_standings progress) then Panic
         else Ok (map st_entrant_id (sort_key (\<lambda>s. (- st_match_points s, - st_spread s, - int (st_wins s),
                the (seeds (st_entrant_id s)), st_entrant_id s)) (sw_standings progress))))"

definition schedule_swiss_round ::
  "env \<Rightarrow> format_json \<Rightarrow> TournamentSpec \<Rightarrow> SwissProgress \<Rightarrow> (TournamentError, TournamentSchedule) outcome" where
  "schedule_swiss_round E json spec progress =
     rbind (validate_spec spec) (\<lambda>_.
     case ts_format spec of
       Swiss rounds games rematches \<Rightarrow>
         rbind (validate_swiss_progress spec progress rounds) (\<lambda>_.
         rbind (ordered_swiss_entrants spec progress) (\<lambda>ordered.
         let (bye, active) = choose_swiss_bye ordered (sw_prior_byes progress) in
         rbind (ok_or SwissPairingUnavailable (swiss_pairs active (sw_prior_pairings progress) rematches)) (\<lambda>pairs.
         rbind (ok_or Overflow (checked_add 16 (sw_completed_rounds progress) 1)) (\<lambda>round_number.
         let balance = map_of (rev (map (\<lambda>v. (bal_entrant_id v, bal_seat_one_games v, bal_seat_two_games v))
               (sw_seat_balance progress))) in
         rbind (ScheduleBuilder_new E json spec (sw_next_seed_index progress) (sw_next_match_sequence progress)) (\<lambda>builder.
         rbind (add_round False (builder, balance) round_number \<lparr>rp_pairs = pairs, rp_bye = bye\<rparr>) (\<lambda>(b, _).
         builder_finish b False))))))
     | _ \<Rightarrow> Err InvalidSwissProgress)"

section \<open>Lifecycle\<close>

datatype TournamentLifecycleState =
  LifeDraft | LifeScheduled | LifeRunning | LifePaused | LifeFinished | LifeCancelled

fun lifecycle_as_str :: "TournamentLifecycleState \<Rightarrow> string" where
  "lifecycle_as_str LifeDraft = ''draft''"
| "lifecycle_as_str LifeScheduled = ''scheduled''"
| "lifecycle_as_str LifeRunning = ''running''"
| "lifecycle_as_str LifePaused = ''paused''"
| "lifecycle_as_str LifeFinished = ''finished''"
| "lifecycle_as_str LifeCancelled = ''cancelled''"

fun can_transition_to :: "TournamentLifecycleState \<Rightarrow> TournamentLifecycleState \<Rightarrow> bool" where
  "can_transition_to LifeDraft LifeScheduled = True"
| "can_transition_to LifeDraft LifeCancelled = True"
| "can_transition_to LifeScheduled LifeRunning = True"
| "can_transition_to LifeScheduled LifeCancelled = True"
| "can_transition_to LifePaused LifeRunning = True"
| "can_transition_to LifePaused LifeCancelled = True"
| "can_transition_to LifeRunning LifePaused = True"
| "can_transition_to LifeRunning LifeFinished = True"
| "can_transition_to LifeRunning LifeCancelled = True"
| "can_transition_to _ _ = False"

record TournamentLifecycleEvent =
  le_schema_version :: nat
  le_sequence :: nat
  le_state :: TournamentLifecycleState
  le_occurred_at :: int

record StoredTournament =
  sto_spec :: TournamentSpec
  sto_schedule :: TournamentSchedule
  sto_swiss_progress :: "SwissProgress option"
  sto_lifecycle :: "TournamentLifecycleEvent list"

definition lifecycle_event_ok :: "TournamentLifecycleEvent list \<Rightarrow> nat \<Rightarrow> bool" where
  "lifecycle_event_ok events n \<longleftrightarrow>
     (let event = events ! n in
      \<not> (le_schema_version event \<noteq> TOURNAMENT_LIFECYCLE_SCHEMA_VERSION \<or> le_sequence event \<noteq> n
        \<or> le_occurred_at event < 0
        \<or> 0 < n \<and> (\<not> can_transition_to (le_state (events ! (n - 1))) (le_state event)
             \<or> le_occurred_at event < le_occurred_at (events ! (n - 1)))))"

definition validate_stored :: "env \<Rightarrow> format_json \<Rightarrow> StoredTournament \<Rightarrow> (TournamentError, unit) outcome" where
  "validate_stored E json t =
     rbind (validate_spec (sto_spec t)) (\<lambda>_.
     rbind (case (ts_format (sto_spec t), sto_swiss_progress t) of
         (Swiss _ _ _, Some progress) \<Rightarrow> schedule_swiss_round E json (sto_spec t) progress
       | (Swiss _ _ _, None) \<Rightarrow> Err InvalidSwissProgress
       | (_, None) \<Rightarrow> schedule E json (sto_spec t)
       | (_, Some _) \<Rightarrow> Err InvalidSwissProgress) (\<lambda>expected.
     if sto_schedule t \<noteq> expected \<or> sto_lifecycle t = [] then Err InvalidSpec
     else rbind (try_fold (\<lambda>_ n. ensure (lifecycle_event_ok (sto_lifecycle t) n) InvalidSpec) ()
            [0..<length (sto_lifecycle t)]) (\<lambda>_.
       rbind (index_at (sto_lifecycle t) 0) (\<lambda>first.
       ensure (le_state first = LifeScheduled) InvalidSpec))))"

end
