(* ===== verification/TournamentSpecs.thy ===== *)
theory TournamentSpecs
  imports Tournament
begin

text \<open>
  Correctness of the schedules: what one series, one round and one cycle add, and the
  resulting promises of static schedules and Swiss rounds.
\<close>

section \<open>One series\<close>

text \<open>
  Matches are appended in sequence order, each takes the next seed commitment, and the two
  entrants swap seats from game to game.
\<close>

definition grows :: "ScheduleBuilder \<Rightarrow> ScheduleBuilder \<Rightarrow> ScheduledMatch list \<Rightarrow> bool" where
  "grows b b' ms \<longleftrightarrow> sb_spec b' = sb_spec b \<and> sb_matches b' = sb_matches b @ ms
     \<and> sb_seed_index b' = sb_seed_index b + length ms \<and> sb_next_sequence b' = sb_next_sequence b + length ms
     \<and> sb_format_identity b' = sb_format_identity b \<and> sb_entrant_ranks b' = sb_entrant_ranks b
     \<and> sb_static_rounds_per_cycle b' = sb_static_rounds_per_cycle b
     \<and> map sm_sequence ms = [sb_next_sequence b..<sb_next_sequence b + length ms]
     \<and> sb_seed_index b' \<le> max (sb_seed_index b) (length (ts_game_seed_commitments (sb_spec b)))
     \<and> map sm_seed_commitment ms = take (length ms) (drop (sb_seed_index b) (ts_game_seed_commitments (sb_spec b)))"

lemma grows_refl [simp]: "grows b b []"
  by (simp add: grows_def)

lemma grows_trans:
  assumes "grows b b' ms" "grows b' b'' ns"
  shows "grows b b'' (ms @ ns)"
proof -
  let ?seeds = "ts_game_seed_commitments (sb_spec b)"
  have "take (length ms + length ns) (drop (sb_seed_index b) ?seeds) =
      take (length ms) (drop (sb_seed_index b) ?seeds) @ take (length ns) (drop (sb_seed_index b + length ms) ?seeds)"
    by (simp add: take_add add.commute)
  moreover have "[sb_next_sequence b..<sb_next_sequence b + (length ms + length ns)] =
      [sb_next_sequence b..<sb_next_sequence b + length ms] @ [sb_next_sequence b + length ms..<sb_next_sequence b + length ms + length ns]"
    using upt_add_eq_append[of "sb_next_sequence b" "sb_next_sequence b + length ms" "length ns"] by (simp add: add.assoc)
  ultimately show ?thesis using assms by (auto simp: grows_def add.assoc)
qed

lemma add_game_Ok:
  assumes "add_game sid rnd tab base p (b, bal, ids) k = Ok (b', bal', ids')"
  shows "\<exists>m. grows b b' [m] \<and> sb_series b' = sb_series b \<and> sb_byes b' = sb_byes b
    \<and> (sm_seat_one m, sm_seat_two m) = (if even k then base else (snd base, fst base))
    \<and> sm_round_number m = rnd \<and> sm_series_id m = sid \<and> sm_match_id m = match_id_of sid (Suc k)
    \<and> ids' = ids @ [sm_match_id m] \<and> sm_series_game_number m = Suc k"
proof -
  have "sb_seed_index b < length (ts_game_seed_commitments (sb_spec b)) \<Longrightarrow>
      take (Suc 0) (drop (sb_seed_index b) (ts_game_seed_commitments (sb_spec b))) =
        [ts_game_seed_commitments (sb_spec b) ! sb_seed_index b]"
    by (simp add: take_Suc_conv_app_nth)
  then show ?thesis
    using assms
    by (auto simp: add_game_def Let_def rbind_Ok_iff grows_def checked_add_def even_iff_mod_2_eq_zero
        split: if_splits prod.splits)
qed

lemma add_games_Ok:
  assumes "try_fold (add_game sid rnd tab base p) (b, bal, ids) [j..<k] = Ok (b', bal', ids')" "j \<le> k"
  shows "\<exists>ms. grows b b' ms \<and> length ms = k - j \<and> sb_series b' = sb_series b \<and> sb_byes b' = sb_byes b
    \<and> (\<forall>i < length ms. (sm_seat_one (ms ! i), sm_seat_two (ms ! i)) = (if even (j + i) then base else (snd base, fst base)))
    \<and> (\<forall>m \<in> set ms. sm_round_number m = rnd \<and> sm_series_id m = sid) \<and> ids' = ids @ map sm_match_id ms"
  using assms
proof (induction "k - j" arbitrary: j b bal ids)
  case 0
  then show ?case by (intro exI[of _ "[]"]) auto
next
  case (Suc n)
  then have jk: "[j..<k] = j # [Suc j..<k]" "Suc j \<le> k" "n = k - Suc j" by (auto simp: upt_conv_Cons)
  obtain b1 bal1 ids1 where s: "add_game sid rnd tab base p (b, bal, ids) j = Ok (b1, bal1, ids1)"
    "try_fold (add_game sid rnd tab base p) (b1, bal1, ids1) [Suc j..<k] = Ok (b', bal', ids')"
    using Suc.prems(1) unfolding jk(1) by (auto elim!: rbind_OkE)
  from add_game_Ok[OF s(1)] obtain m where m: "grows b b1 [m]" "sb_series b1 = sb_series b" "sb_byes b1 = sb_byes b"
    "(sm_seat_one m, sm_seat_two m) = (if even j then base else (snd base, fst base))"
    "sm_round_number m = rnd" "sm_series_id m = sid" "ids1 = ids @ [sm_match_id m]" by blast
  from Suc.hyps(1)[OF jk(3) s(2) jk(2)] obtain ms where ms: "grows b1 b' ms" "length ms = k - Suc j"
    "sb_series b' = sb_series b1" "sb_byes b' = sb_byes b1"
    "\<forall>i < length ms. (sm_seat_one (ms ! i), sm_seat_two (ms ! i)) = (if even (Suc j + i) then base else (snd base, fst base))"
    "\<forall>m \<in> set ms. sm_round_number m = rnd \<and> sm_series_id m = sid" "ids' = ids1 @ map sm_match_id ms" by blast
  have "grows b b' (m # ms)" using grows_trans[OF m(1) ms(1)] by simp
  then show ?case
    using m ms Suc.hyps(2) by (intro exI[of _ "m # ms"]) (auto simp: nth_Cons split: nat.splits)
qed

section \<open>One series, one round\<close>

definition series_pair :: "ScheduledSeries \<Rightarrow> string \<times> string" where
  "series_pair s = (ss_entrant_a s, ss_entrant_b s)"

lemma expose_frame [simp]:
  "sb_spec (expose p n b e) = sb_spec b" "sb_matches (expose p n b e) = sb_matches b"
  "sb_series (expose p n b e) = sb_series b" "sb_byes (expose p n b e) = sb_byes b"
  "sb_seed_index (expose p n b e) = sb_seed_index b" "sb_next_sequence (expose p n b e) = sb_next_sequence b"
  "sb_format_identity (expose p n b e) = sb_format_identity b" "sb_entrant_ranks (expose p n b e) = sb_entrant_ranks b"
  "sb_static_rounds_per_cycle (expose p n b e) = sb_static_rounds_per_cycle b"
  by (simp_all add: expose_def)

text \<open>
  The matches of a series: its two entrants, seats swapped from game to game; with
  \<open>resp\<close> the order of the pair gives the seats of the first game.
\<close>

definition series_games :: "bool \<Rightarrow> nat \<Rightarrow> ScheduledSeries \<Rightarrow> ScheduledMatch list \<Rightarrow> bool" where
  "series_games resp games s ms \<longleftrightarrow> length ms = games \<and> ss_match_ids s = map sm_match_id ms
     \<and> (\<forall>m \<in> set ms. {sm_seat_one m, sm_seat_two m} = {ss_entrant_a s, ss_entrant_b s}
          \<and> sm_series_id m = ss_series_id s \<and> sm_round_number m = ss_round_number s)
     \<and> (\<forall>i. Suc i < length ms \<longrightarrow> sm_seat_one (ms ! Suc i) = sm_seat_two (ms ! i)
          \<and> sm_seat_two (ms ! Suc i) = sm_seat_one (ms ! i))
     \<and> (resp \<longrightarrow> ms \<noteq> [] \<longrightarrow> sm_seat_one (hd ms) = ss_entrant_a s \<and> sm_seat_two (hd ms) = ss_entrant_b s)"

lemma preferred_orientation_set:
  "preferred_orientation a b bal = (x, y) \<Longrightarrow> {x, y} = {a, b}"
  by (auto simp: preferred_orientation_def Let_def split: if_splits)

lemma add_series_Ok:
  assumes "add_series rnd resp (b, bal) tab (x, y) = Ok (b', bal')"
  shows "\<exists>s ms. grows b b' ms \<and> sb_series b' = sb_series b @ [s] \<and> sb_byes b' = sb_byes b
    \<and> series_pair s = (x, y) \<and> ss_round_number s = rnd \<and> series_games resp (games_per_series (ts_format (sb_spec b))) s ms"
proof -
  define base where "base = (if resp then (x, y) else preferred_orientation x y bal)"
  have base: "{fst base, snd base} = {x, y}"
    using preferred_orientation_set[of x y bal "fst base" "snd base"] by (auto simp: base_def)
  let ?sid = "series_id_of (sb_spec b) rnd tab" and ?games = "games_per_series (ts_format (sb_spec b))"
  obtain p b1 ids where f: "try_fold (add_game ?sid rnd tab base p) (b, bal, []) [0..<?games] = Ok (b1, bal', ids)"
    and b': "b' = (expose p ?games (expose p ?games b1 x) y)\<lparr>sb_series := sb_series b1 @ [\<lparr>ss_series_id = ?sid,
      ss_round_number = rnd, ss_table_number = tab, ss_entrant_a = x, ss_entrant_b = y, ss_match_ids = ids\<rparr>]\<rparr>"
    using assms unfolding add_series_def Let_def base_def by (auto elim!: rbind_OkE case_prod_OkE)
  from add_games_Ok[OF f] obtain ms where ms: "grows b b1 ms" "length ms = ?games" "sb_series b1 = sb_series b"
    "sb_byes b1 = sb_byes b"
    "\<forall>i < length ms. (sm_seat_one (ms ! i), sm_seat_two (ms ! i)) = (if even i then base else (snd base, fst base))"
    "\<forall>m \<in> set ms. sm_round_number m = rnd \<and> sm_series_id m = ?sid" "ids = map sm_match_id ms" by auto
  let ?s = "\<lparr>ss_series_id = ?sid, ss_round_number = rnd, ss_table_number = tab, ss_entrant_a = x, ss_entrant_b = y, ss_match_ids = ids\<rparr>"
  have seats: "sm_seat_one (ms ! i) = (if even i then fst base else snd base)"
    "sm_seat_two (ms ! i) = (if even i then snd base else fst base)" if "i < length ms" for i
    using ms(5) that by (metis fst_conv, metis snd_conv)
  have "{sm_seat_one m, sm_seat_two m} = {x, y}" if "m \<in> set ms" for m
    using that base seats by (auto simp: in_set_conv_nth insert_commute split: if_splits)
  moreover have "sm_seat_one (hd ms) = x \<and> sm_seat_two (hd ms) = y" if "resp" "ms \<noteq> []"
    using that seats[of 0] by (simp add: hd_conv_nth base_def)
  ultimately have "series_games resp ?games ?s ms" using ms(2,6,7) seats by (auto simp: series_games_def)
  moreover have "grows b b' ms" using ms(1) by (simp add: b' grows_def)
  ultimately show ?thesis using ms(3,4) by (intro exI[of _ ?s] exI[of _ ms]) (simp add: b' series_pair_def)
qed

text \<open>What a run of the builder adds: series with their games, and byes.\<close>

definition extends ::
  "bool \<Rightarrow> ScheduleBuilder \<Rightarrow> ScheduleBuilder \<Rightarrow> (ScheduledSeries \<times> ScheduledMatch list) list \<Rightarrow> string list \<Rightarrow> bool" where
  "extends resp b b' added byes \<longleftrightarrow> grows b b' (concat (map snd added)) \<and> sb_series b' = sb_series b @ map fst added
     \<and> map tb_entrant_id (sb_byes b') = map tb_entrant_id (sb_byes b) @ byes
     \<and> (\<forall>(s, ms) \<in> set added. series_games resp (games_per_series (ts_format (sb_spec b))) s ms)"

lemma extends_refl [simp]: "extends resp b b [] []"
  by (simp add: extends_def)

lemma extends_trans: "extends resp b b' ss bs \<Longrightarrow> extends resp b' b'' ts cs \<Longrightarrow> extends resp b b'' (ss @ ts) (bs @ cs)"
  by (auto simp: extends_def intro: grows_trans) (auto simp: grows_def)

lemma add_tables_Ok:
  assumes "try_fold (add_table rnd resp) (b, bal) (List.enumerate n pairs) = Ok (b', bal')"
  shows "\<exists>added. extends resp b b' added [] \<and> map (series_pair \<circ> fst) added = pairs
    \<and> (\<forall>(s, _) \<in> set added. ss_round_number s = rnd)"
  using assms
proof (induction pairs arbitrary: n b bal)
  case Nil
  then show ?case by (intro exI[of _ "[]"]) simp
next
  case (Cons xy pairs)
  obtain x y where xy: "xy = (x, y)" by force
  obtain b1 bal1 where t: "add_table rnd resp (b, bal) (n, x, y) = Ok (b1, bal1)"
    "try_fold (add_table rnd resp) (b1, bal1) (List.enumerate (Suc n) pairs) = Ok (b', bal')"
    using Cons.prems by (auto simp: xy elim!: rbind_OkE)
  from t(1) obtain tab where s: "add_series rnd resp (b, bal) tab (x, y) = Ok (b1, bal1)"
    by (auto simp: add_table_def elim!: rbind_OkE)
  from add_series_Ok[OF s] obtain sr ms where m: "grows b b1 ms" "sb_series b1 = sb_series b @ [sr]"
    "sb_byes b1 = sb_byes b" "series_pair sr = (x, y)" "ss_round_number sr = rnd"
    "series_games resp (games_per_series (ts_format (sb_spec b))) sr ms" by blast
  then have e: "extends resp b b1 [(sr, ms)] []" by (simp add: extends_def)
  from Cons.IH[OF t(2)] obtain added where "extends resp b1 b' added []" "map (series_pair \<circ> fst) added = pairs"
    "\<forall>(s, _) \<in> set added. ss_round_number s = rnd" by blast
  then show ?case using extends_trans[OF e] m xy by (intro exI[of _ "(sr, ms) # added"]) auto
qed

lemma add_round_Ok:
  assumes "add_round resp (b, bal) n rnd = Ok (b', bal')"
  shows "\<exists>added. extends resp b b' added (case rp_bye rnd of None \<Rightarrow> [] | Some e \<Rightarrow> [e])
    \<and> map (series_pair \<circ> fst) added = rp_pairs rnd \<and> (\<forall>(s, _) \<in> set added. ss_round_number s = n)"
proof -
  let ?b = "case rp_bye rnd of None \<Rightarrow> b
    | Some e \<Rightarrow> b\<lparr>sb_byes := sb_byes b @ [\<lparr>tb_round_number = n, tb_entrant_id = e\<rparr>]\<rparr>"
  obtain added where a: "extends resp ?b b' added []" "map (series_pair \<circ> fst) added = rp_pairs rnd"
    "\<forall>(s, _) \<in> set added. ss_round_number s = n"
    using add_tables_Ok assms unfolding add_round_def Let_def by fastforce
  have "extends resp b ?b [] (case rp_bye rnd of None \<Rightarrow> [] | Some e \<Rightarrow> [e])"
    by (auto simp: extends_def grows_def split: option.splits)
  then show ?thesis using extends_trans[OF _ a(1)] a(2,3) by fastforce
qed

section \<open>Static schedules\<close>

definition pair_set :: "string \<times> string \<Rightarrow> string set" where
  "pair_set p = {fst p, snd p}"

lemma pair_set_simp [simp]: "pair_set (a, b) = {a, b}"
  by (simp add: pair_set_def)

lemma orient_pair_Ok: "orient_pair ranks n c p = Ok q \<Longrightarrow> q = p \<or> q = (snd p, fst p)"
  by (auto simp: orient_pair_def Let_def rbind_Ok_iff split: prod.splits if_splits)

text \<open>The seats of a pair in a cycle, first seat first; a pair of unknown entrants is left as it is.\<close>

definition oriented :: "ranks \<Rightarrow> nat \<Rightarrow> nat \<Rightarrow> string \<times> string \<Rightarrow> string \<times> string" where
  "oriented ranks n c p = (case orient_pair ranks n c p of Ok q \<Rightarrow> q | _ \<Rightarrow> p)"

lemma pair_set_oriented [simp]: "pair_set (oriented ranks n c p) = pair_set p"
  using orient_pair_Ok[of ranks n c p] by (auto simp: oriented_def pair_set_def split: outcome.splits)

lemma orient_static_round_Ok:
  assumes "orient_static_round rnd ranks n c = Ok rnd'"
  shows "rp_pairs rnd' = map (oriented ranks n c) (rp_pairs rnd)" "rp_bye rnd' = rp_bye rnd"
proof -
  obtain ps where t: "traverse (orient_pair ranks n c) (rp_pairs rnd) = Ok ps" and r: "rnd' = \<lparr>rp_pairs = ps, rp_bye = rp_bye rnd\<rparr>"
    using assms by (auto simp: orient_static_round_def elim!: rbind_OkE)
  from t have "list_all2 (\<lambda>x y. orient_pair ranks n c x = Ok y) (rp_pairs rnd) ps" by (simp add: traverse_Ok_iff)
  then have "ps = map (oriented ranks n c) (rp_pairs rnd)"
    by (induction rule: list_all2_induct) (auto simp: oriented_def)
  then show "rp_pairs rnd' = map (oriented ranks n c) (rp_pairs rnd)" "rp_bye rnd' = rp_bye rnd" by (simp_all add: r)
qed

definition bye_list :: "RoundPairings \<Rightarrow> string list" where
  "bye_list rnd = (case rp_bye rnd of None \<Rightarrow> [] | Some e \<Rightarrow> [e])"

text \<open>
  The reference table of a cycle: the rounds of the circle method in order, numbered on from the
  previous cycle, each pair with its seats.
\<close>

definition slot_of :: "ScheduledSeries \<Rightarrow> nat \<times> string \<times> string" where
  "slot_of s = (ss_round_number s, series_pair s)"

definition round_table :: "ranks \<Rightarrow> nat \<Rightarrow> nat \<Rightarrow> nat \<Rightarrow> nat \<times> RoundPairings \<Rightarrow> (nat \<times> string \<times> string) list" where
  "round_table ranks n k c entry =
     map (\<lambda>p. (c * k + fst entry + 1, oriented ranks n c p)) (rp_pairs (snd entry))"

definition cycle_table :: "ranks \<Rightarrow> nat \<Rightarrow> RoundPairings list \<Rightarrow> nat \<Rightarrow> (nat \<times> string \<times> string) list" where
  "cycle_table ranks n rounds c = concat (map (round_table ranks n (length rounds) c) (List.enumerate 0 rounds))"

lemma static_round_Ok:
  assumes "static_round ranks n k c (b, bal) (i, rnd) = Ok (b', bal')"
  shows "\<exists>added. extends True b b' added (bye_list rnd) \<and> map (slot_of \<circ> fst) added = round_table ranks n k c (i, rnd)"
proof -
  obtain num o1 where r: "orient_static_round rnd ranks n c = Ok o1" "add_round True (b, bal) num o1 = Ok (b', bal')"
    and num: "num = c * k + i + 1"
    using assms by (auto simp: static_round_def try_from_def checked_mul_def checked_add_def bind_eq_Some_conv
        elim!: rbind_OkE split: if_splits)
  note o1 = orient_static_round_Ok[OF r(1)]
  from add_round_Ok[OF r(2)] obtain ad where ad: "extends True b b' ad (bye_list rnd)" "map (series_pair \<circ> fst) ad = rp_pairs o1"
    "\<forall>(s, _) \<in> set ad. ss_round_number s = num" by (auto simp: bye_list_def o1(2))
  have "map (slot_of \<circ> fst) ad = map (Pair num) (map (series_pair \<circ> fst) ad)"
    using ad(3) by (auto simp: slot_of_def)
  also have "\<dots> = round_table ranks n k c (i, rnd)" by (simp add: ad(2) o1(1) num round_table_def)
  finally show ?thesis using ad(1) by blast
qed

lemma static_rounds_Ok:
  assumes "try_fold (static_round ranks n k c) (b, bal) (List.enumerate i rounds) = Ok (b', bal')"
  shows "\<exists>added. extends True b b' added (concat (map bye_list rounds))
    \<and> map (slot_of \<circ> fst) added = concat (map (round_table ranks n k c) (List.enumerate i rounds))"
  using assms
proof (induction rounds arbitrary: i b bal)
  case Nil
  then show ?case by (intro exI[of _ "[]"]) simp
next
  case (Cons rnd rounds)
  obtain b1 bal1 where t: "static_round ranks n k c (b, bal) (i, rnd) = Ok (b1, bal1)"
    "try_fold (static_round ranks n k c) (b1, bal1) (List.enumerate (Suc i) rounds) = Ok (b', bal')"
    using Cons.prems by (auto elim!: rbind_OkE)
  from static_round_Ok[OF t(1)] obtain ad where ad: "extends True b b1 ad (bye_list rnd)"
    "map (slot_of \<circ> fst) ad = round_table ranks n k c (i, rnd)" by blast
  from Cons.IH[OF t(2)] obtain added where a: "extends True b1 b' added (concat (map bye_list rounds))"
    "map (slot_of \<circ> fst) added = concat (map (round_table ranks n k c) (List.enumerate (Suc i) rounds))" by blast
  show ?case using extends_trans[OF ad(1) a(1)] ad(2) a(2) by (intro exI[of _ "ad @ added"]) (simp add: comp_def)
qed

lemma static_cycles_Ok:
  assumes "try_fold (\<lambda>acc c. try_fold (static_round ranks n (length rounds) c) acc (List.enumerate 0 rounds)) (b, bal) [i..<j]
      = Ok (b', bal')" "i \<le> j"
  shows "\<exists>added. extends True b b' added (concat (replicate (j - i) (concat (map bye_list rounds))))
    \<and> map (slot_of \<circ> fst) added = concat (map (cycle_table ranks n rounds) [i..<j])"
  using assms
proof (induction "j - i" arbitrary: i b bal)
  case 0
  then show ?case by (intro exI[of _ "[]"]) simp
next
  case (Suc d)
  then have ij: "[i..<j] = i # [Suc i..<j]" "Suc i \<le> j" "d = j - Suc i" "j - i = Suc (j - Suc i)" by (auto simp: upt_conv_Cons)
  obtain b1 bal1 where t: "try_fold (static_round ranks n (length rounds) i) (b, bal) (List.enumerate 0 rounds) = Ok (b1, bal1)"
    "try_fold (\<lambda>acc c. try_fold (static_round ranks n (length rounds) c) acc (List.enumerate 0 rounds)) (b1, bal1) [Suc i..<j] = Ok (b', bal')"
    using Suc.prems(1) unfolding ij(1) by (auto elim!: rbind_OkE)
  from static_rounds_Ok[OF t(1)] obtain ad where ad: "extends True b b1 ad (concat (map bye_list rounds))"
    "map (slot_of \<circ> fst) ad = cycle_table ranks n rounds i" by (auto simp: cycle_table_def)
  from Suc.hyps(1)[OF ij(3) t(2) ij(2)] obtain added where
    a: "extends True b1 b' added (concat (replicate (j - Suc i) (concat (map bye_list rounds))))"
    "map (slot_of \<circ> fst) added = concat (map (cycle_table ranks n rounds) [Suc i..<j])" by blast
  show ?case using extends_trans[OF ad(1) a(1)] ad(2) a(2) unfolding ij(1,4) by (intro exI[of _ "ad @ added"]) (simp add: comp_def del: upt_Suc)
qed

lemma validate_spec_Ok:
  assumes "validate_spec spec = Ok ()"
  shows "2 \<le> length (ts_entrants spec)" "distinct (map te_entrant_id (ts_entrants spec))"
    "ts_profiles spec \<noteq> []" "valid_format (ts_format spec)"
proof -
  have c: "length (remdups xs) = length xs \<longleftrightarrow> distinct xs" for xs :: "string list"
    by (metis distinct_remdups remdups_id_iff_distinct length_remdups_eq)
  show "2 \<le> length (ts_entrants spec)" "distinct (map te_entrant_id (ts_entrants spec))"
    "ts_profiles spec \<noteq> []" "valid_format (ts_format spec)"
    using assms c[of "map te_entrant_id (ts_entrants spec)"] by (auto simp: validate_spec_def split: if_splits)
qed

lemma ordered_entrant_ids_facts:
  "mset (ordered_entrant_ids spec) = mset (map te_entrant_id (ts_entrants spec))"
  "length (ordered_entrant_ids spec) = length (ts_entrants spec)"
  by (simp_all add: ordered_entrant_ids_def)

lemma mset_concat_replicate: "mset (concat (replicate n xs)) = repeat_mset n (mset xs)"
  by (induction n) auto

lemma map_pair_set: "map pair_set = map (\<lambda>(a, b). {a, b})"
  by (rule arg_cong[of _ _ map]) (auto simp: pair_set_def)

lemma schedule_Ok:
  assumes s: "schedule E json spec = Ok sch" and cy: "static_cycles (ts_format spec) = Some cycles"
  defines "es \<equiv> ordered_entrant_ids spec"
  shows "\<exists>rounds added. validate_spec spec = Ok () \<and> circle_rounds es = (Ok rounds :: (TournamentError, _) outcome)
    \<and> map slot_of (sch_series sch) = concat (map (cycle_table (rank_map es) (length es) rounds) [0..<cycles])
    \<and> map tb_entrant_id (sch_byes sch) = concat (replicate cycles (concat (map bye_list rounds)))
    \<and> map fst added = sch_series sch \<and> concat (map snd added) = sch_matches sch
    \<and> (\<forall>(s, ms) \<in> set added. series_games True (games_per_series (ts_format spec)) s ms)"
    "map sm_sequence (sch_matches sch) = [0..<length (sch_matches sch)]"
    "map sm_seed_commitment (sch_matches sch) = ts_game_seed_commitments spec"
proof -
  obtain rounds b0 b bal where v: "validate_spec spec = Ok ()" and rs: "circle_rounds es = (Ok rounds :: (TournamentError, _) outcome)"
    and b0: "ScheduleBuilder_new E json spec 0 0 = Ok b0"
    and f: "try_fold (\<lambda>acc c. try_fold (static_round (rank_map es) (length es) (length rounds) c) acc
       (List.enumerate 0 rounds)) (b0, Map.empty) [0..<cycles] = Ok (b, bal)"
    and fin: "builder_finish b True = Ok sch"
    using s cy by (auto simp: schedule_def Let_def es_def elim!: rbind_OkE case_prod_OkE)
  have init: "sb_spec b0 = spec" "sb_series b0 = []" "sb_matches b0 = []" "sb_byes b0 = []" "sb_seed_index b0 = 0" "sb_next_sequence b0 = 0"
    using b0 by (auto simp: ScheduleBuilder_new_def Let_def elim!: rbind_OkE)
  from static_cycles_Ok[OF f] obtain added where
    a: "extends True b0 b added (concat (replicate cycles (concat (map bye_list rounds))))"
    "map (slot_of \<circ> fst) added = concat (map (cycle_table (rank_map es) (length es) rounds) [0..<cycles])"
    by auto
  then have g: "grows b0 b (concat (map snd added))" "sb_series b = map fst added"
    "map tb_entrant_id (sb_byes b) = concat (replicate cycles (concat (map bye_list rounds)))"
    "\<forall>(s, ms) \<in> set added. series_games True (games_per_series (ts_format spec)) s ms"
    by (auto simp: extends_def init)
  have bm: "sb_spec b = spec" "sb_matches b = concat (map snd added)" "sb_seed_index b = length (concat (map snd added))"
    using g(1) by (auto simp: grows_def init)
  have sch: "sch_series sch = map fst added" "sch_matches sch = concat (map snd added)"
    "map tb_entrant_id (sch_byes sch) = concat (replicate cycles (concat (map bye_list rounds)))"
    "length (concat (map snd added)) = length (ts_game_seed_commitments spec)"
    using fin g(2,3) bm by (auto simp: builder_finish_def split: if_splits)
  show "map sm_sequence (sch_matches sch) = [0..<length (sch_matches sch)]"
    "map sm_seed_commitment (sch_matches sch) = ts_game_seed_commitments spec"
    using g(1) sch(2,4) by (auto simp: grows_def init)
  have "map slot_of (sch_series sch) = concat (map (cycle_table (rank_map es) (length es) rounds) [0..<cycles])"
    using a(2) sch(1) by simp
  then show "\<exists>rounds added. validate_spec spec = Ok () \<and> circle_rounds es = (Ok rounds :: (TournamentError, _) outcome)
    \<and> map slot_of (sch_series sch) = concat (map (cycle_table (rank_map es) (length es) rounds) [0..<cycles])
    \<and> map tb_entrant_id (sch_byes sch) = concat (replicate cycles (concat (map bye_list rounds)))
    \<and> map fst added = sch_series sch \<and> concat (map snd added) = sch_matches sch
    \<and> (\<forall>(s, ms) \<in> set added. series_games True (games_per_series (ts_format spec)) s ms)"
    using v rs sch(1,2,3) g(4) by (intro exI[of _ rounds] exI[of _ added]) simp
qed

lemma spec_entrants:
  assumes "validate_spec spec = Ok ()"
  shows "2 \<le> length (ordered_entrant_ids spec)" "distinct (ordered_entrant_ids spec)"
    "set (ordered_entrant_ids spec) = te_entrant_id ` set (ts_entrants spec)"
  using validate_spec_Ok(1,2)[OF assms] ordered_entrant_ids_facts[of spec]
    mset_eq_imp_distinct_iff[OF ordered_entrant_ids_facts(1)] mset_eq_setD[OF ordered_entrant_ids_facts(1)] by auto

lemma cycle_table_pairs:
  "map (pair_set \<circ> snd) (cycle_table ranks n rounds c) = map pair_set (concat (map rp_pairs rounds))"
proof -
  have "map (pair_set \<circ> snd) (concat (map (round_table ranks n k c) (List.enumerate i rounds))) =
      map pair_set (concat (map rp_pairs rounds))" for i k
    by (induction rounds arbitrary: i) (auto simp: round_table_def)
  then show ?thesis by (simp add: cycle_table_def)
qed

text \<open>Every pair of entrants meets once per cycle.\<close>

lemma schedule_pairs:
  assumes s: "schedule E json spec = Ok sch" and cy: "static_cycles (ts_format spec) = Some cycles"
  shows "mset (map (pair_set \<circ> series_pair) (sch_series sch)) =
      repeat_mset cycles (mset_set {P. P \<subseteq> te_entrant_id ` set (ts_entrants spec) \<and> card P = 2})"
proof -
  let ?es = "ordered_entrant_ids spec"
  obtain rounds where v: "validate_spec spec = Ok ()" and rs: "circle_rounds ?es = (Ok rounds :: (TournamentError, _) outcome)"
    and t: "map slot_of (sch_series sch) = concat (map (cycle_table (rank_map ?es) (length ?es) rounds) [0..<cycles])"
    using schedule_Ok(1)[OF s cy] by blast
  note es = spec_entrants[OF v]
  have "map (pair_set \<circ> series_pair) (sch_series sch) = map (pair_set \<circ> snd) (map slot_of (sch_series sch))"
    by (simp add: slot_of_def)
  also have "\<dots> = concat (replicate cycles (map pair_set (concat (map rp_pairs rounds))))"
    unfolding t by (simp add: map_concat comp_def cycle_table_pairs[unfolded comp_def map_concat] map_replicate_const)
  finally show ?thesis
    using circle_pairs_once[OF es(1,2) rs] unfolding map_pair_set es(3) by (simp only: mset_concat_replicate)
qed

text \<open>With an odd number of entrants everyone has one bye per cycle.\<close>

lemma circle_byes:
  assumes "2 \<le> length es" "distinct es" "circle_rounds es = (Ok rounds :: (TournamentError, _) outcome)"
  shows "mset (concat (map bye_list rounds)) = (if even (length es) then {#} else mset es)"
proof -
  have bl: "concat (map bye_list rounds) = List.map_filter rp_bye rounds"
    by (induction rounds) (auto simp: bye_list_def List.map_filter_simps split: option.splits)
  show ?thesis
  proof (cases "even (length es)")
    case True
    have "rounds = map (\<lambda>k. round_of (rotated k (circle_slots es))) [0..<length (circle_slots es) - 1]"
      using assms(3) by (simp add: circle_rounds_Ok[OF assms(1,2)])
    then have "\<forall>r \<in> set rounds. rp_bye r = None" using round_entrants(2)[OF assms(1,2)] True by auto
    then show ?thesis using True by (auto simp: bye_list_def)
  next
    case False
    then show ?thesis using circle_byes_once[OF assms] by (simp add: bl)
  qed
qed

lemma schedule_byes:
  assumes s: "schedule E json spec = Ok sch" and cy: "static_cycles (ts_format spec) = Some cycles"
  shows "mset (map tb_entrant_id (sch_byes sch)) = (if even (length (ts_entrants spec)) then {#}
      else repeat_mset cycles (mset (map te_entrant_id (ts_entrants spec))))"
proof -
  let ?es = "ordered_entrant_ids spec"
  obtain rounds where v: "validate_spec spec = Ok ()" and rs: "circle_rounds ?es = (Ok rounds :: (TournamentError, _) outcome)"
    and b: "map tb_entrant_id (sch_byes sch) = concat (replicate cycles (concat (map bye_list rounds)))"
    using schedule_Ok(1)[OF s cy] by blast
  show ?thesis
    using circle_byes[OF spec_entrants(1,2)[OF v] rs] ordered_entrant_ids_facts[of spec]
    unfolding b mset_concat_replicate by simp
qed

section \<open>Scheduling never panics\<close>

lemma rank_map_Some:
  assumes "distinct es"
  shows "map_of (rank_map es) e = Some i \<longleftrightarrow> i < length es \<and> es ! i = e"
proof -
  have "map_of (rev (zip es [0..<length es])) e = Some i \<longleftrightarrow> (e, i) \<in> set (zip es [0..<length es])"
    using assms by (subst map_of_eq_Some_iff) (simp_all add: map_fst_zip rev_map[symmetric])
  then show ?thesis unfolding rank_map_def by (auto simp: set_zip)
qed

lemma rank_map_mem: "distinct es \<Longrightarrow> e \<in> set es \<Longrightarrow> \<exists>i < length es. map_of (rank_map es) e = Some i \<and> es ! i = e"
  using rank_map_Some by (metis in_set_conv_nth)

lemma rank_count_rank_map: "distinct es \<Longrightarrow> rank_count (rank_map es) = length es"
  unfolding rank_count_def rank_map_def
  by (subst remdups_id_iff_distinct[THEN iffD2]) (simp_all add: rev_map[symmetric] map_fst_zip)

definition builder_ok :: "TournamentSpec \<Rightarrow> ScheduleBuilder \<Rightarrow> bool" where
  "builder_ok spec b \<longleftrightarrow> sb_spec b = spec \<and> sb_entrant_ranks b = rank_map (ordered_entrant_ids spec)
     \<and> 0 < sb_static_rounds_per_cycle b"

lemma grows_builder_ok: "grows b b' ms \<Longrightarrow> builder_ok spec b \<Longrightarrow> builder_ok spec b'"
  by (simp add: grows_def builder_ok_def)

lemma extends_builder_ok: "extends resp b b' added byes \<Longrightarrow> builder_ok spec b \<Longrightarrow> builder_ok spec b'"
  by (auto simp: extends_def intro: grows_builder_ok)

lemma add_games_returns:
  assumes "p < length (ts_profiles (sb_spec b))"
  shows "returns (try_fold (add_game sid rnd tab base p) (b, bal, ids) ks)"
proof (rule try_fold_returns[where P = "\<lambda>(b', _). sb_spec b' = sb_spec b"])
  fix acc :: "ScheduleBuilder \<times> balance \<times> string list" and k
  assume "case acc of (b', _) \<Rightarrow> sb_spec b' = sb_spec b"
  then show "returns (add_game sid rnd tab base p acc k)"
    using assms by (auto simp: add_game_def Let_def split: prod.splits intro!: returns_rbind)
next
  fix acc acc' :: "ScheduleBuilder \<times> balance \<times> string list" and k assume a: "case acc of (b', _) \<Rightarrow> sb_spec b' = sb_spec b" "add_game sid rnd tab base p acc k = Ok acc'"
  obtain b1 bal1 ids1 b2 bal2 ids2 where "acc = (b1, bal1, ids1)" "acc' = (b2, bal2, ids2)" by (cases acc; cases acc') auto
  then show "case acc' of (b', _) \<Rightarrow> sb_spec b' = sb_spec b" using a add_game_Ok by (fastforce simp: grows_def)
qed simp

lemma static_profile_Ok:
  assumes v: "validate_spec spec = Ok ()" and b: "builder_ok spec b" and n: "1 \<le> n"
    and xy: "x \<in> set (ordered_entrant_ids spec)" "y \<in> set (ordered_entrant_ids spec)" "x \<noteq> y"
  shows "\<exists>p. static_profile b x y n = Ok p \<and> p < length (ts_profiles spec)"
proof -
  let ?es = "ordered_entrant_ids spec"
  note spec = validate_spec_Ok[OF v]
  have d: "distinct ?es" using spec(2) mset_eq_imp_distinct_iff[OF ordered_entrant_ids_facts(1)] by blast
  obtain i j where i: "i < length ?es" "map_of (rank_map ?es) x = Some i" "?es ! i = x"
    and j: "j < length ?es" "map_of (rank_map ?es) y = Some j" "?es ! j = y" using rank_map_mem[OF d] xy by metis
  have ij: "i \<noteq> j" using i j xy(3) by auto
  have "abs_diff i j \<le> length ?es" "1 \<le> min (abs_diff i j) (length ?es - abs_diff i j)"
    using i(1) j(1) ij by (auto simp: abs_diff_def)
  then show ?thesis
    using b spec(3) n
    by (simp add: static_profile_def builder_ok_def i(2) j(2) rank_count_rank_map[OF d] Let_def checked_sub_def)
qed

lemma static_series_returns:
  assumes v: "validate_spec spec = Ok ()" and b: "builder_ok spec b" and n: "1 \<le> n"
    and xy: "x \<in> set (ordered_entrant_ids spec)" "y \<in> set (ordered_entrant_ids spec)" "x \<noteq> y"
  shows "returns (add_series n True (b, bal) tab (x, y))"
proof -
  obtain p where p: "static_profile b x y n = Ok p" "p < length (ts_profiles spec)"
    using static_profile_Ok[OF assms] by blast
  have "returns (try_fold (add_game sid n tab (x, y) p) (b, bal, []) ks)" for sid ks
    by (rule add_games_returns) (use p(2) b in \<open>simp add: builder_ok_def\<close>)
  then show ?thesis by (auto simp: add_series_def Let_def p(1) split: prod.splits intro!: returns_rbind)
qed

definition pairs_ok :: "string list \<Rightarrow> (string \<times> string) list \<Rightarrow> bool" where
  "pairs_ok es pairs \<longleftrightarrow> (\<forall>(x, y) \<in> set pairs. x \<in> set es \<and> y \<in> set es \<and> x \<noteq> y)"

lemma static_add_round_returns:
  assumes v: "validate_spec spec = Ok ()" and b: "builder_ok spec b" and n: "1 \<le> n"
    and ps: "pairs_ok (ordered_entrant_ids spec) (rp_pairs rnd)"
  shows "returns (add_round True (b, bal) n rnd)"
proof -
  let ?P = "\<lambda>(b, _). builder_ok spec b"
  have step: "returns (add_table n True acc (k, x, y))"
    if "?P acc" "(x, y) \<in> set (rp_pairs rnd)" for acc k x y
    using that ps static_series_returns[OF v _ n]
    by (auto simp: add_table_def pairs_ok_def split: prod.splits intro!: returns_rbind)
  have keep: "?P acc'" if "?P acc" "add_table n True acc (k, x, y) = Ok acc'" for acc acc' k x y
    using that by (cases acc; cases acc') (auto simp: add_table_def elim!: rbind_OkE dest!: add_series_Ok intro: grows_builder_ok)
  have "returns (try_fold (add_table n True) (b', bal) (List.enumerate 0 (rp_pairs rnd)))" if "builder_ok spec b'" for b'
    by (rule try_fold_returns[where P = ?P])
      (use that step keep in \<open>auto simp: in_set_enumerate_eq dest!: nth_mem\<close>)
  then show ?thesis using b unfolding add_round_def Let_def by (auto simp: builder_ok_def split: option.splits)
qed

lemma orient_static_round_returns:
  assumes "distinct es" "pairs_ok es (rp_pairs rnd)"
  shows "returns (orient_static_round rnd (rank_map es) n c)"
    and "orient_static_round rnd (rank_map es) n c = Ok rnd' \<Longrightarrow> pairs_ok es (rp_pairs rnd')"
proof -
  have "returns (orient_pair (rank_map es) n c (x, y))" if "(x, y) \<in> set (rp_pairs rnd)" for x y
    using rank_map_mem[OF assms(1), of x] rank_map_mem[OF assms(1), of y] assms(2) that
    by (fastforce simp: orient_pair_def pairs_ok_def Let_def)
  then show "returns (orient_static_round rnd (rank_map es) n c)"
    by (auto simp: orient_static_round_def intro!: returns_rbind traverse_returns)
  assume "orient_static_round rnd (rank_map es) n c = Ok rnd'"
  then have "list_all2 (\<lambda>x y. orient_pair (rank_map es) n c x = Ok y) (rp_pairs rnd) (rp_pairs rnd')"
    by (auto simp: orient_static_round_def traverse_Ok_iff elim!: rbind_OkE)
  then have "\<forall>q \<in> set (rp_pairs rnd'). \<exists>p \<in> set (rp_pairs rnd). q = p \<or> q = (snd p, fst p)"
    by (induction rule: list_all2_induct) (auto dest: orient_pair_Ok)
  then show "pairs_ok es (rp_pairs rnd')" using assms(2) by (fastforce simp: pairs_ok_def)
qed

lemma circle_rounds_pairs_ok:
  assumes "2 \<le> length es" "distinct es" "circle_rounds es = Ok rs" "r \<in> set rs"
  shows "pairs_ok es (rp_pairs r)"
proof -
  obtain k where r: "r = round_of (rotated k (circle_slots es))"
    using assms(3,4) by (auto simp: circle_rounds_Ok[OF assms(1,2)])
  have m: "mset (members (rp_pairs r)) + (case rp_bye r of Some e \<Rightarrow> {#e#} | None \<Rightarrow> {#}) = mset es"
    unfolding r by (rule round_entrants(1)[OF assms(1,2)])
  then have "set (members (rp_pairs r)) \<subseteq> set es" by (metis mset_subset_eq_add_left set_mset_mono set_mset_mset)
  moreover have "x \<noteq> y" if xy: "(x, y) \<in> set (rp_pairs r)" for x y
  proof -
    obtain ps qs where "rp_pairs r = ps @ (x, y) # qs" using xy by (metis split_list)
    moreover have "mset (members (rp_pairs r)) \<subseteq># mset es" using m by (metis mset_subset_eq_add_left)
    ultimately have "mset [x, y] \<subseteq># mset es" by (auto simp: members_def intro: subset_mset.order_trans[rotated])
    then have "distinct [x, y]" using assms(2) by (metis distinct_append mset_append mset_eq_imp_distinct_iff ex_mset subset_mset.le_iff_add)
    then show ?thesis by simp
  qed
  ultimately show ?thesis by (fastforce simp: pairs_ok_def members_def)
qed

lemma round_number_positive:
  "Option.bind u (\<lambda>v. Option.bind (w v) (\<lambda>v. checked_add 16 v 1)) = Some n \<Longrightarrow> 1 \<le> n"
  by (auto simp: bind_eq_Some_conv checked_add_def split: if_splits)

lemma static_round_returns:
  assumes v: "validate_spec spec = Ok ()" and b: "builder_ok spec b" and ps: "pairs_ok (ordered_entrant_ids spec) (rp_pairs rnd)"
  defines "es \<equiv> ordered_entrant_ids spec"
  shows "returns (static_round (rank_map es) (length es) k c (b, bal) (i, rnd))"
    and "static_round (rank_map es) (length es) k c (b, bal) (i, rnd) = Ok (b', bal') \<Longrightarrow> builder_ok spec b'"
proof -
  have d: "distinct es"
    using validate_spec_Ok(2)[OF v] mset_eq_imp_distinct_iff[OF ordered_entrant_ids_facts(1)] unfolding es_def by blast
  note o1 = orient_static_round_returns[OF d ps[folded es_def]]
  show "returns (static_round (rank_map es) (length es) k c (b, bal) (i, rnd))"
    unfolding static_round_def prod.case
  proof (intro returns_rbind returns_ok_or o1(1))
    fix off len n r
    assume n: "ok_or Overflow (Option.bind (checked_mul 16 c len) (\<lambda>v.
        Option.bind (checked_add 16 v off) (\<lambda>v. checked_add 16 v 1))) = (Ok n :: (TournamentError, nat) outcome)"
      and r: "orient_static_round rnd (rank_map es) (length es) c = Ok r"
    from n have "1 \<le> n" unfolding ok_or_Ok_iff by (rule round_number_positive)
    then show "returns (add_round True (b, bal) n r)"
      by (rule static_add_round_returns[OF v b]) (rule o1(2)[OF r, unfolded es_def])
  qed
  assume "static_round (rank_map es) (length es) k c (b, bal) (i, rnd) = Ok (b', bal')"
  then obtain num o1 where "add_round True (b, bal) num o1 = Ok (b', bal')"
    by (auto simp: static_round_def elim!: rbind_OkE)
  then show "builder_ok spec b'" using add_round_Ok extends_builder_ok b by blast
qed

lemma ScheduleBuilder_new_ok:
  assumes "validate_spec spec = Ok ()" "ScheduleBuilder_new E json spec i k = Ok b"
  shows "builder_ok spec b"
  using assms validate_spec_Ok(1)[OF assms(1)] ordered_entrant_ids_facts(2)[of spec]
  by (auto simp: ScheduleBuilder_new_def Let_def builder_ok_def try_from_def elim!: rbind_OkE split: if_splits)

lemma schedule_returns: "returns (schedule E json spec)"
proof (cases "validate_spec spec = Ok ()")
  case False
  moreover have "returns (validate_spec spec)" by (simp add: validate_spec_def)
  ultimately show ?thesis by (cases "validate_spec spec") (auto simp: schedule_def)
next
  case True
  note spec = validate_spec_Ok[OF True]
  let ?es = "ordered_entrant_ids spec"
  have es: "2 \<le> length ?es" "distinct ?es"
    using spec(1,2) ordered_entrant_ids_facts[of spec] mset_eq_imp_distinct_iff[OF ordered_entrant_ids_facts(1)] by auto
  have new: "returns (ScheduleBuilder_new E json spec 0 0)"
    using True by (auto simp: ScheduleBuilder_new_def Let_def format_identity_def intro!: returns_rbind)
  let ?P = "\<lambda>(b, _). builder_ok spec b"
  have rounds: "returns (try_fold (static_round (rank_map ?es) (length ?es) k c) acc (List.enumerate 0 rs))
      \<and> (\<forall>acc'. try_fold (static_round (rank_map ?es) (length ?es) k c) acc (List.enumerate 0 rs) = Ok acc' \<longrightarrow> ?P acc')"
    if "?P acc" "\<forall>r \<in> set rs. pairs_ok ?es (rp_pairs r)" for acc k c rs
  proof (intro conjI allI impI)
    have r: "returns (static_round (rank_map ?es) (length ?es) k c a e)" "\<And>a'. static_round (rank_map ?es) (length ?es) k c a e = Ok a' \<Longrightarrow> ?P a'"
      if "?P a" "e \<in> set (List.enumerate 0 rs)" for a e
    proof -
      obtain b bal i rnd where ae: "a = (b, bal)" "e = (i, rnd)" by (cases a; cases e)
      then have p: "builder_ok spec b" "pairs_ok ?es (rp_pairs rnd)"
        using that \<open>\<forall>r \<in> set rs. _\<close> by (auto simp: in_set_enumerate_eq)
      show "returns (static_round (rank_map ?es) (length ?es) k c a e)"
        unfolding ae by (rule static_round_returns(1)[OF True p])
      show "?P a'" if "static_round (rank_map ?es) (length ?es) k c a e = Ok a'" for a'
        using static_round_returns(2)[OF True p] that unfolding ae by (cases a') auto
    qed
    show "returns (try_fold (static_round (rank_map ?es) (length ?es) k c) acc (List.enumerate 0 rs))"
      by (rule try_fold_returns[where P = ?P]) (use that r in auto)
    fix acc' assume "try_fold (static_round (rank_map ?es) (length ?es) k c) acc (List.enumerate 0 rs) = Ok acc'"
    then show "?P acc'" by (rule try_fold_invariant) (use that r in auto)
  qed
  have cycles: "returns (try_fold (\<lambda>acc c. try_fold (static_round (rank_map ?es) (length ?es) (length rs) c) acc
      (List.enumerate 0 rs)) acc cs)" if "?P acc" "\<forall>r \<in> set rs. pairs_ok ?es (rp_pairs r)" for acc cs rs
    by (rule try_fold_returns[where P = ?P]) (use that rounds in blast)+
  show ?thesis
    unfolding schedule_def Let_def
  proof (intro returns_rbind returns_ok_or new)
    show "returns (validate_spec spec)" using True by simp
    show "returns (circle_rounds ?es :: (TournamentError, _) outcome)" by (simp add: circle_rounds_Ok[OF es])
    fix cs :: nat and rs b
    assume rs: "circle_rounds ?es = (Ok rs :: (TournamentError, _) outcome)" and b: "ScheduleBuilder_new E json spec 0 0 = Ok b"
    show "returns (try_fold (\<lambda>acc c. try_fold (static_round (rank_map ?es) (length ?es) (length rs) c) acc
        (List.enumerate 0 rs)) (b, Map.empty) [0..<cs])"
      by (rule cycles) (use ScheduleBuilder_new_ok[OF True b] circle_rounds_pairs_ok[OF es rs] in auto)
  qed (auto simp: builder_finish_def split: prod.splits)
qed

end
