(* ===== verification/TournamentFair.thy ===== *)
theory TournamentFair
  imports TournamentSpecs
begin

text \<open>
  Fairness of static schedules: no entrant plays twice in a round, and over any number of cycles
  every entrant has the first seat as often as the second, up to one game.
\<close>

section \<open>One appearance per round\<close>

definition seats_of :: "nat \<times> string \<times> string \<Rightarrow> (nat \<times> string) list" where
  "seats_of slot = (case slot of (r, a, b) \<Rightarrow> [(r, a), (r, b)])"

lemma distinct_concat_keys:
  assumes "\<And>x. x \<in> set xs \<Longrightarrow> distinct (f x) \<and> (\<forall>z \<in> set (f x). fst z = key x)" "distinct (map key xs)"
  shows "distinct (concat (map f xs))"
  using assms
proof (induction xs)
  case (Cons x xs)
  have "set (f x) \<inter> (\<Union>y \<in> set xs. set (f y)) = {}"
  proof (rule ccontr)
    assume "set (f x) \<inter> (\<Union>y \<in> set xs. set (f y)) \<noteq> {}"
    then obtain y z where z: "y \<in> set xs" "z \<in> set (f x)" "z \<in> set (f y)" by blast
    then have "key x = key y" using Cons.prems(1)[of x] Cons.prems(1)[of y] by fastforce
    then show False using Cons.prems(2) z(1) by (metis distinct.simps(2) imageI list.set_map list.simps(9))
  qed
  then show ?case using Cons by simp
qed simp

lemma concat_map_concat: "concat (map f (concat xss)) = concat (map (\<lambda>xs. concat (map f xs)) xss)"
  by (induction xss) auto

lemma seats_round_table:
  "mset (concat (map seats_of (round_table ranks n k c (i, rnd)))) =
     mset (map (Pair (c * k + i + 1)) (members (rp_pairs rnd)))"
proof -
  have "mset (seats_of (m, oriented ranks n c p)) = mset (map (Pair m) [fst p, snd p])" for m p
    using orient_pair_Ok[of ranks n c p] by (cases p) (auto simp: oriented_def seats_of_def split: outcome.splits)
  then have "mset (concat (map (\<lambda>p. seats_of (m, oriented ranks n c p)) ps)) = mset (map (Pair m) (members ps))" for m ps
    by (induction ps) (auto simp: members_def split: prod.splits)
  then show ?thesis by (simp add: round_table_def comp_def)
qed

lemma cycle_round_numbers:
  "concat (map (\<lambda>c. map (\<lambda>entry. c * length rounds + fst entry + 1) (List.enumerate 0 rounds)) [0..<n]) =
     [1..<n * length rounds + 1]"
proof (induction n)
  case (Suc n)
  have "map (\<lambda>entry. n * length rounds + fst entry + 1) (List.enumerate 0 rounds) =
      map (\<lambda>i. i + (n * length rounds + 1)) (map fst (List.enumerate 0 rounds))"
    by (simp add: add_ac del: map_fst_enumerate)
  also have "\<dots> = [n * length rounds + 1..<Suc n * length rounds + 1]"
    using map_add_upt[of "n * length rounds + 1" "length rounds"] by (simp add: add_ac del: upt_Suc)
  finally show ?case
    using Suc upt_add_eq_append[of 1 "n * length rounds + 1" "length rounds"] by (simp add: add.commute)
qed simp

lemma cycle_tables_distinct:
  assumes "2 \<le> length es" "distinct es" "circle_rounds es = (Ok rounds :: (TournamentError, _) outcome)"
  shows "distinct (concat (map seats_of (concat (map (cycle_table ranks n rounds) [0..<cycles]))))"
proof -
  let ?entries = "concat (map (\<lambda>c. map (Pair c) (List.enumerate 0 rounds)) [0..<cycles])"
  let ?f = "\<lambda>(c, entry). concat (map seats_of (round_table ranks n (length rounds) c entry))"
  let ?key = "\<lambda>(c, entry). c * length rounds + fst entry + 1"
  have "distinct (?f x) \<and> (\<forall>z \<in> set (?f x). fst z = ?key x)" if "x \<in> set ?entries" for x
  proof -
    obtain c i rnd where x: "x = (c, i, rnd)" by (cases x)
    have "rnd \<in> set rounds" using that x by (auto simp: in_set_enumerate_eq)
    then obtain k where r: "rnd = round_of (rotated k (circle_slots es))"
      using assms(3) by (auto simp: circle_rounds_Ok[OF assms(1,2)])
    have "mset (members (rp_pairs rnd)) \<subseteq># mset es"
      using round_entrants(1)[OF assms(1,2), of k] unfolding r by (metis mset_subset_eq_add_left)
    then have d: "distinct (members (rp_pairs rnd))"
      using assms(2) by (metis distinct_append mset_append mset_eq_imp_distinct_iff ex_mset subset_mset.le_iff_add)
    have m: "mset (?f x) = mset (map (Pair (?key x)) (members (rp_pairs rnd)))"
      using seats_round_table x by simp
    have "distinct (?f x)" using mset_eq_imp_distinct_iff[OF m] d by (simp add: distinct_map inj_on_def)
    moreover have "\<forall>z \<in> set (?f x). fst z = ?key x" using mset_eq_setD[OF m] by auto
    ultimately show ?thesis ..
  qed
  moreover have "distinct (map ?key ?entries)"
    using cycle_round_numbers[of rounds cycles] by (simp add: map_concat comp_def)
  ultimately have "distinct (concat (map ?f ?entries))" by (rule distinct_concat_keys)
  moreover have "concat (map ?f ?entries) = concat (map seats_of (concat (map (cycle_table ranks n rounds) [0..<cycles])))"
    by (simp add: cycle_table_def concat_map_concat comp_def)
  ultimately show ?thesis by simp
qed

section \<open>Seats\<close>

text \<open>\<open>lead e\<close> is 1 when \<open>e\<close> has the first seat, -1 when it has the second.\<close>

definition lead :: "string \<Rightarrow> string \<times> string \<Rightarrow> int" where
  "lead e p = (if fst p = e then 1 else if snd p = e then -1 else 0)"

lemma lead_swap: "fst p \<noteq> snd p \<Longrightarrow> lead e (snd p, fst p) = - lead e p"
  by (auto simp: lead_def)

text \<open>Whether rank \<open>i\<close> has the first seat against rank \<open>j\<close> in the first cycle.\<close>

definition takes_first :: "nat \<Rightarrow> nat \<Rightarrow> nat \<Rightarrow> bool" where
  "takes_first n i j \<longleftrightarrow> (let d = (j + n - i) mod n in
     if even n \<and> d = n div 2 then even (min i j) = (i < j) else d \<le> n div 2)"

lemma rank_gap:
  fixes i j n :: nat
  assumes "i < n" "j < n" "i \<noteq> j"
  shows "(j + n - i) mod n = (if i < j then j - i else n - (i - j))"
proof (cases "i < j")
  case True
  then have "j + n - i = n + (j - i)" using assms by linarith
  then have "(j + n - i) mod n = (j - i) mod n" by (simp only: mod_add_self1)
  then show ?thesis using assms True by simp
next
  case False
  then have "j + n - i = n - (i - j)" "n - (i - j) < n" using assms by linarith+
  then show ?thesis using assms False by simp
qed

lemma takes_first_sym:
  assumes "i < n" "j < n" "i \<noteq> j"
  shows "takes_first n j i \<longleftrightarrow> \<not> takes_first n i j"
proof -
  define d where "d = (j + n - i) mod n"
  have d: "(i + n - j) mod n = n - d" "0 < d" "d < n"
    using assms rank_gap[OF assms] rank_gap[of j n i] by (auto simp: d_def)
  have half: "n - d = n div 2 \<longleftrightarrow> d = n div 2" if "even n" using that d(3) by (auto elim!: evenE)
  show ?thesis
  proof (cases "even n \<and> d = n div 2")
    case True
    then show ?thesis using half assms(3) d(1)
      by (auto simp: takes_first_def Let_def min.commute simp flip: d_def)
  next
    case False
    then have "n - d \<le> n div 2 \<longleftrightarrow> \<not> d \<le> n div 2" using d(2,3) by (cases "even n") (auto elim!: evenE oddE)
    then show ?thesis using False half by (auto simp: takes_first_def Let_def d(1) simp flip: d_def)
  qed
qed

lemma oriented_ranks:
  assumes "map_of ranks x = Some i" "map_of ranks y = Some j"
  shows "oriented ranks n c (x, y) = (if takes_first n i j \<noteq> odd c then (x, y) else (y, x))"
  using assms
  by (cases "even c"; cases "even n")
    (simp_all add: oriented_def orient_pair_def takes_first_def Let_def even_iff_mod_2_eq_zero odd_iff_mod_2_eq_one)

lemma lead_oriented:
  assumes d: "distinct es" and x: "i < length es" "es ! i = x" and y: "y \<in> set es" "x \<noteq> y" and p: "pair_set p = {x, y}"
  shows "lead x (oriented (rank_map es) (length es) c p) =
    (- 1) ^ c * (\<Sum>j | j < length es \<and> es ! j = y. if takes_first (length es) i j then 1 else - 1)"
proof -
  obtain j where j: "j < length es" "map_of (rank_map es) y = Some j" "es ! j = y" using rank_map_mem[OF d y(1)] by blast
  have i: "map_of (rank_map es) x = Some i" using rank_map_Some[OF d] x by blast
  have ij: "i \<noteq> j" using x j y by auto
  have "{k. k < length es \<and> es ! k = y} = {j}" using j d by (auto simp: nth_eq_iff_index_eq)
  moreover have "p = (x, y) \<or> p = (y, x)" using p by (cases p) (auto simp: doubleton_eq_iff)
  ultimately show ?thesis
    using oriented_ranks[OF i j(2)] oriented_ranks[OF j(2) i] takes_first_sym[OF x(1) j(1) ij] y(2)
    by (cases "even c"; cases "takes_first (length es) i j") (auto simp: lead_def)
qed

lemma lead_absent: "e \<notin> pair_set p \<Longrightarrow> lead e p = 0"
  by (auto simp: lead_def pair_set_def)

text \<open>Over the opponents of one entrant the seats cancel, up to one game.\<close>

lemma gap_bij:
  fixes i n :: nat
  assumes "i < n"
  shows "bij_betw (\<lambda>j. (j + n - i) mod n) ({..<n} - {i}) {1..<n}"
proof (rule bij_betw_byWitness[where f' = "\<lambda>d. (d + i) mod n"])
  have wrap: "(d + i) mod n = (if d + i < n then d + i else d + i - n)" if "d < n" for d
    using that assms by (auto simp: mod_if[of "d + i" n])
  show "\<forall>j \<in> {..<n} - {i}. ((j + n - i) mod n + i) mod n = j" using assms rank_gap[of i n] wrap by auto
  show "\<forall>d \<in> {1..<n}. ((d + i) mod n + n - i) mod n = d" using assms rank_gap[of i n] wrap by auto
  show "(\<lambda>j. (j + n - i) mod n) ` ({..<n} - {i}) \<subseteq> {1..<n}" using assms rank_gap[of i n] by auto
  show "(\<lambda>d. (d + i) mod n) ` {1..<n} \<subseteq> {..<n} - {i}" using assms wrap by auto
qed

lemma opponents_cancel:
  assumes "i < n"
  shows "\<bar>\<Sum>j \<in> {..<n} - {i}. if takes_first n i j then 1 else - 1 :: int\<bar> \<le> 1"
proof -
  define s :: int where "s = (if takes_first n i ((n div 2 + i) mod n) then 1 else - 1)"
  let ?h = "\<lambda>d. if even n \<and> d = n div 2 then s else if d \<le> n div 2 then 1 else - 1"
  have gap: "(if takes_first n i j then 1 else - 1) = ?h ((j + n - i) mod n)" if "j \<in> {..<n} - {i}" for j
  proof -
    have "j = (n div 2 + i) mod n" if "(j + n - i) mod n = n div 2"
      using that assms \<open>j \<in> _\<close> rank_gap[of i n j] by (auto simp: mod_if[of "n div 2 + i"] split: if_splits)
    then show ?thesis by (auto simp: takes_first_def s_def Let_def)
  qed
  have "(\<Sum>j \<in> {..<n} - {i}. if takes_first n i j then 1 else - 1) = (\<Sum>d \<in> {1..<n}. ?h d)"
    unfolding sum.reindex_bij_betw[OF gap_bij[OF assms], symmetric] by (rule sum.cong) (use gap in auto)
  also have "\<dots> = (if even n then s else 0)"
  proof (cases "even n")
    case True
    then obtain k where k: "n = 2 * k" "0 < k" using assms by auto
    have "{1..<n} = insert k ({1..<k} \<union> {k+1..<n})" using k by auto
    then show ?thesis using k by (simp add: sum.union_disjoint)
  next
    case False
    then obtain k where k: "n = 2 * k + 1" by (metis oddE)
    have "{1..<n} = {1..<k+1} \<union> {k+1..<n}" using k by auto
    then show ?thesis using k by (simp add: sum.union_disjoint)
  qed
  finally show ?thesis by (simp add: s_def)
qed

section \<open>Cycles\<close>

lemma sum_list_map_mset: "sum_list (map f xs) = sum_mset (image_mset f (mset xs))" for f :: "'a \<Rightarrow> int"
  by (simp flip: sum_mset_sum_list)

lemma pairs_with:
  assumes "finite A" "e \<in> A"
  shows "(\<Sum>P | P \<subseteq> A \<and> card P = 2. if e \<in> P then g (P - {e}) else 0) = (\<Sum>y \<in> A - {e}. g {y} :: int)"
proof -
  have "(\<Sum>P | P \<subseteq> A \<and> card P = 2. if e \<in> P then g (P - {e}) else 0) =
      (\<Sum>P | P \<subseteq> A \<and> card P = 2 \<and> e \<in> P. g (P - {e}))"
    using assms(1) by (intro sum.mono_neutral_cong_right) auto
  also have "\<dots> = (\<Sum>y \<in> A - {e}. g {y})"
  proof (rule sum.reindex_bij_witness[where i = "\<lambda>y. {e, y}" and j = "\<lambda>P. the_elem (P - {e})"])
    fix P assume P: "P \<in> {P. P \<subseteq> A \<and> card P = 2 \<and> e \<in> P}"
    then obtain y where y: "P = {e, y}" "e \<noteq> y" "y \<in> A" by (auto simp: card_2_iff)
    have pe: "P - {e} = {y}" using y(1,2) by blast
    then have the: "the_elem (P - {e}) = y" by simp
    show "{e, the_elem (P - {e})} = P" "the_elem (P - {e}) \<in> A - {e}" "g {the_elem (P - {e})} = g (P - {e})"
      unfolding the unfolding pe using y by simp_all
  next
    fix y assume y: "y \<in> A - {e}"
    then have pe: "{e, y} - {e} = {y}" "e \<noteq> y" by blast+
    show "the_elem ({e, y} - {e}) = y" unfolding pe by simp
    show "{e, y} \<in> {P. P \<subseteq> A \<and> card P = 2 \<and> e \<in> P}" using y assms pe(2) by simp
  qed
  finally show ?thesis .
qed

text \<open>The lead of an entrant over one cycle depends on the parity of the cycle only.\<close>

definition cycle_lead :: "string list \<Rightarrow> nat \<Rightarrow> int" where
  "cycle_lead es i = (\<Sum>j \<in> {..<length es} - {i}. if takes_first (length es) i j then 1 else - 1)"

lemma cycle_table_lead:
  assumes es: "2 \<le> length es" "distinct es" "circle_rounds es = (Ok rounds :: (TournamentError, _) outcome)"
    and i: "i < length es"
  shows "(\<Sum>slot \<leftarrow> cycle_table (rank_map es) (length es) rounds c. lead (es ! i) (snd slot)) = (- 1) ^ c * cycle_lead es i"
proof -
  let ?n = "length es" and ?ps = "concat (map rp_pairs rounds)" and ?e = "es ! i"
  let ?w = "\<lambda>j. if takes_first (length es) i j then 1 else - 1 :: int"
  let ?g = "\<lambda>Q. (- 1) ^ c * (\<Sum>j | j < ?n \<and> es ! j \<in> Q. ?w j)"
  have snd_table: "map snd (cycle_table (rank_map es) ?n rounds c) = map (oriented (rank_map es) ?n c) ?ps"
  proof -
    have "map snd (concat (map (round_table (rank_map es) ?n k c) (List.enumerate m rounds))) =
        map (oriented (rank_map es) ?n c) ?ps" for m k
      by (induction rounds arbitrary: m) (auto simp: round_table_def)
    then show ?thesis by (simp add: cycle_table_def)
  qed
  have weight: "lead ?e (oriented (rank_map es) ?n c p) = (if ?e \<in> pair_set p then ?g (pair_set p - {?e}) else 0)"
    if p: "p \<in> set ?ps" for p
  proof -
    obtain x y where xy: "p = (x, y)" "x \<in> set es" "y \<in> set es" "x \<noteq> y"
    proof -
      obtain r where "r \<in> set rounds" "p \<in> set (rp_pairs r)" using p by auto
      then show ?thesis using circle_rounds_pairs_ok[OF es] that by (cases p) (auto simp: pairs_ok_def)
    qed
    show ?thesis
    proof (cases "?e \<in> pair_set p")
      case True
      then obtain z where z: "pair_set p = {?e, z}" "z \<in> set es" "?e \<noteq> z" using xy by auto
      then have "pair_set p - {?e} = {z}" by auto
      then show ?thesis using lead_oriented[OF es(2) i refl z(2,3,1), of c] True by simp
    qed (simp add: lead_absent)
  qed
  have "(\<Sum>slot \<leftarrow> cycle_table (rank_map es) ?n rounds c. lead ?e (snd slot)) =
      sum_list (map (lead ?e) (map snd (cycle_table (rank_map es) ?n rounds c)))" by (simp add: comp_def)
  also have "\<dots> = (\<Sum>p \<leftarrow> ?ps. if ?e \<in> pair_set p then ?g (pair_set p - {?e}) else 0)"
    unfolding snd_table map_map comp_def by (rule arg_cong[of _ _ sum_list], rule map_cong[OF refl weight])
  also have "\<dots> = (\<Sum>P \<leftarrow> map pair_set ?ps. if ?e \<in> P then ?g (P - {?e}) else 0)" by (simp add: comp_def)
  also have "\<dots> = (\<Sum>P | P \<subseteq> set es \<and> card P = 2. if ?e \<in> P then ?g (P - {?e}) else 0)"
    unfolding sum_list_map_mset map_pair_set circle_pairs_once[OF es] by (simp add: sum_unfold_sum_mset)
  also have "\<dots> = (\<Sum>y \<in> set es - {?e}. ?g {y})" by (rule pairs_with) (use i in auto)
  also have "\<dots> = (- 1) ^ c * (\<Sum>j \<in> {..<?n} - {i}. ?w j)"
  proof -
    have "(\<Sum>y \<in> set es - {?e}. \<Sum>j | j < ?n \<and> es ! j \<in> {y}. ?w j) = (\<Sum>j \<in> {..<?n} - {i}. ?w j)"
    proof (rule sum.reindex_bij_witness[where i = "\<lambda>j. es ! j" and j = "\<lambda>y. THE j. j < ?n \<and> es ! j = y"])
      fix y assume "y \<in> set es - {?e}"
      then obtain j where j: "j < ?n" "es ! j = y" "j \<noteq> i" by (auto simp: in_set_conv_nth)
      have u: "{k. k < ?n \<and> es ! k \<in> {y}} = {j}" using j es(2) by (auto simp: nth_eq_iff_index_eq)
      have the: "(THE j. j < ?n \<and> es ! j = y) = j" using j es(2) by (auto simp: nth_eq_iff_index_eq)
      show "es ! (THE j. j < ?n \<and> es ! j = y) = y" "(THE j. j < ?n \<and> es ! j = y) \<in> {..<?n} - {i}"
        "?w (THE j. j < ?n \<and> es ! j = y) = (\<Sum>j | j < ?n \<and> es ! j \<in> {y}. ?w j)"
        unfolding the u using j by auto
    qed (use es(2) i in \<open>auto simp: nth_eq_iff_index_eq\<close>)
    then show ?thesis by (simp flip: sum_distrib_left)
  qed
  finally show ?thesis by (simp add: cycle_lead_def)
qed

lemma sum_list_concat_map: "sum_list (map f (concat xss)) = (\<Sum>xs \<leftarrow> xss. sum_list (map f xs))" for f :: "'a \<Rightarrow> int"
  by (induction xss) auto

lemma alternating_sum: "(\<Sum>c \<leftarrow> [0..<n]. (- 1) ^ c * x) = (if even n then 0 else x)" for x :: int
  by (induction n) auto

lemma cycles_lead:
  assumes "2 \<le> length es" "distinct es" "circle_rounds es = (Ok rounds :: (TournamentError, _) outcome)" "e \<in> set es"
  shows "\<bar>\<Sum>slot \<leftarrow> concat (map (cycle_table (rank_map es) (length es) rounds) [0..<cycles]). lead e (snd slot)\<bar> \<le> 1"
proof -
  obtain i where i: "i < length es" "e = es ! i" using assms(4) by (metis in_set_conv_nth)
  have "(\<Sum>slot \<leftarrow> concat (map (cycle_table (rank_map es) (length es) rounds) [0..<cycles]). lead e (snd slot)) =
      (\<Sum>c \<leftarrow> [0..<cycles]. (- 1) ^ c * cycle_lead es i)"
    unfolding i(2) by (simp add: sum_list_concat_map comp_def cycle_table_lead[OF assms(1,2,3) i(1)])
  then show ?thesis using alternating_sum opponents_cancel[OF i(1)] by (simp add: cycle_lead_def)
qed

section \<open>Games\<close>

definition game_seats :: "ScheduledMatch \<Rightarrow> string \<times> string" where
  "game_seats m = (sm_seat_one m, sm_seat_two m)"

lemma swapping_games:
  assumes "\<forall>i. Suc i < length ms \<longrightarrow> game_seats (ms ! Suc i) = (snd (game_seats (ms ! i)), fst (game_seats (ms ! i)))"
    "ms \<noteq> []" "game_seats (hd ms) = (x, y)" "x \<noteq> y"
  shows "(\<Sum>m \<leftarrow> ms. lead e (game_seats m)) = (if even (length ms) then 0 else lead e (x, y))"
  using assms
proof (induction ms arbitrary: x y)
  case (Cons m ms)
  show ?case
  proof (cases ms)
    case Nil
    then show ?thesis using Cons.prems by simp
  next
    case (Cons m' ms')
    have m': "game_seats m' = (y, x)" using Cons Cons.prems(1)[rule_format, of 0] Cons.prems(3) by simp
    have "\<forall>i. Suc i < length ms \<longrightarrow> game_seats (ms ! Suc i) = (snd (game_seats (ms ! i)), fst (game_seats (ms ! i)))"
      using Cons.prems(1)[rule_format, of "Suc _"] by simp
    then have "(\<Sum>m \<leftarrow> ms. lead e (game_seats m)) = (if even (length ms) then 0 else lead e (y, x))"
      by (rule Cons.IH) (use Cons m' Cons.prems(4) in auto)
    moreover have "lead e (y, x) = - lead e (x, y)" using lead_swap[of "(x, y)"] Cons.prems(4) by simp
    ultimately show ?thesis using Cons.prems(3) by simp
  qed
qed simp

end
