(* ===== verification/TournamentProps.thy ===== *)
theory TournamentProps
  imports TournamentFair
begin

text \<open>
  The promises of \<^verbatim>\<open>docs/TOURNAMENTS.md\<close>: coverage, byes, waves and seat balance of static
  schedules, the Swiss rounds, and the lifecycle of stored tournaments.
\<close>

section \<open>Seat balance of static schedules\<close>

lemma in_repeat_mset_set: "x \<in># repeat_mset n (mset_set A) \<Longrightarrow> x \<in> A"
  by (cases "finite A") (auto simp flip: count_greater_zero_iff simp: count_mset_set' split: if_splits)

lemma series_distinct:
  assumes "schedule E json spec = Ok sch" "static_cycles (ts_format spec) = Some cycles" "s \<in> set (sch_series sch)"
  shows "ss_entrant_a s \<noteq> ss_entrant_b s"
proof -
  have "pair_set (series_pair s) \<in># mset (map (pair_set \<circ> series_pair) (sch_series sch))" using assms(3) by auto
  then have "card (pair_set (series_pair s)) = 2"
    unfolding schedule_pairs[OF assms(1,2)] by (auto dest!: in_repeat_mset_set)
  then show ?thesis by (auto simp: series_pair_def)
qed

lemma lead_difference:
  "\<forall>m \<in> set ms. sm_seat_one m \<noteq> sm_seat_two m \<Longrightarrow> (\<Sum>m \<leftarrow> ms. lead e (game_seats m)) =
     int (length (filter (\<lambda>m. sm_seat_one m = e) ms)) - int (length (filter (\<lambda>m. sm_seat_two m = e) ms))"
  by (induction ms) (auto simp: lead_def game_seats_def)

lemma series_lead:
  assumes "series_games True games s ms" "0 < games" "ss_entrant_a s \<noteq> ss_entrant_b s"
  shows "(\<Sum>m \<leftarrow> ms. lead e (game_seats m)) = (if even games then 0 else lead e (series_pair s))"
    and "m \<in> set ms \<Longrightarrow> sm_seat_one m \<noteq> sm_seat_two m"
proof -
  have ms: "ms \<noteq> []" "length ms = games" using assms(1,2) by (auto simp: series_games_def)
  then have "(\<Sum>m \<leftarrow> ms. lead e (game_seats m)) = (if even (length ms) then 0 else lead e (ss_entrant_a s, ss_entrant_b s))"
    by (intro swapping_games) (use assms(1,3) in \<open>auto simp: series_games_def game_seats_def\<close>)
  then show "(\<Sum>m \<leftarrow> ms. lead e (game_seats m)) = (if even games then 0 else lead e (series_pair s))"
    using ms(2) by (simp add: series_pair_def)
  show "sm_seat_one m \<noteq> sm_seat_two m" if "m \<in> set ms"
    using assms(1,3) that by (fastforce simp: series_games_def doubleton_eq_iff)
qed

lemma schedule_balance:
  assumes s: "schedule E json spec = Ok sch" and cy: "static_cycles (ts_format spec) = Some cycles"
    and e: "e \<in> te_entrant_id ` set (ts_entrants spec)"
  shows "\<bar>int (length (filter (\<lambda>m. sm_seat_one m = e) (sch_matches sch)))
    - int (length (filter (\<lambda>m. sm_seat_two m = e) (sch_matches sch)))\<bar> \<le> 1"
proof -
  let ?es = "ordered_entrant_ids spec" and ?games = "games_per_series (ts_format spec)"
  obtain rounds added where v: "validate_spec spec = Ok ()" and rs: "circle_rounds ?es = (Ok rounds :: (TournamentError, _) outcome)"
    and t: "map slot_of (sch_series sch) = concat (map (cycle_table (rank_map ?es) (length ?es) rounds) [0..<cycles])"
    and added: "map fst added = sch_series sch" "concat (map snd added) = sch_matches sch"
      "\<forall>(s, ms) \<in> set added. series_games True ?games s ms"
    using schedule_Ok(1)[OF s cy] by blast
  have games: "0 < ?games" using validate_spec_Ok(4)[OF v] by (cases "ts_format spec") auto
  have a: "(\<Sum>m \<leftarrow> ms. lead e (game_seats m)) = (if even ?games then 0 else lead e (series_pair s))"
    "\<forall>m \<in> set ms. sm_seat_one m \<noteq> sm_seat_two m" if "(s, ms) \<in> set added" for s ms
  proof -
    have "s \<in> set (sch_series sch)" using that added(1) by (metis fst_conv image_eqI list.set_map)
    note d = series_distinct[OF assms(1,2) this]
    show "(\<Sum>m \<leftarrow> ms. lead e (game_seats m)) = (if even ?games then 0 else lead e (series_pair s))"
      "\<forall>m \<in> set ms. sm_seat_one m \<noteq> sm_seat_two m"
      using series_lead[OF _ games d] added(3) that by fastforce+
  qed
  have "(\<Sum>m \<leftarrow> sch_matches sch. lead e (game_seats m)) = (\<Sum>(s, ms) \<leftarrow> added. \<Sum>m \<leftarrow> ms. lead e (game_seats m))"
    unfolding added(2)[symmetric] by (simp add: sum_list_concat_map comp_def case_prod_unfold)
  also have "\<dots> = (\<Sum>(s, ms) \<leftarrow> added. if even ?games then 0 else lead e (series_pair s))"
    using a(1) by (intro arg_cong[of _ _ sum_list] map_cong) auto
  also have "\<dots> = (\<Sum>s \<leftarrow> map fst added. if even ?games then 0 else lead e (series_pair s))"
    by (simp add: comp_def case_prod_unfold)
  also have "\<dots> = (if even ?games then 0 else \<Sum>slot \<leftarrow> map slot_of (sch_series sch). lead e (snd slot))"
    unfolding added(1) by (simp add: slot_of_def comp_def)
  finally have "\<bar>\<Sum>m \<leftarrow> sch_matches sch. lead e (game_seats m)\<bar> \<le> 1"
    using cycles_lead[OF spec_entrants(1,2)[OF v] rs] e spec_entrants(3)[OF v] unfolding t by simp
  moreover have "\<forall>m \<in> set (sch_matches sch). sm_seat_one m \<noteq> sm_seat_two m"
    unfolding added(2)[symmetric] using a(2) by fastforce
  ultimately show ?thesis by (simp add: lead_difference)
qed

section \<open>Swiss rounds\<close>

lemma swiss_round_Ok:
  assumes "schedule_swiss_round E json spec p = Ok sch"
  obtains rounds games policy ordered bye active pairs b0 b bal added where
    "validate_spec spec = Ok ()" "ts_format spec = Swiss rounds games policy"
    "validate_swiss_progress spec p rounds = Ok ()" "ordered_swiss_entrants spec p = Ok ordered"
    "choose_swiss_bye ordered (sw_prior_byes p) = (bye, active)"
    "swiss_pairs active (sw_prior_pairings p) policy = Some pairs"
    "map fst added = sch_series sch" "concat (map snd added) = sch_matches sch"
    "map series_pair (sch_series sch) = pairs"
    "map tb_entrant_id (sch_byes sch) = (case bye of None \<Rightarrow> [] | Some e \<Rightarrow> [e])"
    "\<forall>s \<in> set (sch_series sch). ss_round_number s = sw_completed_rounds p + 1"
    "map sm_sequence (sch_matches sch) = [sw_next_match_sequence p..<sw_next_match_sequence p + length (sch_matches sch)]"
    "map sm_seed_commitment (sch_matches sch) =
       take (length (sch_matches sch)) (drop (sw_next_seed_index p) (ts_game_seed_commitments spec))"
    "\<forall>(s, ms) \<in> set added. series_games False games s ms"
proof -
  obtain rounds games policy where f: "ts_format spec = Swiss rounds games policy"
    using assms by (cases "ts_format spec") (auto simp: schedule_swiss_round_def elim!: rbind_OkE)
  let ?bal0 = "map_of (rev (map (\<lambda>v. (bal_entrant_id v, bal_seat_one_games v, bal_seat_two_games v)) (sw_seat_balance p)))"
  obtain ordered bye active pairs num b0 b bal where
    s: "validate_spec spec = Ok ()" "validate_swiss_progress spec p rounds = Ok ()" "ordered_swiss_entrants spec p = Ok ordered"
    "choose_swiss_bye ordered (sw_prior_byes p) = (bye, active)" "swiss_pairs active (sw_prior_pairings p) policy = Some pairs"
    "num = sw_completed_rounds p + 1" "ScheduleBuilder_new E json spec (sw_next_seed_index p) (sw_next_match_sequence p) = Ok b0"
    "add_round False (b0, ?bal0) num \<lparr>rp_pairs = pairs, rp_bye = bye\<rparr> = Ok (b, bal)" "builder_finish b False = Ok sch"
    using assms f
    by (auto simp: schedule_swiss_round_def Let_def checked_add_def elim!: rbind_OkE case_prod_OkE split: prod.splits if_splits)
  from add_round_Ok[OF s(8)] obtain added where a: "extends False b0 b added (case bye of None \<Rightarrow> [] | Some e \<Rightarrow> [e])"
    "map (series_pair \<circ> fst) added = pairs" "\<forall>(s, _) \<in> set added. ss_round_number s = num" by auto
  have init: "sb_spec b0 = spec" "sb_series b0 = []" "sb_matches b0 = []" "sb_byes b0 = []"
    "sb_seed_index b0 = sw_next_seed_index p" "sb_next_sequence b0 = sw_next_match_sequence p"
    using s(7) by (auto simp: ScheduleBuilder_new_def Let_def elim!: rbind_OkE)
  have sch: "sch_series sch = map fst added" "sch_matches sch = concat (map snd added)" "sch_byes sch = sb_byes b"
    using s(9) a(1) init by (auto simp: builder_finish_def extends_def grows_def split: if_splits)
  show ?thesis
    by (rule that[OF s(1) f s(2,3,4,5), of added])
      (use a sch init s(6) f in \<open>auto simp: extends_def grows_def\<close>)
qed

lemma ordered_swiss_perm:
  assumes "ordered_swiss_entrants spec p = Ok ordered"
  shows "mset ordered = mset (map st_entrant_id (sw_standings p))"
  using assms by (auto simp: ordered_swiss_entrants_def Let_def split: if_splits)

lemma progress_entrants:
  assumes "validate_spec spec = Ok ()" "validate_swiss_progress spec p rounds = Ok ()"
  shows "mset (map st_entrant_id (sw_standings p)) = mset (map te_entrant_id (ts_entrants spec))"
proof -
  have "card (set (map st_entrant_id (sw_standings p))) = length (map st_entrant_id (sw_standings p))"
    "set (map st_entrant_id (sw_standings p)) = set (map te_entrant_id (ts_entrants spec))"
    using assms(2) by (auto simp: validate_swiss_progress_def Let_def split: if_splits)
  then show ?thesis
    using validate_spec_Ok(2)[OF assms(1)] by (metis card_distinct set_eq_iff_mset_eq_distinct)
qed

lemma choose_swiss_bye_active:
  assumes "choose_swiss_bye ordered byes = (bye, active)"
  shows "mset active + mset (case bye of None \<Rightarrow> [] | Some e \<Rightarrow> [e]) = mset ordered" "even (length active)"
    "bye = None \<longleftrightarrow> even (length ordered)"
proof -
  have "mset active + mset (case bye of None \<Rightarrow> [] | Some e \<Rightarrow> [e]) = mset ordered \<and> even (length active)
      \<and> (bye = None \<longleftrightarrow> even (length ordered))"
  proof (cases "even (length ordered)")
    case True
    then show ?thesis using assms by (simp add: choose_swiss_bye_even)
  next
    case False
    then obtain i where "i < length ordered" "bye = Some (ordered ! i)" "active = remove_at i ordered" "even (length active)"
      using choose_swiss_bye_odd[OF _ assms] by blast
    then show ?thesis using False remove_at_mset[of i ordered] by simp
  qed
  then show "mset active + mset (case bye of None \<Rightarrow> [] | Some e \<Rightarrow> [e]) = mset ordered" "even (length active)"
    "bye = None \<longleftrightarrow> even (length ordered)" by blast+
qed

text \<open>
  The place of an entrant in the Swiss order: by match points, spread and wins, the highest first, then by
  seed number and identifier.
\<close>

definition swiss_rank :: "TournamentSpec \<Rightarrow> SwissStanding \<Rightarrow> int \<times> int \<times> int \<times> nat \<times> string" where
  "swiss_rank spec s = (- st_match_points s, - st_spread s, - int (st_wins s),
     the (map_of (map (\<lambda>e. (te_entrant_id e, te_seed_number e)) (ts_entrants spec)) (st_entrant_id s)), st_entrant_id s)"

lemma ordered_swiss_rank:
  assumes "validate_spec spec = Ok ()" "ordered_swiss_entrants spec p = Ok ordered"
  shows "ordered = map st_entrant_id (sort_key (swiss_rank spec) (sw_standings p))"
proof -
  have "distinct (map te_entrant_id (ts_entrants spec))" by (rule validate_spec_Ok(2)[OF assms(1)])
  then have "map_of (rev (map (\<lambda>e. (te_entrant_id e, te_seed_number e)) (ts_entrants spec)))
      = map_of (map (\<lambda>e. (te_entrant_id e, te_seed_number e)) (ts_entrants spec))"
    by (intro map_of_inject_set[THEN iffD2]) (simp_all add: comp_def rev_map[symmetric])
  then show ?thesis using assms(2) unfolding ordered_swiss_entrants_def Let_def swiss_rank_def by (simp split: if_splits)
qed

text \<open>The bye is that of the last in the Swiss order who had none, of the very last if everyone had one.\<close>

lemma swiss_bye_last:
  assumes v: "validate_spec spec = Ok ()" and o': "ordered_swiss_entrants spec p = Ok ordered"
    and b: "choose_swiss_bye ordered (sw_prior_byes p) = (Some e, active)"
  shows "\<exists>t \<in> set (sw_standings p). st_entrant_id t = e \<and> (\<forall>s \<in> set (sw_standings p).
    (st_entrant_id s \<notin> sw_prior_byes p \<or> set ordered \<subseteq> sw_prior_byes p) \<longrightarrow> swiss_rank spec s \<le> swiss_rank spec t)"
proof -
  let ?xs = "sort_key (swiss_rank spec) (sw_standings p)"
  note ord = ordered_swiss_rank[OF v o']
  have "odd (length ordered)" using b by (auto simp: choose_swiss_bye_def even_iff_mod_2_eq_zero split: if_splits)
  then obtain i where i: "i < length ordered" "e = ordered ! i" "\<And>j. i < j \<Longrightarrow> j < length ordered \<Longrightarrow> ordered ! j \<in> sw_prior_byes p"
    "set ordered \<subseteq> sw_prior_byes p \<Longrightarrow> i = length ordered - 1"
    using choose_swiss_bye_odd[OF _ b] by (metis option.inject)
  have "swiss_rank spec s \<le> swiss_rank spec (?xs ! i)"
    if s: "s \<in> set (sw_standings p)" "st_entrant_id s \<notin> sw_prior_byes p \<or> set ordered \<subseteq> sw_prior_byes p" for s
  proof -
    obtain j where j: "j < length ?xs" "s = ?xs ! j" using s(1) by (metis in_set_conv_nth set_sort)
    have "ordered ! j = st_entrant_id s" using j by (simp add: ord)
    then have "j \<le> i" using i(3)[of j] i(4) s(2) j(1) by (cases "i < j") (auto simp: ord)
    then show ?thesis using sorted_nth_mono[of "map (swiss_rank spec) ?xs" j i] i(1) j by (simp add: ord)
  qed
  moreover have "?xs ! i \<in> set (sw_standings p)" "st_entrant_id (?xs ! i) = e"
    using i(1,2) nth_mem[of i ?xs] by (simp_all add: ord)
  ultimately show ?thesis by blast
qed

text \<open>
  Two entrants have met when a prior pairing is of the two, in either order. The prior pairings are
  canonical when each has its lesser entrant first, as \<^verbatim>\<open>EntrantPairing::new\<close> makes them.
\<close>

definition have_met :: "SwissProgress \<Rightarrow> string \<Rightarrow> string \<Rightarrow> bool" where
  "have_met p a b \<longleftrightarrow> (\<exists>q \<in> sw_prior_pairings p. {ep_a q, ep_b q} = {a, b})"

definition pairings_canonical :: "SwissProgress \<Rightarrow> bool" where
  "pairings_canonical p \<longleftrightarrow> (\<forall>q \<in> sw_prior_pairings p. ep_a q \<le> ep_b q)"

lemma have_met_iff: "pairings_canonical p \<Longrightarrow> have_met p a b \<longleftrightarrow> EntrantPairing_new a b \<in> sw_prior_pairings p"
proof -
  assume c: "pairings_canonical p"
  have "q = EntrantPairing_new a b" if "q \<in> sw_prior_pairings p" "{ep_a q, ep_b q} = {a, b}" for q
    using that c by (cases q) (auto simp: EntrantPairing_new_def doubleton_eq_iff pairings_canonical_def)
  moreover have "{ep_a (EntrantPairing_new a b), ep_b (EntrantPairing_new a b)} = {a, b}" by (auto simp: EntrantPairing_new_def)
  ultimately show ?thesis unfolding have_met_def by metis
qed

text \<open>A prior pairing with its entrants swapped is not recognised.\<close>

lemma swapped_pairing_is_repeated:
  "swiss_pairs [''a'', ''b''] {\<lparr>ep_a = ''b'', ep_b = ''a''\<rparr>} Avoid = Some [(''a'', ''b'')]"
  by (simp add: swiss_pairs_def remove_at_def EntrantPairing_new_def upt_rec)

lemma swiss_pairs_members:
  assumes "swiss_pairs active prior policy = Some pairs" "even (length active)"
  shows "mset (members pairs) = mset active"
    "(\<forall>(a, b) \<in> set pairs. EntrantPairing_new a b \<notin> prior)
       \<or> policy = AllowWhenRequired \<and> (\<nexists>ps. fresh_matching prior active ps)"
proof -
  have "mset (members pairs) = mset active \<and> ((\<forall>(a, b) \<in> set pairs. EntrantPairing_new a b \<notin> prior)
       \<or> policy = AllowWhenRequired \<and> (\<nexists>ps. fresh_matching prior active ps))"
  proof (cases "pair_without_rematches prior active")
    case None
    then show ?thesis
      using assms pair_without_rematches_complete[of prior active]
      by (auto simp: swiss_pairs_def chunks_exact_2_members split: if_splits)
  next
    case (Some ps)
    then show ?thesis
      using assms pair_without_rematches_sound[OF Some] by (auto simp: swiss_pairs_def fresh_matching_def)
  qed
  then show "mset (members pairs) = mset active"
    "(\<forall>(a, b) \<in> set pairs. EntrantPairing_new a b \<notin> prior)
       \<or> policy = AllowWhenRequired \<and> (\<nexists>ps. fresh_matching prior active ps)" by blast+
qed

section \<open>Swiss rounds never panic\<close>

lemma min_by_key_mem: "xs \<noteq> [] \<Longrightarrow> \<exists>x \<in> set xs. min_by_key f xs = Some x"
proof (induction xs)
  case (Cons x xs)
  then show ?case by (cases xs) (auto split: option.splits)
qed simp

lemma preferred_profile_Ok:
  assumes "ts_profiles (sb_spec b) \<noteq> []"
  shows "\<exists>p < length (ts_profiles (sb_spec b)). preferred_profile b x y = Ok p"
proof -
  let ?n = "length (ts_profiles (sb_spec b))"
  let ?start = "length (sb_series b) mod ?n"
  have n: "0 < ?n" using assms by simp
  let ?xs = "map (\<lambda>offset. (?start + offset) mod ?n) [0..<?n]"
  have ne: "?xs \<noteq> []" using n by simp
  have "\<forall>p \<in> set ?xs. p < ?n" using n by auto
  moreover obtain f :: "nat \<Rightarrow> nat \<times> nat \<times> nat" where "preferred_profile b x y = expect (min_by_key f ?xs)"
    by (rule that, unfold preferred_profile_def Let_def, rule refl)
  ultimately show ?thesis using min_by_key_mem[OF ne, of f] by auto
qed

lemma swiss_series_returns:
  assumes "ts_profiles (sb_spec b) \<noteq> []"
  shows "returns (add_series n False (b, bal) tab (x, y))"
proof -
  obtain p where p: "preferred_profile b x y = Ok p" "p < length (ts_profiles (sb_spec b))"
    using preferred_profile_Ok[OF assms] by blast
  have "returns (try_fold (add_game sid n tab base p) (b, bal, []) ks)" for sid base ks
    by (rule add_games_returns[OF p(2)])
  note r = this[of _ "preferred_orientation x y bal"]
  show ?thesis by (auto simp: add_series_def Let_def p(1) split: prod.splits intro!: returns_rbind r)
qed

lemma swiss_add_round_returns:
  assumes "ts_profiles (sb_spec b) \<noteq> []"
  shows "returns (add_round False (b, bal) n rnd)"
proof -
  let ?P = "\<lambda>(b :: ScheduleBuilder, _). ts_profiles (sb_spec b) \<noteq> []"
  have step: "returns (add_table n False acc entry)" if "?P acc" for acc entry
    using that swiss_series_returns by (cases acc; cases entry) (auto simp: add_table_def intro!: returns_rbind)
  have keep: "?P acc'" if "?P acc" "add_table n False acc entry = Ok acc'" for acc acc' entry
    using that by (cases acc; cases acc'; cases entry) (auto simp: add_table_def grows_def elim!: rbind_OkE dest!: add_series_Ok)
  have "returns (try_fold (add_table n False) (b', bal) es)" if "ts_profiles (sb_spec b') \<noteq> []" for b' es
    by (rule try_fold_returns[where P = ?P]) (use that step keep in auto)
  then show ?thesis using assms unfolding add_round_def Let_def by (auto split: option.splits)
qed

lemma swiss_seeds_known:
  assumes "validate_swiss_progress spec p rounds = Ok ()"
  shows "returns (ordered_swiss_entrants spec p)"
proof -
  let ?seeds = "map_of (rev (map (\<lambda>e. (te_entrant_id e, te_seed_number e)) (ts_entrants spec)))"
  have "set (map st_entrant_id (sw_standings p)) = set (map te_entrant_id (ts_entrants spec))"
    using assms by (auto simp: validate_swiss_progress_def Let_def split: if_splits)
  then have "\<forall>s \<in> set (sw_standings p). ?seeds (st_entrant_id s) \<noteq> None"
    unfolding map_of_eq_None_iff by (auto simp: image_comp comp_def)
  then show ?thesis unfolding ordered_swiss_entrants_def Let_def by (auto simp: list_ex_iff)
qed

lemma schedule_swiss_returns: "returns (schedule_swiss_round E json spec p)"
proof (cases "validate_spec spec = Ok ()")
  case False
  moreover have "returns (validate_spec spec)" by (simp add: validate_spec_def)
  ultimately show ?thesis by (cases "validate_spec spec") (auto simp: schedule_swiss_round_def)
next
  case True
  show ?thesis
  proof (cases "ts_format spec")
    case (Swiss rounds games policy)
    have new: "returns (ScheduleBuilder_new E json spec i k)" for i k
      using True by (auto simp: ScheduleBuilder_new_def Let_def format_identity_def intro!: returns_rbind)
    have profiles: "ts_profiles (sb_spec b) \<noteq> []" if "ScheduleBuilder_new E json spec i k = Ok b" for i k b
      using that validate_spec_Ok(3)[OF True] by (auto simp: ScheduleBuilder_new_def Let_def elim!: rbind_OkE)
    have "returns (validate_swiss_progress spec p rounds)" by (simp add: validate_swiss_progress_def Let_def)
    then show ?thesis
      using True swiss_seeds_known[of spec p rounds]
      by (auto simp: schedule_swiss_round_def Swiss Let_def builder_finish_def split: prod.splits
          intro!: returns_rbind new swiss_add_round_returns profiles)
  qed (use True in \<open>auto simp: schedule_swiss_round_def\<close>)
qed

section \<open>Lifecycles\<close>

lemma lifecycle_path:
  assumes "validate_stored E json t = Ok ()"
  shows "sto_lifecycle t \<noteq> []" "le_state (hd (sto_lifecycle t)) = LifeScheduled"
    "map le_sequence (sto_lifecycle t) = [0..<length (sto_lifecycle t)]"
    "\<And>n. Suc n < length (sto_lifecycle t) \<Longrightarrow>
       can_transition_to (le_state (sto_lifecycle t ! n)) (le_state (sto_lifecycle t ! Suc n))
       \<and> le_occurred_at (sto_lifecycle t ! n) \<le> le_occurred_at (sto_lifecycle t ! Suc n)"
proof -
  let ?l = "sto_lifecycle t"
  have f: "?l \<noteq> []" "le_state (?l ! 0) = LifeScheduled"
    and fold: "try_fold (\<lambda>_ n. ensure (lifecycle_event_ok ?l n) InvalidSpec) () [0..<length ?l] = Ok ()"
    using assms by (auto simp: validate_stored_def rbind_Ok_iff split: if_splits)
  have "\<forall>n \<in> set ns. lifecycle_event_ok ?l n" if "try_fold (\<lambda>_ n. ensure (lifecycle_event_ok ?l n) InvalidSpec) () ns = Ok ()" for ns
    using that by (induction ns) (auto elim!: rbind_OkE)
  note ok = this[OF fold, simplified]
  show "?l \<noteq> []" "le_state (hd ?l) = LifeScheduled" using f by (simp_all add: hd_conv_nth)
  show "map le_sequence ?l = [0..<length ?l]"
    by (rule nth_equalityI) (use ok in \<open>auto simp: lifecycle_event_ok_def Let_def\<close>)
  fix n assume "Suc n < length ?l"
  then show "can_transition_to (le_state (?l ! n)) (le_state (?l ! Suc n)) \<and> le_occurred_at (?l ! n) \<le> le_occurred_at (?l ! Suc n)"
    using ok[rule_format, of "Suc n"] by (auto simp: lifecycle_event_ok_def Let_def)
qed

definition terminal :: "TournamentLifecycleState \<Rightarrow> bool" where
  "terminal s \<longleftrightarrow> s = LifeFinished \<or> s = LifeCancelled"

lemma terminal_iff: "terminal s \<longleftrightarrow> (\<forall>s'. \<not> can_transition_to s s')"
  by (cases s) (auto simp: terminal_def split: if_splits intro: exI[of _ LifeScheduled] exI[of _ LifeRunning] exI[of _ LifePaused])

end
