(* ===== verification/TournamentLive.thy ===== *)
theory TournamentLive
  imports TournamentProps
begin

text \<open>
  Liveness of static schedules, a small cup to apply the theorems to, and the theorems about
  tournaments.
\<close>

section \<open>Exactly seeded specifications are scheduled\<close>

text \<open>A builder with \<open>n\<close> games still to be seeded.\<close>

definition room :: "TournamentSpec \<Rightarrow> ScheduleBuilder \<Rightarrow> nat \<Rightarrow> bool" where
  "room spec b n \<longleftrightarrow> builder_ok spec b \<and> sb_seed_index b + n = length (ts_game_seed_commitments spec)
     \<and> sb_next_sequence b = sb_seed_index b \<and> length (ts_game_seed_commitments spec) < 2 ^ 64"

lemma room_grows:
  assumes "grows b b' ms" "room spec b (length ms + n)"
  shows "room spec b' n"
  using assms grows_builder_ok[OF assms(1)] by (auto simp: room_def grows_def)

lemma try_fold_progress:
  assumes "\<And>acc x xs'. Q acc (x # xs') \<Longrightarrow> \<exists>acc'. f acc x = Ok acc' \<and> Q acc' xs'" "Q acc xs"
  shows "\<exists>acc'. try_fold f acc xs = Ok acc' \<and> Q acc' []"
  using assms(2)
proof (induction xs arbitrary: acc)
  case (Cons x xs)
  then show ?case using assms(1)[OF Cons.prems] by fastforce
qed simp

lemma add_game_progress:
  assumes "room spec b (Suc n)" "Suc k < 2 ^ 16" "p < length (ts_profiles spec)"
  shows "\<exists>b' bal' ids'. add_game sid rnd tab base p (b, bal, ids) k = Ok (b', bal', ids') \<and> room spec b' n"
proof -
  have sp: "sb_spec b = spec" using assms(1) by (simp add: room_def builder_ok_def)
  have "\<exists>r. add_game sid rnd tab base p (b, bal, ids) k = Ok r"
    using assms by (auto simp: add_game_def Let_def sp room_def checked_add_def index_at_def split: prod.splits)
  then obtain b' bal' ids' where r: "add_game sid rnd tab base p (b, bal, ids) k = Ok (b', bal', ids')" by auto
  from add_game_Ok[OF r] obtain m where "grows b b' [m]" by blast
  then show ?thesis using r room_grows[of b b' "[m]" spec n] assms(1) by auto
qed

lemma add_games_progress:
  assumes "room spec b (games + n)" "games < 2 ^ 16" "p < length (ts_profiles spec)"
  shows "\<exists>b' bal' ids'. try_fold (add_game sid rnd tab base p) (b, bal, ids) [0..<games] = Ok (b', bal', ids') \<and> room spec b' n"
proof -
  let ?Q = "\<lambda>(b, _ :: balance, _ :: string list) ks. \<exists>j. ks = [j..<games] \<and> room spec b (length ks + n)"
  have "\<exists>acc'. try_fold (add_game sid rnd tab base p) (b, bal, ids) [0..<games] = Ok acc' \<and> ?Q acc' []"
  proof (rule try_fold_progress)
    fix acc k ks assume "?Q acc (k # ks)"
    then obtain b bal ids j where acc: "acc = (b, bal, ids)" "k # ks = [j..<games]" "room spec b (Suc (length ks + n))"
      by (cases acc) auto
    have "j < games" using acc(2) by (metis list.distinct(1) upt_eq_Nil_conv linorder_not_le)
    then have "j < games" "k = j" "ks = [Suc j..<games]" using acc(2) by (simp_all add: upt_conv_Cons)
    then show "\<exists>acc'. add_game sid rnd tab base p acc k = Ok acc' \<and> ?Q acc' ks"
      using add_game_progress[OF acc(3) _ assms(3), of k sid rnd tab base bal ids] assms(2) acc(1) by fastforce
  qed (use assms(1) in auto)
  then show ?thesis by auto
qed

lemma add_series_progress:
  assumes v: "validate_spec spec = Ok ()" and b: "room spec b (games_per_series (ts_format spec) + n)" and num: "1 \<le> num"
    and g: "games_per_series (ts_format spec) < 2 ^ 16"
    and xy: "x \<in> set (ordered_entrant_ids spec)" "y \<in> set (ordered_entrant_ids spec)" "x \<noteq> y"
  shows "\<exists>b' bal'. add_series num True (b, bal) tab (x, y) = Ok (b', bal') \<and> room spec b' n"
proof -
  have bo: "builder_ok spec b" "sb_spec b = spec" using b by (auto simp: room_def builder_ok_def)
  obtain p where p: "static_profile b x y num = Ok p" "p < length (ts_profiles spec)"
    using static_profile_Ok[OF v bo(1) num xy] by blast
  obtain b' bal' ids' where f: "try_fold (add_game (series_id_of spec num tab) num tab (x, y) p) (b, bal, [])
      [0..<games_per_series (ts_format spec)] = Ok (b', bal', ids')"
    using add_games_progress[OF b g p(2)] by blast
  obtain c where c: "add_series num True (b, bal) tab (x, y) = Ok (c, bal')"
    by (simp add: add_series_def Let_def p(1) f bo(2))
  from add_series_Ok[OF c] obtain s ms where "grows b c ms" "series_games True (games_per_series (ts_format spec)) s ms"
    using bo(2) by blast
  then have "room spec c n" using room_grows[of b c ms spec n] b by (simp add: series_games_def)
  then show ?thesis using c by blast
qed

lemma add_round_progress:
  assumes v: "validate_spec spec = Ok ()" and num: "1 \<le> num" and g: "games_per_series (ts_format spec) < 2 ^ 16"
    and b: "room spec b (games_per_series (ts_format spec) * length (rp_pairs rnd) + n)"
    and ps: "pairs_ok (ordered_entrant_ids spec) (rp_pairs rnd)" and len: "length (rp_pairs rnd) < 2 ^ 16"
  shows "\<exists>b' bal'. add_round True (b, bal) num rnd = Ok (b', bal') \<and> room spec b' n"
proof -
  let ?games = "games_per_series (ts_format spec)" and ?ps = "rp_pairs rnd"
  let ?Q = "\<lambda>(b, _ :: balance) es. \<exists>i. es = drop i (List.enumerate 0 ?ps) \<and> room spec b (?games * length es + n)"
  let ?b = "case rp_bye rnd of None \<Rightarrow> b | Some e \<Rightarrow> b\<lparr>sb_byes := sb_byes b @ [\<lparr>tb_round_number = num, tb_entrant_id = e\<rparr>]\<rparr>"
  have "\<exists>acc'. try_fold (add_table num True) (?b, bal) (List.enumerate 0 ?ps) = Ok acc' \<and> ?Q acc' []"
  proof (rule try_fold_progress)
    fix acc e es assume "?Q acc (e # es)"
    then obtain b bal i where acc: "acc = (b, bal)" "e # es = drop i (List.enumerate 0 ?ps)"
      "room spec b (?games + (?games * length es + n))" by (cases acc) (auto simp: add.assoc)
    have i: "i < length ?ps" using acc(2) by (metis drop_all length_enumerate list.distinct(1) linorder_not_le)
    then have e: "e = (i, ?ps ! i)" "es = drop (Suc i) (List.enumerate 0 ?ps)"
      using acc(2) Cons_nth_drop_Suc[of i "List.enumerate 0 ?ps", symmetric] by (simp_all add: nth_enumerate_eq)
    obtain x y where xy: "?ps ! i = (x, y)" by force
    then have "x \<in> set (ordered_entrant_ids spec)" "y \<in> set (ordered_entrant_ids spec)" "x \<noteq> y"
      using ps i nth_mem[OF i] by (auto simp: pairs_ok_def)
    then obtain b' bal' where "add_series num True (b, bal) (i + 1) (x, y) = Ok (b', bal')" "room spec b' (?games * length es + n)"
      using add_series_progress[OF v acc(3) num g] by blast
    then show "\<exists>acc'. add_table num True acc e = Ok acc' \<and> ?Q acc' es"
      using i len e(2) by (auto simp: add_table_def acc(1) e(1) xy try_from_def)
  qed (use b in \<open>auto intro!: exI[of _ 0] simp: room_def builder_ok_def split: option.splits\<close>)
  then show ?thesis by (auto simp: add_round_def Let_def)
qed


lemma static_round_progress:
  assumes v: "validate_spec spec = Ok ()" and g: "games_per_series (ts_format spec) < 2 ^ 16"
    and b: "room spec b (games_per_series (ts_format spec) * length (rp_pairs rnd) + n)"
    and ps: "pairs_ok (ordered_entrant_ids spec) (rp_pairs rnd)" and len: "length (rp_pairs rnd) < 2 ^ 16"
    and num: "k < 2 ^ 16" "c * k + i + 1 < 2 ^ 16"
  defines "es \<equiv> ordered_entrant_ids spec"
  shows "\<exists>b' bal'. static_round (rank_map es) (length es) k c (b, bal) (i, rnd) = Ok (b', bal') \<and> room spec b' n"
proof -
  have d: "distinct es" using spec_entrants(2)[OF v] by (simp add: es_def)
  have tr: "\<exists>qs. traverse (orient_pair (rank_map es) (length es) c) xs = Ok qs"
    if "pairs_ok es xs" for xs
    using that
  proof (induction xs)
    case (Cons q xs)
    obtain x y where q: "q = (x, y)" "x \<in> set es" "y \<in> set es" using Cons.prems by (auto simp: pairs_ok_def)
    have "\<exists>z. orient_pair (rank_map es) (length es) c q = Ok z"
      using rank_map_mem[OF d q(2)] rank_map_mem[OF d q(3)] by (auto simp: orient_pair_def q(1) Let_def)
    then show ?case using Cons by (auto simp: pairs_ok_def)
  qed simp
  obtain qs where "traverse (orient_pair (rank_map es) (length es) c) (rp_pairs rnd) = Ok qs"
    using tr[of "rp_pairs rnd"] ps by (auto simp: es_def)
  then obtain o1 where o1: "orient_static_round rnd (rank_map es) (length es) c = Ok o1"
    by (simp add: orient_static_round_def)
  have po: "pairs_ok es (rp_pairs o1)"
    using orient_static_round_returns(2)[OF d _ o1] ps by (simp add: es_def)
  have lo: "length (rp_pairs o1) = length (rp_pairs rnd)" using orient_static_round_Ok(1)[OF o1] by simp
  obtain b' bal' where "add_round True (b, bal) (c * k + i + 1) o1 = Ok (b', bal')" "room spec b' n"
    using add_round_progress[OF v _ g, of "c * k + i + 1" b o1 n bal] b po len unfolding lo es_def by auto
  then show ?thesis using num o1 by (simp add: static_round_def try_from_def checked_mul_def checked_add_def)
qed

lemma static_rounds_progress:
  assumes v: "validate_spec spec = Ok ()" and g: "games_per_series (ts_format spec) < 2 ^ 16"
    and b: "room spec b (games_per_series (ts_format spec) * (\<Sum>r \<leftarrow> rounds. length (rp_pairs r)) + n)"
    and ps: "\<And>r. r \<in> set rounds \<Longrightarrow> pairs_ok (ordered_entrant_ids spec) (rp_pairs r) \<and> length (rp_pairs r) < 2 ^ 16"
    and num: "k < 2 ^ 16" "c * k + i + length rounds < 2 ^ 16"
  defines "es \<equiv> ordered_entrant_ids spec"
  shows "\<exists>b' bal'. try_fold (static_round (rank_map es) (length es) k c) (b, bal) (List.enumerate i rounds) = Ok (b', bal')
    \<and> room spec b' n"
  using b ps num(2)
proof (induction rounds arbitrary: i b bal)
  case (Cons r rounds)
  obtain b1 bal1 where "static_round (rank_map es) (length es) k c (b, bal) (i, r) = Ok (b1, bal1)"
    "room spec b1 (games_per_series (ts_format spec) * (\<Sum>r \<leftarrow> rounds. length (rp_pairs r)) + n)"
    using static_round_progress[OF v g, of b r "games_per_series (ts_format spec) * (\<Sum>r \<leftarrow> rounds. length (rp_pairs r)) + n" k c i bal]
      Cons.prems num(1) by (auto simp: es_def algebra_simps)
  then show ?case using Cons.IH[of b1 "Suc i" bal1] Cons.prems by auto
qed simp

lemma static_cycles_progress:
  assumes v: "validate_spec spec = Ok ()" and g: "games_per_series (ts_format spec) < 2 ^ 16"
    and b: "room spec b (games_per_series (ts_format spec) * ((j - i) * (\<Sum>r \<leftarrow> rounds. length (rp_pairs r))))"
    and ps: "\<And>r. r \<in> set rounds \<Longrightarrow> pairs_ok (ordered_entrant_ids spec) (rp_pairs r) \<and> length (rp_pairs r) < 2 ^ 16"
    and num: "i \<le> j" "length rounds < 2 ^ 16" "j * length rounds < 2 ^ 16"
  defines "es \<equiv> ordered_entrant_ids spec"
  shows "\<exists>b' bal'. try_fold (\<lambda>acc c. try_fold (static_round (rank_map es) (length es) (length rounds) c) acc
      (List.enumerate 0 rounds)) (b, bal) [i..<j] = Ok (b', bal') \<and> room spec b' 0"
  using b num(1)
proof (induction "j - i" arbitrary: i b bal)
  case (Suc d)
  let ?games = "games_per_series (ts_format spec)" and ?total = "\<Sum>r \<leftarrow> rounds. length (rp_pairs r)"
  have ij: "[i..<j] = i # [Suc i..<j]" "Suc i \<le> j" "d = j - Suc i" "j - i = Suc (j - Suc i)"
    using Suc.hyps(2) by (auto simp: upt_conv_Cons)
  have "Suc i * length rounds \<le> j * length rounds" using ij(2) by (rule mult_le_mono1)
  then have "i * length rounds + 0 + length rounds < 2 ^ 16" using num(3) by simp
  then obtain b1 bal1 where "try_fold (static_round (rank_map es) (length es) (length rounds) i) (b, bal)
      (List.enumerate 0 rounds) = Ok (b1, bal1)" "room spec b1 (?games * ((j - Suc i) * ?total))"
    using static_rounds_progress[OF v g, of b rounds "?games * ((j - Suc i) * ?total)" "length rounds" i 0 bal]
      Suc.prems(1) ps num(2) unfolding ij(4) es_def by (auto simp: algebra_simps)
  then show ?case using Suc.hyps(1)[OF ij(3) _ ij(2), of b1 bal1] unfolding ij(1) by auto
qed (use b in auto)

lemma circle_games:
  assumes "2 \<le> length es" "distinct es" "circle_rounds es = (Ok rounds :: (TournamentError, _) outcome)"
  shows "(\<Sum>r \<leftarrow> rounds. length (rp_pairs r)) = length es choose 2"
    and "length rounds = (if even (length es) then length es - 1 else length es)"
    and "r \<in> set rounds \<Longrightarrow> 2 * length (rp_pairs r) \<le> length es"
proof -
  have "(\<Sum>r \<leftarrow> rounds. length (rp_pairs r)) = size (mset (map (\<lambda>(a, b). {a, b}) (concat (map rp_pairs rounds))))"
    by (simp add: length_concat comp_def)
  also have "\<dots> = card {P. P \<subseteq> set es \<and> card P = 2}" unfolding circle_pairs_once[OF assms] by simp
  also have "\<dots> = length es choose 2" using n_subsets[of "set es" 2] distinct_card[OF assms(2)] by simp
  finally show "(\<Sum>r \<leftarrow> rounds. length (rp_pairs r)) = length es choose 2" .
  have rs: "rounds = map (\<lambda>k. round_of (rotated k (circle_slots es))) [0..<length (circle_slots es) - 1]"
    using assms(3) by (simp add: circle_rounds_Ok[OF assms(1,2)])
  then show "length rounds = (if even (length es) then length es - 1 else length es)"
    by (simp add: circle_slots_def even_iff_mod_2_eq_zero)
  assume "r \<in> set rounds"
  then obtain k where r: "r = round_of (rotated k (circle_slots es))" using rs by auto
  have "length (members ps) = 2 * length ps" for ps by (induction ps) (auto simp: members_def)
  moreover have "size (mset (members (rp_pairs r))) \<le> size (mset es)"
    using round_entrants(1)[OF assms(1,2), of k] unfolding r by (metis mset_subset_eq_add_left size_mset_mono)
  ultimately show "2 * length (rp_pairs r) \<le> length es" by simp
qed

lemma schedule_progress:
  assumes v: "validate_spec spec = Ok ()" and cy: "static_cycles (ts_format spec) = Some cycles"
    and js: "json (ts_format spec) (ts_profiles spec) \<noteq> None"
    and g: "games_per_series (ts_format spec) < 2 ^ 16" "cycles * length (ts_entrants spec) < 2 ^ 16"
    and seeds: "length (ts_game_seed_commitments spec) = games_per_series (ts_format spec) * (cycles * (length (ts_entrants spec) choose 2))"
      "length (ts_game_seed_commitments spec) < 2 ^ 64"
  shows "\<exists>sch. schedule E json spec = Ok sch"
proof -
  let ?es = "ordered_entrant_ids spec"
  note es = spec_entrants[OF v]
  have n: "length ?es = length (ts_entrants spec)" by (simp add: ordered_entrant_ids_facts)
  obtain rounds where rs: "circle_rounds ?es = (Ok rounds :: (TournamentError, _) outcome)"
    by (simp add: circle_rounds_Ok[OF es(1,2)])
  note cg = circle_games[OF es(1,2) rs]
  have "cycles \<noteq> 0" using validate_spec_Ok(4)[OF v] cy by (cases "ts_format spec") auto
  then have small: "length (ts_entrants spec) < 2 ^ 16" using g(2) by (cases cycles) auto
  have k: "length rounds \<le> length ?es" using cg(2) by simp
  then have nums: "length rounds < 2 ^ 16" "cycles * length rounds < 2 ^ 16"
    using small g(2) k mult_le_mono2[OF k, of cycles] unfolding n by linarith+
  obtain bytes where bytes: "json (ts_format spec) (ts_profiles spec) = Some bytes" using js by auto
  have "\<exists>b0. ScheduleBuilder_new E json spec 0 0 = Ok b0"
    using small n v bytes by (auto simp: ScheduleBuilder_new_def Let_def format_identity_def try_from_def)
  then obtain b0 where b0: "ScheduleBuilder_new E json spec 0 0 = Ok b0" ..
  have "room spec b0 (games_per_series (ts_format spec) * ((cycles - 0) * (\<Sum>r \<leftarrow> rounds. length (rp_pairs r))))"
    using ScheduleBuilder_new_ok[OF v b0] b0 seeds cg(1) n
    by (auto simp: room_def ScheduleBuilder_new_def Let_def elim!: rbind_OkE)
  moreover have "pairs_ok ?es (rp_pairs r) \<and> length (rp_pairs r) < 2 ^ 16" if "r \<in> set rounds" for r
    using circle_rounds_pairs_ok[OF es(1,2) rs that] cg(3)[OF that] small n by simp
  ultimately obtain b bal where f: "try_fold (\<lambda>acc c. try_fold (static_round (rank_map ?es) (length ?es) (length rounds) c) acc
      (List.enumerate 0 rounds)) (b0, Map.empty) [0..<cycles] = Ok (b, bal)" and b: "room spec b 0"
    using static_cycles_progress[OF v g(1) _ _ _ nums, of b0 0 Map.empty] by blast
  have "\<exists>sch. builder_finish b True = Ok sch" using b by (auto simp: builder_finish_def room_def builder_ok_def)
  then show ?thesis using v cy rs b0 f by (auto simp: schedule_def Let_def)
qed

section \<open>A small cup\<close>

definition cup_sha :: string where
  "cup_sha = replicate 64 (CHR ''0'')"

definition cup_env :: env where
  "cup_env = \<lparr>env_sha256 = (\<lambda>_. replicate 32 0),
     env_to_uppercase = (\<lambda>c. [c]), env_nfd = (\<lambda>c. [c]), env_is_combining_mark = (\<lambda>_. False), env_semver = (\<lambda>_. True)\<rparr>"

definition cup_profile :: TournamentGameProfile where
  "cup_profile = \<lparr>tp_language = ''english'', tp_ruleset_id = ''english-v1'', tp_ruleset_sha256 = cup_sha,
     tp_lexicon = \<lparr>pi_pack_id = ''demo'', pi_pack_version = ''1.0.0'', pi_format_version = 1, pi_locale = ''en'', pi_normalization = \<lparr>nd_algorithm = ''n'', nd_version = 1, nd_profile = ''p''\<rparr>, pi_content_sha256 = cup_sha\<rparr>\<rparr>"

definition cup_entrant :: "nat \<Rightarrow> string \<Rightarrow> TournamentEntrant" where
  "cup_entrant n e = \<lparr>te_entrant_id = e, te_seed_number = n, te_manifest_sha256 = None\<rparr>"

definition cup :: TournamentSpec where
  "cup = \<lparr>ts_schema_version = 1, ts_tournament_id = ''cup'', ts_format = RoundRobin 1,
     ts_entrants = [cup_entrant 1 ''a'', cup_entrant 2 ''b'', cup_entrant 3 ''c''], ts_profiles = [cup_profile],
     ts_game_seed_commitments = [cup_sha, cup_sha, cup_sha]\<rparr>"

definition cup_json :: format_json where
  "cup_json = (\<lambda>_ _. Some [])"

lemma cup_valid: "validate_spec cup = Ok ()"
  by code_simp

lemma cup_scheduled: "\<exists>sch. schedule cup_env cup_json cup = Ok sch"
  by (rule schedule_progress[OF cup_valid]) (simp_all add: cup_def cup_json_def choose_two, simp_all)

text \<open>Three entrants after a first round in which the third had the bye: the second has the next one.\<close>

definition trio :: TournamentSpec where
  "trio = \<lparr>ts_schema_version = 1, ts_tournament_id = ''trio'', ts_format = Swiss 2 1 Avoid,
     ts_entrants = [cup_entrant 1 ''a'', cup_entrant 2 ''b'', cup_entrant 3 ''c''], ts_profiles = [cup_profile],
     ts_game_seed_commitments = [cup_sha, cup_sha]\<rparr>"

definition trio_progress :: SwissProgress where
  "trio_progress = \<lparr>sw_completed_rounds = 1, sw_standings = [
      \<lparr>st_entrant_id = ''a'', st_match_points = 0, st_spread = 0, st_wins = 0\<rparr>,
      \<lparr>st_entrant_id = ''b'', st_match_points = 0, st_spread = 0, st_wins = 0\<rparr>,
      \<lparr>st_entrant_id = ''c'', st_match_points = 0, st_spread = 0, st_wins = 0\<rparr>],
    sw_prior_pairings = {\<lparr>ep_a = ''a'', ep_b = ''b''\<rparr>}, sw_prior_byes = {''c''}, sw_seat_balance = [],
    sw_next_seed_index = 1, sw_next_match_sequence = 1\<rparr>"

lemma trio_valid: "validate_spec trio = Ok ()"
  by code_simp

lemma trio_prog: "validate_swiss_progress trio trio_progress 2 = Ok ()"
  by code_simp

lemma trio_order: "ordered_swiss_entrants trio trio_progress = Ok [''a'', ''b'', ''c'']"
  by code_simp

lemma trio_pairs: "choose_swiss_bye [''a'', ''b'', ''c''] {''c''} = (Some ''b'', [''a'', ''c''])"
  "swiss_pairs [''a'', ''c''] {\<lparr>ep_a = ''a'', ep_b = ''b''\<rparr>} Avoid = Some [(''a'', ''c'')]"
  by (simp_all add: choose_swiss_bye_def rposition_def swiss_pairs_def remove_at_def EntrantPairing_new_def upt_rec)

lemma trio_scheduled: "\<exists>sch. schedule_swiss_round cup_env cup_json trio trio_progress = Ok sch"
proof -
  have n: "sw_completed_rounds trio_progress = 1" "sw_prior_byes trio_progress = {''c''}"
    "sw_prior_pairings trio_progress = {\<lparr>ep_a = ''a'', ep_b = ''b''\<rparr>}"
    "sw_next_seed_index trio_progress = 1" "sw_next_match_sequence trio_progress = 1" "ts_format trio = Swiss 2 1 Avoid"
    "ts_profiles trio = [cup_profile]" "ts_game_seed_commitments trio = [cup_sha, cup_sha]" "length (ordered_entrant_ids trio) = 3"
    by (simp_all add: trio_progress_def trio_def ordered_entrant_ids_def)
  show ?thesis
    by (simp add: schedule_swiss_round_def trio_valid trio_prog trio_order trio_pairs n checked_add_def
        ScheduleBuilder_new_def format_identity_def cup_json_def try_from_def add_round_def add_table_def add_series_def Let_def
        preferred_profile_def add_game_def index_at_def builder_finish_def split: prod.splits)
qed

section \<open>Theorems\<close>

text \<open>
  Claim C15. A static schedule covers every pair of entrants exactly once per cycle; with an odd
  number of entrants everyone sits out exactly once per cycle, otherwise nobody does. Matches are
  numbered without a gap and consume the seed commitments in order, all of them. The matches are
  the games of the series in order: the format's number of games between its two entrants, who
  swap seats from one game to the next.
\<close>
theorem static_schedule_exact:
  assumes "schedule E json spec = Ok sch" and "static_cycles (ts_format spec) = Some cycles"
  shows "mset (map (\<lambda>s. {ss_entrant_a s, ss_entrant_b s}) (sch_series sch)) =
      repeat_mset cycles (mset_set {P. P \<subseteq> te_entrant_id ` set (ts_entrants spec) \<and> card P = 2})
    \<and> mset (map tb_entrant_id (sch_byes sch)) = (if even (length (ts_entrants spec)) then {#}
        else repeat_mset cycles (mset (map te_entrant_id (ts_entrants spec))))
    \<and> map sm_sequence (sch_matches sch) = [0..<length (sch_matches sch)]
    \<and> map sm_seed_commitment (sch_matches sch) = ts_game_seed_commitments spec
    \<and> (\<exists>added. map fst added = sch_series sch \<and> concat (map snd added) = sch_matches sch
        \<and> (\<forall>(s, ms) \<in> set added. series_games True (games_per_series (ts_format spec)) s ms))"
proof -
  have "map (\<lambda>s. {ss_entrant_a s, ss_entrant_b s}) = map (pair_set \<circ> series_pair)" by (simp add: comp_def series_pair_def)
  then show ?thesis
    using schedule_pairs[OF assms] schedule_byes[OF assms] schedule_Ok[OF assms] by auto
qed

theorem static_schedule_exact_witness:
  "\<exists>sch. schedule cup_env cup_json cup = Ok sch
     \<and> mset (map (\<lambda>s. {ss_entrant_a s, ss_entrant_b s}) (sch_series sch)) =
         mset_set {P. P \<subseteq> {''a'', ''b'', ''c''} \<and> card P = 2}"
proof -
  obtain sch where s: "schedule cup_env cup_json cup = Ok sch" using cup_scheduled by blast
  then show ?thesis using static_schedule_exact[OF s, of 1] by (simp add: cup_def cup_entrant_def)
qed

text \<open>
  Claim C17. A valid static specification with exactly one seed commitment per game, whose format
  serialises and whose round count stays below 65536, is scheduled.
\<close>
theorem static_schedule_succeeds:
  assumes "validate_spec spec = Ok ()" and "static_cycles (ts_format spec) = Some cycles"
    and "json (ts_format spec) (ts_profiles spec) \<noteq> None"
    and "games_per_series (ts_format spec) < 2 ^ 16" and "cycles * length (ts_entrants spec) < 2 ^ 16"
    and "length (ts_game_seed_commitments spec) =
      games_per_series (ts_format spec) * (cycles * (length (ts_entrants spec) choose 2))"
    and "length (ts_game_seed_commitments spec) < 2 ^ 64"
  shows "\<exists>sch. schedule E json spec = Ok sch"
  using assms by (rule schedule_progress)

theorem static_schedule_succeeds_witness: "\<exists>sch. schedule cup_env cup_json cup = Ok sch"
  by (rule static_schedule_succeeds[OF cup_valid]) (simp_all add: cup_def cup_json_def choose_two, simp_all)

text \<open>
  No entrant is assigned twice in one round of a static schedule.
\<close>
theorem static_rounds_disjoint:
  assumes "schedule E json spec = Ok sch" and "static_cycles (ts_format spec) = Some cycles"
  shows "distinct (concat (map (\<lambda>s. [(ss_round_number s, ss_entrant_a s), (ss_round_number s, ss_entrant_b s)]) (sch_series sch)))"
proof -
  obtain rounds where "validate_spec spec = Ok ()" "circle_rounds (ordered_entrant_ids spec) = (Ok rounds :: (TournamentError, _) outcome)"
    "map slot_of (sch_series sch) = concat (map (cycle_table (rank_map (ordered_entrant_ids spec))
       (length (ordered_entrant_ids spec)) rounds) [0..<cycles])"
    using schedule_Ok(1)[OF assms] by blast
  then have "distinct (concat (map seats_of (map slot_of (sch_series sch))))"
    using cycle_tables_distinct spec_entrants(1,2) by metis
  then show ?thesis by (simp add: comp_def seats_of_def slot_of_def series_pair_def)
qed

theorem static_rounds_disjoint_witness:
  "\<exists>sch. schedule cup_env cup_json cup = Ok sch
     \<and> distinct (concat (map (\<lambda>s. [(ss_round_number s, ss_entrant_a s), (ss_round_number s, ss_entrant_b s)]) (sch_series sch)))"
proof -
  obtain sch where s: "schedule cup_env cup_json cup = Ok sch" using cup_scheduled by blast
  have c: "static_cycles (ts_format cup) = Some 1" by (simp add: cup_def)
  show ?thesis using static_rounds_disjoint[OF s c] s by blast
qed

text \<open>
  Claim C16. Over any number of cycles every entrant of a static schedule plays the first seat as
  often as the second, up to one game.
\<close>
theorem static_seats_balanced:
  assumes "schedule E json spec = Ok sch" and "static_cycles (ts_format spec) = Some cycles"
    and "e \<in> te_entrant_id ` set (ts_entrants spec)"
  shows "\<bar>int (length (filter (\<lambda>m. sm_seat_one m = e) (sch_matches sch)))
    - int (length (filter (\<lambda>m. sm_seat_two m = e) (sch_matches sch)))\<bar> \<le> 1"
  using assms by (rule schedule_balance)

theorem static_seats_balanced_witness:
  "\<exists>sch. schedule cup_env cup_json cup = Ok sch
     \<and> \<bar>int (length (filter (\<lambda>m. sm_seat_one m = ''b'') (sch_matches sch)))
         - int (length (filter (\<lambda>m. sm_seat_two m = ''b'') (sch_matches sch)))\<bar> \<le> 1"
proof -
  obtain sch where s: "schedule cup_env cup_json cup = Ok sch" using cup_scheduled by blast
  have c: "static_cycles (ts_format cup) = Some 1" "''b'' \<in> te_entrant_id ` set (ts_entrants cup)"
    by (simp_all add: cup_def cup_entrant_def)
  show ?thesis using static_seats_balanced[OF s c] s by blast
qed

text \<open>
  Claim C18. Neither scheduler panics or loops, whatever the specification and the progress: no
  index, subtraction, \<^verbatim>\<open>expect\<close> or division of theirs fails.
\<close>
theorem scheduling_never_panics:
  "schedule E json spec \<notin> {Panic, Diverge} \<and> schedule_swiss_round E json spec progress \<notin> {Panic, Diverge}"
  using schedule_returns[of E json spec] schedule_swiss_returns[of E json spec progress] by (auto simp: returns_def)

text \<open>
  Claim C19. The Swiss search decides: it returns a pairing of all entrants without a rematch when
  there is one, and nothing only when there is none.
\<close>
theorem swiss_search_decides:
  "case pair_without_rematches prior ordered of
     Some pairs \<Rightarrow> mset (members pairs) = mset ordered \<and> (\<forall>(a, b) \<in> set pairs. EntrantPairing_new a b \<notin> prior)
   | None \<Rightarrow> (\<nexists>pairs. mset (members pairs) = mset ordered \<and> (\<forall>(a, b) \<in> set pairs. EntrantPairing_new a b \<notin> prior))"
proof (cases "pair_without_rematches prior ordered")
  case None
  then show ?thesis
    using pair_without_rematches_complete[of prior ordered] unfolding None option.case fresh_matching_def by blast
next
  case (Some pairs)
  then show ?thesis using pair_without_rematches_sound[OF Some] by (simp add: fresh_matching_def)
qed

theorem swiss_search_decides_witness:
  "mset (members [(''a'', ''b'')]) = mset [''a'', ''b''] \<and> pair_without_rematches {} [''a'', ''b''] = Some [(''a'', ''b'')]"
proof -
  have p: "pair_without_rematches {} [''a'', ''b''] = Some [(''a'', ''b'')]" by (simp add: remove_at_def upt_rec)
  then show ?thesis using swiss_search_decides[where prior = "{}" and ordered = "[''a'', ''b'']"] by simp
qed

text \<open>
  Claim C20. A Swiss round gives every entrant one opponent or the bye, and there is a bye exactly when the
  number of entrants is odd. The bye goes to the last entrant in the Swiss order (match points, spread,
  wins, seed number, identifier) who had none, and to the very last when everyone had one. When the
  prior pairings are canonical, as their constructor makes them, the round repeats a pairing only
  under the permissive policy and only when the paired entrants have no pairing without a rematch.
  Matches and seeds continue from the recorded positions.
\<close>
theorem swiss_round_exact:
  assumes "schedule_swiss_round E json spec p = Ok sch"
  shows "\<exists>rounds games policy bye. ts_format spec = Swiss rounds games policy \<and> sw_completed_rounds p < rounds
    \<and> mset (concat (map (\<lambda>s. [ss_entrant_a s, ss_entrant_b s]) (sch_series sch)) @ bye) = mset (map te_entrant_id (ts_entrants spec))
    \<and> map tb_entrant_id (sch_byes sch) = bye \<and> length bye = length (ts_entrants spec) mod 2
    \<and> (\<forall>e \<in> set bye. e \<in> sw_prior_byes p \<longrightarrow> te_entrant_id ` set (ts_entrants spec) \<subseteq> sw_prior_byes p)
    \<and> (\<forall>e \<in> set bye. \<exists>t \<in> set (sw_standings p). st_entrant_id t = e \<and> (\<forall>s \<in> set (sw_standings p).
        (st_entrant_id s \<notin> sw_prior_byes p \<or> te_entrant_id ` set (ts_entrants spec) \<subseteq> sw_prior_byes p)
          \<longrightarrow> swiss_rank spec s \<le> swiss_rank spec t))
    \<and> (pairings_canonical p \<longrightarrow> (\<forall>s \<in> set (sch_series sch). \<not> have_met p (ss_entrant_a s) (ss_entrant_b s))
        \<or> policy = AllowWhenRequired \<and> (\<nexists>ps. mset (members ps @ bye) = mset (map te_entrant_id (ts_entrants spec))
            \<and> (\<forall>(a, b) \<in> set ps. \<not> have_met p a b)))
    \<and> map sm_sequence (sch_matches sch) = [sw_next_match_sequence p..<sw_next_match_sequence p + length (sch_matches sch)]
    \<and> map sm_seed_commitment (sch_matches sch) =
        take (length (sch_matches sch)) (drop (sw_next_seed_index p) (ts_game_seed_commitments spec))
    \<and> (\<exists>added. map fst added = sch_series sch \<and> concat (map snd added) = sch_matches sch
        \<and> (\<forall>(s, ms) \<in> set added. series_games False games s ms))"
proof -
  obtain rounds games policy ordered bye active pairs added where
    r: "validate_spec spec = Ok ()" "ts_format spec = Swiss rounds games policy"
    "validate_swiss_progress spec p rounds = Ok ()" "ordered_swiss_entrants spec p = Ok ordered"
    "choose_swiss_bye ordered (sw_prior_byes p) = (bye, active)"
    "swiss_pairs active (sw_prior_pairings p) policy = Some pairs"
    and added: "map fst added = sch_series sch" "concat (map snd added) = sch_matches sch"
    and series: "map series_pair (sch_series sch) = pairs"
    and byes: "map tb_entrant_id (sch_byes sch) = (case bye of None \<Rightarrow> [] | Some e \<Rightarrow> [e])"
    and rest: "map sm_sequence (sch_matches sch) = [sw_next_match_sequence p..<sw_next_match_sequence p + length (sch_matches sch)]"
      "map sm_seed_commitment (sch_matches sch) =
         take (length (sch_matches sch)) (drop (sw_next_seed_index p) (ts_game_seed_commitments spec))"
      "\<forall>(s, ms) \<in> set added. series_games False games s ms"
    using swiss_round_Ok[OF assms] by metis
  let ?bye = "case bye of None \<Rightarrow> [] | Some e \<Rightarrow> [e]"
  note act = choose_swiss_bye_active[OF r(5)] and sp = swiss_pairs_members[OF r(6) choose_swiss_bye_active(2)[OF r(5)]]
  have ord: "mset ordered = mset (map te_entrant_id (ts_entrants spec))"
    using ordered_swiss_perm[OF r(4)] progress_entrants[OF r(1,3)] by simp
  have len: "length ordered = length (ts_entrants spec)" using mset_eq_length[OF ord] by simp
  have mem: "concat (map (\<lambda>s. [ss_entrant_a s, ss_entrant_b s]) (sch_series sch)) = members pairs"
    unfolding series[symmetric] by (simp add: members_def comp_def series_pair_def)
  have f1: "e \<in> sw_prior_byes p \<longrightarrow> te_entrant_id ` set (ts_entrants spec) \<subseteq> sw_prior_byes p" if "e \<in> set ?bye" for e
    using that act(3) choose_swiss_bye_odd[OF _ r(5)] mset_eq_setD[OF ord] by (auto split: option.splits)
  have f2: "length ?bye = length (ts_entrants spec) mod 2"
    using act(3) len by (auto simp: odd_iff_mod_2_eq_one split: option.splits)
  have f3: "mset (members ps @ ?bye) = mset (map te_entrant_id (ts_entrants spec)) \<longleftrightarrow> mset (members ps) = mset active" for ps
    using act(1) ord by (metis add_right_cancel mset_append)
  have f4: "(\<forall>(a, b) \<in> set pairs. EntrantPairing_new a b \<notin> sw_prior_pairings p) \<longleftrightarrow>
      (\<forall>s \<in> set (sch_series sch). EntrantPairing_new (ss_entrant_a s) (ss_entrant_b s) \<notin> sw_prior_pairings p)"
    unfolding series[symmetric] by (auto simp: series_pair_def)
  have f5: "sw_completed_rounds p < rounds"
    using r(3) by (auto simp: validate_swiss_progress_def split: if_splits)
  have f6: "mset (members pairs @ ?bye) = mset (map te_entrant_id (ts_entrants spec))" using f3 sp(1) by blast
  have f7: "(\<forall>s \<in> set (sch_series sch). EntrantPairing_new (ss_entrant_a s) (ss_entrant_b s) \<notin> sw_prior_pairings p)
      \<or> policy = AllowWhenRequired \<and> (\<nexists>ps. mset (members ps @ ?bye) = mset (map te_entrant_id (ts_entrants spec))
          \<and> (\<forall>(a, b) \<in> set ps. EntrantPairing_new a b \<notin> sw_prior_pairings p))"
    using sp(2) unfolding f3 f4 fresh_matching_def .
  have f8: "pairings_canonical p \<longrightarrow> (\<forall>s \<in> set (sch_series sch). \<not> have_met p (ss_entrant_a s) (ss_entrant_b s))
      \<or> policy = AllowWhenRequired \<and> (\<nexists>ps. mset (members ps @ ?bye) = mset (map te_entrant_id (ts_entrants spec))
          \<and> (\<forall>(a, b) \<in> set ps. \<not> have_met p a b))"
    using f7 by (simp only: have_met_iff cong: imp_cong) blast
  have f9: "\<exists>t \<in> set (sw_standings p). st_entrant_id t = e \<and> (\<forall>s \<in> set (sw_standings p).
      (st_entrant_id s \<notin> sw_prior_byes p \<or> te_entrant_id ` set (ts_entrants spec) \<subseteq> sw_prior_byes p)
        \<longrightarrow> swiss_rank spec s \<le> swiss_rank spec t)" if "e \<in> set ?bye" for e
    using that swiss_bye_last[OF r(1,4), of e active] r(5) mset_eq_setD[OF ord] by (auto split: option.splits)
  show ?thesis
    by (rule exI[of _ rounds], rule exI[of _ games], rule exI[of _ policy], rule exI[of _ ?bye])
      (intro conjI ballI r(2) f1 f2 f5 f6[folded mem] f8 f9 byes rest(1,2); use added rest(3) in blast)
qed

theorem swiss_round_exact_witness:
  "\<exists>sch. schedule_swiss_round cup_env cup_json trio trio_progress = Ok sch
     \<and> map sm_sequence (sch_matches sch) = [1..<1 + length (sch_matches sch)]
     \<and> map tb_entrant_id (sch_byes sch) = [''b''] \<and> pairings_canonical trio_progress"
proof -
  obtain sch where s: "schedule_swiss_round cup_env cup_json trio trio_progress = Ok sch" using trio_scheduled by blast
  let ?st = "\<lambda>e. \<lparr>st_entrant_id = e, st_match_points = 0, st_spread = 0, st_wins = 0\<rparr>"
  have t: "sw_prior_byes trio_progress = {''c''}" "te_entrant_id ` set (ts_entrants trio) = {''a'', ''b'', ''c''}"
    "length (ts_entrants trio) = 3" "set (sw_standings trio_progress) = {?st ''a'', ?st ''b'', ?st ''c''}" "sw_next_match_sequence trio_progress = 1"
    by (simp_all add: trio_progress_def trio_def cup_entrant_def)
  from swiss_round_exact[OF s] obtain bye where b: "map tb_entrant_id (sch_byes sch) = bye" "length bye = length (ts_entrants trio) mod 2"
    "\<forall>e \<in> set bye. e \<in> sw_prior_byes trio_progress \<longrightarrow> te_entrant_id ` set (ts_entrants trio) \<subseteq> sw_prior_byes trio_progress"
    "\<forall>e \<in> set bye. \<exists>t \<in> set (sw_standings trio_progress). st_entrant_id t = e \<and> (\<forall>s \<in> set (sw_standings trio_progress).
        (st_entrant_id s \<notin> sw_prior_byes trio_progress \<or> te_entrant_id ` set (ts_entrants trio) \<subseteq> sw_prior_byes trio_progress)
          \<longrightarrow> swiss_rank trio s \<le> swiss_rank trio t)"
    "map sm_sequence (sch_matches sch)
      = [sw_next_match_sequence trio_progress..<sw_next_match_sequence trio_progress + length (sch_matches sch)]"
    by (elim exE conjE)
  obtain e where e: "bye = [e]" using b(2) t(3) by (cases bye) auto
  have "\<not> swiss_rank trio (?st ''b'') \<le> swiss_rank trio (?st ''a'')" by (simp add: swiss_rank_def trio_def cup_entrant_def)
  then have "e = ''b''" using b(3,4) unfolding t e by auto
  moreover have "pairings_canonical trio_progress" by (simp add: pairings_canonical_def trio_progress_def)
  ultimately show ?thesis using s b(1,5) t(5) e by auto
qed

text \<open>
  Claim C21. The lifecycle of an accepted stored tournament starts scheduled and follows the legal
  transitions in sequence and in time; a finished or cancelled state is its last.
\<close>
theorem stored_lifecycle_is_path:
  assumes "validate_stored E json t = Ok ()"
  shows "sto_lifecycle t \<noteq> [] \<and> le_state (hd (sto_lifecycle t)) = LifeScheduled
    \<and> map le_sequence (sto_lifecycle t) = [0..<length (sto_lifecycle t)]
    \<and> (\<forall>n. Suc n < length (sto_lifecycle t) \<longrightarrow>
        can_transition_to (le_state (sto_lifecycle t ! n)) (le_state (sto_lifecycle t ! Suc n))
        \<and> le_occurred_at (sto_lifecycle t ! n) \<le> le_occurred_at (sto_lifecycle t ! Suc n)
        \<and> le_state (sto_lifecycle t ! n) \<notin> {LifeFinished, LifeCancelled})"
  using lifecycle_path[OF assms] terminal_iff by (auto simp: terminal_def)

definition cup_stored :: "TournamentSchedule \<Rightarrow> StoredTournament" where
  "cup_stored sch = \<lparr>sto_spec = cup, sto_schedule = sch, sto_swiss_progress = None,
     sto_lifecycle = [\<lparr>le_schema_version = 1, le_sequence = 0, le_state = LifeScheduled, le_occurred_at = 5\<rparr>,
       \<lparr>le_schema_version = 1, le_sequence = 1, le_state = LifeRunning, le_occurred_at = 7\<rparr>]\<rparr>"

theorem stored_lifecycle_is_path_witness:
  "\<exists>sch. validate_stored cup_env cup_json (cup_stored sch) = Ok () \<and> le_state (hd (sto_lifecycle (cup_stored sch))) = LifeScheduled"
proof -
  obtain sch where s: "schedule cup_env cup_json cup = Ok sch" using cup_scheduled by blast
  have "ts_format cup = RoundRobin 1" by (simp add: cup_def)
  then have v: "validate_stored cup_env cup_json (cup_stored sch) = Ok ()"
    using s by (simp add: validate_stored_def cup_stored_def cup_valid lifecycle_event_ok_def
        TOURNAMENT_LIFECYCLE_SCHEMA_VERSION_def index_at_def ensure_def upt_rec)
  then show ?thesis using stored_lifecycle_is_path[OF v] by blast
qed

end
