(* ===== verification/Sql.thy ===== *)
theory Sql
  imports RustText
begin

text \<open>
  What the repositories use of SQLite. A table is the list of its rows. An \<^verbatim>\<open>UPDATE\<close> replaces the
  rows its condition selects and fails when one of the new rows violates a \<^verbatim>\<open>CHECK\<close>; a comparison
  with \<^verbatim>\<open>NULL\<close> selects nothing. The error of a transaction leaves the tables as they were.

  The repositories open their transactions with \<^verbatim>\<open>pool.begin()\<close>, a deferred \<^verbatim>\<open>BEGIN\<close>, and some calls are single
  statements. SQLite lets one connection write at a time, and a transaction whose snapshot is no longer
  current cannot write: such a call ends with an unavailable database and no effect. The calls that take
  effect are therefore serialised, which is how they are modelled; the additional unavailability is not.
\<close>

section \<open>Columns, updates and transactions\<close>

type_synonym millis = int

text \<open>\<^verbatim>\<open>length(x) BETWEEN a AND b\<close> of a text counts characters; \<open>null_or\<close> is \<^verbatim>\<open>x IS NULL OR ..\<close>\<close>

definition text_between :: "nat \<Rightarrow> nat \<Rightarrow> string \<Rightarrow> bool" where
  "text_between a b s \<longleftrightarrow> a \<le> length (utf8_chars s) \<and> length (utf8_chars s) \<le> b"

definition null_or :: "('a \<Rightarrow> bool) \<Rightarrow> 'a option \<Rightarrow> bool" where
  "null_or P x = (case x of None \<Rightarrow> True | Some v \<Rightarrow> P v)"

text \<open>An \<^verbatim>\<open>UPDATE\<close>: the new table and the number of rows affected.\<close>

definition sql_update ::
  "'e \<Rightarrow> ('r \<Rightarrow> bool) \<Rightarrow> ('r \<Rightarrow> bool) \<Rightarrow> ('r \<Rightarrow> 'r) \<Rightarrow> 'r list \<Rightarrow> ('e, 'r list \<times> nat) outcome" where
  "sql_update unavailable check selects change rows =
     (if list_all (\<lambda>r. selects r \<longrightarrow> check (change r)) rows
      then Ok (map (\<lambda>r. if selects r then change r else r) rows, length (filter selects rows))
      else Err unavailable)"

text \<open>An error abandons the transaction.\<close>

definition transaction :: "('d \<Rightarrow> ('e, 'd \<times> 'a) outcome) \<Rightarrow> 'd \<Rightarrow> 'd \<times> ('e, 'a) outcome" where
  "transaction f db = (case f db of
       Ok (db', x) \<Rightarrow> (db', Ok x)
     | Err e \<Rightarrow> (db, Err e)
     | Panic \<Rightarrow> (db, Panic)
     | Diverge \<Rightarrow> (db, Diverge))"

section \<open>Laws\<close>

abbreviation upd :: "('r \<Rightarrow> bool) \<Rightarrow> ('r \<Rightarrow> 'r) \<Rightarrow> 'r list \<Rightarrow> 'r list" where
  "upd P f xs \<equiv> map (\<lambda>r. if P r then f r else r) xs"

lemma sql_update_Ok:
  "sql_update err check P f xs = Ok (ys, n) \<longleftrightarrow> ys = upd P f xs \<and> n = length (filter P xs) \<and> (\<forall>r \<in> set xs. P r \<longrightarrow> check (f r))"
  by (auto simp: sql_update_def list_all_iff)

lemma unique_key: "distinct (map f xs) \<Longrightarrow> x \<in> set xs \<Longrightarrow> y \<in> set xs \<Longrightarrow> f x = f y \<Longrightarrow> x = y"
  by (metis distinct_map inj_onD)

lemma upd_keys: "(\<And>r. r \<in> set xs \<Longrightarrow> P r \<Longrightarrow> k (f r) = k r) \<Longrightarrow> map k (upd P f xs) = map k xs"
  by simp

lemma upd_False [simp]: "upd (\<lambda>_. False) f xs = xs"
  by simp

lemma transaction_Ok: "transaction f db = (db', Ok x) \<longleftrightarrow> f db = Ok (db', x)"
  by (cases "f db") (auto simp: transaction_def)

lemma transaction_Err: "snd (transaction f db) = Err e \<Longrightarrow> fst (transaction f db) = db"
  by (cases "f db") (auto simp: transaction_def)

lemma returns_sql_update [simp]: "returns (sql_update err check P f rows)"
  by (simp add: sql_update_def)

lemma upd_one:
  assumes "distinct (map k xs)" "x \<in> set xs" "\<forall>y. P y \<longrightarrow> k y = k x" "P x"
  shows "length (filter P xs) = 1" "y \<in> set xs \<Longrightarrow> P y \<Longrightarrow> y = x"
proof -
  have u: "y = x" if "y \<in> set xs" "P y" for y using unique_key[OF assms(1) that(1) assms(2)] assms(3) that by blast
  then show "y \<in> set xs \<Longrightarrow> P y \<Longrightarrow> y = x" .
  have "{y. P y} \<inter> set xs = {x}" using assms(2,4) by (intro set_eqI iffI) (use u in blast)+
  then show "length (filter P xs) = 1"
    using assms(1) distinct_length_filter[of xs P] by (simp add: distinct_map)
qed

end
