(* ===== verification/Jobs.thy ===== *)
theory Jobs
  imports Sql
begin

text \<open>
  The durable job queue: \<^verbatim>\<open>application/src/job.rs\<close> (jobs, claims, outcomes, the worker) and
  \<^verbatim>\<open>persistence/src/job_repository.rs\<close> (the SQLite repository) with the tables of
  \<^verbatim>\<open>migrations/0009_jobs.sql\<close>.

  A table is the list of its rows. A row of \<^verbatim>\<open>jobs\<close> is a \<open>JobRecord\<close> with the error code of the last
  attempt; columns with a closed vocabulary of texts hold the datatype instead, and unsigned
  columns are \<open>nat\<close>, so \<^verbatim>\<open>record\<close> has only the checks left that can fail on such a row. An \<^verbatim>\<open>UPDATE\<close>
  replaces the rows its condition selects and fails when one of the new rows violates a \<^verbatim>\<open>CHECK\<close>; a
  comparison with \<^verbatim>\<open>NULL\<close> selects nothing. A call whose error is returned leaves the tables
  as they were, and calls are serialised: a claim and a completion are transactions, and SQLite admits one
  writer at a time, refusing another as unavailable. \<open>canonical bytes\<close> says that \<^verbatim>\<open>serde_json\<close> parses the bytes and prints them back.
\<close>

section \<open>Jobs\<close>

definition JOB_SCHEMA_VERSION :: nat where "JOB_SCHEMA_VERSION = 1"
definition JOB_PAYLOAD_MAX_BYTES :: nat where "JOB_PAYLOAD_MAX_BYTES = 1048576"
definition JOB_MAX_ATTEMPTS :: nat where "JOB_MAX_ATTEMPTS = 100"
definition JOB_MAX_LEASE_MS :: int where "JOB_MAX_LEASE_MS = 86400000"
definition JOB_MAX_BACKOFF_MS :: int where "JOB_MAX_BACKOFF_MS = 604800000"

record NewJob =
  nj_schema_version :: nat
  nj_job_id :: string
  nj_kind :: string
  nj_payload_schema_version :: nat
  nj_payload_json :: "byte list"
  nj_priority :: int
  nj_available_at :: millis
  nj_max_attempts :: nat
  nj_retry_initial_ms :: int
  nj_retry_max_ms :: int
  nj_deduplication_key :: string

datatype JobError = InvalidJob | InvalidClaim | InvalidOutcome

datatype JobRepositoryError = JobNotFound | JobConflict | JobCorrupt | JobUnavailable

definition kind_byte :: "char \<Rightarrow> bool" where
  "kind_byte c \<longleftrightarrow> ascii_lower c \<or> ascii_digit c \<or> c \<in> {CHR ''.'', CHR ''_'', CHR ''-''}"

definition valid_kind :: "string \<Rightarrow> bool" where
  "valid_kind value \<longleftrightarrow> value \<noteq> [] \<and> length value \<le> 64 \<and> list_all kind_byte value"

definition valid_error_code :: "string \<Rightarrow> bool" where
  "valid_error_code value \<longleftrightarrow> valid_kind value \<and> length value \<le> 64"

definition validate_new_job :: "(byte list \<Rightarrow> bool) \<Rightarrow> NewJob \<Rightarrow> (JobError, unit) outcome" where
  "validate_new_job canonical job =
     (if nj_schema_version job \<noteq> JOB_SCHEMA_VERSION \<or> \<not> valid_id 256 (nj_job_id job) \<or> \<not> valid_kind (nj_kind job)
         \<or> nj_payload_schema_version job = 0 \<or> nj_payload_json job = []
         \<or> JOB_PAYLOAD_MAX_BYTES < length (nj_payload_json job) \<or> nj_available_at job < 0
         \<or> \<not> (1 \<le> nj_max_attempts job \<and> nj_max_attempts job \<le> JOB_MAX_ATTEMPTS)
         \<or> nj_retry_initial_ms job \<le> 0 \<or> nj_retry_max_ms job < nj_retry_initial_ms job
         \<or> JOB_MAX_BACKOFF_MS < nj_retry_max_ms job \<or> \<not> valid_id 256 (nj_deduplication_key job)
      then Err InvalidJob
      else ensure (canonical (nj_payload_json job)) InvalidJob)"

definition job_payload_sha256 :: "env \<Rightarrow> (byte list \<Rightarrow> bool) \<Rightarrow> NewJob \<Rightarrow> (JobError, string) outcome" where
  "job_payload_sha256 E canonical job =
     rbind (validate_new_job canonical job) (\<lambda>_. Ok (hex_lower (env_sha256 E (nj_payload_json job))))"

datatype JobStatus = Queued | Leased | Succeeded | PermanentFailure | Exhausted | JobCancelled

fun is_terminal :: "JobStatus \<Rightarrow> bool" where
  "is_terminal Queued = False"
| "is_terminal Leased = False"
| "is_terminal Succeeded = True"
| "is_terminal PermanentFailure = True"
| "is_terminal Exhausted = True"
| "is_terminal JobCancelled = True"

record JobRecord =
  jr_schema_version :: nat
  jr_job_id :: string
  jr_kind :: string
  jr_payload_schema_version :: nat
  jr_payload_json :: "byte list"
  jr_payload_sha256 :: string
  jr_priority :: int
  jr_available_at :: millis
  jr_max_attempts :: nat
  jr_attempt :: nat
  jr_retry_initial_ms :: int
  jr_retry_max_ms :: int
  jr_deduplication_key :: string
  jr_status :: JobStatus
  jr_owner :: "string option"
  jr_lease_generation :: nat
  jr_leased_at :: "millis option"
  jr_lease_expires_at :: "millis option"
  jr_cancellation_requested_at :: "millis option"
  jr_created_at :: millis
  jr_updated_at :: millis
  jr_finished_at :: "millis option"

record JobLease =
  jl_job :: JobRecord
  jl_worker_id :: string
  jl_lease_generation :: nat
  jl_leased_at :: millis
  jl_lease_expires_at :: millis

record ClaimJobs =
  cj_worker_id :: string
  cj_kinds :: "string set"
  cj_now :: millis
  cj_lease_duration_ms :: int

definition validate_claim :: "ClaimJobs \<Rightarrow> (JobError, unit) outcome" where
  "validate_claim c = ensure (\<not> (\<not> valid_id 128 (cj_worker_id c) \<or> cj_kinds c = {}
     \<or> (\<exists>k \<in> cj_kinds c. \<not> valid_kind k) \<or> cj_now c < 0
     \<or> \<not> (1 \<le> cj_lease_duration_ms c \<and> cj_lease_duration_ms c \<le> JOB_MAX_LEASE_MS))) InvalidClaim"

datatype EnqueueResult = Inserted JobRecord | Existing JobRecord

datatype JobHandlerOutcome =
    OutSucceeded
  | OutRetryable string
  | OutPermanent string
  | OutCancelled

fun validate_outcome :: "JobHandlerOutcome \<Rightarrow> (JobError, unit) outcome" where
  "validate_outcome (OutRetryable code) = ensure (valid_error_code code) InvalidOutcome"
| "validate_outcome (OutPermanent code) = ensure (valid_error_code code) InvalidOutcome"
| "validate_outcome OutSucceeded = Ok ()"
| "validate_outcome OutCancelled = Ok ()"

datatype CompletionResult = Applied JobRecord | AlreadyApplied JobRecord
datatype RenewalResult = Renewed | CancellationRequested
datatype CancellationResult = Cancelled | Requested | AlreadyTerminal

text \<open>\<^verbatim>\<open>saturating_mul\<close> of \<^verbatim>\<open>i64\<close>\<close>

definition saturate_i64 :: "int \<Rightarrow> int" where
  "saturate_i64 x = max (- (2 ^ 63)) (min (2 ^ 63 - 1) x)"

definition retry_backoff_ms :: "int \<Rightarrow> int \<Rightarrow> nat \<Rightarrow> int" where
  "retry_backoff_ms initial_ms maximum_ms attempt =
     (let shift = min (attempt - 1) 62 in min (saturate_i64 (initial_ms * 2 ^ shift)) maximum_ms)"

section \<open>Tables\<close>

record JobRow = JobRecord +
  jr_last_error_code :: "string option"

record AttemptRow =
  ja_job_id :: string
  ja_attempt :: nat
  ja_lease_generation :: nat
  ja_worker_id :: string
  ja_leased_at :: millis
  ja_lease_expires_at :: millis
  ja_finished_at :: "millis option"
  ja_handler_outcome :: "string option"
  ja_final_status :: "JobStatus option"
  ja_error_code :: "string option"
  ja_next_available_at :: "millis option"

record JobDb =
  db_jobs :: "JobRow list"
  db_attempts :: "AttemptRow list"

definition check_job :: "JobRow \<Rightarrow> bool" where
  "check_job r \<longleftrightarrow> 0 < jr_schema_version r \<and> text_between 1 64 (jr_kind r) \<and> 0 < jr_payload_schema_version r
     \<and> 1 \<le> length (jr_payload_json r) \<and> length (jr_payload_json r) \<le> 1048576 \<and> valid_sha256 (jr_payload_sha256 r)
     \<and> 0 \<le> jr_available_at r \<and> 1 \<le> jr_max_attempts r \<and> jr_max_attempts r \<le> 100 \<and> jr_attempt r \<le> jr_max_attempts r
     \<and> 0 < jr_retry_initial_ms r \<and> jr_retry_initial_ms r \<le> jr_retry_max_ms r \<and> jr_retry_max_ms r \<le> 604800000
     \<and> text_between 1 256 (jr_deduplication_key r)
     \<and> null_or (text_between 1 128) (jr_owner r) \<and> null_or (\<lambda>t. 0 \<le> t) (jr_leased_at r)
     \<and> null_or (\<lambda>t. null_or (\<lambda>u. u < t) (jr_leased_at r)) (jr_lease_expires_at r)
     \<and> null_or (\<lambda>t. 0 \<le> t) (jr_cancellation_requested_at r) \<and> null_or (text_between 1 64) (jr_last_error_code r)
     \<and> 0 \<le> jr_created_at r \<and> jr_created_at r \<le> jr_updated_at r \<and> null_or (\<lambda>t. jr_created_at r \<le> t) (jr_finished_at r)
     \<and> (jr_status r = Leased \<and> jr_owner r \<noteq> None \<and> jr_leased_at r \<noteq> None \<and> jr_lease_expires_at r \<noteq> None
            \<and> jr_finished_at r = None
        \<or> jr_status r \<noteq> Leased \<and> jr_owner r = None \<and> jr_leased_at r = None \<and> jr_lease_expires_at r = None)
     \<and> (is_terminal (jr_status r) \<or> jr_finished_at r = None) \<and> (\<not> is_terminal (jr_status r) \<or> jr_finished_at r \<noteq> None)
     \<and> null_or (\<lambda>t. jr_created_at r \<le> t) (jr_leased_at r)
     \<and> null_or (\<lambda>t. jr_created_at r \<le> t) (jr_cancellation_requested_at r)"

definition check_attempt :: "AttemptRow \<Rightarrow> bool" where
  "check_attempt a \<longleftrightarrow> 0 < ja_attempt a \<and> 0 < ja_lease_generation a \<and> text_between 1 128 (ja_worker_id a)
     \<and> 0 \<le> ja_leased_at a \<and> ja_leased_at a < ja_lease_expires_at a \<and> null_or (\<lambda>t. ja_leased_at a \<le> t) (ja_finished_at a)
     \<and> null_or (\<lambda>v. v \<in> {''succeeded'', ''retryable'', ''permanent'', ''cancelled'', ''abandoned''}) (ja_handler_outcome a)
     \<and> null_or (\<lambda>s. s \<noteq> Leased) (ja_final_status a) \<and> null_or (text_between 1 64) (ja_error_code a)
     \<and> null_or (\<lambda>t. null_or (\<lambda>u. u \<le> t) (ja_finished_at a)) (ja_next_available_at a)
     \<and> ((ja_finished_at a = None) = (ja_handler_outcome a = None))
     \<and> (ja_handler_outcome a \<noteq> Some ''retryable'' \<or> ja_error_code a \<noteq> None)
     \<and> (ja_handler_outcome a \<noteq> Some ''permanent'' \<or> ja_error_code a \<noteq> None)"

definition find_job :: "JobDb \<Rightarrow> string \<Rightarrow> JobRow option" where
  "find_job db job_id = List.find (\<lambda>r. jr_job_id r = job_id) (db_jobs db)"

definition row_input :: "JobRow \<Rightarrow> NewJob" where
  "row_input r = \<lparr>nj_schema_version = jr_schema_version r, nj_job_id = jr_job_id r, nj_kind = jr_kind r,
     nj_payload_schema_version = jr_payload_schema_version r, nj_payload_json = jr_payload_json r,
     nj_priority = jr_priority r, nj_available_at = jr_available_at r, nj_max_attempts = jr_max_attempts r,
     nj_retry_initial_ms = jr_retry_initial_ms r, nj_retry_max_ms = jr_retry_max_ms r,
     nj_deduplication_key = jr_deduplication_key r\<rparr>"

text \<open>\<^verbatim>\<open>leased_at.zip(lease_expires_at).is_some_and(|(leased, expires)| expires <= leased)\<close>\<close>

definition lease_inverted :: "JobRow \<Rightarrow> bool" where
  "lease_inverted r = (case (jr_leased_at r, jr_lease_expires_at r) of
     (Some leased, Some expires) \<Rightarrow> expires \<le> leased | _ \<Rightarrow> False)"

definition record_row :: "env \<Rightarrow> (byte list \<Rightarrow> bool) \<Rightarrow> JobRow \<Rightarrow> (JobRepositoryError, JobRecord) outcome" where
  "record_row E canonical r =
     (if validate_new_job canonical (row_input r) \<noteq> Ok ()
         \<or> job_payload_sha256 E canonical (row_input r) \<noteq> Ok (jr_payload_sha256 r)
         \<or> jr_max_attempts r < jr_attempt r \<or> jr_updated_at r < jr_created_at r
         \<or> is_terminal (jr_status r) \<noteq> (jr_finished_at r \<noteq> None)
         \<or> (jr_status r = Leased) \<noteq> (jr_owner r \<noteq> None \<and> jr_leased_at r \<noteq> None \<and> jr_lease_expires_at r \<noteq> None)
         \<or> jr_status r \<noteq> Leased \<and> (jr_owner r \<noteq> None \<or> jr_leased_at r \<noteq> None \<or> jr_lease_expires_at r \<noteq> None)
         \<or> lease_inverted r
      then Err JobCorrupt else Ok (JobRecord.truncate r))"

section \<open>Enqueue\<close>

definition new_row :: "NewJob \<Rightarrow> string \<Rightarrow> millis \<Rightarrow> JobRow" where
  "new_row job payload_sha256 now = \<lparr>jr_schema_version = nj_schema_version job, jr_job_id = nj_job_id job,
     jr_kind = nj_kind job, jr_payload_schema_version = nj_payload_schema_version job,
     jr_payload_json = nj_payload_json job, jr_payload_sha256 = payload_sha256, jr_priority = nj_priority job,
     jr_available_at = nj_available_at job, jr_max_attempts = nj_max_attempts job, jr_attempt = 0,
     jr_retry_initial_ms = nj_retry_initial_ms job, jr_retry_max_ms = nj_retry_max_ms job,
     jr_deduplication_key = nj_deduplication_key job, jr_status = Queued, jr_owner = None,
     jr_lease_generation = 0, jr_leased_at = None, jr_lease_expires_at = None,
     jr_cancellation_requested_at = None, jr_created_at = now, jr_updated_at = now, jr_finished_at = None,
     jr_last_error_code = None\<rparr>"

definition same_enqueue_identity :: "JobRecord \<Rightarrow> NewJob \<Rightarrow> string \<Rightarrow> bool" where
  "same_enqueue_identity existing new payload_sha256 \<longleftrightarrow>
     jr_schema_version existing = nj_schema_version new \<and> jr_kind existing = nj_kind new
     \<and> jr_payload_schema_version existing = nj_payload_schema_version new
     \<and> jr_payload_json existing = nj_payload_json new \<and> jr_payload_sha256 existing = payload_sha256
     \<and> jr_priority existing = nj_priority new \<and> jr_available_at existing = nj_available_at new
     \<and> jr_max_attempts existing = nj_max_attempts new \<and> jr_retry_initial_ms existing = nj_retry_initial_ms new
     \<and> jr_retry_max_ms existing = nj_retry_max_ms new \<and> jr_deduplication_key existing = nj_deduplication_key new"

definition validate_id :: "string \<Rightarrow> (JobRepositoryError, unit) outcome" where
  "validate_id value = ensure (valid_id 256 value) JobCorrupt"

definition load_job :: "env \<Rightarrow> (byte list \<Rightarrow> bool) \<Rightarrow> JobDb \<Rightarrow> string \<Rightarrow> (JobRepositoryError, JobRecord) outcome" where
  "load_job E canonical db job_id =
     rbind (validate_id job_id) (\<lambda>_.
     rbind (ok_or JobNotFound (find_job db job_id)) (record_row E canonical))"

definition load_deduplicated ::
  "env \<Rightarrow> (byte list \<Rightarrow> bool) \<Rightarrow> JobDb \<Rightarrow> string \<Rightarrow> string \<Rightarrow> (JobRepositoryError, JobRecord) outcome" where
  "load_deduplicated E canonical db kind key =
     rbind (ok_or JobConflict (List.find (\<lambda>r. jr_kind r = kind \<and> jr_deduplication_key r = key) (db_jobs db)))
       (record_row E canonical)"

definition unique_violation :: "JobDb \<Rightarrow> NewJob \<Rightarrow> bool" where
  "unique_violation db job \<longleftrightarrow> list_ex (\<lambda>r. jr_job_id r = nj_job_id job
     \<or> jr_kind r = nj_kind job \<and> jr_deduplication_key r = nj_deduplication_key job) (db_jobs db)"

text \<open>
  The insertion and the load that follows it are separate statements of the source. Another process may
  claim the new job in between, and the record returned as inserted is then the leased one; the model
  returns the record as it was inserted.
\<close>

definition enqueue_job ::
  "env \<Rightarrow> (byte list \<Rightarrow> bool) \<Rightarrow> JobDb \<Rightarrow> NewJob \<Rightarrow> millis \<Rightarrow> JobDb \<times> (JobRepositoryError, EnqueueResult) outcome" where
  "enqueue_job E canonical db job now =
     (if validate_new_job canonical job \<noteq> Ok () \<or> now < 0 then (db, Err JobCorrupt)
      else case job_payload_sha256 E canonical job of
          Ok payload_sha256 \<Rightarrow>
            let row = new_row job payload_sha256 now in
            if \<not> check_job row then (db, Err JobUnavailable)
            else if unique_violation db job
            then (db, rbind (load_deduplicated E canonical db (nj_kind job) (nj_deduplication_key job)) (\<lambda>existing.
                   if same_enqueue_identity existing job payload_sha256 then Ok (Existing existing)
                   else Err JobConflict))
            else let db' = db\<lparr>db_jobs := db_jobs db @ [row]\<rparr>
              in (db', rbind (load_job E canonical db' (nj_job_id job)) (\<lambda>r. Ok (Inserted r)))
        | _ \<Rightarrow> (db, Err JobCorrupt))"

section \<open>Claim\<close>

definition expired_by :: "millis \<Rightarrow> millis option \<Rightarrow> bool" where
  "expired_by now expiry = (case expiry of None \<Rightarrow> False | Some t \<Rightarrow> t \<le> now)"

definition abandon :: "JobDb \<Rightarrow> millis \<Rightarrow> AttemptRow \<Rightarrow> AttemptRow" where
  "abandon db now a =
     (let job = find_job db (ja_job_id a);
          cancelled = (case job of Some r \<Rightarrow> jr_cancellation_requested_at r \<noteq> None | None \<Rightarrow> False);
          exhausted = (case job of Some r \<Rightarrow> jr_max_attempts r \<le> ja_attempt a | None \<Rightarrow> False);
          more = (case job of Some r \<Rightarrow> ja_attempt a < jr_max_attempts r | None \<Rightarrow> False)
      in a\<lparr>ja_finished_at := Some now, ja_handler_outcome := Some ''abandoned'',
           ja_final_status := Some (if cancelled then JobCancelled else if exhausted then Exhausted else Queued),
           ja_next_available_at := (if more then Some now else None)\<rparr>)"

definition given_up :: "millis \<Rightarrow> JobRow \<Rightarrow> bool" where
  "given_up now r \<longleftrightarrow> jr_status r = Leased \<and> expired_by now (jr_lease_expires_at r)
     \<and> (jr_cancellation_requested_at r \<noteq> None \<or> jr_max_attempts r \<le> jr_attempt r)"

definition recovered_row :: "millis \<Rightarrow> JobRow \<Rightarrow> JobRow" where
  "recovered_row now r = r\<lparr>jr_status := (if jr_cancellation_requested_at r \<noteq> None then JobCancelled else Exhausted),
     jr_owner := None, jr_leased_at := None, jr_lease_expires_at := None, jr_updated_at := now,
     jr_finished_at := Some now\<rparr>"

definition recover_expired :: "JobDb \<Rightarrow> millis \<Rightarrow> (JobRepositoryError, JobDb) outcome" where
  "recover_expired db now =
     rbind (sql_update JobUnavailable check_attempt (\<lambda>a. ja_finished_at a = None \<and> ja_lease_expires_at a \<le> now) (abandon db now)
       (db_attempts db)) (\<lambda>(attempts, _).
     rbind (sql_update JobUnavailable check_job (given_up now) (recovered_row now) (db_jobs db)) (\<lambda>(jobs, _).
     Ok \<lparr>db_jobs = jobs, db_attempts = attempts\<rparr>))"

definition claimable :: "ClaimJobs \<Rightarrow> JobRow \<Rightarrow> bool" where
  "claimable request r \<longleftrightarrow> jr_cancellation_requested_at r = None \<and> jr_attempt r < jr_max_attempts r
     \<and> (jr_status r = Queued \<and> jr_available_at r \<le> cj_now request
        \<or> jr_status r = Leased \<and> expired_by (cj_now request) (jr_lease_expires_at r))
     \<and> jr_kind r \<in> cj_kinds request"

definition claim_order :: "JobRow \<Rightarrow> int \<times> millis \<times> millis \<times> string" where
  "claim_order r = (- jr_priority r, jr_available_at r, jr_created_at r, jr_job_id r)"

definition next_claim :: "ClaimJobs \<Rightarrow> JobDb \<Rightarrow> string option" where
  "next_claim request db = (case sort_key claim_order (filter (claimable request) (db_jobs db)) of
     [] \<Rightarrow> None | r # _ \<Rightarrow> Some (jr_job_id r))"

definition lease_row :: "ClaimJobs \<Rightarrow> millis \<Rightarrow> JobRow \<Rightarrow> JobRow" where
  "lease_row request expires_at r = r\<lparr>jr_status := Leased, jr_attempt := jr_attempt r + 1,
     jr_lease_generation := jr_lease_generation r + 1, jr_owner := Some (cj_worker_id request),
     jr_leased_at := Some (cj_now request), jr_lease_expires_at := Some expires_at,
     jr_updated_at := cj_now request, jr_last_error_code := None\<rparr>"

definition new_attempt :: "JobRecord \<Rightarrow> ClaimJobs \<Rightarrow> millis \<Rightarrow> AttemptRow" where
  "new_attempt job request expires_at = \<lparr>ja_job_id = jr_job_id job, ja_attempt = jr_attempt job,
     ja_lease_generation = jr_lease_generation job, ja_worker_id = cj_worker_id request,
     ja_leased_at = cj_now request, ja_lease_expires_at = expires_at, ja_finished_at = None,
     ja_handler_outcome = None, ja_final_status = None, ja_error_code = None, ja_next_available_at = None\<rparr>"

text \<open>A violated key, reference or \<^verbatim>\<open>CHECK\<close> of an insertion is a conflict (\<^verbatim>\<open>map_insert\<close>).\<close>

definition insert_attempt :: "JobDb \<Rightarrow> AttemptRow \<Rightarrow> (JobRepositoryError, JobDb) outcome" where
  "insert_attempt db a =
     (if \<not> check_attempt a \<or> find_job db (ja_job_id a) = None
         \<or> list_ex (\<lambda>b. ja_job_id b = ja_job_id a
              \<and> (ja_attempt b = ja_attempt a \<or> ja_lease_generation b = ja_lease_generation a)) (db_attempts db)
      then Err JobConflict
      else Ok (db\<lparr>db_attempts := db_attempts db @ [a]\<rparr>))"

text \<open>\<^verbatim>\<open>i64::try_from\<close> of an unsigned value\<close>

definition as_i64 :: "nat \<Rightarrow> (JobRepositoryError, nat) outcome" where
  "as_i64 n = ok_or JobCorrupt (try_from 63 n)"

definition claim_in :: "env \<Rightarrow> (byte list \<Rightarrow> bool) \<Rightarrow> ClaimJobs \<Rightarrow> millis \<Rightarrow> JobDb
    \<Rightarrow> (JobRepositoryError, JobDb \<times> JobLease option) outcome" where
  "claim_in E canonical request expires_at db =
     rbind (recover_expired db (cj_now request)) (\<lambda>db1.
     case next_claim request db1 of
       None \<Rightarrow> Ok (db1, None)
     | Some job_id \<Rightarrow>
         rbind (sql_update JobUnavailable check_job (\<lambda>r. jr_job_id r = job_id) (lease_row request expires_at) (db_jobs db1)) (\<lambda>(jobs, _).
         let db2 = db1\<lparr>db_jobs := jobs\<rparr> in
         rbind (ok_or JobUnavailable (find_job db2 job_id)) (\<lambda>row.
         rbind (record_row E canonical row) (\<lambda>job.
         rbind (as_i64 (jr_lease_generation row)) (\<lambda>_.
         rbind (insert_attempt db2 (new_attempt job request expires_at)) (\<lambda>db3.
         Ok (db3, Some \<lparr>jl_job = job, jl_worker_id = cj_worker_id request,
           jl_lease_generation = jr_lease_generation row, jl_leased_at = cj_now request,
           jl_lease_expires_at = expires_at\<rparr>)))))))"

definition claim_job :: "env \<Rightarrow> (byte list \<Rightarrow> bool) \<Rightarrow> JobDb \<Rightarrow> ClaimJobs
    \<Rightarrow> JobDb \<times> (JobRepositoryError, JobLease option) outcome" where
  "claim_job E canonical db request =
     (if validate_claim request \<noteq> Ok () then (db, Err JobCorrupt)
      else case checked_add_signed 64 (cj_now request) (cj_lease_duration_ms request) of
          None \<Rightarrow> (db, Err JobCorrupt)
        | Some expires_at \<Rightarrow> transaction (claim_in E canonical request expires_at) db)"

section \<open>Renew\<close>

definition holds_now :: "string \<Rightarrow> nat \<Rightarrow> JobLease \<Rightarrow> millis \<Rightarrow> JobRow \<Rightarrow> bool" where
  "holds_now job_id attempt lease now r \<longleftrightarrow> jr_job_id r = job_id \<and> jr_status r = Leased
     \<and> jr_owner r = Some (jl_worker_id lease) \<and> jr_attempt r = attempt
     \<and> jr_lease_generation r = jl_lease_generation lease
     \<and> (case jr_lease_expires_at r of None \<Rightarrow> False | Some t \<Rightarrow> now < t)"

definition holds_lease :: "JobLease \<Rightarrow> millis \<Rightarrow> JobRow \<Rightarrow> bool" where
  "holds_lease lease now r \<longleftrightarrow> holds_now (jr_job_id (jl_job lease)) (jr_attempt (jl_job lease)) lease now r"

definition attempt_of :: "JobLease \<Rightarrow> AttemptRow \<Rightarrow> bool" where
  "attempt_of lease a \<longleftrightarrow> ja_job_id a = jr_job_id (jl_job lease) \<and> ja_attempt a = jr_attempt (jl_job lease)
     \<and> ja_lease_generation a = jl_lease_generation lease"

definition renew_in :: "JobLease \<Rightarrow> millis \<Rightarrow> millis \<Rightarrow> JobDb \<Rightarrow> (JobRepositoryError, JobDb \<times> RenewalResult) outcome" where
  "renew_in lease now expires_at db =
     rbind (as_i64 (jl_lease_generation lease)) (\<lambda>_.
     rbind (sql_update JobUnavailable check_job (\<lambda>r. holds_lease lease now r
           \<and> (case jr_lease_expires_at r of None \<Rightarrow> False | Some t \<Rightarrow> t < expires_at))
         (\<lambda>r. r\<lparr>jr_lease_expires_at := Some expires_at, jr_updated_at := now\<rparr>) (db_jobs db)) (\<lambda>(jobs, updated).
     rbind (ensure (updated = 1) JobConflict) (\<lambda>_.
     rbind (sql_update JobUnavailable check_attempt (\<lambda>a. attempt_of lease a \<and> ja_finished_at a = None)
         (\<lambda>a. a\<lparr>ja_lease_expires_at := expires_at\<rparr>) (db_attempts db)) (\<lambda>(attempts, attempt_updated).
     rbind (ensure (attempt_updated = 1) JobCorrupt) (\<lambda>_.
     let db' = \<lparr>db_jobs = jobs, db_attempts = attempts\<rparr> in
     rbind (ok_or JobUnavailable (find_job db' (jr_job_id (jl_job lease)))) (\<lambda>r.
     Ok (db', if jr_cancellation_requested_at r \<noteq> None then CancellationRequested else Renewed)))))))"

definition renew_job :: "JobDb \<Rightarrow> JobLease \<Rightarrow> millis \<Rightarrow> int \<Rightarrow> JobDb \<times> (JobRepositoryError, RenewalResult) outcome" where
  "renew_job db lease now duration_ms =
     (if now < 0 \<or> \<not> (1 \<le> duration_ms \<and> duration_ms \<le> JOB_MAX_LEASE_MS) then (db, Err JobCorrupt)
      else case checked_add_signed 64 now duration_ms of
          None \<Rightarrow> (db, Err JobCorrupt)
        | Some expires_at \<Rightarrow> transaction (renew_in lease now expires_at) db)"

section \<open>Complete\<close>

fun outcome_columns :: "JobHandlerOutcome \<Rightarrow> string \<times> string option" where
  "outcome_columns OutSucceeded = (''succeeded'', None)"
| "outcome_columns (OutRetryable code) = (''retryable'', Some code)"
| "outcome_columns (OutPermanent code) = (''permanent'', Some code)"
| "outcome_columns OutCancelled = (''cancelled'', None)"

definition existing_completion ::
  "env \<Rightarrow> (byte list \<Rightarrow> bool) \<Rightarrow> JobDb \<Rightarrow> JobLease \<Rightarrow> JobHandlerOutcome \<Rightarrow> (JobRepositoryError, JobRecord option) outcome" where
  "existing_completion E canonical db lease result =
     rbind (as_i64 (jl_lease_generation lease)) (\<lambda>_.
     case List.find (attempt_of lease) (db_attempts db) of
       None \<Rightarrow> Ok None
     | Some row \<Rightarrow> (case ja_handler_outcome row of
           None \<Rightarrow> Ok None
         | Some stored \<Rightarrow>
             (let (requested, requested_error) = outcome_columns result in
              if stored \<noteq> requested \<or> ja_error_code row \<noteq> requested_error then Err JobConflict
              else rbind (ok_or JobUnavailable (find_job db (jr_job_id (jl_job lease)))) (\<lambda>r.
                   rbind (record_row E canonical r) (\<lambda>job. Ok (Some job))))))"

definition validate_active_completion ::
  "JobRow \<Rightarrow> JobRecord \<Rightarrow> JobLease \<Rightarrow> JobHandlerOutcome \<Rightarrow> millis \<Rightarrow> (JobRepositoryError, unit) outcome" where
  "validate_active_completion row current lease result now =
     rbind (ok_or JobCorrupt (jr_lease_expires_at row)) (\<lambda>expiry.
     if jr_status current \<noteq> Leased \<or> jr_attempt current \<noteq> jr_attempt (jl_job lease)
        \<or> jr_owner row \<noteq> Some (jl_worker_id lease) \<or> jr_lease_generation row \<noteq> jl_lease_generation lease
        \<or> expiry \<le> now \<or> jr_cancellation_requested_at current \<noteq> None \<and> result \<noteq> OutCancelled
     then Err JobConflict else Ok ())"

fun completion_transition ::
  "JobRecord \<Rightarrow> JobHandlerOutcome \<Rightarrow> millis \<Rightarrow> (JobRepositoryError, JobStatus \<times> millis \<times> millis option) outcome" where
  "completion_transition current OutSucceeded now = Ok (Succeeded, jr_available_at current, Some now)"
| "completion_transition current (OutPermanent _) now = Ok (PermanentFailure, jr_available_at current, Some now)"
| "completion_transition current OutCancelled now = Ok (JobCancelled, jr_available_at current, Some now)"
| "completion_transition current (OutRetryable _) now =
     (if jr_max_attempts current \<le> jr_attempt current then Ok (Exhausted, jr_available_at current, Some now)
      else rbind (ok_or JobCorrupt (checked_add_signed 64 now
          (retry_backoff_ms (jr_retry_initial_ms current) (jr_retry_max_ms current) (jr_attempt current)))) (\<lambda>next.
        Ok (Queued, next, None)))"

definition finish_row :: "JobStatus \<Rightarrow> millis \<Rightarrow> millis option \<Rightarrow> string option \<Rightarrow> millis \<Rightarrow> JobRow \<Rightarrow> JobRow" where
  "finish_row status available_at finished_at error_code now r = r\<lparr>jr_status := status, jr_available_at := available_at,
     jr_owner := None, jr_leased_at := None, jr_lease_expires_at := None, jr_last_error_code := error_code,
     jr_updated_at := now, jr_finished_at := finished_at\<rparr>"

definition finish_attempt :: "JobStatus \<Rightarrow> millis \<Rightarrow> string \<Rightarrow> string option \<Rightarrow> millis \<Rightarrow> AttemptRow \<Rightarrow> AttemptRow" where
  "finish_attempt status available_at handler_outcome error_code now a = a\<lparr>ja_finished_at := Some now,
     ja_handler_outcome := Some handler_outcome, ja_final_status := Some status, ja_error_code := error_code,
     ja_next_available_at := (if status = Queued then Some available_at else None)\<rparr>"

definition complete_in ::
  "env \<Rightarrow> (byte list \<Rightarrow> bool) \<Rightarrow> JobLease \<Rightarrow> JobHandlerOutcome \<Rightarrow> millis \<Rightarrow> JobDb
     \<Rightarrow> (JobRepositoryError, JobDb \<times> CompletionResult) outcome" where
  "complete_in E canonical lease result now db =
     rbind (existing_completion E canonical db lease result) (\<lambda>existing.
     case existing of
       Some job \<Rightarrow> Ok (db, AlreadyApplied job)
     | None \<Rightarrow>
         rbind (ok_or JobNotFound (find_job db (jr_job_id (jl_job lease)))) (\<lambda>row.
         rbind (record_row E canonical row) (\<lambda>current.
         rbind (validate_active_completion row current lease result now) (\<lambda>_.
         let (handler_outcome, error_code) = outcome_columns result in
         rbind (completion_transition current result now) (\<lambda>(status, available_at, finished_at).
         rbind (sql_update JobUnavailable check_job (holds_now (jr_job_id current) (jr_attempt current) lease now)
             (finish_row status available_at finished_at error_code now) (db_jobs db)) (\<lambda>(jobs, updated).
         rbind (ensure (updated = 1) JobConflict) (\<lambda>_.
         rbind (sql_update JobUnavailable check_attempt (\<lambda>a. ja_job_id a = jr_job_id current \<and> ja_attempt a = jr_attempt current
               \<and> ja_lease_generation a = jl_lease_generation lease \<and> ja_finished_at a = None)
             (finish_attempt status available_at handler_outcome error_code now) (db_attempts db)) (\<lambda>(attempts, attempt_updated).
         rbind (ensure (attempt_updated = 1) JobCorrupt) (\<lambda>_.
         let db' = \<lparr>db_jobs = jobs, db_attempts = attempts\<rparr> in
         rbind (ok_or JobUnavailable (find_job db' (jr_job_id current))) (\<lambda>r.
         rbind (record_row E canonical r) (\<lambda>job.
         Ok (db', Applied job))))))))))))"

definition complete_job :: "env \<Rightarrow> (byte list \<Rightarrow> bool) \<Rightarrow> JobDb \<Rightarrow> JobLease \<Rightarrow> JobHandlerOutcome \<Rightarrow> millis
    \<Rightarrow> JobDb \<times> (JobRepositoryError, CompletionResult) outcome" where
  "complete_job E canonical db lease result now =
     (if validate_outcome result \<noteq> Ok () \<or> now < 0 then (db, Err JobCorrupt)
      else transaction (complete_in E canonical lease result now) db)"

section \<open>Cancel\<close>

text \<open>
  \<^verbatim>\<open>cancel_job\<close> is not one transaction: other calls may come between its read of the status and
  its update. \<open>cancel_write\<close> is the second part, for the status that was read.
\<close>

definition cancel_write :: "JobDb \<Rightarrow> string \<Rightarrow> JobStatus \<Rightarrow> millis \<Rightarrow> JobDb \<times> (JobRepositoryError, CancellationResult) outcome" where
  "cancel_write db job_id status now =
     (if is_terminal status then (db, Ok AlreadyTerminal)
      else if status = Queued then transaction (\<lambda>db.
        rbind (sql_update JobUnavailable check_job (\<lambda>r. jr_job_id r = job_id \<and> jr_status r = Queued)
            (\<lambda>r. r\<lparr>jr_status := JobCancelled, jr_cancellation_requested_at := Some now, jr_updated_at := now,
               jr_finished_at := Some now\<rparr>) (db_jobs db)) (\<lambda>(jobs, updated).
        rbind (ensure (updated = 1) JobConflict) (\<lambda>_.
        Ok (db\<lparr>db_jobs := jobs\<rparr>, Cancelled)))) db
      else transaction (\<lambda>db.
        rbind (sql_update JobUnavailable check_job (\<lambda>r. jr_job_id r = job_id \<and> jr_status r = Leased)
            (\<lambda>r. r\<lparr>jr_cancellation_requested_at := (case jr_cancellation_requested_at r of None \<Rightarrow> Some now | Some t \<Rightarrow> Some t),
               jr_updated_at := now\<rparr>) (db_jobs db)) (\<lambda>(jobs, updated).
        rbind (ensure (updated = 1) JobConflict) (\<lambda>_.
        Ok (db\<lparr>db_jobs := jobs\<rparr>, Requested)))) db)"

definition cancel_job :: "JobDb \<Rightarrow> string \<Rightarrow> millis \<Rightarrow> JobDb \<times> (JobRepositoryError, CancellationResult) outcome" where
  "cancel_job db job_id now =
     (if validate_id job_id \<noteq> Ok () \<or> now < 0 then (db, Err JobCorrupt)
      else case find_job db job_id of
          None \<Rightarrow> (db, Err JobNotFound)
        | Some r \<Rightarrow> cancel_write db job_id (jr_status r) now)"

section \<open>The worker\<close>

text \<open>
  \<^verbatim>\<open>JobWorker\<close> works through the trait \<^verbatim>\<open>JobRepository\<close>, here the two functions it calls on a state
  \<open>'s\<close>. While its handler runs other callers change the state, by \<open>others\<close>; the two times are what the
  injected clock returns.
\<close>

datatype WorkerStep = Idle | Completed string CompletionResult

record JobWorker =
  jw_worker_id :: string
  jw_lease_duration_ms :: int
  jw_kind :: string
  jw_handle :: "JobLease \<Rightarrow> JobHandlerOutcome"

definition worker_request :: "JobWorker \<Rightarrow> millis \<Rightarrow> ClaimJobs" where
  "worker_request w now = \<lparr>cj_worker_id = jw_worker_id w, cj_kinds = {jw_kind w}, cj_now = now,
     cj_lease_duration_ms = jw_lease_duration_ms w\<rparr>"

definition JobWorker_new :: "JobWorker \<Rightarrow> millis \<Rightarrow> (JobError, JobWorker) outcome" where
  "JobWorker_new w now = rbind (validate_claim (worker_request w now)) (\<lambda>_. Ok w)"

definition worker_outcome :: "JobWorker \<Rightarrow> JobLease \<Rightarrow> JobHandlerOutcome" where
  "worker_outcome w lease =
     (if jr_cancellation_requested_at (jl_job lease) \<noteq> None then OutCancelled else jw_handle w lease)"

definition run_once ::
  "('s \<Rightarrow> ClaimJobs \<Rightarrow> 's \<times> ('e, JobLease option) outcome)
     \<Rightarrow> ('s \<Rightarrow> JobLease \<Rightarrow> JobHandlerOutcome \<Rightarrow> millis \<Rightarrow> 's \<times> ('e, CompletionResult) outcome)
     \<Rightarrow> JobWorker \<Rightarrow> millis \<Rightarrow> ('s \<Rightarrow> 's) \<Rightarrow> millis \<Rightarrow> 's \<Rightarrow> 's \<times> ('e, WorkerStep) outcome" where
  "run_once claim complete w claimed_at others completed_at s =
     (case claim s (worker_request w claimed_at) of
        (s1, Ok None) \<Rightarrow> (s1, Ok Idle)
      | (s1, Ok (Some lease)) \<Rightarrow>
          (case complete (others s1) lease (worker_outcome w lease) completed_at of
             (s2, r) \<Rightarrow> (s2, rbind r (\<lambda>result. Ok (Completed (jr_job_id (jl_job lease)) result))))
      | (s1, Err e) \<Rightarrow> (s1, Err e)
      | (s1, Panic) \<Rightarrow> (s1, Panic)
      | (s1, Diverge) \<Rightarrow> (s1, Diverge))"

end
