(* ===== verification/JobInv.thy ===== *)
theory JobInv
  imports Jobs
begin

text \<open>
  The invariant of the job tables and its preservation by every call, in any interleaving.
\<close>

section \<open>Steps\<close>

text \<open>
  One step is one transaction of any caller. A cancellation may act on a status that is no longer
  current.
\<close>

inductive job_step :: "env \<Rightarrow> (byte list \<Rightarrow> bool) \<Rightarrow> JobDb \<Rightarrow> JobDb \<Rightarrow> bool" for E canonical where
  step_enqueue: "job_step E canonical db (fst (enqueue_job E canonical db job now))"
| step_claim: "job_step E canonical db (fst (claim_job E canonical db request))"
| step_renew: "job_step E canonical db (fst (renew_job db lease now duration))"
| step_complete: "job_step E canonical db (fst (complete_job E canonical db lease result now))"
| step_cancel: "job_step E canonical db (fst (cancel_write db job_id status now))"

definition empty_db :: JobDb where
  "empty_db = \<lparr>db_jobs = [], db_attempts = []\<rparr>"

abbreviation job_reachable :: "env \<Rightarrow> (byte list \<Rightarrow> bool) \<Rightarrow> JobDb \<Rightarrow> bool" where
  "job_reachable E canonical \<equiv> (job_step E canonical)\<^sup>*\<^sup>* empty_db"

section \<open>Invariant\<close>

definition row_ok :: "env \<Rightarrow> (byte list \<Rightarrow> bool) \<Rightarrow> JobRow \<Rightarrow> bool" where
  "row_ok E canonical r \<longleftrightarrow> check_job r \<and> validate_new_job canonical (row_input r) = Ok ()
     \<and> jr_payload_sha256 r = hex_lower (env_sha256 E (jr_payload_json r)) \<and> jr_lease_generation r = jr_attempt r"

definition jobs_ok :: "env \<Rightarrow> (byte list \<Rightarrow> bool) \<Rightarrow> JobRow list \<Rightarrow> bool" where
  "jobs_ok E canonical J \<longleftrightarrow> distinct (map jr_job_id J)
     \<and> distinct (map (\<lambda>r. (jr_kind r, jr_deduplication_key r)) J) \<and> (\<forall>r \<in> set J. row_ok E canonical r)"

definition attempts_ok :: "AttemptRow list \<Rightarrow> bool" where
  "attempts_ok A \<longleftrightarrow> distinct (map (\<lambda>a. (ja_job_id a, ja_attempt a)) A)
     \<and> (\<forall>a \<in> set A. check_attempt a \<and> ja_lease_generation a = ja_attempt a)"

text \<open>An open attempt is the current lease of its job.\<close>

definition lease_of :: "AttemptRow \<Rightarrow> JobRow \<Rightarrow> bool" where
  "lease_of a r \<longleftrightarrow> jr_job_id r = ja_job_id a \<and> jr_status r = Leased \<and> jr_attempt r = ja_attempt a
     \<and> jr_lease_expires_at r = Some (ja_lease_expires_at a) \<and> jr_owner r = Some (ja_worker_id a)"

definition linked :: "JobRow list \<Rightarrow> AttemptRow list \<Rightarrow> bool" where
  "linked J A \<longleftrightarrow> (\<forall>a \<in> set A. \<exists>r \<in> set J. jr_job_id r = ja_job_id a \<and> ja_attempt a \<le> jr_attempt r)
     \<and> (\<forall>r \<in> set J. \<forall>k. 0 < k \<and> k \<le> jr_attempt r \<longrightarrow> (\<exists>a \<in> set A. ja_job_id a = jr_job_id r \<and> ja_attempt a = k))
     \<and> (\<forall>a \<in> set A. ja_finished_at a = None \<longrightarrow> (\<exists>r \<in> set J. lease_of a r))"

definition db_inv :: "env \<Rightarrow> (byte list \<Rightarrow> bool) \<Rightarrow> JobDb \<Rightarrow> bool" where
  "db_inv E canonical db \<longleftrightarrow> jobs_ok E canonical (db_jobs db) \<and> attempts_ok (db_attempts db)
     \<and> linked (db_jobs db) (db_attempts db)"

section \<open>Updates\<close>

text \<open>What an update leaves of a row's immutable input.\<close>

definition keeps_input :: "(JobRow \<Rightarrow> JobRow) \<Rightarrow> bool" where
  "keeps_input f \<longleftrightarrow> (\<forall>r. \<exists>t. row_input (f r) = (row_input r)\<lparr>nj_available_at := t\<rparr>) \<and> (\<forall>r. jr_payload_sha256 (f r) = jr_payload_sha256 r)"

lemma validate_available:
  "validate_new_job canonical j = Ok () \<Longrightarrow> 0 \<le> t \<Longrightarrow> validate_new_job canonical (j\<lparr>nj_available_at := t\<rparr>) = Ok ()"
  by (auto simp: validate_new_job_def split: if_splits)

lemma row_input_simps [simp]:
  "nj_available_at (row_input r) = jr_available_at r" "nj_payload_json (row_input r) = jr_payload_json r"
  "nj_job_id (row_input r) = jr_job_id r" "nj_kind (row_input r) = jr_kind r"
  "nj_deduplication_key (row_input r) = jr_deduplication_key r"
  by (simp_all add: row_input_def)

lemma keeps_inputD:
  assumes "keeps_input f"
  shows "row_input (f r) = (row_input r)\<lparr>nj_available_at := jr_available_at (f r)\<rparr>"
    "jr_job_id (f r) = jr_job_id r" "jr_kind (f r) = jr_kind r" "jr_deduplication_key (f r) = jr_deduplication_key r"
    "jr_payload_json (f r) = jr_payload_json r" "jr_payload_sha256 (f r) = jr_payload_sha256 r"
proof -
  obtain t where t: "row_input (f r) = (row_input r)\<lparr>nj_available_at := t\<rparr>" "jr_payload_sha256 (f r) = jr_payload_sha256 r"
    using assms by (auto simp: keeps_input_def)
  have "jr_available_at (f r) = t" using arg_cong[OF t(1), of nj_available_at] by simp
  then show "row_input (f r) = (row_input r)\<lparr>nj_available_at := jr_available_at (f r)\<rparr>" using t(1) by simp
  show "jr_job_id (f r) = jr_job_id r" using arg_cong[OF t(1), of nj_job_id] by simp
  show "jr_kind (f r) = jr_kind r" using arg_cong[OF t(1), of nj_kind] by simp
  show "jr_deduplication_key (f r) = jr_deduplication_key r" using arg_cong[OF t(1), of nj_deduplication_key] by simp
  show "jr_payload_json (f r) = jr_payload_json r" using arg_cong[OF t(1), of nj_payload_json] by simp
  show "jr_payload_sha256 (f r) = jr_payload_sha256 r" by (rule t(2))
qed

lemma jobs_ok_update:
  assumes "jobs_ok E canonical J" "keeps_input f" "\<forall>r \<in> set J. P r \<longrightarrow> check_job (f r)"
    "\<And>r. r \<in> set J \<Longrightarrow> P r \<Longrightarrow> jr_lease_generation r = jr_attempt r \<Longrightarrow> jr_lease_generation (f r) = jr_attempt (f r)"
  shows "jobs_ok E canonical (upd P f J)"
proof -
  note k = keeps_inputD[OF assms(2)]
  have "row_ok E canonical (f r)" if r: "r \<in> set J" "P r" for r
  proof -
    have ok: "row_ok E canonical r" "check_job (f r)" using assms(1,3) r by (auto simp: jobs_ok_def)
    have "validate_new_job canonical (row_input (f r)) = Ok ()"
      unfolding k(1) by (rule validate_available) (use ok in \<open>auto simp: row_ok_def check_job_def\<close>)
    then show ?thesis using ok assms(4)[OF r] by (simp add: row_ok_def k)
  qed
  then show ?thesis using assms(1) by (auto simp: jobs_ok_def k comp_def if_distrib cong: if_cong)
qed

lemma find_job_Some: "find_job db i = Some r \<Longrightarrow> r \<in> set (db_jobs db) \<and> jr_job_id r = i"
  by (auto simp: find_job_def find_Some_iff)

lemma find_job_unique:
  assumes "distinct (map jr_job_id (db_jobs db))" "r \<in> set (db_jobs db)"
  shows "find_job db (jr_job_id r) = Some r"
proof -
  have "find_job db (jr_job_id r) \<noteq> None" using assms(2) by (auto simp: find_job_def find_None_iff)
  then obtain r' where "find_job db (jr_job_id r) = Some r'" by blast
  then show ?thesis using find_job_Some unique_key[OF assms(1)] assms(2) by metis
qed

text \<open>Every row of a valid table decodes.\<close>

lemma record_row_Ok:
  assumes "row_ok E canonical r"
  shows "record_row E canonical r = Ok (JobRecord.truncate r)"
  using assms
  by (auto simp: record_row_def row_ok_def check_job_def job_payload_sha256_def lease_inverted_def null_or_def
      split: option.splits)

section \<open>Preservation\<close>

lemma enqueue_inv:
  assumes "db_inv E canonical db"
  shows "db_inv E canonical (fst (enqueue_job E canonical db job now))"
proof (cases "fst (enqueue_job E canonical db job now) = db")
  case False
  define row where "row = new_row job (hex_lower (env_sha256 E (nj_payload_json job))) now"
  have f: "fst (enqueue_job E canonical db job now) = db\<lparr>db_jobs := db_jobs db @ [row]\<rparr>"
    "validate_new_job canonical job = Ok ()" "check_job row" "\<not> unique_violation db job"
    using False by (auto simp: enqueue_job_def job_payload_sha256_def row_def Let_def split: if_splits)
  have row: "row_input row = job" "jr_job_id row = nj_job_id job" "jr_kind row = nj_kind job" "jr_attempt row = 0"
    "jr_deduplication_key row = nj_deduplication_key job"
    by (simp_all add: row_def new_row_def row_input_def)
  have "row_ok E canonical row" using f(2,3) row(1) by (simp add: row_ok_def) (simp add: row_def new_row_def)
  moreover have "nj_job_id job \<notin> jr_job_id ` set (db_jobs db)"
    "(nj_kind job, nj_deduplication_key job) \<notin> (\<lambda>r. (jr_kind r, jr_deduplication_key r)) ` set (db_jobs db)"
    using f(4) by (auto simp: unique_violation_def list_ex_iff)
  ultimately have "jobs_ok E canonical (db_jobs db @ [row])"
    using assms row(2,3,5) by (simp add: db_inv_def jobs_ok_def)
  moreover have "linked (db_jobs db @ [row]) (db_attempts db)"
    using assms row(4) by (auto simp: db_inv_def linked_def)
  ultimately show ?thesis using assms by (simp add: f(1) db_inv_def)
qed (use assms in simp)

lemma transaction_inv:
  assumes "db_inv E canonical db" "\<And>db' x. f db = Ok (db', x) \<Longrightarrow> db_inv E canonical db'"
  shows "db_inv E canonical (fst (transaction f db))"
  using assms by (cases "f db") (auto simp: transaction_def)

text \<open>Closing attempts keeps their keys.\<close>

lemma attempts_ok_update:
  assumes "attempts_ok A" "\<forall>a \<in> set A. P a \<longrightarrow> check_attempt (f a)"
    "\<And>a. ja_job_id (f a) = ja_job_id a \<and> ja_attempt (f a) = ja_attempt a \<and> ja_lease_generation (f a) = ja_lease_generation a"
  shows "attempts_ok (upd P f A)"
  using assms by (auto simp: attempts_ok_def comp_def if_distrib cong: if_cong)

lemma linkedD:
  assumes "linked J A"
  shows "a \<in> set A \<Longrightarrow> \<exists>r \<in> set J. jr_job_id r = ja_job_id a \<and> ja_attempt a \<le> jr_attempt r"
    "r \<in> set J \<Longrightarrow> 0 < k \<Longrightarrow> k \<le> jr_attempt r \<Longrightarrow> \<exists>a \<in> set A. ja_job_id a = jr_job_id r \<and> ja_attempt a = k"
    "a \<in> set A \<Longrightarrow> ja_finished_at a = None \<Longrightarrow> \<exists>r \<in> set J. lease_of a r"
  using assms unfolding linked_def by blast+

lemma linkedI:
  assumes "\<And>a. a \<in> set A \<Longrightarrow> \<exists>r \<in> set J. jr_job_id r = ja_job_id a \<and> ja_attempt a \<le> jr_attempt r"
    "\<And>r k. r \<in> set J \<Longrightarrow> 0 < k \<Longrightarrow> k \<le> jr_attempt r \<Longrightarrow> \<exists>a \<in> set A. ja_job_id a = jr_job_id r \<and> ja_attempt a = k"
    "\<And>a. a \<in> set A \<Longrightarrow> ja_finished_at a = None \<Longrightarrow> \<exists>r \<in> set J. lease_of a r"
  shows "linked J A"
  using assms unfolding linked_def by blast

lemma linked_update:
  assumes l: "linked J A"
    and f: "\<And>r. jr_job_id (f r) = jr_job_id r \<and> jr_attempt (f r) = jr_attempt r"
    and g: "\<And>a. ja_job_id (g a) = ja_job_id a \<and> ja_attempt (g a) = ja_attempt a"
    and lease: "\<And>a r. a \<in> set A \<Longrightarrow> r \<in> set J \<Longrightarrow> lease_of a r \<Longrightarrow> ja_finished_at a = None
       \<Longrightarrow> ja_finished_at (if Q a then g a else a) = None \<Longrightarrow> lease_of (if Q a then g a else a) (if P r then f r else r)"
    and opened: "\<And>a. a \<in> set A \<Longrightarrow> ja_finished_at a \<noteq> None \<Longrightarrow> Q a \<Longrightarrow> ja_finished_at (g a) \<noteq> None"
  shows "linked (upd P f J) (upd Q g A)"
  unfolding linked_def
proof (intro conjI ballI allI impI)
  have fr: "jr_job_id (if P r then f r else r) = jr_job_id r" "jr_attempt (if P r then f r else r) = jr_attempt r" for r
    using f by auto
  have ga: "ja_job_id (if Q a then g a else a) = ja_job_id a" "ja_attempt (if Q a then g a else a) = ja_attempt a" for a
    using g by auto
  fix b assume "b \<in> set (upd Q g A)"
  then obtain a where a: "a \<in> set A" "b = (if Q a then g a else a)" by auto
  then obtain r where "r \<in> set J" "jr_job_id r = ja_job_id a" "ja_attempt a \<le> jr_attempt r" using l by (auto simp: linked_def)
  then show "\<exists>r \<in> set (upd P f J). jr_job_id r = ja_job_id b \<and> ja_attempt b \<le> jr_attempt r"
    using a(2) fr ga by (intro bexI[of _ "if P r then f r else r"]) auto
next
  have ga: "ja_job_id (if Q a then g a else a) = ja_job_id a" "ja_attempt (if Q a then g a else a) = ja_attempt a" for a
    using g by auto
  fix r' k assume r': "r' \<in> set (upd P f J)" "0 < k \<and> k \<le> jr_attempt r'"
  then obtain r where r: "r \<in> set J" "jr_job_id r' = jr_job_id r" "jr_attempt r' = jr_attempt r" using f by auto
  then obtain a where "a \<in> set A" "ja_job_id a = jr_job_id r" "ja_attempt a = k" using linkedD(2)[OF l r(1), of k] r' by auto
  then show "\<exists>a \<in> set (upd Q g A). ja_job_id a = jr_job_id r' \<and> ja_attempt a = k"
    using r(2) ga by (intro bexI[of _ "if Q a then g a else a"]) auto
next
  fix b assume b: "b \<in> set (upd Q g A)" "ja_finished_at b = None"
  then obtain a where a: "a \<in> set A" "b = (if Q a then g a else a)" by auto
  then have fin: "ja_finished_at a = None" using b(2) opened[OF a(1)] by (metis)
  then obtain r where "r \<in> set J" "lease_of a r" using a l by (auto simp: linked_def)
  then show "\<exists>r \<in> set (upd P f J). lease_of b r"
    using lease[of a r] a b(2) fin by (intro bexI[of _ "if P r then f r else r"]) auto
qed

lemma cancel_inv:
  assumes "db_inv E canonical db"
  shows "db_inv E canonical (fst (cancel_write db job_id status now))"
proof -
  have inv: "jobs_ok E canonical (db_jobs db)" "attempts_ok (db_attempts db)" "linked (db_jobs db) (db_attempts db)"
    using assms by (simp_all add: db_inv_def)
  define f where "f = (\<lambda>r :: JobRow. r\<lparr>jr_status := JobCancelled, jr_cancellation_requested_at := Some now, jr_updated_at := now,
    jr_finished_at := Some now\<rparr>)"
  define g where "g = (\<lambda>r :: JobRow. r\<lparr>jr_cancellation_requested_at := (case jr_cancellation_requested_at r of None \<Rightarrow> Some now | Some t \<Rightarrow> Some t),
    jr_updated_at := now\<rparr>)"
  have kf: "keeps_input f" "keeps_input g"
    by (auto simp: keeps_input_def f_def g_def row_input_def)
  have "db_inv E canonical (db\<lparr>db_jobs := upd (\<lambda>r. jr_job_id r = job_id \<and> jr_status r = Queued) f (db_jobs db)\<rparr>)"
    if "\<forall>r \<in> set (db_jobs db). jr_job_id r = job_id \<and> jr_status r = Queued \<longrightarrow> check_job (f r)"
  proof -
    have "jobs_ok E canonical (upd (\<lambda>r. jr_job_id r = job_id \<and> jr_status r = Queued) f (db_jobs db))"
      by (rule jobs_ok_update[OF inv(1) kf(1) that]) (simp add: f_def)
    moreover have "linked (upd (\<lambda>r. jr_job_id r = job_id \<and> jr_status r = Queued) f (db_jobs db)) (upd (\<lambda>_. False) id (db_attempts db))"
      by (rule linked_update[OF inv(3)]) (auto simp: f_def lease_of_def)
    ultimately show ?thesis using inv by (simp add: db_inv_def)
  qed
  moreover have "db_inv E canonical (db\<lparr>db_jobs := upd (\<lambda>r. jr_job_id r = job_id \<and> jr_status r = Leased) g (db_jobs db)\<rparr>)"
    if "\<forall>r \<in> set (db_jobs db). jr_job_id r = job_id \<and> jr_status r = Leased \<longrightarrow> check_job (g r)"
  proof -
    have "jobs_ok E canonical (upd (\<lambda>r. jr_job_id r = job_id \<and> jr_status r = Leased) g (db_jobs db))"
      by (rule jobs_ok_update[OF inv(1) kf(2) that]) (simp add: g_def)
    moreover have "linked (upd (\<lambda>r. jr_job_id r = job_id \<and> jr_status r = Leased) g (db_jobs db)) (upd (\<lambda>_. False) id (db_attempts db))"
      by (rule linked_update[OF inv(3)]) (auto simp: g_def lease_of_def)
    ultimately show ?thesis using inv by (simp add: db_inv_def)
  qed
  ultimately show ?thesis
    using assms unfolding cancel_write_def f_def[symmetric] g_def[symmetric]
    by (auto simp: sql_update_Ok rbind_Ok_iff intro!: transaction_inv split: if_splits prod.splits)
qed

text \<open>Recovery closes every expired attempt; a job that may not be retried ends.\<close>

lemma recover_expired_Ok:
  assumes "recover_expired db now = Ok db1"
  shows "db1 = \<lparr>db_jobs = upd (given_up now) (recovered_row now) (db_jobs db),
      db_attempts = upd (\<lambda>a. ja_finished_at a = None \<and> ja_lease_expires_at a \<le> now) (abandon db now) (db_attempts db)\<rparr>"
    "\<forall>r \<in> set (db_jobs db). given_up now r \<longrightarrow> check_job (recovered_row now r)"
    "\<forall>a \<in> set (db_attempts db). ja_finished_at a = None \<and> ja_lease_expires_at a \<le> now \<longrightarrow> check_attempt (abandon db now a)"
  using assms
  by (auto simp: recover_expired_def sql_update_Ok elim!: rbind_OkE)

lemma abandon_simps [simp]:
  "ja_job_id (abandon db now a) = ja_job_id a" "ja_attempt (abandon db now a) = ja_attempt a"
  "ja_lease_generation (abandon db now a) = ja_lease_generation a" "ja_finished_at (abandon db now a) = Some now"
  "ja_handler_outcome (abandon db now a) = Some ''abandoned''" "ja_worker_id (abandon db now a) = ja_worker_id a"
  "ja_lease_expires_at (abandon db now a) = ja_lease_expires_at a"
  by (simp_all add: abandon_def Let_def)

lemma recover_inv:
  assumes "db_inv E canonical db" "recover_expired db now = Ok db1"
  shows "db_inv E canonical db1"
    "\<forall>a \<in> set (db_attempts db1). ja_finished_at a = None \<longrightarrow> now < ja_lease_expires_at a"
proof -
  note r = recover_expired_Ok[OF assms(2)]
  have inv: "jobs_ok E canonical (db_jobs db)" "attempts_ok (db_attempts db)" "linked (db_jobs db) (db_attempts db)"
    using assms by (simp_all add: db_inv_def)
  have k: "keeps_input (recovered_row now)" by (auto simp: keeps_input_def recovered_row_def row_input_def)
  have "jobs_ok E canonical (upd (given_up now) (recovered_row now) (db_jobs db))"
    by (rule jobs_ok_update[OF inv(1) k r(2)]) (simp add: recovered_row_def)
  moreover have "attempts_ok (upd (\<lambda>a. ja_finished_at a = None \<and> ja_lease_expires_at a \<le> now) (abandon db now) (db_attempts db))"
    by (rule attempts_ok_update[OF inv(2) r(3)]) simp
  moreover have "linked (upd (given_up now) (recovered_row now) (db_jobs db))
      (upd (\<lambda>a. ja_finished_at a = None \<and> ja_lease_expires_at a \<le> now) (abandon db now) (db_attempts db))"
    by (rule linked_update[OF inv(3)]) (auto simp: lease_of_def given_up_def expired_by_def recovered_row_def)
  ultimately show "db_inv E canonical db1" by (simp add: db_inv_def r(1))
  show "\<forall>a \<in> set (db_attempts db1). ja_finished_at a = None \<longrightarrow> now < ja_lease_expires_at a"
    by (auto simp: r(1) not_le)
qed

lemma next_claim_Some:
  assumes "next_claim request db = Some i"
  shows "\<exists>r \<in> set (db_jobs db). jr_job_id r = i \<and> claimable request r
    \<and> (\<forall>r' \<in> set (db_jobs db). claimable request r' \<longrightarrow> claim_order r \<le> claim_order r')"
proof -
  let ?s = "sort_key claim_order (filter (claimable request) (db_jobs db))"
  obtain r rs where s: "?s = r # rs" "i = jr_job_id r" using assms by (auto simp: next_claim_def split: list.splits)
  have m: "set (r # rs) = set (filter (claimable request) (db_jobs db))" using arg_cong[OF s(1), of set] by simp
  have "sorted (map claim_order (r # rs))" using sorted_sort_key[of claim_order "filter (claimable request) (db_jobs db)"] s(1) by simp
  then have "\<forall>r' \<in> set (r # rs). claim_order r \<le> claim_order r'" by auto
  then show ?thesis using m s(2) by (intro bexI[of _ r]) auto
qed

lemma lease_row_simps [simp]:
  "jr_job_id (lease_row request e r) = jr_job_id r" "jr_attempt (lease_row request e r) = Suc (jr_attempt r)"
  "jr_lease_generation (lease_row request e r) = Suc (jr_lease_generation r)" "jr_status (lease_row request e r) = Leased"
  "jr_owner (lease_row request e r) = Some (cj_worker_id request)" "jr_lease_expires_at (lease_row request e r) = Some e"
  "jr_cancellation_requested_at (lease_row request e r) = jr_cancellation_requested_at r"
  by (simp_all add: lease_row_def)

lemma truncate_simps [simp]:
  "jr_job_id (JobRecord.truncate r) = jr_job_id r" "jr_attempt (JobRecord.truncate r) = jr_attempt r"
  "jr_lease_generation (JobRecord.truncate r) = jr_lease_generation r" "jr_status (JobRecord.truncate r) = jr_status r"
  "jr_cancellation_requested_at (JobRecord.truncate r) = jr_cancellation_requested_at r"
  "jr_available_at (JobRecord.truncate r) = jr_available_at r" "jr_max_attempts (JobRecord.truncate r) = jr_max_attempts r"
  by (simp_all add: JobRecord.defs)

text \<open>What a successful claim does.\<close>

lemma claim_in_Some:
  assumes "db_inv E canonical db" "claim_in E canonical request expires_at db = Ok (db3, Some lease)"
  shows "\<exists>db1 r. recover_expired db (cj_now request) = Ok db1 \<and> r \<in> set (db_jobs db1) \<and> claimable request r
    \<and> (\<forall>r' \<in> set (db_jobs db1). claimable request r' \<longrightarrow> claim_order r \<le> claim_order r')
    \<and> check_job (lease_row request expires_at r)
    \<and> check_attempt (new_attempt (jl_job lease) request expires_at)
    \<and> \<not> list_ex (\<lambda>b. ja_job_id b = jr_job_id r \<and> ja_attempt b = jr_attempt r + 1) (db_attempts db1)
    \<and> db3 = \<lparr>db_jobs = upd (\<lambda>r'. jr_job_id r' = jr_job_id r) (lease_row request expires_at) (db_jobs db1),
        db_attempts = db_attempts db1 @ [new_attempt (jl_job lease) request expires_at]\<rparr>
    \<and> jl_job lease = JobRecord.truncate (lease_row request expires_at r)
    \<and> jl_worker_id lease = cj_worker_id request \<and> jl_lease_generation lease = jr_lease_generation r + 1
    \<and> jl_leased_at lease = cj_now request \<and> jl_lease_expires_at lease = expires_at"
proof -
  obtain db1 job_id where d: "recover_expired db (cj_now request) = Ok db1" "next_claim request db1 = Some job_id"
    using assms(2) by (auto simp: claim_in_def elim!: rbind_OkE split: option.splits)
  have inv1: "db_inv E canonical db1" by (rule recover_inv(1)[OF assms(1) d(1)])
  from next_claim_Some[OF d(2)] obtain r where r: "r \<in> set (db_jobs db1)" "jr_job_id r = job_id" "claimable request r"
    "\<forall>r' \<in> set (db_jobs db1). claimable request r' \<longrightarrow> claim_order r \<le> claim_order r'" by blast
  have dist: "distinct (map jr_job_id (db_jobs db1))" using inv1 by (simp add: db_inv_def jobs_ok_def)
  let ?J = "upd (\<lambda>r'. jr_job_id r' = job_id) (lease_row request expires_at) (db_jobs db1)"
  have chk: "\<forall>r' \<in> set (db_jobs db1). jr_job_id r' = job_id \<longrightarrow> check_job (lease_row request expires_at r')"
    using assms(2) by (auto simp: claim_in_def d sql_update_Ok elim!: rbind_OkE)
  have fj: "find_job (db1\<lparr>db_jobs := ?J\<rparr>) job_id = Some (lease_row request expires_at r)"
  proof -
    have "map jr_job_id ?J = map jr_job_id (db_jobs db1)" by simp
    then have "distinct (map jr_job_id ?J)" using dist by presburger
    moreover have "lease_row request expires_at r \<in> set ?J" using r(1,2) by force
    ultimately show ?thesis
      using find_job_unique[of "db1\<lparr>db_jobs := ?J\<rparr>" "lease_row request expires_at r"] r(2) by simp
  qed
  have rec: "record_row E canonical (lease_row request expires_at r) = Ok (jl_job lease)"
    "insert_attempt (db1\<lparr>db_jobs := ?J\<rparr>) (new_attempt (jl_job lease) request expires_at) = Ok db3"
    "jl_worker_id lease = cj_worker_id request" "jl_lease_generation lease = jr_lease_generation r + 1"
    "jl_leased_at lease = cj_now request" "jl_lease_expires_at lease = expires_at"
    using assms(2) by (auto simp: claim_in_def d sql_update_Ok Let_def fj elim!: rbind_OkE)
  have job: "jl_job lease = JobRecord.truncate (lease_row request expires_at r)"
    using rec(1) by (auto simp: record_row_def split: if_splits)
  have "jr_job_id (jl_job lease) = job_id" "jr_attempt (jl_job lease) = jr_attempt r + 1"
    using r(2) by (simp_all add: job)
  then show ?thesis
    using d(1) r chk rec job
    by (intro exI[of _ db1] exI[of _ r]) (auto simp: insert_attempt_def new_attempt_def list_ex_iff split: if_splits)
qed

lemma new_attempt_simps [simp]:
  "ja_job_id (new_attempt j request e) = jr_job_id j" "ja_attempt (new_attempt j request e) = jr_attempt j"
  "ja_lease_generation (new_attempt j request e) = jr_lease_generation j" "ja_finished_at (new_attempt j request e) = None"
  "ja_worker_id (new_attempt j request e) = cj_worker_id request" "ja_lease_expires_at (new_attempt j request e) = e"
  by (simp_all add: new_attempt_def)

text \<open>A claimable job has no open attempt once expired attempts are closed.\<close>

lemma claimable_closed:
  assumes "db_inv E canonical db" "\<forall>a \<in> set (db_attempts db). ja_finished_at a = None \<longrightarrow> cj_now request < ja_lease_expires_at a"
    and r: "r \<in> set (db_jobs db)" "claimable request r"
    and a: "a \<in> set (db_attempts db)" "ja_finished_at a = None"
  shows "ja_job_id a \<noteq> jr_job_id r"
proof
  assume same: "ja_job_id a = jr_job_id r"
  have d: "distinct (map jr_job_id (db_jobs db))" "linked (db_jobs db) (db_attempts db)"
    using assms(1) by (simp_all add: db_inv_def jobs_ok_def)
  obtain r0 where "r0 \<in> set (db_jobs db)" "lease_of a r0" using linkedD(3)[OF d(2) a] by blast
  then have "lease_of a r" using unique_key[OF d(1) _ r(1)] same by (metis lease_of_def)
  then show False using r(2) assms(2) a by (auto simp: lease_of_def claimable_def expired_by_def)
qed

lemma claim_linked:
  assumes inv: "db_inv E canonical db" and r: "r \<in> set (db_jobs db)"
    and closed: "\<And>a. a \<in> set (db_attempts db) \<Longrightarrow> ja_finished_at a = None \<Longrightarrow> ja_job_id a \<noteq> jr_job_id r"
    and n: "ja_job_id n = jr_job_id r" "ja_attempt n = Suc (jr_attempt r)" "lease_of n (lease_row request e r)"
  shows "linked (upd (\<lambda>r'. jr_job_id r' = jr_job_id r) (lease_row request e) (db_jobs db)) (db_attempts db @ [n])"
proof -
  let ?J = "db_jobs db" and ?A = "db_attempts db" and ?f = "\<lambda>r'. if jr_job_id r' = jr_job_id r then lease_row request e r' else r'"
  have l: "linked ?J ?A" and d: "distinct (map jr_job_id ?J)" using inv by (simp_all add: db_inv_def jobs_ok_def)
  have fr: "?f r \<in> set (map ?f ?J)" using r by force
  have 1: "\<exists>r' \<in> set (map ?f ?J). jr_job_id r' = ja_job_id a \<and> ja_attempt a \<le> jr_attempt r'" if a: "a \<in> set (?A @ [n])" for a
  proof (cases "a = n")
    case True
    then show ?thesis using fr n(1,2) by (intro bexI[OF _ fr]) simp
  next
    case False
    then obtain r0 where r0: "r0 \<in> set ?J" "jr_job_id r0 = ja_job_id a" "ja_attempt a \<le> jr_attempt r0"
      using linkedD(1)[OF l, of a] a by auto
    then show ?thesis by (intro bexI[of _ "?f r0"]) (auto simp del: set_map simp: set_map[of ?f])
  qed
  have 2: "\<exists>a \<in> set (?A @ [n]). ja_job_id a = jr_job_id r' \<and> ja_attempt a = k"
    if r': "r' \<in> set (map ?f ?J)" and k: "0 < k" "k \<le> jr_attempt r'" for r' k
  proof -
    obtain r0 where r0: "r0 \<in> set ?J" "r' = ?f r0" using r' unfolding set_map by blast
    show ?thesis
    proof (cases "k \<le> jr_attempt r0")
      case True
      then show ?thesis using linkedD(2)[OF l r0(1) k(1)] r0(2) by auto
    next
      case False
      then have "jr_job_id r0 = jr_job_id r" "k = Suc (jr_attempt r0)" using r0(2) k by (auto split: if_splits)
      then show ?thesis using unique_key[OF d r0(1) r] n(1,2) r0(2) by auto
    qed
  qed
  have 3: "\<exists>r' \<in> set (map ?f ?J). lease_of a r'" if a: "a \<in> set (?A @ [n])" "ja_finished_at a = None" for a
  proof (cases "a = n")
    case True
    then show ?thesis using n(3) by (intro bexI[OF _ fr]) simp
  next
    case False
    then have aA: "a \<in> set ?A" using a(1) by simp
    obtain r0 where r0: "r0 \<in> set ?J" "lease_of a r0" using linkedD(3)[OF l aA a(2)] by blast
    then have "?f r0 = r0" using closed[OF aA a(2)] by (simp add: lease_of_def)
    moreover have "?f r0 \<in> set (map ?f ?J)" using r0(1) unfolding set_map by (rule imageI)
    ultimately show ?thesis using r0(2) by (intro bexI[of _ r0]) simp_all
  qed
  show ?thesis by (rule linkedI[OF 1 2 3])
qed

lemma keeps_input_lease: "keeps_input (lease_row request e)"
  by (auto simp: keeps_input_def lease_row_def row_input_def)

lemma claim_inv:
  assumes inv: "db_inv E canonical db"
  shows "db_inv E canonical (fst (claim_job E canonical db request))"
proof -
  have "db_inv E canonical db3" if c: "claim_in E canonical request e db = Ok (db3, x)" for e db3 x
  proof (cases x)
    case None
    then show ?thesis using c recover_inv(1)[OF inv]
      by (auto simp: claim_in_def Let_def elim!: rbind_OkE split: option.splits)
  next
    case (Some lease)
    from claim_in_Some[OF inv c[unfolded Some]] obtain db1 r where
      d: "recover_expired db (cj_now request) = Ok db1" "r \<in> set (db_jobs db1)" "claimable request r"
      "check_job (lease_row request e r)" "check_attempt (new_attempt (jl_job lease) request e)"
      "\<not> list_ex (\<lambda>b. ja_job_id b = jr_job_id r \<and> ja_attempt b = jr_attempt r + 1) (db_attempts db1)"
      "db3 = \<lparr>db_jobs = upd (\<lambda>r'. jr_job_id r' = jr_job_id r) (lease_row request e) (db_jobs db1),
        db_attempts = db_attempts db1 @ [new_attempt (jl_job lease) request e]\<rparr>"
      "jl_job lease = JobRecord.truncate (lease_row request e r)" by blast
    note r1 = recover_inv[OF inv d(1)]
    have ok: "jobs_ok E canonical (db_jobs db1)" "attempts_ok (db_attempts db1)" and gen: "jr_lease_generation r = jr_attempt r"
      using r1(1) d(2) by (auto simp: db_inv_def jobs_ok_def row_ok_def)
    have chk: "\<forall>r' \<in> set (db_jobs db1). jr_job_id r' = jr_job_id r \<longrightarrow> check_job (lease_row request e r')"
      using ok(1) unique_key[OF _ d(2)] d(4) by (metis jobs_ok_def)
    have "jobs_ok E canonical (db_jobs db3)"
      unfolding d(7) JobDb.select_convs by (rule jobs_ok_update[OF ok(1) keeps_input_lease chk]) simp
    moreover have "attempts_ok (db_attempts db3)"
      using ok(2) d(5,6) gen by (auto simp: d(7) d(8) attempts_ok_def list_ex_iff)
    moreover have "linked (db_jobs db3) (db_attempts db3)"
      unfolding d(7) JobDb.select_convs
      by (rule claim_linked[OF r1(1) d(2) claimable_closed[OF r1(1) r1(2) d(2,3)]]) (auto simp: d(8) lease_of_def)
    ultimately show ?thesis by (simp add: db_inv_def)
  qed
  then show ?thesis
    using inv by (auto simp: claim_job_def intro!: transaction_inv split: option.splits)
qed

text \<open>A lease that is renewed or completed is the current one of its job.\<close>

lemma attempt_of_current:
  assumes "attempts_ok A" "a \<in> set A" "b \<in> set A" "ja_job_id a = ja_job_id b" "ja_attempt a = ja_attempt b"
  shows "a = b"
  using assms unique_key[of "\<lambda>a. (ja_job_id a, ja_attempt a)" A a b] by (simp add: attempts_ok_def)

lemma renew_in_Ok:
  assumes "renew_in lease now e db = Ok (db', x)"
  shows "db' = \<lparr>db_jobs = upd (\<lambda>r. holds_lease lease now r \<and> (case jr_lease_expires_at r of None \<Rightarrow> False | Some t \<Rightarrow> t < e))
          (\<lambda>r. r\<lparr>jr_lease_expires_at := Some e, jr_updated_at := now\<rparr>) (db_jobs db),
        db_attempts = upd (\<lambda>a. attempt_of lease a \<and> ja_finished_at a = None) (\<lambda>a. a\<lparr>ja_lease_expires_at := e\<rparr>) (db_attempts db)\<rparr>"
    "\<forall>r \<in> set (db_jobs db). holds_lease lease now r \<and> (case jr_lease_expires_at r of None \<Rightarrow> False | Some t \<Rightarrow> t < e)
       \<longrightarrow> check_job (r\<lparr>jr_lease_expires_at := Some e, jr_updated_at := now\<rparr>)"
    "\<forall>a \<in> set (db_attempts db). attempt_of lease a \<and> ja_finished_at a = None \<longrightarrow> check_attempt (a\<lparr>ja_lease_expires_at := e\<rparr>)"
    "\<exists>r \<in> set (db_jobs db). holds_lease lease now r \<and> (case jr_lease_expires_at r of None \<Rightarrow> False | Some t \<Rightarrow> t < e)"
  using assms
  by (auto simp: renew_in_def sql_update_Ok Let_def filter_eq_Cons_iff length_Suc_conv elim!: rbind_OkE)

lemma renew_inv:
  assumes inv: "db_inv E canonical db"
  shows "db_inv E canonical (fst (renew_job db lease now duration))"
proof -
  have "db_inv E canonical db'" if c: "renew_in lease now e db = Ok (db', x)" for e db' x
  proof -
    note r = renew_in_Ok[OF c]
    have ok: "jobs_ok E canonical (db_jobs db)" "attempts_ok (db_attempts db)" "linked (db_jobs db) (db_attempts db)"
      using inv by (simp_all add: db_inv_def)
    let ?P = "\<lambda>r. holds_lease lease now r \<and> (case jr_lease_expires_at r of None \<Rightarrow> False | Some t \<Rightarrow> t < e)"
    obtain r0 where r0: "r0 \<in> set (db_jobs db)" "?P r0" using r(4) by blast
    have gen: "jr_lease_generation r = jr_attempt r" if "r \<in> set (db_jobs db)" for r
      using ok(1) that by (auto simp: jobs_ok_def row_ok_def)
    have P: "?P q \<longleftrightarrow> q = r0" if "q \<in> set (db_jobs db)" for q
      using unique_key[of jr_job_id "db_jobs db" q r0] ok(1) r0 that by (auto simp: jobs_ok_def holds_lease_def holds_now_def)
    have Q: "attempt_of lease a \<longleftrightarrow> r0 = q" if "a \<in> set (db_attempts db)" "q \<in> set (db_jobs db)" "lease_of a q" for a q
    proof -
      have "ja_lease_generation a = ja_attempt a" using ok(2) that(1) by (simp add: attempts_ok_def)
      then show ?thesis
        using that(3) r0 gen[OF r0(1)] unique_key[of jr_job_id "db_jobs db" q r0] ok(1) that(2)
        by (auto simp: attempt_of_def lease_of_def holds_lease_def holds_now_def jobs_ok_def)
    qed
    have "jobs_ok E canonical (db_jobs db')"
      unfolding r(1) JobDb.select_convs
      by (rule jobs_ok_update[OF ok(1) _ r(2)]) (auto simp: keeps_input_def row_input_def)
    moreover have "attempts_ok (db_attempts db')"
      unfolding r(1) JobDb.select_convs by (rule attempts_ok_update[OF ok(2) r(3)]) simp
    moreover have "linked (db_jobs db') (db_attempts db')"
      unfolding r(1) JobDb.select_convs
    proof (rule linked_update[OF ok(3)])
      fix a q assume a: "a \<in> set (db_attempts db)" "q \<in> set (db_jobs db)" "lease_of a q" "ja_finished_at a = None"
      show "lease_of (if attempt_of lease a \<and> ja_finished_at a = None then a\<lparr>ja_lease_expires_at := e\<rparr> else a)
        (if ?P q then q\<lparr>jr_lease_expires_at := Some e, jr_updated_at := now\<rparr> else q)"
        unfolding P[OF a(2)] Q[OF a(1,2,3)] using a(3,4) by (auto simp: lease_of_def)
    qed auto
    ultimately show ?thesis by (simp add: db_inv_def)
  qed
  then show ?thesis using inv by (auto simp: renew_job_def intro!: transaction_inv split: option.splits)
qed

text \<open>What an applied completion does.\<close>

lemma complete_in_Applied:
  assumes "complete_in E canonical lease result now db = Ok (db', Applied job)"
  shows "\<exists>row status available_at finished_at. find_job db (jr_job_id (jl_job lease)) = Some row
    \<and> record_row E canonical row = Ok (JobRecord.truncate row)
    \<and> existing_completion E canonical db lease result = Ok None
    \<and> validate_active_completion row (JobRecord.truncate row) lease result now = Ok ()
    \<and> completion_transition (JobRecord.truncate row) result now = Ok (status, available_at, finished_at)
    \<and> (\<forall>r \<in> set (db_jobs db). holds_now (jr_job_id row) (jr_attempt row) lease now r \<longrightarrow>
         check_job (finish_row status available_at finished_at (snd (outcome_columns result)) now r))
    \<and> (\<forall>a \<in> set (db_attempts db). ja_job_id a = jr_job_id row \<and> ja_attempt a = jr_attempt row
         \<and> ja_lease_generation a = jl_lease_generation lease \<and> ja_finished_at a = None \<longrightarrow>
         check_attempt (finish_attempt status available_at (fst (outcome_columns result)) (snd (outcome_columns result)) now a))
    \<and> (\<exists>a \<in> set (db_attempts db). ja_job_id a = jr_job_id row \<and> ja_attempt a = jr_attempt row
         \<and> ja_lease_generation a = jl_lease_generation lease \<and> ja_finished_at a = None)
    \<and> db' = \<lparr>db_jobs = upd (holds_now (jr_job_id row) (jr_attempt row) lease now)
           (finish_row status available_at finished_at (snd (outcome_columns result)) now) (db_jobs db),
         db_attempts = upd (\<lambda>a. ja_job_id a = jr_job_id row \<and> ja_attempt a = jr_attempt row
             \<and> ja_lease_generation a = jl_lease_generation lease \<and> ja_finished_at a = None)
           (finish_attempt status available_at (fst (outcome_columns result)) (snd (outcome_columns result)) now) (db_attempts db)\<rparr>"
proof -
  obtain row current status av fin jobs n attempts k r where s: "existing_completion E canonical db lease result = Ok None"
    "find_job db (jr_job_id (jl_job lease)) = Some row" "record_row E canonical row = Ok current"
    "validate_active_completion row current lease result now = Ok ()"
    "completion_transition current result now = Ok (status, av, fin)"
    "sql_update JobUnavailable check_job (holds_now (jr_job_id current) (jr_attempt current) lease now)
       (finish_row status av fin (snd (outcome_columns result)) now) (db_jobs db) = Ok (jobs, n)"
    "sql_update JobUnavailable check_attempt (\<lambda>a. ja_job_id a = jr_job_id current \<and> ja_attempt a = jr_attempt current
         \<and> ja_lease_generation a = jl_lease_generation lease \<and> ja_finished_at a = None)
       (finish_attempt status av (fst (outcome_columns result)) (snd (outcome_columns result)) now) (db_attempts db) = Ok (attempts, k)"
    "k = 1" "db' = \<lparr>db_jobs = jobs, db_attempts = attempts\<rparr>"
    using assms unfolding complete_in_def Let_def
    by (auto elim!: rbind_OkE case_prod_OkE split: option.splits prod.splits)
  have cur: "current = JobRecord.truncate row" using s(3) by (auto simp: record_row_def split: if_splits)
  have "filter (\<lambda>a. ja_job_id a = jr_job_id current \<and> ja_attempt a = jr_attempt current
      \<and> ja_lease_generation a = jl_lease_generation lease \<and> ja_finished_at a = None) (db_attempts db) \<noteq> []"
    using s(7,8) unfolding sql_update_Ok by (metis length_0_conv zero_neq_one)
  then have "\<exists>a \<in> set (db_attempts db). ja_job_id a = jr_job_id row \<and> ja_attempt a = jr_attempt row
      \<and> ja_lease_generation a = jl_lease_generation lease \<and> ja_finished_at a = None"
    by (auto simp: filter_empty_conv cur)
  moreover note s(1,2,4-7,9)[unfolded sql_update_Ok cur truncate_simps] s(3)[unfolded cur]
  ultimately show ?thesis by (intro exI[of _ row] exI[of _ status] exI[of _ av] exI[of _ fin]) simp
qed

lemma complete_in_AlreadyApplied:
  "complete_in E canonical lease result now db = Ok (db', AlreadyApplied job) \<Longrightarrow> db' = db"
  by (auto simp: complete_in_def Let_def elim!: rbind_OkE case_prod_OkE split: option.splits prod.splits)

lemma keeps_input_finish: "keeps_input (finish_row st av fin code now)"
  by (auto simp: keeps_input_def finish_row_def row_input_def)

lemma complete_inv:
  assumes inv: "db_inv E canonical db"
  shows "db_inv E canonical (fst (complete_job E canonical db lease result now))"
proof -
  have "db_inv E canonical db'" if c: "complete_in E canonical lease result now db = Ok (db', Applied job)" for db' job
  proof -
    from complete_in_Applied[OF c] obtain row st av fin where
      r: "find_job db (jr_job_id (jl_job lease)) = Some row"
      "\<forall>r \<in> set (db_jobs db). holds_now (jr_job_id row) (jr_attempt row) lease now r \<longrightarrow>
         check_job (finish_row st av fin (snd (outcome_columns result)) now r)"
      "\<forall>a \<in> set (db_attempts db). ja_job_id a = jr_job_id row \<and> ja_attempt a = jr_attempt row
         \<and> ja_lease_generation a = jl_lease_generation lease \<and> ja_finished_at a = None \<longrightarrow>
         check_attempt (finish_attempt st av (fst (outcome_columns result)) (snd (outcome_columns result)) now a)"
      "db' = \<lparr>db_jobs = upd (holds_now (jr_job_id row) (jr_attempt row) lease now)
           (finish_row st av fin (snd (outcome_columns result)) now) (db_jobs db),
         db_attempts = upd (\<lambda>a. ja_job_id a = jr_job_id row \<and> ja_attempt a = jr_attempt row
             \<and> ja_lease_generation a = jl_lease_generation lease \<and> ja_finished_at a = None)
           (finish_attempt st av (fst (outcome_columns result)) (snd (outcome_columns result)) now) (db_attempts db)\<rparr>" by blast
    have ok: "jobs_ok E canonical (db_jobs db)" "attempts_ok (db_attempts db)" "linked (db_jobs db) (db_attempts db)"
      using inv by (simp_all add: db_inv_def)
    have "jobs_ok E canonical (db_jobs db')"
      unfolding r(4) JobDb.select_convs
      by (rule jobs_ok_update[OF ok(1) keeps_input_finish r(2)]) (simp add: finish_row_def)
    moreover have "attempts_ok (db_attempts db')"
      unfolding r(4) JobDb.select_convs by (rule attempts_ok_update[OF ok(2) r(3)]) (simp add: finish_attempt_def)
    moreover have "linked (db_jobs db') (db_attempts db')"
      unfolding r(4) JobDb.select_convs
    proof (rule linked_update[OF ok(3)])
      let ?Q = "\<lambda>a. ja_job_id a = jr_job_id row \<and> ja_attempt a = jr_attempt row
        \<and> ja_lease_generation a = jl_lease_generation lease \<and> ja_finished_at a = None"
      fix a q assume a: "a \<in> set (db_attempts db)" "q \<in> set (db_jobs db)" "lease_of a q" "ja_finished_at a = None"
        "ja_finished_at (if ?Q a then finish_attempt st av (fst (outcome_columns result)) (snd (outcome_columns result)) now a else a) = None"
      have nQ: "\<not> ?Q a" using a(5) by (auto simp: finish_attempt_def split: if_splits)
      have "jr_lease_generation q = jr_attempt q" "ja_lease_generation a = ja_attempt a"
        using ok(1,2) a(1,2) by (auto simp: jobs_ok_def row_ok_def attempts_ok_def)
      then have "\<not> holds_now (jr_job_id row) (jr_attempt row) lease now q"
        using nQ a(3,4) by (auto simp: holds_now_def lease_of_def)
      then show "lease_of (if ?Q a then finish_attempt st av (fst (outcome_columns result)) (snd (outcome_columns result)) now a else a)
        (if holds_now (jr_job_id row) (jr_attempt row) lease now q then finish_row st av fin (snd (outcome_columns result)) now q else q)"
        using nQ a(3) by auto
    qed (auto simp: finish_row_def finish_attempt_def)
    ultimately show ?thesis by (simp add: db_inv_def)
  qed
  moreover have "db_inv E canonical db'" if "complete_in E canonical lease result now db = Ok (db', AlreadyApplied job)" for db' job
    using complete_in_AlreadyApplied[OF that] inv by simp
  ultimately have "db_inv E canonical db'" if "complete_in E canonical lease result now db = Ok (db', x)" for db' x
    using that by (cases x) auto
  then show ?thesis using inv by (auto simp: complete_job_def intro!: transaction_inv)
qed

lemma job_step_inv: "job_step E canonical db db' \<Longrightarrow> db_inv E canonical db \<Longrightarrow> db_inv E canonical db'"
  by (induction rule: job_step.induct) (auto intro: enqueue_inv claim_inv renew_inv complete_inv cancel_inv)

lemma empty_db_inv: "db_inv E canonical empty_db"
  by (simp add: db_inv_def empty_db_def jobs_ok_def attempts_ok_def linked_def)

lemma job_steps_inv: "(job_step E canonical)\<^sup>*\<^sup>* db db' \<Longrightarrow> db_inv E canonical db \<Longrightarrow> db_inv E canonical db'"
  by (induction rule: rtranclp_induct) (auto intro: job_step_inv)

lemma job_reachable_inv: "job_reachable E canonical db \<Longrightarrow> db_inv E canonical db"
  using job_steps_inv empty_db_inv by blast

section \<open>History\<close>

text \<open>
  What every step keeps: jobs stay with their identity and input, their generation never
  decreases, terminal jobs and closed attempts never change.
\<close>

definition row_after :: "JobRow \<Rightarrow> JobRow \<Rightarrow> bool" where
  "row_after r r' \<longleftrightarrow> row_input r' = (row_input r)\<lparr>nj_available_at := jr_available_at r'\<rparr>
     \<and> jr_lease_generation r \<le> jr_lease_generation r' \<and> jr_created_at r' = jr_created_at r
     \<and> (is_terminal (jr_status r) \<longrightarrow> r' = r)"

definition later :: "JobDb \<Rightarrow> JobDb \<Rightarrow> bool" where
  "later db db' \<longleftrightarrow> (\<forall>r \<in> set (db_jobs db). \<exists>r' \<in> set (db_jobs db'). row_after r r')
     \<and> (\<forall>a \<in> set (db_attempts db). ja_finished_at a \<noteq> None \<longrightarrow> a \<in> set (db_attempts db'))"

lemma row_after_refl [simp]: "row_after r r"
  by (simp add: row_after_def row_input_def)

lemma row_after_trans: "row_after r r' \<Longrightarrow> row_after r' r'' \<Longrightarrow> row_after r r''"
  by (auto simp: row_after_def)

lemma later_refl [simp]: "later db db"
  by (force simp: later_def)

lemma later_trans: "later db db' \<Longrightarrow> later db' db'' \<Longrightarrow> later db db''"
  unfolding later_def by (meson row_after_trans)

lemma later_update:
  assumes "keeps_input f" "\<And>r. r \<in> set (db_jobs db) \<Longrightarrow> P r \<Longrightarrow> \<not> is_terminal (jr_status r)"
    "\<And>r. jr_lease_generation r \<le> jr_lease_generation (f r) \<and> jr_created_at (f r) = jr_created_at r"
    "\<And>a. a \<in> set (db_attempts db) \<Longrightarrow> Q a \<Longrightarrow> ja_finished_at a = None"
  shows "later db \<lparr>db_jobs = upd P f (db_jobs db), db_attempts = upd Q g (db_attempts db) @ ns\<rparr>"
  unfolding later_def JobDb.select_convs
proof (intro conjI ballI impI)
  fix r assume r: "r \<in> set (db_jobs db)"
  have "row_after r (if P r then f r else r)"
    using assms(2)[OF r] assms(3) keeps_inputD(1)[OF assms(1)] by (auto simp: row_after_def)
  then show "\<exists>r' \<in> set (upd P f (db_jobs db)). row_after r r'"
    using r by (intro bexI[of _ "if P r then f r else r"]) auto
next
  fix a assume "a \<in> set (db_attempts db)" "ja_finished_at a \<noteq> None"
  then show "a \<in> set (upd Q g (db_attempts db) @ ns)" using assms(4) by (force intro: rev_image_eqI)
qed

lemma later_jobs:
  assumes "keeps_input f" "\<And>r. r \<in> set (db_jobs db) \<Longrightarrow> P r \<Longrightarrow> \<not> is_terminal (jr_status r)"
    "\<And>r. jr_lease_generation r \<le> jr_lease_generation (f r) \<and> jr_created_at (f r) = jr_created_at r"
  shows "later db (db\<lparr>db_jobs := upd P f (db_jobs db)\<rparr>)"
proof -
  have "later db \<lparr>db_jobs = upd P f (db_jobs db), db_attempts = upd (\<lambda>_. False) id (db_attempts db) @ []\<rparr>"
    by (rule later_update) (use assms in auto)
  then show ?thesis by (cases db) simp
qed

lemma transaction_later: "(\<And>db' x. f db = Ok (db', x) \<Longrightarrow> later db db') \<Longrightarrow> later db (fst (transaction f db))"
  by (cases "f db") (auto simp: transaction_def)

lemma enqueue_later: "later db (fst (enqueue_job E canonical db job now))"
  unfolding enqueue_job_def
  by (auto simp: Let_def later_def intro!: bexI[of _ "_ :: JobRow"] split: outcome.splits)

lemma cancel_later: "later db (fst (cancel_write db job_id status now))"
  unfolding cancel_write_def
  by (auto simp: sql_update_Ok keeps_input_def row_input_def elim!: rbind_OkE case_prod_OkE
      intro!: transaction_later later_jobs)

lemma renew_later: "later db (fst (renew_job db lease now duration))"
proof -
  have "later db db'" if "renew_in lease now e db = Ok (db', x)" for e db' x
    unfolding renew_in_Ok(1)[OF that] using later_update[where ns = "[]"]
    by (auto simp: holds_lease_def holds_now_def keeps_input_def row_input_def intro!: later_update[where ns = "[]", simplified])
  then show ?thesis by (auto simp: renew_job_def intro!: transaction_later split: option.splits)
qed

lemma complete_later: "later db (fst (complete_job E canonical db lease result now))"
proof -
  have "later db db'" if c: "complete_in E canonical lease result now db = Ok (db', x)" for db' x
  proof (cases x)
    case (Applied job)
    from complete_in_Applied[OF c[unfolded Applied]] obtain row :: JobRow and st av fin where
      d: "db' = \<lparr>db_jobs = upd (holds_now (jr_job_id row) (jr_attempt row) lease now)
           (finish_row st av fin (snd (outcome_columns result)) now) (db_jobs db),
         db_attempts = upd (\<lambda>a. ja_job_id a = jr_job_id row \<and> ja_attempt a = jr_attempt row
             \<and> ja_lease_generation a = jl_lease_generation lease \<and> ja_finished_at a = None)
           (finish_attempt st av (fst (outcome_columns result)) (snd (outcome_columns result)) now) (db_attempts db)\<rparr>" by blast
    show ?thesis
      unfolding d by (rule later_update[where ns = "[]", unfolded append_Nil2, OF keeps_input_finish])
        (auto simp: holds_now_def finish_row_def)
  next
    case (AlreadyApplied job)
    then show ?thesis using complete_in_AlreadyApplied c by (metis later_refl)
  qed
  then show ?thesis by (auto simp: complete_job_def intro!: transaction_later)
qed

lemma recover_later:
  assumes "recover_expired db now = Ok db1"
  shows "later db db1"
  unfolding recover_expired_Ok(1)[OF assms]
  by (rule later_update[where ns = "[]", unfolded append_Nil2])
    (auto simp: keeps_input_def recovered_row_def row_input_def given_up_def)

lemma claim_later:
  assumes inv: "db_inv E canonical db"
  shows "later db (fst (claim_job E canonical db request))"
proof -
  have "later db db3" if c: "claim_in E canonical request e db = Ok (db3, x)" for e db3 x
  proof (cases x)
    case None
    then show ?thesis using c recover_later
      by (auto simp: claim_in_def Let_def elim!: rbind_OkE split: option.splits)
  next
    case (Some lease)
    from claim_in_Some[OF inv c[unfolded Some]] obtain db1 r where
      d: "recover_expired db (cj_now request) = Ok db1" "r \<in> set (db_jobs db1)" "claimable request r"
      "db3 = \<lparr>db_jobs = upd (\<lambda>r'. jr_job_id r' = jr_job_id r) (lease_row request e) (db_jobs db1),
        db_attempts = db_attempts db1 @ [new_attempt (jl_job lease) request e]\<rparr>" by blast
    have u: "distinct (map jr_job_id (db_jobs db1))" using recover_inv(1)[OF inv d(1)] by (simp add: db_inv_def jobs_ok_def)
    have "later db1 \<lparr>db_jobs = upd (\<lambda>r'. jr_job_id r' = jr_job_id r) (lease_row request e) (db_jobs db1),
        db_attempts = upd (\<lambda>_. False) id (db_attempts db1) @ [new_attempt (jl_job lease) request e]\<rparr>"
    proof (rule later_update[OF keeps_input_lease])
      fix q assume "q \<in> set (db_jobs db1)" "jr_job_id q = jr_job_id r"
      then have "q = r" using unique_key[OF u _ d(2)] by blast
      then show "\<not> is_terminal (jr_status q)" using d(3) by (auto simp: claimable_def)
    qed (auto simp: lease_row_def)
    then show ?thesis using later_trans[OF recover_later[OF d(1)]] by (simp add: d(4))
  qed
  then show ?thesis by (auto simp: claim_job_def intro!: transaction_later split: option.splits)
qed

lemma job_step_later: "job_step E canonical db db' \<Longrightarrow> db_inv E canonical db \<Longrightarrow> later db db'"
  by (induction rule: job_step.induct)
    (auto intro: enqueue_later claim_later renew_later complete_later cancel_later)

lemma job_steps_later: "(job_step E canonical)\<^sup>*\<^sup>* db db' \<Longrightarrow> db_inv E canonical db \<Longrightarrow> later db db'"
proof (induction rule: rtranclp_induct)
  case (step db' db'')
  then show ?case using job_step_later job_steps_inv later_trans by metis
qed simp

end
