(* ===== verification/JobProps.thy ===== *)
theory JobProps
  imports JobInv
begin

text \<open>
  The promises of \<^verbatim>\<open>docs/JOBS.md\<close>: valid tables, exclusive leases, fencing, idempotent
  completion, bounded retries and deduplication; the repository interface and its worker.
\<close>

section \<open>Fences\<close>

definition generation_of :: "JobDb \<Rightarrow> string \<Rightarrow> nat" where
  "generation_of db job_id = (case find_job db job_id of None \<Rightarrow> 0 | Some r \<Rightarrow> jr_lease_generation r)"

lemma generation_of_row:
  "db_inv E canonical db \<Longrightarrow> r \<in> set (db_jobs db) \<Longrightarrow> generation_of db (jr_job_id r) = jr_lease_generation r"
  by (simp add: generation_of_def find_job_unique db_inv_def jobs_ok_def)

lemma row_after_id: "row_after r r' \<Longrightarrow> jr_job_id r' = jr_job_id r"
  by (auto simp: row_after_def dest: arg_cong[where f = nj_job_id])

lemma generation_mono:
  assumes "db_inv E canonical db" "(job_step E canonical)\<^sup>*\<^sup>* db db'"
  shows "generation_of db i \<le> generation_of db' i"
proof (cases "find_job db i")
  case (Some r)
  then have r: "r \<in> set (db_jobs db)" "jr_job_id r = i" using find_job_Some by blast+
  obtain r' where r': "r' \<in> set (db_jobs db')" "row_after r r'"
    using job_steps_later[OF assms(2,1)] r(1) by (auto simp: later_def)
  then show ?thesis
    using generation_of_row[OF assms(1) r(1)] generation_of_row[OF job_steps_inv[OF assms(2,1)] r'(1)] row_after_id[OF r'(2)] r(2)
    by (simp add: row_after_def)
qed (simp add: generation_of_def)

lemma claim_job_Some:
  assumes inv: "db_inv E canonical db" and c: "claim_job E canonical db request = (db', Ok (Some lease))"
  obtains db1 r where "recover_expired db (cj_now request) = Ok db1" "r \<in> set (db_jobs db1)" "claimable request r"
    "\<forall>r' \<in> set (db_jobs db1). claimable request r' \<longrightarrow> claim_order r \<le> claim_order r'"
    "db_jobs db' = upd (\<lambda>r'. jr_job_id r' = jr_job_id r) (lease_row request (cj_now request + cj_lease_duration_ms request)) (db_jobs db1)"
    "jl_job lease = JobRecord.truncate (lease_row request (cj_now request + cj_lease_duration_ms request) r)"
    "jl_worker_id lease = cj_worker_id request" "jl_lease_generation lease = jr_lease_generation r + 1"
    "jl_lease_expires_at lease = cj_now request + cj_lease_duration_ms request"
proof -
  let ?e = "cj_now request + cj_lease_duration_ms request"
  have "claim_in E canonical request ?e db = Ok (db', Some lease)"
    using c by (auto simp: claim_job_def transaction_Ok checked_add_signed_def split: if_splits)
  from claim_in_Some[OF inv this] show thesis using that by (elim exE conjE) simp
qed

lemma claim_fresh:
  assumes inv: "db_inv E canonical db" and c: "claim_job E canonical db request = (db', Ok (Some lease))"
  shows "generation_of db (jr_job_id (jl_job lease)) < jl_lease_generation lease"
    "generation_of db' (jr_job_id (jl_job lease)) = jl_lease_generation lease"
proof -
  from claim_job_Some[OF assms] obtain db1 r where d: "recover_expired db (cj_now request) = Ok db1" "r \<in> set (db_jobs db1)"
    "db_jobs db' = upd (\<lambda>r'. jr_job_id r' = jr_job_id r) (lease_row request (cj_now request + cj_lease_duration_ms request)) (db_jobs db1)"
    "jl_job lease = JobRecord.truncate (lease_row request (cj_now request + cj_lease_duration_ms request) r)"
    "jl_lease_generation lease = jr_lease_generation r + 1" by blast
  have inv': "db_inv E canonical db'" using claim_inv[OF inv, of request] c by simp
  have "lease_row request (cj_now request + cj_lease_duration_ms request) r \<in> set (db_jobs db')" using d(2,3) by force
  from generation_of_row[OF inv' this] show "generation_of db' (jr_job_id (jl_job lease)) = jl_lease_generation lease"
    by (simp add: d(4,5))
  have "generation_of db1 (jr_job_id r) = jr_lease_generation r"
    by (rule generation_of_row[OF recover_inv(1)[OF inv d(1)] d(2)])
  moreover have "generation_of db (jr_job_id r) \<le> generation_of db1 (jr_job_id r)"
  proof (cases "find_job db (jr_job_id r)")
    case (Some q)
    then have q: "q \<in> set (db_jobs db)" "jr_job_id q = jr_job_id r" using find_job_Some by blast+
    obtain q' where q': "q' \<in> set (db_jobs db1)" "row_after q q'" using recover_later[OF d(1)] q(1) by (auto simp: later_def)
    then show ?thesis
      using generation_of_row[OF inv q(1)] generation_of_row[OF recover_inv(1)[OF inv d(1)] q'(1)] row_after_id[OF q'(2)] q(2)
      by (simp add: row_after_def)
  qed (simp add: generation_of_def)
  ultimately show "generation_of db (jr_job_id (jl_job lease)) < jl_lease_generation lease" by (simp add: d(4,5))
qed

lemma complete_current:
  assumes inv: "db_inv E canonical db" and c: "complete_job E canonical db lease result now = (db', Ok (Applied job))"
  shows "generation_of db (jr_job_id (jl_job lease)) = jl_lease_generation lease"
proof -
  have "complete_in E canonical lease result now db = Ok (db', Applied job)"
    using c by (auto simp: complete_job_def transaction_Ok split: if_splits)
  from complete_in_Applied[OF this] obtain row where
    "find_job db (jr_job_id (jl_job lease)) = Some row" "validate_active_completion row (JobRecord.truncate row) lease result now = Ok ()"
    by blast
  then show ?thesis by (auto simp: generation_of_def validate_active_completion_def elim!: rbind_OkE split: if_splits)
qed

lemma renew_current:
  assumes inv: "db_inv E canonical db" and c: "renew_job db lease now duration = (db', Ok x)"
  shows "generation_of db (jr_job_id (jl_job lease)) = jl_lease_generation lease"
proof -
  obtain e where "renew_in lease now e db = Ok (db', x)"
    using c by (auto simp: renew_job_def transaction_Ok split: if_splits option.splits)
  from renew_in_Ok(4)[OF this] obtain r where "r \<in> set (db_jobs db)" "holds_lease lease now r" by blast
  then show ?thesis using generation_of_row[OF inv, of r] by (simp add: holds_lease_def holds_now_def)
qed

section \<open>The repository interface and its worker\<close>

text \<open>
  What a worker relies on. A claim gives a lease newer than every lease of that job before it; a
  completion is applied only for the newest lease; what others do never takes a generation back.
\<close>

locale job_queue =
  fixes claim :: "'s \<Rightarrow> ClaimJobs \<Rightarrow> 's \<times> ('e, JobLease option) outcome"
    and complete :: "'s \<Rightarrow> JobLease \<Rightarrow> JobHandlerOutcome \<Rightarrow> millis \<Rightarrow> 's \<times> ('e, CompletionResult) outcome"
    and step :: "'s \<Rightarrow> 's \<Rightarrow> bool"
    and valid :: "'s \<Rightarrow> bool"
    and newest :: "'s \<Rightarrow> string \<Rightarrow> nat"
  assumes valid_step: "valid s \<Longrightarrow> step s s' \<Longrightarrow> valid s'"
    and newest_step: "valid s \<Longrightarrow> step s s' \<Longrightarrow> newest s i \<le> newest s' i"
    and claim_is_step: "claim s request = (s', r) \<Longrightarrow> step s s'"
    and complete_is_step: "complete s lease result now = (s', c) \<Longrightarrow> step s s'"
    and claim_newer: "valid s \<Longrightarrow> claim s request = (s', Ok (Some lease)) \<Longrightarrow>
      newest s (jr_job_id (jl_job lease)) < jl_lease_generation lease
      \<and> newest s' (jr_job_id (jl_job lease)) = jl_lease_generation lease"
    and complete_newest: "valid s \<Longrightarrow> complete s lease result now = (s', Ok (Applied job)) \<Longrightarrow>
      newest s (jr_job_id (jl_job lease)) = jl_lease_generation lease"
begin

lemma steps_valid: "step\<^sup>*\<^sup>* s s' \<Longrightarrow> valid s \<Longrightarrow> valid s'"
  by (induction rule: rtranclp_induct) (auto intro: valid_step)

lemma steps_newest: "step\<^sup>*\<^sup>* s s' \<Longrightarrow> valid s \<Longrightarrow> newest s i \<le> newest s' i"
proof (induction rule: rtranclp_induct)
  case (step s' s'')
  then show ?case using newest_step[of s' s'' i] steps_valid[of s s'] by linarith
qed simp

text \<open>A lease is void as soon as a later claim of its job was granted.\<close>

lemma reclaimed_lease_void:
  assumes "valid s" "newest s (jr_job_id (jl_job lease)) = jl_lease_generation lease" "step\<^sup>*\<^sup>* s s1"
    "claim s1 request = (s2, Ok (Some lease2))" "jr_job_id (jl_job lease2) = jr_job_id (jl_job lease)" "step\<^sup>*\<^sup>* s2 s3"
  shows "complete s3 lease result now \<noteq> (s4, Ok (Applied job))"
proof
  assume a: "complete s3 lease result now = (s4, Ok (Applied job))"
  note v1 = steps_valid[OF assms(3,1)]
  note v2 = valid_step[OF v1 claim_is_step[OF assms(4)]]
  have "newest s (jr_job_id (jl_job lease)) \<le> newest s1 (jr_job_id (jl_job lease))" by (rule steps_newest[OF assms(3,1)])
  also have "\<dots> < newest s2 (jr_job_id (jl_job lease))" using claim_newer[OF v1 assms(4)] assms(5) by simp
  also have "\<dots> \<le> newest s3 (jr_job_id (jl_job lease))" by (rule steps_newest[OF assms(6) v2])
  finally show False using complete_newest[OF steps_valid[OF assms(6) v2] a] assms(2) by simp
qed

text \<open>
  A worker that reports an applied completion held the job from its claim to its completion:
  nobody else was granted a claim of it in between.
\<close>

lemma run_once_exclusive:
  assumes v: "valid s" and c: "claim s (worker_request w t) = (s1, Ok (Some lease))"
    and o: "step\<^sup>*\<^sup>* s1 (others s1)"
    and r: "run_once claim complete w t others t' s = (s', Ok (Completed i (Applied job)))"
    and mid: "step\<^sup>*\<^sup>* s1 s2" "claim s2 request = (s3, Ok (Some lease2))" "step\<^sup>*\<^sup>* s3 (others s1)"
  shows "jr_job_id (jl_job lease2) \<noteq> i"
proof
  assume same: "jr_job_id (jl_job lease2) = i"
  have k: "complete (others s1) lease (worker_outcome w lease) t' = (s', Ok (Applied job))" "i = jr_job_id (jl_job lease)"
    using r c by (auto simp: run_once_def split: prod.splits elim!: rbind_OkE)
  have "newest s1 (jr_job_id (jl_job lease)) = jl_lease_generation lease" using claim_newer[OF v c] by blast
  from reclaimed_lease_void[OF valid_step[OF v claim_is_step[OF c]] this mid(1,2) _ mid(3)] show False
    using same k by blast
qed

lemma run_once_valid:
  assumes "valid s" "\<And>s. step\<^sup>*\<^sup>* s (others s)"
  shows "valid (fst (run_once claim complete w t others t' s))"
proof -
  obtain s1 x where c: "claim s (worker_request w t) = (s1, x)" by force
  have v1: "valid s1" by (rule valid_step[OF assms(1) claim_is_step[OF c]])
  have "valid (fst (complete (others s1) lease result t'))" for lease result
    using valid_step[OF steps_valid[OF assms(2) v1] complete_is_step] by (metis prod.collapse)
  then show ?thesis
    using v1 c by (auto simp: run_once_def split: prod.splits outcome.splits option.splits) (metis fst_conv)
qed

end

interpretation sqlite: job_queue "claim_job E canonical" "complete_job E canonical" "job_step E canonical"
  "db_inv E canonical" generation_of
proof
  fix s s' i assume "db_inv E canonical s" "job_step E canonical s s'"
  then show "generation_of s i \<le> generation_of s' i" using generation_mono by blast
next
  fix s request s' r assume "claim_job E canonical s request = (s', r)"
  then show "job_step E canonical s s'" using step_claim[of E canonical s request] by simp
next
  fix s lease result now s' c assume "complete_job E canonical s lease result now = (s', c)"
  then show "job_step E canonical s s'" using step_complete[of E canonical s lease result now] by simp
qed (auto intro: job_step_inv claim_fresh complete_current)

section \<open>Calls return and errors change nothing\<close>

lemma returns_renew_in: "returns (renew_in lease now e db)"
  by (auto simp: renew_in_def as_i64_def Let_def split: prod.splits intro!: returns_rbind)

lemma renew_job_cases:
  "(\<exists>e. renew_job db lease now duration = (db, Err e)) \<or> (\<exists>db' x. renew_job db lease now duration = (db', Ok x))"
proof -
  have "(\<exists>e. transaction (renew_in lease now e') db = (db, Err e)) \<or> (\<exists>db' x. transaction (renew_in lease now e') db = (db', Ok x))" for e'
    using returns_renew_in[of lease now e' db] by (cases "renew_in lease now e' db") (auto simp: transaction_def returns_def)
  then show ?thesis by (auto simp: renew_job_def split: option.splits)
qed

lemma complete_job_frame:
  assumes "\<And>job. snd (complete_job E canonical db lease result now) \<noteq> Ok (Applied job)"
  shows "fst (complete_job E canonical db lease result now) = db"
proof (cases "complete_in E canonical lease result now db")
  case (Ok p)
  obtain db' x where p: "p = (db', x)" by force
  show ?thesis
  proof (cases x)
    case (Applied job)
    then show ?thesis using assms[of job] Ok p by (auto simp: complete_job_def transaction_def split: if_splits)
  next
    case (AlreadyApplied job)
    then have "db' = db" using complete_in_AlreadyApplied Ok p by metis
    then show ?thesis using Ok p by (simp add: complete_job_def transaction_def)
  qed
qed (auto simp: complete_job_def transaction_def)

section \<open>Completions are final\<close>

lemma outcome_columns_inj: "outcome_columns x = outcome_columns y \<longleftrightarrow> x = y"
  by (cases x; cases y) auto

lemma complete_closes:
  assumes "complete_in E canonical lease result now db = Ok (db', Applied job)"
  shows "\<exists>a \<in> set (db_attempts db'). attempt_of lease a \<and> ja_finished_at a = Some now
    \<and> ja_handler_outcome a = Some (fst (outcome_columns result)) \<and> ja_error_code a = snd (outcome_columns result)"
    "as_i64 (jl_lease_generation lease) = Ok (jl_lease_generation lease)"
proof -
  from complete_in_Applied[OF assms] obtain row :: JobRow and st av fin where
    r: "find_job db (jr_job_id (jl_job lease)) = Some row" "existing_completion E canonical db lease result = Ok None"
    "validate_active_completion row (JobRecord.truncate row) lease result now = Ok ()"
    "\<exists>a \<in> set (db_attempts db). ja_job_id a = jr_job_id row \<and> ja_attempt a = jr_attempt row
       \<and> ja_lease_generation a = jl_lease_generation lease \<and> ja_finished_at a = None"
    and db': "db' = \<lparr>db_jobs = upd (holds_now (jr_job_id row) (jr_attempt row) lease now)
           (finish_row st av fin (snd (outcome_columns result)) now) (db_jobs db),
         db_attempts = upd (\<lambda>a. ja_job_id a = jr_job_id row \<and> ja_attempt a = jr_attempt row
             \<and> ja_lease_generation a = jl_lease_generation lease \<and> ja_finished_at a = None)
           (finish_attempt st av (fst (outcome_columns result)) (snd (outcome_columns result)) now) (db_attempts db)\<rparr>" by blast
  from r(4) obtain a where a: "a \<in> set (db_attempts db)" "ja_job_id a = jr_job_id row" "ja_attempt a = jr_attempt row"
    "ja_lease_generation a = jl_lease_generation lease" "ja_finished_at a = None" by blast
  let ?a = "finish_attempt st av (fst (outcome_columns result)) (snd (outcome_columns result)) now a"
  have "?a \<in> set (db_attempts db')" using a by (force simp: db')
  moreover have "jr_attempt row = jr_attempt (jl_job lease)" "jr_job_id row = jr_job_id (jl_job lease)"
    using r(3) find_job_Some[OF r(1)] by (auto simp: validate_active_completion_def elim!: rbind_OkE split: if_splits)
  ultimately show "\<exists>a \<in> set (db_attempts db'). attempt_of lease a \<and> ja_finished_at a = Some now
    \<and> ja_handler_outcome a = Some (fst (outcome_columns result)) \<and> ja_error_code a = snd (outcome_columns result)"
    using a by (intro bexI[of _ ?a]) (auto simp: finish_attempt_def attempt_of_def)
  show "as_i64 (jl_lease_generation lease) = Ok (jl_lease_generation lease)"
    using r(2) by (auto simp: existing_completion_def as_i64_def try_from_def elim!: rbind_OkE split: if_splits)
qed

lemma find_attempt:
  assumes "attempts_ok A" "a \<in> set A" "attempt_of lease a"
  shows "List.find (attempt_of lease) A = Some a"
proof -
  have "List.find (attempt_of lease) A \<noteq> None" using assms(2,3) by (auto simp: find_None_iff)
  then obtain b where b: "List.find (attempt_of lease) A = Some b" by blast
  then have "b \<in> set A" "attempt_of lease b" by (auto simp: find_Some_iff)
  then show ?thesis using b attempt_of_current[OF assms(1,2)] assms(3) by (auto simp: attempt_of_def)
qed

lemma completed_again:
  assumes inv: "db_inv E canonical db" and a: "a \<in> set (db_attempts db)" "attempt_of lease a"
    and c: "ja_handler_outcome a = Some (fst (outcome_columns result))" "ja_error_code a = snd (outcome_columns result)"
    and i: "as_i64 (jl_lease_generation lease) = Ok (jl_lease_generation lease)"
    and v: "validate_outcome result' = Ok ()" "0 \<le> now"
  shows "complete_job E canonical db lease result' now =
    (db, if result' = result then Ok (AlreadyApplied (JobRecord.truncate (the (find_job db (jr_job_id (jl_job lease))))))
         else Err JobConflict)"
proof -
  have ok: "attempts_ok (db_attempts db)" "linked (db_jobs db) (db_attempts db)" "jobs_ok E canonical (db_jobs db)"
    using inv by (simp_all add: db_inv_def)
  obtain r where r: "r \<in> set (db_jobs db)" "jr_job_id r = jr_job_id (jl_job lease)"
    using linkedD(1)[OF ok(2) a(1)] a(2) by (auto simp: attempt_of_def)
  have f: "find_job db (jr_job_id (jl_job lease)) = Some r"
    using find_job_unique[of db r] r ok(3) by (simp add: jobs_ok_def)
  have rec: "record_row E canonical r = Ok (JobRecord.truncate r)"
    by (rule record_row_Ok) (use ok(3) r(1) in \<open>simp add: jobs_ok_def\<close>)
  have "existing_completion E canonical db lease result' =
      (if result' = result then Ok (Some (JobRecord.truncate r)) else Err JobConflict)"
  proof -
    obtain h e where cols: "outcome_columns result' = (h, e)" by force
    have "fst (outcome_columns result) = h \<and> snd (outcome_columns result) = e \<longleftrightarrow> result' = result"
      using outcome_columns_inj[of result' result] cols by (metis fst_conv snd_conv prod.collapse)
    then show ?thesis
      by (simp add: existing_completion_def i find_attempt[OF ok(1) a] f rec c cols) blast
  qed
  then show ?thesis using v by (simp add: complete_job_def transaction_def complete_in_def f)
qed

section \<open>Backoff\<close>

lemma saturated_min: "0 \<le> x \<Longrightarrow> m \<le> 2 ^ 63 - 1 \<Longrightarrow> min (saturate_i64 x) m = min x m"
  by (auto simp: saturate_i64_def min_def)

lemma backoff_exact:
  assumes "0 < initial" "initial \<le> maximum" "maximum \<le> JOB_MAX_BACKOFF_MS"
  shows "retry_backoff_ms initial maximum attempt = min (initial * 2 ^ (attempt - 1)) maximum"
proof -
  have m: "maximum \<le> 2 ^ 62" using assms(3) by (simp add: JOB_MAX_BACKOFF_MS_def)
  have r: "retry_backoff_ms initial maximum attempt = min (initial * 2 ^ min (attempt - 1) 62) maximum"
    unfolding retry_backoff_ms_def Let_def by (rule saturated_min) (use assms(1) m in auto)
  have big: "2 ^ 62 \<le> initial * 2 ^ k" if "62 \<le> k" for k
  proof -
    have "(2 :: int) ^ 62 \<le> 2 ^ k" using that by (intro power_increasing) auto
    also have "\<dots> \<le> initial * 2 ^ k" using assms(1) by simp
    finally show ?thesis .
  qed
  show ?thesis
  proof (cases "attempt - 1 \<le> 62")
    case True
    then show ?thesis by (simp add: r min_absorb1)
  next
    case False
    then show ?thesis using big[of 62] big[of "attempt - 1"] m by (simp add: r min_absorb2)
  qed
qed

end
