(* ===== verification/JobLive.thy ===== *)
theory JobLive
  imports JobProps
begin

text \<open>
  What the calls return: enqueueing again, claims when work is waiting, completions in time.
\<close>

section \<open>Enqueueing again\<close>

lemma enqueue_Inserted:
  assumes "enqueue_job E canonical db job now = (db', Ok (Inserted r))"
  shows "validate_new_job canonical job = Ok ()" "check_job (new_row job (hex_lower (env_sha256 E (nj_payload_json job))) now)"
    "new_row job (hex_lower (env_sha256 E (nj_payload_json job))) now \<in> set (db_jobs db')"
  using assms by (auto simp: enqueue_job_def job_payload_sha256_def Let_def elim!: rbind_OkE split: if_splits)

lemma kind_text:
  assumes "valid_kind s"
  shows "text_between 1 64 s"
proof -
  have "decode_utf8 (map of_char s) = map of_char s" if "list_all kind_byte s" for s
    using that by (induction s) (auto simp: kind_byte_def ascii_lower_def ascii_digit_def)
  then show ?thesis using assms by (auto simp: valid_kind_def text_between_def utf8_chars_def Suc_le_eq)
qed

lemma check_new_row:
  assumes "validate_new_job canonical job = Ok ()" "text_between 1 256 (nj_deduplication_key job)" "valid_sha256 s" "0 \<le> now"
  shows "check_job (new_row job s now)"
  using assms kind_text[of "nj_kind job"]
  by (auto simp: validate_new_job_def check_job_def new_row_def null_or_def JOB_SCHEMA_VERSION_def JOB_PAYLOAD_MAX_BYTES_def
      JOB_MAX_ATTEMPTS_def JOB_MAX_BACKOFF_MS_def Suc_le_eq split: if_splits)

text \<open>The answer to an enqueue with the kind and the key of a stored job.\<close>

lemma enqueue_known:
  assumes inv: "db_inv E canonical db" and r: "r \<in> set (db_jobs db)" "jr_kind r = nj_kind job" "jr_deduplication_key r = nj_deduplication_key job"
    and v: "validate_new_job canonical job = Ok ()" "sha256_ok E" "0 \<le> now"
  shows "enqueue_job E canonical db job now
    = (db, if same_enqueue_identity (JobRecord.truncate r) job (hex_lower (env_sha256 E (nj_payload_json job)))
       then Ok (Existing (JobRecord.truncate r)) else Err JobConflict)"
proof -
  let ?s = "hex_lower (env_sha256 E (nj_payload_json job))"
  have ok: "jobs_ok E canonical (db_jobs db)" using inv by (simp add: db_inv_def)
  then have ro: "row_ok E canonical r" using r(1) by (simp add: jobs_ok_def)
  have uv: "unique_violation db job" using r by (auto simp: unique_violation_def list_ex_iff)
  have "List.find (\<lambda>q. jr_kind q = nj_kind job \<and> jr_deduplication_key q = nj_deduplication_key job) (db_jobs db) \<noteq> None"
    using r by (auto simp: find_None_iff)
  then obtain q where q: "List.find (\<lambda>q. jr_kind q = nj_kind job \<and> jr_deduplication_key q = nj_deduplication_key job) (db_jobs db) = Some q"
    by blast
  then have "q \<in> set (db_jobs db)" "jr_kind q = nj_kind job" "jr_deduplication_key q = nj_deduplication_key job"
    by (auto simp: find_Some_iff)
  then have "q = r" using unique_key[of "\<lambda>r. (jr_kind r, jr_deduplication_key r)" "db_jobs db" q r] ok r by (simp add: jobs_ok_def)
  then have "load_deduplicated E canonical db (nj_kind job) (nj_deduplication_key job) = Ok (JobRecord.truncate r)"
    using q record_row_Ok[OF ro] by (simp add: load_deduplicated_def)
  moreover have "text_between 1 256 (nj_deduplication_key job)" using ro r(3) by (simp add: row_ok_def check_job_def)
  then have "check_job (new_row job ?s now)"
    using check_new_row[OF v(1) _ _ v(3)] hex_lower_valid v(2) by (simp add: sha256_ok_def)
  ultimately show ?thesis using v uv by (simp add: enqueue_job_def job_payload_sha256_def Let_def)
qed

lemma same_identity_iff:
  assumes "row_input r = job\<lparr>nj_available_at := jr_available_at r\<rparr>" "jr_payload_sha256 r = hex_lower (env_sha256 E (nj_payload_json job))"
  shows "same_enqueue_identity (JobRecord.truncate r) again (hex_lower (env_sha256 E (nj_payload_json again)))
    \<longleftrightarrow> again\<lparr>nj_job_id := nj_job_id job\<rparr> = job\<lparr>nj_available_at := jr_available_at r\<rparr>"
  using assms by (cases job; cases again) (auto simp: same_enqueue_identity_def row_input_def JobRecord.defs)

text \<open>A job whose availability a retry has moved is a conflict with its own input.\<close>

lemma retried_job_is_refused:
  assumes inv: "db_inv E canonical db" and r: "r \<in> set (db_jobs db)" "row_input r = job\<lparr>nj_available_at := jr_available_at r\<rparr>"
    and v: "validate_new_job canonical job = Ok ()" "sha256_ok E" "0 \<le> now" and moved: "jr_available_at r \<noteq> nj_available_at job"
  shows "enqueue_job E canonical db job now = (db, Err JobConflict)"
proof -
  have k: "jr_kind r = nj_kind job" "jr_deduplication_key r = nj_deduplication_key job" "jr_payload_json r = nj_payload_json job"
    using r(2) by (cases job, simp add: row_input_def)+
  have "jr_payload_sha256 r = hex_lower (env_sha256 E (nj_payload_json job))"
    using inv r(1) k(3) by (auto simp: db_inv_def jobs_ok_def row_ok_def)
  note same_identity_iff[OF r(2) this, of job]
  moreover have "job\<lparr>nj_job_id := nj_job_id job\<rparr> \<noteq> job\<lparr>nj_available_at := jr_available_at r\<rparr>" using moved by (cases job) simp
  ultimately show ?thesis using enqueue_known[OF inv r(1) k(1,2) v] by simp
qed

section \<open>Claims return\<close>

lemma decode_length: "length (decode_utf8 bs) \<le> length bs"
proof (induction bs rule: length_induct)
  case (1 bs)
  have t: "length (decode_utf8 ys) \<le> n" if "length ys < length bs" "length ys \<le> n" for ys n
    using 1 that by fastforce
  show ?case
  proof (cases bs)
    case (Cons a xs)
    have "length (decode_utf8 (a # xs)) \<le> Suc (length xs)"
      by (subst decode_utf8.simps) (auto simp del: decode_utf8.simps simp: Cons decode_utf8.simps(1) split: list.split intro!: t)
    then show ?thesis by (simp only: Cons list.size)
  qed simp
qed

lemma valid_id_text: "valid_id n s \<Longrightarrow> utf8_chars s \<noteq> [] \<Longrightarrow> text_between 1 n s"
  using decode_length[of "map of_char s"]
  by (auto simp: valid_id_def text_between_def utf8_chars_def Suc_le_eq)

text \<open>A request that is accepted, its name being UTF-8.\<close>

abbreviation good_claim :: "ClaimJobs \<Rightarrow> bool" where
  "good_claim request \<equiv> validate_claim request = Ok () \<and> utf8_chars (cj_worker_id request) \<noteq> []"

lemma validate_claim_Ok:
  assumes "good_claim request"
  shows "text_between 1 128 (cj_worker_id request)" "0 \<le> cj_now request" "1 \<le> cj_lease_duration_ms request"
  using assms valid_id_text[of 128 "cj_worker_id request"] by (auto simp: validate_claim_def)

text \<open>Closing expired attempts never violates a constraint.\<close>

lemma check_abandon:
  "check_attempt a \<Longrightarrow> ja_finished_at a = None \<Longrightarrow> ja_lease_expires_at a \<le> now \<Longrightarrow> check_attempt (abandon db now a)"
  by (auto simp: check_attempt_def abandon_def Let_def null_or_def split: option.splits)

lemma check_recovered: "check_job r \<Longrightarrow> given_up now r \<Longrightarrow> check_job (recovered_row now r)"
  by (auto simp: check_job_def given_up_def recovered_row_def null_or_def expired_by_def split: option.splits)

lemma recover_returns:
  assumes "db_inv E canonical db"
  shows "\<exists>db1. recover_expired db now = Ok db1"
proof -
  have "\<forall>r \<in> set (db_jobs db). check_job r" "\<forall>a \<in> set (db_attempts db). check_attempt a"
    using assms by (auto simp: db_inv_def jobs_ok_def row_ok_def attempts_ok_def)
  then show ?thesis
    by (auto simp: recover_expired_def sql_update_def list_all_iff check_abandon check_recovered)
qed

text \<open>Recovery touches no claimable job and makes none.\<close>

lemma recover_claimable:
  assumes "recover_expired db (cj_now request) = Ok db1"
  shows "filter (claimable request) (db_jobs db1) = filter (claimable request) (db_jobs db)"
proof -
  have "claimable request (if given_up (cj_now request) r then recovered_row (cj_now request) r else r)
      \<longleftrightarrow> claimable request r" "claimable request r \<Longrightarrow> \<not> given_up (cj_now request) r" for r
    by (auto simp: claimable_def given_up_def recovered_row_def)
  then show ?thesis
    unfolding recover_expired_Ok(1)[OF assms] JobDb.select_convs filter_map o_def
    by (auto intro!: map_idI cong: filter_cong)
qed

lemma check_lease:
  assumes "check_job r" "claimable request r" "good_claim request" "jr_created_at r \<le> cj_now request"
  shows "check_job (lease_row request (cj_now request + cj_lease_duration_ms request) r)"
  using assms(1,2,4) validate_claim_Ok[OF assms(3)]
  by (auto simp: check_job_def claimable_def lease_row_def null_or_def)

lemma insert_new_attempt:
  assumes inv: "db_inv E canonical db" and r: "r \<in> set (db_jobs db)" "jr_job_id r = jr_job_id j" "jr_attempt r < jr_attempt j"
    and j: "jr_lease_generation j = jr_attempt j" and v: "good_claim request"
    and J: "find_job db2 (jr_job_id j) \<noteq> None" "db_attempts db2 = db_attempts db"
  shows "\<exists>db3. insert_attempt db2 (new_attempt j request (cj_now request + cj_lease_duration_ms request)) = Ok db3
    \<and> db_jobs db3 = db_jobs db2"
proof -
  have "check_attempt (new_attempt j request (cj_now request + cj_lease_duration_ms request))"
    using validate_claim_Ok[OF v] r(3) by (simp add: check_attempt_def new_attempt_def null_or_def j)
  moreover have "ja_attempt b < jr_attempt j \<and> ja_lease_generation b < jr_attempt j"
    if b: "b \<in> set (db_attempts db)" "ja_job_id b = jr_job_id j" for b
  proof -
    obtain q where q: "q \<in> set (db_jobs db)" "jr_job_id q = ja_job_id b" "ja_attempt b \<le> jr_attempt q"
      using linkedD(1)[of "db_jobs db" "db_attempts db" b] inv b(1) by (auto simp: db_inv_def)
    then have "q = r" using unique_key[of jr_job_id "db_jobs db" q r] inv r b(2) by (simp add: db_inv_def jobs_ok_def)
    then show ?thesis using q(3) r(3) inv b(1) by (auto simp: db_inv_def attempts_ok_def)
  qed
  ultimately show ?thesis using J by (force simp: insert_attempt_def list_ex_iff j)
qed

lemma claim_job_in:
  assumes "good_claim request" "cj_now request + cj_lease_duration_ms request < 2 ^ 63"
  shows "claim_job E canonical db request =
    transaction (claim_in E canonical request (cj_now request + cj_lease_duration_ms request)) db"
  using assms validate_claim_Ok(2,3)[OF assms(1)] by (simp add: claim_job_def checked_add_signed_def signed_range_def)

lemma claim_serves:
  assumes inv: "db_inv E canonical db" and v: "good_claim request" and room: "cj_now request + cj_lease_duration_ms request < 2 ^ 63"
    and clock: "\<forall>r \<in> set (db_jobs db). claimable request r \<longrightarrow> jr_created_at r \<le> cj_now request"
    and some: "\<exists>r \<in> set (db_jobs db). claimable request r"
  shows "\<exists>db' lease. claim_job E canonical db request = (db', Ok (Some lease))"
proof -
  let ?e = "cj_now request + cj_lease_duration_ms request"
  obtain db1 where d: "recover_expired db (cj_now request) = Ok db1" using recover_returns[OF inv] by blast
  have inv1: "db_inv E canonical db1" by (rule recover_inv(1)[OF inv d])
  have cl: "r \<in> set (db_jobs db)" if "r \<in> set (db_jobs db1)" "claimable request r" for r
    using arg_cong[OF recover_claimable[OF d], of set] that by auto
  have "filter (claimable request) (db_jobs db1) \<noteq> []" using some by (simp add: recover_claimable[OF d] filter_empty_conv)
  then have "sort_key claim_order (filter (claimable request) (db_jobs db1)) \<noteq> []"
    by (metis set_empty set_sort)
  then obtain i where i: "next_claim request db1 = Some i"
    by (auto simp: next_claim_def neq_Nil_conv)
  from next_claim_Some[OF i] obtain r where r: "r \<in> set (db_jobs db1)" "jr_job_id r = i" "claimable request r" by blast
  have dist: "distinct (map jr_job_id (db_jobs db1))" and ok: "row_ok E canonical r"
    using inv1 r(1) by (auto simp: db_inv_def jobs_ok_def)
  let ?r = "lease_row request ?e r" and ?J = "upd (\<lambda>q. jr_job_id q = i) (lease_row request ?e) (db_jobs db1)"
  have only: "q = r" if "q \<in> set (db_jobs db1)" "jr_job_id q = i" for q using unique_key[OF dist that(1) r(1)] that r(2) by simp
  have chk: "check_job ?r" using check_lease[OF _ r(3) v] ok clock cl[OF r(1,3)] r(3) by (simp add: row_ok_def)
  have u: "sql_update JobUnavailable check_job (\<lambda>q. jr_job_id q = i) (lease_row request ?e) (db_jobs db1) = Ok (?J, length (filter (\<lambda>q. jr_job_id q = i) (db_jobs db1)))"
    using chk only by (auto simp: sql_update_Ok)
  have "map jr_job_id ?J = map jr_job_id (db_jobs db1)" by simp
  then have "distinct (map jr_job_id ?J)" using dist by presburger
  then have f: "find_job (db1\<lparr>db_jobs := ?J\<rparr>) i = Some ?r"
    using find_job_unique[of "db1\<lparr>db_jobs := ?J\<rparr>" ?r] r(1,2) by force
  have "row_ok E canonical ?r"
    using ok chk by (simp add: row_ok_def) (simp add: lease_row_def row_input_def)
  note rec = record_row_Ok[OF this]
  have small: "jr_lease_generation ?r \<le> 100" using chk ok by (auto simp: row_ok_def check_job_def)
  then have g: "as_i64 (jr_lease_generation ?r) = Ok (jr_lease_generation ?r)" by (simp add: as_i64_def try_from_def)
  obtain db3 where "insert_attempt (db1\<lparr>db_jobs := ?J\<rparr>) (new_attempt (JobRecord.truncate ?r) request ?e) = Ok db3"
    using insert_new_attempt[OF inv1 r(1) _ _ _ v, of "JobRecord.truncate ?r" "db1\<lparr>db_jobs := ?J\<rparr>"] f r(2) ok by (auto simp: row_ok_def)
  then show ?thesis
    using d i u f rec g by (simp add: claim_job_in[OF v room] transaction_def claim_in_def Let_def)
qed

lemma claim_idle:
  assumes inv: "db_inv E canonical db" and v: "good_claim request" and room: "cj_now request + cj_lease_duration_ms request < 2 ^ 63"
    and none: "\<not> (\<exists>r \<in> set (db_jobs db). claimable request r)"
  shows "\<exists>db'. claim_job E canonical db request = (db', Ok None)"
proof -
  obtain db1 where d: "recover_expired db (cj_now request) = Ok db1" using recover_returns[OF inv] by blast
  have "filter (claimable request) (db_jobs db1) = []" using none by (simp add: recover_claimable[OF d] filter_empty_conv)
  then have "next_claim request db1 = None" by (simp add: next_claim_def)
  then show ?thesis using d by (simp add: claim_job_in[OF v room] transaction_def claim_in_def)
qed

section \<open>Completions return\<close>

text \<open>A lease that is held: its attempt is open and recorded with its worker, and its job is leased to it.\<close>

definition holder :: "env \<Rightarrow> (byte list \<Rightarrow> bool) \<Rightarrow> JobDb \<Rightarrow> JobLease \<Rightarrow> JobRow \<Rightarrow> AttemptRow \<Rightarrow> bool" where
  "holder E canonical db lease r a \<longleftrightarrow> db_inv E canonical db \<and> r \<in> set (db_jobs db) \<and> a \<in> set (db_attempts db)
     \<and> jr_job_id (jl_job lease) = jr_job_id r \<and> jr_attempt (jl_job lease) = jr_attempt r
     \<and> jl_lease_generation lease = jr_lease_generation r \<and> jr_owner r = Some (jl_worker_id lease) \<and> jr_status r = Leased
     \<and> jr_created_at r \<le> jl_leased_at lease \<and> jr_lease_expires_at r = Some (ja_lease_expires_at a)
     \<and> attempt_of lease a \<and> ja_finished_at a = None \<and> ja_leased_at a = jl_leased_at lease \<and> ja_worker_id a = jl_worker_id lease"

lemma claim_holder:
  assumes inv: "db_inv E canonical db" and c: "claim_job E canonical db request = (db', Ok (Some lease))"
  shows "\<exists>r a. holder E canonical db' lease r a \<and> jl_job lease = JobRecord.truncate r
    \<and> ja_lease_expires_at a = jl_lease_expires_at lease \<and> jr_cancellation_requested_at r = None"
proof -
  let ?e = "cj_now request + cj_lease_duration_ms request"
  have "claim_in E canonical request ?e db = Ok (db', Some lease)"
    using c by (auto simp: claim_job_def transaction_Ok checked_add_signed_def split: if_splits)
  from claim_in_Some[OF inv this] obtain db1 :: JobDb and r :: JobRow where d: "r \<in> set (db_jobs db1)" "claimable request r"
    "check_job (lease_row request ?e r)" "db' = \<lparr>db_jobs = upd (\<lambda>r'. jr_job_id r' = jr_job_id r) (lease_row request ?e) (db_jobs db1),
        db_attempts = db_attempts db1 @ [new_attempt (jl_job lease) request ?e]\<rparr>"
    "jl_job lease = JobRecord.truncate (lease_row request ?e r)"
    "jl_worker_id lease = cj_worker_id request" "jl_lease_generation lease = jr_lease_generation r + 1"
    "jl_leased_at lease = cj_now request" "jl_lease_expires_at lease = ?e" by blast
  have "lease_row request ?e r \<in> set (db_jobs db')" using d(1) by (force simp: d(4))
  moreover have "db_inv E canonical db'" using claim_inv[OF inv, of request] c by simp
  ultimately show ?thesis
    using d(2,3,5-9)
    by (intro exI[of _ "lease_row request ?e r"] exI[of _ "new_attempt (jl_job lease) request ?e"])
      (simp add: holder_def d(4) claimable_def attempt_of_def lease_row_def new_attempt_def check_job_def null_or_def JobRecord.defs)
qed

lemma holderD:
  assumes "holder E canonical db lease r a"
  shows "find_job db (jr_job_id (jl_job lease)) = Some r" "record_row E canonical r = Ok (JobRecord.truncate r)"
    "List.find (attempt_of lease) (db_attempts db) = Some a" "ja_handler_outcome a = None"
    "check_job r" "check_attempt a" "jr_lease_generation r = jr_attempt r" "validate_new_job canonical (row_input r) = Ok ()"
    "jr_payload_sha256 r = hex_lower (env_sha256 E (jr_payload_json r))" "as_i64 (jl_lease_generation lease) = Ok (jl_lease_generation lease)"
proof -
  have ok: "jobs_ok E canonical (db_jobs db)" "attempts_ok (db_attempts db)" "r \<in> set (db_jobs db)" "a \<in> set (db_attempts db)"
    using assms by (simp_all add: holder_def db_inv_def)
  then have ro: "row_ok E canonical r" by (simp add: jobs_ok_def)
  show "find_job db (jr_job_id (jl_job lease)) = Some r"
    using find_job_unique[of db r] ok assms by (simp add: holder_def jobs_ok_def)
  show "record_row E canonical r = Ok (JobRecord.truncate r)" by (rule record_row_Ok[OF ro])
  show "List.find (attempt_of lease) (db_attempts db) = Some a"
    using find_attempt[OF ok(2,4)] assms by (simp add: holder_def)
  show "ja_handler_outcome a = None" "check_attempt a" using ok(2,4) assms by (auto simp: attempts_ok_def check_attempt_def holder_def)
  show "check_job r" "jr_lease_generation r = jr_attempt r" "validate_new_job canonical (row_input r) = Ok ()"
    "jr_payload_sha256 r = hex_lower (env_sha256 E (jr_payload_json r))" using ro by (simp_all add: row_ok_def)
  moreover have "jr_attempt r \<le> 100" using \<open>check_job r\<close> by (simp add: check_job_def)
  ultimately show "as_i64 (jl_lease_generation lease) = Ok (jl_lease_generation lease)"
    using assms by (simp add: as_i64_def try_from_def holder_def)
qed

text \<open>A lease selects its job and its attempt only.\<close>

text \<open>What a completion writes violates no constraint.\<close>

lemma outcome_code: "validate_outcome result = Ok () \<Longrightarrow> null_or (text_between 1 64) (snd (outcome_columns result))"
  by (cases result) (auto simp: null_or_def valid_error_code_def dest: kind_text)

lemma check_finish:
  assumes "check_job r" "jr_status r = Leased" "jr_created_at r \<le> now" "null_or (text_between 1 64) code"
    "status \<noteq> Leased" "0 \<le> av" "is_terminal status \<longleftrightarrow> fin \<noteq> None" "fin = None \<or> fin = Some now"
  shows "check_job (finish_row status av fin code now r)"
  using assms by (auto simp: check_job_def finish_row_def null_or_def)

lemma check_finish_attempt:
  assumes "check_attempt a" "ja_finished_at a = None" "ja_leased_at a \<le> now" "status \<noteq> Leased" "status = Queued \<longrightarrow> now \<le> av"
    "(h, code) = outcome_columns result" "null_or (text_between 1 64) code"
  shows "check_attempt (finish_attempt status av h code now a)"
  using assms by (cases result) (auto simp: check_attempt_def finish_attempt_def null_or_def)

text \<open>Where each outcome takes a job.\<close>

definition outcome_status :: "JobRecord \<Rightarrow> JobHandlerOutcome \<Rightarrow> JobStatus" where
  "outcome_status job result = (case result of OutSucceeded \<Rightarrow> Succeeded | OutPermanent _ \<Rightarrow> PermanentFailure
     | OutCancelled \<Rightarrow> JobCancelled | OutRetryable _ \<Rightarrow> if jr_attempt job < jr_max_attempts job then Queued else Exhausted)"

definition retry_at :: "JobRecord \<Rightarrow> millis \<Rightarrow> millis" where
  "retry_at job now = now + min (jr_retry_initial_ms job * 2 ^ (jr_attempt job - 1)) (jr_retry_max_ms job)"

lemma transition_exact:
  assumes "0 < jr_retry_initial_ms job" "jr_retry_initial_ms job \<le> jr_retry_max_ms job" "jr_retry_max_ms job \<le> JOB_MAX_BACKOFF_MS"
    "0 \<le> now" "now + JOB_MAX_BACKOFF_MS < 2 ^ 63"
  shows "completion_transition job result now = Ok (outcome_status job result,
      if outcome_status job result = Queued then retry_at job now else jr_available_at job,
      if outcome_status job result = Queued then None else Some now)" "now \<le> retry_at job now"
proof -
  have "0 \<le> min (jr_retry_initial_ms job * 2 ^ (jr_attempt job - 1)) (jr_retry_max_ms job)" using assms(1,2) by simp
  then show "now \<le> retry_at job now" by (simp add: retry_at_def)
  have "retry_at job now \<le> now + JOB_MAX_BACKOFF_MS" using assms(3) by (simp add: retry_at_def)
  then have "checked_add_signed 64 now (retry_backoff_ms (jr_retry_initial_ms job) (jr_retry_max_ms job) (jr_attempt job))
      = Some (retry_at job now)"
    using assms(4,5) \<open>now \<le> retry_at job now\<close>
    unfolding backoff_exact[OF assms(1-3)] checked_add_signed_def signed_range_def
    by (simp only: retry_at_def[symmetric]) simp
  then show "completion_transition job result now = Ok (outcome_status job result,
      if outcome_status job result = Queued then retry_at job now else jr_available_at job,
      if outcome_status job result = Queued then None else Some now)"
    by (cases result) (auto simp: outcome_status_def)
qed

lemma finish_row_ok:
  assumes "row_ok E canonical r" "check_job (finish_row status av fin code now r)"
  shows "row_ok E canonical (finish_row status av fin code now r)"
proof -
  have "row_input (finish_row status av fin code now r) = (row_input r)\<lparr>nj_available_at := av\<rparr>"
    by (simp add: row_input_def finish_row_def)
  then show ?thesis
    using assms validate_available[of canonical "row_input r" av]
    by (simp add: row_ok_def) (simp add: check_job_def finish_row_def)
qed

lemma complete_serves:
  assumes h: "holder E canonical db lease r a" and v: "validate_outcome result = Ok ()"
    and now: "jl_leased_at lease \<le> now" "now < ja_lease_expires_at a" "now + JOB_MAX_BACKOFF_MS < 2 ^ 63"
    and wanted: "jr_cancellation_requested_at r = None \<or> result = OutCancelled"
  defines "job \<equiv> JobRecord.truncate r" and "status \<equiv> outcome_status (JobRecord.truncate r) result"
  defines "r' \<equiv> finish_row status (if status = Queued then retry_at job now else jr_available_at job)
      (if status = Queued then None else Some now) (snd (outcome_columns result)) now r"
  shows "\<exists>db'. complete_job E canonical db lease result now = (db', Ok (Applied (JobRecord.truncate r')))
    \<and> find_job db' (jr_job_id r) = Some r'"
proof -
  note d = holderD[OF h]
  have hh: "db_inv E canonical db" "r \<in> set (db_jobs db)" "a \<in> set (db_attempts db)" "jr_job_id (jl_job lease) = jr_job_id r \<and> jr_attempt (jl_job lease) = jr_attempt r"
    "jl_lease_generation lease = jr_lease_generation r" "jr_owner r = Some (jl_worker_id lease)" "jr_status r = Leased"
    "jr_cancellation_requested_at r = None \<or> result = OutCancelled" "jr_created_at r \<le> jl_leased_at lease"
    "jr_lease_expires_at r = Some (ja_lease_expires_at a)" "attempt_of lease a" "ja_finished_at a = None"
    "ja_leased_at a = jl_leased_at lease"
    using h wanted by (simp_all add: holder_def job_def)
  have bounds: "0 < jr_retry_initial_ms job" "jr_retry_initial_ms job \<le> jr_retry_max_ms job" "jr_retry_max_ms job \<le> JOB_MAX_BACKOFF_MS"
    "0 \<le> now" "0 \<le> jr_available_at r" using d(5) hh(9) now(1) by (auto simp: check_job_def job_def JobRecord.defs JOB_MAX_BACKOFF_MS_def)
  note tr = transition_exact(1)[OF bounds(1-4) now(3), of result] transition_exact(2)[OF bounds(1-4) now(3)]
  let ?av = "if status = Queued then retry_at job now else jr_available_at job" and ?fin = "if status = Queued then None else Some now"
  let ?h = "fst (outcome_columns result)" and ?code = "snd (outcome_columns result)"
  have st: "status \<noteq> Leased" "is_terminal status \<longleftrightarrow> status \<noteq> Queued"
    by (auto simp: status_def outcome_status_def split: JobHandlerOutcome.splits if_splits)
  have chk: "check_job r'"
    unfolding r'_def
    by (rule check_finish[OF d(5) hh(7) order_trans[OF hh(9) now(1)] outcome_code[OF v]]) (use st bounds(4,5) tr(2) in \<open>auto simp: job_def\<close>)
  have chka: "check_attempt (finish_attempt status ?av ?h ?code now a)"
    by (rule check_finish_attempt[OF d(6) hh(12) _ st(1) _ _ outcome_code[OF v]]) (use now(1) hh(13) tr(2) in auto)
  let ?P = "holds_now (jr_job_id job) (jr_attempt job) lease now"
  let ?Q = "\<lambda>a. ja_job_id a = jr_job_id job \<and> ja_attempt a = jr_attempt job \<and> ja_lease_generation a = jl_lease_generation lease
    \<and> ja_finished_at a = None"
  have P: "?P r" using hh now(2) by (simp add: holds_now_def job_def)
  have Q: "?Q a" using hh by (simp add: attempt_of_def job_def)
  have dj: "distinct (map jr_job_id (db_jobs db))" and da: "distinct (map (\<lambda>a. (ja_job_id a, ja_attempt a)) (db_attempts db))"
    using hh(1) by (auto simp: db_inv_def jobs_ok_def attempts_ok_def)
  have Pk: "\<forall>y. ?P y \<longrightarrow> jr_job_id y = jr_job_id r" by (simp add: holds_now_def job_def)
  have Qk: "\<forall>b. ?Q b \<longrightarrow> (ja_job_id b, ja_attempt b) = (ja_job_id a, ja_attempt a)" using Q by simp
  note oneP = upd_one[where P = ?P, OF dj hh(2) Pk P] and oneQ = upd_one[where P = ?Q, OF da hh(3) Qk Q]
  let ?J = "upd ?P (finish_row status ?av ?fin ?code now) (db_jobs db)"
  let ?A = "upd ?Q (finish_attempt status ?av ?h ?code now) (db_attempts db)"
  have uj: "sql_update JobUnavailable check_job ?P (finish_row status ?av ?fin ?code now) (db_jobs db) = Ok (?J, 1)"
    unfolding sql_update_Ok using oneP chk unfolding r'_def by auto
  have ua: "sql_update JobUnavailable check_attempt ?Q (finish_attempt status ?av ?h ?code now) (db_attempts db) = Ok (?A, 1)"
    unfolding sql_update_Ok using oneQ chka by auto
  have in': "r' \<in> set ?J" using hh(2) P unfolding r'_def by force
  have "map jr_job_id ?J = map jr_job_id (db_jobs db)" by (simp add: finish_row_def)
  then have "distinct (map jr_job_id ?J)" using dj by presburger
  then have f: "find_job \<lparr>db_jobs = ?J, db_attempts = ?A\<rparr> (jr_job_id r) = Some r'"
    using find_job_unique[of "\<lparr>db_jobs = ?J, db_attempts = ?A\<rparr>" r'] in' by (simp add: r'_def finish_row_def)
  have ro: "row_ok E canonical r" using hh(1,2) by (simp add: db_inv_def jobs_ok_def)
  have rec: "record_row E canonical r' = Ok (JobRecord.truncate r')"
    by (rule record_row_Ok) (use finish_row_ok[OF ro] chk in \<open>simp add: r'_def\<close>)
  have ex: "existing_completion E canonical db lease result = Ok None"
    using d(3,4,10) by (simp add: existing_completion_def)
  have act: "validate_active_completion r job lease result now = Ok ()"
    using hh now(2) by (auto simp: validate_active_completion_def job_def)
  obtain h code where oc: "outcome_columns result = (h, code)" by force
  note cols = oc fst_conv snd_conv
  have id: "jr_job_id r = jr_job_id job" and sd: "outcome_status job result = status" by (simp_all add: job_def status_def)
  have "complete_in E canonical lease result now db = Ok (\<lparr>db_jobs = ?J, db_attempts = ?A\<rparr>, Applied (JobRecord.truncate r'))"
    unfolding complete_in_def ex d(1) rbind.simps option.case ok_or.simps d(2)[folded job_def] act cols prod.case Let_def
      tr(1)[unfolded sd] uj[unfolded cols] ua[unfolded cols] ensure_def if_P[OF refl] f[unfolded id cols] rec ..
  then show ?thesis using v bounds(4) f by (simp add: complete_job_def transaction_def)
qed

text \<open>After a cancellation request only the outcome of a cancellation is accepted.\<close>

lemma complete_refused:
  assumes h: "holder E canonical db lease r a" and v: "validate_outcome result = Ok ()" "0 \<le> now"
    and c: "jr_cancellation_requested_at r \<noteq> None" "result \<noteq> OutCancelled"
  shows "complete_job E canonical db lease result now = (db, Err JobConflict)"
proof -
  note d = holderD[OF h]
  have "existing_completion E canonical db lease result = Ok None" using d(3,4,10) by (simp add: existing_completion_def)
  moreover have "validate_active_completion r (JobRecord.truncate r) lease result now = Err JobConflict"
    using h c by (simp add: validate_active_completion_def holder_def)
  ultimately have "complete_in E canonical lease result now db = Err JobConflict" using d(1,2) by (simp add: complete_in_def)
  then show ?thesis using v by (simp add: complete_job_def transaction_def)
qed

section \<open>A lease stays with its worker\<close>

text \<open>What no step changes of a recorded attempt.\<close>

definition attempt_key :: "AttemptRow \<Rightarrow> string \<times> nat \<times> nat \<times> string \<times> millis" where
  "attempt_key a = (ja_job_id a, ja_attempt a, ja_lease_generation a, ja_worker_id a, ja_leased_at a)"

definition attempts_kept :: "JobDb \<Rightarrow> JobDb \<Rightarrow> bool" where
  "attempts_kept db db' \<longleftrightarrow> attempt_key ` set (db_attempts db) \<subseteq> attempt_key ` set (db_attempts db')"

lemma attempts_kept_refl [simp]: "attempts_kept db db"
  by (simp add: attempts_kept_def)

lemma attempts_kept_update:
  assumes "\<And>a. attempt_key (g a) = attempt_key a"
  shows "attempt_key ` set A \<subseteq> attempt_key ` set (upd Q g A)"
proof
  fix k assume "k \<in> attempt_key ` set A"
  then obtain a where a: "a \<in> set A" "k = attempt_key a" by blast
  then show "k \<in> attempt_key ` set (upd Q g A)"
    using assms by (intro rev_image_eqI[of "if Q a then g a else a"]) auto
qed

lemma attempt_key_keeps [simp]:
  "attempt_key (finish_attempt st av h code now a) = attempt_key a" "attempt_key (abandon db now a) = attempt_key a"
  "attempt_key (a\<lparr>ja_lease_expires_at := e\<rparr>) = attempt_key a"
  by (simp_all add: attempt_key_def finish_attempt_def abandon_def Let_def)

lemma transaction_kept: "(\<And>db' x. f db = Ok (db', x) \<Longrightarrow> attempts_kept db db') \<Longrightarrow> attempts_kept db (fst (transaction f db))"
  by (cases "f db") (auto simp: transaction_def)

lemma renew_kept: "attempts_kept db (fst (renew_job db lease now duration))"
proof -
  have "attempts_kept db db'" if "renew_in lease now e db = Ok (db', x)" for e db' x
    unfolding renew_in_Ok(1)[OF that] attempts_kept_def JobDb.select_convs by (rule attempts_kept_update) simp
  then show ?thesis by (auto simp: renew_job_def intro!: transaction_kept split: option.splits)
qed

lemma complete_kept: "attempts_kept db (fst (complete_job E canonical db lease result now))"
proof -
  have "attempts_kept db db'" if c: "complete_in E canonical lease result now db = Ok (db', x)" for db' x
  proof (cases x)
    case (Applied job)
    from complete_in_Applied[OF c[unfolded Applied]] obtain row :: JobRow and st av fin where
      d: "db' = \<lparr>db_jobs = upd (holds_now (jr_job_id row) (jr_attempt row) lease now)
           (finish_row st av fin (snd (outcome_columns result)) now) (db_jobs db),
         db_attempts = upd (\<lambda>a. ja_job_id a = jr_job_id row \<and> ja_attempt a = jr_attempt row
             \<and> ja_lease_generation a = jl_lease_generation lease \<and> ja_finished_at a = None)
           (finish_attempt st av (fst (outcome_columns result)) (snd (outcome_columns result)) now) (db_attempts db)\<rparr>" by blast
    show ?thesis unfolding d attempts_kept_def JobDb.select_convs by (rule attempts_kept_update) simp
  next
    case (AlreadyApplied job)
    then show ?thesis using complete_in_AlreadyApplied c by (metis attempts_kept_refl)
  qed
  then show ?thesis by (auto simp: complete_job_def intro!: transaction_kept)
qed

lemma claim_kept:
  assumes inv: "db_inv E canonical db"
  shows "attempts_kept db (fst (claim_job E canonical db request))"
proof -
  have rec: "attempts_kept db db1" if "recover_expired db now = Ok db1" for now db1
    unfolding recover_expired_Ok(1)[OF that] attempts_kept_def JobDb.select_convs by (rule attempts_kept_update) simp
  have "attempts_kept db db3" if c: "claim_in E canonical request e db = Ok (db3, x)" for e db3 x
  proof (cases x)
    case None
    then show ?thesis using c rec by (auto simp: claim_in_def Let_def elim!: rbind_OkE split: option.splits)
  next
    case (Some lease)
    from claim_in_Some[OF inv c[unfolded Some]] obtain db1 J new where
      d: "recover_expired db (cj_now request) = Ok db1" "db3 = \<lparr>db_jobs = J, db_attempts = db_attempts db1 @ [new]\<rparr>" by blast
    then show ?thesis using rec[OF d(1)] by (auto simp: attempts_kept_def)
  qed
  then show ?thesis by (auto simp: claim_job_def intro!: transaction_kept split: option.splits)
qed

lemma cancel_kept: "attempts_kept db (fst (cancel_write db job_id status now))"
proof -
  have "attempts_kept db (db\<lparr>db_jobs := J\<rparr>)" for J by (simp add: attempts_kept_def)
  then show ?thesis unfolding cancel_write_def by (auto elim!: rbind_OkE case_prod_OkE intro!: transaction_kept)
qed

lemma enqueue_kept: "attempts_kept db (fst (enqueue_job E canonical db job now))"
  by (auto simp: enqueue_job_def attempts_kept_def Let_def split: outcome.splits)

lemma job_steps_kept: "(job_step E canonical)\<^sup>*\<^sup>* db db' \<Longrightarrow> db_inv E canonical db \<Longrightarrow> attempts_kept db db'"
proof (induction rule: rtranclp_induct)
  case (step db' db'')
  have "attempts_kept db' db''" using step.hyps(2) job_steps_inv[OF step.hyps(1) step.prems]
    by (induction rule: job_step.induct) (auto intro: enqueue_kept claim_kept renew_kept complete_kept cancel_kept)
  then show ?case using step.IH[OF step.prems] by (auto simp: attempts_kept_def)
qed (simp add: attempts_kept_def)

text \<open>However many steps later, a lease whose attempt is open is held by the worker that claimed it.\<close>

lemma open_lease_held:
  assumes inv: "db_inv E canonical db" and c: "claim_job E canonical db request = (db1, Ok (Some lease))"
    and steps: "(job_step E canonical)\<^sup>*\<^sup>* db1 db2" and a: "a \<in> set (db_attempts db2)" "attempt_of lease a" "ja_finished_at a = None"
  shows "\<exists>r. holder E canonical db2 lease r a \<and> jr_max_attempts r = jr_max_attempts (jl_job lease)
    \<and> jr_retry_initial_ms r = jr_retry_initial_ms (jl_job lease) \<and> jr_retry_max_ms r = jr_retry_max_ms (jl_job lease)"
proof -
  obtain r1 a1 where h: "holder E canonical db1 lease r1 a1" "jl_job lease = JobRecord.truncate r1" using claim_holder[OF inv c] by blast
  then have inv1: "db_inv E canonical db1" and a1: "a1 \<in> set (db_attempts db1)" "attempt_of lease a1" and r1: "r1 \<in> set (db_jobs db1)"
    by (simp_all add: holder_def)
  note inv2 = job_steps_inv[OF steps inv1]
  have ok: "jobs_ok E canonical (db_jobs db2)" "attempts_ok (db_attempts db2)" using inv2 by (simp_all add: db_inv_def)
  obtain a' where a': "a' \<in> set (db_attempts db2)" "attempt_key a' = attempt_key a1"
    using job_steps_kept[OF steps inv1] a1(1) by (force simp: attempts_kept_def image_iff)
  then have "a' = a" using attempt_of_current[OF ok(2) a'(1) a(1)] a(2) a1(2) by (simp add: attempt_key_def attempt_of_def)
  then have w: "ja_worker_id a = jl_worker_id lease" "ja_leased_at a = jl_leased_at lease"
    using a'(2) h(1) by (simp_all add: attempt_key_def holder_def) 
  obtain r where r: "r \<in> set (db_jobs db2)" "lease_of a r" using inv2 a(1,3) by (auto simp: db_inv_def linked_def)
  obtain r' where r': "r' \<in> set (db_jobs db2)" "row_after r1 r'" using job_steps_later[OF steps inv1] r1 by (auto simp: later_def)
  have "r' = r"
    using unique_key[of jr_job_id "db_jobs db2" r' r] ok(1) r'(1) r row_after_id[OF r'(2)] a(2) h(1)
    by (simp add: jobs_ok_def lease_of_def attempt_of_def holder_def)
  then have i: "row_input r = (row_input r1)\<lparr>nj_available_at := jr_available_at r\<rparr>" "jr_created_at r = jr_created_at r1"
    using r'(2) by (simp_all add: row_after_def)
  have g: "ja_lease_generation a = ja_attempt a" "jr_lease_generation r = jr_attempt r"
    using ok r(1) a(1) by (auto simp: attempts_ok_def jobs_ok_def row_ok_def)
  have "holder E canonical db2 lease r a"
    using inv2 r a w g i(2) h(1) by (auto simp: holder_def lease_of_def attempt_of_def)
  moreover have "jr_max_attempts r = jr_max_attempts r1" "jr_retry_initial_ms r = jr_retry_initial_ms r1" "jr_retry_max_ms r = jr_retry_max_ms r1"
    using arg_cong[OF i(1), of nj_max_attempts] arg_cong[OF i(1), of nj_retry_initial_ms] arg_cong[OF i(1), of nj_retry_max_ms]
    by (simp_all add: row_input_def)
  ultimately show ?thesis by (auto simp: h(2) JobRecord.defs)
qed

end
