(* ===== verification/JobTheorems.thy ===== *)
theory JobTheorems
  imports JobLive
begin

text \<open>
  A small queue to apply the theorems to, and the theorems about jobs.
\<close>

lemma attempt_numbers:
  assumes "jobs_ok E canonical J" "attempts_ok A" "linked J A" "r \<in> set J"
  shows "ja_attempt ` {a \<in> set A. ja_job_id a = jr_job_id r} = {1..jr_attempt r}"
proof (intro equalityI subsetI)
  fix k assume "k \<in> ja_attempt ` {a \<in> set A. ja_job_id a = jr_job_id r}"
  then obtain a where a: "a \<in> set A" "ja_job_id a = jr_job_id r" "k = ja_attempt a" by blast
  obtain q where "q \<in> set J" "jr_job_id q = ja_job_id a" "ja_attempt a \<le> jr_attempt q" using linkedD(1)[OF assms(3) a(1)] by blast
  then have "ja_attempt a \<le> jr_attempt r" using unique_key[of jr_job_id J q r] assms(1,4) a(2) by (simp add: jobs_ok_def)
  moreover have "0 < ja_attempt a" using assms(2) a(1) by (simp add: attempts_ok_def check_attempt_def)
  ultimately show "k \<in> {1..jr_attempt r}" using a(3) by simp
next
  fix k assume "k \<in> {1..jr_attempt r}"
  then show "k \<in> ja_attempt ` {a \<in> set A. ja_job_id a = jr_job_id r}"
    using linkedD(2)[OF assms(3,4), of k] by force
qed

lemma open_attempt:
  assumes "jobs_ok E canonical J" "attempts_ok A" "linked J A" "a \<in> set A" "ja_finished_at a = None"
  shows "\<exists>r \<in> set J. jr_job_id r = ja_job_id a \<and> jr_status r = Leased \<and> jr_lease_generation r = ja_lease_generation a
    \<and> jr_owner r = Some (ja_worker_id a) \<and> jr_lease_expires_at r = Some (ja_lease_expires_at a)"
proof -
  obtain r where "r \<in> set J" "lease_of a r" using linkedD(3)[OF assms(3-5)] by blast
  then show ?thesis using assms(1,2,4) by (intro bexI[of _ r]) (auto simp: lease_of_def jobs_ok_def row_ok_def attempts_ok_def)
qed

lemma claim_first:
  assumes inv: "db_inv E canonical db" and c: "claim_job E canonical db request = (db', Ok (Some lease))"
  shows "\<exists>r \<in> set (db_jobs db). claimable request r
    \<and> (\<forall>q \<in> set (db_jobs db). claimable request q \<longrightarrow> claim_order r \<le> claim_order q)
    \<and> jl_job lease = JobRecord.truncate (lease_row request (cj_now request + cj_lease_duration_ms request) r)
    \<and> find_job db' (jr_job_id r) = Some (lease_row request (cj_now request + cj_lease_duration_ms request) r)
    \<and> jl_lease_generation lease = Suc (jr_lease_generation r) \<and> jl_worker_id lease = cj_worker_id request"
proof -
  let ?e = "cj_now request + cj_lease_duration_ms request"
  from claim_job_Some[OF inv c] obtain db1 :: JobDb and r :: JobRow where d: "recover_expired db (cj_now request) = Ok db1" "r \<in> set (db_jobs db1)"
    "claimable request r" "\<forall>q \<in> set (db_jobs db1). claimable request q \<longrightarrow> claim_order r \<le> claim_order q"
    "db_jobs db' = upd (\<lambda>q. jr_job_id q = jr_job_id r) (lease_row request ?e) (db_jobs db1)"
    "jl_job lease = JobRecord.truncate (lease_row request ?e r)" "jl_worker_id lease = cj_worker_id request"
    "jl_lease_generation lease = jr_lease_generation r + 1" by blast
  have "distinct (map jr_job_id (db_jobs db'))" using claim_inv[OF inv, of request] c by (simp add: db_inv_def jobs_ok_def)
  moreover have "lease_row request ?e r \<in> set (db_jobs db')" using d(2) by (force simp: d(5))
  ultimately have "find_job db' (jr_job_id r) = Some (lease_row request ?e r)" using find_job_unique by fastforce
  moreover have "q \<in> set (db_jobs db1) \<longleftrightarrow> q \<in> set (db_jobs db)" if "claimable request q" for q
    using arg_cong[OF recover_claimable[OF d(1)], of set] that by auto
  ultimately show ?thesis using d by (intro bexI[of _ r]) auto
qed

lemma finished_simps:
  "jr_job_id (finish_row st av fin code now r) = jr_job_id r" "jr_attempt (finish_row st av fin code now r) = jr_attempt r"
  "jr_status (finish_row st av fin code now r) = st" "jr_available_at (finish_row st av fin code now r) = av"
  "jr_owner (JobRecord.truncate (finish_row st av fin code now r)) = None"
  by (simp_all add: finish_row_def JobRecord.defs)

lemma truncate_retry:
  "jr_retry_initial_ms (JobRecord.truncate r) = jr_retry_initial_ms r" "jr_retry_max_ms (JobRecord.truncate r) = jr_retry_max_ms r"
  by (simp_all add: JobRecord.defs)

text \<open>The stored job of an id.\<close>

definition load_row :: "JobDb \<Rightarrow> string \<Rightarrow> JobRecord option" where
  "load_row db i = map_option JobRecord.truncate (find_job db i)"

lemma claim_generation:
  assumes "db_inv E canonical db" "claim_job E canonical db request = (db', Ok (Some lease))"
  shows "generation_of db' (jr_job_id (jl_job lease)) = jl_lease_generation lease" "db_inv E canonical db'"
  using claim_fresh(2)[OF assms] claim_inv[OF assms(1), of request] assms(2) by simp_all

lemma complete_in_job:
  assumes "complete_in E canonical lease result now db = Ok (db', Applied job)"
  shows "\<exists>r. find_job db' (jr_job_id (jl_job lease)) = Some r \<and> JobRecord.truncate r = job"
proof -
  obtain row where row: "find_job db (jr_job_id (jl_job lease)) = Some row" "record_row E canonical row = Ok (JobRecord.truncate row)"
    using complete_in_Applied[OF assms] by blast
  obtain r where "find_job db' (jr_job_id row) = Some r" "record_row E canonical r = Ok job"
    using assms row unfolding complete_in_def Let_def
    by (auto elim!: rbind_OkE case_prod_OkE split: option.splits prod.splits)
  then show ?thesis using find_job_Some[OF row(1)] by (auto simp: record_row_def split: if_splits)
qed

section \<open>A small queue\<close>

definition demo_job :: NewJob where
  "demo_job = \<lparr>nj_schema_version = 1, nj_job_id = ''job-1'', nj_kind = ''match'', nj_payload_schema_version = 1,
     nj_payload_json = [123, 125], nj_priority = 0, nj_available_at = 0, nj_max_attempts = 2,
     nj_retry_initial_ms = 10, nj_retry_max_ms = 100, nj_deduplication_key = ''key''\<rparr>"

definition demo_sha :: string where
  "demo_sha = hex_lower (env_sha256 demo_env [123, 125])"

definition demo_claim :: "string \<Rightarrow> millis \<Rightarrow> ClaimJobs" where
  "demo_claim w now = \<lparr>cj_worker_id = w, cj_kinds = {''match''}, cj_now = now, cj_lease_duration_ms = 50\<rparr>"

abbreviation any_json :: "byte list \<Rightarrow> bool" where
  "any_json \<equiv> \<lambda>_. True"

lemma demo_sha_valid: "valid_sha256 demo_sha"
  unfolding demo_sha_def by (rule hex_lower_valid) (use demo_env_sha256_ok in \<open>simp add: sha256_ok_def\<close>)

lemmas demo_texts = valid_id_def is_trimmed_def trim_chars_def is_whitespace_def utf8_chars_def is_control_def
  text_between_def valid_kind_def kind_byte_def ascii_lower_def ascii_digit_def

lemma demo_job_valid: "validate_new_job any_json demo_job = Ok ()"
  by (simp add: validate_new_job_def demo_job_def demo_texts ensure_def JOB_SCHEMA_VERSION_def
      JOB_PAYLOAD_MAX_BYTES_def JOB_MAX_ATTEMPTS_def JOB_MAX_BACKOFF_MS_def)

definition demo_row :: JobRow where
  "demo_row = new_row demo_job demo_sha 0"

lemma demo_row_check: "check_job demo_row"
  by (simp add: check_job_def demo_row_def new_row_def demo_job_def demo_sha_valid null_or_def demo_texts)

definition demo_db :: JobDb where
  "demo_db = \<lparr>db_jobs = [demo_row], db_attempts = []\<rparr>"

lemma demo_row_ok: "row_ok demo_env any_json demo_row"
  using demo_row_check demo_job_valid
  by (simp add: row_ok_def row_input_def) (simp add: demo_row_def new_row_def demo_sha_def demo_job_def)

lemma demo_enqueue: "enqueue_job demo_env any_json empty_db demo_job 0 = (demo_db, Ok (Inserted (JobRecord.truncate demo_row)))"
proof -
  have p: "job_payload_sha256 demo_env any_json demo_job = Ok demo_sha"
    by (simp add: job_payload_sha256_def demo_job_valid demo_sha_def) (simp add: demo_job_def)
  have "valid_id 256 (nj_job_id demo_job)" by (simp add: demo_job_def demo_texts)
  moreover have "find_job demo_db (nj_job_id demo_job) = Some demo_row"
    by (simp add: find_job_def demo_db_def demo_row_def new_row_def)
  ultimately have "load_job demo_env any_json demo_db (nj_job_id demo_job) = Ok (JobRecord.truncate demo_row)"
    using record_row_Ok[OF demo_row_ok] by (simp add: load_job_def validate_id_def ensure_def)
  then show ?thesis
    using demo_job_valid p demo_row_check
    by (simp add: enqueue_job_def empty_db_def unique_violation_def Let_def demo_db_def flip: demo_row_def)
qed

lemma demo_db_inv: "db_inv demo_env any_json demo_db"
  using enqueue_inv[OF empty_db_inv, of demo_env any_json demo_job 0] demo_enqueue by simp

text \<open>A worker claims the job at time 1; its lease ends at 51.\<close>

definition demo_held :: JobRow where
  "demo_held = lease_row (demo_claim ''w1'' 1) 51 demo_row"

definition demo_attempt :: AttemptRow where
  "demo_attempt = new_attempt (JobRecord.truncate demo_held) (demo_claim ''w1'' 1) 51"

definition demo_lease :: JobLease where
  "demo_lease = \<lparr>jl_job = JobRecord.truncate demo_held, jl_worker_id = ''w1'', jl_lease_generation = 1,
     jl_leased_at = 1, jl_lease_expires_at = 51\<rparr>"

definition demo_claimed :: JobDb where
  "demo_claimed = \<lparr>db_jobs = [demo_held], db_attempts = [demo_attempt]\<rparr>"

lemmas demo_rows = demo_row_def new_row_def demo_job_def demo_claim_def

lemma demo_claim_simps [simp]: "cj_now (demo_claim w t) = t" "cj_worker_id (demo_claim w t) = w"
  "cj_lease_duration_ms (demo_claim w t) = 50" "cj_kinds (demo_claim w t) = {''match''}"
  by (simp_all add: demo_claim_def)

lemma demo_held_ok: "row_ok demo_env any_json demo_held"
proof -
  have "row_input demo_held = row_input demo_row" by (simp add: demo_held_def row_input_def lease_row_def)
  moreover have "check_job demo_held"
    by (simp add: check_job_def demo_held_def lease_row_def demo_rows demo_sha_valid null_or_def demo_texts)
  ultimately show ?thesis using demo_row_ok by (simp add: row_ok_def demo_held_def)  (simp add: lease_row_def demo_rows)
qed

lemma demo_claim_valid: "validate_claim (demo_claim ''w1'' now) = Ok () \<longleftrightarrow> 0 \<le> now" "validate_claim (demo_claim ''w2'' now) = Ok () \<longleftrightarrow> 0 \<le> now"
  by (simp_all add: validate_claim_def demo_claim_def demo_texts ensure_def JOB_MAX_LEASE_MS_def)

lemma demo_claims: "claim_job demo_env any_json demo_db (demo_claim ''w1'' 1) = (demo_claimed, Ok (Some demo_lease))"
proof -
  have rec: "recover_expired demo_db 1 = Ok demo_db"
    by (simp add: recover_expired_def sql_update_def demo_db_def given_up_def demo_rows)
  have nxt: "next_claim (demo_claim ''w1'' 1) demo_db = Some ''job-1''"
    by (simp add: next_claim_def demo_db_def claimable_def demo_rows)
  have chk: "check_job demo_held" using demo_held_ok by (simp add: row_ok_def)
  have id: "jr_job_id demo_row = ''job-1''" by (simp add: demo_rows)
  have id': "jr_job_id demo_held = ''job-1''" by (simp add: demo_held_def id)
  have ins: "insert_attempt \<lparr>db_jobs = [demo_held], db_attempts = []\<rparr> demo_attempt = Ok demo_claimed"
    by (simp add: insert_attempt_def demo_claimed_def check_attempt_def demo_attempt_def find_job_def null_or_def demo_texts)
      (simp add: demo_held_def demo_rows lease_row_def new_attempt_def)
  have gen: "jr_lease_generation demo_held = 1" by (simp add: demo_held_def demo_rows)
  have "claim_in demo_env any_json (demo_claim ''w1'' 1) 51 demo_db = Ok (demo_claimed, Some demo_lease)"
    using rec nxt chk record_row_Ok[OF demo_held_ok] ins gen
    by (simp add: claim_in_def sql_update_def demo_db_def id id' find_job_def as_i64_def try_from_def demo_lease_def
        flip: demo_held_def demo_attempt_def)
  then show ?thesis
    by (simp add: claim_job_def demo_claim_valid transaction_def checked_add_signed_def signed_range_def)
qed

lemma demo_held_id: "jr_job_id demo_held = ''job-1''" "jr_attempt demo_held = 1" "jr_lease_generation demo_held = 1"
  by (simp_all add: demo_held_def demo_rows)

lemma demo_queue_reachable: "job_reachable demo_env any_json demo_db" "job_reachable demo_env any_json demo_claimed"
proof -
  have "job_step demo_env any_json empty_db demo_db"
    using step_enqueue[of demo_env any_json empty_db demo_job 0] demo_enqueue by simp
  then show d: "job_reachable demo_env any_json demo_db" by blast
  have "job_step demo_env any_json demo_db demo_claimed"
    using step_claim[of demo_env any_json demo_db "demo_claim ''w1'' 1"] demo_claims by simp
  then show "job_reachable demo_env any_json demo_claimed" using d by (rule rtranclp.rtrancl_into_rtrancl[rotated])
qed

lemmas demo_queue_inv = demo_queue_reachable[THEN job_reachable_inv]

lemma demo_lease_times: "jl_leased_at demo_lease = 1" "jl_lease_expires_at demo_lease = 51"
  by (simp_all add: demo_lease_def)

lemma demo_done:
  "\<exists>db1 job. complete_job demo_env any_json demo_claimed demo_lease OutSucceeded 5 = (db1, Ok (Applied job)) \<and> jr_status job = Succeeded"
proof -
  obtain r a where h: "holder demo_env any_json demo_claimed demo_lease r a" and "ja_lease_expires_at a = 51" "jr_cancellation_requested_at r = None"
    using claim_holder[OF demo_queue_inv(1) demo_claims] demo_lease_times by auto
  with complete_serves[OF h, of OutSucceeded 5] show ?thesis
    by (auto simp: demo_lease_times JOB_MAX_BACKOFF_MS_def outcome_status_def finished_simps)
qed

lemma demo_steps: "(job_step demo_env any_json)\<^sup>*\<^sup>* demo_db demo_claimed"
  using step_claim[of demo_env any_json demo_db "demo_claim ''w1'' 1"] demo_claims by auto

definition demo_worker :: JobWorker where
  "demo_worker = \<lparr>jw_worker_id = ''w1'', jw_lease_duration_ms = 50, jw_kind = ''match'', jw_handle = (\<lambda>_. OutSucceeded)\<rparr>"

section \<open>The job queue\<close>

text \<open>
  Claim C23. In every reachable state of the tables, under any interleaving of calls, jobs are unique
  by id and by kind and deduplication key, every stored row decodes, the lease generation counts
  the attempts and stays within the limit, the recorded attempts of a job are exactly \<open>1\<close> to its
  current one, and an open attempt belongs to the current lease of its job.
\<close>

theorem job_tables_stay_valid:
  assumes "job_reachable E canonical db"
  shows "distinct (map jr_job_id (db_jobs db)) \<and> distinct (map (\<lambda>r. (jr_kind r, jr_deduplication_key r)) (db_jobs db))
    \<and> (\<forall>r \<in> set (db_jobs db). record_row E canonical r = Ok (JobRecord.truncate r)
        \<and> jr_lease_generation r = jr_attempt r \<and> jr_attempt r \<le> jr_max_attempts r
        \<and> ja_attempt ` {a \<in> set (db_attempts db). ja_job_id a = jr_job_id r} = {1..jr_attempt r})
    \<and> (\<forall>a \<in> set (db_attempts db). ja_finished_at a = None \<longrightarrow>
        (\<exists>r \<in> set (db_jobs db). jr_job_id r = ja_job_id a \<and> jr_status r = Leased \<and> jr_lease_generation r = ja_lease_generation a
          \<and> jr_owner r = Some (ja_worker_id a) \<and> jr_lease_expires_at r = Some (ja_lease_expires_at a)))"
proof -
  have inv: "jobs_ok E canonical (db_jobs db)" "attempts_ok (db_attempts db)" "linked (db_jobs db) (db_attempts db)"
    using job_reachable_inv[OF assms] by (simp_all add: db_inv_def)
  have "record_row E canonical r = Ok (JobRecord.truncate r) \<and> jr_lease_generation r = jr_attempt r \<and> jr_attempt r \<le> jr_max_attempts r
      \<and> ja_attempt ` {a \<in> set (db_attempts db). ja_job_id a = jr_job_id r} = {1..jr_attempt r}"
    if r: "r \<in> set (db_jobs db)" for r
  proof -
    have ok: "row_ok E canonical r" using inv(1) r by (simp add: jobs_ok_def)
    moreover have "ja_attempt ` {a \<in> set (db_attempts db). ja_job_id a = jr_job_id r} = {1..jr_attempt r}"
      using attempt_numbers[OF inv r] .
    ultimately show ?thesis using record_row_Ok[OF ok] by (simp add: row_ok_def check_job_def)
  qed
  moreover have "\<exists>r \<in> set (db_jobs db). jr_job_id r = ja_job_id a \<and> jr_status r = Leased \<and> jr_lease_generation r = ja_lease_generation a
      \<and> jr_owner r = Some (ja_worker_id a) \<and> jr_lease_expires_at r = Some (ja_lease_expires_at a)"
    if a: "a \<in> set (db_attempts db)" "ja_finished_at a = None" for a
    using open_attempt[OF inv a] .
  ultimately show ?thesis using inv(1) by (simp add: jobs_ok_def)
qed

theorem job_tables_stay_valid_witness:
  "job_reachable demo_env any_json demo_claimed \<and> record_row demo_env any_json demo_held = Ok (JobRecord.truncate demo_held)
    \<and> ja_attempt ` {a \<in> set (db_attempts demo_claimed). ja_job_id a = ''job-1''} = {1..1}"
  using job_tables_stay_valid[OF demo_queue_reachable(2)] demo_queue_reachable(2) demo_held_id
  by (simp add: demo_claimed_def)

text \<open>
  Claim C24. Whenever a worker asks for work and no clock ran backwards, it gets none exactly when no
  job of its kinds is claimable, and otherwise the claimable job that is first by priority, availability,
  age and id, with a lease of the next generation that the table records. No other answer is possible.
\<close>

theorem claims_serve_the_first_job:
  assumes "job_reachable E canonical db" "good_claim request" "cj_now request + cj_lease_duration_ms request < 2 ^ 63"
    "\<forall>r \<in> set (db_jobs db). jr_created_at r \<le> cj_now request"
  shows "case claim_job E canonical db request of
      (db', Ok None) \<Rightarrow> \<not> (\<exists>r \<in> set (db_jobs db). claimable request r)
    | (db', Ok (Some lease)) \<Rightarrow> (\<exists>r \<in> set (db_jobs db). claimable request r
        \<and> (\<forall>q \<in> set (db_jobs db). claimable request q \<longrightarrow> claim_order r \<le> claim_order q)
        \<and> jl_job lease = JobRecord.truncate (lease_row request (cj_now request + cj_lease_duration_ms request) r)
        \<and> find_job db' (jr_job_id r) = Some (lease_row request (cj_now request + cj_lease_duration_ms request) r)
        \<and> jl_lease_generation lease = Suc (jr_lease_generation r) \<and> jl_worker_id lease = cj_worker_id request)
    | _ \<Rightarrow> False"
proof (cases "\<exists>r \<in> set (db_jobs db). claimable request r")
  case False
  then obtain db' where "claim_job E canonical db request = (db', Ok None)"
    using claim_idle[OF job_reachable_inv[OF assms(1)] assms(2,3)] by blast
  then show ?thesis using False by simp
next
  case True
  note inv = job_reachable_inv[OF assms(1)]
  obtain db' lease where c: "claim_job E canonical db request = (db', Ok (Some lease))"
    using claim_serves[OF inv assms(2,3) _ True] assms(4) by blast
  show ?thesis using claim_first[OF inv c] by (simp add: c)
qed

theorem claims_serve_the_first_job_witness:
  "claim_job demo_env any_json demo_db (demo_claim ''w1'' 1) = (demo_claimed, Ok (Some demo_lease))
    \<and> claimable (demo_claim ''w1'' 1) demo_row \<and> find_job demo_claimed ''job-1'' = Some demo_held"
proof -
  have "good_claim (demo_claim ''w1'' 1)" by (simp add: demo_claim_valid utf8_chars_def)
  moreover have "db_jobs demo_db = [demo_row]" "jr_created_at demo_row = 0" "jr_job_id demo_row = ''job-1''"
    by (simp_all add: demo_db_def demo_rows)
  ultimately show ?thesis
    using claims_serve_the_first_job[OF demo_queue_reachable(1), of "demo_claim ''w1'' 1"] by (simp add: demo_claims demo_held_def)
qed

text \<open>
  Claim C25. A worker completes a job it claimed, however many calls later, while its attempt is still
  open and before the expiry the table records for it (renewals included). If a cancellation of the job was
  requested and the outcome is not that of a cancellation, the answer is a conflict and nothing changes.
  Otherwise the outcome is applied: success, permanent failure and cancellation end the job, a
  retryable failure ends it only when its attempts are used up, and otherwise returns it to the queue
  after the backoff, which doubles from the initial delay up to the maximum without overflow.
\<close>

theorem completions_are_applied:
  assumes "job_reachable E canonical db" "claim_job E canonical db request = (db1, Ok (Some lease))" "(job_step E canonical)\<^sup>*\<^sup>* db1 db2"
    "a \<in> set (db_attempts db2)" "attempt_of lease a" "ja_finished_at a = None"
    "validate_outcome result = Ok ()" "jl_leased_at lease \<le> now" "now < ja_lease_expires_at a" "now + JOB_MAX_BACKOFF_MS < 2 ^ 63"
  shows "\<exists>current. load_row db2 (jr_job_id (jl_job lease)) = Some current \<and>
    (if jr_cancellation_requested_at current \<noteq> None \<and> result \<noteq> OutCancelled
     then complete_job E canonical db2 lease result now = (db2, Err JobConflict)
     else \<exists>db3 job. complete_job E canonical db2 lease result now = (db3, Ok (Applied job))
      \<and> load_row db3 (jr_job_id job) = Some job \<and> jr_job_id job = jr_job_id (jl_job lease)
      \<and> jr_status job = (case result of OutSucceeded \<Rightarrow> Succeeded | OutPermanent _ \<Rightarrow> PermanentFailure | OutCancelled \<Rightarrow> JobCancelled
          | OutRetryable _ \<Rightarrow> if jr_attempt (jl_job lease) < jr_max_attempts (jl_job lease) then Queued else Exhausted)
      \<and> jr_available_at job = (if jr_status job = Queued
          then now + min (jr_retry_initial_ms (jl_job lease) * 2 ^ (jr_attempt (jl_job lease) - 1)) (jr_retry_max_ms (jl_job lease))
          else jr_available_at current)
      \<and> jr_attempt job = jr_attempt (jl_job lease) \<and> jr_owner job = None)"
proof -
  obtain r where h: "holder E canonical db2 lease r a" and l: "jr_max_attempts r = jr_max_attempts (jl_job lease)"
    "jr_retry_initial_ms r = jr_retry_initial_ms (jl_job lease)" "jr_retry_max_ms r = jr_retry_max_ms (jl_job lease)"
    using open_lease_held[OF job_reachable_inv[OF assms(1)] assms(2-6)] by blast
  have id: "jr_job_id (jl_job lease) = jr_job_id r" "jr_attempt (jl_job lease) = jr_attempt r" using h by (simp_all add: holder_def)
  have row: "load_row db2 (jr_job_id (jl_job lease)) = Some (JobRecord.truncate r)" using holderD(1)[OF h] by (simp add: load_row_def)
  have "0 \<le> now" using assms(8) h holderD(6)[OF h] by (simp add: holder_def check_attempt_def)
  show ?thesis
  proof (cases "jr_cancellation_requested_at r \<noteq> None \<and> result \<noteq> OutCancelled")
    case True
    then show ?thesis using row complete_refused[OF h assms(7) \<open>0 \<le> now\<close>] by (intro exI[of _ "JobRecord.truncate r"]) simp
  next
    case False
    let ?st = "outcome_status (JobRecord.truncate r) result"
    let ?q = "finish_row ?st (if ?st = Queued then retry_at (JobRecord.truncate r) now else jr_available_at (JobRecord.truncate r))
        (if ?st = Queued then None else Some now) (snd (outcome_columns result)) now r"
    obtain db3 where
      c: "complete_job E canonical db2 lease result now = (db3, Ok (Applied (JobRecord.truncate ?q)))" "find_job db3 (jr_job_id r) = Some ?q"
      using complete_serves[OF h assms(7-10)] False by blast
    have "\<exists>db3 job. complete_job E canonical db2 lease result now = (db3, Ok (Applied job))
      \<and> load_row db3 (jr_job_id job) = Some job \<and> jr_job_id job = jr_job_id (jl_job lease)
      \<and> jr_status job = (case result of OutSucceeded \<Rightarrow> Succeeded | OutPermanent _ \<Rightarrow> PermanentFailure | OutCancelled \<Rightarrow> JobCancelled
          | OutRetryable _ \<Rightarrow> if jr_attempt (jl_job lease) < jr_max_attempts (jl_job lease) then Queued else Exhausted)
      \<and> jr_available_at job = (if jr_status job = Queued
          then now + min (jr_retry_initial_ms (jl_job lease) * 2 ^ (jr_attempt (jl_job lease) - 1)) (jr_retry_max_ms (jl_job lease))
          else jr_available_at (JobRecord.truncate r))
      \<and> jr_attempt job = jr_attempt (jl_job lease) \<and> jr_owner job = None"
      by (rule exI[of _ db3], rule exI[of _ "JobRecord.truncate ?q"])
        (simp add: c id load_row_def finished_simps, simp add: outcome_status_def retry_at_def truncate_retry l[symmetric] JobRecord.defs)
    moreover have "\<not> (jr_cancellation_requested_at (JobRecord.truncate r) \<noteq> None \<and> result \<noteq> OutCancelled)"
      using False by (simp add: JobRecord.defs)
    ultimately show ?thesis using row by (intro exI[of _ "JobRecord.truncate r"] conjI) (simp_all only: if_False)
  qed
qed

theorem completions_are_applied_witness:
  "\<exists>db2 job. complete_job demo_env any_json demo_claimed demo_lease (OutRetryable ''busy'') 5 = (db2, Ok (Applied job))
    \<and> jr_status job = Queued \<and> jr_available_at job = 15"
proof -
  have l: "jl_leased_at demo_lease = 1" "jr_attempt (jl_job demo_lease) = 1" "jr_job_id (jl_job demo_lease) = ''job-1''"
    "jr_max_attempts (jl_job demo_lease) = 2" "jr_retry_initial_ms (jl_job demo_lease) = 10" "jr_retry_max_ms (jl_job demo_lease) = 100"
    by (simp_all add: demo_lease_def demo_held_def lease_row_def demo_rows JobRecord.defs)
  obtain r a where h: "holder demo_env any_json demo_claimed demo_lease r a" "ja_lease_expires_at a = 51" "jr_cancellation_requested_at r = None"
    using claim_holder[OF demo_queue_inv(1) demo_claims] demo_lease_times by auto
  then have a: "a \<in> set (db_attempts demo_claimed)" "attempt_of demo_lease a" "ja_finished_at a = None" by (simp_all add: holder_def)
  have row: "load_row demo_claimed (jr_job_id (jl_job demo_lease)) = Some (JobRecord.truncate r)"
    using holderD(1)[OF h(1)] by (simp add: load_row_def)
  have "validate_outcome (OutRetryable ''busy'') = Ok ()" by (simp add: valid_error_code_def demo_texts)
  from completions_are_applied[OF demo_queue_reachable(1) demo_claims rtranclp.rtrancl_refl a this, of 5] show ?thesis
    using row h(2,3) by (auto simp: l JOB_MAX_BACKOFF_MS_def JobRecord.defs)
qed

text \<open>
  Claim C22. Fencing: once a later claim of its job was granted, a lease is void for ever, whatever
  other calls come in between. Its renewal fails, its completion is never applied, and neither
  changes the tables.
\<close>

theorem stale_leases_are_fenced:
  assumes "job_reachable E canonical db" "claim_job E canonical db request = (db1, Ok (Some lease))"
    "(job_step E canonical)\<^sup>*\<^sup>* db1 db2" "claim_job E canonical db2 request' = (db3, Ok (Some lease'))"
    "jr_job_id (jl_job lease') = jr_job_id (jl_job lease)" "(job_step E canonical)\<^sup>*\<^sup>* db3 db4"
  shows "(\<exists>e. renew_job db4 lease now duration = (db4, Err e))
    \<and> fst (complete_job E canonical db4 lease result now) = db4
    \<and> (\<forall>job. snd (complete_job E canonical db4 lease result now) \<noteq> Ok (Applied job))"
proof -
  note inv = job_reachable_inv[OF assms(1)]
  note gen = claim_generation[OF inv assms(2)]
  have inv2: "db_inv E canonical db2" by (rule job_steps_inv[OF assms(3) gen(2)])
  note gen' = claim_generation[OF inv2 assms(4)]
  have inv4: "db_inv E canonical db4" by (rule job_steps_inv[OF assms(6) gen'(2)])
  let ?i = "jr_job_id (jl_job lease)"
  have "jl_lease_generation lease \<le> generation_of db2 ?i" using generation_mono[OF gen(2) assms(3), of ?i] gen(1) by simp
  also have "\<dots> < generation_of db3 ?i" using claim_fresh[OF inv2 assms(4)] assms(5) by simp
  also have "\<dots> \<le> generation_of db4 ?i" by (rule generation_mono[OF gen'(2) assms(6)])
  finally have newer: "generation_of db4 ?i \<noteq> jl_lease_generation lease" by simp
  have "\<exists>e. renew_job db4 lease now duration = (db4, Err e)"
    using renew_job_cases[of db4 lease now duration] renew_current[OF inv4] newer by metis
  moreover have no: "snd (complete_job E canonical db4 lease result now) \<noteq> Ok (Applied job)" for job
    using complete_current[OF inv4] newer by (metis prod.collapse)
  ultimately show ?thesis using complete_job_frame[OF no] by simp
qed

lemma demo_second: "\<exists>db3 lease'. claim_job demo_env any_json demo_claimed (demo_claim ''w2'' 60) = (db3, Ok (Some lease'))
  \<and> jr_job_id (jl_job lease') = ''job-1''"
proof -
  have g: "good_claim (demo_claim ''w2'' 60)" by (simp add: demo_claim_valid utf8_chars_def)
  have j: "db_jobs demo_claimed = [demo_held]" by (simp add: demo_claimed_def)
  have c: "claimable (demo_claim ''w2'' 60) demo_held" "jr_created_at demo_held = 0"
    by (simp_all add: claimable_def demo_held_def lease_row_def demo_rows expired_by_def)
  obtain db3 lease' where k: "claim_job demo_env any_json demo_claimed (demo_claim ''w2'' 60) = (db3, Ok (Some lease'))"
    using claim_serves[OF demo_queue_inv(2) g] j c by fastforce
  then show ?thesis using claim_first[OF demo_queue_inv(2) k] j by (auto simp: demo_held_id)
qed

theorem stale_leases_are_fenced_witness:
  "\<exists>db3 lease'. claim_job demo_env any_json demo_claimed (demo_claim ''w2'' 60) = (db3, Ok (Some lease'))
    \<and> (\<exists>e. renew_job db3 demo_lease 61 50 = (db3, Err e))
    \<and> fst (complete_job demo_env any_json db3 demo_lease OutSucceeded 61) = db3"
proof -
  obtain db3 lease' where k: "claim_job demo_env any_json demo_claimed (demo_claim ''w2'' 60) = (db3, Ok (Some lease'))"
    "jr_job_id (jl_job lease') = ''job-1''" using demo_second by blast
  have "jr_job_id (jl_job demo_lease) = ''job-1''" by (simp add: demo_lease_def demo_held_id)
  with k stale_leases_are_fenced[OF demo_queue_reachable(1) demo_claims rtranclp.rtrancl_refl k(1) _ rtranclp.rtrancl_refl, of 61 50 OutSucceeded]
  show ?thesis by auto
qed

text \<open>
  Claim C26. Completion is idempotent and final: after an applied completion, in every later state the
  same outcome for the same lease is answered as already applied, any other outcome is a conflict,
  neither changes the tables, and a job that ended is never changed again.
\<close>

theorem completions_are_final:
  assumes "job_reachable E canonical db" "complete_job E canonical db lease result now = (db1, Ok (Applied job))"
    "(job_step E canonical)\<^sup>*\<^sup>* db1 db2" "validate_outcome result' = Ok ()" "0 \<le> now'"
  shows "\<exists>job'. load_row db2 (jr_job_id (jl_job lease)) = Some job'
    \<and> complete_job E canonical db2 lease result' now' =
       (db2, if result' = result then Ok (AlreadyApplied job') else Err JobConflict)
    \<and> (is_terminal (jr_status job) \<longrightarrow> job' = job)"
proof -
  have c: "complete_in E canonical lease result now db = Ok (db1, Applied job)"
    using assms(2) by (auto simp: complete_job_def transaction_Ok split: if_splits)
  have inv1: "db_inv E canonical db1" using complete_inv[OF job_reachable_inv[OF assms(1)], of lease result now] assms(2) by simp
  note inv2 = job_steps_inv[OF assms(3) inv1] and later = job_steps_later[OF assms(3) inv1]
  from complete_closes(1)[OF c] obtain a where a: "a \<in> set (db_attempts db1)" "attempt_of lease a" "ja_finished_at a = Some now"
    "ja_handler_outcome a = Some (fst (outcome_columns result))" "ja_error_code a = snd (outcome_columns result)" by blast
  have a2: "a \<in> set (db_attempts db2)" using later a(1,3) by (auto simp: later_def)
  obtain r where r: "find_job db1 (jr_job_id (jl_job lease)) = Some r" "JobRecord.truncate r = job"
    using complete_in_job[OF c] by blast
  obtain r' where r': "r' \<in> set (db_jobs db2)" "row_after r r'"
    using later find_job_Some[OF r(1)] by (auto simp: later_def)
  then have f: "find_job db2 (jr_job_id (jl_job lease)) = Some r'"
    using find_job_unique[of db2 r'] inv2 row_after_id[OF r'(2)] find_job_Some[OF r(1)] by (simp add: db_inv_def jobs_ok_def)
  have "is_terminal (jr_status job) \<longrightarrow> r' = r" using r'(2) r(2) by (auto simp: row_after_def)
  then show ?thesis
    using completed_again[OF inv2 a2 a(2,4,5) complete_closes(2)[OF c] assms(4,5)] f r(2) by (auto simp: load_row_def)
qed

theorem completions_are_final_witness:
  "\<exists>db1 job. complete_job demo_env any_json demo_claimed demo_lease OutSucceeded 5 = (db1, Ok (Applied job))
    \<and> complete_job demo_env any_json db1 demo_lease OutSucceeded 6 = (db1, Ok (AlreadyApplied job))
    \<and> complete_job demo_env any_json db1 demo_lease OutCancelled 6 = (db1, Err JobConflict)"
proof -
  obtain db1 job where c: "complete_job demo_env any_json demo_claimed demo_lease OutSucceeded 5 = (db1, Ok (Applied job))"
    "jr_status job = Succeeded" using demo_done by blast
  from completions_are_final[OF demo_queue_reachable(2) c(1) rtranclp.rtrancl_refl, of OutSucceeded 6]
    completions_are_final[OF demo_queue_reachable(2) c(1) rtranclp.rtrancl_refl, of OutCancelled 6]
  show ?thesis using c by auto
qed

text \<open>
  Claim C27. Deduplication: once a job is stored, an enqueue with its kind and deduplication key never
  changes the tables, in any later state. It is answered with the stored job when the input is the same and
  the job still has the availability time it was enqueued with, and it is a conflict when the payload,
  the priority, the schema versions, the attempt limit or the retry delays differ.
\<close>

theorem enqueues_are_deduplicated:
  assumes "job_reachable E canonical db" "enqueue_job E canonical db job now = (db1, Ok (Inserted stored))"
    "(job_step E canonical)\<^sup>*\<^sup>* db1 db2" "sha256_ok E" "validate_new_job canonical again = Ok ()"
    "nj_kind again = nj_kind job" "nj_deduplication_key again = nj_deduplication_key job" "0 \<le> now'"
  shows "\<exists>current. load_row db2 (nj_job_id job) = Some current \<and> fst (enqueue_job E canonical db2 again now') = db2
    \<and> (again\<lparr>nj_job_id := nj_job_id job\<rparr> = job \<and> jr_available_at current = nj_available_at job
        \<longrightarrow> snd (enqueue_job E canonical db2 again now') = Ok (Existing current))
    \<and> (again\<lparr>nj_job_id := nj_job_id job, nj_available_at := nj_available_at job\<rparr> \<noteq> job
        \<longrightarrow> snd (enqueue_job E canonical db2 again now') = Err JobConflict)"
proof -
  let ?s = "\<lambda>job. hex_lower (env_sha256 E (nj_payload_json job))"
  note e = enqueue_Inserted[OF assms(2)]
  have inv1: "db_inv E canonical db1" using enqueue_inv[OF job_reachable_inv[OF assms(1)], of job now] assms(2) by simp
  note inv2 = job_steps_inv[OF assms(3) inv1]
  obtain r where r: "r \<in> set (db_jobs db2)" "row_after (new_row job (?s job) now) r"
    using job_steps_later[OF assms(3) inv1] e(3) by (auto simp: later_def)
  have "row_input (new_row job (?s job) now) = job" by (cases job) (simp add: row_input_def new_row_def)
  then have same: "row_input r = job\<lparr>nj_available_at := jr_available_at r\<rparr>" using r(2) by (simp add: row_after_def)
  have keys: "jr_job_id r = nj_job_id job" "jr_kind r = nj_kind job" "jr_deduplication_key r = nj_deduplication_key job"
    "jr_payload_json r = nj_payload_json job"
    using same by (cases job, simp add: row_input_def)+
  have f: "load_row db2 (nj_job_id job) = Some (JobRecord.truncate r)"
    using find_job_unique[of db2 r] inv2 r(1) keys(1) by (simp add: db_inv_def jobs_ok_def load_row_def)
  have "jr_payload_sha256 r = ?s job" using inv2 r(1) keys(4) by (auto simp: db_inv_def jobs_ok_def row_ok_def)
  note iff = same_identity_iff[OF same this, of again]
  have ans: "enqueue_job E canonical db2 again now'
      = (db2, if again\<lparr>nj_job_id := nj_job_id job\<rparr> = job\<lparr>nj_available_at := jr_available_at r\<rparr>
         then Ok (Existing (JobRecord.truncate r)) else Err JobConflict)"
    using enqueue_known[OF inv2 r(1) _ _ assms(5,4,8)] keys assms(6,7) unfolding iff by simp
  have keep: "job\<lparr>nj_available_at := nj_available_at job\<rparr> = job" by (cases job) simp
  have upd: "again\<lparr>nj_job_id := nj_job_id job, nj_available_at := nj_available_at job\<rparr> = job"
    if "again\<lparr>nj_job_id := nj_job_id job\<rparr> = job\<lparr>nj_available_at := t\<rparr>" for t
    using that by (cases job; cases again) simp
  show ?thesis
    by (rule exI[of _ "JobRecord.truncate r"]) (use keep upd in \<open>auto simp: f ans\<close>)
qed

theorem enqueues_are_deduplicated_witness:
  "enqueue_job demo_env any_json demo_claimed demo_job 7 = (demo_claimed, Ok (Existing (JobRecord.truncate demo_held)))
    \<and> enqueue_job demo_env any_json demo_claimed (demo_job\<lparr>nj_priority := 9\<rparr>) 7 = (demo_claimed, Err JobConflict)"
proof -
  have j: "nj_job_id demo_job = ''job-1''" "nj_available_at demo_job = 0" "demo_job\<lparr>nj_priority := 9\<rparr> \<noteq> demo_job"
    "demo_job\<lparr>nj_priority := 9, nj_job_id := ''job-1'', nj_available_at := 0\<rparr> \<noteq> demo_job"
    "demo_job\<lparr>nj_job_id := ''job-1''\<rparr> = demo_job" by (simp_all add: demo_job_def)
  have v: "validate_new_job any_json (demo_job\<lparr>nj_priority := 9\<rparr>) = Ok ()" using demo_job_valid by (simp add: validate_new_job_def)
  have h: "load_row demo_claimed ''job-1'' = Some (JobRecord.truncate demo_held)" "jr_available_at demo_held = 0"
    by (simp_all add: load_row_def find_job_def demo_claimed_def demo_held_id) (simp add: demo_held_def lease_row_def demo_rows)
  note d = enqueues_are_deduplicated[OF rtranclp.rtrancl_refl demo_enqueue demo_steps demo_env_sha256_ok]
  show ?thesis
    using d[OF demo_job_valid, of 7] d[OF v, of 7] h j by (auto simp: prod_eq_iff)
qed

text \<open>
  A worker whose step reports an applied completion held its job all the time: whatever the
  other callers did while its handler ran, no claim of that job was granted to anyone.
\<close>

theorem worker_holds_its_job:
  assumes "job_reachable E canonical db" "claim_job E canonical db (worker_request w t) = (db1, Ok (Some lease))"
    "(job_step E canonical)\<^sup>*\<^sup>* db1 (others db1)"
    "run_once (claim_job E canonical) (complete_job E canonical) w t others t' db = (db', Ok (Completed i (Applied job)))"
  shows "jr_job_id (jl_job lease) = i
    \<and> complete_job E canonical (others db1) lease (worker_outcome w lease) t' = (db', Ok (Applied job))
    \<and> (\<forall>db2 request db3 lease2. (job_step E canonical)\<^sup>*\<^sup>* db1 db2 \<and> claim_job E canonical db2 request = (db3, Ok (Some lease2))
        \<and> (job_step E canonical)\<^sup>*\<^sup>* db3 (others db1) \<longrightarrow> jr_job_id (jl_job lease2) \<noteq> i)"
proof -
  have "jr_job_id (jl_job lease) = i \<and> complete_job E canonical (others db1) lease (worker_outcome w lease) t' = (db', Ok (Applied job))"
    using assms(2,4) by (auto simp: run_once_def split: prod.splits elim!: rbind_OkE)
  then show ?thesis
    using sqlite.run_once_exclusive[OF job_reachable_inv[OF assms(1)] assms(2-4)] by blast
qed

theorem worker_holds_its_job_witness:
  "\<exists>db' job. run_once (claim_job demo_env any_json) (complete_job demo_env any_json) demo_worker 1 (\<lambda>db. db) 5 demo_db
      = (db', Ok (Completed ''job-1'' (Applied job)))
    \<and> complete_job demo_env any_json demo_claimed demo_lease OutSucceeded 5 = (db', Ok (Applied job))"
proof -
  obtain db' job where c: "complete_job demo_env any_json demo_claimed demo_lease OutSucceeded 5 = (db', Ok (Applied job))"
    using demo_done by blast
  have w: "worker_request demo_worker 1 = demo_claim ''w1'' 1" by (simp add: demo_worker_def worker_request_def demo_claim_def)
  have o: "worker_outcome demo_worker demo_lease = OutSucceeded"
    by (simp add: worker_outcome_def demo_worker_def demo_lease_def demo_held_def demo_rows)
  have r: "run_once (claim_job demo_env any_json) (complete_job demo_env any_json) demo_worker 1 (\<lambda>db. db) 5 demo_db
      = (db', Ok (Completed ''job-1'' (Applied job)))"
    by (simp add: run_once_def w demo_claims o c) (simp add: demo_lease_def demo_held_id)
  have "(job_step demo_env any_json)\<^sup>*\<^sup>* demo_claimed ((\<lambda>db. db) demo_claimed)" by simp
  from worker_holds_its_job[where w = demo_worker and t = 1, unfolded w, OF demo_queue_reachable(1) demo_claims this r]
  show ?thesis using r o by auto
qed

end
