(* ===== verification/TokenBucket.thy ===== *)
theory TokenBucket
  imports Sql
begin

text \<open>
  The integer token bucket of \<^verbatim>\<open>application/src/scheduler.rs\<close>: refill, retry time, and what makes
  them exact: refilling in two steps is refilling once, and the retry time is the first moment with a token.
\<close>

section \<open>Buckets\<close>

definition MAX_RATE_CAPACITY :: nat where "MAX_RATE_CAPACITY = 1000000"

record RatePolicy =
  rp_capacity :: nat
  rp_refill_tokens :: nat
  rp_refill_interval_ms :: int

record TokenBucketState =
  tb_tokens :: nat
  tb_remainder :: nat
  tb_updated_at :: millis

datatype SchedulerError = InvalidInput

text \<open>The guard of \<^verbatim>\<open>SchedulingLimit::validate\<close> on a rate.\<close>

definition bad_rate :: "RatePolicy \<Rightarrow> bool" where
  "bad_rate rate \<longleftrightarrow> rp_capacity rate = 0 \<or> MAX_RATE_CAPACITY < rp_capacity rate
     \<or> rp_refill_tokens rate = 0 \<or> MAX_RATE_CAPACITY < rp_refill_tokens rate
     \<or> rp_refill_interval_ms rate \<le> 0 \<or> 86400000 < rp_refill_interval_ms rate"

definition refill_bucket :: "TokenBucketState \<Rightarrow> RatePolicy \<Rightarrow> millis \<Rightarrow> (SchedulerError, TokenBucketState) outcome" where
  "refill_bucket state policy now =
     (if now < tb_updated_at state \<or> rp_capacity policy = 0 \<or> rp_refill_tokens policy = 0 \<or> rp_refill_interval_ms policy \<le> 0
      then Err InvalidInput
      else if rp_capacity policy \<le> tb_tokens state
      then Ok \<lparr>tb_tokens = rp_capacity policy, tb_remainder = 0, tb_updated_at = now\<rparr>
      else if \<not> signed_range 64 (now - tb_updated_at state) then Panic
      else
        let elapsed = nat (now - tb_updated_at state);
            numerator = saturating_add 128 (saturating_mul 128 elapsed (rp_refill_tokens policy)) (tb_remainder state);
            interval = nat (rp_refill_interval_ms policy);
            added = (case try_from 32 (numerator div interval) of Some n \<Rightarrow> n | None \<Rightarrow> 2 ^ 32 - 1);
            tokens = min (saturating_add 32 (tb_tokens state) added) (rp_capacity policy)
        in rbind (if tokens = rp_capacity policy then Ok 0
                  else ok_or InvalidInput (try_from 64 (numerator mod interval))) (\<lambda>remainder.
           Ok \<lparr>tb_tokens = tokens, tb_remainder = remainder, tb_updated_at = now\<rparr>))"

definition token_retry_at :: "TokenBucketState \<Rightarrow> RatePolicy \<Rightarrow> millis \<Rightarrow> ('e, millis option) outcome" where
  "token_retry_at state policy now =
     (if 0 < tb_tokens state then Ok (Some now)
      else if rp_refill_interval_ms policy < 0 then Ok None
      else if rp_refill_tokens policy = 0 then Panic
      else
        let remaining = nat (rp_refill_interval_ms policy) - tb_remainder state;
            refill = rp_refill_tokens policy;
            delay = saturating_add 64 remaining (refill - 1) div refill
        in Ok (if delay < 2 ^ 63 then checked_add_signed 64 now (int delay) else None))"

section \<open>The exact refill\<close>

text \<open>A bucket as the amount of \<open>1 / interval\<close> tokens it holds.\<close>

definition good_rate :: "RatePolicy \<Rightarrow> bool" where
  "good_rate rate \<longleftrightarrow> \<not> bad_rate rate"

definition bucket_ok :: "RatePolicy \<Rightarrow> TokenBucketState \<Rightarrow> bool" where
  "bucket_ok rate b \<longleftrightarrow> tb_tokens b \<le> rp_capacity rate \<and> int (tb_remainder b) < rp_refill_interval_ms rate
     \<and> (tb_tokens b = rp_capacity rate \<longrightarrow> tb_remainder b = 0) \<and> 0 \<le> tb_updated_at b"

definition level :: "RatePolicy \<Rightarrow> TokenBucketState \<Rightarrow> nat" where
  "level rate b = tb_tokens b * nat (rp_refill_interval_ms rate) + tb_remainder b"

definition full :: "RatePolicy \<Rightarrow> nat" where
  "full rate = rp_capacity rate * nat (rp_refill_interval_ms rate)"

text \<open>What a bucket is refilled to in exact arithmetic.\<close>

definition refilled :: "RatePolicy \<Rightarrow> TokenBucketState \<Rightarrow> millis \<Rightarrow> TokenBucketState" where
  "refilled rate b now =
     (let amount = min (full rate) (level rate b + nat (now - tb_updated_at b) * rp_refill_tokens rate) in
      \<lparr>tb_tokens = amount div nat (rp_refill_interval_ms rate), tb_remainder = amount mod nat (rp_refill_interval_ms rate),
       tb_updated_at = now\<rparr>)"

lemma good_rateD:
  assumes "good_rate rate"
  shows "0 < rp_capacity rate" "rp_capacity rate \<le> 1000000" "0 < rp_refill_tokens rate" "rp_refill_tokens rate \<le> 1000000"
    "0 < rp_refill_interval_ms rate" "rp_refill_interval_ms rate \<le> 86400000"
  using assms by (auto simp: good_rate_def bad_rate_def MAX_RATE_CAPACITY_def)

lemma refill_exact:
  assumes r: "good_rate rate" and b: "bucket_ok rate b" and t: "tb_updated_at b \<le> now" "now < 2 ^ 63"
  shows "refill_bucket b rate now = Ok (refilled rate b now)"
proof -
  define I where "I = nat (rp_refill_interval_ms rate)"
  note g = good_rateD[OF r]
  have I: "0 < I" "I \<le> 86400000" "rp_refill_interval_ms rate = int I" using g by (auto simp: I_def)
  have bk: "tb_tokens b \<le> rp_capacity rate" "tb_remainder b < I" "tb_tokens b = rp_capacity rate \<longrightarrow> tb_remainder b = 0"
    "0 \<le> tb_updated_at b" using b I(3) by (auto simp: bucket_ok_def)
  show ?thesis
  proof (cases "rp_capacity rate \<le> tb_tokens b")
    case True
    then have "level rate b = full rate" using bk by (simp add: level_def full_def)
    then show ?thesis using True t g I by (simp add: refill_bucket_def refilled_def full_def min_absorb1 flip: I_def)
  next
    case False
    define e where "e = nat (now - tb_updated_at b)"
    have e: "e < 2 ^ 63" "now - tb_updated_at b = int e" using t bk(4) by (auto simp: e_def nat_less_iff)
    define n where "n = e * rp_refill_tokens rate + tb_remainder b"
    have n: "n < 2 ^ 100"
    proof -
      have "e * rp_refill_tokens rate \<le> 2 ^ 63 * 1000000" using e(1) g(4) by (intro mult_mono) auto
      then show ?thesis using bk(2) I(2) by (simp add: n_def)
    qed
    have num: "saturating_add 128 (saturating_mul 128 e (rp_refill_tokens rate)) (tb_remainder b) = n"
      using n by (simp add: saturating_add_def saturating_mul_def n_def)
    let ?amount = "tb_tokens b * I + n"
    have amt: "?amount div I = tb_tokens b + n div I" "?amount mod I = n mod I" using I(1) by simp_all
    let ?added = "case try_from 32 (n div I) of Some k \<Rightarrow> k | None \<Rightarrow> 2 ^ 32 - 1"
    have added: "min (saturating_add 32 (tb_tokens b) ?added) (rp_capacity rate) = min (tb_tokens b + n div I) (rp_capacity rate)"
      using bk(1) g(2) by (auto simp: saturating_add_def try_from_def)
    have rem: "try_from 64 (n mod I) = Some (n mod I)" using mod_less_divisor[OF I(1), of n] I(2) by (simp add: try_from_def)
    have R: "refilled rate b now = \<lparr>tb_tokens = min (rp_capacity rate * I) ?amount div I,
        tb_remainder = min (rp_capacity rate * I) ?amount mod I, tb_updated_at = now\<rparr>"
      by (simp add: refilled_def full_def level_def n_def Let_def algebra_simps flip: I_def e_def)
    have B: "refill_bucket b rate now = rbind (if min (tb_tokens b + n div I) (rp_capacity rate) = rp_capacity rate then Ok 0 else Ok (n mod I))
        (\<lambda>remainder. Ok \<lparr>tb_tokens = min (tb_tokens b + n div I) (rp_capacity rate), tb_remainder = remainder, tb_updated_at = now\<rparr>)"
      using False t(1) g I(3) e(1) num added rem
      by (simp add: refill_bucket_def signed_range_def e(2) Let_def)
    show ?thesis
    proof (cases "rp_capacity rate \<le> tb_tokens b + n div I")
      case True
      then have "rp_capacity rate \<le> ?amount div I" by (simp only: amt)
      then have "rp_capacity rate * I \<le> ?amount" using I(1) by (metis less_eq_div_iff_mult_less_eq)
      then show ?thesis using True I(1) by (simp add: R B min_absorb1 min_absorb2)
    next
      case False
      then have "?amount div I < rp_capacity rate" by (simp only: amt)
      then have "?amount < rp_capacity rate * I" using I(1) by (metis div_less_iff_less_mult)
      then have "min (rp_capacity rate * I) ?amount = ?amount" by simp
      then show ?thesis using False by (simp only: R B amt) simp
    qed
  qed
qed

text \<open>A refilled bucket is a bucket again, and refilling is additive in time.\<close>

lemma refilled_level:
  assumes "good_rate rate"
  shows "level rate (refilled rate b now) = min (full rate) (level rate b + nat (now - tb_updated_at b) * rp_refill_tokens rate)"
    "tb_updated_at (refilled rate b now) = now"
  using good_rateD(5)[OF assms] by (simp_all add: refilled_def level_def Let_def)

lemma refilled_ok:
  assumes "good_rate rate" "0 \<le> now"
  shows "bucket_ok rate (refilled rate b now)"
proof -
  define I where "I = nat (rp_refill_interval_ms rate)"
  have I: "0 < I" "rp_refill_interval_ms rate = int I" using good_rateD(5)[OF assms(1)] by (auto simp: I_def)
  let ?a = "min (full rate) (level rate b + nat (now - tb_updated_at b) * rp_refill_tokens rate)"
  have le: "?a \<le> rp_capacity rate * I" by (simp add: full_def I_def)
  then have d: "?a div I \<le> rp_capacity rate" using I(1) by (metis div_le_mono nonzero_mult_div_cancel_right not_gr0)
  have "?a mod I = 0" if "?a div I = rp_capacity rate"
    using le that I(1) by (metis add_le_same_cancel1 div_mult_mod_eq le_zero_eq)
  then show ?thesis using d mod_less_divisor[OF I(1), of ?a] assms(2) by (simp add: bucket_ok_def refilled_def Let_def I(2))
qed

lemma refilled_twice:
  assumes "good_rate rate" "tb_updated_at b \<le> t" "t \<le> now"
  shows "refilled rate (refilled rate b t) now = refilled rate b now"
proof -
  let ?k = "rp_refill_tokens rate" and ?l = "level rate b"
  have "nat (now - tb_updated_at b) = nat (t - tb_updated_at b) + nat (now - t)" using assms(2,3) by simp
  then have sum: "?l + nat (now - tb_updated_at b) * ?k = (?l + nat (t - tb_updated_at b) * ?k) + nat (now - t) * ?k"
    by (simp add: algebra_simps)
  have "min (full rate) (min (full rate) x + y) = min (full rate) (x + y)" for x y :: nat by (auto simp: min_def)
  then show ?thesis
    unfolding refilled_def[of rate "refilled rate b t"] refilled_level[OF assms(1)]
    unfolding refilled_def Let_def sum by simp
qed

text \<open>With no token left, the retry time is the first time with one.\<close>

lemma tokens_of_level: "0 < rp_refill_interval_ms rate \<Longrightarrow> 0 < tb_tokens (refilled rate b t)
    \<longleftrightarrow> nat (rp_refill_interval_ms rate) \<le> min (full rate) (level rate b + nat (t - tb_updated_at b) * rp_refill_tokens rate)"
  by (simp add: refilled_def Let_def div_greater_zero_iff)

lemma retry_exact:
  assumes r: "good_rate rate" and b: "bucket_ok rate b" "tb_tokens b = 0" "tb_updated_at b = now" and t: "now + 86400000 < 2 ^ 63"
  shows "\<exists>at. token_retry_at b rate now = Ok (Some at) \<and> now < at \<and> at \<le> now + 86400000
    \<and> (\<forall>u. now \<le> u \<longrightarrow> (0 < tb_tokens (refilled rate b u) \<longleftrightarrow> at \<le> u))"
proof -
  note g = good_rateD[OF r]
  define I where "I = nat (rp_refill_interval_ms rate)"
  define k where "k = rp_refill_tokens rate"
  define m where "m = I - tb_remainder b"
  define d where "d = (m + (k - 1)) div k"
  have I: "0 < I" "I \<le> 86400000" "rp_refill_interval_ms rate = int I" using g by (auto simp: I_def)
  have m: "0 < m" "m \<le> I" "tb_remainder b + m = I" using b(1) I(3) by (auto simp: bucket_ok_def m_def)
  have k: "0 < k" "k \<le> 1000000" using g by (simp_all add: k_def)
  have d: "e * k \<ge> m \<longleftrightarrow> d \<le> e" for e
  proof
    assume "m \<le> e * k"
    then have "m + (k - 1) < Suc e * k" using k(1) by simp
    then have "d < Suc e" unfolding d_def using k(1) by (metis div_less_iff_less_mult)
    then show "d \<le> e" by simp
  next
    assume "d \<le> e"
    then have "d * k \<le> e * k" by (rule mult_le_mono1)
    moreover have "m \<le> d * k" unfolding d_def using div_mult_mod_eq[of "m + (k - 1)" k] mod_less_divisor[OF k(1), of "m + (k - 1)"] by linarith
    ultimately show "m \<le> e * k" by linarith
  qed
  have d1: "0 < d" using d[of 0] m(1) by auto
  have "m * 1 \<le> m * k" using k(1) by (intro mult_le_mono2) simp
  then have dm: "d \<le> m" using d[of m] by simp
  have sat: "saturating_add 64 m (k - 1) = m + (k - 1)" using m(2) I(2) k(2) by (simp add: saturating_add_def)
  have q: "saturating_add 64 m (k - Suc 0) div k = d" using sat by (simp add: d_def)
  have d63: "d < 2 ^ 63" and dI: "int d \<le> 86400000" using dm m(2) I(2) by simp_all
  have now: "0 \<le> now" using b(1,3) by (auto simp: bucket_ok_def)
  have add: "checked_add_signed 64 now (int d) = Some (now + int d)"
    using now t dI by (simp add: checked_add_signed_def signed_range_def)
  have at: "token_retry_at b rate now = Ok (Some (now + int d))"
    using b(2) I(3) k(1) d63 add by (simp add: token_retry_at_def Let_def q flip: I_def k_def m_def)
  have "0 < tb_tokens (refilled rate b u) \<longleftrightarrow> now + int d \<le> u" if u: "now \<le> u" for u
  proof -
    define e where "e = nat (u - now)"
    have e: "u = now + int e" using u by (simp add: e_def)
    have "I \<le> full rate" using g(1) by (simp add: full_def flip: I_def)
    then have "0 < tb_tokens (refilled rate b u) \<longleftrightarrow> I \<le> tb_remainder b + e * k"
      using tokens_of_level[OF g(5), of b u] by (simp add: level_def b(2,3) e_def k_def I_def)
    also have "\<dots> \<longleftrightarrow> m \<le> e * k" using m(3) by linarith
    finally show ?thesis by (simp add: d e)
  qed
  then show ?thesis using at d1 dI by (intro exI[of _ "now + int d"]) auto
qed

end
