(* ===== verification/Scheduler.thy ===== *)
theory Scheduler
  imports TokenBucket
begin

text \<open>
  Scheduling limits, controls and execution reservations: \<^verbatim>\<open>application/src/scheduler.rs\<close> and
  \<^verbatim>\<open>persistence/src/scheduler_repository.rs\<close> with the tables of \<^verbatim>\<open>migrations/0010_scheduler_controls.sql\<close>.

  Tables are lists of rows, as in \<open>Sql\<close>. A column that holds the JSON of a value holds the value here,
  so decoding returns what was encoded; the comparisons of the decoded value with the other columns
  remain.
\<close>

section \<open>Limits, requests and results\<close>

definition SCHEDULER_SCHEMA_VERSION :: nat where "SCHEDULER_SCHEMA_VERSION = 1"
definition MAX_CONCURRENCY_LIMIT :: nat where "MAX_CONCURRENCY_LIMIT = 10000"
definition MAX_RESERVATION_MS :: int where "MAX_RESERVATION_MS = 86400000"

datatype SchedulerScope =
    GlobalScope
  | TournamentScope string
  | HarnessScope string
  | ProviderScope string

fun scope_key :: "SchedulerScope \<Rightarrow> string" where
  "scope_key GlobalScope = ''global''"
| "scope_key (TournamentScope i) = ''tournament:'' @ i"
| "scope_key (HarnessScope i) = ''harness:'' @ i"
| "scope_key (ProviderScope i) = ''provider:'' @ i"

fun scope_validate :: "SchedulerScope \<Rightarrow> bool" where
  "scope_validate GlobalScope = True"
| "scope_validate (TournamentScope i) = valid_id 128 i"
| "scope_validate (HarnessScope i) = valid_id 128 i"
| "scope_validate (ProviderScope i) = valid_id 128 i"

record SchedulingLimit =
  sl_schema_version :: nat
  sl_scope :: SchedulerScope
  sl_max_concurrency :: nat
  sl_rate :: "RatePolicy option"

definition validate_limit :: "SchedulingLimit \<Rightarrow> (SchedulerError, unit) outcome" where
  "validate_limit l =
     (if sl_schema_version l \<noteq> SCHEDULER_SCHEMA_VERSION \<or> \<not> scope_validate (sl_scope l)
         \<or> \<not> (1 \<le> sl_max_concurrency l \<and> sl_max_concurrency l \<le> MAX_CONCURRENCY_LIMIT)
         \<or> (case sl_rate l of None \<Rightarrow> False | Some rate \<Rightarrow> bad_rate rate)
      then Err InvalidInput else Ok ())"

datatype TournamentWorkerControl = CtlRunning | CtlPaused | CtlDraining | CtlCancelled

record ReservationRequest =
  rq_schema_version :: nat
  rq_reservation_id :: string
  rq_job_id :: string
  rq_tournament_id :: string
  rq_match_id :: string
  rq_run_id :: string
  rq_harness_id :: string
  rq_provider_id :: string
  rq_immutable_inputs_sha256 :: string
  rq_owner :: string
  rq_now :: millis
  rq_duration_ms :: int

definition validate_request :: "ReservationRequest \<Rightarrow> (SchedulerError, unit) outcome" where
  "validate_request q =
     (if rq_schema_version q \<noteq> SCHEDULER_SCHEMA_VERSION
         \<or> list_ex (\<lambda>v. \<not> valid_id 256 v) [rq_reservation_id q, rq_job_id q, rq_tournament_id q, rq_match_id q,
             rq_run_id q, rq_harness_id q, rq_provider_id q, rq_owner q]
         \<or> \<not> valid_sha256 (rq_immutable_inputs_sha256 q) \<or> rq_now q < 0
         \<or> \<not> (1 \<le> rq_duration_ms q \<and> rq_duration_ms q \<le> MAX_RESERVATION_MS)
      then Err InvalidInput else Ok ())"

definition request_scopes :: "ReservationRequest \<Rightarrow> SchedulerScope list" where
  "request_scopes q = [GlobalScope, TournamentScope (rq_tournament_id q), HarnessScope (rq_harness_id q),
     ProviderScope (rq_provider_id q)]"

record ExecutionReservation =
  er_request :: ReservationRequest
  er_expires_at :: millis
  er_cancellation_requested :: bool

datatype ReservationResult =
    Acquired ExecutionReservation
  | Limited "millis option"
  | PausedResult
  | DrainingResult
  | CancelledResult
  | AlreadyFinished

record TerminalMatchResult =
  tm_schema_version :: nat
  tm_match_id :: string
  tm_immutable_inputs_sha256 :: string
  tm_result_sha256 :: string
  tm_charge_key :: string
  tm_telemetry_key :: string
  tm_rating_key :: string

definition validate_terminal :: "TerminalMatchResult \<Rightarrow> (SchedulerError, unit) outcome" where
  "validate_terminal t =
     (if tm_schema_version t = SCHEDULER_SCHEMA_VERSION \<and> valid_id 256 (tm_match_id t)
         \<and> valid_sha256 (tm_immutable_inputs_sha256 t) \<and> valid_sha256 (tm_result_sha256 t)
         \<and> valid_id 256 (tm_charge_key t) \<and> valid_id 256 (tm_telemetry_key t) \<and> valid_id 256 (tm_rating_key t)
      then Ok () else Err InvalidInput)"

datatype TerminalCommitResult =
    TerminalApplied TerminalMatchResult
  | TerminalAlreadyApplied TerminalMatchResult

record RecoverySnapshot =
  rs_controls :: "(string \<times> TournamentWorkerControl) list"
  rs_active :: "ExecutionReservation list"
  rs_expired_match_ids :: "string list"

datatype SchedulerRepositoryError = SchedConflict | SchedCorrupt | SchedUnavailable

section \<open>Tables\<close>

record LimitRow =
  lr_scope_key :: string
  lr_schema_version :: nat
  lr_scope :: SchedulerScope
  lr_max_concurrency :: nat
  lr_rate_capacity :: "nat option"
  lr_refill_tokens :: "nat option"
  lr_refill_interval_ms :: "int option"
  lr_created_at :: millis
  lr_updated_at :: millis

record BucketRow =
  bk_scope_key :: string
  bk_tokens :: nat
  bk_refill_remainder :: nat
  bk_updated_at :: millis

record ControlRow =
  cr_tournament_id :: string
  cr_schema_version :: nat
  cr_control :: TournamentWorkerControl
  cr_sequence :: int
  cr_updated_at :: millis

datatype ReservationStatus = ResActive | ResCancelRequested | ResReleased | ResExpired | ResCompleted

record ReservationRow =
  rr_reservation_id :: string
  rr_schema_version :: nat
  rr_job_id :: string
  rr_tournament_id :: string
  rr_match_id :: string
  rr_run_id :: string
  rr_harness_id :: string
  rr_provider_id :: string
  rr_immutable_inputs_sha256 :: string
  rr_owner :: string
  rr_request :: ReservationRequest
  rr_status :: ReservationStatus
  rr_acquired_at :: millis
  rr_expires_at :: millis
  rr_updated_at :: millis
  rr_finished_at :: "millis option"

record ResultRow =
  tr_match_id :: string
  tr_schema_version :: nat
  tr_immutable_inputs_sha256 :: string
  tr_result_sha256 :: string
  tr_charge_key :: string
  tr_telemetry_key :: string
  tr_rating_key :: string
  tr_result :: TerminalMatchResult
  tr_reservation_id :: string
  tr_committed_at :: millis

record SchedDb =
  sd_limits :: "LimitRow list"
  sd_buckets :: "BucketRow list"
  sd_controls :: "ControlRow list"
  sd_reservations :: "ReservationRow list"
  sd_scopes :: "(string \<times> string) list"
  sd_results :: "ResultRow list"

definition check_limit :: "LimitRow \<Rightarrow> bool" where
  "check_limit l \<longleftrightarrow> 0 < lr_schema_version l \<and> 1 \<le> lr_max_concurrency l \<and> lr_max_concurrency l \<le> 10000
     \<and> null_or (\<lambda>n. 1 \<le> n \<and> n \<le> 1000000) (lr_rate_capacity l) \<and> null_or (\<lambda>n. 1 \<le> n \<and> n \<le> 1000000) (lr_refill_tokens l)
     \<and> null_or (\<lambda>t. 1 \<le> t \<and> t \<le> 86400000) (lr_refill_interval_ms l) \<and> 0 \<le> lr_created_at l \<and> lr_created_at l \<le> lr_updated_at l
     \<and> ((lr_rate_capacity l = None) = (lr_refill_tokens l = None))
     \<and> ((lr_rate_capacity l = None) = (lr_refill_interval_ms l = None))"

definition check_bucket :: "BucketRow \<Rightarrow> bool" where
  "check_bucket b \<longleftrightarrow> 0 \<le> bk_updated_at b"

definition check_control :: "ControlRow \<Rightarrow> bool" where
  "check_control c \<longleftrightarrow> 0 < cr_schema_version c \<and> 0 \<le> cr_sequence c \<and> 0 \<le> cr_updated_at c"

definition live :: "ReservationRow \<Rightarrow> bool" where
  "live r \<longleftrightarrow> rr_status r = ResActive \<or> rr_status r = ResCancelRequested"

definition check_reservation :: "ReservationRow \<Rightarrow> bool" where
  "check_reservation r \<longleftrightarrow> 0 < rr_schema_version r \<and> valid_sha256 (rr_immutable_inputs_sha256 r)
     \<and> 0 \<le> rr_acquired_at r \<and> rr_acquired_at r < rr_expires_at r \<and> rr_acquired_at r \<le> rr_updated_at r
     \<and> null_or (\<lambda>t. rr_acquired_at r \<le> t) (rr_finished_at r) \<and> (live r = (rr_finished_at r = None))"

definition check_result :: "ResultRow \<Rightarrow> bool" where
  "check_result t \<longleftrightarrow> 0 < tr_schema_version t \<and> text_between 64 64 (tr_immutable_inputs_sha256 t)
     \<and> text_between 64 64 (tr_result_sha256 t) \<and> 0 \<le> tr_committed_at t"

text \<open>\<^verbatim>\<open>INSERT .. ON CONFLICT(key) DO UPDATE\<close>: both rows must satisfy the constraints.\<close>

definition upsert :: "('r \<Rightarrow> bool) \<Rightarrow> ('r \<Rightarrow> bool) \<Rightarrow> 'r \<Rightarrow> ('r \<Rightarrow> 'r) \<Rightarrow> 'r list \<Rightarrow> (SchedulerRepositoryError, 'r list) outcome" where
  "upsert check same new change rows =
     (if \<not> check new \<or> list_ex (\<lambda>r. same r \<and> \<not> check (change r)) rows then Err SchedConflict
      else if list_ex same rows then Ok (map (\<lambda>r. if same r then change r else r) rows)
      else Ok (rows @ [new]))"

text \<open>\<^verbatim>\<open>COUNT(*)\<close> of the join of reservations with their scopes\<close>

definition active_count :: "SchedDb \<Rightarrow> string \<Rightarrow> nat" where
  "active_count db key = length (filter (\<lambda>((i, k), r). k = key \<and> rr_reservation_id r = i \<and> live r)
     (List.product (sd_scopes db) (sd_reservations db)))"

definition find_limit :: "SchedDb \<Rightarrow> string \<Rightarrow> LimitRow option" where
  "find_limit db key = List.find (\<lambda>l. lr_scope_key l = key) (sd_limits db)"

definition find_bucket :: "SchedDb \<Rightarrow> string \<Rightarrow> BucketRow option" where
  "find_bucket db key = List.find (\<lambda>b. bk_scope_key b = key) (sd_buckets db)"

section \<open>Configuration\<close>

text \<open>The \<^verbatim>\<open>BTreeMap\<close> of the limits by their keys, a list in the order of the keys.\<close>

definition collect_limits :: "SchedulingLimit list \<Rightarrow> (SchedulerRepositoryError, (string \<times> SchedulingLimit) list) outcome" where
  "collect_limits limits =
     rbind (try_fold (\<lambda>unique limit.
       if validate_limit limit \<noteq> Ok () then Err SchedCorrupt
       else if scope_key (sl_scope limit) \<in> fst ` set unique then Err SchedConflict
       else Ok (unique @ [(scope_key (sl_scope limit), limit)])) [] limits) (\<lambda>unique.
     Ok (sort_key fst unique))"

definition limit_row :: "string \<Rightarrow> SchedulingLimit \<Rightarrow> millis \<Rightarrow> millis \<Rightarrow> LimitRow" where
  "limit_row key l created now = \<lparr>lr_scope_key = key, lr_schema_version = sl_schema_version l, lr_scope = sl_scope l,
     lr_max_concurrency = sl_max_concurrency l, lr_rate_capacity = map_option rp_capacity (sl_rate l),
     lr_refill_tokens = map_option rp_refill_tokens (sl_rate l),
     lr_refill_interval_ms = map_option rp_refill_interval_ms (sl_rate l), lr_created_at = created, lr_updated_at = now\<rparr>"

definition store_limit :: "millis \<Rightarrow> SchedDb \<Rightarrow> string \<times> SchedulingLimit \<Rightarrow> (SchedulerRepositoryError, SchedDb) outcome" where
  "store_limit now db kl = (case kl of (key, limit) \<Rightarrow>
     rbind (ensure (active_count db key = 0) SchedConflict) (\<lambda>_.
     let created = (case find_limit db key of None \<Rightarrow> now | Some l \<Rightarrow> lr_created_at l);
         row = limit_row key limit created now in
     rbind (upsert check_limit (\<lambda>l. lr_scope_key l = key) row (\<lambda>l. row\<lparr>lr_created_at := lr_created_at l\<rparr>) (sd_limits db)) (\<lambda>limits.
     rbind (case sl_rate limit of
         Some rate \<Rightarrow>
           let bucket = \<lparr>bk_scope_key = key, bk_tokens = rp_capacity rate, bk_refill_remainder = 0, bk_updated_at = now\<rparr>
           in upsert check_bucket (\<lambda>b. bk_scope_key b = key) bucket (\<lambda>_. bucket) (sd_buckets db)
       | None \<Rightarrow> Ok (filter (\<lambda>b. bk_scope_key b \<noteq> key) (sd_buckets db))) (\<lambda>buckets.
     Ok (db\<lparr>sd_limits := limits, sd_buckets := buckets\<rparr>)))))"

definition configure_in :: "(string \<times> SchedulingLimit) list \<Rightarrow> millis \<Rightarrow> SchedDb \<Rightarrow> (SchedulerRepositoryError, SchedDb \<times> unit) outcome" where
  "configure_in unique now db = rbind (try_fold (store_limit now) db unique) (\<lambda>db'. Ok (db', ()))"

definition configure_limits :: "SchedDb \<Rightarrow> SchedulingLimit list \<Rightarrow> millis \<Rightarrow> SchedDb \<times> (SchedulerRepositoryError, unit) outcome" where
  "configure_limits db limits now =
     (if limits = [] \<or> now < 0 then (db, Err SchedCorrupt)
      else case collect_limits limits of
          Ok unique \<Rightarrow> transaction (configure_in unique now) db
        | Err e \<Rightarrow> (db, Err e)
        | Panic \<Rightarrow> (db, Panic)
        | Diverge \<Rightarrow> (db, Diverge))"

section \<open>Controls\<close>

definition find_control :: "SchedDb \<Rightarrow> string \<Rightarrow> ControlRow option" where
  "find_control db i = List.find (\<lambda>c. cr_tournament_id c = i) (sd_controls db)"

definition next_sequence :: "SchedDb \<Rightarrow> string \<Rightarrow> millis \<Rightarrow> (SchedulerRepositoryError, int) outcome" where
  "next_sequence db tournament_id now = (case find_control db tournament_id of
       None \<Rightarrow> Ok 0
     | Some row \<Rightarrow>
         if cr_control row = CtlCancelled \<or> now < cr_updated_at row then Err SchedConflict
         else ok_or SchedCorrupt (checked_add_signed 64 (cr_sequence row) 1))"

definition request_cancel :: "millis \<Rightarrow> ReservationRow \<Rightarrow> ReservationRow" where
  "request_cancel now r = r\<lparr>rr_status := ResCancelRequested, rr_updated_at := now\<rparr>"

definition control_in :: "string \<Rightarrow> TournamentWorkerControl \<Rightarrow> millis \<Rightarrow> SchedDb \<Rightarrow> (SchedulerRepositoryError, SchedDb \<times> unit) outcome" where
  "control_in tournament_id next now db =
     rbind (next_sequence db tournament_id now) (\<lambda>sequence.
     rbind (upsert check_control (\<lambda>c. cr_tournament_id c = tournament_id)
         \<lparr>cr_tournament_id = tournament_id, cr_schema_version = SCHEDULER_SCHEMA_VERSION, cr_control = next,
          cr_sequence = sequence, cr_updated_at = now\<rparr>
         (\<lambda>c. c\<lparr>cr_control := next, cr_sequence := sequence, cr_updated_at := now\<rparr>) (sd_controls db)) (\<lambda>controls.
     let db' = db\<lparr>sd_controls := controls\<rparr> in
     if next = CtlCancelled
     then rbind (sql_update SchedUnavailable check_reservation
            (\<lambda>r. rr_tournament_id r = tournament_id \<and> rr_status r = ResActive) (request_cancel now) (sd_reservations db')) (\<lambda>(reservations, _).
          Ok (db'\<lparr>sd_reservations := reservations\<rparr>, ()))
     else Ok (db', ())))"

definition sched_validate_id :: "string \<Rightarrow> (SchedulerRepositoryError, unit) outcome" where
  "sched_validate_id value = ensure (valid_id 256 value) SchedCorrupt"

definition set_control :: "SchedDb \<Rightarrow> string \<Rightarrow> TournamentWorkerControl \<Rightarrow> millis \<Rightarrow> SchedDb \<times> (SchedulerRepositoryError, unit) outcome" where
  "set_control db tournament_id next now =
     (if sched_validate_id tournament_id \<noteq> Ok () \<or> now < 0 then (db, Err SchedCorrupt)
      else transaction (control_in tournament_id next now) db)"

section \<open>Acquisition\<close>

definition expire_row :: "millis \<Rightarrow> ReservationRow \<Rightarrow> ReservationRow" where
  "expire_row now r = r\<lparr>rr_status := ResExpired, rr_updated_at := now, rr_finished_at := Some now\<rparr>"

definition expire_reservations :: "millis \<Rightarrow> SchedDb \<Rightarrow> (SchedulerRepositoryError, SchedDb \<times> string list) outcome" where
  "expire_reservations now db =
     rbind (sql_update SchedUnavailable check_reservation (\<lambda>r. live r \<and> rr_expires_at r \<le> now) (expire_row now) (sd_reservations db))
       (\<lambda>(reservations, _).
     Ok (db\<lparr>sd_reservations := reservations\<rparr>,
         map rr_match_id (filter (\<lambda>r. live r \<and> rr_expires_at r \<le> now) (sd_reservations db))))"

definition load_terminal :: "SchedDb \<Rightarrow> string \<Rightarrow> (SchedulerRepositoryError, TerminalMatchResult option) outcome" where
  "load_terminal db match_id = (case List.find (\<lambda>t. tr_match_id t = match_id) (sd_results db) of
       None \<Rightarrow> Ok None
     | Some row \<Rightarrow>
         let result = tr_result row in
         if validate_terminal result \<noteq> Ok () \<or> tr_match_id row \<noteq> tm_match_id result
            \<or> tr_schema_version row \<noteq> tm_schema_version result
            \<or> tr_immutable_inputs_sha256 row \<noteq> tm_immutable_inputs_sha256 result
            \<or> tr_result_sha256 row \<noteq> tm_result_sha256 result \<or> tr_charge_key row \<noteq> tm_charge_key result
            \<or> tr_telemetry_key row \<noteq> tm_telemetry_key result \<or> tr_rating_key row \<noteq> tm_rating_key result
         then Err SchedCorrupt else Ok (Some result))"

definition prior_inputs :: "SchedDb \<Rightarrow> string \<Rightarrow> string option" where
  "prior_inputs db match_id = (case sort_key rr_acquired_at (filter (\<lambda>r. rr_match_id r = match_id) (sd_reservations db)) of
     [] \<Rightarrow> None | r # _ \<Rightarrow> Some (rr_immutable_inputs_sha256 r))"

definition load_control :: "SchedDb \<Rightarrow> string \<Rightarrow> TournamentWorkerControl" where
  "load_control db tournament_id = (case find_control db tournament_id of None \<Rightarrow> CtlRunning | Some c \<Rightarrow> cr_control c)"

record StoredLimit =
  st_policy :: SchedulingLimit
  st_bucket :: "TokenBucketState option"

definition row_rate :: "LimitRow \<Rightarrow> (SchedulerRepositoryError, RatePolicy option) outcome" where
  "row_rate row = (case lr_rate_capacity row of
       None \<Rightarrow> Ok None
     | Some capacity \<Rightarrow>
         rbind (ok_or SchedCorrupt (lr_refill_tokens row)) (\<lambda>refill.
         rbind (ok_or SchedCorrupt (lr_refill_interval_ms row)) (\<lambda>interval.
         Ok (Some \<lparr>rp_capacity = capacity, rp_refill_tokens = refill, rp_refill_interval_ms = interval\<rparr>))))"

definition load_limit :: "SchedDb \<Rightarrow> string \<Rightarrow> (SchedulerRepositoryError, StoredLimit) outcome" where
  "load_limit db key =
     rbind (ok_or SchedCorrupt (find_limit db key)) (\<lambda>row.
     if scope_key (lr_scope row) \<noteq> key \<or> lr_schema_version row \<noteq> SCHEDULER_SCHEMA_VERSION then Err SchedCorrupt
     else
       rbind (row_rate row) (\<lambda>rate.
       let policy = \<lparr>sl_schema_version = SCHEDULER_SCHEMA_VERSION, sl_scope = lr_scope row,
             sl_max_concurrency = lr_max_concurrency row, sl_rate = rate\<rparr> in
       if validate_limit policy \<noteq> Ok () then Err SchedCorrupt
       else if rate = None then Ok \<lparr>st_policy = policy, st_bucket = None\<rparr>
       else
         rbind (ok_or SchedCorrupt (find_bucket db key)) (\<lambda>b.
         Ok \<lparr>st_policy = policy, st_bucket = Some \<lparr>tb_tokens = bk_tokens b, tb_remainder = bk_refill_remainder b,
           tb_updated_at = bk_updated_at b\<rparr>\<rparr>)))"

fun max_time :: "millis option \<Rightarrow> millis option \<Rightarrow> millis option" where
  "max_time (Some l) (Some r) = Some (max l r)"
| "max_time None r = r"
| "max_time l None = l"

text \<open>
  The loop over the four scopes: the limits with their refilled buckets and the latest retry
  time, or \<open>None\<close> where the concurrency of a scope is used up.
\<close>

fun admit :: "SchedDb \<Rightarrow> millis \<Rightarrow> StoredLimit list \<Rightarrow> millis option \<Rightarrow> SchedulerScope list
    \<Rightarrow> (SchedulerRepositoryError, (StoredLimit list \<times> millis option) option) outcome" where
  "admit db now stored retry_at [] = Ok (Some (stored, retry_at))"
| "admit db now stored retry_at (scope # rest) =
     rbind (load_limit db (scope_key scope)) (\<lambda>limit.
     if sl_max_concurrency (st_policy limit) \<le> active_count db (scope_key scope) then Ok None
     else case (sl_rate (st_policy limit), st_bucket limit) of
         (Some rate, Some bucket) \<Rightarrow>
           (case refill_bucket bucket rate now of
              Ok bucket' \<Rightarrow>
                rbind (if tb_tokens bucket' = 0
                       then rbind (token_retry_at bucket' rate now) (\<lambda>at. Ok (max_time retry_at at))
                       else Ok retry_at) (\<lambda>retry_at'.
                admit db now (stored @ [limit\<lparr>st_bucket := Some bucket'\<rparr>]) retry_at' rest)
            | Err _ \<Rightarrow> Err SchedCorrupt
            | Panic \<Rightarrow> Panic
            | Diverge \<Rightarrow> Diverge)
       | _ \<Rightarrow> admit db now (stored @ [limit]) retry_at rest)"

definition persist_bucket :: "BucketRow list \<Rightarrow> StoredLimit \<Rightarrow> (SchedulerRepositoryError, BucketRow list) outcome" where
  "persist_bucket buckets limit = (case st_bucket limit of
       None \<Rightarrow> Ok buckets
     | Some b \<Rightarrow>
         rbind (ok_or SchedCorrupt (try_from 63 (tb_remainder b))) (\<lambda>remainder.
         rbind (sql_update SchedUnavailable check_bucket (\<lambda>r. bk_scope_key r = scope_key (sl_scope (st_policy limit)))
             (\<lambda>r. r\<lparr>bk_tokens := tb_tokens b, bk_refill_remainder := remainder, bk_updated_at := tb_updated_at b\<rparr>) buckets)
           (\<lambda>(buckets', _). Ok buckets')))"

definition persist_buckets :: "SchedDb \<Rightarrow> StoredLimit list \<Rightarrow> (SchedulerRepositoryError, SchedDb) outcome" where
  "persist_buckets db limits =
     rbind (try_fold persist_bucket (sd_buckets db) limits) (\<lambda>buckets. Ok (db\<lparr>sd_buckets := buckets\<rparr>))"

definition take_token :: "StoredLimit \<Rightarrow> (SchedulerRepositoryError, StoredLimit) outcome" where
  "take_token limit = (case st_bucket limit of
       None \<Rightarrow> Ok limit
     | Some b \<Rightarrow> rbind (ok_or SchedCorrupt (checked_sub (tb_tokens b) 1)) (\<lambda>tokens.
         Ok (limit\<lparr>st_bucket := Some (b\<lparr>tb_tokens := tokens\<rparr>)\<rparr>)))"

definition reservation_row :: "ReservationRequest \<Rightarrow> millis \<Rightarrow> ReservationRow" where
  "reservation_row q expires = \<lparr>rr_reservation_id = rq_reservation_id q, rr_schema_version = rq_schema_version q,
     rr_job_id = rq_job_id q, rr_tournament_id = rq_tournament_id q, rr_match_id = rq_match_id q, rr_run_id = rq_run_id q,
     rr_harness_id = rq_harness_id q, rr_provider_id = rq_provider_id q,
     rr_immutable_inputs_sha256 = rq_immutable_inputs_sha256 q, rr_owner = rq_owner q, rr_request = q,
     rr_status = ResActive, rr_acquired_at = rq_now q, rr_expires_at = expires, rr_updated_at = rq_now q,
     rr_finished_at = None\<rparr>"

definition insert_scope :: "string \<Rightarrow> SchedDb \<Rightarrow> SchedulerScope \<Rightarrow> (SchedulerRepositoryError, SchedDb) outcome" where
  "insert_scope reservation_id db scope =
     (if (reservation_id, scope_key scope) \<in> set (sd_scopes db) \<or> find_limit db (scope_key scope) = None
         \<or> \<not> list_ex (\<lambda>r. rr_reservation_id r = reservation_id) (sd_reservations db)
      then Err SchedConflict else Ok (db\<lparr>sd_scopes := sd_scopes db @ [(reservation_id, scope_key scope)]\<rparr>))"

definition insert_reservation :: "SchedDb \<Rightarrow> ReservationRequest \<Rightarrow> millis \<Rightarrow> (SchedulerRepositoryError, SchedDb) outcome" where
  "insert_reservation db q expires =
     (let row = reservation_row q expires in
      if \<not> check_reservation row
         \<or> list_ex (\<lambda>r. rr_reservation_id r = rq_reservation_id q \<or> live r \<and> rr_match_id r = rq_match_id q) (sd_reservations db)
      then Err SchedConflict
      else try_fold (insert_scope (rq_reservation_id q)) (db\<lparr>sd_reservations := sd_reservations db @ [row]\<rparr>) (request_scopes q))"

definition reserve :: "SchedDb \<Rightarrow> ReservationRequest \<Rightarrow> millis \<Rightarrow> (SchedulerRepositoryError, SchedDb \<times> ReservationResult) outcome" where
  "reserve db request expires_at =
     rbind (admit db (rq_now request) [] None (request_scopes request)) (\<lambda>admitted.
     case admitted of
       None \<Rightarrow> Ok (db, Limited None)
     | Some (stored, Some retry_at) \<Rightarrow>
         rbind (persist_buckets db stored) (\<lambda>db'. Ok (db', Limited (Some retry_at)))
     | Some (stored, None) \<Rightarrow>
         rbind (traverse take_token stored) (\<lambda>taken.
         rbind (persist_buckets db taken) (\<lambda>db'.
         rbind (insert_reservation db' request expires_at) (\<lambda>db''.
         Ok (db'', Acquired \<lparr>er_request = request, er_expires_at = expires_at, er_cancellation_requested = False\<rparr>)))))"

definition acquire_in :: "ReservationRequest \<Rightarrow> millis \<Rightarrow> SchedDb \<Rightarrow> (SchedulerRepositoryError, SchedDb \<times> ReservationResult) outcome" where
  "acquire_in request expires_at db =
     rbind (expire_reservations (rq_now request) db) (\<lambda>(db1, _).
     rbind (load_terminal db1 (rq_match_id request)) (\<lambda>finished.
     case finished of
       Some existing \<Rightarrow>
         if tm_immutable_inputs_sha256 existing \<noteq> rq_immutable_inputs_sha256 request then Err SchedConflict
         else Ok (db1, AlreadyFinished)
     | None \<Rightarrow>
         if prior_inputs db1 (rq_match_id request) \<notin> {None, Some (rq_immutable_inputs_sha256 request)} then Err SchedConflict
         else (case load_control db1 (rq_tournament_id request) of
             CtlPaused \<Rightarrow> Ok (db1, PausedResult)
           | CtlDraining \<Rightarrow> Ok (db1, DrainingResult)
           | CtlCancelled \<Rightarrow> Ok (db1, CancelledResult)
           | CtlRunning \<Rightarrow> reserve db1 request expires_at)))"

definition acquire_reservation :: "SchedDb \<Rightarrow> ReservationRequest \<Rightarrow> SchedDb \<times> (SchedulerRepositoryError, ReservationResult) outcome" where
  "acquire_reservation db request =
     (if validate_request request \<noteq> Ok () then (db, Err SchedCorrupt)
      else case checked_add_signed 64 (rq_now request) (rq_duration_ms request) of
          None \<Rightarrow> (db, Err SchedCorrupt)
        | Some expires_at \<Rightarrow> transaction (acquire_in request expires_at) db)"

section \<open>Renewal, release, publication and recovery\<close>

definition renewable :: "ExecutionReservation \<Rightarrow> millis \<Rightarrow> millis \<Rightarrow> ReservationRow \<Rightarrow> bool" where
  "renewable reservation now expires r \<longleftrightarrow> rr_reservation_id r = rq_reservation_id (er_request reservation)
     \<and> rr_status r = ResActive \<and> rr_owner r = rq_owner (er_request reservation)
     \<and> rr_immutable_inputs_sha256 r = rq_immutable_inputs_sha256 (er_request reservation)
     \<and> now < rr_expires_at r \<and> rr_expires_at r < expires"

definition renew_in_sched :: "ExecutionReservation \<Rightarrow> millis \<Rightarrow> millis \<Rightarrow> SchedDb \<Rightarrow> (SchedulerRepositoryError, SchedDb \<times> ExecutionReservation) outcome" where
  "renew_in_sched reservation now expires db =
     rbind (sql_update SchedUnavailable check_reservation (renewable reservation now expires)
       (\<lambda>r. r\<lparr>rr_expires_at := expires, rr_updated_at := now\<rparr>) (sd_reservations db)) (\<lambda>(reservations, updated).
     rbind (ensure (updated = 1) SchedConflict) (\<lambda>_.
     Ok (db\<lparr>sd_reservations := reservations\<rparr>,
         \<lparr>er_request = er_request reservation, er_expires_at = expires, er_cancellation_requested = False\<rparr>)))"

definition renew_reservation :: "SchedDb \<Rightarrow> ExecutionReservation \<Rightarrow> millis \<Rightarrow> int \<Rightarrow> SchedDb \<times> (SchedulerRepositoryError, ExecutionReservation) outcome" where
  "renew_reservation db reservation now duration_ms =
     (if validate_request (er_request reservation) \<noteq> Ok () \<or> now < 0 \<or> \<not> (1 \<le> duration_ms \<and> duration_ms \<le> MAX_RESERVATION_MS)
      then (db, Err SchedCorrupt)
      else case checked_add_signed 64 now duration_ms of
          None \<Rightarrow> (db, Err SchedCorrupt)
        | Some expires \<Rightarrow> transaction (renew_in_sched reservation now expires) db)"

definition releasable :: "ExecutionReservation \<Rightarrow> ReservationRow \<Rightarrow> bool" where
  "releasable reservation r \<longleftrightarrow> rr_reservation_id r = rq_reservation_id (er_request reservation) \<and> live r
     \<and> rr_owner r = rq_owner (er_request reservation)
     \<and> rr_immutable_inputs_sha256 r = rq_immutable_inputs_sha256 (er_request reservation)"

definition finish_reservation :: "ReservationStatus \<Rightarrow> millis \<Rightarrow> ReservationRow \<Rightarrow> ReservationRow" where
  "finish_reservation status now r = r\<lparr>rr_status := status, rr_updated_at := now, rr_finished_at := Some now\<rparr>"

definition release_in :: "ExecutionReservation \<Rightarrow> millis \<Rightarrow> SchedDb \<Rightarrow> (SchedulerRepositoryError, SchedDb \<times> unit) outcome" where
  "release_in reservation now db =
     rbind (sql_update SchedUnavailable check_reservation (releasable reservation) (finish_reservation ResReleased now)
       (sd_reservations db)) (\<lambda>(reservations, updated).
     rbind (ensure (updated = 1) SchedConflict) (\<lambda>_.
     Ok (db\<lparr>sd_reservations := reservations\<rparr>, ())))"

definition release_reservation :: "SchedDb \<Rightarrow> ExecutionReservation \<Rightarrow> millis \<Rightarrow> SchedDb \<times> (SchedulerRepositoryError, unit) outcome" where
  "release_reservation db reservation now = transaction (release_in reservation now) db"

definition committable :: "ExecutionReservation \<Rightarrow> TerminalMatchResult \<Rightarrow> millis \<Rightarrow> ReservationRow \<Rightarrow> bool" where
  "committable reservation result now r \<longleftrightarrow> rr_reservation_id r = rq_reservation_id (er_request reservation)
     \<and> rr_status r = ResActive \<and> rr_owner r = rq_owner (er_request reservation) \<and> rr_match_id r = tm_match_id result
     \<and> rr_immutable_inputs_sha256 r = tm_immutable_inputs_sha256 result \<and> now < rr_expires_at r"

definition result_row :: "TerminalMatchResult \<Rightarrow> string \<Rightarrow> millis \<Rightarrow> ResultRow" where
  "result_row t reservation_id now = \<lparr>tr_match_id = tm_match_id t, tr_schema_version = tm_schema_version t,
     tr_immutable_inputs_sha256 = tm_immutable_inputs_sha256 t, tr_result_sha256 = tm_result_sha256 t,
     tr_charge_key = tm_charge_key t, tr_telemetry_key = tm_telemetry_key t, tr_rating_key = tm_rating_key t,
     tr_result = t, tr_reservation_id = reservation_id, tr_committed_at = now\<rparr>"

definition insert_result :: "SchedDb \<Rightarrow> ResultRow \<Rightarrow> (SchedulerRepositoryError, SchedDb) outcome" where
  "insert_result db row =
     (if \<not> check_result row
         \<or> list_ex (\<lambda>t. tr_match_id t = tr_match_id row \<or> tr_charge_key t = tr_charge_key row
             \<or> tr_telemetry_key t = tr_telemetry_key row \<or> tr_rating_key t = tr_rating_key row
             \<or> tr_reservation_id t = tr_reservation_id row) (sd_results db)
         \<or> \<not> list_ex (\<lambda>r. rr_reservation_id r = tr_reservation_id row) (sd_reservations db)
      then Err SchedConflict else Ok (db\<lparr>sd_results := sd_results db @ [row]\<rparr>))"

definition commit_in :: "ExecutionReservation \<Rightarrow> TerminalMatchResult \<Rightarrow> millis \<Rightarrow> SchedDb \<Rightarrow> (SchedulerRepositoryError, SchedDb \<times> TerminalCommitResult) outcome" where
  "commit_in reservation result now db =
     rbind (load_terminal db (tm_match_id result)) (\<lambda>finished.
     case finished of
       Some existing \<Rightarrow> if existing = result then Ok (db, TerminalAlreadyApplied existing) else Err SchedConflict
     | None \<Rightarrow>
         rbind (sql_update SchedUnavailable check_reservation (committable reservation result now) (finish_reservation ResCompleted now)
           (sd_reservations db)) (\<lambda>(reservations, updated).
         rbind (ensure (updated = 1) SchedConflict) (\<lambda>_.
         rbind (insert_result (db\<lparr>sd_reservations := reservations\<rparr>)
             (result_row result (rq_reservation_id (er_request reservation)) now)) (\<lambda>db'.
         Ok (db', TerminalApplied result)))))"

definition commit_result :: "SchedDb \<Rightarrow> ExecutionReservation \<Rightarrow> TerminalMatchResult \<Rightarrow> millis \<Rightarrow> SchedDb \<times> (SchedulerRepositoryError, TerminalCommitResult) outcome" where
  "commit_result db reservation result now =
     (if validate_terminal result \<noteq> Ok () then (db, Err SchedCorrupt)
      else if tm_match_id result \<noteq> rq_match_id (er_request reservation)
         \<or> tm_immutable_inputs_sha256 result \<noteq> rq_immutable_inputs_sha256 (er_request reservation)
      then (db, Err SchedConflict)
      else transaction (commit_in reservation result now) db)"

definition reservation_of :: "ReservationRow \<Rightarrow> (SchedulerRepositoryError, ExecutionReservation) outcome" where
  "reservation_of row =
     (let q = rr_request row in
      if validate_request q \<noteq> Ok () \<or> rr_reservation_id row \<noteq> rq_reservation_id q \<or> rr_schema_version row \<noteq> rq_schema_version q
         \<or> rr_job_id row \<noteq> rq_job_id q \<or> rr_tournament_id row \<noteq> rq_tournament_id q \<or> rr_match_id row \<noteq> rq_match_id q
         \<or> rr_run_id row \<noteq> rq_run_id q \<or> rr_harness_id row \<noteq> rq_harness_id q \<or> rr_provider_id row \<noteq> rq_provider_id q
         \<or> rr_immutable_inputs_sha256 row \<noteq> rq_immutable_inputs_sha256 q \<or> rr_owner row \<noteq> rq_owner q
         \<or> rr_acquired_at row \<noteq> rq_now q
      then Err SchedCorrupt
      else Ok \<lparr>er_request = q, er_expires_at = rr_expires_at row, er_cancellation_requested = (rr_status row = ResCancelRequested)\<rparr>)"

definition recovery_in :: "millis \<Rightarrow> SchedDb \<Rightarrow> (SchedulerRepositoryError, SchedDb \<times> RecoverySnapshot) outcome" where
  "recovery_in now db =
     rbind (expire_reservations now db) (\<lambda>(db1, expired).
     let controls = sort_key fst (map (\<lambda>c. (cr_tournament_id c, cr_control c)) (sd_controls db1)) in
     rbind (traverse reservation_of (sort_key (\<lambda>r. (rr_acquired_at r, rr_reservation_id r))
         (filter (\<lambda>r. live r \<and> now < rr_expires_at r) (sd_reservations db1)))) (\<lambda>active.
     Ok (db1, \<lparr>rs_controls = controls, rs_active = active, rs_expired_match_ids = expired\<rparr>)))"

definition recovery :: "SchedDb \<Rightarrow> millis \<Rightarrow> SchedDb \<times> (SchedulerRepositoryError, RecoverySnapshot) outcome" where
  "recovery db now = transaction (recovery_in now) db"

end
