(* ===== verification/SchedulerInv.thy ===== *)
theory SchedulerInv
  imports Scheduler
begin

text \<open>
  The invariant of the scheduler's tables: capacity, buckets, one live reservation per match, constant
  inputs, published results; and its preservation by every call.
\<close>

section \<open>Steps\<close>

inductive sched_step :: "SchedDb \<Rightarrow> SchedDb \<Rightarrow> bool" where
  sched_configure: "sched_step db (fst (configure_limits db limits now))"
| sched_control: "sched_step db (fst (set_control db tournament_id next now))"
| sched_acquire: "sched_step db (fst (acquire_reservation db request))"
| sched_renew: "sched_step db (fst (renew_reservation db reservation now duration))"
| sched_release: "sched_step db (fst (release_reservation db reservation now))"
| sched_commit: "sched_step db (fst (commit_result db reservation result now))"
| sched_recover: "sched_step db (fst (recovery db now))"

definition empty_sched :: SchedDb where
  "empty_sched = \<lparr>sd_limits = [], sd_buckets = [], sd_controls = [], sd_reservations = [], sd_scopes = [], sd_results = []\<rparr>"

abbreviation sched_reachable :: "SchedDb \<Rightarrow> bool" where
  "sched_reachable \<equiv> sched_step\<^sup>*\<^sup>* empty_sched"

section \<open>Invariant\<close>

definition rate_of :: "LimitRow \<Rightarrow> RatePolicy option" where
  "rate_of l = (case (lr_rate_capacity l, lr_refill_tokens l, lr_refill_interval_ms l) of
     (Some c, Some k, Some i) \<Rightarrow> Some \<lparr>rp_capacity = c, rp_refill_tokens = k, rp_refill_interval_ms = i\<rparr> | _ \<Rightarrow> None)"

definition limit_ok :: "LimitRow \<Rightarrow> bool" where
  "limit_ok l \<longleftrightarrow> check_limit l \<and> scope_key (lr_scope l) = lr_scope_key l \<and> lr_schema_version l = SCHEDULER_SCHEMA_VERSION
     \<and> scope_validate (lr_scope l)"

definition limits_ok :: "LimitRow list \<Rightarrow> bool" where
  "limits_ok L \<longleftrightarrow> distinct (map lr_scope_key L) \<and> (\<forall>l \<in> set L. limit_ok l)"

definition bucket_state :: "BucketRow \<Rightarrow> TokenBucketState" where
  "bucket_state b = \<lparr>tb_tokens = bk_tokens b, tb_remainder = bk_refill_remainder b, tb_updated_at = bk_updated_at b\<rparr>"

definition buckets_ok :: "LimitRow list \<Rightarrow> BucketRow list \<Rightarrow> bool" where
  "buckets_ok L B \<longleftrightarrow> distinct (map bk_scope_key B)
     \<and> (\<forall>b \<in> set B. \<exists>l \<in> set L. lr_scope_key l = bk_scope_key b
          \<and> (\<exists>rate. rate_of l = Some rate \<and> good_rate rate \<and> bucket_ok rate (bucket_state b)))
     \<and> (\<forall>l \<in> set L. rate_of l \<noteq> None \<longrightarrow> lr_scope_key l \<in> bk_scope_key ` set B)"

definition res_ok :: "ReservationRow list \<Rightarrow> bool" where
  "res_ok R \<longleftrightarrow> distinct (map rr_reservation_id R) \<and> distinct (map rr_match_id (filter live R))
     \<and> (\<forall>r \<in> set R. check_reservation r \<and> returns (reservation_of r) \<and> (\<forall>e. reservation_of r \<noteq> Err e))
     \<and> (\<forall>r \<in> set R. \<forall>r' \<in> set R. rr_match_id r = rr_match_id r' \<longrightarrow> rr_immutable_inputs_sha256 r = rr_immutable_inputs_sha256 r')"

definition request_keys :: "ReservationRequest \<Rightarrow> string list" where
  "request_keys q = map scope_key (request_scopes q)"

definition row_scopes :: "ReservationRow \<Rightarrow> (string \<times> string) list" where
  "row_scopes r = map (Pair (rr_reservation_id r)) (request_keys (rr_request r))"

definition holds_scope :: "string \<Rightarrow> ReservationRow \<Rightarrow> bool" where
  "holds_scope key r \<longleftrightarrow> live r \<and> key \<in> set (request_keys (rr_request r))"

definition live_in :: "string \<Rightarrow> ReservationRow list \<Rightarrow> nat" where
  "live_in key R = length (filter (holds_scope key) R)"

definition capacity_ok :: "LimitRow list \<Rightarrow> ReservationRow list \<Rightarrow> bool" where
  "capacity_ok L R \<longleftrightarrow> (\<forall>l \<in> set L. live_in (lr_scope_key l) R \<le> lr_max_concurrency l)"

definition result_ok :: "ResultRow \<Rightarrow> bool" where
  "result_ok t \<longleftrightarrow> validate_terminal (tr_result t) = Ok () \<and> t = result_row (tr_result t) (tr_reservation_id t) (tr_committed_at t)"

definition results_ok :: "ReservationRow list \<Rightarrow> ResultRow list \<Rightarrow> bool" where
  "results_ok R T \<longleftrightarrow> distinct (map tr_match_id T) \<and> distinct (map tr_charge_key T) \<and> distinct (map tr_telemetry_key T)
     \<and> distinct (map tr_rating_key T) \<and> distinct (map tr_reservation_id T)
     \<and> (\<forall>t \<in> set T. result_ok t \<and> (\<exists>r \<in> set R. rr_match_id r = tr_match_id t \<and> rr_reservation_id r = tr_reservation_id t)
          \<and> (\<forall>r \<in> set R. rr_match_id r = tr_match_id t \<longrightarrow>
               \<not> live r \<and> rr_immutable_inputs_sha256 r = tr_immutable_inputs_sha256 t))"

definition controls_ok :: "ControlRow list \<Rightarrow> ReservationRow list \<Rightarrow> bool" where
  "controls_ok C R \<longleftrightarrow> distinct (map cr_tournament_id C)
     \<and> (\<forall>c \<in> set C. cr_control c = CtlCancelled \<longrightarrow>
          (\<forall>r \<in> set R. rr_tournament_id r = cr_tournament_id c \<longrightarrow> rr_status r \<noteq> ResActive))"

definition sched_inv :: "SchedDb \<Rightarrow> bool" where
  "sched_inv db \<longleftrightarrow> limits_ok (sd_limits db) \<and> buckets_ok (sd_limits db) (sd_buckets db) \<and> res_ok (sd_reservations db)
     \<and> sd_scopes db = concat (map row_scopes (sd_reservations db)) \<and> capacity_ok (sd_limits db) (sd_reservations db)
     \<and> results_ok (sd_reservations db) (sd_results db) \<and> controls_ok (sd_controls db) (sd_reservations db)"

lemma empty_sched_inv: "sched_inv empty_sched"
  by (simp add: sched_inv_def empty_sched_def limits_ok_def buckets_ok_def res_ok_def capacity_ok_def results_ok_def controls_ok_def)

section \<open>Counting\<close>

lemma scope_key_inj: "scope_key a = scope_key b \<longleftrightarrow> a = b"
  by (cases a; cases b) auto

lemma request_keys_distinct: "distinct (request_keys q)" "length (request_keys q) = 4"
  by (simp_all add: request_keys_def request_scopes_def)

text \<open>The join counts each live reservation of a scope once.\<close>

lemma join_one:
  assumes "distinct (map rr_reservation_id R)" "r \<in> set R"
  shows "length (filter (\<lambda>r'. rr_reservation_id r' = rr_reservation_id r \<and> live r') R) = (if live r then 1 else 0)"
proof (cases "live r")
  case True
  then show ?thesis using upd_one(1)[where P = "\<lambda>r'. rr_reservation_id r' = rr_reservation_id r \<and> live r'" and x = r, OF assms] by simp
next
  case False
  then have "\<not> (rr_reservation_id r' = rr_reservation_id r \<and> live r')" if "r' \<in> set R" for r'
    using unique_key[OF assms(1) that assms(2)] by blast
  then have "filter (\<lambda>r'. rr_reservation_id r' = rr_reservation_id r \<and> live r') R = []" by (auto simp: filter_empty_conv)
  then show ?thesis using False by simp
qed

lemma product_count:
  "length (filter (\<lambda>((i, k), r). k = key \<and> rr_reservation_id r = i \<and> live r) (List.product S R))
     = sum_list (map (\<lambda>(i, k). if k = key then length (filter (\<lambda>r. rr_reservation_id r = i \<and> live r) R) else 0) S)"
proof (induction S)
  case (Cons s S)
  obtain i k where s: "s = (i, k)" by force
  have "length (filter (\<lambda>((i, k), r). k = key \<and> rr_reservation_id r = i \<and> live r) (map (Pair s) R))
      = (if k = key then length (filter (\<lambda>r. rr_reservation_id r = i \<and> live r) R) else 0)"
    by (simp add: filter_map comp_def s)
  then show ?case using Cons by (simp add: s)
qed simp

lemma keys_count:
  "sum_list (map (\<lambda>k. if k = key then n else 0) (request_keys q)) = (if key \<in> set (request_keys q) then n else (0 :: nat))"
  by (auto simp: request_keys_def request_scopes_def)

lemma sum_concat: "sum_list (concat xss) = sum_list (map sum_list (xss :: nat list list))"
  by (induction xss) auto

lemma count_filter: "sum_list (map (\<lambda>x. if P x then 1 else 0) xs) = length (filter P xs)"
  by (induction xs) auto

lemma active_count_eq:
  assumes "distinct (map rr_reservation_id (sd_reservations db))" "sd_scopes db = concat (map row_scopes (sd_reservations db))"
  shows "active_count db key = live_in key (sd_reservations db)"
proof -
  let ?R = "sd_reservations db"
  have "sum_list (map (\<lambda>(i, k). if k = key then length (filter (\<lambda>r. rr_reservation_id r = i \<and> live r) ?R) else 0) (row_scopes r))
      = (if holds_scope key r then 1 else 0)" if "r \<in> set ?R" for r
    unfolding row_scopes_def map_map comp_def prod.case join_one[OF assms(1) that] keys_count
    by (auto simp: holds_scope_def)
  then have "active_count db key = sum_list (map (\<lambda>r. if holds_scope key r then 1 else 0) ?R)"
    unfolding active_count_def product_count assms(2) by (simp add: map_concat sum_concat comp_def cong: map_cong)
  also have "\<dots> = live_in key ?R" by (simp add: live_in_def count_filter)
  finally show ?thesis .
qed

section \<open>Updates of reservations\<close>

text \<open>Every update of a reservation changes its status and times only, and revives none.\<close>

definition res_change :: "(ReservationRow \<Rightarrow> bool) \<Rightarrow> (ReservationRow \<Rightarrow> ReservationRow) \<Rightarrow> bool" where
  "res_change P f \<longleftrightarrow> (\<forall>r. P r \<longrightarrow> (\<exists>st e u fin.
     f r = r\<lparr>rr_status := st, rr_expires_at := e, rr_updated_at := u, rr_finished_at := fin\<rparr>
     \<and> (live (f r) \<longrightarrow> live r) \<and> (st = ResActive \<longrightarrow> rr_status r = ResActive)))"

abbreviation row_identity :: "ReservationRow \<Rightarrow> string \<times> string \<times> string \<times> string \<times> ReservationRequest" where
  "row_identity r \<equiv> (rr_reservation_id r, rr_match_id r, rr_immutable_inputs_sha256 r, rr_tournament_id r, rr_request r)"

lemma res_changeD:
  assumes "res_change P f"
  defines "g \<equiv> \<lambda>r. if P r then f r else r"
  shows "rr_reservation_id (g r) = rr_reservation_id r" "rr_match_id (g r) = rr_match_id r" "rr_request (g r) = rr_request r"
    "rr_immutable_inputs_sha256 (g r) = rr_immutable_inputs_sha256 r" "rr_tournament_id (g r) = rr_tournament_id r"
    "live (g r) \<Longrightarrow> live r" "rr_status (g r) = ResActive \<Longrightarrow> rr_status r = ResActive"
    "rr_owner (g r) = rr_owner r"
    "(\<exists>x. reservation_of (g r) = Ok x) \<longleftrightarrow> (\<exists>x. reservation_of r = Ok x)"
proof -
  have "\<exists>st e u fin. g r = r\<lparr>rr_status := st, rr_expires_at := e, rr_updated_at := u, rr_finished_at := fin\<rparr>
      \<and> (live (g r) \<longrightarrow> live r) \<and> (st = ResActive \<longrightarrow> rr_status r = ResActive)"
  proof (cases "P r")
    case False
    then show ?thesis
      by - (rule exI[of _ "rr_status r"], rule exI[of _ "rr_expires_at r"], rule exI[of _ "rr_updated_at r"],
        rule exI[of _ "rr_finished_at r"], simp add: g_def)
  qed (use assms in \<open>simp add: res_change_def g_def\<close>)
  then obtain st e u fin where g: "g r = r\<lparr>rr_status := st, rr_expires_at := e, rr_updated_at := u, rr_finished_at := fin\<rparr>"
    "live (g r) \<longrightarrow> live r" "st = ResActive \<longrightarrow> rr_status r = ResActive" by blast
  show "rr_reservation_id (g r) = rr_reservation_id r" "rr_match_id (g r) = rr_match_id r" "rr_request (g r) = rr_request r"
    "rr_immutable_inputs_sha256 (g r) = rr_immutable_inputs_sha256 r" "rr_tournament_id (g r) = rr_tournament_id r"
    "rr_owner (g r) = rr_owner r"
    using g(1) by simp_all
  show "live (g r) \<Longrightarrow> live r" "rr_status (g r) = ResActive \<Longrightarrow> rr_status r = ResActive" using g by auto
  show "(\<exists>x. reservation_of (g r) = Ok x) \<longleftrightarrow> (\<exists>x. reservation_of r = Ok x)"
    unfolding g(1) reservation_of_def Let_def by simp
qed

text \<open>A decodable row.\<close>

lemma decodes: "returns (reservation_of r) \<and> (\<forall>e. reservation_of r \<noteq> Err e) \<longleftrightarrow> (\<exists>x. reservation_of r = Ok x)"
  by (cases "reservation_of r") (auto simp: returns_def)

lemma res_okI:
  assumes "distinct (map rr_reservation_id R)" "distinct (map rr_match_id (filter live R))"
    "\<And>r. r \<in> set R \<Longrightarrow> check_reservation r \<and> (\<exists>x. reservation_of r = Ok x)"
    "\<And>r r'. r \<in> set R \<Longrightarrow> r' \<in> set R \<Longrightarrow> rr_match_id r = rr_match_id r' \<Longrightarrow> rr_immutable_inputs_sha256 r = rr_immutable_inputs_sha256 r'"
  shows "res_ok R"
  unfolding res_ok_def decodes using assms by blast

lemma res_ok_update:
  assumes ok: "res_ok R" and c: "res_change P f" and chk: "\<forall>r \<in> set R. P r \<longrightarrow> check_reservation (f r)"
  shows "res_ok (upd P f R)"
proof -
  let ?g = "\<lambda>r. if P r then f r else r"
  note d = res_changeD[OF c]
  have "filter (\<lambda>r. live (?g r)) R = filter (\<lambda>r. live (?g r)) (filter live R)"
    unfolding filter_filter by (rule filter_cong[OF refl]) (use d(6) in blast)
  then have "filter live (map ?g R) = map ?g (filter (\<lambda>r. live (?g r)) (filter live R))"
    unfolding filter_map comp_def by simp
  then have "map rr_match_id (filter live (map ?g R)) = map rr_match_id (filter (\<lambda>r. live (?g r)) (filter live R))"
    by (simp only: map_map comp_def d(2))
  then have "distinct (map rr_match_id (filter live (map ?g R)))"
    using ok distinct_map_filter by (simp only: res_ok_def) blast
  moreover have "map rr_reservation_id (map ?g R) = map rr_reservation_id R" by (simp only: map_map comp_def d(1))
  moreover have "\<forall>r \<in> set R. check_reservation (?g r) \<and> (\<exists>x. reservation_of (?g r) = Ok x)"
    using ok chk unfolding d(9) by (auto simp: res_ok_def decodes)
  moreover have "distinct (map rr_reservation_id R)" using ok unfolding res_ok_def by (rule conjunct1)
  moreover have "\<forall>r \<in> set R. \<forall>r' \<in> set R. rr_match_id r = rr_match_id r' \<longrightarrow> rr_immutable_inputs_sha256 r = rr_immutable_inputs_sha256 r'"
    using ok unfolding res_ok_def by (elim conjE) assumption
  ultimately show ?thesis
    unfolding res_ok_def decodes set_map ball_simps d by (intro conjI; (assumption | blast | simp only: map_map comp_def d))
qed

lemma live_in_update: "res_change P f \<Longrightarrow> live_in key (upd P f R) \<le> live_in key R"
proof (induction R)
  case (Cons r R)
  have "holds_scope key (if P r then f r else r) \<Longrightarrow> holds_scope key r"
    using res_changeD(3,6)[OF Cons.prems, of r] by (simp add: holds_scope_def)
  then show ?case using Cons by (auto simp: live_in_def)
qed (simp add: live_in_def)

lemma row_scopes_update: "res_change P f \<Longrightarrow> map row_scopes (upd P f R) = map row_scopes R"
  using res_changeD[of P f] by (simp add: row_scopes_def)

lemma reservations_update:
  assumes inv: "sched_inv db" and c: "res_change P f" and chk: "\<forall>r \<in> set (sd_reservations db). P r \<longrightarrow> check_reservation (f r)"
  shows "sched_inv (db\<lparr>sd_reservations := upd P f (sd_reservations db)\<rparr>)"
proof -
  let ?R = "sd_reservations db" and ?g = "\<lambda>r. if P r then f r else r"
  note d = res_changeD[OF c]
  have "res_ok (upd P f ?R)" using res_ok_update[OF _ c chk] inv by (simp add: sched_inv_def)
  moreover have "capacity_ok (sd_limits db) (upd P f ?R)"
    using inv live_in_update[OF c] by (fastforce simp: sched_inv_def capacity_ok_def intro: order_trans)
  moreover have "results_ok (upd P f ?R) (sd_results db)"
  proof -
    have "results_ok ?R (sd_results db)" using inv by (simp add: sched_inv_def)
    then show ?thesis unfolding results_ok_def set_map ball_simps bex_simps d using d(6) by blast
  qed
  moreover have "controls_ok (sd_controls db) (upd P f ?R)"
  proof -
    have "controls_ok (sd_controls db) ?R" using inv by (simp add: sched_inv_def)
    then show ?thesis unfolding controls_ok_def set_map ball_simps d using d(7) by blast
  qed
  moreover have "sd_scopes db = concat (map row_scopes (upd P f ?R))"
    using inv unfolding row_scopes_update[OF c] by (simp add: sched_inv_def)
  ultimately show ?thesis using inv by (simp add: sched_inv_def)
qed

lemma res_changeI:
  assumes "\<And>r. P r \<Longrightarrow> f r = r\<lparr>rr_status := rr_status (f r), rr_expires_at := rr_expires_at (f r), rr_updated_at := rr_updated_at (f r),
      rr_finished_at := rr_finished_at (f r)\<rparr>"
    "\<And>r. P r \<Longrightarrow> live (f r) \<Longrightarrow> live r" "\<And>r. P r \<Longrightarrow> rr_status (f r) = ResActive \<Longrightarrow> rr_status r = ResActive"
  shows "res_change P f"
  unfolding res_change_def using assms by metis

lemma change_finish: "\<not> live (r\<lparr>rr_status := st\<rparr>) \<Longrightarrow> res_change P (finish_reservation st now)"
  by (rule res_changeI) (auto simp: finish_reservation_def live_def)

lemma change_expire: "res_change P (expire_row now)"
  by (rule res_changeI) (auto simp: expire_row_def live_def)

lemma change_cancel: "res_change (\<lambda>r. Q r \<and> rr_status r = ResActive) (request_cancel now)"
  by (rule res_changeI) (auto simp: request_cancel_def live_def)

lemma change_renew: "res_change (renewable reservation now expires) (\<lambda>r. r\<lparr>rr_expires_at := expires, rr_updated_at := now\<rparr>)"
  by (rule res_changeI) (auto simp: live_def)

section \<open>Preservation\<close>

lemma transaction_keeps:
  assumes "I db" "\<And>db' x. f db = Ok (db', x) \<Longrightarrow> I db'"
  shows "I (fst (transaction f db))"
  using assms by (cases "f db") (auto simp: transaction_def)

lemma expire_Ok:
  assumes "expire_reservations now db = Ok (db', ids)"
  shows "db' = db\<lparr>sd_reservations := upd (\<lambda>r. live r \<and> rr_expires_at r \<le> now) (expire_row now) (sd_reservations db)\<rparr>"
    "\<forall>r \<in> set (sd_reservations db). live r \<and> rr_expires_at r \<le> now \<longrightarrow> check_reservation (expire_row now r)"
  using assms by (auto simp: expire_reservations_def sql_update_Ok elim!: rbind_OkE)

lemma expire_inv: "sched_inv db \<Longrightarrow> expire_reservations now db = Ok (db', ids) \<Longrightarrow> sched_inv db'"
  using expire_Ok[of now db db' ids] reservations_update[OF _ change_expire] by simp

lemma recovery_inv: "sched_inv db \<Longrightarrow> sched_inv (fst (recovery db now))"
  unfolding recovery_def by (rule transaction_keeps) (auto simp: recovery_in_def Let_def elim!: rbind_OkE intro: expire_inv)

lemma renew_Ok:
  assumes "renew_in_sched reservation now expires db = Ok (db', x)"
  shows "db' = db\<lparr>sd_reservations := upd (renewable reservation now expires) (\<lambda>r. r\<lparr>rr_expires_at := expires, rr_updated_at := now\<rparr>) (sd_reservations db)\<rparr>"
    "\<forall>r \<in> set (sd_reservations db). renewable reservation now expires r \<longrightarrow> check_reservation (r\<lparr>rr_expires_at := expires, rr_updated_at := now\<rparr>)"
    "\<exists>r \<in> set (sd_reservations db). renewable reservation now expires r"
  using assms by (auto simp: renew_in_sched_def sql_update_Ok filter_eq_Cons_iff length_Suc_conv elim!: rbind_OkE)

lemma renew_sched_inv:
  assumes "sched_inv db"
  shows "sched_inv (fst (renew_reservation db reservation now duration))"
proof -
  have "sched_inv db'" if "renew_in_sched reservation now expires db = Ok (db', x)" for expires db' x
    using renew_Ok(1)[OF that] reservations_update[OF assms change_renew renew_Ok(2)[OF that]] by simp
  then show ?thesis using assms by (auto simp: renew_reservation_def intro!: transaction_keeps[of sched_inv] split: option.splits)
qed

lemma release_Ok:
  assumes "release_in reservation now db = Ok (db', x)"
  shows "db' = db\<lparr>sd_reservations := upd (releasable reservation) (finish_reservation ResReleased now) (sd_reservations db)\<rparr>"
    "\<forall>r \<in> set (sd_reservations db). releasable reservation r \<longrightarrow> check_reservation (finish_reservation ResReleased now r)"
  using assms by (auto simp: release_in_def sql_update_Ok elim!: rbind_OkE)

lemma change_end: "res_change P (finish_reservation ResReleased now)" "res_change P (finish_reservation ResCompleted now)"
  by (rule change_finish, simp add: live_def)+

lemma release_inv:
  assumes "sched_inv db"
  shows "sched_inv (fst (release_reservation db reservation now))"
proof -
  have "sched_inv db'" if "release_in reservation now db = Ok (db', x)" for db' x
    using release_Ok(1)[OF that] reservations_update[OF assms change_end(1) release_Ok(2)[OF that]] by simp
  then show ?thesis using assms by (auto simp: release_reservation_def intro!: transaction_keeps[of sched_inv])
qed

lemma finished_not_live: "\<not> live (finish_reservation ResCompleted now r)"
  by (simp add: live_def finish_reservation_def)

text \<open>Upserts keep the keys unique and the rows valid.\<close>

lemma upsert_Ok:
  assumes "upsert check (\<lambda>r. k r = i) new change rows = Ok rows'" "k new = i" "\<And>r. k r = i \<Longrightarrow> k (change r) = i" "distinct (map k rows)"
  shows "distinct (map k rows')" "\<And>r. r \<in> set rows' \<Longrightarrow> k r \<noteq> i \<Longrightarrow> r \<in> set rows"
    "\<And>r. r \<in> set rows \<Longrightarrow> k r \<noteq> i \<Longrightarrow> r \<in> set rows'"
    "\<And>r. r \<in> set rows' \<Longrightarrow> k r = i \<Longrightarrow> check r \<and> (r = new \<or> (\<exists>q \<in> set rows. k q = i \<and> r = change q))"
    "k ` set rows' = insert i (k ` set rows)"
proof -
  have u: "(rows' = map (\<lambda>r. if k r = i then change r else r) rows \<and> i \<in> k ` set rows \<or> rows' = rows @ [new] \<and> i \<notin> k ` set rows)
      \<and> check new \<and> (\<forall>r \<in> set rows. k r = i \<longrightarrow> check (change r))"
    using assms(1) by (auto simp: upsert_def list_ex_iff split: if_splits)
  have m: "map k (map (\<lambda>r. if k r = i then change r else r) rows) = map k rows" using assms(3) by auto
  show "distinct (map k rows')"
  proof (cases "i \<in> k ` set rows")
    case True
    then have "map k rows' = map k rows" using u m by metis
    then show ?thesis using assms(4) by simp
  next
    case False
    then show ?thesis using u assms(2,4) by auto
  qed
  show "\<And>r. r \<in> set rows' \<Longrightarrow> k r \<noteq> i \<Longrightarrow> r \<in> set rows" using u assms(2,3) by auto
  show "\<And>r. r \<in> set rows \<Longrightarrow> k r \<noteq> i \<Longrightarrow> r \<in> set rows'" using u by force
  show "\<And>r. r \<in> set rows' \<Longrightarrow> k r = i \<Longrightarrow> check r \<and> (r = new \<or> (\<exists>q \<in> set rows. k q = i \<and> r = change q))"
    using u by (auto split: if_splits)
  show "k ` set rows' = insert i (k ` set rows)"
  proof (cases "i \<in> k ` set rows")
    case True
    then have "map k rows' = map k rows" using u m by metis
    then have "k ` set rows' = k ` set rows" by (metis set_map)
    then show ?thesis using True by blast
  next
    case False
    then show ?thesis using u assms(2) by auto
  qed
qed

lemma controls_inv:
  assumes inv: "sched_inv db" and u: "upsert check_control (\<lambda>c. cr_tournament_id c = i) new change (sd_controls db) = Ok C"
    and new: "cr_tournament_id new = i" "cr_control new = next"
    and change: "\<And>c. cr_tournament_id (change c) = cr_tournament_id c \<and> cr_control (change c) = next"
    and cancelled: "next = CtlCancelled \<Longrightarrow> \<forall>r \<in> set (sd_reservations db). rr_tournament_id r = i \<longrightarrow> rr_status r \<noteq> ResActive"
  shows "sched_inv (db\<lparr>sd_controls := C\<rparr>)"
proof -
  have old: "controls_ok (sd_controls db) (sd_reservations db)" using inv by (simp add: sched_inv_def)
  have d: "distinct (map cr_tournament_id (sd_controls db))" using old by (simp add: controls_ok_def)
  note k = upsert_Ok[OF u new(1) _ d] 
  have ch: "\<And>r. cr_tournament_id r = i \<Longrightarrow> cr_tournament_id (change r) = i" using change by simp
  have "rr_status r \<noteq> ResActive"
    if c: "c \<in> set C" "cr_control c = CtlCancelled" and r: "r \<in> set (sd_reservations db)" "rr_tournament_id r = cr_tournament_id c" for c r
  proof (cases "cr_tournament_id c = i")
    case True
    then have "cr_control c = next" using k(4)[OF ch c(1)] new(2) change by auto
    then show ?thesis using cancelled c(2) r True by simp
  next
    case False
    then have "c \<in> set (sd_controls db)" using k(2)[OF ch c(1)] by simp
    then show ?thesis using old c(2) r by (auto simp: controls_ok_def)
  qed
  then have "controls_ok C (sd_reservations db)" using k(1)[OF ch] by (auto simp: controls_ok_def)
  then show ?thesis using inv by (simp add: sched_inv_def)
qed

lemma control_inv:
  assumes inv: "sched_inv db"
  shows "sched_inv (fst (set_control db i next now))"
proof -
  have "sched_inv db'" if c: "control_in i next now db = Ok (db', x)" for db' x
  proof -
    let ?P = "\<lambda>r. rr_tournament_id r = i \<and> rr_status r = ResActive"
    let ?R = "if next = CtlCancelled then upd ?P (request_cancel now) (sd_reservations db) else sd_reservations db"
    obtain seq C where u: "upsert check_control (\<lambda>c. cr_tournament_id c = i)
        \<lparr>cr_tournament_id = i, cr_schema_version = SCHEDULER_SCHEMA_VERSION, cr_control = next, cr_sequence = seq, cr_updated_at = now\<rparr>
        (\<lambda>c. c\<lparr>cr_control := next, cr_sequence := seq, cr_updated_at := now\<rparr>) (sd_controls db) = Ok C"
      and db': "db' = (db\<lparr>sd_reservations := ?R\<rparr>)\<lparr>sd_controls := C\<rparr>"
      and chk: "next = CtlCancelled \<Longrightarrow> \<forall>r \<in> set (sd_reservations db). ?P r \<longrightarrow> check_reservation (request_cancel now r)"
      using c by (auto simp: control_in_def Let_def sql_update_Ok elim!: rbind_OkE split: if_splits)
    have R: "sched_inv (db\<lparr>sd_reservations := ?R\<rparr>)"
      using inv reservations_update[OF inv change_cancel chk] by (cases "next = CtlCancelled") simp_all
    have none: "rr_status r \<noteq> ResActive" if n: "next = CtlCancelled" and r: "r \<in> set ?R" and t: "rr_tournament_id r = i" for r
    proof -
      have "r \<in> (\<lambda>q. if ?P q then request_cancel now q else q) ` set (sd_reservations db)" using n r by (simp only: if_True set_map refl)
      then obtain q where q: "r = (if ?P q then request_cancel now q else q)" by (rule imageE)
      show ?thesis
      proof (cases "?P q")
        case True
        then show ?thesis unfolding q by (simp add: request_cancel_def)
      next
        case False
        then show ?thesis using q t by auto
      qed
    qed
    show ?thesis unfolding db'
    proof (rule controls_inv[OF R])
      show "upsert check_control (\<lambda>c. cr_tournament_id c = i)
        \<lparr>cr_tournament_id = i, cr_schema_version = SCHEDULER_SCHEMA_VERSION, cr_control = next, cr_sequence = seq, cr_updated_at = now\<rparr>
        (\<lambda>c. c\<lparr>cr_control := next, cr_sequence := seq, cr_updated_at := now\<rparr>) (sd_controls (db\<lparr>sd_reservations := ?R\<rparr>)) = Ok C" using u by simp
      show "\<forall>r \<in> set (sd_reservations (db\<lparr>sd_reservations := ?R\<rparr>)). rr_tournament_id r = i \<longrightarrow> rr_status r \<noteq> ResActive"
        if "next = CtlCancelled" using none[OF that] by simp
    qed simp_all
  qed
  then show ?thesis using inv by (auto simp: set_control_def intro!: transaction_keeps[of sched_inv])
qed

lemma commit_Ok:
  assumes "commit_in reservation result now db = Ok (db', TerminalApplied t)"
  shows "t = result" "load_terminal db (tm_match_id result) = Ok None"
    "\<forall>r \<in> set (sd_reservations db). committable reservation result now r \<longrightarrow> check_reservation (finish_reservation ResCompleted now r)"
    "\<exists>r \<in> set (sd_reservations db). committable reservation result now r"
    "insert_result (db\<lparr>sd_reservations := upd (committable reservation result now) (finish_reservation ResCompleted now) (sd_reservations db)\<rparr>)
      (result_row result (rq_reservation_id (er_request reservation)) now) = Ok db'"
  using assms
  by (auto simp: commit_in_def sql_update_Ok filter_eq_Cons_iff length_Suc_conv elim!: rbind_OkE split: option.splits if_splits)

lemma result_row_simps [simp]:
  "tr_match_id (result_row t i now) = tm_match_id t" "tr_charge_key (result_row t i now) = tm_charge_key t"
  "tr_telemetry_key (result_row t i now) = tm_telemetry_key t" "tr_rating_key (result_row t i now) = tm_rating_key t"
  "tr_reservation_id (result_row t i now) = i" "tr_result (result_row t i now) = t" "tr_committed_at (result_row t i now) = now"
  "tr_immutable_inputs_sha256 (result_row t i now) = tm_immutable_inputs_sha256 t"
  by (simp_all add: result_row_def)

lemma live_match_unique:
  assumes "res_ok R" "r \<in> set R" "r' \<in> set R" "live r" "live r'" "rr_match_id r = rr_match_id r'"
  shows "r = r'"
  using assms unique_key[of rr_match_id "filter live R" r r'] by (simp add: res_ok_def)

lemma results_append:
  assumes "results_ok R T" "result_ok t" "\<exists>r \<in> set R. rr_match_id r = tr_match_id t \<and> rr_reservation_id r = tr_reservation_id t"
    "\<forall>u \<in> set T. tr_match_id u \<noteq> tr_match_id t \<and> tr_charge_key u \<noteq> tr_charge_key t \<and> tr_telemetry_key u \<noteq> tr_telemetry_key t
       \<and> tr_rating_key u \<noteq> tr_rating_key t \<and> tr_reservation_id u \<noteq> tr_reservation_id t"
    "\<And>r. r \<in> set R \<Longrightarrow> rr_match_id r = tr_match_id t \<Longrightarrow> \<not> live r \<and> rr_immutable_inputs_sha256 r = tr_immutable_inputs_sha256 t"
  shows "results_ok R (T @ [t])"
proof -
  have fresh: "x t \<notin> x ` set T" if "\<forall>u \<in> set T. x u \<noteq> x t" for x :: "ResultRow \<Rightarrow> string" using that by force
  have "distinct (map x (T @ [t])) \<longleftrightarrow> distinct (map x T) \<and> x t \<notin> x ` set T" for x :: "ResultRow \<Rightarrow> string" by auto
  then show ?thesis
    unfolding results_ok_def using assms fresh by (simp only: results_ok_def) (intro conjI; (auto; fail)?; force?)
qed

lemma commit_inv:
  assumes inv: "sched_inv db"
  shows "sched_inv (fst (commit_result db reservation result now))"
proof -
  have applied: "sched_inv db'" if c: "commit_in reservation result now db = Ok (db', TerminalApplied t)" and v: "validate_terminal result = Ok ()" for db' t
  proof -
    note k = commit_Ok[OF c]
    let ?P = "committable reservation result now" and ?f = "finish_reservation ResCompleted now"
    let ?R = "upd ?P ?f (sd_reservations db)" and ?row = "result_row result (rq_reservation_id (er_request reservation)) now"
    have inv1: "sched_inv (db\<lparr>sd_reservations := ?R\<rparr>)" by (rule reservations_update[OF inv change_end(2) k(3)])
    have ins: "db' = db\<lparr>sd_reservations := ?R, sd_results := sd_results db @ [?row]\<rparr>"
      "\<forall>t \<in> set (sd_results db). tr_match_id t \<noteq> tr_match_id ?row \<and> tr_charge_key t \<noteq> tr_charge_key ?row
        \<and> tr_telemetry_key t \<noteq> tr_telemetry_key ?row \<and> tr_rating_key t \<noteq> tr_rating_key ?row \<and> tr_reservation_id t \<noteq> tr_reservation_id ?row"
      using k(5) by (auto simp: insert_result_def list_ex_iff split: if_splits)
    obtain r0 where r0: "r0 \<in> set (sd_reservations db)" "?P r0" using k(4) by blast
    have ok: "res_ok (sd_reservations db)" using inv by (simp add: sched_inv_def)
    have new: "\<not> live r \<and> rr_immutable_inputs_sha256 r = tm_immutable_inputs_sha256 result" if a: "r \<in> set ?R" "rr_match_id r = tm_match_id result" for r
    proof -
      obtain q where q: "q \<in> set (sd_reservations db)" "r = (if ?P q then ?f q else q)" using a(1) by auto
      note d = res_changeD[OF change_end(2)[of ?P now], of q]
      have m: "rr_match_id q = rr_match_id r0" using a(2) q(2) d(2) r0(2) by (simp add: committable_def)
      have "live r0" using r0(2) by (simp add: committable_def live_def)
      then have "\<not> live r" using live_match_unique[OF ok q(1) r0(1) _ _ m] d(6) q(2) r0(2) finished_not_live by auto
      moreover have "rr_immutable_inputs_sha256 q = rr_immutable_inputs_sha256 r0" using ok q(1) r0(1) m unfolding res_ok_def by blast
      ultimately show ?thesis using q(2) d(4) r0(2) by (simp add: committable_def)
    qed
    have "?f r0 \<in> set ?R" using r0 by force
    moreover have "rr_match_id (?f r0) = tm_match_id result" "rr_reservation_id (?f r0) = rq_reservation_id (er_request reservation)"
      using r0(2) by (simp_all add: committable_def finish_reservation_def)
    ultimately have "\<exists>r \<in> set ?R. rr_match_id r = tr_match_id ?row \<and> rr_reservation_id r = tr_reservation_id ?row" by (intro bexI[of _ "?f r0"]) simp_all
    moreover have "result_ok ?row" using v by (simp add: result_ok_def)
    moreover have "results_ok ?R (sd_results db)" using inv1 by (simp add: sched_inv_def)
    ultimately have "results_ok ?R (sd_results db @ [?row])"
      using ins(2) new by (intro results_append) auto
    then show ?thesis using inv1 by (simp add: ins(1) sched_inv_def)
  qed
  have same: "db' = db" if "commit_in reservation result now db = Ok (db', TerminalAlreadyApplied t)" for db' t
    using that by (auto simp: commit_in_def elim!: rbind_OkE split: option.splits if_splits)
  have "sched_inv db'" if "commit_in reservation result now db = Ok (db', x)" "validate_terminal result = Ok ()" for db' x
    using that applied same inv by (cases x) blast+
  then show ?thesis using inv by (auto simp: commit_result_def intro!: transaction_keeps[of sched_inv])
qed

end
