(* ===== verification/SchedulerAcq.thy ===== *)
theory SchedulerAcq
  imports SchedulerInv
begin

text \<open>
  The two calls that touch limits and buckets, configuration and acquisition, keep the invariant.
\<close>

section \<open>Configuration\<close>

lemma rate_of_limit_row: "rate_of ((limit_row key l created now)\<lparr>lr_created_at := c\<rparr>) = sl_rate l" "rate_of (limit_row key l created now) = sl_rate l"
  by (cases "sl_rate l"; simp add: rate_of_def limit_row_def)+

lemma validate_limit_Ok:
  assumes "validate_limit l = Ok ()"
  shows "sl_schema_version l = SCHEDULER_SCHEMA_VERSION" "scope_validate (sl_scope l)" "sl_rate l = Some rate \<Longrightarrow> good_rate rate"
    "1 \<le> sl_max_concurrency l"
  using assms by (auto simp: validate_limit_def good_rate_def split: if_splits)

lemma collect_Ok:
  assumes "collect_limits limits = Ok unique" "(k, l) \<in> set unique"
  shows "validate_limit l = Ok () \<and> k = scope_key (sl_scope l)"
proof -
  obtain u where u: "try_fold (\<lambda>unique limit. if validate_limit limit \<noteq> Ok () then Err SchedCorrupt
       else if scope_key (sl_scope limit) \<in> fst ` set unique then Err SchedConflict
       else Ok (unique @ [(scope_key (sl_scope limit), limit)])) [] limits = Ok u" "unique = sort_key fst u"
    using assms(1) by (auto simp: collect_limits_def elim!: rbind_OkE)
  have "\<forall>(k, l) \<in> set u. validate_limit l = Ok () \<and> k = scope_key (sl_scope l)"
    by (rule try_fold_invariant[OF u(1), where P = "\<lambda>u. \<forall>(k, l) \<in> set u. validate_limit l = Ok () \<and> k = scope_key (sl_scope l)"])
      (auto split: if_splits)
  then show ?thesis using assms(2) u(2) by auto
qed

lemma bucket_ok_full: "good_rate rate \<Longrightarrow> 0 \<le> now \<Longrightarrow> bucket_ok rate \<lparr>tb_tokens = rp_capacity rate, tb_remainder = 0, tb_updated_at = now\<rparr>"
  by (simp add: bucket_ok_def good_rateD)

lemma bucketsI:
  assumes "distinct (map bk_scope_key B)"
    "\<And>b. b \<in> set B \<Longrightarrow> \<exists>l \<in> set L. lr_scope_key l = bk_scope_key b \<and> (\<exists>rate. rate_of l = Some rate \<and> good_rate rate \<and> bucket_ok rate (bucket_state b))"
    "\<And>l. l \<in> set L \<Longrightarrow> rate_of l \<noteq> None \<Longrightarrow> lr_scope_key l \<in> bk_scope_key ` set B"
  shows "buckets_ok L B"
  using assms by (simp add: buckets_ok_def)

lemma bucketsD:
  assumes "buckets_ok L B"
  shows "distinct (map bk_scope_key B)"
    "b \<in> set B \<Longrightarrow> \<exists>l \<in> set L. lr_scope_key l = bk_scope_key b \<and> (\<exists>rate. rate_of l = Some rate \<and> good_rate rate \<and> bucket_ok rate (bucket_state b))"
    "l \<in> set L \<Longrightarrow> rate_of l \<noteq> None \<Longrightarrow> lr_scope_key l \<in> bk_scope_key ` set B"
  using assms by (auto simp: buckets_ok_def)

lemma store_limit_buckets:
  assumes old: "buckets_ok L B" and others: "\<And>l. lr_scope_key l \<noteq> key \<Longrightarrow> l \<in> set L' \<longleftrightarrow> l \<in> set L"
    and at: "\<And>l. l \<in> set L' \<Longrightarrow> lr_scope_key l = key \<Longrightarrow> rate_of l = rate" "key \<in> lr_scope_key ` set L'"
    and rate: "\<And>p. rate = Some p \<Longrightarrow> good_rate p" and now: "0 \<le> now"
    and B': "case rate of
        Some p \<Rightarrow> upsert check_bucket (\<lambda>b. bk_scope_key b = key)
          \<lparr>bk_scope_key = key, bk_tokens = rp_capacity p, bk_refill_remainder = 0, bk_updated_at = now\<rparr>
          (\<lambda>_. \<lparr>bk_scope_key = key, bk_tokens = rp_capacity p, bk_refill_remainder = 0, bk_updated_at = now\<rparr>) B = Ok B'
      | None \<Rightarrow> B' = filter (\<lambda>b. bk_scope_key b \<noteq> key) B"
  shows "buckets_ok L' B'"
proof (cases rate)
  case None
  then have B': "B' = filter (\<lambda>b. bk_scope_key b \<noteq> key) B" using B' by simp
  show ?thesis
  proof (rule bucketsI)
    show "distinct (map bk_scope_key B')" using bucketsD(1)[OF old] by (simp add: B' distinct_map_filter)
    fix b assume b: "b \<in> set B'"
    then show "\<exists>l \<in> set L'. lr_scope_key l = bk_scope_key b \<and> (\<exists>rate. rate_of l = Some rate \<and> good_rate rate \<and> bucket_ok rate (bucket_state b))"
      using bucketsD(2)[OF old, of b] others by (auto simp: B')
  next
    fix l assume l: "l \<in> set L'" "rate_of l \<noteq> None"
    then have "lr_scope_key l \<noteq> key" using at(1) None by auto
    then show "lr_scope_key l \<in> bk_scope_key ` set B'" using bucketsD(3)[OF old, of l] others[of l] l by (auto simp: B')
  qed
next
  case (Some p)
  let ?new = "\<lparr>bk_scope_key = key, bk_tokens = rp_capacity p, bk_refill_remainder = 0, bk_updated_at = now\<rparr>"
  have u: "upsert check_bucket (\<lambda>b. bk_scope_key b = key) ?new (\<lambda>_. ?new) B = Ok B'" using B' Some by simp
  note k = upsert_Ok[OF u _ _ bucketsD(1)[OF old], simplified]
  show ?thesis
  proof (rule bucketsI)
    show "distinct (map bk_scope_key B')" by (rule k(1))
    fix b assume b: "b \<in> set B'"
    show "\<exists>l \<in> set L'. lr_scope_key l = bk_scope_key b \<and> (\<exists>rate. rate_of l = Some rate \<and> good_rate rate \<and> bucket_ok rate (bucket_state b))"
    proof (cases "bk_scope_key b = key")
      case True
      obtain l where l: "l \<in> set L'" "lr_scope_key l = key" using at(2) by auto
      have "b = ?new" using k(4)[OF b True] by auto
      then have "bucket_ok p (bucket_state b)" using bucket_ok_full[OF rate[OF Some] now] by (simp add: bucket_state_def)
      then show ?thesis using l at(1)[OF l] Some True rate[OF Some] by (intro bexI[of _ l]) auto
    next
      case False
      then show ?thesis using bucketsD(2)[OF old k(2)[OF b False]] others by auto
    qed
  next
    fix l assume l: "l \<in> set L'" "rate_of l \<noteq> None"
    show "lr_scope_key l \<in> bk_scope_key ` set B'"
      unfolding k(5) using bucketsD(3)[OF old, of l] others[of l] l by auto
  qed
qed

lemma store_limit_inv:
  assumes inv: "sched_inv db" and v: "validate_limit limit = Ok ()" "key = scope_key (sl_scope limit)" and now: "0 \<le> now"
    and s: "store_limit now db (key, limit) = Ok db'"
  shows "sched_inv db'"
proof -
  define created where "created = (case find_limit db key of None \<Rightarrow> now | Some l \<Rightarrow> lr_created_at l)"
  let ?row = "limit_row key limit created now"
  obtain L B where c: "active_count db key = 0"
    "upsert check_limit (\<lambda>l. lr_scope_key l = key) ?row (\<lambda>l. ?row\<lparr>lr_created_at := lr_created_at l\<rparr>) (sd_limits db) = Ok L"
    "(case sl_rate limit of
         Some rate \<Rightarrow>
           let bucket = \<lparr>bk_scope_key = key, bk_tokens = rp_capacity rate, bk_refill_remainder = 0, bk_updated_at = now\<rparr>
           in upsert check_bucket (\<lambda>b. bk_scope_key b = key) bucket (\<lambda>_. bucket) (sd_buckets db)
       | None \<Rightarrow> Ok (filter (\<lambda>b. bk_scope_key b \<noteq> key) (sd_buckets db))) = Ok B"
    "db' = db\<lparr>sd_limits := L, sd_buckets := B\<rparr>"
    using s unfolding store_limit_def prod.case Let_def created_def by (elim rbind_OkE) (auto simp: ensure_def split: if_splits)
  have i: "limits_ok (sd_limits db)" "buckets_ok (sd_limits db) (sd_buckets db)" "capacity_ok (sd_limits db) (sd_reservations db)"
    "active_count db key = live_in key (sd_reservations db)"
    using inv active_count_eq[of db key] by (simp_all add: sched_inv_def res_ok_def)
  have key: "lr_scope_key ?row = key" "\<And>x. lr_scope_key (?row\<lparr>lr_created_at := x\<rparr>) = key" by (simp_all add: limit_row_def)
  have dl: "distinct (map lr_scope_key (sd_limits db))" using i(1) by (simp add: limits_ok_def)
  note k = upsert_Ok[OF c(2) key(1) key(2) dl]
  have is_row: "\<exists>x. l = ?row\<lparr>lr_created_at := x\<rparr>" if "l \<in> set L" "lr_scope_key l = key" for l
    using k(4)[OF that] by (metis LimitRow.surjective LimitRow.update_convs(8) limit_row_def)
  have others: "l \<in> set L \<longleftrightarrow> l \<in> set (sd_limits db)" if "lr_scope_key l \<noteq> key" for l using k(2,3) that by blast
  have "limits_ok L"
  proof -
    have "limit_ok l" if l: "l \<in> set L" for l
    proof (cases "lr_scope_key l = key")
      case True
      then obtain x where x: "l = ?row\<lparr>lr_created_at := x\<rparr>" using is_row l by blast
      have "check_limit l" using k(4)[OF l True] by simp
      then show ?thesis using v validate_limit_Ok(1,2)[OF v(1)] unfolding limit_ok_def by (simp add: x) (simp add: limit_row_def)
    next
      case False
      then show ?thesis using others l i(1) by (auto simp: limits_ok_def)
    qed
    then show ?thesis using k(1) by (simp add: limits_ok_def)
  qed
  moreover have "buckets_ok L B"
  proof (rule store_limit_buckets[OF i(2)])
    fix l :: LimitRow assume "lr_scope_key l \<noteq> key"
    then show "l \<in> set L \<longleftrightarrow> l \<in> set (sd_limits db)" by (rule others)
  next
    fix l assume "l \<in> set L" "lr_scope_key l = key"
    then show "rate_of l = sl_rate limit" using is_row rate_of_limit_row by metis
  next
    show "key \<in> lr_scope_key ` set L" unfolding k(5) by simp
    show "0 \<le> now" by (rule now)
    fix p assume "sl_rate limit = Some p"
    then show "good_rate p" by (rule validate_limit_Ok(3)[OF v(1)])
  qed (use c(3) in \<open>auto simp: Let_def split: option.splits\<close>)
  moreover have "capacity_ok L (sd_reservations db)"
    unfolding capacity_ok_def
  proof
    fix l assume l: "l \<in> set L"
    show "live_in (lr_scope_key l) (sd_reservations db) \<le> lr_max_concurrency l"
      using i(3,4) c(1) others[of l] l by (cases "lr_scope_key l = key") (auto simp: capacity_ok_def)
  qed
  ultimately show ?thesis using inv by (simp add: c(4) sched_inv_def)
qed

lemma configure_inv:
  assumes inv: "sched_inv db"
  shows "sched_inv (fst (configure_limits db limits now))"
proof -
  have "sched_inv db'" if u: "collect_limits limits = Ok unique" "configure_in unique now db = Ok (db', x)" and now: "0 \<le> now" for unique db' x
  proof -
    have f: "try_fold (store_limit now) db unique = Ok db'" using u(2) by (auto simp: configure_in_def elim!: rbind_OkE)
    show ?thesis
    proof (rule try_fold_invariant[OF f, where P = sched_inv, OF inv])
      fix s kl s' assume a: "sched_inv s" "kl \<in> set unique" "store_limit now s kl = Ok s'"
      obtain k l where kl: "kl = (k, l)" by force
      show "sched_inv s'"
        using store_limit_inv[OF a(1) _ _ now a(3)[unfolded kl]] collect_Ok[OF u(1) a(2)[unfolded kl]] by blast
    qed
  qed
  then show ?thesis using inv by (auto simp: configure_limits_def intro!: transaction_keeps[of sched_inv] split: outcome.splits)
qed

section \<open>Loading limits\<close>

lemma find_unique:
  assumes "distinct (map k xs)" "x \<in> set xs" "k x = i"
  shows "List.find (\<lambda>y. k y = i) xs = Some x"
proof -
  have "List.find (\<lambda>y. k y = i) xs \<noteq> None" using assms(2,3) by (auto simp: find_None_iff)
  then obtain y where y: "List.find (\<lambda>y. k y = i) xs = Some y" by blast
  then have "y \<in> set xs" "k y = i" by (auto simp: find_Some_iff)
  then show ?thesis using y unique_key[OF assms(1) _ assms(2)] assms(3) by simp
qed

lemma row_rate_of: "check_limit l \<Longrightarrow> row_rate l = Ok (rate_of l)"
  by (auto simp: row_rate_def rate_of_def check_limit_def split: option.splits)

lemma rate_of_good: "check_limit l \<Longrightarrow> rate_of l = Some rate \<Longrightarrow> good_rate rate"
  by (auto simp: rate_of_def check_limit_def good_rate_def bad_rate_def MAX_RATE_CAPACITY_def null_or_def split: option.splits)

lemma validate_stored: "limit_ok l \<Longrightarrow> validate_limit \<lparr>sl_schema_version = SCHEDULER_SCHEMA_VERSION, sl_scope = lr_scope l,
    sl_max_concurrency = lr_max_concurrency l, sl_rate = rate_of l\<rparr> = Ok ()"
  using rate_of_good[of l] by (auto simp: validate_limit_def limit_ok_def check_limit_def MAX_CONCURRENCY_LIMIT_def good_rate_def split: option.splits)

definition stored_of :: "SchedDb \<Rightarrow> LimitRow \<Rightarrow> StoredLimit" where
  "stored_of db l = \<lparr>st_policy = \<lparr>sl_schema_version = SCHEDULER_SCHEMA_VERSION, sl_scope = lr_scope l,
       sl_max_concurrency = lr_max_concurrency l, sl_rate = rate_of l\<rparr>,
     st_bucket = (if rate_of l = None then None else map_option bucket_state (find_bucket db (lr_scope_key l)))\<rparr>"

lemma load_limit_Ok:
  assumes inv: "sched_inv db" and l: "l \<in> set (sd_limits db)"
  shows "load_limit db (lr_scope_key l) = Ok (stored_of db l)"
    "rate_of l = Some rate \<Longrightarrow> \<exists>b. find_bucket db (lr_scope_key l) = Some b \<and> bucket_ok rate (bucket_state b) \<and> good_rate rate"
proof -
  have L: "limits_ok (sd_limits db)" and B: "buckets_ok (sd_limits db) (sd_buckets db)" using inv by (simp_all add: sched_inv_def)
  have ok: "limit_ok l" "distinct (map lr_scope_key (sd_limits db))" using L l by (auto simp: limits_ok_def)
  have b: "\<exists>b. find_bucket db (lr_scope_key l) = Some b \<and> bucket_ok rate (bucket_state b) \<and> good_rate rate" if r: "rate_of l = Some rate" for rate
  proof -
    obtain b where b: "b \<in> set (sd_buckets db)" "bk_scope_key b = lr_scope_key l" using bucketsD(3)[OF B l] r by auto
    obtain l' rate' where l': "l' \<in> set (sd_limits db)" "lr_scope_key l' = bk_scope_key b" "rate_of l' = Some rate'" "good_rate rate'"
      "bucket_ok rate' (bucket_state b)" using bucketsD(2)[OF B b(1)] by blast
    have "l' = l" using unique_key[OF ok(2) l'(1) l] l'(2) b(2) by simp
    then show ?thesis using l' r b find_unique[OF bucketsD(1)[OF B] b] by (simp add: find_bucket_def)
  qed
  then show "rate_of l = Some rate \<Longrightarrow> \<exists>b. find_bucket db (lr_scope_key l) = Some b \<and> bucket_ok rate (bucket_state b) \<and> good_rate rate" .
  have "find_limit db (lr_scope_key l) = Some l" by (simp add: find_limit_def find_unique[OF ok(2) l])
  moreover have "row_rate l = Ok (rate_of l)" "scope_key (lr_scope l) = lr_scope_key l" "lr_schema_version l = SCHEDULER_SCHEMA_VERSION"
    using ok(1) row_rate_of by (auto simp: limit_ok_def)
  ultimately show "load_limit db (lr_scope_key l) = Ok (stored_of db l)"
    using validate_stored[OF ok(1)] b
    by (cases "rate_of l") (auto simp: load_limit_def stored_of_def Let_def bucket_state_def)
qed

section \<open>Admission\<close>

text \<open>A limit as \<^verbatim>\<open>admit\<close> returns it, its bucket refilled.\<close>

definition refill_stored :: "SchedDb \<Rightarrow> millis \<Rightarrow> LimitRow \<Rightarrow> StoredLimit" where
  "refill_stored db now l = (case rate_of l of
       None \<Rightarrow> stored_of db l
     | Some rate \<Rightarrow> (stored_of db l)\<lparr>st_bucket := map_option (\<lambda>b. refilled rate (bucket_state b) now) (find_bucket db (lr_scope_key l))\<rparr>)"

definition in_time :: "SchedDb \<Rightarrow> millis \<Rightarrow> LimitRow \<Rightarrow> bool" where
  "in_time db now l \<longleftrightarrow> (\<forall>b. rate_of l \<noteq> None \<and> find_bucket db (lr_scope_key l) = Some b \<longrightarrow> bk_updated_at b \<le> now)"

lemma admit_Ok:
  assumes inv: "sched_inv db" and now: "0 \<le> now" "now < 2 ^ 63"
    and a: "admit db now stored retry scopes = Ok (Some (stored', retry'))"
  shows "\<exists>ls. stored' = stored @ map (refill_stored db now) ls \<and> set ls \<subseteq> set (sd_limits db)
    \<and> map lr_scope_key ls = map scope_key scopes
    \<and> (\<forall>l \<in> set ls. active_count db (lr_scope_key l) < lr_max_concurrency l \<and> in_time db now l)"
  using a
proof (induction scopes arbitrary: stored retry)
  case (Cons scope rest)
  obtain limit where limit: "load_limit db (scope_key scope) = Ok limit" using Cons.prems by (auto elim!: rbind_OkE)
  obtain l where "find_limit db (scope_key scope) = Some l" using limit by (auto simp: load_limit_def elim!: rbind_OkE split: option.splits)
  then have l: "l \<in> set (sd_limits db)" "lr_scope_key l = scope_key scope" by (auto simp: find_limit_def find_Some_iff)
  have st: "limit = stored_of db l" using load_limit_Ok(1)[OF inv l(1)] limit l(2) by simp
  have act: "active_count db (lr_scope_key l) < lr_max_concurrency l"
    using Cons.prems limit by (auto simp: st stored_of_def l(2) split: if_splits)
  have "\<exists>retry2. admit db now (stored @ [refill_stored db now l]) retry2 rest = Ok (Some (stored', retry')) \<and> in_time db now l"
  proof (cases "rate_of l")
    case None
    then show ?thesis using Cons.prems limit act by (auto simp: st stored_of_def refill_stored_def l(2) in_time_def split: if_splits)
  next
    case (Some rate)
    obtain b where b: "find_bucket db (lr_scope_key l) = Some b" "bucket_ok rate (bucket_state b)" "good_rate rate"
      using load_limit_Ok(2)[OF inv l(1) Some] by blast
    have sb: "st_bucket limit = Some (bucket_state b)" "sl_rate (st_policy limit) = Some rate" using b(1) Some by (simp_all add: st stored_of_def)
    obtain b' where r: "refill_bucket (bucket_state b) rate now = Ok b'"
      using Cons.prems limit act by (auto simp: sb st[symmetric] l(2) split: if_splits outcome.splits)
    then have time: "tb_updated_at (bucket_state b) \<le> now" by (auto simp: refill_bucket_def split: if_splits)
    then have "b' = refilled rate (bucket_state b) now" using refill_exact[OF b(3,2) _ now(2)] r by simp
    then have "refill_stored db now l = limit\<lparr>st_bucket := Some b'\<rparr>" using b(1) Some by (simp add: refill_stored_def st)
    moreover have "in_time db now l" using time b(1) by (simp add: in_time_def bucket_state_def)
    ultimately show ?thesis using Cons.prems limit r by (auto simp: sb elim!: rbind_OkE split: if_splits)
  qed
  then obtain retry2 where more: "admit db now (stored @ [refill_stored db now l]) retry2 rest = Ok (Some (stored', retry'))" "in_time db now l" by blast
  from Cons.IH[OF more(1)] obtain ls where "stored' = (stored @ [refill_stored db now l]) @ map (refill_stored db now) ls" "set ls \<subseteq> set (sd_limits db)"
    "map lr_scope_key ls = map scope_key rest" "\<forall>l \<in> set ls. active_count db (lr_scope_key l) < lr_max_concurrency l \<and> in_time db now l" by blast
  then show ?case using l act more(2) by (intro exI[of _ "l # ls"]) simp
qed (intro exI[of _ "[]"], simp)

section \<open>Persisting buckets\<close>

abbreviation stored_key :: "StoredLimit \<Rightarrow> string" where
  "stored_key s \<equiv> scope_key (sl_scope (st_policy s))"

definition store_state :: "BucketRow \<Rightarrow> StoredLimit \<Rightarrow> BucketRow" where
  "store_state b s = (case st_bucket s of
       None \<Rightarrow> b
     | Some st \<Rightarrow> if bk_scope_key b = stored_key s
         then b\<lparr>bk_tokens := tb_tokens st, bk_refill_remainder := tb_remainder st, bk_updated_at := tb_updated_at st\<rparr> else b)"

lemma store_state_key [simp]: "bk_scope_key (store_state b s) = bk_scope_key b"
  by (simp add: store_state_def split: option.splits)

lemma store_states_key [simp]: "bk_scope_key (foldl store_state b ss) = bk_scope_key b"
  by (induction ss arbitrary: b) auto

lemma persist_one: "persist_bucket B s = Ok B' \<Longrightarrow> B' = map (\<lambda>b. store_state b s) B"
  by (cases "st_bucket s") (auto simp: persist_bucket_def store_state_def sql_update_Ok try_from_def elim!: rbind_OkE split: if_splits)

lemma persist_rows: "try_fold persist_bucket B ss = Ok B' \<Longrightarrow> B' = map (\<lambda>b. foldl store_state b ss) B"
proof (induction ss arbitrary: B)
  case (Cons s ss)
  obtain B1 where B1: "persist_bucket B s = Ok B1" "try_fold persist_bucket B1 ss = Ok B'"
    using Cons.prems by (auto elim!: rbind_OkE)
  show ?case using Cons.IH[OF B1(2)] persist_one[OF B1(1)] by simp
qed simp

lemma store_states_other: "bk_scope_key b \<notin> stored_key ` set ss \<Longrightarrow> foldl store_state b ss = b"
proof (induction ss arbitrary: b)
  case (Cons s ss)
  then have "store_state b s = b" by (simp add: store_state_def split: option.splits)
  then show ?case using Cons by simp
qed simp

lemma store_states_at:
  assumes "distinct (map stored_key ss)" "s \<in> set ss" "stored_key s = bk_scope_key b"
  shows "foldl store_state b ss = store_state b s"
  using assms
proof (induction ss arbitrary: b)
  case (Cons x ss)
  show ?case
  proof (cases "s = x")
    case True
    then have "bk_scope_key (store_state b x) \<notin> stored_key ` set ss" using Cons.prems(1,3) by auto
    then show ?thesis using True store_states_other by simp
  next
    case False
    then have s: "s \<in> set ss" using Cons.prems(2) by simp
    then have "stored_key s \<in> stored_key ` set ss" by (rule imageI)
    then have "stored_key x \<noteq> bk_scope_key b" using Cons.prems(1) unfolding Cons.prems(3)[symmetric] by auto
    then have "store_state b x = b" by (simp add: store_state_def split: option.splits)
    then show ?thesis using Cons.IH[OF _ s Cons.prems(3)] Cons.prems(1) by simp
  qed
qed simp

text \<open>The bucket of one scope after persisting, given the state to store for each limit.\<close>

lemma persisted_state:
  assumes p: "persist_buckets db ss = Ok db'" and d: "distinct (map stored_key ss)" and b: "find_bucket db key = Some b"
  shows "find_bucket db' key = Some (foldl store_state b ss)"
proof -
  have B: "sd_buckets db' = map (\<lambda>b. foldl store_state b ss) (sd_buckets db)"
    using p persist_rows by (auto simp: persist_buckets_def elim!: rbind_OkE)
  have "List.find (\<lambda>b. bk_scope_key b = key) (map (\<lambda>b. foldl store_state b ss) xs)
      = map_option (\<lambda>b. foldl store_state b ss) (List.find (\<lambda>b. bk_scope_key b = key) xs)" for xs
    by (induction xs) auto
  then show ?thesis using b by (simp add: find_bucket_def B)
qed

text \<open>States that fit the rates of their limits keep the buckets valid.\<close>

definition fits :: "LimitRow list \<Rightarrow> StoredLimit \<Rightarrow> bool" where
  "fits L s \<longleftrightarrow> (\<exists>l \<in> set L. stored_key s = lr_scope_key l
     \<and> (\<forall>st. st_bucket s = Some st \<longrightarrow> (\<exists>rate. rate_of l = Some rate \<and> good_rate rate \<and> bucket_ok rate st)))"

lemma persist_inv:
  assumes inv: "sched_inv db" and p: "persist_buckets db ss = Ok db'" and d: "distinct (map stored_key ss)"
    and f: "\<forall>s \<in> set ss. fits (sd_limits db) s"
  shows "sched_inv db'" "db' = db\<lparr>sd_buckets := sd_buckets db'\<rparr>"
proof -
  have B: "sd_buckets db' = map (\<lambda>b. foldl store_state b ss) (sd_buckets db)" "db' = db\<lparr>sd_buckets := sd_buckets db'\<rparr>"
    using p persist_rows by (auto simp: persist_buckets_def elim!: rbind_OkE)
  then show "db' = db\<lparr>sd_buckets := sd_buckets db'\<rparr>" by simp
  have old: "buckets_ok (sd_limits db) (sd_buckets db)" and dl: "distinct (map lr_scope_key (sd_limits db))"
    using inv by (simp_all add: sched_inv_def limits_ok_def)
  have "buckets_ok (sd_limits db) (sd_buckets db')"
  proof (rule bucketsI)
    show "distinct (map bk_scope_key (sd_buckets db'))" using bucketsD(1)[OF old] by (simp add: B(1) comp_def)
    fix b' assume "b' \<in> set (sd_buckets db')"
    then obtain b where b: "b \<in> set (sd_buckets db)" "b' = foldl store_state b ss" by (auto simp: B(1))
    obtain l rate where l: "l \<in> set (sd_limits db)" "lr_scope_key l = bk_scope_key b" "rate_of l = Some rate" "good_rate rate"
      "bucket_ok rate (bucket_state b)" using bucketsD(2)[OF old b(1)] by blast
    have "bucket_ok rate (bucket_state b')"
    proof (cases "bk_scope_key b \<in> stored_key ` set ss")
      case True
      then obtain s where s: "s \<in> set ss" "stored_key s = bk_scope_key b" by auto
      then have b': "b' = store_state b s" using store_states_at[OF d] b(2) by simp
      show ?thesis
      proof (cases "st_bucket s")
        case None
        then show ?thesis using b' l(5) by (simp add: store_state_def)
      next
        case (Some st)
        obtain l' rate' where l': "l' \<in> set (sd_limits db)" "stored_key s = lr_scope_key l'" "rate_of l' = Some rate'" "bucket_ok rate' st"
          using f s(1) Some unfolding fits_def by blast
        have "l' = l" using unique_key[OF dl l'(1) l(1)] l'(2) l(2) s(2) by simp
        moreover have "bucket_state b' = st" using b' s(2) Some by (simp add: store_state_def bucket_state_def)
        ultimately show ?thesis using l' l(3) by simp
      qed
    next
      case False
      then show ?thesis using store_states_other b(2) l(5) by simp
    qed
    then show "\<exists>l \<in> set (sd_limits db). lr_scope_key l = bk_scope_key b' \<and> (\<exists>rate. rate_of l = Some rate \<and> good_rate rate \<and> bucket_ok rate (bucket_state b'))"
      using l b(2) by (intro bexI[of _ l]) auto
  next
    fix l assume l: "l \<in> set (sd_limits db)" "rate_of l \<noteq> None"
    have "bk_scope_key ` set (sd_buckets db') = bk_scope_key ` set (sd_buckets db)" by (simp add: B(1) image_image)
    then show "lr_scope_key l \<in> bk_scope_key ` set (sd_buckets db')" using bucketsD(3)[OF old l] by simp
  qed
  then show "sched_inv db'" using inv by (subst B(2)) (simp add: sched_inv_def)
qed

section \<open>Acquisition\<close>

lemma stored_of_key: "sched_inv db \<Longrightarrow> l \<in> set (sd_limits db) \<Longrightarrow> stored_key (refill_stored db now l) = lr_scope_key l"
  by (auto simp: refill_stored_def stored_of_def sched_inv_def limits_ok_def limit_ok_def split: option.splits)

lemma fits_refilled:
  assumes "sched_inv db" "l \<in> set (sd_limits db)" "0 \<le> now"
  shows "fits (sd_limits db) (refill_stored db now l)"
proof -
  have "\<exists>rate. rate_of l = Some rate \<and> good_rate rate \<and> bucket_ok rate st" if st: "st_bucket (refill_stored db now l) = Some st" for st
  proof (cases "rate_of l")
    case None
    then show ?thesis using st by (simp add: refill_stored_def stored_of_def)
  next
    case (Some rate)
    then show ?thesis using load_limit_Ok(2)[OF assms(1,2) Some] st refilled_ok[OF _ assms(3)] by (auto simp: refill_stored_def)
  qed
  then show ?thesis using stored_of_key[OF assms(1,2)] assms(2) by (auto simp: fits_def)
qed

lemma take_token_Ok:
  assumes "take_token s = Ok s'"
  shows "stored_key s' = stored_key s"
    "st_bucket s' = map_option (\<lambda>b. b\<lparr>tb_tokens := tb_tokens b - 1\<rparr>) (st_bucket s)" "\<And>b. st_bucket s = Some b \<Longrightarrow> 0 < tb_tokens b"
    "fits L s \<Longrightarrow> fits L s'"
proof -
  show 1: "stored_key s' = stored_key s"
    "st_bucket s' = map_option (\<lambda>b. b\<lparr>tb_tokens := tb_tokens b - 1\<rparr>) (st_bucket s)" "\<And>b. st_bucket s = Some b \<Longrightarrow> 0 < tb_tokens b"
    using assms by (auto simp: take_token_def checked_sub_def elim!: rbind_OkE split: option.splits if_splits)
  have "bucket_ok rate (b\<lparr>tb_tokens := tb_tokens b - 1\<rparr>)" if "bucket_ok rate b" "0 < tb_tokens b" for rate b
    using that by (auto simp: bucket_ok_def)
  then show "fits L s \<Longrightarrow> fits L s'" using 1 unfolding fits_def by fastforce
qed

lemma insert_scopes:
  assumes "try_fold (insert_scope i) db scopes = Ok db'"
  shows "db' = db\<lparr>sd_scopes := sd_scopes db @ map (Pair i) (map scope_key scopes)\<rparr>"
  using assms
proof (induction scopes arbitrary: db)
  case (Cons x scopes)
  obtain db1 where d: "insert_scope i db x = Ok db1" "try_fold (insert_scope i) db1 scopes = Ok db'"
    using Cons.prems by (auto elim!: rbind_OkE)
  have "db1 = db\<lparr>sd_scopes := sd_scopes db @ [(i, scope_key x)]\<rparr>" using d(1) by (auto simp: insert_scope_def split: if_splits)
  then show ?case using Cons.IH[OF d(2)] by simp
qed simp

lemma insert_Ok:
  assumes "insert_reservation db q expires = Ok db'"
  shows "db' = db\<lparr>sd_reservations := sd_reservations db @ [reservation_row q expires],
      sd_scopes := sd_scopes db @ row_scopes (reservation_row q expires)\<rparr>"
    "check_reservation (reservation_row q expires)"
    "\<forall>r \<in> set (sd_reservations db). rr_reservation_id r \<noteq> rq_reservation_id q \<and> \<not> (live r \<and> rr_match_id r = rq_match_id q)"
proof -
  have f: "try_fold (insert_scope (rq_reservation_id q)) (db\<lparr>sd_reservations := sd_reservations db @ [reservation_row q expires]\<rparr>) (request_scopes q) = Ok db'"
    and g: "check_reservation (reservation_row q expires)"
    "\<forall>r \<in> set (sd_reservations db). rr_reservation_id r \<noteq> rq_reservation_id q \<and> \<not> (live r \<and> rr_match_id r = rq_match_id q)"
    using assms by (auto simp: insert_reservation_def Let_def list_ex_iff split: if_splits)
  show "db' = db\<lparr>sd_reservations := sd_reservations db @ [reservation_row q expires],
      sd_scopes := sd_scopes db @ row_scopes (reservation_row q expires)\<rparr>"
    using insert_scopes[OF f] by (simp add: row_scopes_def request_keys_def reservation_row_def)
  show "check_reservation (reservation_row q expires)"
    "\<forall>r \<in> set (sd_reservations db). rr_reservation_id r \<noteq> rq_reservation_id q \<and> \<not> (live r \<and> rr_match_id r = rq_match_id q)"
    using g by blast+
qed

lemma reservation_row_simps [simp]:
  "rr_reservation_id (reservation_row q e) = rq_reservation_id q" "rr_match_id (reservation_row q e) = rq_match_id q"
  "rr_tournament_id (reservation_row q e) = rq_tournament_id q" "rr_request (reservation_row q e) = q"
  "rr_immutable_inputs_sha256 (reservation_row q e) = rq_immutable_inputs_sha256 q" "live (reservation_row q e)"
  "rr_status (reservation_row q e) = ResActive" "rr_expires_at (reservation_row q e) = e" "rr_acquired_at (reservation_row q e) = rq_now q"
  by (simp_all add: reservation_row_def live_def)

lemma insert_inv:
  assumes inv: "sched_inv db" and i: "insert_reservation db q expires = Ok db'" and v: "validate_request q = Ok ()"
    and fresh: "load_terminal db (rq_match_id q) = Ok None" "prior_inputs db (rq_match_id q) \<in> {None, Some (rq_immutable_inputs_sha256 q)}"
    and running: "load_control db (rq_tournament_id q) = CtlRunning"
    and room: "\<forall>l \<in> set (sd_limits db). lr_scope_key l \<in> set (request_keys q) \<longrightarrow> live_in (lr_scope_key l) (sd_reservations db) < lr_max_concurrency l"
  shows "sched_inv db'"
proof -
  note k = insert_Ok[OF i]
  let ?row = "reservation_row q expires" and ?R = "sd_reservations db"
  have ok: "res_ok ?R" using inv by (simp add: sched_inv_def)
  have inputs: "rr_immutable_inputs_sha256 r = rq_immutable_inputs_sha256 q" if r: "r \<in> set ?R" "rr_match_id r = rq_match_id q" for r
  proof -
    have "r \<in> set (sort_key rr_acquired_at (filter (\<lambda>r. rr_match_id r = rq_match_id q) ?R))" using r by simp
    then have ne: "sort_key rr_acquired_at (filter (\<lambda>r. rr_match_id r = rq_match_id q) ?R) \<noteq> []" by (metis empty_iff empty_set)
    then obtain x xs where s: "sort_key rr_acquired_at (filter (\<lambda>r. rr_match_id r = rq_match_id q) ?R) = x # xs" by (meson neq_Nil_conv)
    have "x \<in> set (filter (\<lambda>r. rr_match_id r = rq_match_id q) ?R)" using arg_cong[OF s, of set] by auto
    then have x: "x \<in> set ?R" "rr_match_id x = rq_match_id q" by auto
    have "rr_immutable_inputs_sha256 x = rq_immutable_inputs_sha256 q" using fresh(2) by (simp add: prior_inputs_def s)
    moreover have "rr_immutable_inputs_sha256 r = rr_immutable_inputs_sha256 x" using ok r x unfolding res_ok_def by metis
    ultimately show ?thesis by simp
  qed
  have "res_ok (?R @ [?row])"
  proof -
    have row: "\<exists>x. reservation_of ?row = Ok x" using v by (simp add: reservation_of_def Let_def reservation_row_def)
    have "distinct (map rr_match_id (filter live (?R @ [?row])))" using ok k(3) by (auto simp: res_ok_def)
    moreover have "distinct (map rr_reservation_id (?R @ [?row]))" using ok k(3) by (auto simp: res_ok_def)
    moreover have "rr_immutable_inputs_sha256 r = rr_immutable_inputs_sha256 r'"
      if "r \<in> set (?R @ [?row])" "r' \<in> set (?R @ [?row])" "rr_match_id r = rr_match_id r'" for r r'
    proof -
      have "r \<in> set ?R \<or> r = ?row" "r' \<in> set ?R \<or> r' = ?row" using that(1,2) by auto
      moreover have "rr_immutable_inputs_sha256 r = rr_immutable_inputs_sha256 r'" if "r \<in> set ?R" "r' \<in> set ?R"
        using ok that \<open>rr_match_id r = rr_match_id r'\<close> unfolding res_ok_def by blast
      ultimately consider "rr_immutable_inputs_sha256 r = rr_immutable_inputs_sha256 r'" | "r \<in> set ?R" "r' = ?row" | "r = ?row" "r' \<in> set ?R"
        | "r = ?row" "r' = ?row" by blast
      then show ?thesis
      proof cases
        case 2
        then show ?thesis using inputs[of r] that(3) by (simp only: reservation_row_simps)
      next
        case 3
        then show ?thesis using inputs[of r'] that(3) by (simp only: reservation_row_simps)
      qed simp_all
    qed
    moreover have "check_reservation r \<and> (\<exists>x. reservation_of r = Ok x)" if r: "r \<in> set (?R @ [?row])" for r
    proof (cases "r = ?row")
      case False
      then have "r \<in> set ?R" using r by simp
      then show ?thesis using ok unfolding res_ok_def decodes by blast
    qed (use k(2) row in simp)
    ultimately show ?thesis by (intro res_okI)
  qed
  moreover have "capacity_ok (sd_limits db) (?R @ [?row])"
    using inv room by (auto simp: sched_inv_def capacity_ok_def live_in_def holds_scope_def)
  moreover have "results_ok (?R @ [?row]) (sd_results db)"
  proof -
    have no: "tr_match_id t \<noteq> rq_match_id q" if "t \<in> set (sd_results db)" for t
      using fresh(1) that by (auto simp: load_terminal_def find_None_iff Let_def split: option.splits if_splits)
    have old: "results_ok ?R (sd_results db)" using inv by (simp add: sched_inv_def)
    have "(\<exists>r \<in> set (?R @ [?row]). rr_match_id r = tr_match_id t \<and> rr_reservation_id r = tr_reservation_id t)
        \<and> (\<forall>r \<in> set (?R @ [?row]). rr_match_id r = tr_match_id t \<longrightarrow> \<not> live r \<and> rr_immutable_inputs_sha256 r = tr_immutable_inputs_sha256 t)"
      if t: "t \<in> set (sd_results db)" for t
      using old no[OF t] t unfolding results_ok_def by auto
    then show ?thesis using old unfolding results_ok_def by simp
  qed
  moreover have "controls_ok (sd_controls db) (?R @ [?row])"
  proof -
    have old: "controls_ok (sd_controls db) ?R" using inv by (simp add: sched_inv_def)
    have "cr_control c \<noteq> CtlCancelled" if "c \<in> set (sd_controls db)" "cr_tournament_id c = rq_tournament_id q" for c
      using find_unique[of cr_tournament_id "sd_controls db" c] old that running by (auto simp: controls_ok_def load_control_def find_control_def)
    then show ?thesis using old by (auto simp: controls_ok_def)
  qed
  ultimately show ?thesis using inv by (simp add: k(1) sched_inv_def)
qed

text \<open>What a reservation attempt does.\<close>

lemma reserve_cases:
  assumes inv: "sched_inv db" and now: "0 \<le> rq_now q" "rq_now q < 2 ^ 63" and r: "reserve db q expires = Ok (db', x)"
  obtains (full) "db' = db" "x = Limited None"
  | (slow) ls t where "x = Limited (Some t)" "set ls \<subseteq> set (sd_limits db)" "map lr_scope_key ls = request_keys q"
      "persist_buckets db (map (refill_stored db (rq_now q)) ls) = Ok db'" "\<forall>l \<in> set ls. in_time db (rq_now q) l"
  | (granted) ls taken db1 where "x = Acquired \<lparr>er_request = q, er_expires_at = expires, er_cancellation_requested = False\<rparr>"
      "set ls \<subseteq> set (sd_limits db)" "map lr_scope_key ls = request_keys q"
      "\<forall>l \<in> set ls. active_count db (lr_scope_key l) < lr_max_concurrency l"
      "traverse take_token (map (refill_stored db (rq_now q)) ls) = Ok taken" "persist_buckets db taken = Ok db1"
      "insert_reservation db1 q expires = Ok db'" "\<forall>l \<in> set ls. in_time db (rq_now q) l"
proof -
  obtain admitted where a: "admit db (rq_now q) [] None (request_scopes q) = Ok admitted" using r by (auto simp: reserve_def elim!: rbind_OkE)
  consider "admitted = None" | stored t where "admitted = Some (stored, Some t)" | stored where "admitted = Some (stored, None)"
    by (cases admitted) (auto, metis option.exhaust)
  then show thesis
  proof cases
    case 1
    then show ?thesis using full r a by (simp add: reserve_def)
  next
    case (2 stored t)
    obtain ls where ls: "stored = map (refill_stored db (rq_now q)) ls" "set ls \<subseteq> set (sd_limits db)" "map lr_scope_key ls = map scope_key (request_scopes q)"
      "\<forall>l \<in> set ls. in_time db (rq_now q) l"
      using admit_Ok[OF inv now a[unfolded 2]] by auto
    show ?thesis by (rule slow[of t ls]) (use r a 2 ls in \<open>auto simp: reserve_def request_keys_def elim!: rbind_OkE\<close>)
  next
    case (3 stored)
    obtain ls where ls: "stored = map (refill_stored db (rq_now q)) ls" "set ls \<subseteq> set (sd_limits db)" "map lr_scope_key ls = map scope_key (request_scopes q)"
      "\<forall>l \<in> set ls. active_count db (lr_scope_key l) < lr_max_concurrency l" "\<forall>l \<in> set ls. in_time db (rq_now q) l"
      using admit_Ok[OF inv now a[unfolded 3]] by auto
    obtain taken db1 where t: "traverse take_token stored = Ok taken" "persist_buckets db taken = Ok db1" "insert_reservation db1 q expires = Ok db'"
      "x = Acquired \<lparr>er_request = q, er_expires_at = expires, er_cancellation_requested = False\<rparr>"
      using r a 3 by (auto simp: reserve_def elim!: rbind_OkE)
    show ?thesis by (rule granted[of ls taken db1]) (use ls t in \<open>auto simp: request_keys_def\<close>)
  qed
qed

lemma traverse_take:
  assumes "traverse take_token ss = Ok taken"
  shows "map stored_key taken = map stored_key ss" "\<forall>s \<in> set ss. fits L s \<Longrightarrow> \<forall>s \<in> set taken. fits L s"
proof -
  have l: "list_all2 (\<lambda>s t. take_token s = Ok t) ss taken" using assms by (simp add: traverse_Ok_iff)
  show "map stored_key taken = map stored_key ss"
    using l by (induction rule: list_all2_induct) (auto simp: take_token_Ok(1))
  show "\<forall>s \<in> set ss. fits L s \<Longrightarrow> \<forall>s \<in> set taken. fits L s"
    using l by (induction rule: list_all2_induct) (auto simp: take_token_Ok(4))
qed

lemma refill_keys:
  "sched_inv db \<Longrightarrow> set ls \<subseteq> set (sd_limits db) \<Longrightarrow> map stored_key (map (refill_stored db now) ls) = map lr_scope_key ls"
  using stored_of_key by auto

lemma reserve_inv:
  assumes inv: "sched_inv db" and now: "0 \<le> rq_now q" "rq_now q < 2 ^ 63" and r: "reserve db q expires = Ok (db', x)"
    and v: "validate_request q = Ok ()" and fresh: "load_terminal db (rq_match_id q) = Ok None"
      "prior_inputs db (rq_match_id q) \<in> {None, Some (rq_immutable_inputs_sha256 q)}"
    and running: "load_control db (rq_tournament_id q) = CtlRunning"
  shows "sched_inv db'"
  using inv now r
proof (cases rule: reserve_cases)
  case full
  then show ?thesis using inv by simp
next
  case (slow ls t)
  have "distinct (map stored_key (map (refill_stored db (rq_now q)) ls))"
    unfolding refill_keys[OF inv slow(2)] slow(3) by (rule request_keys_distinct(1))
  then show ?thesis using persist_inv(1)[OF inv slow(4)] fits_refilled[OF inv _ now(1)] slow(2) by auto
next
  case (granted ls taken db1)
  let ?ss = "map (refill_stored db (rq_now q)) ls"
  have d: "distinct (map stored_key taken)"
    unfolding traverse_take(1)[OF granted(5)] refill_keys[OF inv granted(2)] granted(3) by (rule request_keys_distinct(1))
  have fit: "\<forall>s \<in> set taken. fits (sd_limits db) s"
    by (rule traverse_take(2)[OF granted(5)]) (use fits_refilled[OF inv _ now(1)] granted(2) in auto)
  note p = persist_inv[OF inv granted(6) d fit]
  have same: "sd_limits db1 = sd_limits db" "sd_reservations db1 = sd_reservations db" "load_terminal db1 = load_terminal db"
    "prior_inputs db1 = prior_inputs db" "load_control db1 = load_control db"
    by (subst p(2), simp add: load_terminal_def prior_inputs_def load_control_def find_control_def fun_eq_iff)+
  have room: "live_in (lr_scope_key l) (sd_reservations db1) < lr_max_concurrency l"
    if l: "l \<in> set (sd_limits db1)" "lr_scope_key l \<in> set (request_keys q)" for l
  proof -
    have "lr_scope_key l \<in> lr_scope_key ` set ls" using l(2) granted(3)[symmetric] by simp
    then obtain l' where l': "l' \<in> set ls" "lr_scope_key l' = lr_scope_key l" by auto
    then have "l' = l"
      using unique_key[of lr_scope_key "sd_limits db" l' l] inv granted(2) l(1) same(1) by (auto simp: sched_inv_def limits_ok_def)
    then show ?thesis using granted(4) l'(1) active_count_eq[of db] inv same(2) by (auto simp: sched_inv_def res_ok_def)
  qed
  show ?thesis by (rule insert_inv[OF p(1) granted(7) v]) (use fresh running room same in auto)
qed

lemma acquire_Ok:
  assumes "acquire_in q expires db = Ok (db', x)"
  shows "\<exists>db1 ids. expire_reservations (rq_now q) db = Ok (db1, ids) \<and> (db' = db1 \<and> x \<in> {AlreadyFinished, PausedResult, DrainingResult, CancelledResult}
    \<or> load_terminal db1 (rq_match_id q) = Ok None \<and> prior_inputs db1 (rq_match_id q) \<in> {None, Some (rq_immutable_inputs_sha256 q)}
      \<and> load_control db1 (rq_tournament_id q) = CtlRunning \<and> reserve db1 q expires = Ok (db', x))"
  using assms unfolding acquire_in_def
  by (elim rbind_OkE case_prod_OkE) (auto elim!: rbind_OkE split: option.splits if_splits TournamentWorkerControl.splits)

lemma acquire_time:
  assumes "validate_request q = Ok ()" "checked_add_signed 64 (rq_now q) (rq_duration_ms q) = Some expires"
  shows "0 \<le> rq_now q" "rq_now q < 2 ^ 63" "expires = rq_now q + rq_duration_ms q" "0 < rq_duration_ms q"
  using assms by (auto simp: validate_request_def checked_add_signed_def signed_range_def split: if_splits)

lemma acquire_inv:
  assumes inv: "sched_inv db"
  shows "sched_inv (fst (acquire_reservation db q))"
proof -
  have "sched_inv db'" if v: "validate_request q = Ok ()" and e: "checked_add_signed 64 (rq_now q) (rq_duration_ms q) = Some expires"
    and a: "acquire_in q expires db = Ok (db', x)" for expires db' x
  proof -
    obtain db1 ids where d: "expire_reservations (rq_now q) db = Ok (db1, ids)" "db' = db1
      \<or> load_terminal db1 (rq_match_id q) = Ok None \<and> prior_inputs db1 (rq_match_id q) \<in> {None, Some (rq_immutable_inputs_sha256 q)}
        \<and> load_control db1 (rq_tournament_id q) = CtlRunning \<and> reserve db1 q expires = Ok (db', x)" using acquire_Ok[OF a] by blast
    note inv1 = expire_inv[OF inv d(1)] and t = acquire_time[OF v e]
    from d(2) show ?thesis using inv1 reserve_inv[OF inv1 t(1,2) _ v] by blast
  qed
  then show ?thesis using inv by (auto simp: acquire_reservation_def intro!: transaction_keeps[of sched_inv] split: option.splits)
qed

lemma sched_step_inv: "sched_step db db' \<Longrightarrow> sched_inv db \<Longrightarrow> sched_inv db'"
  by (induction rule: sched_step.induct)
    (auto intro: configure_inv control_inv acquire_inv renew_sched_inv release_inv commit_inv recovery_inv)

lemma sched_steps_inv: "sched_step\<^sup>*\<^sup>* db db' \<Longrightarrow> sched_inv db \<Longrightarrow> sched_inv db'"
  by (induction rule: rtranclp_induct) (auto intro: sched_step_inv)

lemma sched_reachable_inv: "sched_reachable db \<Longrightarrow> sched_inv db"
  using sched_steps_inv empty_sched_inv by blast

end
