(* ===== verification/SchedulerRate.thy ===== *)
theory SchedulerRate
  imports SchedulerAcq
begin

text \<open>
  Accounting: every granted execution takes one token of each of its scopes, and a bucket gains no
  more than its rate allows for the time that passed.
\<close>

section \<open>Work between configurations\<close>

inductive work_step :: "SchedDb \<Rightarrow> SchedDb \<Rightarrow> bool" where
  work_control: "work_step db (fst (set_control db tournament_id next now))"
| work_acquire: "work_step db (fst (acquire_reservation db request))"
| work_renew: "work_step db (fst (renew_reservation db reservation now duration))"
| work_release: "work_step db (fst (release_reservation db reservation now))"
| work_commit: "work_step db (fst (commit_result db reservation result now))"
| work_recover: "work_step db (fst (recovery db now))"

lemma work_is_step: "work_step db db' \<Longrightarrow> sched_step db db'"
  by (induction rule: work_step.induct) (auto intro: sched_step.intros)

definition granted :: "string \<Rightarrow> ReservationRow list \<Rightarrow> nat" where
  "granted key R = length (filter (\<lambda>r. key \<in> set (request_keys (rr_request r))) R)"

text \<open>A step that touches no limit, no bucket and grants nothing.\<close>

definition quiet :: "SchedDb \<Rightarrow> SchedDb \<Rightarrow> bool" where
  "quiet db db' \<longleftrightarrow> sd_limits db' = sd_limits db \<and> sd_buckets db' = sd_buckets db
     \<and> map rr_request (sd_reservations db') = map rr_request (sd_reservations db)"

lemma quiet_refl [simp]: "quiet db db"
  by (simp add: quiet_def)

lemma granted_requests: "granted key R = length (filter (\<lambda>q. key \<in> set (request_keys q)) (map rr_request R))"
  by (simp add: granted_def filter_map comp_def)

lemma quiet_update:
  assumes "res_change P f"
  shows "map rr_request (upd P f R) = map rr_request R"
  by (simp only: map_map comp_def res_changeD(3)[OF assms])

lemma quiet_change:
  assumes "db' = db\<lparr>sd_reservations := upd P f (sd_reservations db)\<rparr>" "res_change P f"
  shows "quiet db db'"
  unfolding quiet_def assms(1) using quiet_update[OF assms(2)] by simp

lemma quiet_steps:
  "expire_reservations now db = Ok (db', ids) \<Longrightarrow> quiet db db'"
  "renew_in_sched reservation now expires db = Ok (db', e) \<Longrightarrow> quiet db db'"
  "release_in reservation now db = Ok (db', u) \<Longrightarrow> quiet db db'"
  by (erule quiet_change[OF expire_Ok(1) change_expire] quiet_change[OF renew_Ok(1) change_renew] quiet_change[OF release_Ok(1) change_end(1)])+

lemma quiet_control: "control_in i next now db = Ok (db', u) \<Longrightarrow> quiet db db'"
  using quiet_update[OF change_cancel[of "\<lambda>r. rr_tournament_id r = i" now]]
  by (auto simp: control_in_def Let_def sql_update_Ok quiet_def elim!: rbind_OkE split: if_splits)

lemma quiet_commit: "commit_in reservation result now db = Ok (db', u) \<Longrightarrow> quiet db db'"
  using quiet_update[OF change_end(2)[of "committable reservation result now" now]]
  by (auto simp: commit_in_def sql_update_Ok insert_result_def quiet_def elim!: rbind_OkE split: if_splits option.splits)

section \<open>Tokens\<close>

text \<open>Tokens granted and held, in units of one interval's share.\<close>

definition spent :: "RatePolicy \<Rightarrow> string \<Rightarrow> SchedDb \<Rightarrow> BucketRow \<Rightarrow> nat" where
  "spent rate key db b = granted key (sd_reservations db) * nat (rp_refill_interval_ms rate) + level rate (bucket_state b)"

definition metered :: "RatePolicy \<Rightarrow> LimitRow \<Rightarrow> SchedDb \<Rightarrow> SchedDb \<Rightarrow> bool" where
  "metered rate l db db' \<longleftrightarrow> l \<in> set (sd_limits db') \<and> (\<exists>b b'. find_bucket db (lr_scope_key l) = Some b \<and> find_bucket db' (lr_scope_key l) = Some b'
     \<and> bk_updated_at b \<le> bk_updated_at b'
     \<and> spent rate (lr_scope_key l) db' b' \<le> spent rate (lr_scope_key l) db b + nat (bk_updated_at b' - bk_updated_at b) * rp_refill_tokens rate)"

lemma metered_trans:
  assumes "metered rate l db db1" "metered rate l db1 db2"
  shows "metered rate l db db2"
proof -
  obtain b b1 b2 where b: "find_bucket db (lr_scope_key l) = Some b" "find_bucket db1 (lr_scope_key l) = Some b1" "find_bucket db2 (lr_scope_key l) = Some b2"
    "bk_updated_at b \<le> bk_updated_at b1" "bk_updated_at b1 \<le> bk_updated_at b2"
    "spent rate (lr_scope_key l) db1 b1 \<le> spent rate (lr_scope_key l) db b + nat (bk_updated_at b1 - bk_updated_at b) * rp_refill_tokens rate"
    "spent rate (lr_scope_key l) db2 b2 \<le> spent rate (lr_scope_key l) db1 b1 + nat (bk_updated_at b2 - bk_updated_at b1) * rp_refill_tokens rate"
    using assms by (auto simp: metered_def)
  have "nat (bk_updated_at b2 - bk_updated_at b) = nat (bk_updated_at b1 - bk_updated_at b) + nat (bk_updated_at b2 - bk_updated_at b1)" using b(4,5) by simp
  then have "nat (bk_updated_at b2 - bk_updated_at b) * rp_refill_tokens rate
      = nat (bk_updated_at b1 - bk_updated_at b) * rp_refill_tokens rate + nat (bk_updated_at b2 - bk_updated_at b1) * rp_refill_tokens rate"
    by (simp add: algebra_simps)
  then show ?thesis using assms(2) b unfolding metered_def by auto
qed

lemma metered_quiet:
  assumes "sched_inv db" "l \<in> set (sd_limits db)" "rate_of l = Some rate" "quiet db db'"
  shows "metered rate l db db'"
proof -
  obtain b where "find_bucket db (lr_scope_key l) = Some b" using load_limit_Ok(2)[OF assms(1-3)] by blast
  then show ?thesis using assms(2,4) by (auto simp: metered_def quiet_def spent_def granted_requests find_bucket_def)
qed

text \<open>The row that \<^verbatim>\<open>persist_buckets\<close> leaves for a scope.\<close>

lemma persisted_other:
  assumes "persist_buckets db ss = Ok db'" "distinct (map stored_key ss)" "find_bucket db key = Some b" "key \<notin> stored_key ` set ss"
  shows "find_bucket db' key = Some b"
proof -
  have "bk_scope_key b = key" using assms(3) by (auto simp: find_bucket_def find_Some_iff)
  then show ?thesis using persisted_state[OF assms(1-3)] store_states_other[of b ss] assms(4) by simp
qed

lemma persisted_at:
  assumes "persist_buckets db ss = Ok db'" "distinct (map stored_key ss)" "find_bucket db key = Some b" "s \<in> set ss" "stored_key s = key"
    "st_bucket s = Some st"
  shows "\<exists>b'. find_bucket db' key = Some b' \<and> bucket_state b' = st"
proof -
  have k: "bk_scope_key b = key" using assms(3) by (auto simp: find_bucket_def find_Some_iff)
  have "foldl store_state b ss = store_state b s" by (rule store_states_at[OF assms(2,4)]) (simp add: assms(5) k)
  then show ?thesis using persisted_state[OF assms(1-3)] assms(5,6) k by (simp add: store_state_def bucket_state_def)
qed

lemma level_take: "0 < tb_tokens b \<Longrightarrow> level rate (b\<lparr>tb_tokens := tb_tokens b - 1\<rparr>) + nat (rp_refill_interval_ms rate) = level rate b"
  by (cases "tb_tokens b") (auto simp: level_def)

lemma list_all2_ex: "list_all2 P xs ys \<Longrightarrow> x \<in> set xs \<Longrightarrow> \<exists>y \<in> set ys. P x y"
  by (induction rule: list_all2_induct) auto

lemma metered_reserve:
  assumes inv: "sched_inv db" and l: "l \<in> set (sd_limits db)" "rate_of l = Some rate"
    and now: "0 \<le> rq_now q" "rq_now q < 2 ^ 63" and r: "reserve db q expires = Ok (db', x)"
  shows "metered rate l db db'"
proof -
  let ?key = "lr_scope_key l" and ?t = "rq_now q"
  obtain b where b: "find_bucket db ?key = Some b" "bucket_ok rate (bucket_state b)" "good_rate rate" using load_limit_Ok(2)[OF inv l] by blast
  have in_ls: "?key \<in> set (request_keys q) \<longleftrightarrow> l \<in> set ls"
    if ls: "set ls \<subseteq> set (sd_limits db)" "map lr_scope_key ls = request_keys q" for ls
  proof -
    have "distinct (map lr_scope_key (sd_limits db))" using inv by (simp add: sched_inv_def limits_ok_def)
    then have "l' = l" if "l' \<in> set ls" "lr_scope_key l' = ?key" for l' using unique_key[of lr_scope_key "sd_limits db" l' l] ls(1) l(1) that by auto
    then show ?thesis unfolding ls(2)[symmetric] by force
  qed
  have st: "st_bucket (refill_stored db ?t l) = Some (refilled rate (bucket_state b) ?t)" using l(2) b(1) by (simp add: refill_stored_def)
  have lev: "level rate (refilled rate (bucket_state b) ?t) \<le> level rate (bucket_state b) + nat (?t - bk_updated_at b) * rp_refill_tokens rate"
    "tb_updated_at (refilled rate (bucket_state b) ?t) = ?t"
    using refilled_level[OF b(3), of "bucket_state b" ?t] by (simp_all add: bucket_state_def)
  show ?thesis using inv now r
  proof (cases rule: reserve_cases)
    case full
    then show ?thesis using metered_quiet[OF inv l] by simp
  next
    case (slow ls t)
    let ?ss = "map (refill_stored db ?t) ls"
    have d: "distinct (map stored_key ?ss)" unfolding refill_keys[OF inv slow(2)] slow(3) by (rule request_keys_distinct(1))
    have same: "sd_limits db' = sd_limits db" "sd_reservations db' = sd_reservations db"
      using persist_inv(2)[OF inv slow(4) d] fits_refilled[OF inv _ now(1)] slow(2) by (metis (no_types, lifting) SchedDb.ext_inject SchedDb.surjective SchedDb.update_convs(2) imageE set_map subsetD)+
    show ?thesis
    proof (cases "?key \<in> set (request_keys q)")
      case True
      then have lin: "l \<in> set ls" using in_ls slow by blast
      obtain b' where b': "find_bucket db' ?key = Some b'" "bucket_state b' = refilled rate (bucket_state b) ?t"
        using persisted_at[OF slow(4) d b(1), of "refill_stored db ?t l", OF _ stored_of_key[OF inv l(1)] st] lin by auto
      moreover have "bk_updated_at b' = ?t" using arg_cong[OF b'(2), of tb_updated_at] lev(2) by (simp add: bucket_state_def)
      moreover have "bk_updated_at b \<le> ?t" using slow(5) lin l(2) b(1) by (auto simp: in_time_def)
      ultimately show ?thesis using b(1) lev(1) l(1) same by (auto simp: metered_def spent_def)
    next
      case False
      then have "?key \<notin> stored_key ` set ?ss" unfolding set_map[symmetric] refill_keys[OF inv slow(2)] slow(3) .
      then show ?thesis using persisted_other[OF slow(4) d b(1)] b(1) l(1) same by (auto simp: metered_def spent_def)
    qed
  next
    case (granted ls taken db1)
    let ?ss = "map (refill_stored db ?t) ls"
    have keys: "map stored_key taken = request_keys q" unfolding traverse_take(1)[OF granted(5)] refill_keys[OF inv granted(2)] granted(3) ..
    have d: "distinct (map stored_key taken)" unfolding keys by (rule request_keys_distinct(1))
    have fit: "\<forall>s \<in> set taken. fits (sd_limits db) s"
      by (rule traverse_take(2)[OF granted(5)]) (use fits_refilled[OF inv _ now(1)] granted(2) in auto)
    have "db1 = db\<lparr>sd_buckets := sd_buckets db1\<rparr>" by (rule persist_inv(2)[OF inv granted(6) d fit])
    then have same: "sd_limits db1 = sd_limits db" "sd_reservations db1 = sd_reservations db" by (metis SchedDb.select_convs SchedDb.surjective SchedDb.update_convs(2))+
    note ins = insert_Ok(1)[OF granted(7)]
    have bk: "find_bucket db' ?key = find_bucket db1 ?key" "sd_limits db' = sd_limits db" by (simp_all add: ins find_bucket_def same)
    have g: "SchedulerRate.granted ?key (sd_reservations db') = SchedulerRate.granted ?key (sd_reservations db) + (if ?key \<in> set (request_keys q) then 1 else 0)"
      by (simp add: ins same granted_def)
    show ?thesis
    proof (cases "?key \<in> set (request_keys q)")
      case True
      then have lin: "l \<in> set ls" using in_ls granted by blast
      have "list_all2 (\<lambda>s t. take_token s = Ok t) ?ss taken" using granted(5) by (simp add: traverse_Ok_iff)
      then obtain s where s: "s \<in> set taken" "take_token (refill_stored db ?t l) = Ok s"
        using lin list_all2_ex[of _ ?ss taken "refill_stored db ?t l"] by auto
      note tk = take_token_Ok[OF s(2)]
      let ?r = "refilled rate (bucket_state b) ?t"
      have key: "stored_key s = ?key" using tk(1) stored_of_key[OF inv l(1)] by simp
      obtain b' where b': "find_bucket db1 ?key = Some b'" "bucket_state b' = ?r\<lparr>tb_tokens := tb_tokens ?r - 1\<rparr>"
        using persisted_at[OF granted(6) d b(1) s(1) key] tk(2) st by auto
      have "level rate (bucket_state b') + nat (rp_refill_interval_ms rate) = level rate ?r"
        unfolding b'(2) by (rule level_take[OF tk(3)[OF st]])
      moreover have "bk_updated_at b' = ?t" using arg_cong[OF b'(2), of tb_updated_at] lev(2) by (simp add: bucket_state_def)
      moreover have "bk_updated_at b \<le> ?t" using granted(8) lin l(2) b(1) by (auto simp: in_time_def)
      ultimately show ?thesis using b(1) b'(1) bk lev(1) l(1) g True by (auto simp: metered_def spent_def)
    next
      case False
      then have "?key \<notin> stored_key ` set taken" unfolding set_map[symmetric] keys .
      then show ?thesis using persisted_other[OF granted(6) d b(1)] b(1) bk l(1) g False by (auto simp: metered_def spent_def)
    qed
  qed
qed

lemma transaction_rel:
  assumes "Q db" "\<And>db' x. f db = Ok (db', x) \<Longrightarrow> Q db'"
  shows "Q (fst (transaction f db))"
  using assms by (cases "f db") (auto simp: transaction_def)

lemma metered_acquire:
  assumes inv: "sched_inv db" and l: "l \<in> set (sd_limits db)" "rate_of l = Some rate"
  shows "metered rate l db (fst (acquire_reservation db q))"
proof -
  have self: "metered rate l db db" by (rule metered_quiet[OF inv l]) simp
  have "metered rate l db db'" if v: "validate_request q = Ok ()" and e: "checked_add_signed 64 (rq_now q) (rq_duration_ms q) = Some expires"
    and a: "acquire_in q expires db = Ok (db', x)" for expires db' x
  proof -
    obtain db1 ids where d: "expire_reservations (rq_now q) db = Ok (db1, ids)" "db' = db1 \<or> reserve db1 q expires = Ok (db', x)"
      using acquire_Ok[OF a] by blast
    note t = acquire_time[OF v e] and inv1 = expire_inv[OF inv d(1)] and m = metered_quiet[OF inv l quiet_steps(1)[OF d(1)]]
    have l1: "l \<in> set (sd_limits db1)" using m by (simp add: metered_def)
    from d(2) show ?thesis using m metered_trans[OF m metered_reserve[OF inv1 l1 l(2) t(1,2)]] by blast
  qed
  then show ?thesis using self by (auto simp: acquire_reservation_def intro!: transaction_rel[where Q = "metered rate l db"] split: option.splits)
qed

lemma quiet_calls:
  "quiet db (fst (set_control db i c now))" "quiet db (fst (renew_reservation db reservation now duration))"
  "quiet db (fst (release_reservation db reservation now))" "quiet db (fst (commit_result db reservation result now))"
  "quiet db (fst (recovery db now))"
proof -
  note t = transaction_rel[where Q = "quiet db", OF quiet_refl]
  show "quiet db (fst (set_control db i c now))" unfolding set_control_def by (simp, intro impI t) (rule quiet_control)
  show "quiet db (fst (renew_reservation db reservation now duration))"
    unfolding renew_reservation_def by (simp split: option.split, intro allI impI t) (rule quiet_steps(2))
  show "quiet db (fst (release_reservation db reservation now))" unfolding release_reservation_def by (rule t) (rule quiet_steps(3))
  show "quiet db (fst (commit_result db reservation result now))" unfolding commit_result_def by (simp, intro impI t) (rule quiet_commit)
  show "quiet db (fst (recovery db now))"
    unfolding recovery_def by (rule t) (auto simp: recovery_in_def Let_def elim!: rbind_OkE dest: quiet_steps(1))
qed

lemma metered_step:
  assumes "work_step db db'" and inv: "sched_inv db" and l: "l \<in> set (sd_limits db)" "rate_of l = Some rate"
  shows "metered rate l db db'"
  using assms(1)
proof cases
  case (work_acquire request)
  then show ?thesis using metered_acquire[OF inv l] by simp
next
  case (work_control i c now)
  then show ?thesis using metered_quiet[OF inv l quiet_calls(1)] by simp
next
  case (work_renew reservation now duration)
  then show ?thesis using metered_quiet[OF inv l quiet_calls(2)] by simp
next
  case (work_release reservation now)
  then show ?thesis using metered_quiet[OF inv l quiet_calls(3)] by simp
next
  case (work_commit reservation result now)
  then show ?thesis using metered_quiet[OF inv l quiet_calls(4)] by simp
next
  case (work_recover now)
  then show ?thesis using metered_quiet[OF inv l quiet_calls(5)] by simp
qed

lemma metered_steps:
  assumes "work_step\<^sup>*\<^sup>* db db'" and inv: "sched_inv db" and l: "l \<in> set (sd_limits db)" "rate_of l = Some rate"
  shows "metered rate l db db'"
  using assms(1)
proof (induction rule: rtranclp_induct)
  case base
  show ?case by (rule metered_quiet[OF inv l]) simp
next
  case (step db1 db2)
  have "sched_step\<^sup>*\<^sup>* db db1" using step(1) work_is_step by (metis mono_rtranclp)
  then have "sched_inv db1" using sched_steps_inv inv by blast
  moreover have "l \<in> set (sd_limits db1)" using step.IH by (simp add: metered_def)
  ultimately show ?case using metered_trans[OF step.IH] metered_step[OF step(2) _ _ l(2)] by blast
qed

lemma level_full: "good_rate rate \<Longrightarrow> bucket_ok rate b \<Longrightarrow> level rate b \<le> full rate"
proof -
  assume a: "good_rate rate" "bucket_ok rate b"
  define I where "I = nat (rp_refill_interval_ms rate)"
  have r: "tb_remainder b < I" "tb_tokens b \<le> rp_capacity rate" "tb_tokens b = rp_capacity rate \<longrightarrow> tb_remainder b = 0"
    using a good_rateD(5)[OF a(1)] by (auto simp: bucket_ok_def I_def)
  show ?thesis
  proof (cases "tb_tokens b = rp_capacity rate")
    case False
    then have "Suc (tb_tokens b) * I \<le> rp_capacity rate * I" using r(2) by (intro mult_le_mono1) simp
    then show ?thesis using r(1) by (simp add: level_def full_def flip: I_def)
  qed (use r(3) in \<open>simp add: level_def full_def\<close>)
qed

end
