(* ===== verification/SchedulerTheorems.thy ===== *)
theory SchedulerTheorems
  imports SchedulerRate
begin

text \<open>
  The promises of \<^verbatim>\<open>docs/SCHEDULER.md\<close>: capacity, exact integer rates, one publication per match and
  terminal cancellation.
\<close>

section \<open>History\<close>

lemma results_of_steps:
  "expire_reservations now db = Ok (db', ids) \<Longrightarrow> sd_results db' = sd_results db \<and> sd_controls db' = sd_controls db"
  using expire_Ok(1) by fastforce

lemma reserve_keeps:
  assumes "reserve db q expires = Ok (db', x)"
  shows "sd_results db' = sd_results db \<and> sd_controls db' = sd_controls db"
proof -
  have p: "sd_results d' = sd_results d \<and> sd_controls d' = sd_controls d" if "persist_buckets d ss = Ok d'" for d d' ss
    using that by (auto simp: persist_buckets_def elim!: rbind_OkE)
  have i: "sd_results d' = sd_results d \<and> sd_controls d' = sd_controls d" if "insert_reservation d q expires = Ok d'" for d d'
    using insert_Ok(1)[OF that] by simp
  show ?thesis using assms unfolding reserve_def
    by (elim rbind_OkE) (auto dest!: p i elim!: rbind_OkE split: option.splits prod.splits)
qed

lemma acquire_keeps: "sd_results (fst (acquire_reservation db q)) = sd_results db \<and> sd_controls (fst (acquire_reservation db q)) = sd_controls db"
proof -
  have "sd_results db' = sd_results db \<and> sd_controls db' = sd_controls db" if a: "acquire_in q expires db = Ok (db', x)" for expires db' x
    using acquire_Ok[OF a] results_of_steps reserve_keeps by (metis (no_types, lifting))
  then show ?thesis
    unfolding acquire_reservation_def
    by (auto intro!: transaction_rel[where Q = "\<lambda>d. sd_results d = sd_results db"] transaction_rel[where Q = "\<lambda>d. sd_controls d = sd_controls db"]
        split: option.splits)
qed

text \<open>Published results stay.\<close>

lemma results_stay:
  assumes "sched_step db db'"
  shows "set (sd_results db) \<subseteq> set (sd_results db')"
  using assms
proof cases
  case (sched_acquire request)
  then show ?thesis using acquire_keeps by simp
next
  case (sched_configure limits now)
  have "sd_results d' = sd_results db" if f: "try_fold (store_limit now) db u = Ok d'" for u d'
    by (rule try_fold_invariant[OF f, where P = "\<lambda>d. sd_results d = sd_results db"])
      (auto simp: store_limit_def Let_def elim!: rbind_OkE)
  then have "sd_results (fst (transaction (configure_in u now) db)) = sd_results db" for u
    by (intro transaction_rel[where Q = "\<lambda>d. sd_results d = sd_results db"]) (auto simp: configure_in_def elim!: rbind_OkE)
  then show ?thesis using sched_configure by (auto simp: configure_limits_def split: outcome.splits if_splits)
next
  case (sched_control i c now)
  have "sd_results d' = sd_results db" if "control_in i c now db = Ok (d', u)" for d' u
    using that by (auto simp: control_in_def Let_def elim!: rbind_OkE split: if_splits)
  then show ?thesis
    using sched_control transaction_rel[where Q = "\<lambda>d. sd_results d = sd_results db" and f = "control_in i c now" and db = db]
    by (auto simp: set_control_def split: if_splits)
next
  case (sched_renew e now duration)
  have "sd_results (fst (transaction (renew_in_sched e now x) db)) = sd_results db" for x
    by (rule transaction_rel[where Q = "\<lambda>d. sd_results d = sd_results db"]) (auto dest: renew_Ok(1))
  then show ?thesis using sched_renew by (auto simp: renew_reservation_def split: option.splits if_splits)
next
  case (sched_release e now)
  have "sd_results (fst (transaction (release_in e now) db)) = sd_results db"
    by (rule transaction_rel[where Q = "\<lambda>d. sd_results d = sd_results db"]) (auto dest: release_Ok(1))
  then show ?thesis using sched_release by (auto simp: release_reservation_def)
next
  case (sched_commit e result now)
  have "set (sd_results db) \<subseteq> set (sd_results d')" if "commit_in e result now db = Ok (d', x)" for d' x
    using that by (auto simp: commit_in_def insert_result_def elim!: rbind_OkE split: option.splits if_splits)
  then show ?thesis
    using sched_commit transaction_rel[where Q = "\<lambda>d. set (sd_results db) \<subseteq> set (sd_results d)" and f = "commit_in e result now" and db = db]
    by (auto simp: commit_result_def split: if_splits)
next
  case (sched_recover now)
  have "sd_results (fst (transaction (recovery_in now) db)) = sd_results db"
    by (rule transaction_rel[where Q = "\<lambda>d. sd_results d = sd_results db"])
      (auto simp: recovery_in_def Let_def elim!: rbind_OkE dest!: results_of_steps)
  then show ?thesis using sched_recover by (auto simp: recovery_def)
qed

lemma results_stay_steps: "sched_step\<^sup>*\<^sup>* db db' \<Longrightarrow> set (sd_results db) \<subseteq> set (sd_results db')"
  by (induction rule: rtranclp_induct) (use results_stay in blast)+

text \<open>A cancelled tournament stays cancelled.\<close>

definition is_cancelled :: "SchedDb \<Rightarrow> string \<Rightarrow> bool" where
  "is_cancelled db i \<longleftrightarrow> (\<exists>c \<in> set (sd_controls db). cr_tournament_id c = i \<and> cr_control c = CtlCancelled)"

lemma find_cancelled:
  assumes "sched_inv db" "is_cancelled db i"
  shows "\<exists>c. find_control db i = Some c \<and> cr_control c = CtlCancelled"
proof -
  obtain c where c: "c \<in> set (sd_controls db)" "cr_tournament_id c = i" "cr_control c = CtlCancelled" using assms(2) by (auto simp: is_cancelled_def)
  have "distinct (map cr_tournament_id (sd_controls db))" using assms(1) by (simp add: sched_inv_def controls_ok_def)
  from find_unique[OF this c(1,2)] show ?thesis using c(3) by (simp add: find_control_def)
qed

lemma control_refused: "sched_inv db \<Longrightarrow> is_cancelled db i \<Longrightarrow> control_in i c now db = Err SchedConflict"
  using find_cancelled[of db i] by (auto simp: control_in_def next_sequence_def)

lemma cancelled_control:
  assumes "sched_inv db" "is_cancelled db i"
  shows "is_cancelled (fst (set_control db j c now)) i"
proof -
  have "is_cancelled d' i" if k: "control_in j c now db = Ok (d', u)" for d' u
  proof -
    have ij: "i \<noteq> j" using control_refused[OF assms, of c now] k by auto
    obtain new ch C where up: "upsert check_control (\<lambda>c. cr_tournament_id c = j) new ch (sd_controls db) = Ok C"
      "sd_controls d' = C" "cr_tournament_id new = j" "\<And>c. cr_tournament_id (ch c) = cr_tournament_id c"
      using k by (auto simp: control_in_def Let_def elim!: rbind_OkE split: if_splits)
    have d: "distinct (map cr_tournament_id (sd_controls db))" using assms(1) by (simp add: sched_inv_def controls_ok_def)
    have "\<And>r. cr_tournament_id r = j \<Longrightarrow> cr_tournament_id (ch r) = j" using up(4) by simp
    from upsert_Ok(3)[OF up(1,3) this d] show ?thesis using assms(2) ij up(2) by (auto simp: is_cancelled_def)
  qed
  then show ?thesis using assms(2) by (auto simp: set_control_def intro!: transaction_rel[where Q = "\<lambda>d. is_cancelled d i"])
qed

lemma cancelled_stays:
  assumes "sched_step db db'" "sched_inv db" "is_cancelled db i"
  shows "is_cancelled db' i"
proof -
  have keep: "is_cancelled d i" if "sd_controls d = sd_controls db" for d using assms(3) that by (simp add: is_cancelled_def)
  note t = transaction_rel[where Q = "\<lambda>d. sd_controls d = sd_controls db", OF refl]
  show ?thesis using assms(1)
  proof cases
    case (sched_acquire request)
    then show ?thesis using acquire_keeps keep by simp
  next
    case (sched_configure limits now)
    have "sd_controls d' = sd_controls db" if f: "try_fold (store_limit now) db u = Ok d'" for u d'
      by (rule try_fold_invariant[OF f, where P = "\<lambda>d. sd_controls d = sd_controls db"])
        (auto simp: store_limit_def Let_def elim!: rbind_OkE)
    then have "sd_controls (fst (transaction (configure_in u now) db)) = sd_controls db" for u
      by (intro t) (auto simp: configure_in_def elim!: rbind_OkE)
    then show ?thesis using sched_configure assms(3) keep by (auto simp: configure_limits_def split: outcome.splits if_splits)
  next
    case (sched_control j c now)
    then show ?thesis using cancelled_control[OF assms(2,3)] by simp
  next
    case (sched_renew e now duration)
    have "sd_controls (fst (transaction (renew_in_sched e now x) db)) = sd_controls db" for x by (rule t) (auto dest: renew_Ok(1))
    then show ?thesis using sched_renew assms(3) keep by (auto simp: renew_reservation_def split: option.splits if_splits)
  next
    case (sched_release e now)
    have "sd_controls (fst (transaction (release_in e now) db)) = sd_controls db" by (rule t) (auto dest: release_Ok(1))
    then show ?thesis using sched_release keep by (auto simp: release_reservation_def)
  next
    case (sched_commit e result now)
    have "sd_controls (fst (transaction (commit_in e result now) db)) = sd_controls db"
      by (rule t) (auto simp: commit_in_def insert_result_def elim!: rbind_OkE split: option.splits if_splits)
    then show ?thesis using sched_commit assms(3) keep by (auto simp: commit_result_def split: if_splits)
  next
    case (sched_recover now)
    have "sd_controls (fst (transaction (recovery_in now) db)) = sd_controls db"
      by (rule t) (auto simp: recovery_in_def Let_def elim!: rbind_OkE dest!: results_of_steps)
    then show ?thesis using sched_recover keep by (auto simp: recovery_def)
  qed
qed

lemma cancelled_stays_steps: "sched_step\<^sup>*\<^sup>* db db' \<Longrightarrow> sched_inv db \<Longrightarrow> is_cancelled db i \<Longrightarrow> is_cancelled db' i"
  by (induction rule: rtranclp_induct) (use cancelled_stays sched_steps_inv in blast)+

lemma cancelled_now:
  assumes "sched_inv db" "set_control db i CtlCancelled now = (db', Ok ())"
  shows "is_cancelled db' i"
proof -
  have k: "control_in i CtlCancelled now db = Ok (db', ())" using assms(2) by (auto simp: set_control_def transaction_Ok split: if_splits)
  obtain new ch C where up: "upsert check_control (\<lambda>c. cr_tournament_id c = i) new ch (sd_controls db) = Ok C"
    "sd_controls db' = C" "cr_tournament_id new = i" "cr_control new = CtlCancelled"
    "\<And>c. cr_tournament_id (ch c) = cr_tournament_id c \<and> cr_control (ch c) = CtlCancelled"
    using k by (auto simp: control_in_def Let_def elim!: rbind_OkE split: if_splits)
  have d: "distinct (map cr_tournament_id (sd_controls db))" using assms(1) by (simp add: sched_inv_def controls_ok_def)
  have ch: "\<And>r. cr_tournament_id r = i \<Longrightarrow> cr_tournament_id (ch r) = i" using up(5) by simp
  note u = upsert_Ok[OF up(1,3) _ d]
  have "i \<in> cr_tournament_id ` set C" using u(5)[OF ch] by simp
  then obtain c where c: "c \<in> set C" "cr_tournament_id c = i" by auto
  have "cr_control c = CtlCancelled" using u(4)[OF ch c] up(4,5) by auto
  then show ?thesis using c up(2) by (auto simp: is_cancelled_def)
qed

text \<open>The stored result of a published match.\<close>

lemma load_published:
  assumes "sched_inv db" "t \<in> set (sd_results db)"
  shows "load_terminal db (tr_match_id t) = Ok (Some (tr_result t))"
proof -
  have ok: "result_ok t" "distinct (map tr_match_id (sd_results db))" using assms by (auto simp: sched_inv_def results_ok_def)
  have t: "t = result_row (tr_result t) (tr_reservation_id t) (tr_committed_at t)" "validate_terminal (tr_result t) = Ok ()" using ok(1) by (simp_all add: result_ok_def)
  have "List.find (\<lambda>u. tr_match_id u = tr_match_id t) (sd_results db) = Some t" by (rule find_unique[OF ok(2) assms(2) refl])
  moreover have "tr_match_id t = tm_match_id (tr_result t)" "tr_schema_version t = tm_schema_version (tr_result t)"
    "tr_immutable_inputs_sha256 t = tm_immutable_inputs_sha256 (tr_result t)" "tr_result_sha256 t = tm_result_sha256 (tr_result t)"
    "tr_charge_key t = tm_charge_key (tr_result t)" "tr_telemetry_key t = tm_telemetry_key (tr_result t)" "tr_rating_key t = tm_rating_key (tr_result t)"
    by (subst t(1), simp add: result_row_def)+
  ultimately show ?thesis using t(2) by (simp add: load_terminal_def Let_def)
qed

lemma acquired_in:
  assumes "snd (acquire_reservation db q) = Ok x"
  shows "\<exists>db' expires. acquire_in q expires db = Ok (db', x)"
proof -
  have "\<exists>db'. acquire_in q expires db = Ok (db', x)" if "snd (transaction (acquire_in q expires) db) = Ok x" for expires
    using that by (cases "acquire_in q expires db") (auto simp: transaction_def)
  then show ?thesis using assms by (simp add: acquire_reservation_def split: if_splits option.splits) blast
qed

text \<open>A reservation that is not active can neither be renewed nor publish.\<close>

lemma inactive_stuck:
  assumes inv: "sched_inv db" and r: "r \<in> set (sd_reservations db)" "rr_status r \<noteq> ResActive" and e: "rq_reservation_id (er_request e) = rr_reservation_id r"
  shows "snd (renew_reservation db e t d) \<noteq> Ok x" "snd (commit_result db e result t) \<noteq> Ok (TerminalApplied y)"
proof -
  have "distinct (map rr_reservation_id (sd_reservations db))" using inv by (simp add: sched_inv_def res_ok_def)
  then have only: "q = r" if "q \<in> set (sd_reservations db)" "rr_reservation_id q = rq_reservation_id (er_request e)" for q
    using unique_key[of rr_reservation_id "sd_reservations db" q r] that r(1) e by simp
  have no: "renew_in_sched e t expires db \<noteq> Ok (db', z)" for expires db' z
    using renew_Ok(3)[of e t expires db db' z] only r(2) by (auto simp: renewable_def)
  have "snd (transaction (renew_in_sched e t expires) db) \<noteq> Ok x" for expires
    using no[of expires] by (cases "renew_in_sched e t expires db") (auto simp: transaction_def)
  then show "snd (renew_reservation db e t d) \<noteq> Ok x" by (auto simp: renew_reservation_def split: option.splits)
  have no: "commit_in e result t db \<noteq> Ok (db', TerminalApplied y)" for db'
    using commit_Ok(4)[of e result t db db' y] only r(2) by (auto simp: committable_def)
  have "snd (transaction (commit_in e result t) db) \<noteq> Ok (TerminalApplied y)"
    using no by (cases "commit_in e result t db") (auto simp: transaction_def)
  then show "snd (commit_result db e result t) \<noteq> Ok (TerminalApplied y)" by (auto simp: commit_result_def)
qed

end
