(* ===== verification/SchedulerPromises.thy ===== *)
theory SchedulerPromises
  imports SchedulerTheorems
begin

text \<open>
  The theorems about the scheduler, each applied to a small configuration: one execution at a time in
  each of four scopes, and one per 100 ms for the provider.
\<close>

section \<open>A small configuration\<close>

definition demo_rate :: RatePolicy where
  "demo_rate = \<lparr>rp_capacity = 1, rp_refill_tokens = 1, rp_refill_interval_ms = 100\<rparr>"

definition demo_limit :: "SchedulerScope \<Rightarrow> RatePolicy option \<Rightarrow> SchedulingLimit" where
  "demo_limit s rate = \<lparr>sl_schema_version = 1, sl_scope = s, sl_max_concurrency = 1, sl_rate = rate\<rparr>"

definition demo_limits :: "SchedulingLimit list" where
  "demo_limits = [demo_limit GlobalScope None, demo_limit (TournamentScope ''t'') None, demo_limit (HarnessScope ''h'') None,
     demo_limit (ProviderScope ''p'') (Some demo_rate)]"

definition demo_sched :: SchedDb where
  "demo_sched = fst (configure_limits empty_sched demo_limits 0)"

definition demo_hash :: string where
  "demo_hash = replicate 64 (CHR ''a'')"

definition demo_request :: "string \<Rightarrow> millis \<Rightarrow> ReservationRequest" where
  "demo_request m now = \<lparr>rq_schema_version = 1, rq_reservation_id = m, rq_job_id = ''j'', rq_tournament_id = ''t'', rq_match_id = m,
     rq_run_id = ''r'', rq_harness_id = ''h'', rq_provider_id = ''p'', rq_immutable_inputs_sha256 = demo_hash, rq_owner = ''w'',
     rq_now = now, rq_duration_ms = 50\<rparr>"

definition demo_running :: SchedDb where
  "demo_running = fst (acquire_reservation demo_sched (demo_request ''m'' 5))"

definition demo_reservation :: ExecutionReservation where
  "demo_reservation = \<lparr>er_request = demo_request ''m'' 5, er_expires_at = 55, er_cancellation_requested = False\<rparr>"

definition demo_result :: TerminalMatchResult where
  "demo_result = \<lparr>tm_schema_version = 1, tm_match_id = ''m'', tm_immutable_inputs_sha256 = demo_hash, tm_result_sha256 = demo_hash,
     tm_charge_key = ''c'', tm_telemetry_key = ''e'', tm_rating_key = ''g''\<rparr>"

definition demo_finished :: SchedDb where
  "demo_finished = fst (commit_result demo_running demo_reservation demo_result 20)"

definition demo_stopped :: SchedDb where
  "demo_stopped = fst (set_control demo_running ''t'' CtlCancelled 20)"

lemma demo_provider: "\<exists>l \<in> set (sd_limits demo_sched). lr_scope_key l = ''provider:p'' \<and> rate_of l = Some demo_rate"
  by code_simp

lemma demo_calls:
  "snd (acquire_reservation demo_sched (demo_request ''m'' 5)) = Ok (Acquired demo_reservation)"
  "snd (commit_result demo_running demo_reservation demo_result 20) = Ok (TerminalApplied demo_result)"
  "snd (set_control demo_running ''t'' CtlCancelled 20) = Ok ()"
  by code_simp+

lemma demo_sched_reachable:
  "sched_reachable demo_sched" "work_step demo_sched demo_running" "sched_reachable demo_running"
  "sched_reachable demo_finished" "sched_reachable demo_stopped"
proof -
  show s: "sched_reachable demo_sched" unfolding demo_sched_def by (rule r_into_rtranclp) (rule sched_configure)
  show w: "work_step demo_sched demo_running" unfolding demo_running_def by (rule work_acquire)
  show r: "sched_reachable demo_running" by (rule rtranclp.rtrancl_into_rtrancl[OF s work_is_step[OF w]])
  show "sched_reachable demo_finished" unfolding demo_finished_def by (rule rtranclp.rtrancl_into_rtrancl[OF r sched_commit])
  show "sched_reachable demo_stopped" unfolding demo_stopped_def by (rule rtranclp.rtrancl_into_rtrancl[OF r sched_control])
qed

section \<open>Capacity\<close>

text \<open>
  Claim C28. In every reachable state no scope has more live executions than its limit allows, no bucket
  holds more tokens than its capacity, no match has two live executions, every execution of a match
  has the same input hash, and a match with a published result has no live execution; results share no
  match, charge, telemetry or rating key.
\<close>

theorem scheduler_limits_hold:
  assumes "sched_reachable db"
  shows "(\<forall>l \<in> set (sd_limits db). active_count db (lr_scope_key l) \<le> lr_max_concurrency l
        \<and> (case rate_of l of None \<Rightarrow> True | Some rate \<Rightarrow> (\<exists>b. find_bucket db (lr_scope_key l) = Some b \<and> bk_tokens b \<le> rp_capacity rate)))
    \<and> (\<forall>r \<in> set (sd_reservations db). \<forall>r' \<in> set (sd_reservations db). rr_match_id r = rr_match_id r' \<longrightarrow>
        rr_immutable_inputs_sha256 r = rr_immutable_inputs_sha256 r' \<and> (live r \<and> live r' \<longrightarrow> r = r'))
    \<and> (\<forall>t \<in> set (sd_results db). \<forall>r \<in> set (sd_reservations db). rr_match_id r = tr_match_id t \<longrightarrow>
        \<not> live r \<and> rr_immutable_inputs_sha256 r = tr_immutable_inputs_sha256 t)
    \<and> distinct (map tr_match_id (sd_results db)) \<and> distinct (map tr_charge_key (sd_results db))
    \<and> distinct (map tr_telemetry_key (sd_results db)) \<and> distinct (map tr_rating_key (sd_results db))"
proof -
  note inv = sched_reachable_inv[OF assms]
  have ok: "res_ok (sd_reservations db)" "results_ok (sd_reservations db) (sd_results db)" "capacity_ok (sd_limits db) (sd_reservations db)"
    using inv by (simp_all add: sched_inv_def)
  have n: "active_count db key = live_in key (sd_reservations db)" for key
    using active_count_eq[of db key] inv by (simp add: sched_inv_def res_ok_def)
  have "active_count db (lr_scope_key l) \<le> lr_max_concurrency l
      \<and> (case rate_of l of None \<Rightarrow> True | Some rate \<Rightarrow> (\<exists>b. find_bucket db (lr_scope_key l) = Some b \<and> bk_tokens b \<le> rp_capacity rate))"
    if l: "l \<in> set (sd_limits db)" for l
    using ok(3) l n load_limit_Ok(2)[OF inv l] by (auto simp: capacity_ok_def bucket_ok_def bucket_state_def split: option.splits)
  moreover have "rr_immutable_inputs_sha256 r = rr_immutable_inputs_sha256 r' \<and> (live r \<and> live r' \<longrightarrow> r = r')"
    if "r \<in> set (sd_reservations db)" "r' \<in> set (sd_reservations db)" "rr_match_id r = rr_match_id r'" for r r'
  proof -
    have "rr_immutable_inputs_sha256 r = rr_immutable_inputs_sha256 r'" using ok(1) that unfolding res_ok_def by blast
    then show ?thesis using live_match_unique[OF ok(1) that(1,2) _ _ that(3)] by blast
  qed
  ultimately show ?thesis using ok(2) unfolding results_ok_def by blast
qed

theorem scheduler_limits_hold_witness:
  "active_count demo_running ''provider:p'' = 1 \<and> list_all (\<lambda>l. active_count demo_running (lr_scope_key l) \<le> lr_max_concurrency l) (sd_limits demo_running)
    \<and> snd (acquire_reservation demo_running (demo_request ''n'' 6)) = Ok (Limited None)"
proof -
  have "active_count demo_running ''provider:p'' = 1" "snd (acquire_reservation demo_running (demo_request ''n'' 6)) = Ok (Limited None)"
    by code_simp+
  then show ?thesis using scheduler_limits_hold[OF demo_sched_reachable(3)] by (simp add: list_all_iff)
qed

section \<open>Rates\<close>

text \<open>
  Claim C30. Refilling is exact in integers: for a valid rate and bucket no overflow or panic occurs, the
  bucket gains exactly the elapsed share up to its capacity, and refilling at any moment in between
  makes no difference.
\<close>

theorem refill_is_exact:
  assumes "good_rate rate" "bucket_ok rate b" "tb_updated_at b \<le> t" "t \<le> now" "now < 2 ^ 63"
  shows "\<exists>b1 b2. refill_bucket b rate t = Ok b1 \<and> refill_bucket b1 rate now = Ok b2 \<and> refill_bucket b rate now = Ok b2
    \<and> bucket_ok rate b2 \<and> tb_updated_at b2 = now
    \<and> tb_tokens b2 * nat (rp_refill_interval_ms rate) + tb_remainder b2
      = min (rp_capacity rate * nat (rp_refill_interval_ms rate))
          (tb_tokens b * nat (rp_refill_interval_ms rate) + tb_remainder b + nat (now - tb_updated_at b) * rp_refill_tokens rate)"
proof -
  have t0: "0 \<le> t" "0 \<le> now" using assms(2-4) by (auto simp: bucket_ok_def)
  let ?b1 = "refilled rate b t" and ?b2 = "refilled rate b now"
  have "refill_bucket b rate t = Ok ?b1" by (rule refill_exact[OF assms(1-3)]) (use assms(4,5) in simp)
  moreover have "refill_bucket ?b1 rate now = Ok ?b2"
    using refill_exact[OF assms(1) refilled_ok[OF assms(1) t0(1)], of b now] refilled_twice[OF assms(1,3,4)] refilled_level(2)[OF assms(1)] assms(4,5) by simp
  moreover have "refill_bucket b rate now = Ok ?b2" by (rule refill_exact[OF assms(1,2)]) (use assms(3-5) in simp_all)
  ultimately show ?thesis
    using refilled_ok[OF assms(1) t0(2), of b] refilled_level[OF assms(1), of b now]
    by - (rule exI[of _ ?b1], rule exI[of _ ?b2], simp add: level_def full_def)
qed

theorem refill_is_exact_witness:
  "\<exists>b1 b2. refill_bucket \<lparr>tb_tokens = 0, tb_remainder = 30, tb_updated_at = 5\<rparr> demo_rate 20 = Ok b1 \<and> refill_bucket b1 demo_rate 80 = Ok b2
    \<and> tb_tokens b2 = 1 \<and> tb_remainder b2 = 0"
proof -
  have "good_rate demo_rate" "bucket_ok demo_rate \<lparr>tb_tokens = 0, tb_remainder = 30, tb_updated_at = 5\<rparr>" by code_simp+
  from refill_is_exact[OF this, of 20 80] obtain b1 b2 where
    b: "refill_bucket \<lparr>tb_tokens = 0, tb_remainder = 30, tb_updated_at = 5\<rparr> demo_rate 20 = Ok b1" "refill_bucket b1 demo_rate 80 = Ok b2"
    "bucket_ok demo_rate b2" "tb_tokens b2 * 100 + tb_remainder b2 = 100" by (auto simp: demo_rate_def)
  have "tb_remainder b2 < 100" using b(3) by (simp add: bucket_ok_def demo_rate_def)
  then have "tb_tokens b2 = 1" "tb_remainder b2 = 0" using b(4) by presburger+
  then show ?thesis using b by blast
qed

text \<open>
  When a bucket is empty the retry time it reports is the first moment at which refilling
  gives a token: never earlier, never later.
\<close>

theorem retry_time_is_exact:
  assumes "good_rate rate" "bucket_ok rate b" "tb_tokens b = 0" "tb_updated_at b = now" "now + 86400000 < 2 ^ 63"
  shows "\<exists>at. token_retry_at b rate now = (Ok (Some at) :: (SchedulerRepositoryError, millis option) outcome) \<and> now < at
    \<and> (\<forall>u b'. now \<le> u \<and> u < 2 ^ 63 \<and> refill_bucket b rate u = Ok b' \<longrightarrow> (0 < tb_tokens b' \<longleftrightarrow> at \<le> u))"
proof -
  obtain at where at: "token_retry_at b rate now = (Ok (Some at) :: (SchedulerRepositoryError, millis option) outcome)" "now < at" "\<forall>u. now \<le> u \<longrightarrow> (0 < tb_tokens (refilled rate b u) \<longleftrightarrow> at \<le> u)"
    using retry_exact[OF assms] by blast
  have "b' = refilled rate b u" if "now \<le> u" "u < 2 ^ 63" "refill_bucket b rate u = Ok b'" for u b'
    using refill_exact[OF assms(1,2) _ that(2)] that(1,3) assms(4) by simp
  then show ?thesis using at by blast
qed

theorem retry_time_is_exact_witness:
  "token_retry_at \<lparr>tb_tokens = 0, tb_remainder = 30, tb_updated_at = 5\<rparr> demo_rate 5 = (Ok (Some 75) :: (SchedulerRepositoryError, millis option) outcome)
    \<and> (\<exists>b'. refill_bucket \<lparr>tb_tokens = 0, tb_remainder = 30, tb_updated_at = 5\<rparr> demo_rate 74 = Ok b' \<and> tb_tokens b' = 0)"
proof -
  let ?b = "\<lparr>tb_tokens = 0, tb_remainder = 30, tb_updated_at = 5\<rparr>"
  have g: "good_rate demo_rate" "bucket_ok demo_rate ?b" by code_simp+
  have at: "token_retry_at ?b demo_rate 5 = (Ok (Some 75) :: (SchedulerRepositoryError, millis option) outcome)" by code_simp
  obtain at where k: "token_retry_at ?b demo_rate 5 = (Ok (Some at) :: (SchedulerRepositoryError, millis option) outcome)"
    "\<forall>u b'. 5 \<le> u \<and> u < 2 ^ 63 \<and> refill_bucket ?b demo_rate u = Ok b' \<longrightarrow> (0 < tb_tokens b' \<longleftrightarrow> at \<le> u)"
    using retry_time_is_exact[OF g, of 5] by auto
  have "at = 75" using k(1) at by simp
  then have "tb_tokens b' = 0" if "refill_bucket ?b demo_rate 74 = Ok b'" for b'
    using k(2)[THEN spec, of 74, THEN spec, of b'] that by simp
  moreover have "refill_bucket ?b demo_rate 74 = Ok (refilled demo_rate ?b 74)" by (rule refill_exact[OF g]) simp_all
  ultimately show ?thesis using at by blast
qed

text \<open>
  Claim C29. Between configurations the executions granted in a rate-limited scope never exceed its
  capacity plus the tokens refilled in the time that passed, however the calls are interleaved.
\<close>

theorem rate_is_bounded:
  assumes "sched_reachable db" "l \<in> set (sd_limits db)" "rate_of l = Some rate" "work_step\<^sup>*\<^sup>* db db'"
  shows "\<exists>b b'. find_bucket db (lr_scope_key l) = Some b \<and> find_bucket db' (lr_scope_key l) = Some b' \<and> bk_updated_at b \<le> bk_updated_at b'
    \<and> granted (lr_scope_key l) (sd_reservations db') \<le> granted (lr_scope_key l) (sd_reservations db) + rp_capacity rate
        + nat (bk_updated_at b' - bk_updated_at b) * rp_refill_tokens rate div nat (rp_refill_interval_ms rate)"
proof -
  note inv = sched_reachable_inv[OF assms(1)]
  let ?key = "lr_scope_key l" and ?I = "nat (rp_refill_interval_ms rate)"
  obtain b b' where b: "find_bucket db ?key = Some b" "find_bucket db' ?key = Some b'" "bk_updated_at b \<le> bk_updated_at b'"
    "spent rate ?key db' b' \<le> spent rate ?key db b + nat (bk_updated_at b' - bk_updated_at b) * rp_refill_tokens rate"
    using metered_steps[OF assms(4) inv assms(2,3)] by (auto simp: metered_def)
  have ok: "bucket_ok rate (bucket_state b)" "good_rate rate" using load_limit_Ok(2)[OF inv assms(2,3)] b(1) by auto
  have I: "0 < ?I" using good_rateD(5)[OF ok(2)] by simp
  let ?g = "granted ?key (sd_reservations db)" and ?g' = "granted ?key (sd_reservations db')"
    and ?d = "nat (bk_updated_at b' - bk_updated_at b) * rp_refill_tokens rate"
  have "?g' * ?I \<le> (?g + rp_capacity rate) * ?I + ?d"
    using b(4) level_full[OF ok(2,1)] by (simp add: spent_def full_def add_mult_distrib)
  then have "?g' * ?I div ?I \<le> ((?g + rp_capacity rate) * ?I + ?d) div ?I" by (rule div_le_mono)
  then show ?thesis using b(1-3) I by auto
qed

theorem rate_is_bounded_witness:
  "granted ''provider:p'' (sd_reservations demo_sched) = 0 \<and> granted ''provider:p'' (sd_reservations demo_running) = 1
    \<and> (\<exists>b b'. find_bucket demo_sched ''provider:p'' = Some b \<and> find_bucket demo_running ''provider:p'' = Some b'
        \<and> granted ''provider:p'' (sd_reservations demo_running) \<le> 0 + 1 + nat (bk_updated_at b' - bk_updated_at b) * 1 div 100)"
proof -
  have g: "granted ''provider:p'' (sd_reservations demo_sched) = 0" "granted ''provider:p'' (sd_reservations demo_running) = 1" by code_simp+
  obtain l where l: "l \<in> set (sd_limits demo_sched)" "lr_scope_key l = ''provider:p''" "rate_of l = Some demo_rate" using demo_provider by blast
  have "work_step\<^sup>*\<^sup>* demo_sched demo_running" using demo_sched_reachable(2) by blast
  from rate_is_bounded[OF demo_sched_reachable(1) l(1,3) this] show ?thesis using g l(2) by (auto simp: demo_rate_def)
qed

section \<open>Publication and cancellation\<close>

text \<open>
  Claim C31. A match result is published once: in every later state the same result is answered as already
  applied, any other result for that match is a conflict, neither changes the tables, and the match is
  never executed again.
\<close>

theorem results_published_once:
  assumes "sched_reachable db" "commit_result db e result now = (db1, Ok (TerminalApplied t))" "sched_step\<^sup>*\<^sup>* db1 db2"
    "validate_terminal result' = Ok ()" "tm_match_id result' = tm_match_id result" "rq_match_id (er_request e') = tm_match_id result'"
    "rq_immutable_inputs_sha256 (er_request e') = tm_immutable_inputs_sha256 result'"
  shows "commit_result db2 e' result' now' = (db2, if result' = result then Ok (TerminalAlreadyApplied result) else Err SchedConflict)
    \<and> (\<forall>q x. rq_match_id q = tm_match_id result \<longrightarrow> snd (acquire_reservation db2 q) \<noteq> Ok (Acquired x))"
proof -
  note inv = sched_reachable_inv[OF assms(1)]
  have c: "commit_in e result now db = Ok (db1, TerminalApplied t)" using assms(2) by (auto simp: commit_result_def transaction_Ok split: if_splits)
  have "sched_inv db1" using commit_inv[OF inv, of e result now] assms(2) by simp
  then have inv2: "sched_inv db2" using sched_steps_inv[OF assms(3)] by blast
  have in2: "result_row result (rq_reservation_id (er_request e)) now \<in> set (sd_results db2)"
    using commit_Ok(5)[OF c] results_stay_steps[OF assms(3)] by (auto simp: insert_result_def split: if_splits)
  note loaded = load_published[OF inv2 in2, simplified]
  have "commit_in e' result' now' db2 = (if result' = result then Ok (db2, TerminalAlreadyApplied result) else Err SchedConflict)"
    using loaded assms(5) by (simp add: commit_in_def)
  then have "commit_result db2 e' result' now' = (db2, if result' = result then Ok (TerminalAlreadyApplied result) else Err SchedConflict)"
    using assms(4-7) by (simp add: commit_result_def transaction_def)
  moreover have "snd (acquire_reservation db2 q) \<noteq> Ok (Acquired x)" if q: "rq_match_id q = tm_match_id result" for q x
  proof
    assume "snd (acquire_reservation db2 q) = Ok (Acquired x)"
    then obtain db3 expires where "acquire_in q expires db2 = Ok (db3, Acquired x)" using acquired_in by blast
    from acquire_Ok[OF this] obtain d ids where "expire_reservations (rq_now q) db2 = Ok (d, ids)" "load_terminal d (rq_match_id q) = Ok None" by blast
    then show False using loaded q results_of_steps by (auto simp: load_terminal_def)
  qed
  ultimately show ?thesis by blast
qed

theorem results_published_once_witness:
  "commit_result demo_finished demo_reservation demo_result 30 = (demo_finished, Ok (TerminalAlreadyApplied demo_result))
    \<and> commit_result demo_finished demo_reservation (demo_result\<lparr>tm_charge_key := ''z''\<rparr>) 30 = (demo_finished, Err SchedConflict)
    \<and> (\<forall>x. snd (acquire_reservation demo_finished (demo_request ''m'' 200)) \<noteq> Ok (Acquired x))"
proof -
  have c: "commit_result demo_running demo_reservation demo_result 20 = (demo_finished, Ok (TerminalApplied demo_result))"
    using demo_calls(2) by (simp add: demo_finished_def prod_eq_iff)
  have v: "validate_terminal demo_result = Ok ()" "validate_terminal (demo_result\<lparr>tm_charge_key := ''z''\<rparr>) = Ok ()" by code_simp+
  note p = results_published_once[OF demo_sched_reachable(3) c rtranclp.rtrancl_refl]
  show ?thesis
    using p[OF v(1), of demo_reservation 30] p[OF v(2), of demo_reservation 30]
    by (simp add: demo_result_def demo_reservation_def demo_request_def)
qed

text \<open>
  Claim C32. Cancelling a tournament is final: in every later state its control cannot be changed, nothing of it
  is granted, none of its executions is active, and none of them can be renewed or publish a result.
\<close>

theorem cancelled_tournaments_stop:
  assumes "sched_reachable db" "set_control db i CtlCancelled now = (db1, Ok ())" "sched_step\<^sup>*\<^sup>* db1 db2"
  shows "(\<forall>c t. \<exists>e. set_control db2 i c t = (db2, Err e))
    \<and> (\<forall>q x. rq_tournament_id q = i \<longrightarrow> snd (acquire_reservation db2 q) \<noteq> Ok (Acquired x))
    \<and> (\<forall>r \<in> set (sd_reservations db2). rr_tournament_id r = i \<longrightarrow> rr_status r \<noteq> ResActive
        \<and> (\<forall>e t d result x. rq_reservation_id (er_request e) = rr_reservation_id r \<longrightarrow>
             snd (renew_reservation db2 e t d) \<noteq> Ok x \<and> (\<forall>y. snd (commit_result db2 e result t) \<noteq> Ok (TerminalApplied y))))"
proof -
  note inv = sched_reachable_inv[OF assms(1)]
  have inv1: "sched_inv db1" using control_inv[OF inv, of i CtlCancelled now] assms(2) by simp
  have "is_cancelled db1 i" using cancelled_now[OF inv assms(2)] .
  note canc = cancelled_stays_steps[OF assms(3) inv1 this] and inv2 = sched_steps_inv[OF assms(3) inv1]
  have "\<exists>e. set_control db2 i c t = (db2, Err e)" for c t
    using control_refused[OF inv2 canc, of c t] by (auto simp: set_control_def transaction_def)
  moreover have "snd (acquire_reservation db2 q) \<noteq> Ok (Acquired x)" if q: "rq_tournament_id q = i" for q x
  proof
    assume "snd (acquire_reservation db2 q) = Ok (Acquired x)"
    then obtain db3 expires where "acquire_in q expires db2 = Ok (db3, Acquired x)" using acquired_in by blast
    from acquire_Ok[OF this] obtain d ids where d: "expire_reservations (rq_now q) db2 = Ok (d, ids)" "load_control d (rq_tournament_id q) = CtlRunning" by blast
    then have "load_control db2 i = CtlRunning" using results_of_steps q by (auto simp: load_control_def find_control_def)
    then show False using find_cancelled[OF inv2 canc] by (auto simp: load_control_def)
  qed
  moreover have "rr_status r \<noteq> ResActive \<and> (\<forall>e t d result x. rq_reservation_id (er_request e) = rr_reservation_id r \<longrightarrow>
      snd (renew_reservation db2 e t d) \<noteq> Ok x \<and> (\<forall>y. snd (commit_result db2 e result t) \<noteq> Ok (TerminalApplied y)))"
    if r: "r \<in> set (sd_reservations db2)" "rr_tournament_id r = i" for r
  proof -
    have na: "rr_status r \<noteq> ResActive" using inv2 canc r unfolding sched_inv_def controls_ok_def is_cancelled_def by blast
    then show ?thesis using inactive_stuck[OF inv2 r(1) na] by blast
  qed
  ultimately show ?thesis by blast
qed

theorem cancelled_tournaments_stop_witness:
  "(\<forall>x. snd (acquire_reservation demo_stopped (demo_request ''n'' 200)) \<noteq> Ok (Acquired x))
    \<and> list_all (\<lambda>r. rr_status r = ResCancelRequested) (sd_reservations demo_stopped)"
proof -
  have "set_control demo_running ''t'' CtlCancelled 20 = (demo_stopped, Ok ())"
    using demo_calls(3) by (simp add: demo_stopped_def prod_eq_iff)
  from cancelled_tournaments_stop[OF demo_sched_reachable(3) this rtranclp.rtrancl_refl]
  have "\<forall>x. snd (acquire_reservation demo_stopped (demo_request ''n'' 200)) \<noteq> Ok (Acquired x)" by (simp add: demo_request_def)
  moreover have "list_all (\<lambda>r. rr_status r = ResCancelRequested) (sd_reservations demo_stopped)" by code_simp
  ultimately show ?thesis by blast
qed

end
