(* ===== verification/OrderedMap.thy ===== *)
theory OrderedMap
  imports Prelude
begin

text \<open>
  \<^verbatim>\<open>BTreeMap\<close> of the standard library: the list of its entries in strictly ascending key order.
  Its equality is equality of entries and its iterators run over the list. The locale \<open>ordered_map\<close>
  is the interface the clients use: lookup after an update, the order kept, and that a map is
  determined by its lookups; the clients' lemmas about folds of updates are proved in it.
\<close>

section \<open>The map\<close>

type_synonym ('k, 'v) btree_map = "('k \<times> 'v) list"

definition btree_keys :: "('k \<times> 'v) list \<Rightarrow> 'k list" where
  "btree_keys m = map fst m"

definition btree_values :: "('k \<times> 'v) list \<Rightarrow> 'v list" where
  "btree_values m = map snd m"

fun btree_get :: "('k::linorder, 'v) btree_map \<Rightarrow> 'k \<Rightarrow> 'v option" where
  "btree_get [] k = None"
| "btree_get ((k', v) # m) k = (if k = k' then Some v else btree_get m k)"

fun btree_insert :: "'k::linorder \<Rightarrow> 'v \<Rightarrow> ('k, 'v) btree_map \<Rightarrow> ('k, 'v) btree_map" where
  "btree_insert k v [] = [(k, v)]"
| "btree_insert k v ((k', v') # m) =
     (if k < k' then (k, v) # (k', v') # m
      else if k = k' then (k, v) # m
      else (k', v') # btree_insert k v m)"

definition btree_ok :: "('k::linorder, 'v) btree_map \<Rightarrow> bool" where
  "btree_ok m \<longleftrightarrow> sorted_wrt (<) (btree_keys m)"

lemma option_ext: "(\<And>v. a = Some v \<longleftrightarrow> b = Some v) \<Longrightarrow> a = b"
  by (cases a; cases b) auto

section \<open>The interface\<close>

locale ordered_map =
  fixes empty :: 'm
    and get :: "'m \<Rightarrow> 'k \<Rightarrow> 'v option"
    and put :: "'k \<Rightarrow> 'v \<Rightarrow> 'm \<Rightarrow> 'm"
    and ok :: "'m \<Rightarrow> bool"
  assumes get_empty: "get empty k = None"
    and ok_empty: "ok empty"
    and get_put: "ok m \<Longrightarrow> get (put k v m) k' = (if k' = k then Some v else get m k')"
    and ok_put: "ok m \<Longrightarrow> ok (put k v m)"
    and extensional: "ok m \<Longrightarrow> ok m' \<Longrightarrow> (\<And>k. get m k = get m' k) \<Longrightarrow> m = m'"
begin

lemma put_same: "ok m \<Longrightarrow> get m k = Some v \<Longrightarrow> put k v m = m"
  by (rule extensional) (auto simp: get_put ok_put)

lemma put_put: "ok m \<Longrightarrow> put k v (put k w m) = put k v m"
  by (rule extensional) (auto simp: get_put ok_put)

lemma put_commute: "ok m \<Longrightarrow> k \<noteq> k' \<Longrightarrow> put k v (put k' v' m) = put k' v' (put k v m)"
  by (rule extensional) (auto simp: get_put ok_put)

lemma ok_puts: "ok m \<Longrightarrow> ok (foldl (\<lambda>m x. put (f x) (g x) m) m xs)"
  by (induction xs arbitrary: m) (auto simp: ok_put)

text \<open>A fold of insertions that agree on equal keys has the entries inserted, in any order.\<close>

lemma get_puts:
  assumes "ok m" "\<forall>x \<in> set xs. \<forall>y \<in> set xs. f x = f y \<longrightarrow> g x = g y"
  shows "get (foldl (\<lambda>m x. put (f x) (g x) m) m xs) k = Some v \<longleftrightarrow>
    (\<exists>x \<in> set xs. f x = k \<and> g x = v) \<or> (k \<notin> f ` set xs \<and> get m k = Some v)"
  using assms
proof (induction xs arbitrary: m)
  case (Cons x xs)
  have "g y = g x" if "y \<in> set xs" "f y = f x" for y using Cons.prems(2) that by (meson list.set_intros)
  moreover have "get (foldl (\<lambda>m x. put (f x) (g x) m) (put (f x) (g x) m) xs) k = Some v \<longleftrightarrow>
      (\<exists>y \<in> set xs. f y = k \<and> g y = v) \<or> (k \<notin> f ` set xs \<and> get (put (f x) (g x) m) k = Some v)"
    by (rule Cons.IH[OF ok_put[OF Cons.prems(1)]]) (use Cons.prems(2) in \<open>meson list.set_intros(2)\<close>)
  ultimately show ?case using Cons.prems(1) by (auto simp: get_put split: if_splits)
qed simp

lemma puts_permute:
  assumes "set xs = set ys" "\<forall>x \<in> set xs. \<forall>y \<in> set xs. f x = f y \<longrightarrow> g x = g y"
  shows "foldl (\<lambda>m x. put (f x) (g x) m) empty xs = foldl (\<lambda>m x. put (f x) (g x) m) empty ys"
proof (rule extensional)
  show "ok (foldl (\<lambda>m x. put (f x) (g x) m) empty xs)" "ok (foldl (\<lambda>m x. put (f x) (g x) m) empty ys)"
    by (simp_all add: ok_puts ok_empty)
  fix k
  have *: "get (foldl (\<lambda>m x. put (f x) (g x) m) empty xs) k = Some v
      \<longleftrightarrow> get (foldl (\<lambda>m x. put (f x) (g x) m) empty ys) k = Some v" for v
    using get_puts[OF ok_empty assms(2), where k = k and v = v] get_puts[OF ok_empty assms(2)[unfolded assms(1)], where k = k and v = v]
    by (simp only: assms(1))
  show "get (foldl (\<lambda>m x. put (f x) (g x) m) empty xs) k = get (foldl (\<lambda>m x. put (f x) (g x) m) empty ys) k"
    by (rule option_ext) (rule *)
qed

end

section \<open>The implementation\<close>

lemma btree_get_map_of: "btree_get m k = map_of m k"
  by (induction m) auto

lemma btree_keys_insert: "set (btree_keys (btree_insert k v m)) = insert k (set (btree_keys m))"
  by (induction k v m rule: btree_insert.induct) (auto simp: btree_keys_def)

lemma btree_ok_Cons: "btree_ok ((k, v) # m) \<longleftrightarrow> btree_ok m \<and> (\<forall>k' \<in> set (btree_keys m). k < k')"
  by (auto simp: btree_ok_def btree_keys_def)

lemma btree_insert_ok: "btree_ok m \<Longrightarrow> btree_ok (btree_insert k v m)"
proof (induction m)
  case Nil
  then show ?case by (simp add: btree_ok_def btree_keys_def)
next
  case (Cons e m)
  obtain k' v' where e: "e = (k', v')" by (cases e)
  show ?case using Cons by (auto simp: e btree_ok_Cons btree_keys_insert) (auto simp: btree_keys_def)
qed

lemma btree_get_insert: "btree_ok m \<Longrightarrow> btree_get (btree_insert k v m) k' = (if k' = k then Some v else btree_get m k')"
  by (induction m) (auto simp: btree_ok_Cons)

lemma btree_distinct: "btree_ok m \<Longrightarrow> distinct (btree_keys m)"
  by (simp add: btree_ok_def strict_sorted_iff)

lemma btree_get_None: "btree_get m k = None \<longleftrightarrow> k \<notin> set (btree_keys m)"
  by (simp add: btree_get_map_of btree_keys_def map_of_eq_None_iff)

lemma btree_get_Some: "btree_ok m \<Longrightarrow> btree_get m k = Some v \<longleftrightarrow> (k, v) \<in> set m"
  using btree_distinct[of m] by (simp add: btree_get_map_of btree_keys_def)

lemma btree_ext:
  assumes "btree_ok m" "btree_ok m'" "\<And>k. btree_get m k = btree_get m' k"
  shows "m = m'"
proof -
  have "sorted_wrt (<) (map fst m)" "sorted_wrt (<) (map fst m')" using assms(1,2) by (simp_all add: btree_ok_def btree_keys_def)
  moreover have "set m = set m'" using assms btree_get_Some[OF assms(1)] btree_get_Some[OF assms(2)] by auto
  moreover have "inj_on fst (set m \<union> set m')" using \<open>set m = set m'\<close> btree_distinct[OF assms(1)] by (simp add: btree_keys_def distinct_map)
  ultimately show ?thesis by (intro map_sorted_distinct_set_unique[of fst]) (auto simp: strict_sorted_iff)
qed

interpretation btree: ordered_map "[]" btree_get btree_insert btree_ok
proof
  show "btree_ok m \<Longrightarrow> btree_ok m' \<Longrightarrow> (\<And>k. btree_get m k = btree_get m' k) \<Longrightarrow> m = m'"
    for m m' :: "('k::linorder \<times> 'v) list" by (rule btree_ext)
qed (simp_all add: btree_ok_def[of "[]"] btree_keys_def btree_get_insert btree_insert_ok)

end
