(* ===== verification/Statistics.thy ===== *)
theory Statistics
  imports Replay OrderedMap Sql Tournament
begin

text \<open>
  Match statistics (\<^verbatim>\<open>application/src/statistics.rs\<close>): the two seat observations derived from the
  public events of one finished game, filters, and the accumulator that aggregates observations.
  \<^verbatim>\<open>[T; 2]\<close> is a pair, indexed by \<open>two_at\<close> and \<open>two_set\<close>, which panic out of range as the array
  does; \<^verbatim>\<open>BTreeMap\<close> is the ordered map of OrderedMap; \<^verbatim>\<open>u64\<close> counters are naturals with checked
  addition, \<^verbatim>\<open>i64\<close> scores integers with it.
\<close>

section \<open>Data\<close>

definition STATISTICS_SCHEMA_VERSION :: nat where "STATISTICS_SCHEMA_VERSION = 1"
definition RATE_SCALE :: nat where "RATE_SCALE = 1000000"

type_synonym 'a two = "'a \<times> 'a"

definition two_at :: "'a two \<Rightarrow> nat \<Rightarrow> ('e, 'a) outcome" where
  "two_at p i = (if i = 0 then Ok (fst p) else if i = 1 then Ok (snd p) else Panic)"

definition two_set :: "'a two \<Rightarrow> nat \<Rightarrow> 'a \<Rightarrow> ('e, 'a two) outcome" where
  "two_set p i x = (if i = 0 then Ok (x, snd p) else if i = 1 then Ok (fst p, x) else Panic)"

datatype StatisticsError = StatInvalidInput | StatOverflow | StatConflict

type_synonym 'a stat = "(StatisticsError, 'a) outcome"

datatype StatisticAvailability = Exact | Estimated | Unavailable

record SourcedStatistic =
  sx_availability :: StatisticAvailability
  sx_value :: "nat option"

definition stat_exact :: "nat \<Rightarrow> SourcedStatistic" where
  "stat_exact v = \<lparr>sx_availability = Exact, sx_value = Some v\<rparr>"

definition stat_estimated :: "nat \<Rightarrow> SourcedStatistic" where
  "stat_estimated v = \<lparr>sx_availability = Estimated, sx_value = Some v\<rparr>"

definition stat_unavailable :: SourcedStatistic where
  "stat_unavailable = \<lparr>sx_availability = Unavailable, sx_value = None\<rparr>"

definition validate_sourced :: "SourcedStatistic \<Rightarrow> unit stat" where
  "validate_sourced s = (case (sx_availability s, sx_value s) of
       (Exact, Some _) \<Rightarrow> Ok ()
     | (Estimated, Some _) \<Rightarrow> Ok ()
     | (Unavailable, None) \<Rightarrow> Ok ()
     | _ \<Rightarrow> Err StatInvalidInput)"

record NormalizedRunStatistics =
  nr_turn_durations_ms :: "nat list option"
  nr_tool_calls :: SourcedStatistic
  nr_input_tokens :: SourcedStatistic
  nr_output_tokens :: SourcedStatistic
  nr_cost_microusd :: SourcedStatistic

definition run_unavailable :: NormalizedRunStatistics where
  "run_unavailable = \<lparr>nr_turn_durations_ms = None, nr_tool_calls = stat_unavailable,
     nr_input_tokens = stat_unavailable, nr_output_tokens = stat_unavailable,
     nr_cost_microusd = stat_unavailable\<rparr>"

definition validate_run :: "NormalizedRunStatistics \<Rightarrow> unit stat" where
  "validate_run t =
     rbind (validate_sourced (nr_tool_calls t)) (\<lambda>_.
     rbind (validate_sourced (nr_input_tokens t)) (\<lambda>_.
     rbind (validate_sourced (nr_output_tokens t)) (\<lambda>_.
     rbind (validate_sourced (nr_cost_microusd t)) (\<lambda>_.
     if (case nr_turn_durations_ms t of None \<Rightarrow> False | Some ds \<Rightarrow> 1000000 < length ds)
     then Err StatInvalidInput else Ok ()))))"

record StatisticsParticipant =
  pa_entrant_id :: string
  pa_agent_manifest_sha256 :: "string option"

record MatchStatisticsInput =
  mi_schema_version :: nat
  mi_source_id :: string
  mi_tournament_id :: "string option"
  mi_match_id :: string
  mi_game_id :: string
  mi_finished_at :: millis
  mi_participants :: "StatisticsParticipant two"
  mi_events :: "GameEvent list"
  mi_invalid_attempts :: "nat two"
  mi_telemetry :: "NormalizedRunStatistics two"

record StatisticsScope =
  so_language :: string
  so_ruleset_id :: string
  so_ruleset_sha256 :: string
  so_pack_id :: string
  so_pack_version :: string
  so_pack_sha256 :: string
  so_agent_manifest_sha256 :: "string option"
  so_tournament_id :: "string option"
  so_match_id :: string
  so_game_id :: string
  so_entrant_id :: string
  so_seat_number :: nat
  so_finished_at :: millis

record PremiumUse =
  pu_double_letter :: nat
  pu_triple_letter :: nat
  pu_double_word :: nat
  pu_triple_word :: nat

definition no_premiums :: PremiumUse where
  "no_premiums = \<lparr>pu_double_letter = 0, pu_triple_letter = 0, pu_double_word = 0, pu_triple_word = 0\<rparr>"

record StatisticsObservation =
  ob_schema_version :: nat
  ob_source_id :: string
  ob_scope :: StatisticsScope
  ob_games :: nat
  ob_wins :: nat
  ob_losses :: nat
  ob_ties :: nat
  ob_score_for :: int
  ob_score_against :: int
  ob_spread :: int
  ob_scoring_moves :: nat
  ob_move_score :: nat
  ob_bingos :: nat
  ob_invalid_actions :: nat
  ob_passes :: nat
  ob_exchanges :: nat
  ob_premium_use :: PremiumUse
  ob_word_frequencies :: "(string, nat) btree_map"
  ob_turn_latency_total_ms :: SourcedStatistic
  ob_turn_latency_samples :: SourcedStatistic
  ob_tool_calls :: SourcedStatistic
  ob_input_tokens :: SourcedStatistic
  ob_output_tokens :: SourcedStatistic
  ob_cost_microusd :: SourcedStatistic

section \<open>Helpers\<close>

definition stat_add :: "nat \<Rightarrow> nat \<Rightarrow> nat stat" where
  "stat_add a b = ok_or StatOverflow (checked_add 64 a b)"

definition stat_add_signed :: "int \<Rightarrow> int \<Rightarrow> int stat" where
  "stat_add_signed a b = ok_or StatOverflow (checked_add_signed 64 a b)"

definition stat_valid_id :: "string \<Rightarrow> bool" where
  "stat_valid_id v = valid_id 256 v"

definition valid_word :: "string \<Rightarrow> bool" where
  "valid_word v \<longleftrightarrow> stat_valid_id v \<and> list_all (\<lambda>c. 65 \<le> c \<and> c \<le> 90) (utf8_chars v)"

definition valid_scope :: "StatisticsScope \<Rightarrow> bool" where
  "valid_scope s \<longleftrightarrow> stat_valid_id (so_language s) \<and> stat_valid_id (so_ruleset_id s)
     \<and> valid_sha256 (so_ruleset_sha256 s) \<and> stat_valid_id (so_pack_id s) \<and> stat_valid_id (so_pack_version s)
     \<and> valid_sha256 (so_pack_sha256 s) \<and> null_or valid_sha256 (so_agent_manifest_sha256 s)
     \<and> null_or stat_valid_id (so_tournament_id s) \<and> stat_valid_id (so_match_id s)
     \<and> stat_valid_id (so_game_id s) \<and> stat_valid_id (so_entrant_id s) \<and> 0 \<le> so_finished_at s"

fun event_result :: "GameEventKind \<Rightarrow> GameResult option" where
  "event_result (MovePlayed _ _ _ _ _ _ _ _ _ _ _ result) = result"
| "event_result (Passed _ _ _ result) = result"
| "event_result (Exchanged _ _ _ _ _ _ result) = result"
| "event_result (Resigned _ result) = Some result"
| "event_result (Created _ _ _ _ _ _ _) = None"

fun event_result_is_consistent :: "GameEventKind \<Rightarrow> bool" where
  "event_result_is_consistent (Created _ _ _ _ _ _ _) = True"
| "event_result_is_consistent (Resigned player result) = (res_reason result = Resignation player)"
| "event_result_is_consistent (Passed _ _ _ result) = null_or (\<lambda>r. res_reason r = ScorelessTurns) result"
| "event_result_is_consistent (Exchanged _ _ _ _ _ _ result) = null_or (\<lambda>r. res_reason r = ScorelessTurns) result"
| "event_result_is_consistent (MovePlayed _ _ _ _ _ _ _ _ _ _ _ result) =
     null_or (\<lambda>r. case res_reason r of ScorelessTurns \<Rightarrow> True | RackEmptied _ \<Rightarrow> True | Resignation _ \<Rightarrow> False) result"

section \<open>Validation of an input\<close>

definition valid_participant :: "StatisticsParticipant \<Rightarrow> bool" where
  "valid_participant p \<longleftrightarrow> stat_valid_id (pa_entrant_id p) \<and> null_or valid_sha256 (pa_agent_manifest_sha256 p)"

text \<open>One turn of the loop over the events: the terminal result found so far and the index.\<close>

definition check_event ::
  "nat \<Rightarrow> PackIdentity \<Rightarrow> GameResult option \<times> nat \<Rightarrow> GameEvent \<Rightarrow> (GameResult option \<times> nat) stat" where
  "check_event total' lexicon st event = (case st of (terminal, index) \<Rightarrow>
     rbind (ok_or StatOverflow (try_from 64 index)) (\<lambda>sequence.
     if ge_sequence event \<noteq> sequence \<or> ge_visibility event \<noteq> Public \<or> ge_lexicon event \<noteq> lexicon
     then Err StatInvalidInput
     else case event_result (ge_kind event) of
       None \<Rightarrow> if \<not> event_result_is_consistent (ge_kind event) then Err StatInvalidInput else Ok (terminal, index + 1)
     | Some result \<Rightarrow>
         if terminal \<noteq> None \<or> index + 1 \<noteq> total' then Err StatInvalidInput
         else if \<not> event_result_is_consistent (ge_kind event) then Err StatInvalidInput
         else Ok (Some result, index + 1)))"

definition expected_winner :: "TerminalReason \<Rightarrow> int \<Rightarrow> int \<Rightarrow> Seat option stat" where
  "expected_winner reason score_one score_two = (case reason of
       Resignation resigned \<Rightarrow> (case resigned of One \<Rightarrow> Ok (Some Two) | Two \<Rightarrow> Ok (Some One) | _ \<Rightarrow> Err StatInvalidInput)
     | _ \<Rightarrow> Ok (if score_two < score_one then Some One else if score_one < score_two then Some Two else None))"

definition validate_input :: "env \<Rightarrow> MatchStatisticsInput \<Rightarrow> (Ruleset \<times> GameResult) stat" where
  "validate_input E i =
     (if mi_schema_version i \<noteq> STATISTICS_SCHEMA_VERSION \<or> \<not> stat_valid_id (mi_source_id i)
         \<or> \<not> stat_valid_id (mi_match_id i) \<or> \<not> stat_valid_id (mi_game_id i) \<or> mi_finished_at i < 0
         \<or> \<not> null_or stat_valid_id (mi_tournament_id i)
         \<or> pa_entrant_id (fst (mi_participants i)) = pa_entrant_id (snd (mi_participants i))
      then Err StatInvalidInput
      else if \<not> (valid_participant (fst (mi_participants i)) \<and> valid_participant (snd (mi_participants i)))
      then Err StatInvalidInput
      else rbind (validate_run (fst (mi_telemetry i))) (\<lambda>_.
        rbind (validate_run (snd (mi_telemetry i))) (\<lambda>_.
        case mi_events i of [] \<Rightarrow> Err StatInvalidInput
        | first # _ \<Rightarrow> (case ge_kind first of
            Created game_id ruleset _ _ _ _ _ \<Rightarrow>
              if game_id \<noteq> mi_game_id i \<or> rs_lexicon ruleset \<noteq> ge_lexicon first then Err StatInvalidInput
              else rbind (try_fold (check_event (length (mi_events i)) (rs_lexicon ruleset)) (None, 0) (mi_events i)) (\<lambda>(terminal, _).
                rbind (ok_or StatInvalidInput terminal) (\<lambda>result.
                rbind (ok_or StatOverflow (try_from 64 (length (mi_events i) - 1))) (\<lambda>final.
                if res_game_id result \<noteq> mi_game_id i \<or> res_ruleset_id result \<noteq> rs_id ruleset
                    \<or> res_lexicon result \<noteq> rs_lexicon ruleset \<or> res_final_version result \<noteq> final
                    \<or> ri_ruleset_id (ruleset_identity E ruleset) \<noteq> res_ruleset_id result
                then Err StatInvalidInput
                else if length (res_scores result) \<noteq> 2 then Err StatInvalidInput
                else rbind (index_at (res_scores result) 0) (\<lambda>score_one.
                  rbind (index_at (res_scores result) 1) (\<lambda>score_two.
                  rbind (expected_winner (res_reason result) score_one score_two) (\<lambda>winner.
                  if res_winner result \<noteq> winner then Err StatInvalidInput else Ok (ruleset, result)))))))
          | _ \<Rightarrow> Err StatInvalidInput))))"

section \<open>Observations of a match\<close>

definition observation_id :: "string \<Rightarrow> nat \<Rightarrow> string" where
  "observation_id source number = source @ '':seat-'' @ decimal number"

definition empty_observation ::
  "env \<Rightarrow> MatchStatisticsInput \<Rightarrow> nat \<Rightarrow> Ruleset \<Rightarrow> GameResult \<Rightarrow> StatisticsObservation stat" where
  "empty_observation E i index ruleset result =
     rbind (index_at (res_scores result) index) (\<lambda>own.
     rbind (index_at (res_scores result) (1 - index)) (\<lambda>other.
     rbind (stat_add_signed own (- other)) (\<lambda>spread.
     let winner = map_option seat_index (res_winner result) in
     rbind (two_at (mi_participants i) index) (\<lambda>participant.
     rbind (ok_or StatOverflow (try_from 8 (index + 1))) (\<lambda>number.
     Ok \<lparr>ob_schema_version = STATISTICS_SCHEMA_VERSION,
       ob_source_id = observation_id (mi_source_id i) (index + 1),
       ob_scope = \<lparr>so_language = language_code (rs_language ruleset), so_ruleset_id = ruleset_id_str (rs_id ruleset),
         so_ruleset_sha256 = ri_content_sha256 (ruleset_identity E ruleset),
         so_pack_id = pi_pack_id (rs_lexicon ruleset), so_pack_version = pi_pack_version (rs_lexicon ruleset),
         so_pack_sha256 = pi_content_sha256 (rs_lexicon ruleset),
         so_agent_manifest_sha256 = pa_agent_manifest_sha256 participant,
         so_tournament_id = mi_tournament_id i, so_match_id = mi_match_id i, so_game_id = mi_game_id i,
         so_entrant_id = pa_entrant_id participant, so_seat_number = number, so_finished_at = mi_finished_at i\<rparr>,
       ob_games = 1, ob_wins = of_bool (winner = Some index),
       ob_losses = of_bool (case winner of None \<Rightarrow> False | Some seat \<Rightarrow> seat \<noteq> index),
       ob_ties = of_bool (winner = None),
       ob_score_for = own, ob_score_against = other, ob_spread = spread,
       ob_scoring_moves = 0, ob_move_score = 0, ob_bingos = 0, ob_invalid_actions = 0, ob_passes = 0,
       ob_exchanges = 0, ob_premium_use = no_premiums, ob_word_frequencies = [],
       ob_turn_latency_total_ms = stat_unavailable, ob_turn_latency_samples = stat_unavailable,
       ob_tool_calls = stat_unavailable, ob_input_tokens = stat_unavailable,
       ob_output_tokens = stat_unavailable, ob_cost_microusd = stat_unavailable\<rparr>)))))"

fun add_premium :: "PremiumUse \<Rightarrow> Premium \<Rightarrow> PremiumUse stat" where
  "add_premium u Normal = Ok u"
| "add_premium u DoubleLetter = rbind (stat_add (pu_double_letter u) 1) (\<lambda>n. Ok (u\<lparr>pu_double_letter := n\<rparr>))"
| "add_premium u TripleLetter = rbind (stat_add (pu_triple_letter u) 1) (\<lambda>n. Ok (u\<lparr>pu_triple_letter := n\<rparr>))"
| "add_premium u DoubleWord = rbind (stat_add (pu_double_word u) 1) (\<lambda>n. Ok (u\<lparr>pu_double_word := n\<rparr>))"
| "add_premium u TripleWord = rbind (stat_add (pu_triple_word u) 1) (\<lambda>n. Ok (u\<lparr>pu_triple_word := n\<rparr>))"

text \<open>\<^verbatim>\<open>entry(word).or_default()\<close> and the checked addition to it.\<close>

definition add_word :: "(string, nat) btree_map \<Rightarrow> string \<Rightarrow> nat \<Rightarrow> (string, nat) btree_map stat" where
  "add_word words word n =
     rbind (stat_add (case btree_get words word of None \<Rightarrow> 0 | Some k \<Rightarrow> k) n) (\<lambda>k. Ok (btree_insert word k words))"

definition count_placement :: "Ruleset \<Rightarrow> StatisticsObservation \<Rightarrow> Placement \<Rightarrow> StatisticsObservation stat" where
  "count_placement ruleset ob placement =
     rbind (ok_or StatInvalidInput (board_square (gr_board (rs_game ruleset)) (pl_coordinate placement))) (\<lambda>square.
     rbind (add_premium (ob_premium_use ob) (bs_premium square)) (\<lambda>u. Ok (ob\<lparr>ob_premium_use := u\<rparr>)))"

definition count_word :: "StatisticsObservation \<Rightarrow> FormedWord \<Rightarrow> StatisticsObservation stat" where
  "count_word ob word =
     (if \<not> valid_word (fw_normalized word) then Err StatInvalidInput
      else rbind (add_word (ob_word_frequencies ob) (fw_normalized word) 1) (\<lambda>ws. Ok (ob\<lparr>ob_word_frequencies := ws\<rparr>)))"

fun count_event ::
  "Ruleset \<Rightarrow> StatisticsObservation two \<Rightarrow> GameEventKind \<Rightarrow> StatisticsObservation two stat" where
  "count_event ruleset obs (MovePlayed player placements words bingo_bonus score _ _ _ _ _ _ _) =
     rbind (two_at obs (seat_index player)) (\<lambda>ob.
     rbind (stat_add (ob_scoring_moves ob) 1) (\<lambda>moves.
     rbind (stat_add (ob_move_score ob) score) (\<lambda>total'.
     rbind (if 0 < bingo_bonus then stat_add (ob_bingos ob) 1 else Ok (ob_bingos ob)) (\<lambda>bingos.
     rbind (try_fold (count_placement ruleset)
       (ob\<lparr>ob_scoring_moves := moves, ob_move_score := total', ob_bingos := bingos\<rparr>) placements) (\<lambda>ob.
     rbind (try_fold count_word ob words) (\<lambda>ob.
     two_set obs (seat_index player) ob))))))"
| "count_event ruleset obs (Passed player _ _ _) =
     rbind (two_at obs (seat_index player)) (\<lambda>ob.
     rbind (stat_add (ob_passes ob) 1) (\<lambda>n. two_set obs (seat_index player) (ob\<lparr>ob_passes := n\<rparr>)))"
| "count_event ruleset obs (Exchanged player _ _ _ _ _ _) =
     rbind (two_at obs (seat_index player)) (\<lambda>ob.
     rbind (stat_add (ob_exchanges ob) 1) (\<lambda>n. two_set obs (seat_index player) (ob\<lparr>ob_exchanges := n\<rparr>)))"
| "count_event ruleset obs (Created _ _ _ _ _ _ _) = Ok obs"
| "count_event ruleset obs (Resigned _ _) = Ok obs"

definition apply_telemetry :: "StatisticsObservation \<Rightarrow> NormalizedRunStatistics \<Rightarrow> StatisticsObservation stat" where
  "apply_telemetry ob t =
     rbind (case nr_turn_durations_ms t of
         None \<Rightarrow> Ok ob
       | Some durations \<Rightarrow>
           rbind (try_fold stat_add 0 durations) (\<lambda>total'.
           rbind (ok_or StatOverflow (try_from 64 (length durations))) (\<lambda>samples.
           Ok (ob\<lparr>ob_turn_latency_total_ms := stat_exact total', ob_turn_latency_samples := stat_exact samples\<rparr>)))) (\<lambda>ob.
     Ok (ob\<lparr>ob_tool_calls := nr_tool_calls t, ob_input_tokens := nr_input_tokens t,
            ob_output_tokens := nr_output_tokens t, ob_cost_microusd := nr_cost_microusd t\<rparr>))"

definition derive :: "env \<Rightarrow> MatchStatisticsInput \<Rightarrow> StatisticsObservation two stat" where
  "derive E i =
     rbind (validate_input E i) (\<lambda>(ruleset, result).
     rbind (empty_observation E i 0 ruleset result) (\<lambda>first.
     rbind (empty_observation E i 1 ruleset result) (\<lambda>second.
     rbind (try_fold (\<lambda>obs event. count_event ruleset obs (ge_kind event)) (first, second) (mi_events i)) (\<lambda>obs.
     rbind (apply_telemetry ((fst obs)\<lparr>ob_invalid_actions := fst (mi_invalid_attempts i)\<rparr>) (fst (mi_telemetry i))) (\<lambda>first.
     rbind (apply_telemetry ((snd obs)\<lparr>ob_invalid_actions := snd (mi_invalid_attempts i)\<rparr>) (snd (mi_telemetry i))) (\<lambda>second.
     Ok (first, second)))))))"

end
