(* ===== verification/StatisticsFacts.thy ===== *)
theory StatisticsFacts
  imports Statistics
begin

text \<open>
  What \<^verbatim>\<open>derive\<close> counts. \<open>tally\<close> states, without the code's loop, what an observation must say of a list
  of events: the number of scoring moves, passes and exchanges of the seat, the sum of its scores, its
  bonuses, the premium squares it covered and how often it formed each word. Counting an event keeps
  the tally of both seats, and no counter overflows while the events are small enough.
\<close>

section \<open>Reading events\<close>

fun plays :: "Seat \<Rightarrow> GameEventKind \<Rightarrow> bool" where
  "plays p (MovePlayed q _ _ _ _ _ _ _ _ _ _ _) = (q = p)"
| "plays p _ = False"

fun passes_turn :: "Seat \<Rightarrow> GameEventKind \<Rightarrow> bool" where
  "passes_turn p (Passed q _ _ _) = (q = p)"
| "passes_turn p _ = False"

fun exchanges_tiles :: "Seat \<Rightarrow> GameEventKind \<Rightarrow> bool" where
  "exchanges_tiles p (Exchanged q _ _ _ _ _ _) = (q = p)"
| "exchanges_tiles p _ = False"

fun kind_placements :: "GameEventKind \<Rightarrow> Placement list" where
  "kind_placements (MovePlayed _ placements _ _ _ _ _ _ _ _ _ _) = placements"
| "kind_placements _ = []"

fun kind_words :: "GameEventKind \<Rightarrow> FormedWord list" where
  "kind_words (MovePlayed _ _ words _ _ _ _ _ _ _ _ _) = words"
| "kind_words _ = []"

fun kind_bonus :: "GameEventKind \<Rightarrow> nat" where
  "kind_bonus (MovePlayed _ _ _ bonus _ _ _ _ _ _ _ _) = bonus"
| "kind_bonus _ = 0"

fun kind_score :: "GameEventKind \<Rightarrow> nat" where
  "kind_score (MovePlayed _ _ _ _ score _ _ _ _ _ _ _) = score"
| "kind_score _ = 0"

definition premium_of :: "Ruleset \<Rightarrow> Placement \<Rightarrow> Premium" where
  "premium_of r pl = (case board_square (gr_board (rs_game r)) (pl_coordinate pl) of
     Some square \<Rightarrow> bs_premium square | None \<Rightarrow> Normal)"

fun premium_count :: "PremiumUse \<Rightarrow> Premium \<Rightarrow> nat" where
  "premium_count u Normal = 0"
| "premium_count u DoubleLetter = pu_double_letter u"
| "premium_count u TripleLetter = pu_triple_letter u"
| "premium_count u DoubleWord = pu_double_word u"
| "premium_count u TripleWord = pu_triple_word u"

definition word_count :: "(string, nat) btree_map \<Rightarrow> string \<Rightarrow> nat" where
  "word_count ws w = (case btree_get ws w of None \<Rightarrow> 0 | Some n \<Rightarrow> n)"

definition words_ok :: "(string, nat) btree_map \<Rightarrow> bool" where
  "words_ok ws \<longleftrightarrow> btree_ok ws \<and> (\<forall>(w, n) \<in> set ws. valid_word w \<and> 0 < n)"

definition tally :: "Ruleset \<Rightarrow> Seat \<Rightarrow> GameEventKind list \<Rightarrow> StatisticsObservation \<Rightarrow> bool" where
  "tally r p ks ob \<longleftrightarrow> (let moves = filter (plays p) ks in
     ob_scoring_moves ob = length moves \<and> ob_move_score ob = sum_list (map kind_score moves)
     \<and> ob_bingos ob = length (filter (\<lambda>k. 0 < kind_bonus k) moves)
     \<and> ob_passes ob = length (filter (passes_turn p) ks) \<and> ob_exchanges ob = length (filter (exchanges_tiles p) ks)
     \<and> (\<forall>q. q \<noteq> Normal \<longrightarrow> premium_count (ob_premium_use ob) q
          = count_list (map (premium_of r) (concat (map kind_placements moves))) q)
     \<and> (\<forall>w. word_count (ob_word_frequencies ob) w
          = count_list (map fw_normalized (concat (map kind_words moves))) w)
     \<and> words_ok (ob_word_frequencies ob))"

section \<open>Counting one event\<close>

lemma stat_add_Ok [outcome_elims, simp]: "stat_add a b = Ok c \<longleftrightarrow> c = a + b \<and> a + b < 2 ^ 64"
  by (auto simp: stat_add_def checked_add_def)

lemma stat_add_small: "a + b < 2 ^ 64 \<Longrightarrow> stat_add a b = Ok (a + b)"
  by simp

lemma add_premium_Ok:
  "add_premium u p = Ok u' \<Longrightarrow> q \<noteq> Normal \<Longrightarrow> premium_count u' q = premium_count u q + of_bool (p = q)"
  by (cases p; cases q) (auto simp: rbind_Ok_iff)

lemma count_placement_Ok:
  "count_placement r ob pl = Ok ob' \<longleftrightarrow> (\<exists>sq u. board_square (gr_board (rs_game r)) (pl_coordinate pl) = Some sq
     \<and> add_premium (ob_premium_use ob) (bs_premium sq) = Ok u \<and> ob' = ob\<lparr>ob_premium_use := u\<rparr>)"
  by (auto simp: count_placement_def rbind_Ok_iff)

lemma count_word_Ok:
  "count_word ob word = Ok ob' \<longleftrightarrow> valid_word (fw_normalized word)
     \<and> (\<exists>ws. add_word (ob_word_frequencies ob) (fw_normalized word) 1 = Ok ws \<and> ob' = ob\<lparr>ob_word_frequencies := ws\<rparr>)"
  by (auto simp: count_word_def rbind_Ok_iff)

lemma placements_counted:
  assumes "try_fold (count_placement r) ob pls = Ok ob'"
  shows "\<exists>u. ob' = ob\<lparr>ob_premium_use := u\<rparr>
    \<and> (\<forall>q. q \<noteq> Normal \<longrightarrow> premium_count u q = premium_count (ob_premium_use ob) q + count_list (map (premium_of r) pls) q)"
  using assms
proof (induction pls arbitrary: ob)
  case Nil
  then show ?case by (intro exI[of _ "ob_premium_use ob"]) simp
next
  case (Cons pl pls)
  obtain sq u where u: "board_square (gr_board (rs_game r)) (pl_coordinate pl) = Some sq"
    "add_premium (ob_premium_use ob) (bs_premium sq) = Ok u"
    "try_fold (count_placement r) (ob\<lparr>ob_premium_use := u\<rparr>) pls = Ok ob'"
    using Cons.prems by (auto simp: count_placement_Ok rbind_Ok_iff)
  obtain v where "ob' = ob\<lparr>ob_premium_use := v\<rparr>"
    "\<forall>q. q \<noteq> Normal \<longrightarrow> premium_count v q = premium_count u q + count_list (map (premium_of r) pls) q"
    using Cons.IH[OF u(3)] by auto
  moreover have "premium_of r pl = bs_premium sq" using u(1) by (simp add: premium_of_def)
  ultimately show ?case using add_premium_Ok[OF u(2)] by (intro exI[of _ v]) auto
qed

lemma add_word_Ok:
  assumes "add_word ws w n = Ok ws'" "words_ok ws" "valid_word w" "0 < n"
  shows "words_ok ws'" "word_count ws' v = word_count ws v + (if v = w then n else 0)"
proof -
  have ws': "ws' = btree_insert w (word_count ws w + n) ws"
    using assms(1) by (auto simp: add_word_def rbind_Ok_iff word_count_def)
  have ok: "btree_ok ws" "btree_ok ws'" using assms(2) ws' by (auto simp: words_ok_def intro: btree.ok_put)
  show "word_count ws' v = word_count ws v + (if v = w then n else 0)"
    using btree.get_put[OF ok(1)] by (simp add: ws' word_count_def)
  have "valid_word v \<and> 0 < k" if "(v, k) \<in> set ws'" for v k
  proof -
    have g: "btree_get ws' v = Some k" using that btree_get_Some[OF ok(2)] by simp
    show ?thesis
    proof (cases "v = w")
      case True
      then show ?thesis using g assms(3,4) btree.get_put[OF ok(1), of w _ v] by (auto simp: ws')
    next
      case False
      then have "(v, k) \<in> set ws" using g btree.get_put[OF ok(1), of w _ v] btree_get_Some[OF ok(1)] by (simp add: ws')
      then show ?thesis using assms(2) by (auto simp: words_ok_def)
    qed
  qed
  then show "words_ok ws'" using ok(2) by (auto simp: words_ok_def)
qed

lemma words_counted:
  assumes "try_fold count_word ob words = Ok ob'" "words_ok (ob_word_frequencies ob)"
  shows "\<exists>ws. ob' = ob\<lparr>ob_word_frequencies := ws\<rparr> \<and> words_ok ws
    \<and> (\<forall>w. word_count ws w = word_count (ob_word_frequencies ob) w + count_list (map fw_normalized words) w)"
  using assms
proof (induction words arbitrary: ob)
  case Nil
  then show ?case by (intro exI[of _ "ob_word_frequencies ob"]) simp
next
  case (Cons word words)
  obtain ws where ws: "valid_word (fw_normalized word)" "add_word (ob_word_frequencies ob) (fw_normalized word) 1 = Ok ws"
    "try_fold count_word (ob\<lparr>ob_word_frequencies := ws\<rparr>) words = Ok ob'"
    using Cons.prems(1) by (auto simp: count_word_Ok rbind_Ok_iff)
  note one = add_word_Ok[OF ws(2) Cons.prems(2) ws(1)]
  obtain vs where "ob' = ob\<lparr>ob_word_frequencies := vs\<rparr>" "words_ok vs"
    "\<forall>w. word_count vs w = word_count ws w + count_list (map fw_normalized words) w"
    using Cons.IH[OF ws(3)] one(1) by auto
  then show ?case using one(2) by (intro exI[of _ vs]) auto
qed

lemma two_at_Ok [outcome_elims]: "two_at p i = Ok x \<longleftrightarrow> (i = 0 \<and> x = fst p) \<or> (i = 1 \<and> x = snd p)"
  by (auto simp: two_at_def)

definition seat_of :: "nat \<Rightarrow> Seat" where
  "seat_of i = (if i = 0 then One else Two)"

lemma seat_index_two: "seat_index p = 0 \<longleftrightarrow> p = One" "seat_index p = Suc 0 \<longleftrightarrow> p = Two"
  by (cases p; simp)+

lemma tally_other:
  assumes "tally r p ks ob" "\<not> plays p k" "\<not> passes_turn p k" "\<not> exchanges_tiles p k"
  shows "tally r p (ks @ [k]) ob"
  using assms by (simp add: tally_def)

lemma tally_skipped:
  assumes "tally r p ks ob"
  shows "tally r p (ks @ [Passed p a b c]) (ob\<lparr>ob_passes := Suc (ob_passes ob)\<rparr>)"
    "tally r p (ks @ [Exchanged p a' b' c' d e f]) (ob\<lparr>ob_exchanges := Suc (ob_exchanges ob)\<rparr>)"
  using assms by (simp_all add: tally_def Let_def)

lemma tally_played:
  assumes "tally r p ks ob" "k = MovePlayed p pls ws bonus score a b c d e f h"
    "ob' = ob\<lparr>ob_scoring_moves := Suc (ob_scoring_moves ob), ob_move_score := ob_move_score ob + score,
       ob_bingos := ob_bingos ob + of_bool (0 < bonus)\<rparr>"
    "try_fold (count_placement r) ob' pls = Ok ob1" "try_fold count_word ob1 ws = Ok ob2"
  shows "tally r p (ks @ [k]) ob2"
proof -
  obtain u where u: "ob1 = ob'\<lparr>ob_premium_use := u\<rparr>"
    "\<forall>q. q \<noteq> Normal \<longrightarrow> premium_count u q = premium_count (ob_premium_use ob') q + count_list (map (premium_of r) pls) q"
    using placements_counted[OF assms(4)] by blast
  have "words_ok (ob_word_frequencies ob1)" using assms(1,3) u(1) by (simp add: tally_def Let_def)
  then obtain vs where v: "ob2 = ob1\<lparr>ob_word_frequencies := vs\<rparr>" "words_ok vs"
    "\<forall>w. word_count vs w = word_count (ob_word_frequencies ob1) w + count_list (map fw_normalized ws) w"
    using words_counted[OF assms(5)] by blast
  show ?thesis using assms(1-3) u v by (auto simp: tally_def Let_def count_list_append)
qed

lemma count_event_tally:
  assumes "count_event r obs k = Ok obs'" "tally r One ks (fst obs)" "tally r Two ks (snd obs)"
  shows "tally r One (ks @ [k]) (fst obs')" "tally r Two (ks @ [k]) (snd obs')"
proof -
  have other: "tally r One (ks @ [k]) (fst obs)" if "\<not> plays One k" "\<not> passes_turn One k" "\<not> exchanges_tiles One k"
    by (rule tally_other[OF assms(2) that])
  have other': "tally r Two (ks @ [k]) (snd obs)" if "\<not> plays Two k" "\<not> passes_turn Two k" "\<not> exchanges_tiles Two k"
    by (rule tally_other[OF assms(3) that])
  have both: "tally r One (ks @ [k]) (fst obs') \<and> tally r Two (ks @ [k]) (snd obs')"
  proof (cases k)
    case (MovePlayed p pls ws bonus score a b c d e f h)
    obtain ob bingos ob1 ob2 where s: "two_at obs (seat_index p) = (Ok ob :: StatisticsObservation stat)"
      "(if 0 < bonus then stat_add (ob_bingos ob) 1 else Ok (ob_bingos ob)) = Ok bingos"
      "try_fold (count_placement r) (ob\<lparr>ob_scoring_moves := ob_scoring_moves ob + 1, ob_move_score := ob_move_score ob + score,
         ob_bingos := bingos\<rparr>) pls = Ok ob1" "try_fold count_word ob1 ws = Ok ob2"
      "two_set obs (seat_index p) ob2 = (Ok obs' :: StatisticsObservation two stat)"
      using assms(1) unfolding MovePlayed count_event.simps by (auto simp only: rbind_Ok_iff stat_add_Ok)
    have b: "bingos = ob_bingos ob + of_bool (0 < bonus)" using s(2) by (auto split: if_splits)
    have t: "tally r p (ks @ [k]) ob2" if "tally r p ks ob"
      by (rule tally_played[OF that MovePlayed refl _ s(4)]) (use s(3) b in simp)
    from s(1) consider "p = One" "ob = fst obs" | "p = Two" "ob = snd obs" by (auto simp: two_at_Ok seat_index_two)
    then show ?thesis
    proof cases
      case 1
      then show ?thesis using s(5) t assms(2) other' MovePlayed by (auto simp: two_set_def)
    next
      case 2
      then show ?thesis using s(5) t assms(3) other MovePlayed by (auto simp: two_set_def)
    qed
  next
    case (Passed p a b c)
    then obtain ob where s: "two_at obs (seat_index p) = (Ok ob :: StatisticsObservation stat)"
      "two_set obs (seat_index p) (ob\<lparr>ob_passes := ob_passes ob + 1\<rparr>) = (Ok obs' :: StatisticsObservation two stat)"
      using assms(1) by (auto simp: rbind_Ok_iff)
    from s(1) consider "p = One" "ob = fst obs" | "p = Two" "ob = snd obs" by (auto simp: two_at_Ok seat_index_two)
    then show ?thesis by cases (use s(2) assms(2,3) other other' tally_skipped(1) Passed in \<open>auto simp: two_set_def\<close>)
  next
    case (Exchanged p a b c d e f)
    then obtain ob where s: "two_at obs (seat_index p) = (Ok ob :: StatisticsObservation stat)"
      "two_set obs (seat_index p) (ob\<lparr>ob_exchanges := ob_exchanges ob + 1\<rparr>) = (Ok obs' :: StatisticsObservation two stat)"
      using assms(1) by (auto simp: rbind_Ok_iff)
    from s(1) consider "p = One" "ob = fst obs" | "p = Two" "ob = snd obs" by (auto simp: two_at_Ok seat_index_two)
    then show ?thesis by cases (use s(2) assms(2,3) other other' tally_skipped(2) Exchanged in \<open>auto simp: two_set_def\<close>)
  qed (use assms other other' in simp_all)
  then show "tally r One (ks @ [k]) (fst obs')" "tally r Two (ks @ [k]) (snd obs')" by simp_all
qed

lemma events_tally:
  assumes "try_fold (\<lambda>obs event. count_event r obs (ge_kind event)) obs es = Ok obs'"
    "tally r One ks (fst obs)" "tally r Two ks (snd obs)"
  shows "tally r One (ks @ map ge_kind es) (fst obs') \<and> tally r Two (ks @ map ge_kind es) (snd obs')"
  using assms
proof (induction es arbitrary: obs ks)
  case (Cons e es)
  then obtain obs1 where o1: "count_event r obs (ge_kind e) = Ok obs1"
    "try_fold (\<lambda>obs event. count_event r obs (ge_kind event)) obs1 es = Ok obs'" by (auto simp: rbind_Ok_iff)
  show ?case using Cons.IH[OF o1(2) count_event_tally[OF o1(1) Cons.prems(2,3)]] by simp
qed simp

section \<open>Counting does not overflow\<close>

definition small :: "nat \<Rightarrow> StatisticsObservation \<Rightarrow> bool" where
  "small n ob \<longleftrightarrow> ob_scoring_moves ob \<le> n \<and> ob_move_score ob \<le> n \<and> ob_bingos ob \<le> n \<and> ob_passes ob \<le> n
     \<and> ob_exchanges ob \<le> n \<and> (\<forall>q. premium_count (ob_premium_use ob) q \<le> n)
     \<and> (\<forall>w. word_count (ob_word_frequencies ob) w \<le> n) \<and> words_ok (ob_word_frequencies ob)"

definition weight :: "GameEventKind \<Rightarrow> nat" where
  "weight k = 1 + kind_score k + length (kind_placements k) + length (kind_words k)"

definition countable_event :: "Ruleset \<Rightarrow> GameEventKind \<Rightarrow> bool" where
  "countable_event r k \<longleftrightarrow> (\<forall>p. plays p k \<or> passes_turn p k \<or> exchanges_tiles p k \<longrightarrow> p = One \<or> p = Two)
     \<and> list_all (\<lambda>pl. board_square (gr_board (rs_game r)) (pl_coordinate pl) \<noteq> None) (kind_placements k)
     \<and> list_all (\<lambda>w. valid_word (fw_normalized w)) (kind_words k)"

lemma small_mono: "small n ob \<Longrightarrow> n \<le> m \<Longrightarrow> small m ob"
  by (auto simp: small_def intro: le_trans)

lemma add_premium_small:
  assumes "\<forall>q. premium_count u q \<le> n" "Suc n < 2 ^ 64"
  shows "\<exists>u'. add_premium u p = Ok u' \<and> (\<forall>q. premium_count u' q \<le> Suc n)"
proof -
  have b: "premium_count u q + 1 < 2 ^ 64" for q using assms by (metis Suc_eq_plus1 Suc_le_mono le_less_trans)
  obtain u' where u': "add_premium u p = Ok u'"
    using b[of p] by (cases p) (auto simp: stat_add_small)
  have "premium_count u' q \<le> Suc n" for q
    using add_premium_Ok[OF u', of q] assms(1)[rule_format, of q] by (cases q) (auto simp: of_bool_def)
  then show ?thesis using u' by blast
qed

lemma placements_small:
  assumes "list_all (\<lambda>pl. board_square (gr_board (rs_game r)) (pl_coordinate pl) \<noteq> None) pls"
    "\<forall>q. premium_count (ob_premium_use ob) q \<le> n" "n + length pls < 2 ^ 64"
  shows "\<exists>u. try_fold (count_placement r) ob pls = Ok (ob\<lparr>ob_premium_use := u\<rparr>) \<and> (\<forall>q. premium_count u q \<le> n + length pls)"
  using assms
proof (induction pls arbitrary: ob n)
  case Nil
  then show ?case by (intro exI[of _ "ob_premium_use ob"]) simp
next
  case (Cons pl pls)
  obtain sq where sq: "board_square (gr_board (rs_game r)) (pl_coordinate pl) = Some sq" using Cons.prems(1) by auto
  obtain u where u: "add_premium (ob_premium_use ob) (bs_premium sq) = Ok u" "\<forall>q. premium_count u q \<le> Suc n"
    using add_premium_small[OF Cons.prems(2), of "bs_premium sq"] Cons.prems(3) by auto
  obtain v where "try_fold (count_placement r) (ob\<lparr>ob_premium_use := u\<rparr>) pls = Ok (ob\<lparr>ob_premium_use := v\<rparr>)"
    "\<forall>q. premium_count v q \<le> Suc n + length pls"
    using Cons.IH[of "ob\<lparr>ob_premium_use := u\<rparr>" "Suc n"] u(2) Cons.prems(1,3) by auto
  moreover have "count_placement r ob pl = Ok (ob\<lparr>ob_premium_use := u\<rparr>)" using u(1) sq by (simp add: count_placement_def)
  ultimately show ?case by (intro exI[of _ v]) simp
qed

lemma words_small:
  assumes "list_all (\<lambda>w. valid_word (fw_normalized w)) words" "words_ok (ob_word_frequencies ob)"
    "\<forall>w. word_count (ob_word_frequencies ob) w \<le> n" "n + length words < 2 ^ 64"
  shows "\<exists>ws. try_fold count_word ob words = Ok (ob\<lparr>ob_word_frequencies := ws\<rparr>) \<and> words_ok ws
    \<and> (\<forall>w. word_count ws w \<le> n + length words)"
  using assms
proof (induction words arbitrary: ob n)
  case Nil
  then show ?case by (intro exI[of _ "ob_word_frequencies ob"]) simp
next
  case (Cons word words)
  let ?w = "fw_normalized word"
  have "word_count (ob_word_frequencies ob) ?w + 1 < 2 ^ 64" using Cons.prems(3)[rule_format, of ?w] Cons.prems(4) by simp
  then obtain ws where ws: "add_word (ob_word_frequencies ob) ?w 1 = Ok ws"
    by (auto simp: add_word_def word_count_def stat_add_small)
  have one: "words_ok ws" "word_count ws v = word_count (ob_word_frequencies ob) v + (if v = ?w then 1 else 0)" for v
    using add_word_Ok[OF ws Cons.prems(2)] Cons.prems(1) by simp_all
  have le: "\<forall>w. word_count ws w \<le> Suc n" using one(2) Cons.prems(3) by (simp add: le_SucI)
  obtain vs where "try_fold count_word (ob\<lparr>ob_word_frequencies := ws\<rparr>) words = Ok (ob\<lparr>ob_word_frequencies := vs\<rparr>)" "words_ok vs"
    "\<forall>w. word_count vs w \<le> Suc n + length words"
    using Cons.IH[of "ob\<lparr>ob_word_frequencies := ws\<rparr>" "Suc n"] one(1) le Cons.prems(1,4) by auto
  moreover have "count_word ob word = Ok (ob\<lparr>ob_word_frequencies := ws\<rparr>)" using ws Cons.prems(1) by (simp add: count_word_def)
  ultimately show ?case by (intro exI[of _ vs]) simp
qed

lemma played_small:
  assumes "small n ob" "k = MovePlayed p pls ws bonus score a b c d e f h" "countable_event r k" "n + weight k < 2 ^ 64"
  shows "\<exists>ob1 ob2. try_fold (count_placement r) (ob\<lparr>ob_scoring_moves := Suc (ob_scoring_moves ob),
      ob_move_score := ob_move_score ob + score, ob_bingos := ob_bingos ob + of_bool (0 < bonus)\<rparr>) pls = Ok ob1
    \<and> try_fold count_word ob1 ws = Ok ob2 \<and> small (n + weight k) ob2"
proof -
  let ?ob = "ob\<lparr>ob_scoring_moves := Suc (ob_scoring_moves ob), ob_move_score := ob_move_score ob + score,
    ob_bingos := ob_bingos ob + of_bool (0 < bonus)\<rparr>"
  have pls: "list_all (\<lambda>pl. board_square (gr_board (rs_game r)) (pl_coordinate pl) \<noteq> None) pls"
    "list_all (\<lambda>w. valid_word (fw_normalized w)) ws" using assms(2,3) by (simp_all add: countable_event_def)
  have w: "weight k = 1 + score + length pls + length ws" using assms(2) by (simp add: weight_def)
  obtain u where u: "try_fold (count_placement r) ?ob pls = Ok (?ob\<lparr>ob_premium_use := u\<rparr>)"
    "\<forall>q. premium_count u q \<le> n + length pls"
    using placements_small[OF pls(1), of ?ob n] assms(1,4) w by (auto simp: small_def)
  obtain vs where v: "try_fold count_word (?ob\<lparr>ob_premium_use := u\<rparr>) ws = Ok (?ob\<lparr>ob_premium_use := u, ob_word_frequencies := vs\<rparr>)"
    "words_ok vs" "\<forall>w. word_count vs w \<le> n + length ws"
    using words_small[OF pls(2), of "?ob\<lparr>ob_premium_use := u\<rparr>" n] assms(1,4) w by (auto simp: small_def)
  have le: "a \<le> n + weight k" if "a \<le> n + length pls \<or> a \<le> n + length ws" for a using that w by auto
  have "small (n + weight k) (?ob\<lparr>ob_premium_use := u, ob_word_frequencies := vs\<rparr>)"
    using assms(1) v(2,3) u(2) le w by (auto simp: small_def)
  then show ?thesis using u(1) v(1) by blast
qed

lemma count_event_small:
  assumes "small n (fst obs)" "small n (snd obs)" "countable_event r k" "n + weight k < 2 ^ 64"
  shows "\<exists>obs'. count_event r obs k = Ok obs' \<and> small (n + weight k) (fst obs') \<and> small (n + weight k) (snd obs')"
proof -
  have up: "small (n + weight k) (fst obs)" "small (n + weight k) (snd obs)" using assms(1,2) by (auto intro: small_mono)
  have w: "n + 1 \<le> n + weight k" by (simp add: weight_def)
  obtain a b where obs: "obs = (a, b)" by (cases obs)
  have sm: "small n a" "small n b" using assms(1,2) obs by simp_all
  note seat = assms(3)[unfolded countable_event_def, THEN conjunct1, rule_format]
  show ?thesis
  proof (cases k)
    case (MovePlayed p pls ws bonus score a' b' c d e f h)
    have p: "p = One \<or> p = Two" using seat[of p] MovePlayed by simp
    have fits: "ob_scoring_moves ob + 1 < 2 ^ 64 \<and> ob_move_score ob + score < 2 ^ 64 \<and> ob_bingos ob + 1 < 2 ^ 64" if "small n ob" for ob
      using that assms(4) MovePlayed by (auto simp: small_def weight_def)
    show ?thesis using p played_small[OF sm(1) MovePlayed assms(3,4)] played_small[OF sm(2) MovePlayed assms(3,4)]
        fits[OF sm(1)] fits[OF sm(2)] up
      by (auto simp: MovePlayed obs two_at_def two_set_def of_bool_def stat_add_small split: if_splits)
  next
    case (Passed p x y z)
    then have p: "p = One \<or> p = Two" using seat[of p] by simp
    have "ob_passes ob + 1 < 2 ^ 64 \<and> small (n + weight k) (ob\<lparr>ob_passes := Suc (ob_passes ob)\<rparr>)" if "small n ob" for ob
      using that assms(4) Passed by (auto simp: small_def weight_def intro: le_SucI)
    then show ?thesis using p sm up by (auto simp: Passed obs two_at_def two_set_def stat_add_small)
  next
    case (Exchanged p x y z d e f)
    then have p: "p = One \<or> p = Two" using seat[of p] by simp
    have "ob_exchanges ob + 1 < 2 ^ 64 \<and> small (n + weight k) (ob\<lparr>ob_exchanges := Suc (ob_exchanges ob)\<rparr>)" if "small n ob" for ob
      using that assms(4) Exchanged by (auto simp: small_def weight_def intro: le_SucI)
    then show ?thesis using p sm up by (auto simp: Exchanged obs two_at_def two_set_def stat_add_small)
  qed (use up in simp_all)
qed

lemma events_small:
  assumes "small n (fst obs)" "small n (snd obs)" "list_all (countable_event r) (map ge_kind es)"
    "n + sum_list (map (weight \<circ> ge_kind) es) < 2 ^ 64"
  shows "\<exists>obs'. try_fold (\<lambda>obs event. count_event r obs (ge_kind event)) obs es = Ok obs'"
  using assms
proof (induction es arbitrary: obs n)
  case (Cons e es)
  obtain obs1 where o1: "count_event r obs (ge_kind e) = Ok obs1" "small (n + weight (ge_kind e)) (fst obs1)"
    "small (n + weight (ge_kind e)) (snd obs1)"
    using count_event_small[OF Cons.prems(1,2), of r "ge_kind e"] Cons.prems(3,4) by auto
  show ?case using Cons.IH[OF o1(2,3)] Cons.prems(3,4) o1(1) by (auto simp: add.assoc)
qed simp

section \<open>What derivation returns\<close>

text \<open>The identity and the outcome in an observation, which counting does not touch.\<close>

definition head :: "StatisticsObservation \<Rightarrow>
    nat \<times> string \<times> StatisticsScope \<times> (nat \<times> nat \<times> nat \<times> nat) \<times> int \<times> int \<times> int" where
  "head ob = (ob_schema_version ob, ob_source_id ob, ob_scope ob, (ob_games ob, ob_wins ob, ob_losses ob, ob_ties ob),
     ob_score_for ob, ob_score_against ob, ob_spread ob)"

definition core :: "StatisticsObservation \<Rightarrow> _" where
  "core ob = (head ob, ob_turn_latency_total_ms ob, ob_turn_latency_samples ob)"

lemma core_count: "count_event r obs k = Ok obs' \<Longrightarrow> core (fst obs') = core (fst obs) \<and> core (snd obs') = core (snd obs)"
proof (cases k)
  case (MovePlayed p pls ws bonus score a b c d e f h)
  assume "count_event r obs k = Ok obs'"
  then obtain ob m t bingos ob1 ob2 where s: "two_at obs (seat_index p) = (Ok ob :: StatisticsObservation stat)"
    "try_fold (count_placement r) (ob\<lparr>ob_scoring_moves := m, ob_move_score := t, ob_bingos := bingos\<rparr>) pls = Ok ob1"
    "try_fold count_word ob1 ws = Ok ob2" "two_set obs (seat_index p) ob2 = (Ok obs' :: StatisticsObservation two stat)"
    unfolding MovePlayed count_event.simps by (auto simp only: rbind_Ok_iff)
  have "core ob1 = core ob" using s(2)
    by (rule try_fold_invariant[where P = "\<lambda>x. core x = core ob"]) (auto simp: core_def head_def count_placement_Ok)
  moreover have "core ob2 = core ob1" using s(3)
    by (rule try_fold_invariant[where P = "\<lambda>x. core x = core ob1"]) (auto simp: core_def head_def count_word_Ok)
  ultimately show ?thesis using s(1,4) by (auto simp: two_at_Ok two_set_def split: if_splits)
qed (auto simp: rbind_Ok_iff two_at_Ok two_set_def core_def head_def split: if_splits)

lemma core_events:
  assumes "try_fold (\<lambda>obs event. count_event r obs (ge_kind event)) obs es = Ok obs'"
  shows "core (fst obs') = core (fst obs) \<and> core (snd obs') = core (snd obs)"
  using assms by (rule try_fold_invariant[where P = "\<lambda>x. core (fst x) = core (fst obs) \<and> core (snd x) = core (snd obs)"])
    (auto dest!: core_count)

definition metrics_ok :: "StatisticsObservation \<Rightarrow> bool" where
  "metrics_ok ob \<longleftrightarrow> list_all (\<lambda>m. validate_sourced m = Ok ()) [ob_turn_latency_total_ms ob, ob_turn_latency_samples ob,
     ob_tool_calls ob, ob_input_tokens ob, ob_output_tokens ob, ob_cost_microusd ob]
     \<and> sx_availability (ob_turn_latency_total_ms ob) = sx_availability (ob_turn_latency_samples ob)"

lemma tally_cong:
  assumes "tally r p ks ob" "ob_scoring_moves ob' = ob_scoring_moves ob" "ob_move_score ob' = ob_move_score ob"
    "ob_bingos ob' = ob_bingos ob" "ob_passes ob' = ob_passes ob" "ob_exchanges ob' = ob_exchanges ob"
    "ob_premium_use ob' = ob_premium_use ob" "ob_word_frequencies ob' = ob_word_frequencies ob"
  shows "tally r p ks ob'"
  using assms by (simp add: tally_def Let_def)

lemma validate_sourced_simps [simp]:
  "validate_sourced (stat_exact n) = Ok ()" "validate_sourced (stat_estimated n) = Ok ()"
  "validate_sourced stat_unavailable = Ok ()"
  by (simp_all add: validate_sourced_def stat_exact_def stat_estimated_def stat_unavailable_def)

lemma telemetry_Ok:
  assumes "apply_telemetry (ob\<lparr>ob_invalid_actions := n\<rparr>) t = Ok ob'" "validate_run t = Ok ()"
    "ob_turn_latency_total_ms ob = stat_unavailable" "ob_turn_latency_samples ob = stat_unavailable"
  shows "head ob' = head ob" "tally r p ks ob \<Longrightarrow> tally r p ks ob'" "metrics_ok ob'" "ob_invalid_actions ob' = n"
proof -
  have v: "validate_sourced (nr_tool_calls t) = Ok ()" "validate_sourced (nr_input_tokens t) = Ok ()"
    "validate_sourced (nr_output_tokens t) = Ok ()" "validate_sourced (nr_cost_microusd t) = Ok ()"
    using assms(2) by (auto simp: validate_run_def rbind_Ok_iff)
  obtain total samples where o': "ob' = ob\<lparr>ob_invalid_actions := n, ob_turn_latency_total_ms := total, ob_turn_latency_samples := samples,
      ob_tool_calls := nr_tool_calls t, ob_input_tokens := nr_input_tokens t, ob_output_tokens := nr_output_tokens t,
      ob_cost_microusd := nr_cost_microusd t\<rparr>"
    "validate_sourced total = Ok ()" "validate_sourced samples = Ok ()" "sx_availability total = sx_availability samples"
  proof (cases "nr_turn_durations_ms t")
    case None
    then show ?thesis using assms(1,3,4) by (intro that[where total = stat_unavailable and samples = stat_unavailable]) (auto simp: apply_telemetry_def)
  next
    case (Some ds)
    then obtain a b where "ob' = ob\<lparr>ob_invalid_actions := n, ob_turn_latency_total_ms := stat_exact a, ob_turn_latency_samples := stat_exact b,
      ob_tool_calls := nr_tool_calls t, ob_input_tokens := nr_input_tokens t, ob_output_tokens := nr_output_tokens t,
      ob_cost_microusd := nr_cost_microusd t\<rparr>" using assms(1) by (auto simp: apply_telemetry_def rbind_Ok_iff)
    then show ?thesis by (intro that[where total = "stat_exact a" and samples = "stat_exact b"]) (simp_all, simp add: stat_exact_def)
  qed
  show "head ob' = head ob" "ob_invalid_actions ob' = n" by (simp_all add: o'(1) head_def)
  show "metrics_ok ob'" using o'(2-) v by (simp add: o'(1) metrics_ok_def)
  show "tally r p ks ob'" if "tally r p ks ob" by (rule tally_cong[OF that]) (simp_all add: o'(1))
qed

text \<open>The heads of the two observations of a result.\<close>

definition outcome_head :: "env \<Rightarrow> MatchStatisticsInput \<Rightarrow> Ruleset \<Rightarrow> GameResult \<Rightarrow> nat \<Rightarrow> StatisticsParticipant \<Rightarrow>
    nat \<times> string \<times> StatisticsScope \<times> (nat \<times> nat \<times> nat \<times> nat) \<times> int \<times> int \<times> int" where
  "outcome_head E i r res index participant = (STATISTICS_SCHEMA_VERSION, observation_id (mi_source_id i) (index + 1),
     \<lparr>so_language = language_code (rs_language r), so_ruleset_id = ruleset_id_str (rs_id r),
      so_ruleset_sha256 = ri_content_sha256 (ruleset_identity E r), so_pack_id = pi_pack_id (rs_lexicon r),
      so_pack_version = pi_pack_version (rs_lexicon r), so_pack_sha256 = pi_content_sha256 (rs_lexicon r),
      so_agent_manifest_sha256 = pa_agent_manifest_sha256 participant, so_tournament_id = mi_tournament_id i,
      so_match_id = mi_match_id i, so_game_id = mi_game_id i, so_entrant_id = pa_entrant_id participant,
      so_seat_number = index + 1, so_finished_at = mi_finished_at i\<rparr>,
     (1, of_bool (res_winner res = Some (seat_of index)),
      of_bool (res_winner res \<noteq> None \<and> res_winner res \<noteq> Some (seat_of index)), of_bool (res_winner res = None)),
     res_scores res ! index, res_scores res ! (1 - index), res_scores res ! index - res_scores res ! (1 - index))"

lemma empty_observation_head:
  assumes "empty_observation E i index r res = Ok ob" "index = 0 \<or> index = 1"
    "res_winner res = None \<or> res_winner res = Some One \<or> res_winner res = Some Two"
  shows "head ob = outcome_head E i r res index (if index = 0 then fst (mi_participants i) else snd (mi_participants i))"
    "small 0 ob" "tally r' p [] ob" "ob_turn_latency_total_ms ob = stat_unavailable" "ob_turn_latency_samples ob = stat_unavailable"
proof -
  have q: "premium_count no_premiums q = 0" for q by (cases q) (simp_all add: no_premiums_def)
  have "try_from 8 (Suc index) = Some (Suc index)" using assms(2) by (auto simp: try_from_def)
  then show "head ob = outcome_head E i r res index (if index = 0 then fst (mi_participants i) else snd (mi_participants i))"
    using assms
    by (auto simp: empty_observation_def rbind_Ok_iff Let_def two_at_Ok stat_add_signed_def checked_add_signed_def head_def
        outcome_head_def seat_of_def split: if_splits)
  have z: "ob_scoring_moves ob = 0" "ob_move_score ob = 0" "ob_bingos ob = 0" "ob_passes ob = 0" "ob_exchanges ob = 0"
    "ob_premium_use ob = no_premiums" "ob_word_frequencies ob = []"
    "ob_turn_latency_total_ms ob = stat_unavailable" "ob_turn_latency_samples ob = stat_unavailable"
    using assms(1) by (auto simp: empty_observation_def rbind_Ok_iff Let_def)
  show "ob_turn_latency_total_ms ob = stat_unavailable" "ob_turn_latency_samples ob = stat_unavailable" by (fact z)+
  have w: "words_ok []" "word_count [] w = 0" for w by (simp_all add: words_ok_def btree.ok_empty word_count_def)
  show "small 0 ob" "tally r' p [] ob" by (simp_all add: small_def tally_def z q w)
qed

lemma validate_input_Ok:
  assumes "validate_input E i = Ok (r, res)"
  shows "mi_schema_version i = STATISTICS_SCHEMA_VERSION" "stat_valid_id (mi_source_id i)" "stat_valid_id (mi_match_id i)"
    "stat_valid_id (mi_game_id i)" "0 \<le> mi_finished_at i" "null_or stat_valid_id (mi_tournament_id i)"
    "pa_entrant_id (fst (mi_participants i)) \<noteq> pa_entrant_id (snd (mi_participants i))"
    "valid_participant (fst (mi_participants i))" "valid_participant (snd (mi_participants i))"
    "validate_run (fst (mi_telemetry i)) = Ok ()" "validate_run (snd (mi_telemetry i)) = Ok ()"
    "length (res_scores res) = 2"
    "expected_winner (res_reason res) (res_scores res ! 0) (res_scores res ! 1) = Ok (res_winner res)"
  using assms unfolding validate_input_def
  by (auto simp: rbind_Ok_iff split: if_splits list.splits GameEventKind.splits)

lemma winner_two:
  "expected_winner reason a b = Ok w \<Longrightarrow> w = None \<or> w = Some One \<or> w = Some Two"
  by (auto simp: expected_winner_def split: TerminalReason.splits Seat.splits if_splits)

lemma derive_Ok:
  assumes "derive E i = Ok (a, b)"
  obtains r res where "validate_input E i = Ok (r, res)"
    "head a = outcome_head E i r res 0 (fst (mi_participants i))" "head b = outcome_head E i r res 1 (snd (mi_participants i))"
    "tally r One (map ge_kind (mi_events i)) a" "tally r Two (map ge_kind (mi_events i)) b" "metrics_ok a" "metrics_ok b"
    "ob_invalid_actions a = fst (mi_invalid_attempts i)" "ob_invalid_actions b = snd (mi_invalid_attempts i)"
proof -
  obtain r res a0 b0 obs where s: "validate_input E i = Ok (r, res)"
    "empty_observation E i 0 r res = Ok a0" "empty_observation E i 1 r res = Ok b0"
    "try_fold (\<lambda>obs event. count_event r obs (ge_kind event)) (a0, b0) (mi_events i) = Ok obs"
    "apply_telemetry ((fst obs)\<lparr>ob_invalid_actions := fst (mi_invalid_attempts i)\<rparr>) (fst (mi_telemetry i)) = Ok a"
    "apply_telemetry ((snd obs)\<lparr>ob_invalid_actions := snd (mi_invalid_attempts i)\<rparr>) (snd (mi_telemetry i)) = Ok b"
    using assms by (auto simp: derive_def rbind_Ok_iff)
  note v = validate_input_Ok[OF s(1)]
  note e0 = empty_observation_head[OF s(2) disjI1[OF refl] winner_two[OF v(13)]]
    and e1 = empty_observation_head[OF s(3) disjI2[OF refl] winner_two[OF v(13)]]
  have h: "core (fst obs) = core a0 \<and> core (snd obs) = core b0" using core_events[OF s(4)] by simp
  have t: "tally r One (map ge_kind (mi_events i)) (fst obs) \<and> tally r Two (map ge_kind (mi_events i)) (snd obs)"
    using events_tally[OF s(4), of "[]"] e0(3) e1(3) by simp
  have l: "ob_turn_latency_total_ms (fst obs) = stat_unavailable" "ob_turn_latency_samples (fst obs) = stat_unavailable"
      "ob_turn_latency_total_ms (snd obs) = stat_unavailable" "ob_turn_latency_samples (snd obs) = stat_unavailable"
    using h e0(4,5) e1(4,5) by (simp_all add: core_def)
  note ta = telemetry_Ok[OF s(5) v(10) l(1,2)] and tb = telemetry_Ok[OF s(6) v(11) l(3,4)]
  show ?thesis
  proof (rule that[OF s(1)])
    show "head a = outcome_head E i r res 0 (fst (mi_participants i))" using ta(1) h e0(1) by (simp add: core_def)
    show "head b = outcome_head E i r res 1 (snd (mi_participants i))" using tb(1) h e1(1) by (simp add: core_def)
  qed (use ta(2-4) tb(2-4) t in blast)+
qed

end
