(* ===== verification/GameJournal.thy ===== *)
theory GameJournal
  imports Legality Progress Endgame
begin

text \<open>
  What the journal of a reachable game looks like to a reader of its public events: every event is
  public and made by a seat of the game, words are at most fifteen letters of A to Z, scores fit their
  type, no event but the last carries a result, and the last event carries the result of the game.
\<close>

section \<open>Words are short\<close>

lemma segment_short:
  assumes "axis dr dc" "in_bounds origin BOARD_SIZE BOARD_SIZE" "tile_with_proposed s pps origin \<noteq> None"
    "word_segment s pps origin dr dc = Ok cs"
  shows "length cs \<le> 15"
proof -
  let ?at = "step_at dr dc (int (row origin)) (int (column origin))"
  obtain a b where w: "cs = map (\<lambda>k. the (?at k)) [- int a..int b]"
    "\<forall>k \<in> {- int a..int b}. filled (\<lambda>c. tile_with_proposed s pps c \<noteq> None) (?at k)"
    using word_segment_run[OF assms(1-3)] assms(4) by auto
  obtain q where q: "?at (- int a) = Some q" using w(2)[rule_format, of "- int a"] by (auto simp: filled_def split: option.splits)
  obtain q' where q': "?at (int b) = Some q'" using w(2)[rule_format, of "int b"] by (auto simp: filled_def split: option.splits)
  show ?thesis using step_at_bounds[OF assms(1) q] step_at_bounds[OF assms(1) q'] w(1) by simp
qed

lemma segments_short:
  assumes "\<And>c dr dc. (c, dr, dc) \<in> set os \<Longrightarrow> axis dr dc \<and> live_square s pps c"
    "push_segments s pps ws os = Ok css" "list_all (\<lambda>cs. length cs \<le> 15) ws"
  shows "list_all (\<lambda>cs. length cs \<le> 15) css \<and> length css \<le> length ws + length os"
  using assms
proof (induction os arbitrary: ws)
  case (Cons x os)
  obtain c dr dc where x: "x = (c, dr, dc)" by (cases x) auto
  have l: "axis dr dc" "live_square s pps c" using Cons.prems(1)[of c dr dc] x by simp_all
  obtain cs where cs: "word_segment s pps c dr dc = Ok cs" "push_segments s pps (push_if_word ws cs) os = Ok css"
    using Cons.prems(2) x by (auto simp: push_segments_def rbind_Ok_iff)
  have short: "length cs \<le> 15" using segment_short[OF l(1) _ _ cs(1)] l(2) by simp
  have "list_all (\<lambda>cs. length cs \<le> 15) (push_if_word ws cs)" using Cons.prems(3) short by (simp add: push_if_word_def)
  from Cons.IH[OF Cons.prems(1) cs(2) this] show ?case by (force simp: push_if_word_def split: if_splits)
qed (simp add: push_segments_def)

lemma words_short:
  assumes "ps \<noteq> []" "\<And>p. p \<in> set ps \<Longrightarrow> in_bounds (pl_coordinate p) BOARD_SIZE BOARD_SIZE"
    "formed_word_coordinates s ps o' ps = Ok css"
  shows "list_all (\<lambda>cs. length cs \<le> 15) css" "length css \<le> Suc (length ps)"
proof -
  have hd: "ps ! 0 \<in> set ps" using assms(1) by simp
  have pre: "axis dr dc \<and> live_square s ps c" if "(c, dr, dc) \<in> set (word_origins o' (ps ! 0) ps)" for c dr dc
    using that assms(2) hd proposed_live by (cases o') (auto simp: axis_def word_origins_def)
  obtain ws where ws: "push_segments s ps [] (word_origins o' (ps ! 0) ps) = Ok ws" "css = retain_first ws"
    using assms(1,3) by (auto simp: formed_word_coordinates_def rbind_Ok_iff)
  have "length (word_origins o' (ps ! 0) ps) \<le> Suc (length ps)"
    using assms(1) by (cases o'; cases ps) (auto simp: word_origins_def)
  moreover have "list_all (\<lambda>cs. length cs \<le> 15) ws \<and> length ws \<le> 0 + length (word_origins o' (ps ! 0) ps)"
    using segments_short[OF pre ws(1)] by simp
  moreover have "length (retain_first ws) \<le> length ws" "set (retain_first ws) = set ws"
    using length_remdups_leq[of "rev ws"] by (simp_all add: retain_first_def)
  ultimately show "list_all (\<lambda>cs. length cs \<le> 15) css" "length css \<le> Suc (length ps)"
    using ws(2) by (simp_all add: list_all_iff)
qed

lemma prepared_words:
  assumes ix: "seat_index p < length (g_racks g)" and pr: "prepare_placement E g p ps = Ok pr"
  shows "list_all (\<lambda>w. length (fw_coordinates w) \<le> 15) (pr_words pr)" "length (pr_words pr) \<le> Suc (length (pr_placements pr))"
proof -
  obtain qs o' where q: "finish_placement E g (g_racks g ! seat_index p) o' (sort_placements o' qs) = Ok pr"
    using pr unfolding prepare_placement_Ok[OF ix] by blast
  let ?ps = "sort_placements o' qs"
  have xs: "pr_placements pr = ?ps" by (rule finish_placement_fields(1)[OF q])
  have ne: "?ps \<noteq> []" using prepared_nonempty[OF assms] xs by simp
  have ib: "in_bounds (pl_coordinate x) BOARD_SIZE BOARD_SIZE" if "x \<in> set ?ps" for x
    using prepared_legal(1)[OF assms] that xs by (auto simp: list_all_iff own_placement_def)
  obtain css total where f: "formed_word_coordinates (g_state g) ?ps o' ?ps = Ok css"
    and t: "try_fold (score_word E g ?ps) ([], 0) css = Ok (pr_words pr, total)"
    using q unfolding finish_placement_def Let_def
    by (auto elim!: rbind_OkE case_prod_OkE simp: checked_add_def split: if_splits)
  have l2: "list_all2 (\<lambda>cs w. validate_word E g ?ps cs = Ok w) css (pr_words pr)" using score_words_Ok[OF t] by auto
  show "length (pr_words pr) \<le> Suc (length (pr_placements pr))"
    using words_short(2)[OF ne ib f] list_all2_lengthD[OF l2] xs by simp
  have "length (fw_coordinates w) \<le> 15" if w: "w \<in> set (pr_words pr)" for w
  proof -
    obtain cs where cs: "cs \<in> set css" "validate_word E g ?ps cs = Ok w" using list_all2_right_mem[OF l2 w] by blast
    then show ?thesis using words_short(1)[OF ne ib f] validate_word_Ok[OF cs(2)] by (auto simp: list_all_iff)
  qed
  then show "list_all (\<lambda>w. length (fw_coordinates w) \<le> 15) (pr_words pr)" by (simp add: list_all_iff)
qed

lemma board_tile_word:
  assumes "tiles_ok E g" "tile_at (g_state g) c = Some t"
  shows "board_word (bt_letter t) \<and> length (bt_letter t) = 1"
proof -
  obtain B where B: "traverse (physical_tile (g_ruleset g) E) (board_tiles (gs_board (g_state g))) = Ok B"
    using assms(1) by (auto simp: tiles_ok_iff physical_board_def)
  have "Some t \<in> set (gs_board (g_state g))"
    using assms(2) by (auto simp: tile_at_def list_get_def split: if_splits dest: nth_mem)
  then have t: "t \<in> set (board_tiles (gs_board (g_state g)))" by (force simp: board_tiles_def map_filter_def)
  obtain k where k: "k < length (board_tiles (gs_board (g_state g)))" "t = board_tiles (gs_board (g_state g)) ! k"
    using t by (auto simp: in_set_conv_nth)
  obtain y where "physical_tile (g_ruleset g) E t = Ok y"
    using B k unfolding traverse_Ok_iff list_all2_conv_all_nth by auto
  then obtain l where "canonical_tile_token E (profile_of (g_ruleset g)) (bt_letter t) = Ok l" "l = bt_letter t"
    by (auto simp: physical_tile_def rbind_Ok_iff split: if_splits)
  then show ?thesis using canonical_token_word by blast
qed

lemma prepared_letters:
  assumes ix: "seat_index p < length (g_racks g)" and pr: "prepare_placement E g p ps = Ok pr" and "unicode_ok E"
    and "tiles_ok E g" and "tile_with_proposed (g_state g) (pr_placements pr) c = Some r"
  shows "board_word (ref_letter r) \<and> length (ref_letter r) = 1"
proof (cases r)
  case (Proposed q)
  then have "q \<in> set (pr_placements pr)"
    using assms(5) by (auto simp: tile_with_proposed_def proposed_get_def split: option.splits dest: find_Some_mem)
  then obtain l where "q = q\<lparr>pl_tile := (pl_tile q)\<lparr>tl_letter := l\<rparr>\<rparr>"
    "canonical_tile_token E (profile_of (g_ruleset g)) (tl_letter (pl_tile q)) = Ok l"
    using prepared_facts(2)[OF ix pr assms(3)] unfolding placeable_def by blast
  then have "tl_letter (pl_tile q) = l \<and> board_word l \<and> length l = 1"
    using canonical_token_word by (metis Placement.select_convs(3) Placement.surjective Placement.update_convs(3) Tile.select_convs(1) Tile.surjective Tile.update_convs(1))
  then show ?thesis using Proposed by simp
next
  case (Board t)
  then have "tile_at (g_state g) c = Some t"
    using assms(5) by (auto simp: tile_with_proposed_def split: option.splits)
  then show ?thesis using board_tile_word[OF assms(4)] Board by simp
qed

lemma concat_letters:
  assumes "\<And>c. c \<in> set cs \<Longrightarrow> board_word (f c) \<and> length (f c) = 1" "cs \<noteq> []"
  shows "board_word (concat (map f cs)) \<and> length (concat (map f cs)) = length cs"
proof -
  have "length (concat (map f cs)) = length cs" "list_all ascii_upper (concat (map f cs))"
    using assms(1) by (induction cs) (auto simp: board_word_def)
  then show ?thesis using assms(2) unfolding board_word_def by (metis length_0_conv)
qed

definition short_word :: "string \<Rightarrow> bool" where
  "short_word w \<longleftrightarrow> board_word w \<and> length w \<le> 15"

lemma prepared_short_words:
  assumes inv: "table_ok g" "tiles_ok E g" and uni: "unicode_ok E" and ix: "seat_index p < length (g_racks g)"
    and pr: "prepare_placement E g p ps = Ok pr"
  shows "list_all (\<lambda>w. short_word (fw_normalized w)) (pr_words pr)"
proof -
  have "short_word (fw_normalized w)" if w: "w \<in> set (pr_words pr)" for w
  proof -
    have ok: "word_ok E g (pr_placements pr) w" using prepared_legal(8)[OF ix pr] w by (simp add: list_all_iff)
    have len: "length (fw_coordinates w) \<le> 15" using prepared_words(1)[OF ix pr] w by (simp add: list_all_iff)
    have ltr: "board_word (ref_letter (the (tile_with_proposed (g_state g) (pr_placements pr) c)))
        \<and> length (ref_letter (the (tile_with_proposed (g_state g) (pr_placements pr) c))) = 1"
      if "c \<in> set (fw_coordinates w)" for c
      using ok that prepared_letters[OF ix pr uni inv(2)] formed_word_occupied by (fastforce simp: word_ok_def)
    have letters: "board_word (fw_text w) \<and> length (fw_text w) = length (fw_coordinates w)"
      using concat_letters[OF ltr] ok formed_word_length[of _ _ "fw_coordinates w"] by (force simp: word_ok_def word_text_def)
    obtain i where "g_ruleset g = the_builtin i" using inv(1) table_ok_builtin by blast
    then have "implemented_profile (profile_of (g_ruleset g))" using builtin_profile by (simp add: profile_of_def)
    then have "normalize_key E (profile_of (g_ruleset g)) (fw_text w) = Ok (fw_text w)"
      using normalize_key_fixpoint[OF uni] letters by blast
    then show ?thesis using ok len letters by (auto simp: word_ok_def short_word_def)
  qed
  then show ?thesis by (simp add: list_all_iff)
qed

section \<open>Sizes of a placement\<close>

lemma prepared_size:
  assumes inv: "table_ok g" "tiles_ok E g" and ix: "seat_index p < length (g_racks g)"
    and pr: "prepare_placement E g p ps = Ok pr"
  shows "length (pr_placements pr) \<le> 7"
proof -
  let ?rack = "g_racks g ! seat_index p"
  have "set (map pl_tile_id (pr_placements pr)) \<subseteq> pt_id ` set ?rack"
    using prepared_legal(1)[OF ix pr] unfolding list_all_iff own_placement_def by force
  then have "card (set (map pl_tile_id (pr_placements pr))) \<le> card (pt_id ` set ?rack)" by (intro card_mono) auto
  also have "\<dots> \<le> length ?rack" using card_image_le[of "set ?rack" pt_id] card_length[of ?rack] by simp
  finally show ?thesis
    using distinct_card[OF prepared_legal(2)[OF ix pr]] table_ok_rack[OF inv(1) ix] by simp
qed

lemma play_score_bound:
  assumes "play_tiles E g p v ps = Ok (g', ev)" "prepare_placement E g p ps = Ok pr"
  shows "pr_score pr < 2 ^ 31"
  using assms unfolding play_tiles_def by (auto elim!: rbind_OkE simp: signed_range_def)

section \<open>Scores stay in range\<close>

lemma in_range_update: "list_all (signed_range 32) xs \<Longrightarrow> signed_range 32 y \<Longrightarrow> list_all (signed_range 32) (xs[i := y])"
  by (auto simp: list_all_iff dest!: set_update_subset_insert[THEN subsetD])

lemma score_add_range: "score_checked_add s d = Some t \<Longrightarrow> signed_range 32 t"
  by (simp add: score_checked_add_def checked_add_signed_def split: if_splits)

lemma final_scores_range:
  assumes "final_scores r scores racks active reason = Ok scores'" "list_all (signed_range 32) scores"
  shows "list_all (signed_range 32) scores'"
proof (cases reason)
  case (Resignation s)
  then show ?thesis using assms by (simp add: final_scores_def)
next
  case ScorelessTurns
  then have "try_fold (deduct_only r racks) scores active = Ok scores'" using assms(1) by (simp add: final_scores_def)
  then show ?thesis by (rule try_fold_invariant)
    (use assms(2) in \<open>auto simp: deduct_only_def rbind_Ok_iff intro!: in_range_update dest: score_add_range\<close>)
next
  case (RackEmptied out)
  then obtain acc t where acc: "try_fold (deduct r racks) (scores, 0) (filter (\<lambda>s. s \<noteq> out) active) = Ok acc"
    "scores' = (fst acc)[seat_index out := t]" "signed_range 32 t"
    using assms(1) by (auto simp: final_scores_def rbind_Ok_iff dest: score_add_range)
  from acc(1) have "list_all (signed_range 32) (fst acc)"
    by (rule try_fold_invariant[where P = "\<lambda>acc. list_all (signed_range 32) (fst acc)"])
      (use assms(2) in \<open>auto simp: deduct_def rbind_Ok_iff intro!: in_range_update dest: score_add_range\<close>)
  then show ?thesis using acc(2,3) by (simp add: in_range_update)
qed

lemma games_bound:
  assumes "reachable E g" "unicode_ok E"
  shows "gs_version (g_state g) \<le> 619"
  using reachable_length_ok[OF assms] placed_bound[OF reachable_inv[OF assms(1)]] by (auto simp: length_ok_def split: if_splits)

end
