(* ===== verification/StatisticsGames.thy ===== *)
theory StatisticsGames
  imports StatisticsFacts GameJournal
begin

text \<open>
  The journals of the engine are what \<^verbatim>\<open>derive\<close> expects. \<open>journal_fits\<close> is an invariant of reachable
  games; from it every check of \<^verbatim>\<open>MatchStatisticsInput::validate\<close> passes on a finished game of two seats,
  and no counter overflows: a game has at most 619 moves and a move scores less than two to the 31.
\<close>

section \<open>Journals\<close>

definition event_fits :: "nat \<Rightarrow> GameEvent \<Rightarrow> bool" where
  "event_fits n e \<longleftrightarrow> ge_visibility e = Public \<and> event_result_is_consistent (ge_kind e)
     \<and> (\<forall>p. plays p (ge_kind e) \<or> passes_turn p (ge_kind e) \<or> exchanges_tiles p (ge_kind e) \<longrightarrow> seat_index p < n)
     \<and> list_all (\<lambda>pl. in_bounds (pl_coordinate pl) BOARD_SIZE BOARD_SIZE) (kind_placements (ge_kind e))
     \<and> list_all (\<lambda>w. short_word (fw_normalized w)) (kind_words (ge_kind e))
     \<and> weight (ge_kind e) \<le> 2 ^ 31 + 16"

definition result_fits :: "Game \<Rightarrow> GameResult \<Rightarrow> bool" where
  "result_fits g res \<longleftrightarrow> res_game_id res = gs_game_id (g_state g) \<and> res_ruleset_id res = gs_ruleset_id (g_state g)
     \<and> res_lexicon res = gs_lexicon (g_state g)
     \<and> (\<forall>active. seat_active (length (g_racks g)) = Some active \<longrightarrow>
          res_winner res = winner_of (res_scores res) active (res_reason res))
     \<and> (\<forall>p. res_reason res = Resignation p \<longrightarrow> seat_index p < length (g_racks g))"

definition journal_fits :: "Game \<Rightarrow> bool" where
  "journal_fits g \<longleftrightarrow>
     (\<exists>e es mode rng com counts bc. g_events g = e # es \<and> ge_kind e = Created (gs_game_id (g_state g)) (g_ruleset g) mode rng com counts bc)
     \<and> list_all (event_fits (length (g_racks g))) (g_events g)
     \<and> map (event_result \<circ> ge_kind) (g_events g) = replicate (gs_version (g_state g)) None @ [gs_result (g_state g)]
     \<and> (\<forall>res. gs_result (g_state g) = Some res \<longrightarrow> result_fits g res)
     \<and> list_all (signed_range 32) (gs_scores (g_state g))"

lemma completed:
  assumes c: "complete_when b g st racks reason = Ok (res, st')" and st: "gs_phase st = Active" "gs_result st = None"
    and rng: "list_all (signed_range 32) (gs_scores st)"
  shows "gs_result st' = res" "list_all (signed_range 32) (gs_scores st')"
    "res = Some r \<Longrightarrow> res_reason r = reason \<and> res_game_id r = gs_game_id (g_state g) \<and> res_ruleset_id r = gs_ruleset_id st
       \<and> res_lexicon r = gs_lexicon st
       \<and> (\<forall>active. seat_active (length racks) = Some active \<longrightarrow> res_winner r = winner_of (res_scores r) active reason)"
proof -
  show "gs_result st' = res" by (rule complete_when_end(2)[OF c st])
  show "list_all (signed_range 32) (gs_scores st')"
    using c rng by (auto simp: complete_when_def complete_state_def rbind_Ok_iff Let_def dest: final_scores_range split: if_splits)
  show "res_reason r = reason \<and> res_game_id r = gs_game_id (g_state g) \<and> res_ruleset_id r = gs_ruleset_id st
       \<and> res_lexicon r = gs_lexicon st
       \<and> (\<forall>active. seat_active (length racks) = Some active \<longrightarrow> res_winner r = winner_of (res_scores r) active reason)"
    if "res = Some r"
    using c that by (auto simp: complete_when_def complete_state_def rbind_Ok_iff Let_def split: if_splits)
qed

lemma journal_step:
  assumes j: "journal_fits g" and none: "gs_result (g_state g) = None" and log: "log_step g ev g'"
    and n: "length (g_racks g') = length (g_racks g)" and ev: "event_fits (length (g_racks g)) ev"
    and res: "event_result (ge_kind ev) = gs_result (g_state g')"
    and fits: "\<And>r. gs_result (g_state g') = Some r \<Longrightarrow> result_fits g' r"
    and rng: "list_all (signed_range 32) (gs_scores (g_state g'))"
  shows "journal_fits g'"
proof -
  have l: "g_events g' = g_events g @ [ev]" "gs_version (g_state g') = Suc (gs_version (g_state g))"
    "gs_game_id (g_state g') = gs_game_id (g_state g)" "g_ruleset g' = g_ruleset g" using log by (simp_all add: log_step_def)
  obtain e es mode rng com counts bc where c: "g_events g = e # es"
    "ge_kind e = Created (gs_game_id (g_state g)) (g_ruleset g) mode rng com counts bc" using j unfolding journal_fits_def by blast
  have "g_events g' = e # (es @ [ev])" using l(1) c(1) by simp
  moreover have "ge_kind e = Created (gs_game_id (g_state g')) (g_ruleset g') mode rng com counts bc" using c(2) l(3,4) by simp
  moreover have "map (event_result \<circ> ge_kind) (g_events g') = replicate (gs_version (g_state g')) None @ [gs_result (g_state g')]"
    using j none l(1,2) res by (simp add: journal_fits_def replicate_append_same)
  moreover have "list_all (event_fits (length (g_racks g'))) (g_events g')" using j ev n l(1) by (simp add: journal_fits_def)
  ultimately show ?thesis using fits rng unfolding journal_fits_def by blast
qed

lemma game_step_journal:
  assumes inv: "game_inv E g" and uni: "unicode_ok E" and s: "game_step E g ev g'" and j: "journal_fits g"
  shows "journal_fits g'"
proof -
  have ok: "table_ok g" "tiles_ok E g" "end_ok g" using inv by (simp_all add: game_inv_def)
  note log = game_step_log[OF s]
  have act: "gs_phase (g_state g) = Active" using log by (simp add: log_step_def)
  then have none: "gs_result (g_state g) = None" using ok(3) by (simp add: end_ok_def)
  have rng: "list_all (signed_range 32) (gs_scores (g_state g))" using j by (simp add: journal_fits_def)
  have cur: "seat_index (gs_current_player (g_state g)) < length (g_racks g)" using ok(1) by (simp add: table_ok_def)
  note js = journal_step[OF j none log]
  from s show ?thesis
  proof (rule game_stepE)
    fix p v assume "pass g p v = Ok (g', ev)"
    then show ?thesis
    proof (rule pass_shape, goal_cases)
      case (1 ver q sl st0 res st)
      note c = completed[OF 1(8), unfolded 1(7)] and f = complete_when_frame[OF 1(8)]
      show ?case by (rule js) (use 1 act none rng cur c f in \<open>auto simp: event_fits_def weight_def result_fits_def null_or_def split: option.splits\<close>)
    qed
  next
    fix p v assume "resign g p v = Ok (g', ev)"
    then show ?thesis
    proof (rule resign_shape, goal_cases)
      case (1 ver res st)
      note c = completed[OF complete_state_frame[OF 1(5)]] and f = complete_when_frame[OF complete_state_frame[OF 1(5)]]
      show ?case by (rule js) (use 1 act none rng cur c f in \<open>auto simp: event_fits_def weight_def result_fits_def\<close>)
    qed
  next
    fix p v ids assume "exchange_tiles E g p v ids = Ok (g', ev)"
    then show ?thesis
    proof (rule exchange_shape, goal_cases)
      case (1 rack returned ver rest drawn racks' bag' q sl counts bag_count after st0 res st u)
      note c = completed[OF 1(20), unfolded 1(18)] and f = complete_when_frame[OF 1(20)]
      have n: "length racks' = length (g_racks g)" using 1(11) by simp
      have "gs_result st = res" "list_all (signed_range 32) (gs_scores st)" using c(1,2) act none rng by simp_all
      moreover have "result_fits g' r \<and> res_reason r = ScorelessTurns" if "res = Some r" for r
        using c(3)[OF _ _ _ that] act none rng f n 1(18,22) by (simp add: result_fits_def)
      ultimately show ?case by (intro js) (use 1(2,21,22) cur n in \<open>auto simp: event_fits_def weight_def null_or_def split: option.splits\<close>)
    qed
  next
    fix p v ps assume play: "play_tiles E g p v ps = Ok (g', ev)"
    then show ?thesis
    proof (rule play_shape, goal_cases)
      case (1 pr score upd ver sl rack retained refill bag' drawn racks' board' scores' q counts bag_count
        after draw_count st0 res st u)
      note c = completed[OF 1(25)] and f = complete_when_frame[OF 1(25)]
      have n: "length racks' = length (g_racks g)" using 1(15) by simp
      have rng0: "gs_phase st0 = Active" "gs_result st0 = None" "list_all (signed_range 32) (gs_scores st0)"
        using 1(7,17,23) act none in_range_update[OF rng] score_add_range by simp_all
      have r: "gs_result st = res" "list_all (signed_range 32) (gs_scores st)" using c(1,2)[OF rng0] by simp_all
      have rf: "result_fits g' r \<and> (res_reason r = ScorelessTurns \<or> res_reason r = RackEmptied p)" if "res = Some r" for r
        using c(3)[OF rng0 that] f n 1(23,27) by (auto simp: result_fits_def split: if_splits)
      have "weight (ge_kind ev) \<le> 2 ^ 31 + 16"
        using play_score_bound[OF play 1(4)] prepared_size[OF ok(1,2) 1(10,4)] prepared_words(2)[OF 1(10,4)] 1(26)
        by (simp add: weight_def)
      moreover have "list_all (\<lambda>pl. in_bounds (pl_coordinate pl) BOARD_SIZE BOARD_SIZE) (pr_placements pr)"
        using prepared_legal(1)[OF 1(10,4)] by (auto simp: list_all_iff own_placement_def)
      moreover have "event_result_is_consistent (ge_kind ev)"
        using rf 1(26) by (cases res) (auto simp: null_or_def split: TerminalReason.splits)
      ultimately have "event_fits (length (g_racks g)) ev"
        using prepared_short_words[OF ok(1,2) uni 1(10,4)] 1(10,26) by (simp add: event_fits_def)
      then show ?case by (intro js) (use r rf 1(26,27) n in auto)
    qed
  qed
qed

lemma reachable_journal:
  assumes "reachable E g" "unicode_ok E"
  shows "journal_fits g"
  using assms
proof (induction rule: reachable.induct)
  case (reach_create gid r lexicon seed mode n g)
  then show ?case
    by (auto simp: create_with_mode_and_players_def rbind_Ok_iff Let_def journal_fits_def event_fits_def weight_def
        signed_range_def list_all_iff)
next
  case (reach_step g ev g')
  then show ?case using game_step_journal reachable_inv by blast
qed

section \<open>Validation of a journal\<close>

lemma journal_length: "game_inv E g \<Longrightarrow> length (g_events g) = Suc (gs_version (g_state g))"
  by (metis game_inv_def log_ok_def length_map length_upt diff_zero)

definition metadata_ok :: "MatchStatisticsInput \<Rightarrow> bool" where
  "metadata_ok i \<longleftrightarrow> mi_schema_version i = STATISTICS_SCHEMA_VERSION \<and> stat_valid_id (mi_source_id i)
     \<and> stat_valid_id (mi_match_id i) \<and> stat_valid_id (mi_game_id i) \<and> 0 \<le> mi_finished_at i
     \<and> null_or stat_valid_id (mi_tournament_id i)
     \<and> pa_entrant_id (fst (mi_participants i)) \<noteq> pa_entrant_id (snd (mi_participants i))
     \<and> valid_participant (fst (mi_participants i)) \<and> valid_participant (snd (mi_participants i))
     \<and> validate_run (fst (mi_telemetry i)) = Ok () \<and> validate_run (snd (mi_telemetry i)) = Ok ()
     \<and> null_or (\<lambda>ds. sum_list ds < 2 ^ 64) (nr_turn_durations_ms (fst (mi_telemetry i)))
     \<and> null_or (\<lambda>ds. sum_list ds < 2 ^ 64) (nr_turn_durations_ms (snd (mi_telemetry i)))"

lemma check_open_events:
  assumes "list_all (\<lambda>e. ge_visibility e = Public \<and> ge_lexicon e = lexicon \<and> event_result_is_consistent (ge_kind e)
      \<and> event_result (ge_kind e) = None) es"
    "map ge_sequence es = [k..<k + length es]" "k + length es < 2 ^ 64"
  shows "try_fold (check_event n lexicon) (None, k) es = Ok (None, k + length es)"
  using assms
proof (induction es arbitrary: k)
  case (Cons e es)
  have "[k..<k + length (e # es)] = k # [Suc k..<Suc k + length es]" by (simp add: upt_rec)
  then have q: "ge_sequence e = k" "map ge_sequence es = [Suc k..<Suc k + length es]" using Cons.prems(2) by simp_all
  have "check_event n lexicon (None, k) e = Ok (None, Suc k)"
    using Cons.prems(1,3) q(1) by (auto simp: check_event_def try_from_def)
  then show ?case using Cons.IH[of "Suc k"] Cons.prems(1,3) q(2) by simp
qed simp

lemma check_journal:
  assumes inv: "game_inv E g" and j: "journal_fits g" and res: "gs_result (g_state g) = Some res"
    and v: "gs_version (g_state g) < 2 ^ 63"
  shows "try_fold (check_event (length (g_events g)) (rs_lexicon (g_ruleset g))) (None, 0) (g_events g)
    = Ok (Some res, length (g_events g))"
proof -
  let ?n = "gs_version (g_state g)"
  have seq: "map ge_sequence (g_events g) = [0..<Suc ?n]"
    and lexicon: "list_all (\<lambda>e. ge_lexicon e = rs_lexicon (g_ruleset g)) (g_events g)"
    using inv by (auto simp: game_inv_def log_ok_def ident_ok_def)
  note len = journal_length[OF inv]
  obtain es e where ev: "g_events g = es @ [e]" using len by (metis append_butlast_last_id length_0_conv nat.distinct(1))
  have n: "length es = ?n" using len ev by simp
  have fits: "list_all (event_fits (length (g_racks g))) (g_events g)"
    "map (event_result \<circ> ge_kind) (g_events g) = replicate ?n None @ [Some res]"
    using j res by (simp_all add: journal_fits_def)
  have r: "map (event_result \<circ> ge_kind) es = replicate ?n None" "event_result (ge_kind e) = Some res"
    using fits(2) ev n by simp_all
  have "event_result (ge_kind x) = None" if "x \<in> set es" for x
    using r(1) that by (metis comp_apply image_eqI in_set_replicate list.set_map)
  then have open': "list_all (\<lambda>e. ge_visibility e = Public \<and> ge_lexicon e = rs_lexicon (g_ruleset g)
      \<and> event_result_is_consistent (ge_kind e) \<and> event_result (ge_kind e) = None) es"
    using fits(1) lexicon ev by (auto simp: list_all_iff event_fits_def)
  have sq: "map ge_sequence es = [0..<0 + length es]" "ge_sequence e = ?n" using seq ev n by simp_all
  have "try_fold (check_event (length (g_events g)) (rs_lexicon (g_ruleset g))) (None, 0) es = Ok (None, ?n)"
    using check_open_events[OF open' sq(1)] v n by simp
  moreover have "check_event (length (g_events g)) (rs_lexicon (g_ruleset g)) (None, ?n) e = Ok (Some res, Suc ?n)"
    using fits(1) lexicon ev r(2) sq(2) len v by (auto simp: check_event_def try_from_def event_fits_def)
  ultimately show ?thesis by (simp add: ev try_fold_append n)
qed

lemma winner_expected:
  assumes "length scores = 2" "\<And>p. reason = Resignation p \<Longrightarrow> seat_index p < 2"
  shows "expected_winner reason (scores ! 0) (scores ! 1) = Ok (winner_of scores [One, Two] reason)"
proof -
  obtain a b where ab: "scores = [a, b]" using assms(1) by (auto simp: length_Suc_conv numeral_2_eq_2)
  show ?thesis using assms(2)
    by (cases reason; cases "a < b"; cases "b < a")
      (auto simp: ab expected_winner_def winner_of_def unique_winner_def list_get_def SEAT_ALL_def numeral_2_eq_2 less_Suc_eq
        seat_index_two split: Seat.splits)
qed

lemma journal_input:
  assumes g: "reachable E g" "unicode_ok E" "length (g_racks g) = 2" "gs_result (g_state g) = Some res"
    and i: "mi_events i = g_events g" "mi_game_id i = gs_game_id (g_state g)" "metadata_ok i"
  shows "validate_input E i = Ok (g_ruleset g, res)"
proof -
  have inv: "game_inv E g" and j: "journal_fits g" using g reachable_inv reachable_journal by auto
  have v: "gs_version (g_state g) \<le> 619" using games_bound[OF g(1,2)] .
  obtain e es mode rng com counts bc where c: "g_events g = e # es"
    "ge_kind e = Created (gs_game_id (g_state g)) (g_ruleset g) mode rng com counts bc" using j unfolding journal_fits_def by blast
  note len = journal_length[OF inv]
  have lexicon: "ge_lexicon e = rs_lexicon (g_ruleset g)" using inv c(1) by (auto simp: game_inv_def log_ok_def ident_ok_def)
  have rf: "result_fits g res" using j g(4) by (simp add: journal_fits_def)
  have e': "res_scores res = gs_scores (g_state g)" "res_final_version res = gs_version (g_state g)"
    using inv g(4) by (auto simp: game_inv_def end_ok_def)
  have two: "length (res_scores res) = 2" using e'(1) inv g(3) by (simp add: game_inv_def table_ok_def)
  have "seat_active 2 = Some [One, Two]" by (simp add: seat_active_def SEAT_ALL_def)
  then have w: "expected_winner (res_reason res) (res_scores res ! 0) (res_scores res ! 1) = Ok (res_winner res)"
    using winner_expected[OF two, of "res_reason res"] rf g(3) by (auto simp: result_fits_def)
  have check: "try_fold (check_event (length (g_events g)) (rs_lexicon (g_ruleset g))) (None, 0) (g_events g)
    = Ok (Some res, length (g_events g))" by (rule check_journal[OF inv j g(4)]) (use v in simp)
  have "res_ruleset_id res = rs_id (g_ruleset g)" "res_lexicon res = rs_lexicon (g_ruleset g)"
    "res_game_id res = gs_game_id (g_state g)" using rf inv by (auto simp: result_fits_def game_inv_def ident_ok_def)
  moreover have "try_from 64 (length (g_events g) - 1) = Some (gs_version (g_state g))" using len v by (simp add: try_from_def)
  ultimately show ?thesis
    using i(3) check c lexicon e'(2) two w unfolding validate_input_def metadata_ok_def i(1,2)
    by (simp add: ruleset_identity_def index_at_def)
qed

section \<open>Finished games are counted\<close>

lemma short_word_valid: "short_word w \<Longrightarrow> valid_word w"
proof -
  assume w: "short_word w"
  have u: "utf8_chars w = map of_char w" using w by (simp add: short_word_def board_word_def utf8_chars_ascii)
  have c: "65 \<le> (of_char c :: nat) \<and> (of_char c :: nat) \<le> 90" if "c \<in> set w" for c
    using w that by (auto simp: short_word_def board_word_def list_all_iff ascii_upper_def)
  have ns: "\<not> is_whitespace k" if k: "k \<in> set (map of_char w)" for k
  proof -
    obtain x where x: "x \<in> set w" "k = of_char x" using k by auto
    then show ?thesis using c[OF x(1)] by (simp add: is_whitespace_def)
  qed
  have keep: "dropWhile is_whitespace xs = xs" if "set xs = set (map of_char w)" for xs
  proof (cases xs)
    case (Cons a list)
    then have "\<not> is_whitespace a" using ns[of a] that by auto
    then show ?thesis using Cons by simp
  qed simp
  have "dropWhile is_whitespace (map of_char w) = map of_char w" "dropWhile is_whitespace (rev (map of_char w)) = rev (map of_char w)"
    by (rule keep, simp)+
  then have "is_trimmed w" by (simp add: is_trimmed_def u trim_chars_def)
  moreover have "list_all (\<lambda>c. \<not> is_control c) (utf8_chars w)" using c by (fastforce simp: u list_all_iff is_control_def)
  ultimately show ?thesis using w c
    by (auto simp: valid_word_def stat_valid_id_def valid_id_def u short_word_def board_word_def list_all_iff)
qed

lemma fits_countable:
  assumes "event_fits 2 e" "r = the_builtin k"
  shows "countable_event r (ge_kind e)"
proof -
  have "board_square (gr_board (rs_game r)) c \<noteq> None" if "in_bounds c BOARD_SIZE BOARD_SIZE" for c
    using that by (simp add: assms(2) board_of_square BOARD_SIZE_def)
  then show ?thesis using assms(1) short_word_valid
    by (auto simp: event_fits_def countable_event_def list_all_iff less_Suc_eq numeral_2_eq_2 seat_index_two)
qed

lemma sum_list_bounded_nat: "(\<And>x. x \<in> set xs \<Longrightarrow> x \<le> n) \<Longrightarrow> sum_list xs \<le> length xs * n" for n :: nat
  by (induction xs) (auto intro: add_mono)

lemma durations_sum: "sum_list ds + k < 2 ^ 64 \<Longrightarrow> try_fold stat_add k ds = Ok (k + sum_list ds)"
proof (induction ds arbitrary: k)
  case (Cons d ds)
  then show ?case using Cons.IH[of "k + d"] by (simp add: stat_add_small ac_simps)
qed simp

lemma telemetry_succeeds:
  assumes "validate_run t = Ok ()" "null_or (\<lambda>ds. sum_list ds < 2 ^ 64) (nr_turn_durations_ms t)"
  shows "\<exists>ob'. apply_telemetry ob t = Ok ob'"
proof (cases "nr_turn_durations_ms t")
  case None
  then show ?thesis by (simp add: apply_telemetry_def)
next
  case (Some ds)
  then have "length ds \<le> 1000000" "sum_list ds < 2 ^ 64"
    using assms by (auto simp: validate_run_def rbind_Ok_iff null_or_def split: if_splits)
  then show ?thesis using durations_sum[of ds 0] by (simp add: apply_telemetry_def Some try_from_def)
qed

lemma derive_game:
  assumes g: "reachable E g" "unicode_ok E" "length (g_racks g) = 2" "gs_result (g_state g) = Some res"
    and i: "mi_events i = g_events g" "mi_game_id i = gs_game_id (g_state g)" "metadata_ok i"
  shows "\<exists>a b. derive E i = Ok (a, b)"
proof -
  let ?r = "g_ruleset g"
  note v = journal_input[OF assms]
  have inv: "game_inv E g" and j: "journal_fits g" using g reachable_inv reachable_journal by auto
  obtain k where k: "?r = the_builtin k" using inv table_ok_builtin by (auto simp: game_inv_def)
  have sc: "length (res_scores res) = 2" "list_all (signed_range 32) (res_scores res)"
    using inv j g(3,4) by (auto simp: game_inv_def table_ok_def end_ok_def journal_fits_def)
  have rng: "signed_range 32 (res_scores res ! 0)" "signed_range 32 (res_scores res ! 1)" using sc by (auto simp: list_all_length)
  have sp: "signed_range 64 (res_scores res ! x + - (res_scores res ! y))" if "x = 0 \<and> y = 1 \<or> x = 1 \<and> y = 0" for x y
    using rng that by (auto simp: signed_range_def)
  have "\<exists>ob. empty_observation E i index ?r res = Ok ob" if "index = 0 \<or> index = 1" for index
    using that sc(1) sp[of index "1 - index"]
    by (auto simp: empty_observation_def index_at_def stat_add_signed_def checked_add_signed_def two_at_def try_from_def Let_def)
  then obtain a0 b0 where e: "empty_observation E i 0 ?r res = Ok a0" "empty_observation E i 1 ?r res = Ok b0" by blast
  note w = winner_two[OF validate_input_Ok(13)[OF v]]
  have z: "small 0 a0" "small 0 b0" using empty_observation_head(2)[OF e(1) _ w] empty_observation_head(2)[OF e(2) _ w] by simp_all
  have fits: "list_all (event_fits 2) (g_events g)" using j g(3) by (simp add: journal_fits_def)
  have len: "length (g_events g) \<le> 620"
    using games_bound[OF g(1,2)] journal_length[OF inv] by simp
  have "sum_list (map (weight \<circ> ge_kind) (g_events g)) \<le> length (map (weight \<circ> ge_kind) (g_events g)) * (2 ^ 31 + 16)"
    using fits by (intro sum_list_bounded_nat) (auto simp: list_all_iff event_fits_def)
  also have "\<dots> < 2 ^ 64" using len mult_right_mono[OF len, of "2 ^ 31 + 16"] by simp
  finally obtain obs where obs: "try_fold (\<lambda>obs event. count_event ?r obs (ge_kind event)) (a0, b0) (g_events g) = Ok obs"
    using events_small[of 0 "(a0, b0)" ?r "g_events g"] z fits fits_countable[OF _ k] by (auto simp: list_all_iff)
  have t: "validate_run (fst (mi_telemetry i)) = Ok ()" "null_or (\<lambda>ds. sum_list ds < 2 ^ 64) (nr_turn_durations_ms (fst (mi_telemetry i)))"
    "validate_run (snd (mi_telemetry i)) = Ok ()" "null_or (\<lambda>ds. sum_list ds < 2 ^ 64) (nr_turn_durations_ms (snd (mi_telemetry i)))"
    using i(3) by (simp_all add: metadata_ok_def)
  obtain a b where "apply_telemetry ((fst obs)\<lparr>ob_invalid_actions := fst (mi_invalid_attempts i)\<rparr>) (fst (mi_telemetry i)) = Ok a"
    "apply_telemetry ((snd obs)\<lparr>ob_invalid_actions := snd (mi_invalid_attempts i)\<rparr>) (snd (mi_telemetry i)) = Ok b"
    using telemetry_succeeds[OF t(1,2)] telemetry_succeeds[OF t(3,4)] by metis
  then show ?thesis using v e obs by (simp add: derive_def i(1))
qed

end
