(* ===== verification/Aggregate.thy ===== *)
theory Aggregate
  imports Statistics
begin

text \<open>
  Aggregation of observations (\<^verbatim>\<open>application/src/statistics.rs\<close>): filters, the accumulator with its
  deduplication by source, the totals of \<^verbatim>\<open>aggregate_values\<close> and the two projections of them. The local
  variables of \<^verbatim>\<open>aggregate_values\<close> are the record \<open>Totals\<close>.
\<close>

section \<open>Filters\<close>

record StatisticsFilter =
  fl_language :: "string option"
  fl_ruleset_id :: "string option"
  fl_ruleset_sha256 :: "string option"
  fl_pack_id :: "string option"
  fl_pack_version :: "string option"
  fl_pack_sha256 :: "string option"
  fl_agent_manifest_sha256 :: "string option"
  fl_tournament_id :: "string option"
  fl_entrant_id :: "string option"
  fl_seat_number :: "nat option"
  fl_finished_from_ms :: "millis option"
  fl_finished_before_ms :: "millis option"

definition validate_filter :: "StatisticsFilter \<Rightarrow> unit stat" where
  "validate_filter f =
     (if \<not> list_all (null_or stat_valid_id) [fl_language f, fl_ruleset_id f, fl_pack_id f, fl_pack_version f,
           fl_tournament_id f, fl_entrant_id f] then Err StatInvalidInput
      else if \<not> list_all (null_or valid_sha256) [fl_ruleset_sha256 f, fl_pack_sha256 f, fl_agent_manifest_sha256 f]
      then Err StatInvalidInput
      else if \<not> null_or (\<lambda>seat. 1 \<le> seat \<and> seat \<le> 2) (fl_seat_number f)
        \<or> \<not> null_or (\<lambda>t. 0 \<le> t) (fl_finished_from_ms f) \<or> \<not> null_or (\<lambda>t. 0 \<le> t) (fl_finished_before_ms f)
        \<or> (case (fl_finished_from_ms f, fl_finished_before_ms f) of (Some from, Some before) \<Rightarrow> before \<le> from | _ \<Rightarrow> False)
      then Err StatInvalidInput else Ok ())"

definition filter_matches :: "StatisticsFilter \<Rightarrow> StatisticsScope \<Rightarrow> bool" where
  "filter_matches f s \<longleftrightarrow> null_or (\<lambda>v. v = so_language s) (fl_language f)
     \<and> null_or (\<lambda>v. v = so_ruleset_id s) (fl_ruleset_id f)
     \<and> null_or (\<lambda>v. v = so_ruleset_sha256 s) (fl_ruleset_sha256 f)
     \<and> null_or (\<lambda>v. v = so_pack_id s) (fl_pack_id f)
     \<and> null_or (\<lambda>v. v = so_pack_version s) (fl_pack_version f)
     \<and> null_or (\<lambda>v. v = so_pack_sha256 s) (fl_pack_sha256 f)
     \<and> null_or (\<lambda>v. so_agent_manifest_sha256 s = Some v) (fl_agent_manifest_sha256 f)
     \<and> null_or (\<lambda>v. so_tournament_id s = Some v) (fl_tournament_id f)
     \<and> null_or (\<lambda>v. v = so_entrant_id s) (fl_entrant_id f)
     \<and> null_or (\<lambda>v. v = so_seat_number s) (fl_seat_number f)
     \<and> null_or (\<lambda>v. v \<le> so_finished_at s) (fl_finished_from_ms f)
     \<and> null_or (\<lambda>v. so_finished_at s < v) (fl_finished_before_ms f)"

section \<open>Validation of an observation\<close>

definition validate_observation :: "StatisticsObservation \<Rightarrow> unit stat" where
  "validate_observation ob =
     (if ob_schema_version ob \<noteq> STATISTICS_SCHEMA_VERSION \<or> \<not> stat_valid_id (ob_source_id ob) \<or> ob_games ob \<noteq> 1
         \<or> Option.bind (checked_add 64 (ob_wins ob) (ob_losses ob)) (\<lambda>v. checked_add 64 v (ob_ties ob)) \<noteq> Some 1
         \<or> \<not> (1 \<le> so_seat_number (ob_scope ob) \<and> so_seat_number (ob_scope ob) \<le> 2)
         \<or> \<not> valid_scope (ob_scope ob)
         \<or> list_ex (\<lambda>(word, n). \<not> valid_word word \<or> n = 0) (ob_word_frequencies ob)
      then Err StatInvalidInput
      else rbind (try_fold (\<lambda>_ metric. validate_sourced metric) () [ob_turn_latency_total_ms ob, ob_turn_latency_samples ob,
          ob_tool_calls ob, ob_input_tokens ob, ob_output_tokens ob, ob_cost_microusd ob]) (\<lambda>_.
        if sx_availability (ob_turn_latency_total_ms ob) \<noteq> sx_availability (ob_turn_latency_samples ob)
        then Err StatInvalidInput else Ok ()))"

section \<open>Totals\<close>

record PublicStatistics =
  ps_schema_version :: nat
  ps_filter :: StatisticsFilter
  ps_games :: nat
  ps_wins :: nat
  ps_losses :: nat
  ps_ties :: nat
  ps_win_rate_millionths :: "nat option"
  ps_score_for :: int
  ps_score_against :: int
  ps_spread :: int
  ps_scoring_moves :: nat
  ps_average_move_score_milli :: "nat option"
  ps_bingos :: nat
  ps_invalid_actions :: nat
  ps_passes :: nat
  ps_exchanges :: nat
  ps_premium_use :: PremiumUse
  ps_vocabulary_size :: nat
  ps_average_turn_latency_ms :: SourcedStatistic
  ps_tool_calls :: SourcedStatistic
  ps_input_tokens :: SourcedStatistic
  ps_output_tokens :: SourcedStatistic
  ps_cost_microusd :: SourcedStatistic

record OperatorStatistics =
  os_public :: PublicStatistics
  os_word_frequencies :: "(string, nat) btree_map"
  os_source_ids :: "string list"

record Totals =
  tt_games :: nat
  tt_wins :: nat
  tt_losses :: nat
  tt_ties :: nat
  tt_score_for :: int
  tt_score_against :: int
  tt_spread :: int
  tt_scoring_moves :: nat
  tt_move_score :: nat
  tt_bingos :: nat
  tt_invalid_actions :: nat
  tt_passes :: nat
  tt_exchanges :: nat
  tt_premium_use :: PremiumUse
  tt_words :: "(string, nat) btree_map"
  tt_latency_total :: "SourcedStatistic list"
  tt_latency_samples :: "SourcedStatistic list"
  tt_tools :: "SourcedStatistic list"
  tt_input_tokens :: "SourcedStatistic list"
  tt_output_tokens :: "SourcedStatistic list"
  tt_costs :: "SourcedStatistic list"

definition no_totals :: Totals where
  "no_totals = \<lparr>tt_games = 0, tt_wins = 0, tt_losses = 0, tt_ties = 0, tt_score_for = 0, tt_score_against = 0,
     tt_spread = 0, tt_scoring_moves = 0, tt_move_score = 0, tt_bingos = 0, tt_invalid_actions = 0, tt_passes = 0,
     tt_exchanges = 0, tt_premium_use = no_premiums, tt_words = [], tt_latency_total = [], tt_latency_samples = [],
     tt_tools = [], tt_input_tokens = [], tt_output_tokens = [], tt_costs = []\<rparr>"

definition add_premium_counts :: "PremiumUse \<Rightarrow> PremiumUse \<Rightarrow> PremiumUse stat" where
  "add_premium_counts target v =
     rbind (stat_add (pu_double_letter target) (pu_double_letter v)) (\<lambda>dl.
     rbind (stat_add (pu_triple_letter target) (pu_triple_letter v)) (\<lambda>tl.
     rbind (stat_add (pu_double_word target) (pu_double_word v)) (\<lambda>dw.
     rbind (stat_add (pu_triple_word target) (pu_triple_word v)) (\<lambda>tw.
     Ok \<lparr>pu_double_letter = dl, pu_triple_letter = tl, pu_double_word = dw, pu_triple_word = tw\<rparr>))))"

definition add_observation :: "Totals \<Rightarrow> StatisticsObservation \<Rightarrow> Totals stat" where
  "add_observation t ob =
     rbind (stat_add (tt_games t) (ob_games ob)) (\<lambda>games.
     rbind (stat_add (tt_wins t) (ob_wins ob)) (\<lambda>wins.
     rbind (stat_add (tt_losses t) (ob_losses ob)) (\<lambda>losses.
     rbind (stat_add (tt_ties t) (ob_ties ob)) (\<lambda>ties.
     rbind (stat_add_signed (tt_score_for t) (ob_score_for ob)) (\<lambda>score_for.
     rbind (stat_add_signed (tt_score_against t) (ob_score_against ob)) (\<lambda>score_against.
     rbind (stat_add_signed (tt_spread t) (ob_spread ob)) (\<lambda>spread.
     rbind (stat_add (tt_scoring_moves t) (ob_scoring_moves ob)) (\<lambda>scoring_moves.
     rbind (stat_add (tt_move_score t) (ob_move_score ob)) (\<lambda>move_score.
     rbind (stat_add (tt_bingos t) (ob_bingos ob)) (\<lambda>bingos.
     rbind (stat_add (tt_invalid_actions t) (ob_invalid_actions ob)) (\<lambda>invalid_actions.
     rbind (stat_add (tt_passes t) (ob_passes ob)) (\<lambda>passes.
     rbind (stat_add (tt_exchanges t) (ob_exchanges ob)) (\<lambda>exchanges.
     rbind (add_premium_counts (tt_premium_use t) (ob_premium_use ob)) (\<lambda>premium_use.
     rbind (try_fold (\<lambda>words (word, n). add_word words word n) (tt_words t) (ob_word_frequencies ob)) (\<lambda>words.
     Ok \<lparr>tt_games = games, tt_wins = wins, tt_losses = losses, tt_ties = ties, tt_score_for = score_for,
       tt_score_against = score_against, tt_spread = spread, tt_scoring_moves = scoring_moves,
       tt_move_score = move_score, tt_bingos = bingos, tt_invalid_actions = invalid_actions, tt_passes = passes,
       tt_exchanges = exchanges, tt_premium_use = premium_use, tt_words = words,
       tt_latency_total = tt_latency_total t @ [ob_turn_latency_total_ms ob],
       tt_latency_samples = tt_latency_samples t @ [ob_turn_latency_samples ob],
       tt_tools = tt_tools t @ [ob_tool_calls ob], tt_input_tokens = tt_input_tokens t @ [ob_input_tokens ob],
       tt_output_tokens = tt_output_tokens t @ [ob_output_tokens ob],
       tt_costs = tt_costs t @ [ob_cost_microusd ob]\<rparr>)))))))))))))))"

section \<open>Derived figures\<close>

definition combine_metrics :: "SourcedStatistic list \<Rightarrow> SourcedStatistic stat" where
  "combine_metrics metrics =
     (if metrics = [] \<or> list_ex (\<lambda>m. sx_availability m = Unavailable) metrics then Ok stat_unavailable
      else rbind (try_fold (\<lambda>sum' m. rbind (ok_or StatInvalidInput (sx_value m)) (stat_add sum')) 0 metrics) (\<lambda>v.
        Ok (if list_ex (\<lambda>m. sx_availability m = Estimated) metrics then stat_estimated v else stat_exact v)))"

definition ratio :: "nat \<Rightarrow> nat \<Rightarrow> nat \<Rightarrow> nat option stat" where
  "ratio numerator denominator scale =
     (if denominator = 0 then Ok None
      else rbind (ok_or StatOverflow (Option.bind (checked_mul 128 numerator scale) (\<lambda>v. checked_add 128 v (denominator div 2)))) (\<lambda>v.
        let rounded = v div denominator in
        rbind (ok_or StatOverflow (try_from 64 rounded)) (\<lambda>r. Ok (Some r))))"

definition average_metric :: "SourcedStatistic \<Rightarrow> SourcedStatistic \<Rightarrow> SourcedStatistic stat" where
  "average_metric total' samples =
     (if sx_availability total' = Unavailable \<or> sx_availability samples = Unavailable \<or> sx_value samples = Some 0
      then Ok stat_unavailable
      else rbind (ok_or StatInvalidInput (sx_value total')) (\<lambda>t.
        rbind (ok_or StatInvalidInput (sx_value samples)) (\<lambda>n.
        rbind (ratio t n 1) (\<lambda>r.
        rbind (ok_or StatInvalidInput r) (\<lambda>v.
        Ok (if sx_availability total' = Estimated \<or> sx_availability samples = Estimated
            then stat_estimated v else stat_exact v))))))"

definition aggregate_values ::
  "StatisticsFilter \<Rightarrow> StatisticsObservation list \<Rightarrow> (PublicStatistics \<times> (string, nat) btree_map) stat" where
  "aggregate_values filter' observations =
     rbind (try_fold add_observation no_totals observations) (\<lambda>t.
     rbind (combine_metrics (tt_latency_total t)) (\<lambda>latency_total.
     rbind (combine_metrics (tt_latency_samples t)) (\<lambda>latency_samples.
     rbind (average_metric latency_total latency_samples) (\<lambda>average_turn_latency_ms.
     rbind (ratio (tt_wins t) (tt_games t) RATE_SCALE) (\<lambda>win_rate.
     rbind (ratio (tt_move_score t) (tt_scoring_moves t) 1000) (\<lambda>average_move_score.
     rbind (ok_or StatOverflow (try_from 64 (length (tt_words t)))) (\<lambda>vocabulary_size.
     rbind (combine_metrics (tt_tools t)) (\<lambda>tool_calls.
     rbind (combine_metrics (tt_input_tokens t)) (\<lambda>input_tokens.
     rbind (combine_metrics (tt_output_tokens t)) (\<lambda>output_tokens.
     rbind (combine_metrics (tt_costs t)) (\<lambda>cost_microusd.
     Ok (\<lparr>ps_schema_version = STATISTICS_SCHEMA_VERSION, ps_filter = filter', ps_games = tt_games t,
       ps_wins = tt_wins t, ps_losses = tt_losses t, ps_ties = tt_ties t, ps_win_rate_millionths = win_rate,
       ps_score_for = tt_score_for t, ps_score_against = tt_score_against t, ps_spread = tt_spread t,
       ps_scoring_moves = tt_scoring_moves t, ps_average_move_score_milli = average_move_score,
       ps_bingos = tt_bingos t, ps_invalid_actions = tt_invalid_actions t, ps_passes = tt_passes t,
       ps_exchanges = tt_exchanges t, ps_premium_use = tt_premium_use t, ps_vocabulary_size = vocabulary_size,
       ps_average_turn_latency_ms = average_turn_latency_ms, ps_tool_calls = tool_calls,
       ps_input_tokens = input_tokens, ps_output_tokens = output_tokens, ps_cost_microusd = cost_microusd\<rparr>,
       tt_words t))))))))))))"

section \<open>The accumulator\<close>

record StatisticsAccumulator =
  ac_filter :: StatisticsFilter
  ac_observations :: "(string, StatisticsObservation) btree_map"

definition accumulator_new :: "StatisticsFilter \<Rightarrow> StatisticsAccumulator stat" where
  "accumulator_new filter' = rbind (validate_filter filter') (\<lambda>_. Ok \<lparr>ac_filter = filter', ac_observations = []\<rparr>)"

definition accumulator_add :: "StatisticsAccumulator \<Rightarrow> StatisticsObservation \<Rightarrow> StatisticsAccumulator stat" where
  "accumulator_add acc ob =
     rbind (validate_observation ob) (\<lambda>_.
     if \<not> filter_matches (ac_filter acc) (ob_scope ob) then Ok acc
     else case btree_get (ac_observations acc) (ob_source_id ob) of
       Some existing \<Rightarrow> if existing = ob then Ok acc else Err StatConflict
     | None \<Rightarrow> Ok (acc\<lparr>ac_observations := btree_insert (ob_source_id ob) ob (ac_observations acc)\<rparr>))"

definition accumulator_public :: "StatisticsAccumulator \<Rightarrow> PublicStatistics stat" where
  "accumulator_public acc =
     rbind (aggregate_values (ac_filter acc) (btree_values (ac_observations acc))) (\<lambda>(public, _). Ok public)"

definition accumulator_operator :: "StatisticsAccumulator \<Rightarrow> OperatorStatistics stat" where
  "accumulator_operator acc =
     rbind (aggregate_values (ac_filter acc) (btree_values (ac_observations acc))) (\<lambda>(public, words).
     Ok \<lparr>os_public = public, os_word_frequencies = words, os_source_ids = btree_keys (ac_observations acc)\<rparr>)"

definition aggregate_statistics :: "StatisticsFilter \<Rightarrow> StatisticsObservation list \<Rightarrow> OperatorStatistics stat" where
  "aggregate_statistics filter' observations =
     rbind (accumulator_new filter') (\<lambda>acc. rbind (try_fold accumulator_add acc observations) accumulator_operator)"

end
