(* ===== verification/StatisticsStore.thy ===== *)
theory StatisticsStore
  imports Aggregate
begin

text \<open>
  The SQLite repository of statistics (\<^verbatim>\<open>persistence/src/statistics_repository.rs\<close> with
  \<^verbatim>\<open>migrations/0012_statistics.sql\<close>). A row of \<^verbatim>\<open>statistics_sources\<close> or \<^verbatim>\<open>statistics_observations\<close> is a
  record whose JSON column holds the value it encodes. Recording first reads outside any transaction and
  then inserts in one, so it is the composition of \<open>record_check\<close> and \<open>record_insert\<close>, and the steps
  of the store are the insertions of processes that passed their check at any earlier moment.
\<close>

section \<open>Tables\<close>

record StatSourceRow =
  sor_source_id :: string
  sor_schema_version :: int
  sor_tournament_id :: "string option"
  sor_match_id :: string
  sor_game_id :: string
  sor_finished_at_ms :: millis
  sor_source :: MatchStatisticsInput
  sor_observations :: "StatisticsObservation two"
  sor_recorded_at_ms :: millis

record StatObservationRow =
  oor_observation_id :: string
  oor_source_id :: string
  oor_schema_version :: int
  oor_language :: string
  oor_ruleset_id :: string
  oor_ruleset_sha256 :: string
  oor_pack_id :: string
  oor_pack_version :: string
  oor_pack_sha256 :: string
  oor_agent_manifest_sha256 :: "string option"
  oor_tournament_id :: "string option"
  oor_match_id :: string
  oor_game_id :: string
  oor_entrant_id :: string
  oor_seat_number :: int
  oor_finished_at_ms :: millis
  oor_observation :: StatisticsObservation

record StatDb =
  sdb_sources :: "StatSourceRow list"
  sdb_observations :: "StatObservationRow list"

definition empty_stat_db :: StatDb where
  "empty_stat_db = \<lparr>sdb_sources = [], sdb_observations = []\<rparr>"

definition check_source_row :: "StatSourceRow \<Rightarrow> bool" where
  "check_source_row r \<longleftrightarrow> 0 < sor_schema_version r \<and> 0 \<le> sor_finished_at_ms r \<and> 0 \<le> sor_recorded_at_ms r"

definition check_observation_row :: "StatObservationRow \<Rightarrow> bool" where
  "check_observation_row r \<longleftrightarrow> 0 < oor_schema_version r \<and> valid_sha256 (oor_ruleset_sha256 r)
     \<and> valid_sha256 (oor_pack_sha256 r) \<and> null_or valid_sha256 (oor_agent_manifest_sha256 r)
     \<and> (oor_seat_number r = 1 \<or> oor_seat_number r = 2) \<and> 0 \<le> oor_finished_at_ms r"

section \<open>Errors and results\<close>

datatype StatisticsRepositoryError = StatRepInvalidInput | StatRepConflict | StatRepCorrupt | StatRepUnavailable

type_synonym 'a stat_rep = "(StatisticsRepositoryError, 'a) outcome"

datatype SourceLoadError = SourceNotFound | SourceRepository StatisticsRepositoryError

datatype StatisticsRecordResult =
    StatApplied "StatisticsObservation two"
  | StatAlreadyApplied "StatisticsObservation two"

section \<open>Reading\<close>

definition store_validate_id :: "string \<Rightarrow> unit stat_rep" where
  "store_validate_id value =
     (if value = [] \<or> 256 < length value \<or> \<not> is_trimmed value \<or> list_ex is_control (utf8_chars value)
      then Err StatRepCorrupt else Ok ())"

definition parse_source :: "StatSourceRow \<Rightarrow> MatchStatisticsInput stat_rep" where
  "parse_source r =
     (let source = sor_source r in
      if sor_source_id r \<noteq> mi_source_id source \<or> sor_schema_version r \<noteq> int STATISTICS_SCHEMA_VERSION
         \<or> sor_tournament_id r \<noteq> mi_tournament_id source \<or> sor_match_id r \<noteq> mi_match_id source
         \<or> sor_game_id r \<noteq> mi_game_id source \<or> sor_finished_at_ms r \<noteq> mi_finished_at source
         \<or> sor_recorded_at_ms r < 0
      then Err StatRepCorrupt else Ok source)"

definition row_agrees :: "StatObservationRow \<Rightarrow> StatisticsObservation \<Rightarrow> bool" where
  "row_agrees r ob \<longleftrightarrow> oor_observation r = ob \<and> oor_observation_id r = ob_source_id ob
     \<and> oor_schema_version r = int STATISTICS_SCHEMA_VERSION
     \<and> oor_language r = so_language (ob_scope ob) \<and> oor_ruleset_id r = so_ruleset_id (ob_scope ob)
     \<and> oor_ruleset_sha256 r = so_ruleset_sha256 (ob_scope ob) \<and> oor_pack_id r = so_pack_id (ob_scope ob)
     \<and> oor_pack_version r = so_pack_version (ob_scope ob) \<and> oor_pack_sha256 r = so_pack_sha256 (ob_scope ob)
     \<and> oor_agent_manifest_sha256 r = so_agent_manifest_sha256 (ob_scope ob)
     \<and> oor_tournament_id r = so_tournament_id (ob_scope ob) \<and> oor_match_id r = so_match_id (ob_scope ob)
     \<and> oor_game_id r = so_game_id (ob_scope ob) \<and> oor_entrant_id r = so_entrant_id (ob_scope ob)
     \<and> oor_seat_number r = int (so_seat_number (ob_scope ob)) \<and> oor_finished_at_ms r = so_finished_at (ob_scope ob)"

definition validate_observation_rows :: "StatDb \<Rightarrow> string \<Rightarrow> StatisticsObservation two \<Rightarrow> unit stat_rep" where
  "validate_observation_rows db source_id expected =
     (let rows = sort_key oor_seat_number (filter (\<lambda>r. oor_source_id r = source_id) (sdb_observations db)) in
      if length rows \<noteq> 2 then Err StatRepCorrupt
      else try_fold (\<lambda>_ (row, ob). if row_agrees row ob then Ok () else Err StatRepCorrupt) ()
             (zip rows [fst expected, snd expected]))"

definition load_source ::
  "env \<Rightarrow> StatDb \<Rightarrow> string \<Rightarrow> (SourceLoadError, MatchStatisticsInput \<times> StatisticsObservation two) outcome" where
  "load_source E db source_id =
     rbind (map_err SourceRepository (store_validate_id source_id)) (\<lambda>_.
     rbind (ok_or SourceNotFound (List.find (\<lambda>r. sor_source_id r = source_id) (sdb_sources db))) (\<lambda>row.
     rbind (map_err SourceRepository (parse_source row)) (\<lambda>source.
     rbind (map_err (\<lambda>_. SourceRepository StatRepCorrupt) (derive E source)) (\<lambda>observations.
     if sor_observations row \<noteq> observations then Err (SourceRepository StatRepCorrupt)
     else rbind (map_err SourceRepository (validate_observation_rows db source_id observations)) (\<lambda>_.
       Ok (source, observations))))))"

fun rebuild_error :: "SourceLoadError \<Rightarrow> StatisticsRepositoryError" where
  "rebuild_error SourceNotFound = StatRepCorrupt"
| "rebuild_error (SourceRepository e) = e"

definition rebuild_source :: "env \<Rightarrow> StatDb \<Rightarrow> StatisticsAccumulator \<Rightarrow> string \<Rightarrow> StatisticsAccumulator stat_rep" where
  "rebuild_source E db acc source_id =
     rbind (map_err rebuild_error (load_source E db source_id)) (\<lambda>(_, observations).
     try_fold (\<lambda>acc ob. map_err (\<lambda>_. StatRepCorrupt) (accumulator_add acc ob)) acc [fst observations, snd observations])"

definition rebuild :: "env \<Rightarrow> StatDb \<Rightarrow> StatisticsFilter \<Rightarrow> StatisticsAccumulator stat_rep" where
  "rebuild E db filter' =
     rbind (map_err (\<lambda>_. StatRepInvalidInput) (accumulator_new filter')) (\<lambda>acc.
     try_fold (rebuild_source E db) acc (sort (map sor_source_id (sdb_sources db))))"

definition rebuild_public :: "env \<Rightarrow> StatDb \<Rightarrow> StatisticsFilter \<Rightarrow> PublicStatistics stat_rep" where
  "rebuild_public E db filter' =
     rbind (rebuild E db filter') (\<lambda>acc. map_err (\<lambda>_. StatRepCorrupt) (accumulator_public acc))"

definition rebuild_operator :: "env \<Rightarrow> StatDb \<Rightarrow> StatisticsFilter \<Rightarrow> OperatorStatistics stat_rep" where
  "rebuild_operator E db filter' =
     rbind (rebuild E db filter') (\<lambda>acc. map_err (\<lambda>_. StatRepCorrupt) (accumulator_operator acc))"

section \<open>Recording\<close>

text \<open>\<^verbatim>\<open>value.strip_suffix(suffix)\<close>\<close>

definition strip_suffix :: "string \<Rightarrow> string \<Rightarrow> string option" where
  "strip_suffix s suffix =
     (if length suffix \<le> length s \<and> drop (length s - length suffix) s = suffix
      then Some (take (length s - length suffix) s) else None)"

definition observation_row :: "string \<Rightarrow> StatisticsObservation \<Rightarrow> StatObservationRow" where
  "observation_row source_id ob = \<lparr>oor_observation_id = ob_source_id ob, oor_source_id = source_id,
     oor_schema_version = int (ob_schema_version ob), oor_language = so_language (ob_scope ob),
     oor_ruleset_id = so_ruleset_id (ob_scope ob), oor_ruleset_sha256 = so_ruleset_sha256 (ob_scope ob),
     oor_pack_id = so_pack_id (ob_scope ob), oor_pack_version = so_pack_version (ob_scope ob),
     oor_pack_sha256 = so_pack_sha256 (ob_scope ob), oor_agent_manifest_sha256 = so_agent_manifest_sha256 (ob_scope ob),
     oor_tournament_id = so_tournament_id (ob_scope ob), oor_match_id = so_match_id (ob_scope ob),
     oor_game_id = so_game_id (ob_scope ob), oor_entrant_id = so_entrant_id (ob_scope ob),
     oor_seat_number = int (so_seat_number (ob_scope ob)), oor_finished_at_ms = so_finished_at (ob_scope ob),
     oor_observation = ob\<rparr>"

definition insert_observation_row :: "StatDb \<Rightarrow> StatObservationRow \<Rightarrow> StatDb stat_rep" where
  "insert_observation_row db r =
     (if check_observation_row r
         \<and> oor_observation_id r \<notin> set (map oor_observation_id (sdb_observations db))
         \<and> (oor_source_id r, oor_seat_number r) \<notin> set (map (\<lambda>r. (oor_source_id r, oor_seat_number r)) (sdb_observations db))
         \<and> oor_source_id r \<in> set (map sor_source_id (sdb_sources db))
      then Ok (db\<lparr>sdb_observations := sdb_observations db @ [r]\<rparr>) else Err StatRepConflict)"

definition insert_observation :: "StatDb \<Rightarrow> StatisticsObservation \<Rightarrow> StatDb stat_rep" where
  "insert_observation db ob =
     rbind (ok_or StatRepCorrupt (strip_suffix (ob_source_id ob) ('':seat-'' @ decimal (so_seat_number (ob_scope ob))))) (\<lambda>source_id.
     insert_observation_row db (observation_row source_id ob))"

definition source_row :: "MatchStatisticsInput \<Rightarrow> StatisticsObservation two \<Rightarrow> millis \<Rightarrow> StatSourceRow" where
  "source_row source derived now = \<lparr>sor_source_id = mi_source_id source,
     sor_schema_version = int (mi_schema_version source), sor_tournament_id = mi_tournament_id source,
     sor_match_id = mi_match_id source, sor_game_id = mi_game_id source, sor_finished_at_ms = mi_finished_at source,
     sor_source = source, sor_observations = derived, sor_recorded_at_ms = now\<rparr>"

definition insert_source_row :: "StatDb \<Rightarrow> StatSourceRow \<Rightarrow> StatDb stat_rep" where
  "insert_source_row db r =
     (if check_source_row r \<and> sor_source_id r \<notin> set (map sor_source_id (sdb_sources db))
      then Ok (db\<lparr>sdb_sources := sdb_sources db @ [r]\<rparr>) else Err StatRepConflict)"

definition record_check ::
  "env \<Rightarrow> StatDb \<Rightarrow> MatchStatisticsInput \<Rightarrow> millis \<Rightarrow> (StatisticsObservation two \<times> StatisticsRecordResult option) stat_rep" where
  "record_check E db source now =
     rbind (map_err (\<lambda>_. StatRepInvalidInput) (derive E source)) (\<lambda>derived.
     if now < 0 then Err StatRepInvalidInput
     else case load_source E db (mi_source_id source) of
       Ok (existing, observations) \<Rightarrow>
         if existing = source \<and> observations = derived then Ok (derived, Some (StatAlreadyApplied observations))
         else Err StatRepConflict
     | Err SourceNotFound \<Rightarrow> Ok (derived, None)
     | Err (SourceRepository e) \<Rightarrow> Err e
     | Panic \<Rightarrow> Panic
     | Diverge \<Rightarrow> Diverge)"

definition record_insert ::
  "MatchStatisticsInput \<Rightarrow> StatisticsObservation two \<Rightarrow> millis \<Rightarrow> StatDb \<Rightarrow> StatDb \<times> StatisticsRecordResult stat_rep" where
  "record_insert source derived now = transaction (\<lambda>db.
     rbind (insert_source_row db (source_row source derived now)) (\<lambda>db.
     rbind (try_fold insert_observation db [fst derived, snd derived]) (\<lambda>db.
     Ok (db, StatApplied derived))))"

definition record_source ::
  "env \<Rightarrow> StatDb \<Rightarrow> MatchStatisticsInput \<Rightarrow> millis \<Rightarrow> StatDb \<times> StatisticsRecordResult stat_rep" where
  "record_source E db source now = (case record_check E db source now of
       Ok (derived, Some result) \<Rightarrow> (db, Ok result)
     | Ok (derived, None) \<Rightarrow> record_insert source derived now db
     | Err e \<Rightarrow> (db, Err e)
     | Panic \<Rightarrow> (db, Panic)
     | Diverge \<Rightarrow> (db, Diverge))"

text \<open>The insertions of any process whose input was accepted, at any time after its check.\<close>

inductive stat_step :: "env \<Rightarrow> StatDb \<Rightarrow> StatDb \<Rightarrow> bool" for E where
  step_insert: "derive E source = Ok derived \<Longrightarrow> 0 \<le> now \<Longrightarrow> stat_step E db (fst (record_insert source derived now db))"

definition stat_reachable :: "env \<Rightarrow> StatDb \<Rightarrow> bool" where
  "stat_reachable E db \<longleftrightarrow> (stat_step E)\<^sup>*\<^sup>* empty_stat_db db"

end
