(* ===== verification/AggregateFacts.thy ===== *)
theory AggregateFacts
  imports Aggregate StatisticsFacts
begin

text \<open>
  What aggregation computes. The accumulator keeps one observation for each source and accepts a list
  exactly when its observations are valid and no source appears with two contents, so the result does
  not depend on order or repetition. The totals are sums over the observations kept, and \<^verbatim>\<open>ratio\<close> rounds
  to the nearest integer.
\<close>

section \<open>The accumulator\<close>

lemma distinct_mapI: "distinct (map f xs) \<Longrightarrow> distinct xs"
  by (simp add: distinct_map)

definition selected :: "StatisticsFilter \<Rightarrow> StatisticsObservation list \<Rightarrow> StatisticsObservation list" where
  "selected f xs = filter (\<lambda>ob. filter_matches f (ob_scope ob)) xs"

definition one_content :: "StatisticsObservation set \<Rightarrow> bool" where
  "one_content S \<longleftrightarrow> (\<forall>x \<in> S. \<forall>y \<in> S. ob_source_id x = ob_source_id y \<longrightarrow> x = y)"

definition keyed :: "(string, StatisticsObservation) btree_map \<Rightarrow> bool" where
  "keyed m \<longleftrightarrow> btree_ok m \<and> (\<forall>(k, ob) \<in> set m. k = ob_source_id ob)"

abbreviation keep :: "(string, StatisticsObservation) btree_map \<Rightarrow> StatisticsObservation list \<Rightarrow> (string, StatisticsObservation) btree_map" where
  "keep m xs \<equiv> foldl (\<lambda>m ob. btree_insert (ob_source_id ob) ob m) m xs"

lemma keyed_get: "keyed m \<Longrightarrow> btree_get m k = Some ob \<longleftrightarrow> ob \<in> set (btree_values m) \<and> ob_source_id ob = k"
  by (force simp: keyed_def btree_get_Some btree_values_def)

lemma keyed_insert:
  assumes "keyed m"
  shows "keyed (btree_insert (ob_source_id ob) ob m)"
proof -
  have ok: "btree_ok m" "btree_ok (btree_insert (ob_source_id ob) ob m)" using assms btree.ok_put by (auto simp: keyed_def)
  have "k = ob_source_id x" if "(k, x) \<in> set (btree_insert (ob_source_id ob) ob m)" for k x
    using that assms btree.get_put[OF ok(1)] unfolding keyed_def btree_get_Some[OF ok(2), symmetric]
    by (auto split: if_splits simp: btree_get_Some)
  then show ?thesis using ok(2) by (auto simp: keyed_def)
qed

lemma values_insert:
  assumes "keyed m" "btree_get m (ob_source_id ob) = None"
  shows "set (btree_values (btree_insert (ob_source_id ob) ob m)) = insert ob (set (btree_values m))"
proof (rule set_eqI)
  fix x
  have ok: "btree_ok m" using assms(1) by (simp add: keyed_def)
  have "x \<in> set (btree_values m') \<longleftrightarrow> btree_get m' (ob_source_id x) = Some x" if "keyed m'" for m'
    using keyed_get[OF that] by blast
  then show "x \<in> set (btree_values (btree_insert (ob_source_id ob) ob m)) \<longleftrightarrow> x \<in> insert ob (set (btree_values m))"
    using assms keyed_insert[OF assms(1)] by (auto simp: btree.get_put[OF ok])
qed

lemma accumulate:
  assumes "keyed (ac_observations acc)"
  shows "try_fold accumulator_add acc xs = Ok acc' \<longleftrightarrow>
    list_all (\<lambda>ob. validate_observation ob = Ok ()) xs
    \<and> one_content (set (btree_values (ac_observations acc)) \<union> set (selected (ac_filter acc) xs))
    \<and> acc' = acc\<lparr>ac_observations := keep (ac_observations acc) (selected (ac_filter acc) xs)\<rparr>"
  using assms
proof (induction xs arbitrary: acc)
  case Nil
  have "one_content (set (btree_values (ac_observations acc)))"
    using keyed_get[OF Nil] unfolding one_content_def by (metis option.inject)
  then show ?case by (auto simp: selected_def)
next
  case (Cons x xs)
  let ?m = "ac_observations acc" and ?f = "ac_filter acc"
  have ok: "btree_ok ?m" using Cons.prems by (simp add: keyed_def)
  show ?case
  proof (cases "validate_observation x = Ok ()")
    case False
    then have "\<forall>y. try_fold accumulator_add acc (x # xs) \<noteq> Ok y" by (auto simp: accumulator_add_def rbind_Ok_iff)
    then show ?thesis using False by auto
  next
    case valid: True
    show ?thesis
    proof (cases "filter_matches ?f (ob_scope x)")
      case False
      then have "accumulator_add acc x = Ok acc" using valid by (simp add: accumulator_add_def)
      then show ?thesis using Cons.IH[OF Cons.prems] valid False by (simp add: selected_def)
    next
      case sel: True
      have s: "selected ?f (x # xs) = x # selected ?f xs" using sel by (simp add: selected_def)
      show ?thesis
      proof (cases "btree_get ?m (ob_source_id x)")
        case None
        let ?acc = "acc\<lparr>ac_observations := btree_insert (ob_source_id x) x ?m\<rparr>"
        have add: "accumulator_add acc x = Ok ?acc" using valid sel None by (simp add: accumulator_add_def)
        have "keyed (ac_observations ?acc)" using keyed_insert[OF Cons.prems] by simp
        from Cons.IH[OF this] show ?thesis using valid values_insert[OF Cons.prems None] by (simp add: add s)
      next
        case (Some y)
        have y: "y \<in> set (btree_values ?m)" "ob_source_id y = ob_source_id x" using Some keyed_get[OF Cons.prems] by auto
        show ?thesis
        proof (cases "y = x")
          case True
          have add: "accumulator_add acc x = Ok acc" using valid sel Some True by (simp add: accumulator_add_def)
          have "btree_insert (ob_source_id x) x ?m = ?m" using btree.put_same[OF ok] Some True by simp
          moreover have "set (btree_values ?m) \<union> set (x # selected ?f xs) = set (btree_values ?m) \<union> set (selected ?f xs)"
            using y(1) True by auto
          ultimately show ?thesis using Cons.IH[OF Cons.prems] valid by (simp add: add s)
        next
          case False
          have "accumulator_add acc x = Err StatConflict" using valid sel Some False by (simp add: accumulator_add_def)
          moreover have "\<not> one_content (set (btree_values ?m) \<union> set (x # selected ?f xs))"
            using y False unfolding one_content_def by (meson UnI1 UnI2 list.set_intros(1))
          ultimately show ?thesis by (simp add: s)
        qed
      qed
    qed
  qed
qed

lemma accumulate_empty:
  "try_fold accumulator_add \<lparr>ac_filter = f, ac_observations = []\<rparr> xs = Ok acc \<longleftrightarrow>
    list_all (\<lambda>ob. validate_observation ob = Ok ()) xs \<and> one_content (set (selected f xs))
    \<and> acc = \<lparr>ac_filter = f, ac_observations = keep [] (selected f xs)\<rparr>"
  using accumulate[of "\<lparr>ac_filter = f, ac_observations = []\<rparr>" xs acc] btree.ok_empty
  by (simp add: keyed_def btree_values_def)

lemma aggregate_iff:
  "aggregate_statistics f xs = Ok s \<longleftrightarrow> validate_filter f = Ok () \<and> list_all (\<lambda>ob. validate_observation ob = Ok ()) xs
     \<and> one_content (set (selected f xs))
     \<and> accumulator_operator \<lparr>ac_filter = f, ac_observations = keep [] (selected f xs)\<rparr> = Ok s"
  using accumulate_empty[of f xs] by (auto simp: aggregate_statistics_def accumulator_new_def rbind_Ok_iff)

lemma kept_permute:
  assumes "set xs = set ys" "one_content (set (selected f xs))"
  shows "keep [] (selected f xs) = keep [] (selected f ys)"
  by (rule btree.puts_permute) (use assms in \<open>auto simp: selected_def one_content_def\<close>)

lemma aggregate_permute:
  assumes "set xs = set ys"
  shows "aggregate_statistics f xs = Ok s \<longleftrightarrow> aggregate_statistics f ys = Ok s"
proof -
  have "set (selected f xs) = set (selected f ys)" using assms by (simp add: selected_def)
  then show ?thesis using kept_permute[OF assms, of f] assms unfolding aggregate_iff by (auto simp: list_all_iff)
qed

text \<open>The observations kept are the selected ones, each once.\<close>

lemma kept_keyed: "keyed m \<Longrightarrow> keyed (keep m xs)"
  by (induction xs arbitrary: m) (auto simp: keyed_insert)

lemma kept_values:
  assumes "one_content (set xs)"
  shows "set (btree_values (keep [] xs)) = set xs" "distinct (btree_values (keep [] xs))"
    "btree_keys (keep [] xs) = map ob_source_id (btree_values (keep [] xs))"
proof -
  have k0: "keyed []" by (simp add: keyed_def btree.ok_empty)
  note k = kept_keyed[OF k0, of xs]
  have "btree_get (keep [] xs) i = Some ob \<longleftrightarrow> ob \<in> set xs \<and> ob_source_id ob = i" for i ob
    using btree.get_puts[OF btree.ok_empty, of xs ob_source_id "\<lambda>x. x" i ob] assms by (auto simp: one_content_def)
  then show "set (btree_values (keep [] xs)) = set xs" using keyed_get[OF k] by blast
  show keys: "btree_keys (keep [] xs) = map ob_source_id (btree_values (keep [] xs))"
    using k by (auto simp: keyed_def btree_keys_def btree_values_def)
  have "distinct (btree_keys (keep [] xs))" using k btree_distinct by (auto simp: keyed_def)
  then show "distinct (btree_values (keep [] xs))" unfolding keys by (rule distinct_mapI)
qed

section \<open>Totals\<close>

lemma stat_add_signed_Ok [simp]: "stat_add_signed a b = Ok c \<longleftrightarrow> c = a + b \<and> signed_range 64 (a + b)"
  by (auto simp: stat_add_signed_def checked_add_signed_def)

lemma bind_add: "rbind (stat_add a b) f = Ok y \<longleftrightarrow> a + b < 2 ^ 64 \<and> f (a + b) = Ok y"
  by (auto simp: rbind_Ok_iff)

lemma bind_add_signed: "rbind (stat_add_signed a b) f = Ok y \<longleftrightarrow> signed_range 64 (a + b) \<and> f (a + b) = Ok y"
  by (auto simp: rbind_Ok_iff)

lemma add_premium_counts_Ok:
  "add_premium_counts u v = Ok w \<Longrightarrow> premium_count w q = premium_count u q + premium_count v q"
  by (cases q) (auto simp: add_premium_counts_def rbind_Ok_iff)

lemma add_words_Ok:
  assumes "try_fold (\<lambda>words (word, n). add_word words word n) ws es = Ok ws'" "words_ok ws" "\<forall>(w, n) \<in> set es. valid_word w \<and> 0 < n"
  shows "words_ok ws' \<and> (\<forall>w. word_count ws' w = word_count ws w + sum_list (map snd (filter (\<lambda>e. fst e = w) es)))"
  using assms
proof (induction es arbitrary: ws)
  case (Cons e es)
  obtain w n where e: "e = (w, n)" by (cases e)
  obtain ws1 where s: "add_word ws w n = Ok ws1" "try_fold (\<lambda>words (word, n). add_word words word n) ws1 es = Ok ws'"
    using Cons.prems(1) e by (auto simp: rbind_Ok_iff)
  have vn: "valid_word w" "0 < n" using Cons.prems(3) e by auto
  note one = add_word_Ok[OF s(1) Cons.prems(2) vn]
  show ?case using Cons.IH[OF s(2) one(1)] Cons.prems(3) one(2) e by auto
qed simp

lemma word_entries:
  assumes "words_ok es"
  shows "sum_list (map snd (filter (\<lambda>e. fst e = w) es)) = word_count es w"
proof -
  have "distinct (map fst es)" using assms btree_distinct by (auto simp: words_ok_def btree_keys_def)
  then have "sum_list (map snd (filter (\<lambda>e. fst e = w) es)) = (case map_of es w of None \<Rightarrow> 0 | Some n \<Rightarrow> n)"
  proof (induction es)
    case (Cons e es)
    have "\<forall>e' \<in> set es. fst e' \<noteq> fst e" using Cons.prems by (metis distinct.simps(2) imageI list.map(2) set_map)
    then have "filter (\<lambda>e'. fst e' = fst e) es = []" by simp
    then show ?case using Cons by (cases e) (auto split: option.splits simp: map_of_eq_None_iff)
  qed simp
  then show ?thesis by (simp add: word_count_def btree_get_map_of)
qed

definition totals_ok :: "StatisticsObservation list \<Rightarrow> Totals \<Rightarrow> bool" where
  "totals_ok obs t \<longleftrightarrow> tt_games t = sum_list (map ob_games obs) \<and> tt_wins t = sum_list (map ob_wins obs)
     \<and> tt_losses t = sum_list (map ob_losses obs) \<and> tt_ties t = sum_list (map ob_ties obs)
     \<and> tt_score_for t = sum_list (map ob_score_for obs) \<and> tt_score_against t = sum_list (map ob_score_against obs)
     \<and> tt_spread t = sum_list (map ob_spread obs) \<and> tt_scoring_moves t = sum_list (map ob_scoring_moves obs)
     \<and> tt_move_score t = sum_list (map ob_move_score obs) \<and> tt_bingos t = sum_list (map ob_bingos obs)
     \<and> tt_invalid_actions t = sum_list (map ob_invalid_actions obs) \<and> tt_passes t = sum_list (map ob_passes obs)
     \<and> tt_exchanges t = sum_list (map ob_exchanges obs)
     \<and> (\<forall>q. premium_count (tt_premium_use t) q = sum_list (map (\<lambda>ob. premium_count (ob_premium_use ob) q) obs))
     \<and> words_ok (tt_words t)
     \<and> (\<forall>w. word_count (tt_words t) w = sum_list (map (\<lambda>ob. word_count (ob_word_frequencies ob) w) obs))
     \<and> tt_latency_total t = map ob_turn_latency_total_ms obs \<and> tt_latency_samples t = map ob_turn_latency_samples obs
     \<and> tt_tools t = map ob_tool_calls obs \<and> tt_input_tokens t = map ob_input_tokens obs
     \<and> tt_output_tokens t = map ob_output_tokens obs \<and> tt_costs t = map ob_cost_microusd obs"

lemma add_observation_totals:
  assumes "totals_ok obs t" "add_observation t ob = Ok t'" "words_ok (ob_word_frequencies ob)"
  shows "totals_ok (obs @ [ob]) t'"
proof -
  obtain u ws where t': "t' = \<lparr>tt_games = tt_games t + ob_games ob, tt_wins = tt_wins t + ob_wins ob, tt_losses = tt_losses t + ob_losses ob,
       tt_ties = tt_ties t + ob_ties ob, tt_score_for = tt_score_for t + ob_score_for ob,
       tt_score_against = tt_score_against t + ob_score_against ob, tt_spread = tt_spread t + ob_spread ob,
       tt_scoring_moves = tt_scoring_moves t + ob_scoring_moves ob, tt_move_score = tt_move_score t + ob_move_score ob,
       tt_bingos = tt_bingos t + ob_bingos ob, tt_invalid_actions = tt_invalid_actions t + ob_invalid_actions ob,
       tt_passes = tt_passes t + ob_passes ob, tt_exchanges = tt_exchanges t + ob_exchanges ob, tt_premium_use = u, tt_words = ws,
       tt_latency_total = tt_latency_total t @ [ob_turn_latency_total_ms ob],
       tt_latency_samples = tt_latency_samples t @ [ob_turn_latency_samples ob],
       tt_tools = tt_tools t @ [ob_tool_calls ob], tt_input_tokens = tt_input_tokens t @ [ob_input_tokens ob],
       tt_output_tokens = tt_output_tokens t @ [ob_output_tokens ob], tt_costs = tt_costs t @ [ob_cost_microusd ob]\<rparr>"
    and u: "add_premium_counts (tt_premium_use t) (ob_premium_use ob) = Ok u"
    and ws: "try_fold (\<lambda>words (word, n). add_word words word n) (tt_words t) (ob_word_frequencies ob) = Ok ws"
    using assms(2) unfolding add_observation_def bind_add bind_add_signed
    by (elim conjE rbind_OkE) (erule (1) that[OF outcome.inject(1)[THEN iffD1, THEN sym]])
  have pre: "words_ok (tt_words t)" using assms(1) unfolding totals_ok_def by blast
  have pre': "\<forall>(w, n) \<in> set (ob_word_frequencies ob). valid_word w \<and> 0 < n" using assms(3) unfolding words_ok_def by blast
  have "words_ok ws \<and> (\<forall>w. word_count ws w = word_count (tt_words t) w + word_count (ob_word_frequencies ob) w)"
    using add_words_Ok[OF ws pre pre'] unfolding word_entries[OF assms(3)] .
  then show ?thesis using assms(1) add_premium_counts_Ok[OF u] by (simp add: t' totals_ok_def)
qed

lemma totals_Ok:
  assumes "try_fold add_observation t xs = Ok t'" "totals_ok obs t" "\<forall>ob \<in> set xs. words_ok (ob_word_frequencies ob)"
  shows "totals_ok (obs @ xs) t'"
  using assms
proof (induction xs arbitrary: t obs)
  case (Cons x xs)
  then obtain t1 where t1: "add_observation t x = Ok t1" "try_fold add_observation t1 xs = Ok t'" by (auto simp: rbind_Ok_iff)
  have "totals_ok (obs @ [x]) t1" using add_observation_totals[OF Cons.prems(2) t1(1)] Cons.prems(3) by simp
  then show ?case using Cons.IH[OF t1(2), of "obs @ [x]"] Cons.prems(3) by simp
qed simp

lemma no_totals_ok: "totals_ok [] no_totals"
proof -
  have "premium_count no_premiums q = 0" for q by (cases q) (simp_all add: no_premiums_def)
  then show ?thesis by (simp add: totals_ok_def no_totals_def words_ok_def btree.ok_empty word_count_def)
qed

section \<open>Rates\<close>

lemma ratio_rounds:
  assumes "ratio n d s = Ok (Some r)"
  shows "r * d \<le> n * s + d div 2" "n * s + d div 2 < Suc r * d"
proof -
  have "0 < d" "r = (n * s + d div 2) div d"
    using assms by (auto simp: ratio_def rbind_Ok_iff checked_mul_def checked_add_def try_from_def Let_def split: if_splits)
  then show "r * d \<le> n * s + d div 2" "n * s + d div 2 < Suc r * d"
    using div_mult_mod_eq[of "n * s + d div 2" d] mod_less_divisor[of d "n * s + d div 2"] by (simp_all, linarith+)
qed

lemma ratio_None: "ratio n d s = Ok None \<longleftrightarrow> d = 0"
  by (auto simp: ratio_def rbind_Ok_iff Let_def)

section \<open>The figures of an aggregate\<close>

lemma combine_sum:
  assumes "try_fold (\<lambda>n m. rbind (ok_or StatInvalidInput (sx_value m)) (stat_add n)) k ms = Ok v"
  shows "v = k + sum_list (map (\<lambda>m. the (sx_value m)) ms)"
  using assms
proof (induction ms arbitrary: k)
  case (Cons m ms)
  then obtain n where "sx_value m = Some n" "try_fold (\<lambda>n m. rbind (ok_or StatInvalidInput (sx_value m)) (stat_add n)) (k + n) ms = Ok v"
    by (auto simp: rbind_Ok_iff)
  then show ?case using Cons.IH[of "k + n"] by simp
qed simp

definition combines :: "(StatisticsObservation \<Rightarrow> SourcedStatistic) \<Rightarrow> StatisticsObservation set \<Rightarrow> SourcedStatistic \<Rightarrow> bool" where
  "combines g S m \<longleftrightarrow> m = (if S = {} \<or> (\<exists>x \<in> S. sx_availability (g x) = Unavailable) then stat_unavailable
     else (if \<exists>x \<in> S. sx_availability (g x) = Estimated then stat_estimated else stat_exact) (\<Sum>x \<in> S. the (sx_value (g x))))"

lemma combine_metrics_Ok:
  assumes "combine_metrics (map g vs) = Ok m" "distinct vs"
  shows "combines g (set vs) m"
proof -
  have "m = (if vs = [] \<or> list_ex (\<lambda>x. sx_availability (g x) = Unavailable) vs then stat_unavailable
     else (if list_ex (\<lambda>x. sx_availability (g x) = Estimated) vs then stat_estimated else stat_exact)
       (sum_list (map (\<lambda>x. the (sx_value (g x))) vs)))"
    using assms(1) combine_sum[of 0 "map g vs"]
    by (auto simp: combine_metrics_def rbind_Ok_iff list_ex_iff comp_def split: if_splits)
  then show ?thesis using assms(2) by (simp add: combines_def list_ex_iff sum_list_distinct_conv_sum_set)
qed

text \<open>An average of a total over a number of samples, rounded to the nearest unit.\<close>

definition averages :: "(StatisticsObservation \<Rightarrow> SourcedStatistic) \<Rightarrow> (StatisticsObservation \<Rightarrow> SourcedStatistic)
    \<Rightarrow> StatisticsObservation set \<Rightarrow> SourcedStatistic \<Rightarrow> bool" where
  "averages g h S m \<longleftrightarrow> (let total = (\<Sum>x \<in> S. the (sx_value (g x))); samples = (\<Sum>x \<in> S. the (sx_value (h x))) in
     if S = {} \<or> (\<exists>x \<in> S. sx_availability (g x) = Unavailable \<or> sx_availability (h x) = Unavailable) \<or> samples = 0
     then m = stat_unavailable
     else \<exists>v. m = (if \<exists>x \<in> S. sx_availability (g x) = Estimated \<or> sx_availability (h x) = Estimated then stat_estimated v else stat_exact v)
       \<and> v * samples \<le> total + samples div 2 \<and> total + samples div 2 < Suc v * samples)"

lemma average_metric_Ok:
  assumes "combines g S total'" "combines h S samples" "average_metric total' samples = Ok m"
  shows "averages g h S m"
proof (cases "S = {} \<or> (\<exists>x \<in> S. sx_availability (g x) = Unavailable) \<or> (\<exists>x \<in> S. sx_availability (h x) = Unavailable)")
  case True
  then have "total' = stat_unavailable \<or> samples = stat_unavailable" using assms(1,2) by (auto simp: combines_def)
  then have "m = stat_unavailable" using assms(3) by (auto simp: average_metric_def stat_unavailable_def)
  then show ?thesis using True by (auto simp: averages_def Let_def)
next
  case False
  let ?t = "\<Sum>x \<in> S. the (sx_value (g x))" and ?n = "\<Sum>x \<in> S. the (sx_value (h x))"
  have v: "sx_value total' = Some ?t" "sx_value samples = Some ?n" "sx_availability total' \<noteq> Unavailable" "sx_availability samples \<noteq> Unavailable"
    "sx_availability total' = Estimated \<longleftrightarrow> (\<exists>x \<in> S. sx_availability (g x) = Estimated)"
    "sx_availability samples = Estimated \<longleftrightarrow> (\<exists>x \<in> S. sx_availability (h x) = Estimated)"
    using assms(1,2) False by (auto simp: combines_def stat_exact_def stat_estimated_def)
  show ?thesis
  proof (cases "?n = 0")
    case True
    then show ?thesis using assms(3) v by (simp add: average_metric_def averages_def)
  next
    case n: False
    obtain q where q: "ratio ?t ?n 1 = Ok (Some q)"
      "m = (if sx_availability total' = Estimated \<or> sx_availability samples = Estimated then stat_estimated q else stat_exact q)"
      using assms(3) v(1-4) n unfolding average_metric_def by (auto elim!: rbind_OkE)
    show ?thesis
      unfolding averages_def Let_def using False n q(2) ratio_rounds[OF q(1)] v(5,6) by (auto intro!: exI[of _ q])
  qed
qed

text \<open>The figures, stated over the set of observations that the filter selects.\<close>

definition figures :: "StatisticsObservation set \<Rightarrow> OperatorStatistics \<Rightarrow> bool" where
  "figures S s \<longleftrightarrow> (let p = os_public s in
     ps_games p = card S \<and> ps_wins p + ps_losses p + ps_ties p = card S
     \<and> ps_wins p = (\<Sum>x \<in> S. ob_wins x) \<and> ps_losses p = (\<Sum>x \<in> S. ob_losses x) \<and> ps_ties p = (\<Sum>x \<in> S. ob_ties x)
     \<and> ps_score_for p = (\<Sum>x \<in> S. ob_score_for x) \<and> ps_score_against p = (\<Sum>x \<in> S. ob_score_against x)
     \<and> ps_spread p = (\<Sum>x \<in> S. ob_spread x) \<and> ps_scoring_moves p = (\<Sum>x \<in> S. ob_scoring_moves x)
     \<and> ps_bingos p = (\<Sum>x \<in> S. ob_bingos x) \<and> ps_invalid_actions p = (\<Sum>x \<in> S. ob_invalid_actions x)
     \<and> ps_passes p = (\<Sum>x \<in> S. ob_passes x) \<and> ps_exchanges p = (\<Sum>x \<in> S. ob_exchanges x)
     \<and> (\<forall>q. premium_count (ps_premium_use p) q = (\<Sum>x \<in> S. premium_count (ob_premium_use x) q))
     \<and> (\<forall>w. word_count (os_word_frequencies s) w = (\<Sum>x \<in> S. word_count (ob_word_frequencies x) w))
     \<and> ps_vocabulary_size p = card {w. \<exists>x \<in> S. 0 < word_count (ob_word_frequencies x) w}
     \<and> combines ob_tool_calls S (ps_tool_calls p) \<and> combines ob_input_tokens S (ps_input_tokens p)
     \<and> combines ob_output_tokens S (ps_output_tokens p) \<and> combines ob_cost_microusd S (ps_cost_microusd p)
     \<and> averages ob_turn_latency_total_ms ob_turn_latency_samples S (ps_average_turn_latency_ms p)
     \<and> (case ps_win_rate_millionths p of
          None \<Rightarrow> S = {}
        | Some rate \<Rightarrow> rate * card S \<le> (\<Sum>x \<in> S. ob_wins x) * 1000000 + card S div 2
            \<and> (\<Sum>x \<in> S. ob_wins x) * 1000000 + card S div 2 < Suc rate * card S)
     \<and> (case ps_average_move_score_milli p of
          None \<Rightarrow> (\<Sum>x \<in> S. ob_scoring_moves x) = 0
        | Some average \<Rightarrow> average * (\<Sum>x \<in> S. ob_scoring_moves x)
              \<le> (\<Sum>x \<in> S. ob_move_score x) * 1000 + (\<Sum>x \<in> S. ob_scoring_moves x) div 2
            \<and> (\<Sum>x \<in> S. ob_move_score x) * 1000 + (\<Sum>x \<in> S. ob_scoring_moves x) div 2
              < Suc average * (\<Sum>x \<in> S. ob_scoring_moves x))
     \<and> os_source_ids s = sorted_list_of_set (ob_source_id ` S))"

lemma validate_observation_Ok:
  assumes "validate_observation ob = Ok u"
  shows "ob_games ob = 1" "ob_wins ob + ob_losses ob + ob_ties ob = 1" "\<forall>(w, n) \<in> set (ob_word_frequencies ob). valid_word w \<and> 0 < n"
    "stat_valid_id (ob_source_id ob)"
  using assms unfolding validate_observation_def
  by (auto simp: list_ex_iff checked_add_def split: if_splits option.splits bind_splits)

lemma words_domain:
  assumes "words_ok ws"
  shows "length ws = card {w. 0 < word_count ws w}"
proof -
  have ok: "btree_ok ws" using assms by (simp add: words_ok_def)
  have "{w. 0 < word_count ws w} = set (btree_keys ws)"
  proof (rule set_eqI)
    fix w
    have "0 < n" if "btree_get ws w = Some n" for n using assms that btree_get_Some[OF ok] by (auto simp: words_ok_def)
    then show "w \<in> {w. 0 < word_count ws w} \<longleftrightarrow> w \<in> set (btree_keys ws)"
      using btree_get_None[of ws w] by (cases "btree_get ws w") (auto simp: word_count_def)
  qed
  then show ?thesis using distinct_card[OF btree_distinct[OF ok]] by (simp add: btree_keys_def)
qed

lemma aggregate_values_Ok:
  assumes "aggregate_values f vs = Ok (p, ws)"
  obtains t total' samples where "try_fold add_observation no_totals vs = Ok t" "ws = tt_words t"
    "ps_games p = tt_games t" "ps_wins p = tt_wins t" "ps_losses p = tt_losses t" "ps_ties p = tt_ties t"
    "ps_score_for p = tt_score_for t" "ps_score_against p = tt_score_against t" "ps_spread p = tt_spread t"
    "ps_scoring_moves p = tt_scoring_moves t" "ps_bingos p = tt_bingos t" "ps_invalid_actions p = tt_invalid_actions t"
    "ps_passes p = tt_passes t" "ps_exchanges p = tt_exchanges t" "ps_premium_use p = tt_premium_use t"
    "ps_vocabulary_size p = length (tt_words t)"
    "ratio (tt_wins t) (tt_games t) RATE_SCALE = Ok (ps_win_rate_millionths p)"
    "ratio (tt_move_score t) (tt_scoring_moves t) 1000 = Ok (ps_average_move_score_milli p)"
    "combine_metrics (tt_tools t) = Ok (ps_tool_calls p)" "combine_metrics (tt_input_tokens t) = Ok (ps_input_tokens p)"
    "combine_metrics (tt_output_tokens t) = Ok (ps_output_tokens p)" "combine_metrics (tt_costs t) = Ok (ps_cost_microusd p)"
    "combine_metrics (tt_latency_total t) = Ok total'" "combine_metrics (tt_latency_samples t) = Ok samples"
    "average_metric total' samples = Ok (ps_average_turn_latency_ms p)"
  using assms unfolding aggregate_values_def
  by (elim rbind_OkE) (auto simp: try_from_def split: if_splits)

lemma aggregate_figures:
  assumes "aggregate_statistics f xs = Ok s" "\<forall>ob \<in> set xs. btree_ok (ob_word_frequencies ob)"
  shows "figures (set (selected f xs)) s"
proof -
  define vs where "vs = btree_values (keep [] (selected f xs))"
  let ?S = "set (selected f xs)"
  obtain a: "list_all (\<lambda>ob. validate_observation ob = Ok ()) xs" "one_content ?S"
    "accumulator_operator \<lparr>ac_filter = f, ac_observations = keep [] (selected f xs)\<rparr> = Ok s"
    using assms(1) unfolding aggregate_iff by blast
  note kv = kept_values[OF a(2), folded vs_def]
  obtain p ws where pw: "aggregate_values f vs = Ok (p, ws)" "s = \<lparr>os_public = p, os_word_frequencies = ws,
      os_source_ids = map ob_source_id vs\<rparr>"
    using a(3) kv(3) by (auto simp: accumulator_operator_def rbind_Ok_iff vs_def)
  have vo: "validate_observation x = Ok ()" "words_ok (ob_word_frequencies x)" if "x \<in> ?S" for x
    using a(1) that assms(2) validate_observation_Ok(3)[of x] by (auto simp: list_all_iff selected_def words_ok_def)
  obtain t total' samples where t: "try_fold add_observation no_totals vs = Ok t" "ws = tt_words t"
    "ps_games p = tt_games t" "ps_wins p = tt_wins t" "ps_losses p = tt_losses t" "ps_ties p = tt_ties t"
    "ps_score_for p = tt_score_for t" "ps_score_against p = tt_score_against t" "ps_spread p = tt_spread t"
    "ps_scoring_moves p = tt_scoring_moves t" "ps_bingos p = tt_bingos t" "ps_invalid_actions p = tt_invalid_actions t"
    "ps_passes p = tt_passes t" "ps_exchanges p = tt_exchanges t" "ps_premium_use p = tt_premium_use t"
    "ps_vocabulary_size p = length (tt_words t)"
    "ratio (tt_wins t) (tt_games t) RATE_SCALE = Ok (ps_win_rate_millionths p)"
    "ratio (tt_move_score t) (tt_scoring_moves t) 1000 = Ok (ps_average_move_score_milli p)"
    "combine_metrics (tt_tools t) = Ok (ps_tool_calls p)" "combine_metrics (tt_input_tokens t) = Ok (ps_input_tokens p)"
    "combine_metrics (tt_output_tokens t) = Ok (ps_output_tokens p)" "combine_metrics (tt_costs t) = Ok (ps_cost_microusd p)"
    "combine_metrics (tt_latency_total t) = Ok total'" "combine_metrics (tt_latency_samples t) = Ok samples"
    "average_metric total' samples = Ok (ps_average_turn_latency_ms p)"
    by (rule aggregate_values_Ok[OF pw(1)])
  have tt: "totals_ok vs t" using totals_Ok[OF t(1) no_totals_ok] vo(2) kv(1) by simp
  have sums: "sum_list (map g vs) = (\<Sum>x \<in> ?S. g x)" for g :: "StatisticsObservation \<Rightarrow> nat"
    using kv(1,2) by (simp add: sum_list_distinct_conv_sum_set)
  have isums: "sum_list (map g vs) = (\<Sum>x \<in> ?S. g x)" for g :: "StatisticsObservation \<Rightarrow> int"
    using kv(1,2) by (simp add: sum_list_distinct_conv_sum_set)
  note T = tt[unfolded totals_ok_def sums isums]
  have games: "tt_games t = card ?S" "tt_wins t + tt_losses t + tt_ties t = card ?S"
  proof -
    show "tt_games t = card ?S" using T validate_observation_Ok(1)[OF vo(1)] by simp
    have "(\<Sum>x \<in> ?S. ob_wins x + ob_losses x + ob_ties x) = card ?S" using validate_observation_Ok(2)[OF vo(1)] by simp
    then show "tt_wins t + tt_losses t + tt_ties t = card ?S" using T by (simp add: sum.distrib)
  qed
  have w: "word_count (tt_words t) w = (\<Sum>x \<in> ?S. word_count (ob_word_frequencies x) w)" "words_ok (tt_words t)" for w
    using T by blast+
  have "{w. 0 < word_count (tt_words t) w} = {w. \<exists>x \<in> ?S. 0 < word_count (ob_word_frequencies x) w}"
    unfolding w(1) by (simp only: neq0_conv[symmetric] sum_eq_0_iff[OF finite_set] ball_simps bex_simps)
  then have vocabulary: "length (tt_words t) = card {w. \<exists>x \<in> ?S. 0 < word_count (ob_word_frequencies x) w}"
    using words_domain[OF w(2)] by simp
  have "sorted_wrt (<) (map ob_source_id vs)"
    using kept_keyed[of "[]" "selected f xs"] kv(3) by (simp add: keyed_def btree_ok_def btree_keys_def[of "[]"] vs_def)
  then have ids: "map ob_source_id vs = sorted_list_of_set (ob_source_id ` ?S)"
    using kv(1) by (metis list.set_map sorted_list_of_set.idem_if_sorted_distinct strict_sorted_iff)
  have cm: "combines g ?S m" if "combine_metrics (map g vs) = Ok m" for g m
    using combine_metrics_Ok[OF that kv(2)] kv(1) by simp
  have m: "combines ob_tool_calls ?S (ps_tool_calls p)" "combines ob_input_tokens ?S (ps_input_tokens p)"
    "combines ob_output_tokens ?S (ps_output_tokens p)" "combines ob_cost_microusd ?S (ps_cost_microusd p)"
    by (rule cm, use t(19-22) T in simp)+
  have latency: "averages ob_turn_latency_total_ms ob_turn_latency_samples ?S (ps_average_turn_latency_ms p)"
    by (rule average_metric_Ok[OF cm cm t(25)]) (use t(23,24) T in simp_all)
  have rate: "case ps_win_rate_millionths p of None \<Rightarrow> ?S = {}
      | Some rate \<Rightarrow> rate * card ?S \<le> tt_wins t * 1000000 + card ?S div 2 \<and> tt_wins t * 1000000 + card ?S div 2 < Suc rate * card ?S"
    using t(17) ratio_rounds[of "tt_wins t" "card ?S" 1000000] ratio_None[of "tt_wins t" "card ?S" 1000000]
    by (auto simp: games(1) RATE_SCALE_def split: option.splits)
  have average: "case ps_average_move_score_milli p of None \<Rightarrow> tt_scoring_moves t = 0
      | Some a \<Rightarrow> a * tt_scoring_moves t \<le> tt_move_score t * 1000 + tt_scoring_moves t div 2
        \<and> tt_move_score t * 1000 + tt_scoring_moves t div 2 < Suc a * tt_scoring_moves t"
    using t(18) ratio_rounds[of "tt_move_score t" "tt_scoring_moves t" 1000] ratio_None[of "tt_move_score t" "tt_scoring_moves t" 1000]
    by (auto split: option.splits)
  have n: "tt_wins t = (\<Sum>x \<in> ?S. ob_wins x)" "tt_scoring_moves t = (\<Sum>x \<in> ?S. ob_scoring_moves x)"
    "tt_move_score t = (\<Sum>x \<in> ?S. ob_move_score x)" using T by blast+
  show ?thesis unfolding figures_def Let_def pw(2)
    using T games w(1) vocabulary ids m latency rate[unfolded n] average[unfolded n] by (simp add: t(2-16))
qed

end
