(* ===== verification/StatisticsStoreFacts.thy ===== *)
theory StatisticsStoreFacts
  imports StatisticsStore AggregateFacts
begin

text \<open>
  The invariant of the statistics tables and what the repository returns under it: every stored source
  loads as it was recorded, recording again is idempotent, and a query is the aggregation of all
  stored observations.
\<close>

section \<open>Identifiers\<close>

lemma decimal_1_2 [simp]: "decimal (Suc 0) = ''1''" "decimal 2 = ''2''"
  by (simp_all add: decimal.simps char_of_def) code_simp+

lemma strip_observation_id: "strip_suffix (observation_id source n) ('':seat-'' @ decimal n) = Some source"
  by (simp add: strip_suffix_def observation_id_def)

lemma observation_id_inj: "observation_id a m = observation_id b n \<Longrightarrow> m \<in> {1, 2} \<Longrightarrow> n \<in> {1, 2} \<Longrightarrow> a = b \<and> m = n"
  by (auto simp: observation_id_def)

section \<open>The invariant\<close>

text \<open>The rows of a recorded source.\<close>

definition source_observations :: "StatSourceRow \<Rightarrow> StatisticsObservation list" where
  "source_observations r = [fst (sor_observations r), snd (sor_observations r)]"

definition stored_observations :: "StatDb \<Rightarrow> StatisticsObservation list" where
  "stored_observations db = concat (map source_observations (sdb_sources db))"

definition recorded :: "env \<Rightarrow> StatSourceRow \<Rightarrow> bool" where
  "recorded E r \<longleftrightarrow> (\<exists>source derived now. r = source_row source derived now \<and> derive E source = Ok derived \<and> 0 \<le> now)"

definition stat_inv :: "env \<Rightarrow> StatDb \<Rightarrow> bool" where
  "stat_inv E db \<longleftrightarrow> distinct (map sor_source_id (sdb_sources db)) \<and> list_all (recorded E) (sdb_sources db)
     \<and> sdb_observations db = concat (map (\<lambda>r. map (observation_row (sor_source_id r)) (source_observations r)) (sdb_sources db))
     \<and> list_all check_observation_row (sdb_observations db)"

text \<open>What a derived pair says of itself.\<close>

lemma derived_facts:
  assumes "derive E source = Ok (a, b)"
  shows "ob_source_id a = observation_id (mi_source_id source) 1" "ob_source_id b = observation_id (mi_source_id source) 2"
    "so_seat_number (ob_scope a) = 1" "so_seat_number (ob_scope b) = 2" "ob_schema_version a = STATISTICS_SCHEMA_VERSION"
    "ob_schema_version b = STATISTICS_SCHEMA_VERSION" "stat_valid_id (mi_source_id source)"
    "mi_schema_version source = STATISTICS_SCHEMA_VERSION" "0 \<le> mi_finished_at source"
    "btree_ok (ob_word_frequencies a)" "btree_ok (ob_word_frequencies b)"
proof -
  from assms obtain r res where d: "validate_input E source = Ok (r, res)"
    "head a = outcome_head E source r res 0 (fst (mi_participants source))"
    "head b = outcome_head E source r res 1 (snd (mi_participants source))"
    "tally r One (map ge_kind (mi_events source)) a" "tally r Two (map ge_kind (mi_events source)) b"
    by (rule derive_Ok) blast
  show "ob_source_id a = observation_id (mi_source_id source) 1" "ob_source_id b = observation_id (mi_source_id source) 2"
    "so_seat_number (ob_scope a) = 1" "so_seat_number (ob_scope b) = 2" "ob_schema_version a = STATISTICS_SCHEMA_VERSION"
    "ob_schema_version b = STATISTICS_SCHEMA_VERSION"
    using d(2,3) by (simp_all add: head_def outcome_head_def numeral_2_eq_2)
  show "stat_valid_id (mi_source_id source)" "mi_schema_version source = STATISTICS_SCHEMA_VERSION" "0 \<le> mi_finished_at source"
    using validate_input_Ok[OF d(1)] by simp_all
  show "btree_ok (ob_word_frequencies a)" "btree_ok (ob_word_frequencies b)"
    using d(4,5) by (simp_all add: tally_def Let_def words_ok_def)
qed

lemma observation_row_simps [simp]:
  "oor_source_id (observation_row i ob) = i" "oor_observation_id (observation_row i ob) = ob_source_id ob"
  "oor_seat_number (observation_row i ob) = int (so_seat_number (ob_scope ob))"
  by (simp_all add: observation_row_def)

lemma source_row_simps [simp]:
  "sor_source_id (source_row s d t) = mi_source_id s" "sor_source (source_row s d t) = s"
  "sor_observations (source_row s d t) = d"
  by (simp_all add: source_row_def)

lemma insert_observation_at:
  assumes "ob_source_id ob = observation_id i (so_seat_number (ob_scope ob))"
  shows "insert_observation db ob = insert_observation_row db (observation_row i ob)"
  unfolding insert_observation_def assms strip_observation_id by simp

lemma record_insert_Ok:
  assumes "derive E source = Ok derived" "record_insert source derived now db = (db', Ok r)"
  shows "r = StatApplied derived" "mi_source_id source \<notin> set (map sor_source_id (sdb_sources db))"
    "check_source_row (source_row source derived now)"
    "db' = \<lparr>sdb_sources = sdb_sources db @ [source_row source derived now],
       sdb_observations = sdb_observations db @ map (observation_row (mi_source_id source)) [fst derived, snd derived]\<rparr>"
    "list_all (\<lambda>ob. check_observation_row (observation_row (mi_source_id source) ob)) [fst derived, snd derived]"
proof -
  obtain a b where ab: "derived = (a, b)" by (cases derived)
  note f = derived_facts[OF assms(1)[unfolded ab]]
  have "insert_observation d a = insert_observation_row d (observation_row (mi_source_id source) a)"
    "insert_observation d b = insert_observation_row d (observation_row (mi_source_id source) b)" for d
    by (rule insert_observation_at, simp add: f)+
  then show "r = StatApplied derived" "mi_source_id source \<notin> set (map sor_source_id (sdb_sources db))"
    "check_source_row (source_row source derived now)"
    "db' = \<lparr>sdb_sources = sdb_sources db @ [source_row source derived now],
       sdb_observations = sdb_observations db @ map (observation_row (mi_source_id source)) [fst derived, snd derived]\<rparr>"
    "list_all (\<lambda>ob. check_observation_row (observation_row (mi_source_id source) ob)) [fst derived, snd derived]"
    using assms(2)
    by (auto simp: record_insert_def transaction_Ok rbind_Ok_iff insert_source_row_def insert_observation_row_def ab split: if_splits)
qed

lemma record_insert_inv:
  assumes "stat_inv E db" "derive E source = Ok derived" "0 \<le> now"
  shows "stat_inv E (fst (record_insert source derived now db))"
proof (cases "record_insert source derived now db")
  case (Pair db' r)
  show ?thesis
  proof (cases r)
    case (Ok x)
    note i = record_insert_Ok[OF assms(2) Pair[unfolded Ok]]
    have "recorded E (source_row source derived now)" using assms(2,3) unfolding recorded_def by blast
    then show ?thesis using assms(1) i(2,5) by (auto simp: Pair stat_inv_def i(4) source_observations_def)
  next
    case (Err e)
    then have "snd (record_insert source derived now db) = Err e" using Pair by simp
    then have "fst (record_insert source derived now db) = db" unfolding record_insert_def by (rule transaction_Err)
    then show ?thesis using assms(1) by simp
  qed (use assms(1) Pair in \<open>auto simp: record_insert_def transaction_def split: outcome.splits\<close>)
qed

lemma empty_stat_inv: "stat_inv E empty_stat_db"
  by (simp add: stat_inv_def empty_stat_db_def)

lemma stat_reachable_inv: "stat_reachable E db \<Longrightarrow> stat_inv E db"
  unfolding stat_reachable_def
  by (induction rule: rtranclp_induct) (auto simp: empty_stat_inv elim!: stat_step.cases intro: record_insert_inv)

section \<open>Loading\<close>

lemma stored_rows:
  assumes "stat_inv E db" "r \<in> set (sdb_sources db)"
  shows "filter (\<lambda>o'. oor_source_id o' = sor_source_id r) (sdb_observations db)
    = map (observation_row (sor_source_id r)) (source_observations r)"
proof -
  have d: "distinct (map sor_source_id (sdb_sources db))" using assms(1) by (simp add: stat_inv_def)
  have "filter (\<lambda>o'. oor_source_id o' = sor_source_id r)
      (concat (map (\<lambda>r. map (observation_row (sor_source_id r)) (source_observations r)) rs))
    = (if r \<in> set rs then map (observation_row (sor_source_id r)) (source_observations r) else [])"
    if "set rs \<subseteq> set (sdb_sources db)" "distinct rs" for rs
    using that
  proof (induction rs)
    case (Cons x rs)
    have "sor_source_id x = sor_source_id r \<longleftrightarrow> x = r" using Cons.prems(1) assms(2) unique_key[OF d, of x r] by auto
    then show ?case using Cons by (auto simp: filter_map comp_def filter_empty_conv source_observations_def)
  qed simp
  from this[OF subset_refl] d show ?thesis using assms by (auto simp: stat_inv_def distinct_map)
qed

lemma store_validate_id_Ok: "store_validate_id i = Ok u \<longleftrightarrow> stat_valid_id i"
  by (auto simp: store_validate_id_def stat_valid_id_def valid_id_def list_all_iff list_ex_iff)

lemma load_stored:
  assumes "stat_inv E db" "r \<in> set (sdb_sources db)"
  shows "load_source E db (sor_source_id r) = Ok (sor_source r, sor_observations r)"
proof -
  obtain source derived now where r: "r = source_row source derived now" "derive E source = Ok derived" "0 \<le> now"
    using assms by (auto simp: stat_inv_def list_all_iff recorded_def)
  obtain a b where ab: "derived = (a, b)" by (cases derived)
  note f = derived_facts[OF r(2)[unfolded ab]]
  have id: "sor_source_id r = mi_source_id source" using r(1) by simp
  have "distinct (map sor_source_id (sdb_sources db))" using assms(1) by (simp add: stat_inv_def)
  then have find: "List.find (\<lambda>x. sor_source_id x = sor_source_id r) (sdb_sources db) = Some r"
    using assms(2) by (rule distinct_map_find)
  have rows: "filter (\<lambda>o'. oor_source_id o' = sor_source_id r) (sdb_observations db)
      = [observation_row (mi_source_id source) a, observation_row (mi_source_id source) b]"
    using stored_rows[OF assms] r(1) ab by (simp add: source_observations_def)
  have agree: "row_agrees (observation_row (mi_source_id source) a) a" "row_agrees (observation_row (mi_source_id source) b) b"
    using f(5,6) by (simp_all add: row_agrees_def observation_row_def)
  have "validate_observation_rows db (sor_source_id r) derived = Ok ()"
    unfolding validate_observation_rows_def rows using agree f(3,4) by (simp add: ab Let_def)
  moreover have "parse_source r = Ok source"
    using r(1,3) f(8) by (simp add: parse_source_def source_row_def Let_def)
  moreover have "store_validate_id (sor_source_id r) = Ok ()" using f(7) by (simp add: store_validate_id_Ok id)
  ultimately show ?thesis using find r(1,2) by (simp add: load_source_def)
qed

lemma load_missing:
  assumes "stat_valid_id i" "i \<notin> set (map sor_source_id (sdb_sources db))"
  shows "load_source E db i = Err SourceNotFound"
proof -
  have "List.find (\<lambda>r. sor_source_id r = i) (sdb_sources db) = None" using assms(2) by (auto simp: find_None_iff)
  moreover have "store_validate_id i = Ok ()" using assms(1) by (simp add: store_validate_id_Ok)
  ultimately show ?thesis by (simp add: load_source_def)
qed

section \<open>Recording\<close>

lemma record_again:
  assumes "stat_inv E db" "r \<in> set (sdb_sources db)" "mi_source_id source = sor_source_id r" "derive E source = Ok derived" "0 \<le> now"
  shows "record_source E db source now = (db, if source = sor_source r then Ok (StatAlreadyApplied derived) else Err StatRepConflict)"
proof -
  obtain source' derived' now' where r: "r = source_row source' derived' now'" "derive E source' = Ok derived'"
    using assms(1,2) by (auto simp: stat_inv_def list_all_iff recorded_def)
  then have "derived = sor_observations r" if "source = sor_source r" using that assms(4) by simp
  then show ?thesis using load_stored[OF assms(1,2)] assms(3-5) by (auto simp: record_source_def record_check_def)
qed

lemma record_fresh:
  assumes "stat_inv E db" "derive E source = Ok (a, b)" "0 \<le> now"
    "mi_source_id source \<notin> set (map sor_source_id (sdb_sources db))"
    "check_observation_row (observation_row (mi_source_id source) a)" "check_observation_row (observation_row (mi_source_id source) b)"
  shows "record_source E db source now = (\<lparr>sdb_sources = sdb_sources db @ [source_row source (a, b) now],
       sdb_observations = sdb_observations db @ map (observation_row (mi_source_id source)) [a, b]\<rparr>, Ok (StatApplied (a, b)))"
proof -
  note f = derived_facts[OF assms(2)]
  have ins: "insert_observation d a = insert_observation_row d (observation_row (mi_source_id source) a)"
    "insert_observation d b = insert_observation_row d (observation_row (mi_source_id source) b)" for d
    by (rule insert_observation_at, simp add: f)+
  have chk: "check_source_row (source_row source (a, b) now)"
    using f(8,9) assms(3) by (simp add: check_source_row_def source_row_def STATISTICS_SCHEMA_VERSION_def)
  have old: "oor_source_id x \<in> set (map sor_source_id (sdb_sources db))
      \<and> (\<exists>n \<in> {1, 2}. oor_observation_id x = observation_id (oor_source_id x) n)"
    if mem: "x \<in> set (sdb_observations db)" for x
  proof -
    obtain r ob where x: "r \<in> set (sdb_sources db)" "ob \<in> set (source_observations r)" "x = observation_row (sor_source_id r) ob"
      using mem assms(1) by (auto simp: stat_inv_def)
    obtain s a' b' t where r: "r = source_row s (a', b') t" "derive E s = Ok (a', b')"
      using x(1) assms(1) by (auto simp: stat_inv_def list_all_iff recorded_def)
    have "oor_source_id x \<in> set (map sor_source_id (sdb_sources db))" using x(1,3) by simp
    then show ?thesis using x(2,3) derived_facts(1,2)[OF r(2)] r(1) by (auto simp: source_observations_def)
  qed
  have fresh: "oor_source_id x \<noteq> mi_source_id source" "oor_observation_id x \<noteq> observation_id (mi_source_id source) 1"
    "oor_observation_id x \<noteq> observation_id (mi_source_id source) 2" if "x \<in> set (sdb_observations db)" for x
    using old[OF that] assms(4) observation_id_inj by (metis insertCI)+
  have new: "observation_id (mi_source_id source) (Suc 0) \<notin> oor_observation_id ` set (sdb_observations db)"
    "observation_id (mi_source_id source) 2 \<notin> oor_observation_id ` set (sdb_observations db)"
    "(mi_source_id source, n) \<notin> (\<lambda>r. (oor_source_id r, oor_seat_number r)) ` set (sdb_observations db)" for n
    using fresh by (auto simp: image_iff) (metis One_nat_def, metis, metis)
  have "record_check E db source now = Ok ((a, b), None)"
    using load_missing[OF f(7) assms(4)] assms(2,3) by (simp add: record_check_def)
  moreover have "observation_id (mi_source_id source) 1 \<noteq> observation_id (mi_source_id source) 2"
    using observation_id_inj[of "mi_source_id source" 1 "mi_source_id source" 2] by auto
  ultimately show ?thesis
    using chk assms(4-6) new f(1-4)
    by (simp add: record_source_def record_insert_def transaction_def insert_source_row_def ins insert_observation_row_def)
qed

section \<open>Queries\<close>

lemma rebuild_fold:
  assumes "stat_inv E db" "set ids \<subseteq> set (map sor_source_id (sdb_sources db))"
  shows "\<exists>rs. map sor_source_id rs = ids \<and> set rs \<subseteq> set (sdb_sources db)
    \<and> (\<forall>acc acc'. try_fold (rebuild_source E db) acc ids = Ok acc'
        \<longleftrightarrow> try_fold accumulator_add acc (concat (map source_observations rs)) = Ok acc')"
  using assms(2)
proof (induction ids)
  case (Cons i ids)
  obtain r where r: "r \<in> set (sdb_sources db)" "sor_source_id r = i" using Cons.prems by auto
  obtain rs where rs: "map sor_source_id rs = ids" "set rs \<subseteq> set (sdb_sources db)"
    "\<And>acc acc'. try_fold (rebuild_source E db) acc ids = Ok acc'
        \<longleftrightarrow> try_fold accumulator_add acc (concat (map source_observations rs)) = Ok acc'"
    using Cons.IH Cons.prems by auto
  have "rebuild_source E db acc i = Ok acc1 \<longleftrightarrow> try_fold accumulator_add acc (source_observations r) = Ok acc1" for acc acc1
    using load_stored[OF assms(1) r(1)] r(2) by (auto simp: rebuild_source_def source_observations_def rbind_Ok_iff)
  then have "try_fold (rebuild_source E db) acc (i # ids) = Ok acc'
      \<longleftrightarrow> try_fold accumulator_add acc (concat (map source_observations (r # rs))) = Ok acc'" for acc acc'
    using rs(3) by (simp add: rbind_Ok_iff try_fold_append)
  then show ?case using rs(1,2) r by (intro exI[of _ "r # rs"]) simp
qed simp

lemma rebuild_operator_iff:
  assumes "stat_inv E db"
  shows "rebuild_operator E db f = Ok s \<longleftrightarrow> aggregate_statistics f (stored_observations db) = Ok s"
proof -
  obtain rs where rs: "map sor_source_id rs = sort (map sor_source_id (sdb_sources db))" "set rs \<subseteq> set (sdb_sources db)"
    "\<And>acc acc'. try_fold (rebuild_source E db) acc (sort (map sor_source_id (sdb_sources db))) = Ok acc'
        \<longleftrightarrow> try_fold accumulator_add acc (concat (map source_observations rs)) = Ok acc'"
    using rebuild_fold[OF assms, of "sort (map sor_source_id (sdb_sources db))"] by auto
  have d: "distinct (map sor_source_id (sdb_sources db))" using assms by (simp add: stat_inv_def)
  have "sor_source_id ` set rs = sor_source_id ` set (sdb_sources db)" using arg_cong[OF rs(1), of set] by simp
  then have "set rs = set (sdb_sources db)" using rs(2) d by (metis distinct_map inj_on_image_eq_iff subset_refl)
  then have same: "set (concat (map source_observations rs)) = set (stored_observations db)" by (simp add: stored_observations_def)
  have "rebuild_operator E db f = Ok s \<longleftrightarrow> aggregate_statistics f (concat (map source_observations rs)) = Ok s"
    using rs(3) by (auto simp: rebuild_operator_def rebuild_def aggregate_statistics_def rbind_Ok_iff)
  then show ?thesis using aggregate_permute[OF same] by simp
qed

lemma rebuild_public_operator: "rebuild_public E db f = Ok p \<longleftrightarrow> (\<exists>s. rebuild_operator E db f = Ok s \<and> p = os_public s)"
  by (force simp: rebuild_public_def rebuild_operator_def rbind_Ok_iff accumulator_public_def accumulator_operator_def)

lemma stored_words_ok:
  assumes "stat_inv E db" "ob \<in> set (stored_observations db)"
  shows "btree_ok (ob_word_frequencies ob)"
proof -
  obtain r where r: "r \<in> set (sdb_sources db)" "ob \<in> set (source_observations r)" using assms(2) by (auto simp: stored_observations_def)
  obtain s a b t where "r = source_row s (a, b) t" "derive E s = Ok (a, b)"
    using r(1) assms(1) by (auto simp: stat_inv_def list_all_iff recorded_def)
  then show ?thesis using derived_facts(10,11) r(2) by (auto simp: source_observations_def)
qed

end
