(* ===== verification/ObservationTypes.thy ===== *)
theory ObservationTypes
  imports StatisticsGames StatisticsStoreFacts
begin

text \<open>
  When a derived observation is well formed. A Rust string is valid UTF-8, which \<open>whole_utf8\<close> states
  of a byte list; on such strings characters of a concatenation are the characters of its parts. The
  observation identifier is the source identifier with seven bytes added, which is where the bound of
  256 bytes is lost.
\<close>

section \<open>UTF-8 strings\<close>

fun whole_bytes :: "nat list \<Rightarrow> bool" where
  "whole_bytes [] = True"
| "whole_bytes (a # bs) =
     (if a < 128 then whole_bytes bs
      else if a < 224 then (case bs of b # cs \<Rightarrow> whole_bytes cs | _ \<Rightarrow> False)
      else if a < 240 then (case bs of b # c # cs \<Rightarrow> whole_bytes cs | _ \<Rightarrow> False)
      else (case bs of b # c # d # cs \<Rightarrow> whole_bytes cs | _ \<Rightarrow> False))"

definition whole_utf8 :: "string \<Rightarrow> bool" where
  "whole_utf8 s = whole_bytes (map of_char s)"

lemma decode_append: "whole_bytes xs \<Longrightarrow> decode_utf8 (xs @ ys) = decode_utf8 xs @ decode_utf8 ys"
proof (induction xs rule: whole_bytes.induct)
  case (2 a bs)
  consider "a < 128" | "128 \<le> a" "a < 224" | "224 \<le> a" "a < 240" | "240 \<le> a" by linarith
  then show ?case
  proof cases
    case 1
    then show ?thesis using 2 by simp
  next
    case c: 2
    then obtain b cs where bs: "bs = b # cs" "whole_bytes cs" using 2(5) by (auto split: list.splits)
    have "decode_utf8 (cs @ ys) = decode_utf8 cs @ decode_utf8 ys" by (rule 2(2)[OF _ _ bs]) (use c in simp_all)
    then show ?thesis using c bs by simp
  next
    case c: 3
    then obtain b b' cs where bs: "bs = b # b' # cs" "whole_bytes cs" using 2(5) by (auto split: list.splits)
    have "decode_utf8 (cs @ ys) = decode_utf8 cs @ decode_utf8 ys" by (rule 2(3)[OF _ _ _ bs(1) refl bs(2)]) (use c in simp_all)
    then show ?thesis using c bs by simp
  next
    case c: 4
    then obtain b b' b'' cs where bs: "bs = b # b' # b'' # cs" "whole_bytes cs" using 2(5) by (auto split: list.splits)
    have "decode_utf8 (cs @ ys) = decode_utf8 cs @ decode_utf8 ys" by (rule 2(4)[OF _ _ _ bs(1) refl refl bs(2)]) (use c in simp_all)
    then show ?thesis using c bs by simp
  qed
qed simp

lemma decode_nonempty: "whole_bytes xs \<Longrightarrow> xs \<noteq> [] \<Longrightarrow> decode_utf8 xs \<noteq> []"
  by (cases xs) (auto split: list.splits if_splits)

lemma utf8_append: "whole_utf8 s \<Longrightarrow> utf8_chars (s @ t) = utf8_chars s @ utf8_chars t"
  by (simp add: utf8_chars_def whole_utf8_def decode_append)

lemma trim_append:
  assumes "trim_chars cs = cs" "cs \<noteq> []" "ds \<noteq> []" "\<not> is_whitespace (last ds)"
  shows "trim_chars (cs @ ds) = cs @ ds"
proof -
  have "\<not> is_whitespace (hd cs)"
  proof
    assume ws: "is_whitespace (hd cs)"
    have "length (trim_chars cs) \<le> length (dropWhile is_whitespace cs)"
      unfolding trim_chars_def by (metis length_dropWhile_le length_rev)
    also have "\<dots> < length cs" using ws assms(2) by (cases cs) (auto simp: le_imp_less_Suc length_dropWhile_le)
    finally show False using assms(1) by simp
  qed
  then have "dropWhile is_whitespace (cs @ ds) = cs @ ds" using assms(2) by (cases cs) auto
  moreover have "dropWhile is_whitespace (rev (cs @ ds)) = rev (cs @ ds)"
  proof (cases ds rule: rev_cases)
    case (snoc ds' d)
    then show ?thesis using assms(4) by simp
  qed (use assms(3) in simp)
  ultimately show ?thesis by (simp add: trim_chars_def)
qed

lemma seat_suffix:
  assumes "n \<in> {1, 2}"
  shows "utf8_chars ('':seat-'' @ decimal n) = map of_char ('':seat-'' @ decimal n)"
    "length ('':seat-'' @ decimal n) = 7" "list_all (\<lambda>c. \<not> is_control c) (map of_char ('':seat-'' @ decimal n))"
    "\<not> is_whitespace (last (map of_char ('':seat-'' @ decimal n)))"
  using assms by (auto simp: utf8_chars_def is_control_def is_whitespace_def)

lemma observation_id_valid:
  assumes "stat_valid_id source" "whole_utf8 source" "n \<in> {1, 2}"
  shows "stat_valid_id (observation_id source n) \<longleftrightarrow> length source \<le> 249"
proof -
  note s = seat_suffix[OF assms(3)]
  have c: "utf8_chars (observation_id source n) = utf8_chars source @ map of_char ('':seat-'' @ decimal n)"
    using utf8_append[OF assms(2)] s(1) by (simp add: observation_id_def)
  have "source \<noteq> []" using assms(1) by (simp add: stat_valid_id_def valid_id_def)
  then have ne: "utf8_chars source \<noteq> []" using assms(2) decode_nonempty[of "map of_char source"] by (simp add: utf8_chars_def whole_utf8_def)
  have "trim_chars (utf8_chars source) = utf8_chars source" using assms(1) by (simp add: stat_valid_id_def valid_id_def is_trimmed_def)
  from trim_append[OF this ne _ s(4)] have "is_trimmed (observation_id source n)" by (simp add: is_trimmed_def c)
  moreover have "list_all (\<lambda>c. \<not> is_control c) (utf8_chars (observation_id source n))"
    using assms(1) s(3) unfolding c by (simp only: list_all_append stat_valid_id_def valid_id_def)
  moreover have "length (observation_id source n) = length source + 7" "observation_id source n \<noteq> []"
    using s(2) by (simp_all only: observation_id_def length_append) simp
  ultimately show ?thesis by (simp add: stat_valid_id_def valid_id_def)
qed

section \<open>Derived observations\<close>

lemma builtin_texts:
  "list_all stat_valid_id [''en'', ''fr'', ''english-v1'', ''french-v1'', ''word-arena-en-world-v1'', ''word-arena-fr-v1'', ''1.0.0'']"
  "list_all valid_sha256 [ENGLISH_CONTENT_SHA256, FRENCH_CONTENT_SHA256]"
  by code_simp+

lemma builtin_scope:
  "stat_valid_id (language_code (rs_language (the_builtin k)))" "stat_valid_id (ruleset_id_str k)"
  "stat_valid_id (pi_pack_id (rs_lexicon (the_builtin k)))" "stat_valid_id (pi_pack_version (rs_lexicon (the_builtin k)))"
  "valid_sha256 (pi_content_sha256 (rs_lexicon (the_builtin k)))"
  using builtin_texts by (cases k; simp add: the_builtin_def)+

lemma derived_valid:
  assumes "derive E i = Ok (a, b)" "validate_input E i = Ok (the_builtin k, res)" "sha256_ok E" "whole_utf8 (mi_source_id i)"
  shows "validate_observation a = Ok () \<longleftrightarrow> length (mi_source_id i) \<le> 249"
    "validate_observation b = Ok () \<longleftrightarrow> length (mi_source_id i) \<le> 249"
    "check_observation_row (observation_row (mi_source_id i) a)" "check_observation_row (observation_row (mi_source_id i) b)"
proof -
  from assms(1) obtain r res' where "validate_input E i = Ok (r, res')"
    "head a = outcome_head E i r res' 0 (fst (mi_participants i))" "head b = outcome_head E i r res' 1 (snd (mi_participants i))"
    "tally r One (map ge_kind (mi_events i)) a" "tally r Two (map ge_kind (mi_events i)) b" "metrics_ok a" "metrics_ok b"
    by (rule derive_Ok) blast
  then have d: "head a = outcome_head E i (the_builtin k) res 0 (fst (mi_participants i))"
    "head b = outcome_head E i (the_builtin k) res 1 (snd (mi_participants i))"
    "words_ok (ob_word_frequencies a)" "words_ok (ob_word_frequencies b)" "metrics_ok a" "metrics_ok b"
    using assms(2) by (simp_all add: tally_def Let_def)
  note v = validate_input_Ok[OF assms(2)]
  have sha: "valid_sha256 (ri_content_sha256 (ruleset_identity E r))" for r
    using assms(3) hex_lower_valid by (simp add: ruleset_identity_def sha256_ok_def)
  have scope: "valid_scope (ob_scope a)" "valid_scope (ob_scope b)"
    using d(1,2) v sha builtin_scope[of k] by (simp_all add: head_def outcome_head_def valid_scope_def valid_participant_def)
  have words: "\<not> list_ex (\<lambda>(word, n). \<not> valid_word word \<or> n = 0) (ob_word_frequencies x)" if "words_ok (ob_word_frequencies x)" for x
    using that by (auto simp: words_ok_def list_ex_iff)
  have metrics: "try_fold (\<lambda>_ metric. validate_sourced metric) () [ob_turn_latency_total_ms x, ob_turn_latency_samples x,
      ob_tool_calls x, ob_input_tokens x, ob_output_tokens x, ob_cost_microusd x] = Ok ()" if "metrics_ok x" for x
    using that by (simp add: metrics_ok_def)
  have games: "Option.bind (checked_add 64 (of_bool (w = Some p)) (of_bool (w \<noteq> None \<and> w \<noteq> Some p)))
      (\<lambda>v. checked_add 64 v (of_bool (w = None))) = Some 1" for w :: "Seat option" and p
    by (cases w) (auto simp: checked_add_def)
  have iff: "validate_observation x = Ok () \<longleftrightarrow> stat_valid_id (ob_source_id x)"
    if "head x = outcome_head E i (the_builtin k) res n pa" "n \<in> {0, 1}" "valid_scope (ob_scope x)" "words_ok (ob_word_frequencies x)" "metrics_ok x" for x n pa
  proof -
    have h: "ob_schema_version x = STATISTICS_SCHEMA_VERSION" "ob_games x = 1" "ob_wins x = of_bool (res_winner res = Some (seat_of n))"
      "ob_losses x = of_bool (res_winner res \<noteq> None \<and> res_winner res \<noteq> Some (seat_of n))" "ob_ties x = of_bool (res_winner res = None)"
      "so_seat_number (ob_scope x) = Suc n" using that(1) by (simp_all add: head_def outcome_head_def)
    have "sx_availability (ob_turn_latency_total_ms x) = sx_availability (ob_turn_latency_samples x)"
      using that(5) by (simp add: metrics_ok_def)
    then show ?thesis unfolding validate_observation_def metrics[OF that(5)] h games using that(2,3) words[OF that(4)] by auto
  qed
  have "validate_observation a = Ok () \<longleftrightarrow> stat_valid_id (ob_source_id a)" "validate_observation b = Ok () \<longleftrightarrow> stat_valid_id (ob_source_id b)"
    using iff[OF d(1) _ scope(1) d(3,5)] iff[OF d(2) _ scope(2) d(4,6)] by simp_all
  then show "validate_observation a = Ok () \<longleftrightarrow> length (mi_source_id i) \<le> 249"
    "validate_observation b = Ok () \<longleftrightarrow> length (mi_source_id i) \<le> 249"
    using observation_id_valid[OF v(2) assms(4)] derived_facts(1,2)[OF assms(1)] by simp_all
  show "check_observation_row (observation_row (mi_source_id i) a)" "check_observation_row (observation_row (mi_source_id i) b)"
    using scope derived_facts(3-6)[OF assms(1)]
    by (simp_all add: check_observation_row_def observation_row_def valid_scope_def STATISTICS_SCHEMA_VERSION_def)
qed

end
