(* ===== verification/StatisticsTheorems.thy ===== *)
theory StatisticsTheorems
  imports ObservationTypes DemoGame
begin

text \<open>
  The theorems about statistics: finished games of the engine are counted exactly, recorded once, and
  queried exactly; and the two inputs on which the code does not keep its promises.
\<close>

section \<open>Histories of the store\<close>

lemma transaction_cases: "fst (transaction f db) = db \<or> (\<exists>d r. transaction f db = (d, Ok r))"
  by (cases "f db") (auto simp: transaction_def)

lemma step_grows: "stat_step E db db' \<Longrightarrow> set (sdb_sources db) \<subseteq> set (sdb_sources db')"
proof (erule stat_step.cases)
  fix source derived now db0
  assume a: "db = db0" "db' = fst (record_insert source derived now db0)" "derive E source = Ok derived"
  have "fst (record_insert source derived now db0) = db0 \<or> (\<exists>d r. record_insert source derived now db0 = (d, Ok r))"
    unfolding record_insert_def by (rule transaction_cases)
  then show ?thesis
  proof
    assume "\<exists>d r. record_insert source derived now db0 = (d, Ok r)"
    then obtain d r where d: "record_insert source derived now db0 = (d, Ok r)" by blast
    show ?thesis using record_insert_Ok(4)[OF a(3) d] a(1,2) d by auto
  qed (use a in simp)
qed

lemma steps_grow: "(stat_step E)\<^sup>*\<^sup>* db db' \<Longrightarrow> set (sdb_sources db) \<subseteq> set (sdb_sources db')"
  by (induction rule: rtranclp_induct) (use step_grows in blast)+

lemma steps_inv: "(stat_step E)\<^sup>*\<^sup>* db db' \<Longrightarrow> stat_inv E db \<Longrightarrow> stat_inv E db'"
  by (induction rule: rtranclp_induct) (auto elim!: stat_step.cases intro: record_insert_inv)

text \<open>A finished game of two seats, with the metadata of its match.\<close>

definition match_of :: "env \<Rightarrow> Game \<Rightarrow> GameResult \<Rightarrow> MatchStatisticsInput \<Rightarrow> bool" where
  "match_of E g res i \<longleftrightarrow> reachable E g \<and> length (g_racks g) = 2 \<and> gs_result (g_state g) = Some res
     \<and> mi_events i = g_events g \<and> mi_game_id i = gs_game_id (g_state g) \<and> metadata_ok i"

lemma match_derive:
  assumes "match_of E g res i" "unicode_ok E"
  shows "\<exists>a b. derive E i = Ok (a, b)" "validate_input E i = Ok (g_ruleset g, res)" "\<exists>k. g_ruleset g = the_builtin k"
proof -
  have m: "reachable E g" "length (g_racks g) = 2" "gs_result (g_state g) = Some res" "mi_events i = g_events g"
    "mi_game_id i = gs_game_id (g_state g)" "metadata_ok i" using assms(1) by (simp_all add: match_of_def)
  show "\<exists>a b. derive E i = Ok (a, b)" by (rule derive_game[OF m(1) assms(2) m(2-6)])
  show "validate_input E i = Ok (g_ruleset g, res)" by (rule journal_input[OF m(1) assms(2) m(2-6)])
  show "\<exists>k. g_ruleset g = the_builtin k" using reachable_inv[OF m(1)] table_ok_builtin by (auto simp: game_inv_def)
qed

lemma game_recorded:
  assumes "match_of E g res i" "unicode_ok E" "sha256_ok E" "whole_utf8 (mi_source_id i)" "stat_inv E db" "0 \<le> now"
    "mi_source_id i \<notin> set (map sor_source_id (sdb_sources db))" "derive E i = Ok (a, b)"
  shows "record_source E db i now = (\<lparr>sdb_sources = sdb_sources db @ [source_row i (a, b) now],
       sdb_observations = sdb_observations db @ map (observation_row (mi_source_id i)) [a, b]\<rparr>, Ok (StatApplied (a, b)))"
proof -
  obtain k where k: "g_ruleset g = the_builtin k" using match_derive(3)[OF assms(1,2)] by blast
  show ?thesis
    by (rule record_fresh[OF assms(5,8,6,7)])
      (use derived_valid(3,4)[OF assms(8) match_derive(2)[OF assms(1,2), unfolded k] assms(3,4)] in simp_all)
qed

lemma record_reachable:
  assumes "stat_reachable E db" "derive E i = Ok derived" "0 \<le> now"
  shows "stat_reachable E (fst (record_source E db i now))"
proof -
  have "fst (record_source E db i now) = db \<or> stat_step E db (fst (record_source E db i now))"
    using step_insert[OF assms(2,3), of db] assms(2,3)
    by (auto simp: record_source_def record_check_def split: outcome.splits option.splits SourceLoadError.splits)
  then show ?thesis using assms(1) by (auto simp: stat_reachable_def)
qed

section \<open>A concrete match\<close>

definition demo_participants :: "StatisticsParticipant two" where
  "demo_participants = (\<lparr>pa_entrant_id = ''one'', pa_agent_manifest_sha256 = None\<rparr>,
     \<lparr>pa_entrant_id = ''two'', pa_agent_manifest_sha256 = None\<rparr>)"

definition demo_input :: "string \<Rightarrow> Game \<Rightarrow> MatchStatisticsInput" where
  "demo_input source g = \<lparr>mi_schema_version = 1, mi_source_id = source, mi_tournament_id = None, mi_match_id = ''match'',
     mi_game_id = gs_game_id (g_state g), mi_finished_at = 7, mi_participants = demo_participants, mi_events = g_events g,
     mi_invalid_attempts = (0, 0), mi_telemetry = (run_unavailable, run_unavailable)\<rparr>"

lemma demo_metadata:
  assumes "stat_valid_id source" "stat_valid_id (gs_game_id (g_state g))"
  shows "metadata_ok (demo_input source g)"
proof -
  have "stat_valid_id ''match''" "valid_participant (fst demo_participants)" "valid_participant (snd demo_participants)"
    "validate_run run_unavailable = Ok ()" by code_simp+
  then show ?thesis using assms
    by (simp add: metadata_ok_def demo_input_def STATISTICS_SCHEMA_VERSION_def null_or_def run_unavailable_def demo_participants_def)
qed

lemma create_game_id:
  "create_with_mode_and_players E gid r lexicon seed mode n = Ok g \<Longrightarrow> gs_game_id (g_state g) = gid"
  by (auto simp: create_with_mode_and_players_def rbind_Ok_iff Let_def)

lemma demo_match:
  "\<exists>g res. gs_game_id (g_state g) = ''demo'' \<and> res_reason res = Resignation One \<and> (\<forall>source. stat_valid_id source \<longrightarrow> match_of demo_env g res (demo_input source g))"
proof -
  obtain g ev where g: "resign demo_game One 0 = Ok (g, ev)" "reachable demo_env g" using demo_resigns by blast
  from g(1) show ?thesis
  proof (rule resign_shape, goal_cases)
    case (1 ver res st)
    note c = complete_state_Ok[OF 1(5)]
    have game: "gs_game_id (g_state demo_game) = ''demo''" "length (g_racks demo_game) = 2"
      using create_game_id[OF demo_created[unfolded demo_create_def]] demo_state(5) by simp_all
    have r: "gs_result (g_state g) = Some res" "res_reason res = Resignation One" "gs_game_id (g_state g) = ''demo''"
      "length (g_racks g) = 2" using 1(7) c(1,4) game by simp_all
    have "stat_valid_id ''demo''" by code_simp
    then have "match_of demo_env g res (demo_input source g)" if "stat_valid_id source" for source
      using r g(2) demo_metadata[OF that, of g] by (simp add: match_of_def) (simp add: demo_input_def)
    then show ?case using r by blast
  qed
qed

section \<open>Finished games are counted\<close>

text \<open>
  Claim C33. Deriving the statistics of a finished game of two seats succeeds, whatever was
  played, and counts exactly: each seat's scoring moves, score, bonuses, passes, exchanges, premium squares
  and words are those of its public events, the scores are the final ones, the spreads are
  opposite, and one seat wins exactly when the other loses.
\<close>
theorem finished_games_are_counted:
  assumes "match_of E g res i" "unicode_ok E"
  shows "\<exists>a b. derive E i = Ok (a, b)
    \<and> tally (g_ruleset g) One (map ge_kind (g_events g)) a \<and> tally (g_ruleset g) Two (map ge_kind (g_events g)) b
    \<and> ob_score_for a = res_scores res ! 0 \<and> ob_score_for b = res_scores res ! 1
    \<and> ob_score_against a = ob_score_for b \<and> ob_score_against b = ob_score_for a
    \<and> ob_spread a = ob_score_for a - ob_score_for b \<and> ob_spread b = - ob_spread a
    \<and> ob_wins a = of_bool (res_winner res = Some One) \<and> ob_wins b = of_bool (res_winner res = Some Two)
    \<and> ob_losses a = ob_wins b \<and> ob_losses b = ob_wins a \<and> ob_ties a = ob_ties b
    \<and> ob_wins a + ob_losses a + ob_ties a = 1"
proof -
  obtain a b where ab: "derive E i = Ok (a, b)" using match_derive(1)[OF assms] by blast
  have ev: "mi_events i = g_events g" using assms(1) by (simp add: match_of_def)
  note v = match_derive(2)[OF assms]
  have w: "res_winner res = None \<or> res_winner res = Some One \<or> res_winner res = Some Two"
    by (rule winner_two[OF validate_input_Ok(13)[OF v]])
  from ab obtain r res' where "validate_input E i = Ok (r, res')"
    "head a = outcome_head E i r res' 0 (fst (mi_participants i))" "head b = outcome_head E i r res' 1 (snd (mi_participants i))"
    "tally r One (map ge_kind (mi_events i)) a" "tally r Two (map ge_kind (mi_events i)) b"
    by (rule derive_Ok) blast
  then show ?thesis using ab v w ev
    by (intro exI[of _ a] exI[of _ b]) (auto simp: head_def outcome_head_def seat_of_def)
qed

theorem finished_games_are_counted_witness:
  "\<exists>g a b. derive demo_env (demo_input ''match-1'' g) = Ok (a, b) \<and> tally (g_ruleset g) One (map ge_kind (g_events g)) a
    \<and> ob_losses b = ob_wins a"
proof -
  obtain g res where g: "\<forall>source. stat_valid_id source \<longrightarrow> match_of demo_env g res (demo_input source g)" using demo_match by blast
  have "stat_valid_id ''match-1''" by code_simp
  then show ?thesis using finished_games_are_counted[OF _ demo_env_unicode_ok] g by blast
qed

text \<open>
  Claim C36. The observations derived from a finished game satisfy the validation that the
  accumulator applies to every observation exactly when the source identifier has at most 249 bytes,
  although an input is accepted up to 256 bytes: the seat suffix is added to the identifier and the sum is
  checked against the same bound.
\<close>
theorem observations_are_well_formed:
  assumes "match_of E g res i" "unicode_ok E" "sha256_ok E" "whole_utf8 (mi_source_id i)"
  shows "\<exists>a b. derive E i = Ok (a, b) \<and> length (mi_source_id i) \<le> 256
    \<and> (validate_observation a = Ok () \<longleftrightarrow> length (mi_source_id i) \<le> 249)
    \<and> (validate_observation b = Ok () \<longleftrightarrow> length (mi_source_id i) \<le> 249)"
proof -
  obtain a b k where ab: "derive E i = Ok (a, b)" and k: "g_ruleset g = the_builtin k" using match_derive(1,3)[OF assms(1,2)] by blast
  note v = match_derive(2)[OF assms(1,2)]
  have "length (mi_source_id i) \<le> 256" using validate_input_Ok(2)[OF v] by (simp add: stat_valid_id_def valid_id_def)
  then show ?thesis using ab derived_valid(1,2)[OF ab v[unfolded k] assms(3,4)] by blast
qed

theorem observations_are_well_formed_witness:
  "\<exists>g a b. derive demo_env (demo_input (replicate 250 (CHR ''a'')) g) = Ok (a, b) \<and> validate_observation a \<noteq> Ok ()"
proof -
  obtain g res where g: "\<forall>source. stat_valid_id source \<longrightarrow> match_of demo_env g res (demo_input source g)" using demo_match by blast
  have s: "stat_valid_id (replicate 250 (CHR ''a''))" "whole_utf8 (replicate 250 (CHR ''a''))" by code_simp+
  have "whole_utf8 (mi_source_id (demo_input (replicate 250 (CHR ''a'')) g))" "length (mi_source_id (demo_input (replicate 250 (CHR ''a'')) g)) = 250"
    using s(2) by (simp_all add: demo_input_def)
  then show ?thesis
    using observations_are_well_formed[OF g[rule_format, OF s(1)] demo_env_unicode_ok demo_env_sha256_ok] by fastforce
qed

section \<open>Recording and querying\<close>

text \<open>
  Claim C34. A finished game that is not yet stored is recorded, and from then on, whatever other
  processes insert, the same source is answered as already applied with the same observations, any other
  accepted content under its identifier is refused as a conflict, and both leave the store as it is.
\<close>
theorem games_are_recorded_once:
  assumes "match_of E g res i" "unicode_ok E" "sha256_ok E" "whole_utf8 (mi_source_id i)" "stat_reachable E db" "0 \<le> now"
    "mi_source_id i \<notin> set (map sor_source_id (sdb_sources db))"
  shows "\<exists>db1 a b. derive E i = Ok (a, b) \<and> record_source E db i now = (db1, Ok (StatApplied (a, b)))
    \<and> stored_observations db1 = stored_observations db @ [a, b]
    \<and> (\<forall>db2 later. (stat_step E)\<^sup>*\<^sup>* db1 db2 \<and> 0 \<le> later \<longrightarrow>
        record_source E db2 i later = (db2, Ok (StatAlreadyApplied (a, b)))
        \<and> (\<forall>other derived. mi_source_id other = mi_source_id i \<and> other \<noteq> i \<and> derive E other = Ok derived \<longrightarrow>
             record_source E db2 other later = (db2, Err StatRepConflict)))"
proof -
  obtain a b where ab: "derive E i = Ok (a, b)" using match_derive(1)[OF assms(1,2)] by blast
  note inv = stat_reachable_inv[OF assms(5)]
  define db1 where "db1 = \<lparr>sdb_sources = sdb_sources db @ [source_row i (a, b) now],
       sdb_observations = sdb_observations db @ map (observation_row (mi_source_id i)) [a, b]\<rparr>"
  have rec: "record_source E db i now = (db1, Ok (StatApplied (a, b)))"
    unfolding db1_def by (rule game_recorded[OF assms(1-4) inv assms(6,7) ab])
  have inv1: "stat_inv E db1" using stat_reachable_inv[OF record_reachable[OF assms(5) ab assms(6)]] rec by simp
  have row: "source_row i (a, b) now \<in> set (sdb_sources db1)" by (simp add: db1_def)
  have "record_source E db2 i later = (db2, Ok (StatAlreadyApplied (a, b)))
      \<and> (\<forall>other derived. mi_source_id other = mi_source_id i \<and> other \<noteq> i \<and> derive E other = Ok derived \<longrightarrow>
           record_source E db2 other later = (db2, Err StatRepConflict))"
    if s: "(stat_step E)\<^sup>*\<^sup>* db1 db2" "0 \<le> later" for db2 later
  proof -
    have "source_row i (a, b) now \<in> set (sdb_sources db2)" using steps_grow[OF s(1)] row by blast
    note again = record_again[OF steps_inv[OF s(1) inv1] this _ _ s(2)]
    show ?thesis using again[of i "(a, b)"] again ab by auto
  qed
  moreover have "stored_observations db1 = stored_observations db @ [a, b]"
    by (simp add: db1_def stored_observations_def source_observations_def)
  ultimately show ?thesis using ab rec by blast
qed

theorem games_are_recorded_once_witness:
  "\<exists>g db1 a b. record_source demo_env empty_stat_db (demo_input ''match-1'' g) 9 = (db1, Ok (StatApplied (a, b)))
    \<and> record_source demo_env db1 (demo_input ''match-1'' g) 12 = (db1, Ok (StatAlreadyApplied (a, b)))"
proof -
  obtain g res where g: "\<forall>source. stat_valid_id source \<longrightarrow> match_of demo_env g res (demo_input source g)" using demo_match by blast
  have s: "stat_valid_id ''match-1''" "whole_utf8 ''match-1''" by code_simp+
  have "whole_utf8 (mi_source_id (demo_input ''match-1'' g))" "stat_reachable demo_env empty_stat_db"
    "mi_source_id (demo_input ''match-1'' g) \<notin> set (map sor_source_id (sdb_sources empty_stat_db))"
    using s(2) by (simp_all add: demo_input_def stat_reachable_def empty_stat_db_def)
  from games_are_recorded_once[OF g[rule_format, OF s(1)] demo_env_unicode_ok demo_env_sha256_ok this(1,2) _ this(3), of 9]
  obtain db1 a b where "record_source demo_env empty_stat_db (demo_input ''match-1'' g) 9 = (db1, Ok (StatApplied (a, b)))"
    "\<forall>db2 later. (stat_step demo_env)\<^sup>*\<^sup>* db1 db2 \<and> 0 \<le> later \<longrightarrow>
        record_source demo_env db2 (demo_input ''match-1'' g) later = (db2, Ok (StatAlreadyApplied (a, b)))" by auto
  then show ?thesis by (metis rtranclp.rtrancl_refl zero_le_numeral)
qed

text \<open>
  Claim C35. A query returns exactly what the aggregation of all stored observations returns, in any
  order of recording, and its figures are exact: the observations selected by the filter are counted once
  each, sums are sums over them, rates and the average turn latency are rounded to the nearest unit, the
  vocabulary is the set of words played, and missing telemetry makes a total or an average unavailable.
\<close>
theorem queries_are_exact:
  assumes "stat_reachable E db" "mset obs = mset (stored_observations db)"
  shows "(rebuild_operator E db f = Ok s \<longleftrightarrow> aggregate_statistics f obs = Ok s)
    \<and> (rebuild_public E db f = Ok p \<longleftrightarrow> (\<exists>s. aggregate_statistics f obs = Ok s \<and> p = os_public s))
    \<and> (rebuild_operator E db f = Ok s \<longrightarrow> figures {ob \<in> set obs. filter_matches f (ob_scope ob)} s)"
proof -
  note inv = stat_reachable_inv[OF assms(1)]
  have same: "set obs = set (stored_observations db)" using assms(2) by (metis set_mset_mset)
  have iff: "rebuild_operator E db f = Ok s \<longleftrightarrow> aggregate_statistics f obs = Ok s" for s
    using rebuild_operator_iff[OF inv] aggregate_permute[OF same] by simp
  have "figures {ob \<in> set obs. filter_matches f (ob_scope ob)} s" if "aggregate_statistics f obs = Ok s"
    using aggregate_figures[OF that] stored_words_ok[OF inv] same by (simp add: selected_def)
  then show ?thesis using iff rebuild_public_operator by blast
qed

definition no_filter :: StatisticsFilter where
  "no_filter = \<lparr>fl_language = None, fl_ruleset_id = None, fl_ruleset_sha256 = None, fl_pack_id = None, fl_pack_version = None,
     fl_pack_sha256 = None, fl_agent_manifest_sha256 = None, fl_tournament_id = None, fl_entrant_id = None,
     fl_seat_number = None, fl_finished_from_ms = None, fl_finished_before_ms = None\<rparr>"

text \<open>
  A history of two scores, written out: a pass of a seat, then the resignation of seat one. Each seat
  reports two timed turns, 41 ms in all, so the average of the two seats is 21 ms, rounded up from
  20.5.
\<close>

definition sample_result :: GameResult where
  "sample_result = \<lparr>res_game_id = ''game'', res_ruleset_id = EnglishV1, res_lexicon = rs_lexicon (the_builtin EnglishV1),
     res_scores = [0, 0], res_winner = Some Two, res_final_version = 2, res_reason = Resignation One\<rparr>"

definition sample_event :: "nat \<Rightarrow> GameEventKind \<Rightarrow> GameEvent" where
  "sample_event n kind = \<lparr>ge_sequence = n, ge_visibility = Public, ge_lexicon = rs_lexicon (the_builtin EnglishV1), ge_kind = kind\<rparr>"

definition timed_run :: NormalizedRunStatistics where
  "timed_run = run_unavailable\<lparr>nr_turn_durations_ms := Some [30, 11]\<rparr>"

definition sample_input :: "Player \<Rightarrow> GameEventKind \<Rightarrow> MatchStatisticsInput" where
  "sample_input seat created = \<lparr>mi_schema_version = 1, mi_source_id = ''match-1'', mi_tournament_id = None, mi_match_id = ''match'',
     mi_game_id = ''game'', mi_finished_at = 7, mi_participants = demo_participants,
     mi_events = [sample_event 0 created, sample_event 1 (Passed seat 1 One None), sample_event 2 (Resigned One sample_result)],
     mi_invalid_attempts = (0, 0), mi_telemetry = (timed_run, timed_run)\<rparr>"

lemma sample_valid:
  "validate_input E (sample_input seat (Created ''game'' (the_builtin EnglishV1) mode rng seed racks bag)) = Ok (the_builtin EnglishV1, sample_result)"
proof -
  have "stat_valid_id ''match''" "stat_valid_id ''match-1''" "stat_valid_id ''game''" "valid_participant (fst demo_participants)"
    "valid_participant (snd demo_participants)" "validate_run timed_run = Ok ()" by code_simp+
  then show ?thesis
    by (simp add: validate_input_def sample_input_def sample_event_def sample_result_def check_event_def
        STATISTICS_SCHEMA_VERSION_def null_or_def try_from_def ruleset_identity_def expected_winner_def index_at_def)
      (simp add: demo_participants_def the_builtin_def)
qed

definition sample_source :: MatchStatisticsInput where
  "sample_source = sample_input Two (Created ''game'' (the_builtin EnglishV1) Competitive Xoshiro256StarStarV1
     \<lparr>sc_algorithm = Xoshiro256StarStarV1, sc_sha256 = ''''\<rparr> [7, 7] 86)"

definition sample_observation :: "StatisticsObservation \<Rightarrow> bool" where
  "sample_observation ob \<longleftrightarrow> ob_games ob = 1 \<and> ob_wins ob \<le> 1 \<and> ob_losses ob \<le> 1 \<and> ob_ties ob = 0
     \<and> ob_score_for ob = 0 \<and> ob_score_against ob = 0 \<and> ob_spread ob = 0 \<and> ob_scoring_moves ob = 0 \<and> ob_move_score ob = 0
     \<and> ob_bingos ob = 0 \<and> ob_invalid_actions ob = 0 \<and> ob_passes ob \<le> 1 \<and> ob_exchanges ob = 0
     \<and> ob_premium_use ob = no_premiums \<and> ob_word_frequencies ob = []
     \<and> ob_turn_latency_total_ms ob = stat_exact 41 \<and> ob_turn_latency_samples ob = stat_exact 2
     \<and> ob_tool_calls ob = stat_unavailable \<and> ob_input_tokens ob = stat_unavailable
     \<and> ob_output_tokens ob = stat_unavailable \<and> ob_cost_microusd ob = stat_unavailable"

lemma sample_derived: "\<exists>a b. derive E sample_source = Ok (a, b) \<and> sample_observation a \<and> sample_observation b"
  unfolding derive_def sample_source_def sample_valid
  by (simp add: empty_observation_def sample_result_def sample_input_def sample_event_def index_at_def stat_add_signed_def
      checked_add_signed_def signed_range_def two_at_def two_set_def try_from_def Let_def apply_telemetry_def timed_run_def
      run_unavailable_def sample_observation_def demo_participants_def stat_add_def checked_add_def)
    (simp add: numeral_2_eq_2)

lemma sample_values:
  assumes "sample_observation a" "sample_observation b"
  shows "\<exists>p ws. aggregate_values f [a, b] = Ok (p, ws) \<and> ps_average_turn_latency_ms p = stat_exact 21"
proof -
  have "Suc (ob_wins a * 1000000 + ob_wins b * 1000000) < 18446744073709551616"
    using assms by (simp add: sample_observation_def)
  then have "Suc (ob_wins a * 1000000 + ob_wins b * 1000000) div Suc (Suc 0) < 18446744073709551616"
    by (rule le_less_trans[OF div_le_dividend])
  then show ?thesis using assms
    by (auto simp: sample_observation_def aggregate_values_def add_observation_def no_totals_def stat_add_def checked_add_def
      stat_add_signed_def checked_add_signed_def signed_range_def add_premium_counts_def no_premiums_def combine_metrics_def
      average_metric_def stat_exact_def stat_unavailable_def ratio_def RATE_SCALE_def checked_mul_def try_from_def Let_def)
qed

lemma sample_source_id: "mi_source_id sample_source = ''match-1''" "whole_utf8 (mi_source_id sample_source)"
proof -
  show id: "mi_source_id sample_source = ''match-1''" by (simp add: sample_source_def sample_input_def)
  show "whole_utf8 (mi_source_id sample_source)" unfolding id by code_simp
qed

lemma sample_aggregates:
  assumes "derive demo_env sample_source = Ok (a, b)" "sample_observation a" "sample_observation b"
  shows "\<exists>s. aggregate_statistics no_filter [a, b] = Ok s \<and> ps_average_turn_latency_ms (os_public s) = stat_exact 21"
proof -
  have ok: "validate_observation a = Ok ()" "validate_observation b = Ok ()"
    using derived_valid(1,2)[OF assms(1) _ demo_env_sha256_ok, of EnglishV1 sample_result] sample_valid sample_source_id
    by (simp_all add: sample_source_def)
  have ids: "ob_source_id a = ''match-1:seat-1''" "ob_source_id b = ''match-1:seat-2''"
    using derived_facts(1,2)[OF assms(1)] sample_source_id by (simp_all add: observation_id_def)
  have sel: "selected no_filter [a, b] = [a, b]" by (simp add: selected_def filter_matches_def no_filter_def null_or_def)
  have one: "one_content (set [a, b])" using ids by (auto simp: one_content_def)
  have kept: "btree_values (keep [] [a, b]) = [a, b]" using ids by (simp add: btree_values_def)
  have "validate_filter no_filter = Ok ()" by code_simp
  then show ?thesis
    using sample_values[OF assms(2,3), of no_filter] ok one kept unfolding aggregate_iff sel
    by (auto simp: accumulator_operator_def)
qed

theorem queries_are_exact_witness:
  "\<exists>db a b s. record_source demo_env empty_stat_db sample_source 9 = (db, Ok (StatApplied (a, b)))
    \<and> rebuild_operator demo_env db no_filter = Ok s \<and> ps_average_turn_latency_ms (os_public s) = stat_exact 21
    \<and> figures {ob. (ob = a \<or> ob = b) \<and> filter_matches no_filter (ob_scope ob)} s"
proof -
  obtain a b where ab: "derive demo_env sample_source = Ok (a, b)" "sample_observation a" "sample_observation b"
    using sample_derived by blast
  obtain s where s: "aggregate_statistics no_filter [a, b] = Ok s" "ps_average_turn_latency_ms (os_public s) = stat_exact 21"
    using sample_aggregates[OF ab] by blast
  have v: "validate_input demo_env sample_source = Ok (the_builtin EnglishV1, sample_result)"
    unfolding sample_source_def by (rule sample_valid)
  have rec: "record_source demo_env empty_stat_db sample_source 9 = (\<lparr>sdb_sources = sdb_sources empty_stat_db @ [source_row sample_source (a, b) 9],
       sdb_observations = sdb_observations empty_stat_db @ map (observation_row (mi_source_id sample_source)) [a, b]\<rparr>, Ok (StatApplied (a, b)))"
    by (rule record_fresh[OF empty_stat_inv ab(1)])
      (use derived_valid(3,4)[OF ab(1) v demo_env_sha256_ok sample_source_id(2)] in \<open>simp_all add: empty_stat_db_def\<close>)
  have "stat_reachable demo_env (fst (record_source demo_env empty_stat_db sample_source 9))"
    by (rule record_reachable[OF _ ab(1)]) (simp_all add: stat_reachable_def)
  moreover have "mset [a, b] = mset (stored_observations (fst (record_source demo_env empty_stat_db sample_source 9)))"
    unfolding rec by (simp add: empty_stat_db_def stored_observations_def source_observations_def)
  ultimately have "rebuild_operator demo_env (fst (record_source demo_env empty_stat_db sample_source 9)) no_filter = Ok s"
    "figures {ob \<in> set [a, b]. filter_matches no_filter (ob_scope ob)} s"
    using queries_are_exact[where obs = "[a, b]" and f = no_filter and s = s] s(1) by blast+
  moreover have "{ob \<in> set [a, b]. filter_matches no_filter (ob_scope ob)} = {ob. (ob = a \<or> ob = b) \<and> filter_matches no_filter (ob_scope ob)}"
    by auto
  ultimately show ?thesis using rec s(2) by (intro exI[of _ "fst (record_source demo_env empty_stat_db sample_source 9)"]) auto
qed

text \<open>
  One recorded source whose identifier has 250 bytes or more makes every later query
  fail, for every filter: its observations are refused by the accumulator, and nothing removes
  them.
\<close>
theorem long_source_ids_break_queries:
  assumes "stat_reachable E db" "r \<in> set (sdb_sources db)" "250 \<le> length (sor_source_id r)" "(stat_step E)\<^sup>*\<^sup>* db db2"
  shows "rebuild_operator E db2 f \<noteq> Ok s \<and> rebuild_public E db2 f \<noteq> Ok p"
proof -
  have inv: "stat_inv E db2" by (rule steps_inv[OF assms(4) stat_reachable_inv[OF assms(1)]])
  have r: "r \<in> set (sdb_sources db2)" using steps_grow[OF assms(4)] assms(2) by blast
  obtain source a b t where d: "r = source_row source (a, b) t" "derive E source = Ok (a, b)"
    using inv r by (auto simp: stat_inv_def list_all_iff recorded_def)
  have "a \<in> set (stored_observations db2)" using r d(1) by (force simp: stored_observations_def source_observations_def)
  moreover have "256 < length (ob_source_id a)"
    using derived_facts(1)[OF d(2)] assms(3) d(1) by (simp add: observation_id_def)
  then have "validate_observation a \<noteq> Ok ()" by (simp add: validate_observation_def stat_valid_id_def valid_id_def)
  ultimately have "aggregate_statistics f (stored_observations db2) \<noteq> Ok s" for s
    unfolding aggregate_iff by (auto simp: list_all_iff)
  then show ?thesis using rebuild_operator_iff[OF inv] rebuild_public_operator by metis
qed

theorem long_source_ids_break_queries_witness:
  "\<exists>g db1 a b. record_source demo_env empty_stat_db (demo_input (replicate 250 (CHR ''a'')) g) 9 = (db1, Ok (StatApplied (a, b)))
    \<and> (\<forall>s. rebuild_operator demo_env db1 no_filter \<noteq> Ok s)"
proof -
  let ?id = "replicate 250 (CHR ''a'')"
  obtain g res where "\<forall>source. stat_valid_id source \<longrightarrow> match_of demo_env g res (demo_input source g)" using demo_match by blast
  moreover have s: "stat_valid_id ?id" "whole_utf8 ?id" by code_simp+
  ultimately have m: "match_of demo_env g res (demo_input ?id g)" by blast
  obtain a b where ab: "derive demo_env (demo_input ?id g) = Ok (a, b)" using match_derive(1)[OF m demo_env_unicode_ok] by blast
  have w: "whole_utf8 (mi_source_id (demo_input ?id g))" using s(2) by (simp add: demo_input_def)
  have empty: "stat_reachable demo_env empty_stat_db" by (simp add: stat_reachable_def)
  have f: "mi_source_id (demo_input ?id g) \<notin> set (map sor_source_id (sdb_sources empty_stat_db))" by (simp add: empty_stat_db_def)
  have rec: "record_source demo_env empty_stat_db (demo_input ?id g) 9 = (\<lparr>sdb_sources = sdb_sources empty_stat_db @ [source_row (demo_input ?id g) (a, b) 9],
       sdb_observations = sdb_observations empty_stat_db @ map (observation_row (mi_source_id (demo_input ?id g))) [a, b]\<rparr>, Ok (StatApplied (a, b)))"
    by (rule game_recorded[OF m demo_env_unicode_ok demo_env_sha256_ok w empty_stat_inv _ f ab]) simp
  have reach: "stat_reachable demo_env (fst (record_source demo_env empty_stat_db (demo_input ?id g) 9))"
    by (rule record_reachable[OF empty ab]) simp
  have "rebuild_operator demo_env (fst (record_source demo_env empty_stat_db (demo_input ?id g) 9)) no_filter \<noteq> Ok s" for s
    using long_source_ids_break_queries[OF reach, of "source_row (demo_input ?id g) (a, b) 9"] rec
    by (simp add: demo_input_def)
  then show ?thesis using rec by (metis fst_conv)
qed

section \<open>An event of a third seat\<close>

text \<open>
  A history of two scores that holds a pass by the third seat is accepted by the validation, and the
  derivation then indexes its two observations with 2. Neither the seats of the events nor their order are
  compared with the number of scores.
\<close>

theorem third_seat_panics:
  "derive E (sample_input Three (Created ''game'' (the_builtin EnglishV1) mode rng seed racks bag)) = Panic"
  unfolding derive_def sample_valid
  by (simp add: empty_observation_def sample_result_def sample_input_def sample_event_def index_at_def stat_add_signed_def
      checked_add_signed_def signed_range_def two_at_def try_from_def Let_def)

end
