(* ===== verification/Rating.thy ===== *)
theory Rating
  imports Tournament OrderedMap Sql
begin

text \<open>
  Glicko-2 rating periods (\<^verbatim>\<open>application/src/rating.rs\<close>). The calculation is in \<^verbatim>\<open>f64\<close>, whose
  \<^verbatim>\<open>exp\<close>, \<^verbatim>\<open>ln\<close> and \<^verbatim>\<open>powi\<close> have unspecified precision: the operations of the type are the record
  \<open>f64\<close>, an argument of every definition that computes with it, and each expression applies them
  in the order of the source. \<open>f64_ok\<close> states what the bounds rely on: comparison with the literals, and
  that scaling and printing a number between two bounds stays between them.
\<close>

section \<open>Floating point\<close>

record 'f f64 =
  fp_dec :: "int \<Rightarrow> nat \<Rightarrow> 'f"
  fp_pi :: 'f
  fp_neg :: "'f \<Rightarrow> 'f"
  fp_add :: "'f \<Rightarrow> 'f \<Rightarrow> 'f"
  fp_sub :: "'f \<Rightarrow> 'f \<Rightarrow> 'f"
  fp_mul :: "'f \<Rightarrow> 'f \<Rightarrow> 'f"
  fp_div :: "'f \<Rightarrow> 'f \<Rightarrow> 'f"
  fp_mul_add :: "'f \<Rightarrow> 'f \<Rightarrow> 'f \<Rightarrow> 'f"
  fp_powi :: "'f \<Rightarrow> int \<Rightarrow> 'f"
  fp_sqrt :: "'f \<Rightarrow> 'f"
  fp_exp :: "'f \<Rightarrow> 'f"
  fp_ln :: "'f \<Rightarrow> 'f"
  fp_abs :: "'f \<Rightarrow> 'f"
  fp_le :: "'f \<Rightarrow> 'f \<Rightarrow> bool"
  fp_lt :: "'f \<Rightarrow> 'f \<Rightarrow> bool"
  fp_is_finite :: "'f \<Rightarrow> bool"
  fp_print :: "'f \<Rightarrow> string"

text \<open>
  \<open>fp_dec m k\<close> is the literal m times ten to the minus k, and with k = 0 the conversion of an integer of
  32 bits; \<open>fp_print\<close> is \<^verbatim>\<open>format!("{value:.0}")\<close>.
\<close>

abbreviation lit :: "'f f64 \<Rightarrow> int \<Rightarrow> 'f" where "lit F n \<equiv> fp_dec F n 0"

definition fp_contains :: "'f f64 \<Rightarrow> 'f \<Rightarrow> 'f \<Rightarrow> 'f \<Rightarrow> bool" where
  "fp_contains F low high x \<longleftrightarrow> fp_le F low x \<and> fp_le F x high"

definition fp_clamp :: "'f f64 \<Rightarrow> 'f \<Rightarrow> 'f \<Rightarrow> 'f \<Rightarrow> 'f" where
  "fp_clamp F low high x = (let y = if fp_lt F x low then low else x in if fp_lt F high y then high else y)"

text \<open>\<^verbatim>\<open>str::parse\<close> of the integer types.\<close>

definition parse_digits :: "string \<Rightarrow> nat option" where
  "parse_digits s = (if s = [] \<or> \<not> list_all ascii_digit s then None
     else Some (foldl (\<lambda>a c. a * 10 + (of_char c - 48)) 0 s))"

definition parse_unsigned :: "nat \<Rightarrow> string \<Rightarrow> nat option" where
  "parse_unsigned w s = Option.bind
     (case s of c # cs \<Rightarrow> if c = CHR ''+'' then parse_digits cs else parse_digits s | [] \<Rightarrow> None) (try_from w)"

definition parse_signed :: "nat \<Rightarrow> string \<Rightarrow> int option" where
  "parse_signed w s = Option.bind
     (case s of c # cs \<Rightarrow> if c = CHR ''+'' then map_option int (parse_digits cs)
        else if c = CHR ''-'' then map_option (\<lambda>n. - int n) (parse_digits cs)
        else map_option int (parse_digits s) | [] \<Rightarrow> None)
     (\<lambda>v. if signed_range w v then Some v else None)"

section \<open>Data\<close>

definition RATING_SCHEMA_VERSION :: nat where "RATING_SCHEMA_VERSION = 1"
definition SCORE_SCALE :: nat where "SCORE_SCALE = 1000000"

definition GLICKO_SCALE :: "'f f64 \<Rightarrow> 'f" where "GLICKO_SCALE F = fp_dec F 1737178 4"
definition DEFAULT_TAU :: "'f f64 \<Rightarrow> 'f" where "DEFAULT_TAU F = fp_dec F 5 1"
definition EPSILON :: "'f f64 \<Rightarrow> 'f" where "EPSILON F = fp_dec F 1 6"

datatype RatingError = RatInvalidInput | RatNumericalFailure

type_synonym 'a rated = "(RatingError, 'a) outcome"

record RatingValue =
  rv_rating_milli :: int
  rv_deviation_milli :: nat
  rv_volatility_nano :: nat

record RatingOpponent =
  ro_rating :: RatingValue
  ro_score_millionths :: nat

record RatingPool =
  rpl_language :: string
  rpl_ruleset_id :: string
  rpl_ruleset_sha256 :: string
  rpl_rated_format_policy :: string

record RatedMatchInput =
  rm_match_id :: string
  rm_series_id :: string
  rm_series_game_number :: nat
  rm_entrant_one :: string
  rm_entrant_two :: string
  rm_score_one_millionths :: nat

record RatingUpdateInput =
  ru_entrant_id :: string
  ru_previous :: RatingValue
  ru_opponents :: "RatingOpponent list"

record RatingPeriod =
  rpd_schema_version :: nat
  rpd_period_id :: string
  rpd_sequence :: nat
  rpd_pool :: RatingPool
  rpd_matches :: "RatedMatchInput list"
  rpd_updates :: "RatingUpdateInput list"

record StoredRatingPeriod =
  sr_period :: RatingPeriod
  sr_derived :: "(string \<times> RatingValue) list"
  sr_committed_at :: millis

section \<open>Ratings in fixed point\<close>

definition rounded_integer :: "'f f64 \<Rightarrow> 'f \<Rightarrow> int rated" where
  "rounded_integer F x = ok_or RatNumericalFailure (parse_signed 32 (fp_print F x))"

definition rounded_unsigned :: "'f f64 \<Rightarrow> 'f \<Rightarrow> nat rated" where
  "rounded_unsigned F x = ok_or RatNumericalFailure (parse_unsigned 32 (fp_print F x))"

definition from_f64 :: "'f f64 \<Rightarrow> 'f \<Rightarrow> 'f \<Rightarrow> 'f \<Rightarrow> RatingValue rated" where
  "from_f64 F rating deviation volatility =
     (if \<not> fp_is_finite F rating \<or> \<not> fp_is_finite F deviation \<or> \<not> fp_is_finite F volatility
         \<or> \<not> fp_contains F (lit F (- 1000)) (lit F 5000) rating
         \<or> \<not> fp_contains F (fp_dec F 1 3) (lit F 350) deviation
         \<or> \<not> fp_contains F (fp_dec F 1 6) (lit F 1) volatility
      then Err RatInvalidInput
      else rbind (rounded_integer F (fp_mul F rating (lit F 1000))) (\<lambda>r.
        rbind (rounded_unsigned F (fp_mul F deviation (lit F 1000))) (\<lambda>d.
        rbind (rounded_unsigned F (fp_mul F volatility (lit F 1000000000))) (\<lambda>v.
        Ok \<lparr>rv_rating_milli = r, rv_deviation_milli = d, rv_volatility_nano = v\<rparr>))))"

definition rv_rating :: "'f f64 \<Rightarrow> RatingValue \<Rightarrow> 'f" where
  "rv_rating F v = fp_div F (lit F (rv_rating_milli v)) (lit F 1000)"

definition rv_deviation :: "'f f64 \<Rightarrow> RatingValue \<Rightarrow> 'f" where
  "rv_deviation F v = fp_div F (lit F (int (rv_deviation_milli v))) (lit F 1000)"

definition rv_volatility :: "'f f64 \<Rightarrow> RatingValue \<Rightarrow> 'f" where
  "rv_volatility F v = fp_div F (lit F (int (rv_volatility_nano v))) (lit F 1000000000)"

definition validate_rating :: "'f f64 \<Rightarrow> RatingValue \<Rightarrow> unit rated" where
  "validate_rating F v = rbind (from_f64 F (rv_rating F v) (rv_deviation F v) (rv_volatility F v)) (\<lambda>_. Ok ())"

definition rating_fixed :: "'f f64 \<Rightarrow> 'f \<Rightarrow> 'f \<Rightarrow> 'f \<Rightarrow> RatingValue rated" where
  "rating_fixed F mu phi sigma = from_f64 F
     (fp_clamp F (lit F (- 1000)) (lit F 5000) (fp_mul_add F mu (GLICKO_SCALE F) (lit F 1500)))
     (fp_clamp F (fp_dec F 1 3) (lit F 350) (fp_mul F phi (GLICKO_SCALE F)))
     (fp_clamp F (fp_dec F 1 6) (lit F 1) sigma)"

section \<open>The volatility\<close>

text \<open>The closure \<^verbatim>\<open>function\<close>.\<close>

definition volatility_function :: "'f f64 \<Rightarrow> 'f \<Rightarrow> 'f \<Rightarrow> 'f \<Rightarrow> 'f \<Rightarrow> 'f \<Rightarrow> 'f" where
  "volatility_function F phi variance delta alpha x =
     (let exponential = fp_exp F x in
      fp_sub F
        (fp_div F
          (fp_mul F exponential
            (fp_sub F (fp_sub F (fp_sub F (fp_mul F delta delta) (fp_mul F phi phi)) variance) exponential))
          (fp_mul F (lit F 2) (fp_powi F (fp_add F (fp_add F (fp_mul F phi phi) variance) exponential) 2)))
        (fp_div F (fp_sub F x alpha) (fp_mul F (DEFAULT_TAU F) (DEFAULT_TAU F))))"

text \<open>The loop over \<^verbatim>\<open>multiplier\<close>, whose values are the integers from one to ten thousand.\<close>

function bracket :: "'f f64 \<Rightarrow> ('f \<Rightarrow> 'f) \<Rightarrow> 'f \<Rightarrow> nat \<Rightarrow> nat rated" where
  "bracket F f alpha multiplier =
     (if fp_lt F (f (fp_sub F alpha (fp_mul F (lit F (int multiplier)) (DEFAULT_TAU F)))) (lit F 0)
      then if 10000 < multiplier + 1 then Err RatNumericalFailure else bracket F f alpha (multiplier + 1)
      else Ok multiplier)"
  by pat_completeness auto
termination by (relation "measure (\<lambda>(F, f, alpha, n). 10001 - n)") auto

declare bracket.simps [simp del]

text \<open>The iterations of the loop \<^verbatim>\<open>0..10_000\<close> that are left.\<close>

fun narrow :: "'f f64 \<Rightarrow> ('f \<Rightarrow> 'f) \<Rightarrow> nat \<Rightarrow> 'f \<Rightarrow> 'f \<Rightarrow> 'f \<Rightarrow> 'f \<Rightarrow> 'f rated" where
  "narrow F f 0 lower upper lower_value upper_value = Err RatNumericalFailure"
| "narrow F f (Suc left) lower upper lower_value upper_value =
     (if fp_le F (fp_abs F (fp_sub F upper lower)) (EPSILON F) then Ok (fp_exp F (fp_div F lower (lit F 2)))
      else let candidate = fp_add F lower (fp_div F (fp_mul F (fp_sub F lower upper) lower_value) (fp_sub F upper_value lower_value));
               candidate_value = f candidate
           in if fp_le F (fp_mul F candidate_value upper_value) (lit F 0)
              then narrow F f left upper candidate upper_value candidate_value
              else narrow F f left lower candidate (fp_div F lower_value (lit F 2)) candidate_value)"

definition solve_volatility :: "'f f64 \<Rightarrow> 'f \<Rightarrow> 'f \<Rightarrow> 'f \<Rightarrow> 'f \<Rightarrow> 'f rated" where
  "solve_volatility F phi sigma variance delta =
     (let alpha = fp_ln F (fp_mul F sigma sigma);
          f = volatility_function F phi variance delta alpha
      in rbind (if fp_lt F (fp_add F (fp_mul F phi phi) variance) (fp_mul F delta delta)
             then Ok (fp_ln F (fp_sub F (fp_sub F (fp_mul F delta delta) (fp_mul F phi phi)) variance))
             else rbind (bracket F f alpha 1) (\<lambda>multiplier.
               Ok (fp_sub F alpha (fp_mul F (lit F (int multiplier)) (DEFAULT_TAU F))))) (\<lambda>upper.
         narrow F f 10000 alpha upper (f alpha) (f upper)))"

section \<open>One update\<close>

text \<open>The variables \<^verbatim>\<open>variance_inverse\<close> and \<^verbatim>\<open>improvement\<close> after one more opponent.\<close>

definition add_opponent :: "'f f64 \<Rightarrow> 'f \<Rightarrow> 'f \<times> 'f \<Rightarrow> RatingOpponent \<Rightarrow> 'f \<times> 'f" where
  "add_opponent F mu acc opponent =
     (let opponent_mu = fp_div F (fp_sub F (rv_rating F (ro_rating opponent)) (lit F 1500)) (GLICKO_SCALE F);
          opponent_phi = fp_div F (rv_deviation F (ro_rating opponent)) (GLICKO_SCALE F);
          impact = fp_div F (lit F 1) (fp_sqrt F (fp_add F (lit F 1)
            (fp_div F (fp_mul F (fp_mul F (lit F 3) opponent_phi) opponent_phi) (fp_powi F (fp_pi F) 2))));
          expected = fp_div F (lit F 1) (fp_add F (lit F 1)
            (fp_exp F (fp_mul F (fp_neg F impact) (fp_sub F mu opponent_mu))))
      in (fp_add F (fst acc) (fp_mul F (fp_mul F (fp_mul F impact impact) expected) (fp_sub F (lit F 1) expected)),
          fp_add F (snd acc) (fp_mul F impact (fp_sub F
            (fp_div F (lit F (int (ro_score_millionths opponent))) (lit F (int SCORE_SCALE))) expected))))"

definition opponent_valid :: "'f f64 \<Rightarrow> RatingOpponent \<Rightarrow> bool" where
  "opponent_valid F opponent \<longleftrightarrow> ro_score_millionths opponent \<le> SCORE_SCALE
     \<and> validate_rating F (ro_rating opponent) = Ok ()"

definition update_rating :: "'f f64 \<Rightarrow> RatingValue \<Rightarrow> RatingOpponent list \<Rightarrow> RatingValue rated" where
  "update_rating F current opponents =
     rbind (validate_rating F current) (\<lambda>_.
     if list_ex (\<lambda>opponent. \<not> opponent_valid F opponent) opponents then Err RatInvalidInput
     else
       let mu = fp_div F (fp_sub F (rv_rating F current) (lit F 1500)) (GLICKO_SCALE F);
           phi = fp_div F (rv_deviation F current) (GLICKO_SCALE F);
           sigma = rv_volatility F current
       in if opponents = [] then rating_fixed F mu (fp_sqrt F (fp_mul_add F phi phi (fp_mul F sigma sigma))) sigma
       else
         let (variance_inverse, improvement) = foldl (add_opponent F mu) (lit F 0, lit F 0) opponents
         in if fp_le F variance_inverse (lit F 0) \<or> \<not> fp_is_finite F variance_inverse then Err RatNumericalFailure
         else
           let variance = fp_div F (lit F 1) variance_inverse;
               delta = fp_mul F variance improvement
           in rbind (solve_volatility F phi sigma variance delta) (\<lambda>next_sigma.
             let pre_deviation = fp_sqrt F (fp_mul_add F phi phi (fp_mul F next_sigma next_sigma));
                 next_phi = fp_div F (lit F 1) (fp_sqrt F (fp_add F
                   (fp_div F (lit F 1) (fp_mul F pre_deviation pre_deviation)) (fp_div F (lit F 1) variance)));
                 next_mu = fp_add F mu (fp_mul F (fp_mul F next_phi next_phi) improvement)
             in rating_fixed F next_mu next_phi next_sigma))"

section \<open>Periods\<close>

type_synonym pool_json = "RatingPool \<Rightarrow> byte list option"

definition pool_valid :: "RatingPool \<Rightarrow> bool" where
  "pool_valid p \<longleftrightarrow> valid_id 256 (rpl_language p) \<and> valid_id 256 (rpl_ruleset_id p)
     \<and> valid_sha256 (rpl_ruleset_sha256 p) \<and> valid_id 256 (rpl_rated_format_policy p)"

definition pool_key :: "env \<Rightarrow> pool_json \<Rightarrow> RatingPool \<Rightarrow> string rated" where
  "pool_key E json p =
     (if \<not> pool_valid p then Err RatInvalidInput
      else rbind (ok_or RatInvalidInput (json p)) (\<lambda>bytes. Ok (hex_lower (env_sha256 E bytes))))"

definition check_match :: "string list \<Rightarrow> RatedMatchInput \<Rightarrow> string list rated" where
  "check_match match_ids game =
     (if \<not> valid_id 256 (rm_match_id game) \<or> \<not> valid_id 256 (rm_series_id game) \<or> rm_series_game_number game = 0
         \<or> \<not> valid_id 256 (rm_entrant_one game) \<or> \<not> valid_id 256 (rm_entrant_two game)
         \<or> rm_entrant_one game = rm_entrant_two game \<or> SCORE_SCALE < rm_score_one_millionths game
         \<or> rm_match_id game \<in> set match_ids
      then Err RatInvalidInput else Ok (rm_match_id game # match_ids))"

definition check_update :: "'f f64 \<Rightarrow> string list \<Rightarrow> RatingUpdateInput \<Rightarrow> string list rated" where
  "check_update F entrants update =
     rbind (validate_rating F (ru_previous update)) (\<lambda>_.
     if \<not> valid_id 256 (ru_entrant_id update) \<or> ru_entrant_id update \<in> set entrants
        \<or> list_ex (\<lambda>opponent. \<not> opponent_valid F opponent) (ru_opponents update)
     then Err RatInvalidInput else Ok (ru_entrant_id update # entrants))"

type_synonym expected_opponents = "(string, RatingOpponent list) btree_map"

text \<open>\<^verbatim>\<open>expected.entry(entrant).or_default().push(opponent)\<close>\<close>

definition push_opponent :: "string \<Rightarrow> RatingOpponent \<Rightarrow> expected_opponents \<Rightarrow> expected_opponents" where
  "push_opponent entrant opponent m =
     btree_insert entrant ((case btree_get m entrant of None \<Rightarrow> [] | Some os \<Rightarrow> os) @ [opponent]) m"

definition expect_game ::
  "(string, RatingValue) btree_map \<Rightarrow> expected_opponents \<Rightarrow> RatedMatchInput \<Rightarrow> expected_opponents rated" where
  "expect_game previous expected game =
     rbind (ok_or RatInvalidInput (btree_get previous (rm_entrant_one game))) (\<lambda>one.
     rbind (ok_or RatInvalidInput (btree_get previous (rm_entrant_two game))) (\<lambda>two.
     rbind (expect (checked_sub SCORE_SCALE (rm_score_one_millionths game))) (\<lambda>rest.
     Ok (push_opponent (rm_entrant_two game) \<lparr>ro_rating = one, ro_score_millionths = rest\<rparr>
       (push_opponent (rm_entrant_one game) \<lparr>ro_rating = two, ro_score_millionths = rm_score_one_millionths game\<rparr> expected)))))"

text \<open>The derived order of \<^verbatim>\<open>RatingOpponent\<close>.\<close>

definition opponent_key :: "RatingOpponent \<Rightarrow> int \<times> nat \<times> nat \<times> nat" where
  "opponent_key o' = (rv_rating_milli (ro_rating o'), rv_deviation_milli (ro_rating o'), rv_volatility_nano (ro_rating o'),
     ro_score_millionths o')"

definition check_opponents :: "expected_opponents \<Rightarrow> RatingUpdateInput \<Rightarrow> expected_opponents rated" where
  "check_opponents expected update =
     (let actual = sort_key opponent_key (ru_opponents update);
          required = sort_key opponent_key (case btree_get expected (ru_entrant_id update) of None \<Rightarrow> [] | Some os \<Rightarrow> os)
      in if actual \<noteq> required then Err RatInvalidInput
         else Ok (filter (\<lambda>(entrant, _). entrant \<noteq> ru_entrant_id update) expected))"

definition previous_ratings :: "RatingUpdateInput list \<Rightarrow> (string, RatingValue) btree_map" where
  "previous_ratings updates = foldl (\<lambda>m u. btree_insert (ru_entrant_id u) (ru_previous u) m) [] updates"

definition validate_period :: "'f f64 \<Rightarrow> RatingPeriod \<Rightarrow> unit rated" where
  "validate_period F p =
     (if rpd_schema_version p \<noteq> RATING_SCHEMA_VERSION \<or> \<not> valid_id 256 (rpd_period_id p)
         \<or> \<not> pool_valid (rpd_pool p) \<or> rpd_updates p = []
      then Err RatInvalidInput
      else rbind (try_fold check_match [] (rpd_matches p)) (\<lambda>_.
        rbind (try_fold (check_update F) [] (rpd_updates p)) (\<lambda>_.
        rbind (try_fold (expect_game (previous_ratings (rpd_updates p))) [] (rpd_matches p)) (\<lambda>expected.
        rbind (try_fold check_opponents expected (rpd_updates p)) (\<lambda>_. Ok ())))))"

definition derive_period :: "'f f64 \<Rightarrow> RatingPeriod \<Rightarrow> (string \<times> RatingValue) list rated" where
  "derive_period F p =
     rbind (validate_period F p) (\<lambda>_.
     traverse (\<lambda>input. rbind (update_rating F (ru_previous input) (ru_opponents input)) (\<lambda>v. Ok (ru_entrant_id input, v)))
       (sort_key ru_entrant_id (rpd_updates p)))"

end
