(* ===== verification/RatingStore.thy ===== *)
theory RatingStore
  imports Rating
begin

text \<open>
  The SQLite repository of ratings (\<^verbatim>\<open>persistence/src/rating_repository.rs\<close> with
  \<^verbatim>\<open>migrations/0011_ratings.sql\<close>): five tables, the commit of a period, which checks for the period outside
  and writes inside one transaction, and the reads that load one period or rebuild a pool. A JSON
  column holds the value it encodes. The bytes of a pool, which its key hashes, are the argument \<open>json\<close>.
  A rebuild reads the periods and then the current ratings in separate statements: \<open>rebuild_pool\<close>
  takes the database at both moments.
\<close>

section \<open>Tables\<close>

record PeriodRow =
  prr_period_id :: string
  prr_schema_version :: int
  prr_pool_key :: string
  prr_sequence :: int
  prr_pool :: RatingPool
  prr_period :: RatingPeriod
  prr_derived :: "(string \<times> RatingValue) list"
  prr_committed_at_ms :: millis

record MatchInputRow =
  rmr_pool_key :: string
  rmr_match_id :: string
  rmr_period_id :: string
  rmr_series_id :: string
  rmr_series_game_number :: int
  rmr_entrant_one :: string
  rmr_entrant_two :: string
  rmr_score_one_millionths :: int

record RatingColumns =
  rc_rating_milli :: int
  rc_deviation_milli :: int
  rc_volatility_nano :: int

record PeriodInputRow =
  rir_period_id :: string
  rir_entrant_id :: string
  rir_previous :: RatingColumns
  rir_opponents :: "RatingOpponent list"

record RatingUpdateRow =
  rur_period_id :: string
  rur_entrant_id :: string
  rur_pool_key :: string
  rur_sequence :: int
  rur_rating :: RatingColumns

record CurrentRow =
  crr_pool_key :: string
  crr_entrant_id :: string
  crr_period_id :: string
  crr_sequence :: int
  crr_rating :: RatingColumns

record RatingDb =
  rdb_periods :: "PeriodRow list"
  rdb_matches :: "MatchInputRow list"
  rdb_inputs :: "PeriodInputRow list"
  rdb_updates :: "RatingUpdateRow list"
  rdb_current :: "CurrentRow list"

definition empty_rating_db :: RatingDb where
  "empty_rating_db = \<lparr>rdb_periods = [], rdb_matches = [], rdb_inputs = [], rdb_updates = [], rdb_current = []\<rparr>"

definition check_rating_columns :: "RatingColumns \<Rightarrow> bool" where
  "check_rating_columns c \<longleftrightarrow> 0 < rc_deviation_milli c \<and> 0 < rc_volatility_nano c"

definition check_period_row :: "PeriodRow \<Rightarrow> bool" where
  "check_period_row r \<longleftrightarrow> 0 < prr_schema_version r \<and> 0 \<le> prr_sequence r \<and> 0 \<le> prr_committed_at_ms r"

definition check_match_row :: "MatchInputRow \<Rightarrow> bool" where
  "check_match_row r \<longleftrightarrow> 0 < rmr_series_game_number r \<and> 0 \<le> rmr_score_one_millionths r
     \<and> rmr_score_one_millionths r \<le> 1000000 \<and> rmr_entrant_one r \<noteq> rmr_entrant_two r"

section \<open>Errors and results\<close>

datatype RatingRepositoryError = RatRepNotFound | RatRepConflict | RatRepCorrupt | RatRepUnavailable

type_synonym 'a rating_rep = "(RatingRepositoryError, 'a) outcome"

datatype RatingCommitResult = RatApplied StoredRatingPeriod | RatAlreadyApplied StoredRatingPeriod

definition corrupt :: "('e, 'a) outcome \<Rightarrow> 'a rating_rep" where
  "corrupt x = map_err (\<lambda>_. RatRepCorrupt) x"

section \<open>Columns\<close>

definition rating_columns :: "RatingValue \<Rightarrow> RatingColumns" where
  "rating_columns v = \<lparr>rc_rating_milli = rv_rating_milli v, rc_deviation_milli = int (rv_deviation_milli v),
     rc_volatility_nano = int (rv_volatility_nano v)\<rparr>"

text \<open>\<^verbatim>\<open>u32::try_from\<close> of a column.\<close>

definition u32_column :: "int \<Rightarrow> nat rating_rep" where
  "u32_column v = (if 0 \<le> v \<and> v < 2 ^ 32 then Ok (nat v) else Err RatRepCorrupt)"

definition rating_row :: "RatingColumns \<Rightarrow> RatingValue rating_rep" where
  "rating_row c =
     (if \<not> signed_range 32 (rc_rating_milli c) then Err RatRepCorrupt
      else rbind (u32_column (rc_deviation_milli c)) (\<lambda>d.
        rbind (u32_column (rc_volatility_nano c)) (\<lambda>v.
        Ok \<lparr>rv_rating_milli = rc_rating_milli c, rv_deviation_milli = d, rv_volatility_nano = v\<rparr>)))"

definition i64_sequence :: "nat \<Rightarrow> int rating_rep" where
  "i64_sequence n = (if n < 2 ^ 63 then Ok (int n) else Err RatRepCorrupt)"

definition rating_validate_id :: "string \<Rightarrow> unit rating_rep" where
  "rating_validate_id value =
     (if value = [] \<or> 256 < length value \<or> \<not> is_trimmed value \<or> list_ex is_control (utf8_chars value)
      then Err RatRepCorrupt else Ok ())"

section \<open>Reading a period\<close>

definition stored_period :: "env \<Rightarrow> 'f f64 \<Rightarrow> pool_json \<Rightarrow> PeriodRow \<Rightarrow> StoredRatingPeriod rating_rep" where
  "stored_period E F json row =
     (let period = prr_period row in
      rbind (corrupt (validate_period F period)) (\<lambda>_.
      rbind (corrupt (derive_period F period)) (\<lambda>derived.
      rbind (i64_sequence (rpd_sequence period)) (\<lambda>sequence.
      rbind (corrupt (pool_key E json (rpd_pool period))) (\<lambda>key.
      if derived \<noteq> prr_derived row \<or> prr_period_id row \<noteq> rpd_period_id period
         \<or> prr_schema_version row \<noteq> int RATING_SCHEMA_VERSION \<or> prr_sequence row \<noteq> sequence
         \<or> prr_pool_key row \<noteq> key \<or> prr_pool row \<noteq> rpd_pool period
      then Err RatRepCorrupt
      else Ok \<lparr>sr_period = period, sr_derived = prr_derived row, sr_committed_at = prr_committed_at_ms row\<rparr>)))))"

definition match_row_agrees :: "string \<Rightarrow> MatchInputRow \<Rightarrow> RatedMatchInput \<Rightarrow> bool" where
  "match_row_agrees key row expected \<longleftrightarrow> rmr_pool_key row = key \<and> rmr_match_id row = rm_match_id expected
     \<and> rmr_series_id row = rm_series_id expected
     \<and> rmr_series_game_number row = int (rm_series_game_number expected)
     \<and> rmr_entrant_one row = rm_entrant_one expected \<and> rmr_entrant_two row = rm_entrant_two expected
     \<and> rmr_score_one_millionths row = int (rm_score_one_millionths expected)"

definition check_input_row :: "PeriodInputRow \<times> RatingUpdateInput \<Rightarrow> unit rating_rep" where
  "check_input_row pair = (case pair of (row, expected) \<Rightarrow>
     if rir_entrant_id row \<noteq> ru_entrant_id expected then Err RatRepCorrupt
     else rbind (rating_row (rir_previous row)) (\<lambda>previous.
       if previous \<noteq> ru_previous expected \<or> rir_opponents row \<noteq> ru_opponents expected
       then Err RatRepCorrupt else Ok ()))"

definition check_update_row :: "string \<Rightarrow> int \<Rightarrow> RatingUpdateRow \<times> string \<times> RatingValue \<Rightarrow> unit rating_rep" where
  "check_update_row key sequence pair = (case pair of (row, entrant, expected) \<Rightarrow>
     if rur_entrant_id row \<noteq> entrant \<or> rur_pool_key row \<noteq> key \<or> rur_sequence row \<noteq> sequence then Err RatRepCorrupt
     else rbind (rating_row (rur_rating row)) (\<lambda>value. if value \<noteq> expected then Err RatRepCorrupt else Ok ()))"

definition validate_normalized_rows ::
  "env \<Rightarrow> pool_json \<Rightarrow> RatingDb \<Rightarrow> StoredRatingPeriod \<Rightarrow> unit rating_rep" where
  "validate_normalized_rows E json db stored =
     (let period = sr_period stored; id = rpd_period_id period in
      rbind (corrupt (pool_key E json (rpd_pool period))) (\<lambda>key.
      let match_rows = sort_key rmr_match_id (filter (\<lambda>r. rmr_period_id r = id) (rdb_matches db));
          expected_matches = sort_key rm_match_id (rpd_matches period)
      in if length match_rows \<noteq> length expected_matches then Err RatRepCorrupt
      else rbind (try_fold (\<lambda>_ (row, expected). if match_row_agrees key row expected then Ok () else Err RatRepCorrupt) ()
          (zip match_rows expected_matches)) (\<lambda>_.
      let input_rows = sort_key rir_entrant_id (filter (\<lambda>r. rir_period_id r = id) (rdb_inputs db));
          expected_inputs = sort_key ru_entrant_id (rpd_updates period)
      in if length input_rows \<noteq> length expected_inputs then Err RatRepCorrupt
      else rbind (try_fold (\<lambda>_. check_input_row) () (zip input_rows expected_inputs)) (\<lambda>_.
      let update_rows = sort_key rur_entrant_id (filter (\<lambda>r. rur_period_id r = id) (rdb_updates db))
      in if length update_rows \<noteq> length (sr_derived stored) then Err RatRepCorrupt
      else rbind (i64_sequence (rpd_sequence period)) (\<lambda>sequence.
        try_fold (\<lambda>_. check_update_row key sequence) () (zip update_rows (sr_derived stored)))))))"

definition load_period :: "env \<Rightarrow> 'f f64 \<Rightarrow> pool_json \<Rightarrow> RatingDb \<Rightarrow> string \<Rightarrow> StoredRatingPeriod rating_rep" where
  "load_period E F json db period_id =
     rbind (rating_validate_id period_id) (\<lambda>_.
     rbind (ok_or RatRepNotFound (List.find (\<lambda>r. prr_period_id r = period_id) (rdb_periods db))) (\<lambda>row.
     rbind (stored_period E F json row) (\<lambda>stored.
     rbind (validate_normalized_rows E json db stored) (\<lambda>_. Ok stored))))"

section \<open>Committing a period\<close>

definition max_sequence :: "string \<Rightarrow> PeriodRow list \<Rightarrow> int option" where
  "max_sequence key rows =
     (case filter (\<lambda>r. prr_pool_key r = key) rows of [] \<Rightarrow> None
      | r # rs \<Rightarrow> Some (foldl max (prr_sequence r) (map prr_sequence rs)))"

definition validate_sequence :: "RatingDb \<Rightarrow> string \<Rightarrow> nat \<Rightarrow> unit rating_rep" where
  "validate_sequence db key sequence =
     (let expected = (case max_sequence key (rdb_periods db) of None \<Rightarrow> 0 | Some v \<Rightarrow> min (2 ^ 63 - 1) (v + 1)) in
      rbind (i64_sequence sequence) (\<lambda>s. if s = expected then Ok () else Err RatRepConflict))"

definition find_current :: "RatingDb \<Rightarrow> string \<Rightarrow> string \<Rightarrow> CurrentRow option" where
  "find_current db key entrant = List.find (\<lambda>r. crr_pool_key r = key \<and> crr_entrant_id r = entrant) (rdb_current db)"

definition validate_previous :: "RatingDb \<Rightarrow> string \<Rightarrow> RatingPeriod \<Rightarrow> unit rating_rep" where
  "validate_previous db key period =
     try_fold (\<lambda>_ input. case find_current db key (ru_entrant_id input) of
         None \<Rightarrow> Ok ()
       | Some row \<Rightarrow> rbind (rating_row (crr_rating row)) (\<lambda>current.
           if current \<noteq> ru_previous input then Err RatRepConflict else Ok ())) () (rpd_updates period)"

definition period_row :: "string \<Rightarrow> RatingPeriod \<Rightarrow> (string \<times> RatingValue) list \<Rightarrow> millis \<Rightarrow> PeriodRow" where
  "period_row key period derived now = \<lparr>prr_period_id = rpd_period_id period,
     prr_schema_version = int (rpd_schema_version period), prr_pool_key = key,
     prr_sequence = int (rpd_sequence period), prr_pool = rpd_pool period, prr_period = period,
     prr_derived = derived, prr_committed_at_ms = now\<rparr>"

definition insert_period :: "RatingDb \<Rightarrow> PeriodRow \<Rightarrow> RatingDb rating_rep" where
  "insert_period db r =
     (if check_period_row r \<and> prr_period_id r \<notin> set (map prr_period_id (rdb_periods db))
         \<and> (prr_pool_key r, prr_sequence r) \<notin> set (map (\<lambda>r. (prr_pool_key r, prr_sequence r)) (rdb_periods db))
      then Ok (db\<lparr>rdb_periods := rdb_periods db @ [r]\<rparr>) else Err RatRepConflict)"

definition match_row :: "string \<Rightarrow> string \<Rightarrow> RatedMatchInput \<Rightarrow> MatchInputRow" where
  "match_row key period_id game = \<lparr>rmr_pool_key = key, rmr_match_id = rm_match_id game, rmr_period_id = period_id,
     rmr_series_id = rm_series_id game, rmr_series_game_number = int (rm_series_game_number game),
     rmr_entrant_one = rm_entrant_one game, rmr_entrant_two = rm_entrant_two game,
     rmr_score_one_millionths = int (rm_score_one_millionths game)\<rparr>"

definition insert_match :: "string \<Rightarrow> string \<Rightarrow> RatingDb \<Rightarrow> RatedMatchInput \<Rightarrow> RatingDb rating_rep" where
  "insert_match key period_id db game =
     (let r = match_row key period_id game in
      if check_match_row r
         \<and> (rmr_pool_key r, rmr_match_id r) \<notin> set (map (\<lambda>r. (rmr_pool_key r, rmr_match_id r)) (rdb_matches db))
         \<and> rmr_period_id r \<in> set (map prr_period_id (rdb_periods db))
      then Ok (db\<lparr>rdb_matches := rdb_matches db @ [r]\<rparr>) else Err RatRepConflict)"

definition input_row :: "string \<Rightarrow> RatingUpdateInput \<Rightarrow> PeriodInputRow" where
  "input_row period_id input = \<lparr>rir_period_id = period_id, rir_entrant_id = ru_entrant_id input,
     rir_previous = rating_columns (ru_previous input), rir_opponents = ru_opponents input\<rparr>"

definition insert_input :: "RatingDb \<Rightarrow> PeriodInputRow \<Rightarrow> RatingDb rating_rep" where
  "insert_input db r =
     (if check_rating_columns (rir_previous r)
         \<and> (rir_period_id r, rir_entrant_id r) \<notin> set (map (\<lambda>r. (rir_period_id r, rir_entrant_id r)) (rdb_inputs db))
         \<and> rir_period_id r \<in> set (map prr_period_id (rdb_periods db))
      then Ok (db\<lparr>rdb_inputs := rdb_inputs db @ [r]\<rparr>) else Err RatRepConflict)"

definition update_row :: "string \<Rightarrow> string \<Rightarrow> int \<Rightarrow> string \<Rightarrow> RatingValue \<Rightarrow> RatingUpdateRow" where
  "update_row key period_id sequence entrant v = \<lparr>rur_period_id = period_id, rur_entrant_id = entrant,
     rur_pool_key = key, rur_sequence = sequence, rur_rating = rating_columns v\<rparr>"

definition insert_update :: "RatingDb \<Rightarrow> RatingUpdateRow \<Rightarrow> RatingDb rating_rep" where
  "insert_update db r =
     (if 0 \<le> rur_sequence r \<and> check_rating_columns (rur_rating r)
         \<and> (rur_period_id r, rur_entrant_id r) \<notin> set (map (\<lambda>r. (rur_period_id r, rur_entrant_id r)) (rdb_updates db))
         \<and> (rur_pool_key r, rur_sequence r, rur_entrant_id r)
             \<notin> set (map (\<lambda>r. (rur_pool_key r, rur_sequence r, rur_entrant_id r)) (rdb_updates db))
         \<and> (rur_period_id r, rur_entrant_id r) \<in> set (map (\<lambda>r. (rir_period_id r, rir_entrant_id r)) (rdb_inputs db))
      then Ok (db\<lparr>rdb_updates := rdb_updates db @ [r]\<rparr>) else Err RatRepConflict)"

definition current_row :: "string \<Rightarrow> string \<Rightarrow> int \<Rightarrow> string \<Rightarrow> RatingValue \<Rightarrow> CurrentRow" where
  "current_row key period_id sequence entrant v = \<lparr>crr_pool_key = key, crr_entrant_id = entrant,
     crr_period_id = period_id, crr_sequence = sequence, crr_rating = rating_columns v\<rparr>"

text \<open>\<^verbatim>\<open>INSERT .. ON CONFLICT DO UPDATE .. WHERE current_ratings.sequence < excluded.sequence\<close>\<close>

definition upsert_current :: "RatingDb \<Rightarrow> CurrentRow \<Rightarrow> RatingDb rating_rep" where
  "upsert_current db r =
     (if \<not> (0 \<le> crr_sequence r \<and> check_rating_columns (crr_rating r)
         \<and> (crr_period_id r, crr_entrant_id r) \<in> set (map (\<lambda>r. (rur_period_id r, rur_entrant_id r)) (rdb_updates db)))
      then Err RatRepConflict
      else if find_current db (crr_pool_key r) (crr_entrant_id r) = None
      then Ok (db\<lparr>rdb_current := rdb_current db @ [r]\<rparr>)
      else Ok (db\<lparr>rdb_current := map (\<lambda>old. if crr_pool_key old = crr_pool_key r \<and> crr_entrant_id old = crr_entrant_id r
          \<and> crr_sequence old < crr_sequence r then r else old) (rdb_current db)\<rparr>))"

definition commit_update ::
  "string \<Rightarrow> RatingPeriod \<Rightarrow> (string, RatingValue) btree_map \<Rightarrow> RatingDb \<Rightarrow> RatingUpdateInput \<Rightarrow> RatingDb rating_rep" where
  "commit_update key period derived db input =
     rbind (insert_input db (input_row (rpd_period_id period) input)) (\<lambda>db.
     rbind (ok_or RatRepCorrupt (btree_get derived (ru_entrant_id input))) (\<lambda>v.
     rbind (i64_sequence (rpd_sequence period)) (\<lambda>sequence.
     rbind (insert_update db (update_row key (rpd_period_id period) sequence (ru_entrant_id input) v)) (\<lambda>db.
     upsert_current db (current_row key (rpd_period_id period) sequence (ru_entrant_id input) v)))))"

definition insert_updates ::
  "string \<Rightarrow> RatingPeriod \<Rightarrow> (string \<times> RatingValue) list \<Rightarrow> RatingDb \<Rightarrow> RatingDb rating_rep" where
  "insert_updates key period derived db =
     try_fold (commit_update key period (foldl (\<lambda>m (entrant, v). btree_insert entrant v m) [] derived)) db (rpd_updates period)"

definition commit_check ::
  "env \<Rightarrow> 'f f64 \<Rightarrow> pool_json \<Rightarrow> RatingDb \<Rightarrow> RatingPeriod \<Rightarrow> millis
    \<Rightarrow> ((string \<times> (string \<times> RatingValue) list) + RatingCommitResult) rating_rep" where
  "commit_check E F json db period now =
     rbind (corrupt (validate_period F period)) (\<lambda>_.
     if now < 0 then Err RatRepCorrupt
     else rbind (corrupt (derive_period F period)) (\<lambda>derived.
       case load_period E F json db (rpd_period_id period) of
         Ok existing \<Rightarrow> if sr_period existing = period \<and> sr_derived existing = derived
           then Ok (Inr (RatAlreadyApplied existing)) else Err RatRepConflict
       | Err RatRepNotFound \<Rightarrow> rbind (corrupt (pool_key E json (rpd_pool period))) (\<lambda>key. Ok (Inl (key, derived)))
       | Err e \<Rightarrow> Err e
       | Panic \<Rightarrow> Panic
       | Diverge \<Rightarrow> Diverge))"

definition commit_insert ::
  "string \<Rightarrow> RatingPeriod \<Rightarrow> (string \<times> RatingValue) list \<Rightarrow> millis \<Rightarrow> RatingDb \<Rightarrow> RatingDb \<times> RatingCommitResult rating_rep" where
  "commit_insert key period derived now = transaction (\<lambda>db.
     rbind (validate_sequence db key (rpd_sequence period)) (\<lambda>_.
     rbind (validate_previous db key period) (\<lambda>_.
     rbind (i64_sequence (rpd_sequence period)) (\<lambda>_.
     rbind (insert_period db (period_row key period derived now)) (\<lambda>db.
     rbind (try_fold (insert_match key (rpd_period_id period)) db (rpd_matches period)) (\<lambda>db.
     rbind (insert_updates key period derived db) (\<lambda>db.
     Ok (db, RatApplied \<lparr>sr_period = period, sr_derived = derived, sr_committed_at = now\<rparr>))))))))"

definition commit_period ::
  "env \<Rightarrow> 'f f64 \<Rightarrow> pool_json \<Rightarrow> RatingDb \<Rightarrow> RatingPeriod \<Rightarrow> millis \<Rightarrow> RatingDb \<times> RatingCommitResult rating_rep" where
  "commit_period E F json db period now = (case commit_check E F json db period now of
       Ok (Inr result) \<Rightarrow> (db, Ok result)
     | Ok (Inl (key, derived)) \<Rightarrow> commit_insert key period derived now db
     | Err e \<Rightarrow> (db, Err e)
     | Panic \<Rightarrow> (db, Panic)
     | Diverge \<Rightarrow> (db, Diverge))"

section \<open>Rebuilding a pool\<close>

definition rebuild_row ::
  "env \<Rightarrow> 'f f64 \<Rightarrow> pool_json \<Rightarrow> RatingDb \<Rightarrow> RatingPool \<Rightarrow> nat \<times> (string, RatingValue) btree_map \<Rightarrow> PeriodRow
    \<Rightarrow> (nat \<times> (string, RatingValue) btree_map) rating_rep" where
  "rebuild_row E F json db pool st row = (case st of (expected_sequence, ratings) \<Rightarrow>
     rbind (stored_period E F json row) (\<lambda>stored.
     rbind (validate_normalized_rows E json db stored) (\<lambda>_.
     rbind (ok_or RatRepCorrupt (try_from 64 expected_sequence)) (\<lambda>sequence.
     if rpd_pool (sr_period stored) \<noteq> pool \<or> rpd_sequence (sr_period stored) \<noteq> sequence then Err RatRepCorrupt
     else if list_ex (\<lambda>input. case btree_get ratings (ru_entrant_id input) of None \<Rightarrow> False
         | Some current \<Rightarrow> current \<noteq> ru_previous input) (rpd_updates (sr_period stored))
     then Err RatRepCorrupt
     else Ok (expected_sequence + 1, foldl (\<lambda>m (entrant, v). btree_insert entrant v m) ratings (sr_derived stored))))))"

definition validate_current_rows :: "RatingDb \<Rightarrow> string \<Rightarrow> (string \<times> RatingValue) list \<Rightarrow> unit rating_rep" where
  "validate_current_rows db key rebuilt =
     (let rows = sort_key crr_entrant_id (filter (\<lambda>r. crr_pool_key r = key) (rdb_current db)) in
      if length rows \<noteq> length rebuilt then Err RatRepCorrupt
      else try_fold (\<lambda>_ (row, entrant, expected).
        if crr_entrant_id row \<noteq> entrant then Err RatRepCorrupt
        else rbind (rating_row (crr_rating row)) (\<lambda>value. if value \<noteq> expected then Err RatRepCorrupt else Ok ())) ()
        (zip rows rebuilt))"

definition rebuild_pool ::
  "env \<Rightarrow> 'f f64 \<Rightarrow> pool_json \<Rightarrow> RatingDb \<Rightarrow> RatingDb \<Rightarrow> RatingPool \<Rightarrow> (string \<times> RatingValue) list rating_rep" where
  "rebuild_pool E F json db later pool =
     rbind (corrupt (pool_key E json pool)) (\<lambda>key.
     rbind (try_fold (rebuild_row E F json db pool) (0, [])
       (sort_key (\<lambda>r. (prr_sequence r, prr_period_id r)) (filter (\<lambda>r. prr_pool_key r = key) (rdb_periods db)))) (\<lambda>(_, ratings).
     rbind (validate_current_rows later key ratings) (\<lambda>_. Ok ratings)))"

section \<open>Histories\<close>

text \<open>The insertions of any process whose period was accepted, at any time after its check.\<close>

inductive rating_step :: "env \<Rightarrow> 'f f64 \<Rightarrow> pool_json \<Rightarrow> RatingDb \<Rightarrow> RatingDb \<Rightarrow> bool" for E F json where
  step_commit: "derive_period F period = Ok derived \<Longrightarrow> pool_key E json (rpd_pool period) = Ok key \<Longrightarrow> 0 \<le> now \<Longrightarrow>
    rating_step E F json db (fst (commit_insert key period derived now db))"

definition rating_reachable :: "env \<Rightarrow> 'f f64 \<Rightarrow> pool_json \<Rightarrow> RatingDb \<Rightarrow> bool" where
  "rating_reachable E F json db \<longleftrightarrow> (rating_step E F json)\<^sup>*\<^sup>* empty_rating_db db"

end
