(* ===== verification/RatingFacts.thy ===== *)
theory RatingFacts
  imports RatingStore
begin

text \<open>
  What the arithmetic and the validation of rating periods guarantee: under \<open>f64_ok\<close> a rating is
  valid exactly when its three numbers are within the documented bounds, every update returns a valid
  rating or an error, and a period that derives has distinct entrants and matches and one derived rating of
  each entrant, in their order.
\<close>

section \<open>Printing and parsing integers\<close>

definition show_int :: "int \<Rightarrow> string" where
  "show_int n = (if n < 0 then CHR ''-'' # decimal (nat (- n)) else decimal (nat n))"

lemma digit_char: "k < 10 \<Longrightarrow> of_char (char_of (48 + k) :: char) = (48 + k :: nat)"
  by simp

lemma decimal_digits: "decimal n \<noteq> [] \<and> list_all ascii_digit (decimal n)"
proof (induction n rule: decimal.induct)
  case (1 n)
  show ?case
  proof (cases "n < 10")
    case True
    then show ?thesis by (subst (1 2) decimal.simps) (simp add: ascii_digit_def)
  next
    case False
    have "ascii_digit (char_of (48 + n mod 10))" by (simp add: ascii_digit_def)
    then show ?thesis using 1[OF False] False by (subst (1 2) decimal.simps) simp
  qed
qed

lemma decimal_value: "foldl (\<lambda>a c. a * 10 + (of_char c - 48)) 0 (decimal n) = n"
proof (induction n rule: decimal.induct)
  case (1 n)
  show ?case
  proof (cases "n < 10")
    case True
    then show ?thesis by (subst decimal.simps) simp
  next
    case False
    have "(of_char (char_of (48 + n mod 10) :: char) :: nat) = 48 + n mod 10" by simp
    then show ?thesis using 1[OF False] False by (subst decimal.simps) simp
  qed
qed

lemma parse_decimal [simp]: "parse_digits (decimal n) = Some n"
  using decimal_digits[of n] decimal_value[of n] by (simp add: parse_digits_def)

lemma decimal_head: "\<exists>c cs. decimal n = c # cs \<and> c \<noteq> CHR ''+'' \<and> c \<noteq> CHR ''-''"
  using decimal_digits[of n] by (cases "decimal n") (auto simp: ascii_digit_def)

lemma parse_unsigned_decimal: "n < 2 ^ w \<Longrightarrow> parse_unsigned w (decimal n) = Some n"
proof -
  assume n: "n < 2 ^ w"
  obtain c cs where c: "decimal n = c # cs" "c \<noteq> CHR ''+''" using decimal_head by blast
  then show ?thesis using n parse_decimal[of n] by (simp add: parse_unsigned_def try_from_def del: parse_decimal)
qed

lemma parse_signed_show: "signed_range w n \<Longrightarrow> parse_signed w (show_int n) = Some n"
proof -
  assume n: "signed_range w n"
  obtain c cs where "decimal (nat n) = c # cs" "c \<noteq> CHR ''+''" "c \<noteq> CHR ''-''" using decimal_head by blast
  then show ?thesis using n parse_decimal[of "nat n"] parse_decimal[of "nat (- n)"]
    by (cases "n < 0") (simp_all add: parse_signed_def show_int_def del: parse_decimal)
qed

section \<open>Floating point at the bounds\<close>

text \<open>
  Scaling a number of a closed interval and printing it gives an integer of the scaled interval (zero
  may be printed with a minus sign, as \<^verbatim>\<open>format!\<close> prints a negative number that rounds to it), and an
  integer divided by the scale is in the interval exactly when the integer is in the scaled one. Both
  follow from correct rounding, which is monotone and exact on these bounds: the theory \<open>Binary64\<close> proves
  them of IEEE binary64 arithmetic.
\<close>

definition prints_as :: "string \<Rightarrow> int \<Rightarrow> bool" where
  "prints_as s n \<longleftrightarrow> s = show_int n \<or> n = 0 \<and> s = ''-0''"

lemma parse_signed_prints: "signed_range w n \<Longrightarrow> prints_as s n \<Longrightarrow> parse_signed w s = Some n"
  by (auto simp: prints_as_def parse_signed_show) (simp add: parse_signed_def parse_digits_def ascii_digit_def)

definition prints_between :: "'f f64 \<Rightarrow> 'f \<Rightarrow> 'f \<Rightarrow> 'f \<Rightarrow> int \<Rightarrow> int \<Rightarrow> bool" where
  "prints_between F low high scale a b \<longleftrightarrow> (\<forall>x. fp_is_finite F x \<and> fp_contains F low high x \<longrightarrow>
     (\<exists>n. a \<le> n \<and> n \<le> b \<and> prints_as (fp_print F (fp_mul F x scale)) n))"

definition reads_between :: "'f f64 \<Rightarrow> 'f \<Rightarrow> 'f \<Rightarrow> 'f \<Rightarrow> int \<Rightarrow> int \<Rightarrow> bool" where
  "reads_between F low high scale a b \<longleftrightarrow> (\<forall>n. fp_is_finite F (fp_div F (lit F n) scale)
     \<and> fp_contains F low high (fp_div F (lit F n) scale) \<longleftrightarrow> a \<le> n \<and> n \<le> b)"

definition f64_ok :: "'f f64 \<Rightarrow> bool" where
  "f64_ok F \<longleftrightarrow> prints_between F (lit F (- 1000)) (lit F 5000) (lit F 1000) (- 1000000) 5000000
     \<and> prints_between F (fp_dec F 1 3) (lit F 350) (lit F 1000) 1 350000
     \<and> prints_between F (fp_dec F 1 6) (lit F 1) (lit F 1000000000) 1000 1000000000
     \<and> reads_between F (lit F (- 1000)) (lit F 5000) (lit F 1000) (- 1000000) 5000000
     \<and> reads_between F (fp_dec F 1 3) (lit F 350) (lit F 1000) 1 350000
     \<and> reads_between F (fp_dec F 1 6) (lit F 1) (lit F 1000000000) 1000 1000000000"

definition rating_in_bounds :: "RatingValue \<Rightarrow> bool" where
  "rating_in_bounds v \<longleftrightarrow> - 1000000 \<le> rv_rating_milli v \<and> rv_rating_milli v \<le> 5000000
     \<and> 1 \<le> rv_deviation_milli v \<and> rv_deviation_milli v \<le> 350000
     \<and> 1000 \<le> rv_volatility_nano v \<and> rv_volatility_nano v \<le> 1000000000"

lemma rounded_integer_between:
  assumes "prints_between F low high scale a b" "fp_is_finite F x" "fp_contains F low high x" "- (2 ^ 31) \<le> a" "b < 2 ^ 31"
  shows "\<exists>n. a \<le> n \<and> n \<le> b \<and> rounded_integer F (fp_mul F x scale) = Ok n"
proof -
  obtain n where n: "a \<le> n" "n \<le> b" "prints_as (fp_print F (fp_mul F x scale)) n"
    using assms(1-3) by (auto simp: prints_between_def)
  have "signed_range 32 n" using n(1,2) assms(4,5) by (simp add: signed_range_def)
  then show ?thesis using n by (auto simp: rounded_integer_def parse_signed_prints)
qed

lemma rounded_unsigned_between:
  assumes "prints_between F low high scale (int a) (int b)" "fp_is_finite F x" "fp_contains F low high x" "0 < a" "b < 2 ^ 32"
  shows "\<exists>n. a \<le> n \<and> n \<le> b \<and> rounded_unsigned F (fp_mul F x scale) = Ok n"
proof -
  obtain n where n: "int a \<le> n" "n \<le> int b" "prints_as (fp_print F (fp_mul F x scale)) n"
    using assms(1-3) by (auto simp: prints_between_def)
  then have "fp_print F (fp_mul F x scale) = decimal (nat n)" "nat n < 2 ^ 32" "a \<le> nat n" "nat n \<le> b"
    using assms(4,5) by (auto simp: show_int_def prints_as_def)
  then show ?thesis by (auto simp: rounded_unsigned_def parse_unsigned_decimal)
qed

lemma from_f64_within:
  assumes "f64_ok F" "fp_is_finite F r" "fp_is_finite F d" "fp_is_finite F v" "fp_contains F (lit F (- 1000)) (lit F 5000) r"
    "fp_contains F (fp_dec F 1 3) (lit F 350) d" "fp_contains F (fp_dec F 1 6) (lit F 1) v"
  shows "\<exists>x. from_f64 F r d v = Ok x \<and> rating_in_bounds x"
proof -
  note f = assms(1)[unfolded f64_ok_def]
  obtain a where a: "- 1000000 \<le> a" "a \<le> 5000000" "rounded_integer F (fp_mul F r (lit F 1000)) = Ok a"
    using rounded_integer_between[OF f[THEN conjunct1] assms(2,5)] by auto
  obtain b where b: "1 \<le> b" "b \<le> 350000" "rounded_unsigned F (fp_mul F d (lit F 1000)) = Ok b"
    using rounded_unsigned_between[of F _ _ _ 1 350000, OF _ assms(3,6)] f by auto
  obtain c where c: "1000 \<le> c" "c \<le> 1000000000" "rounded_unsigned F (fp_mul F v (lit F 1000000000)) = Ok c"
    using rounded_unsigned_between[of F _ _ _ 1000 1000000000, OF _ assms(4,7)] f by auto
  show ?thesis using a b c assms(2-7) by (simp add: from_f64_def rating_in_bounds_def)
qed

lemma from_f64_cases:
  "f64_ok F \<Longrightarrow> from_f64 F r d v = Err RatInvalidInput \<or> (\<exists>x. from_f64 F r d v = Ok x \<and> rating_in_bounds x)"
  using from_f64_within[of F r d v] by (auto simp: from_f64_def)

lemma readable:
  assumes "f64_ok F"
  shows "fp_is_finite F (rv_rating F v) \<and> fp_contains F (lit F (- 1000)) (lit F 5000) (rv_rating F v)
      \<longleftrightarrow> - 1000000 \<le> rv_rating_milli v \<and> rv_rating_milli v \<le> 5000000"
    "fp_is_finite F (rv_deviation F v) \<and> fp_contains F (fp_dec F 1 3) (lit F 350) (rv_deviation F v)
      \<longleftrightarrow> 1 \<le> rv_deviation_milli v \<and> rv_deviation_milli v \<le> 350000"
    "fp_is_finite F (rv_volatility F v) \<and> fp_contains F (fp_dec F 1 6) (lit F 1) (rv_volatility F v)
      \<longleftrightarrow> 1000 \<le> rv_volatility_nano v \<and> rv_volatility_nano v \<le> 1000000000"
  using assms by (simp_all add: f64_ok_def reads_between_def rv_rating_def rv_deviation_def rv_volatility_def)

lemma validate_rating_cases:
  assumes "f64_ok F"
  shows "validate_rating F v = (if rating_in_bounds v then Ok () else Err RatInvalidInput)"
proof -
  let ?r = "rv_rating F v" and ?d = "rv_deviation F v" and ?v = "rv_volatility F v"
  let ?in = "fp_is_finite F ?r \<and> fp_contains F (lit F (- 1000)) (lit F 5000) ?r
    \<and> fp_is_finite F ?d \<and> fp_contains F (fp_dec F 1 3) (lit F 350) ?d
    \<and> fp_is_finite F ?v \<and> fp_contains F (fp_dec F 1 6) (lit F 1) ?v"
  have "?in \<longleftrightarrow> rating_in_bounds v" using readable[OF assms, of v] by (simp add: rating_in_bounds_def) argo
  moreover have "from_f64 F ?r ?d ?v = Err RatInvalidInput" if "\<not> ?in" using that by (auto simp: from_f64_def)
  moreover have "\<exists>x. from_f64 F ?r ?d ?v = Ok x" if "?in" using from_f64_within[OF assms] that by blast
  ultimately show ?thesis by (auto simp: validate_rating_def)
qed

lemma validate_rating_iff: "f64_ok F \<Longrightarrow> validate_rating F v = Ok u \<longleftrightarrow> rating_in_bounds v"
  by (simp add: validate_rating_cases)

text \<open>An update returns a valid rating or one of the two errors, whatever the arithmetic does.\<close>

lemma bracket_returns: "returns (bracket F f alpha n)"
  by (induction F f alpha n rule: bracket.induct) (subst bracket.simps, simp)

lemma narrow_returns: "returns (narrow F f n lo up lv uv)"
  by (induction F f n lo up lv uv rule: narrow.induct) (auto simp: Let_def)

lemma solve_volatility_returns: "returns (solve_volatility F phi sigma variance delta)"
  by (auto simp: solve_volatility_def Let_def bracket_returns narrow_returns intro!: returns_rbind)

lemma update_rating_result:
  assumes "f64_ok F"
  shows "returns (update_rating F v os)" "update_rating F v os = Ok w \<Longrightarrow> rating_in_bounds w"
proof -
  have fixed: "returns (rating_fixed F mu phi sigma)" "rating_fixed F mu phi sigma = Ok w \<Longrightarrow> rating_in_bounds w" for mu phi sigma
    using from_f64_cases[OF assms] by (metis outcome.distinct(1) outcome.inject(1) rating_fixed_def returns_simps(1,2))+
  have v: "returns (validate_rating F v)" by (simp add: validate_rating_cases[OF assms])
  show "returns (update_rating F v os)"
    unfolding update_rating_def Let_def
    by (auto simp: fixed v solve_volatility_returns split: prod.splits intro!: returns_rbind)
  show "update_rating F v os = Ok w \<Longrightarrow> rating_in_bounds w"
    unfolding update_rating_def Let_def by (auto simp: rbind_Ok_iff split: if_splits prod.splits dest: fixed(2))
qed

section \<open>Folds of checks\<close>

lemma try_fold_unit: "try_fold (\<lambda>_. f) () xs = Ok () \<longleftrightarrow> (\<forall>x \<in> set xs. f x = Ok ())"
  by (induction xs) (auto simp: rbind_Ok_iff)

lemma try_fold_keys:
  assumes "\<And>seen x seen'. f seen x = Ok seen' \<longleftrightarrow> P x \<and> k x \<notin> set seen \<and> seen' = k x # seen"
  shows "try_fold f seen xs = Ok seen' \<Longrightarrow> (\<forall>x \<in> set xs. P x) \<and> distinct (map k xs) \<and> set (map k xs) \<inter> set seen = {}"
  using assms by (induction xs arbitrary: seen) (fastforce simp: rbind_Ok_iff)+

lemma get_inserts:
  assumes "btree_ok m" "distinct (map fst xs)"
  shows "btree_ok (foldl (\<lambda>m (k, v). btree_insert k v m) m xs)
    \<and> btree_get (foldl (\<lambda>m (k, v). btree_insert k v m) m xs) k = (case map_of xs k of None \<Rightarrow> btree_get m k | Some v \<Rightarrow> Some v)"
  using assms
proof (induction xs arbitrary: m)
  case (Cons x xs)
  obtain a b where x: "x = (a, b)" by (cases x)
  have m: "btree_ok (btree_insert a b m)" using Cons.prems(1) by (rule btree_insert_ok)
  have "map_of xs a = None" using Cons.prems(2) by (simp add: x map_of_eq_None_iff)
  then show ?case using Cons.IH[OF m] Cons.prems by (auto simp: x btree_get_insert split: option.splits)
qed simp

lemma traverse_Ok_mem: "traverse f xs = Ok ys \<Longrightarrow> x \<in> set xs \<Longrightarrow> \<exists>y. f x = Ok y"
  by (induction xs arbitrary: ys) (auto simp: rbind_Ok_iff)

section \<open>Accepted periods\<close>

definition match_input_ok :: "RatedMatchInput \<Rightarrow> bool" where
  "match_input_ok g \<longleftrightarrow> 0 < rm_series_game_number g \<and> rm_entrant_one g \<noteq> rm_entrant_two g \<and> rm_score_one_millionths g \<le> SCORE_SCALE"

lemma validate_period_Ok:
  assumes "validate_period F p = Ok u"
  shows "rpd_schema_version p = RATING_SCHEMA_VERSION" "valid_id 256 (rpd_period_id p)" "pool_valid (rpd_pool p)"
    "distinct (map rm_match_id (rpd_matches p))" "list_all match_input_ok (rpd_matches p)"
    "distinct (map ru_entrant_id (rpd_updates p))" "\<forall>u \<in> set (rpd_updates p). validate_rating F (ru_previous u) = Ok ()"
proof -
  from assms obtain ms us where v: "rpd_schema_version p = RATING_SCHEMA_VERSION" "valid_id 256 (rpd_period_id p)"
    "pool_valid (rpd_pool p)" "try_fold check_match [] (rpd_matches p) = Ok ms" "try_fold (check_update F) [] (rpd_updates p) = Ok us"
    by (auto simp: validate_period_def rbind_Ok_iff split: if_splits)
  show "rpd_schema_version p = RATING_SCHEMA_VERSION" "valid_id 256 (rpd_period_id p)" "pool_valid (rpd_pool p)" by fact+
  let ?P = "\<lambda>g. valid_id 256 (rm_match_id g) \<and> valid_id 256 (rm_series_id g) \<and> valid_id 256 (rm_entrant_one g)
    \<and> valid_id 256 (rm_entrant_two g) \<and> match_input_ok g"
  have "check_match seen g = Ok seen' \<longleftrightarrow> ?P g \<and> rm_match_id g \<notin> set seen \<and> seen' = rm_match_id g # seen" for seen g seen'
    by (auto simp: check_match_def match_input_ok_def)
  from try_fold_keys[OF this v(4)]
  show "distinct (map rm_match_id (rpd_matches p))" "list_all match_input_ok (rpd_matches p)" by (simp_all add: list_all_iff)
  let ?Q = "\<lambda>u. validate_rating F (ru_previous u) = Ok () \<and> valid_id 256 (ru_entrant_id u)
    \<and> list_all (opponent_valid F) (ru_opponents u)"
  have "check_update F seen u = Ok seen' \<longleftrightarrow> ?Q u \<and> ru_entrant_id u \<notin> set seen \<and> seen' = ru_entrant_id u # seen" for seen u seen'
    by (auto simp: check_update_def rbind_Ok_iff list_ex_iff list_all_iff)
  from try_fold_keys[OF this v(5)]
  show "distinct (map ru_entrant_id (rpd_updates p))" "\<forall>u \<in> set (rpd_updates p). validate_rating F (ru_previous u) = Ok ()"
    by simp_all
qed

text \<open>The rating derived for an entrant.\<close>

definition derived_rating :: "(string \<times> RatingValue) list \<Rightarrow> RatingUpdateInput \<Rightarrow> RatingValue" where
  "derived_rating d u = the (map_of d (ru_entrant_id u))"

lemma derive_period_Ok:
  assumes "derive_period F p = Ok d"
  shows "validate_period F p = Ok ()" "d = map (\<lambda>u. (ru_entrant_id u, derived_rating d u)) (sort_key ru_entrant_id (rpd_updates p))"
    "btree_ok d" "distinct (map fst d)" "fst ` set d = ru_entrant_id ` set (rpd_updates p)"
    "\<forall>u \<in> set (rpd_updates p). map_of d (ru_entrant_id u) = Some (derived_rating d u)
       \<and> update_rating F (ru_previous u) (ru_opponents u) = Ok (derived_rating d u)"
proof -
  let ?us = "sort_key ru_entrant_id (rpd_updates p)"
  show v: "validate_period F p = Ok ()" using assms by (auto simp: derive_period_def rbind_Ok_iff)
  have t: "traverse (\<lambda>u. rbind (update_rating F (ru_previous u) (ru_opponents u)) (\<lambda>v. Ok (ru_entrant_id u, v))) ?us = Ok d"
    using assms by (simp add: derive_period_def v)
  have "\<exists>w. d = map (\<lambda>u. (ru_entrant_id u, w u)) ?us \<and> (\<forall>u \<in> set ?us. update_rating F (ru_previous u) (ru_opponents u) = Ok (w u))"
  proof (intro exI conjI)
    let ?w = "\<lambda>u. case update_rating F (ru_previous u) (ru_opponents u) of Ok v \<Rightarrow> v"
    show "d = map (\<lambda>u. (ru_entrant_id u, ?w u)) ?us" by (rule traverse_Ok_map[OF t]) (auto simp: rbind_Ok_iff)
    show "\<forall>u \<in> set ?us. update_rating F (ru_previous u) (ru_opponents u) = Ok (?w u)"
      using traverse_Ok_mem[OF t] by (fastforce simp: rbind_Ok_iff)
  qed
  then obtain w where w: "d = map (\<lambda>u. (ru_entrant_id u, w u)) ?us" "\<forall>u \<in> set ?us. update_rating F (ru_previous u) (ru_opponents u) = Ok (w u)" by blast
  have ds: "distinct (map ru_entrant_id ?us)" using validate_period_Ok(6)[OF v] by (simp add: distinct_map)
  then show dist: "distinct (map fst d)" by (simp add: w(1) comp_def)
  have fst: "map fst d = map ru_entrant_id ?us" by (simp add: w(1) comp_def)
  then show "btree_ok d" using ds by (simp add: btree_ok_def btree_keys_def strict_sorted_iff)
  show "fst ` set d = ru_entrant_id ` set (rpd_updates p)" using fst by (metis set_map set_sort)
  have m: "map_of d (ru_entrant_id u) = Some (w u)" if "u \<in> set (rpd_updates p)" for u
    by (rule map_of_is_SomeI[OF dist]) (use that w(1) in auto)
  then show "\<forall>u \<in> set (rpd_updates p). map_of d (ru_entrant_id u) = Some (derived_rating d u)
       \<and> update_rating F (ru_previous u) (ru_opponents u) = Ok (derived_rating d u)"
    using w(2) by (simp add: derived_rating_def)
  show "d = map (\<lambda>u. (ru_entrant_id u, derived_rating d u)) ?us"
    by (subst w(1), rule map_cong) (use m in \<open>auto simp: derived_rating_def\<close>)
qed

lemma derived_in_bounds:
  assumes "f64_ok F" "derive_period F p = Ok d" "u \<in> set (rpd_updates p)"
  shows "rating_in_bounds (ru_previous u)" "rating_in_bounds (derived_rating d u)"
  using validate_period_Ok(7)[OF derive_period_Ok(1)[OF assms(2)]] derive_period_Ok(6)[OF assms(2)] assms(3)
    validate_rating_iff[OF assms(1)] update_rating_result(2)[OF assms(1)] by blast+

lemma rating_row_columns: "rating_in_bounds v \<Longrightarrow> rating_row (rating_columns v) = Ok v"
  by (simp add: rating_row_def rating_columns_def rating_in_bounds_def u32_column_def signed_range_def)

lemma check_columns: "rating_in_bounds v \<Longrightarrow> check_rating_columns (rating_columns v)"
  by (simp add: check_rating_columns_def rating_columns_def rating_in_bounds_def)

end
