(* ===== verification/RatingInv.thy ===== *)
theory RatingInv
  imports RatingFacts
begin

text \<open>
  The invariant of the rating tables. Under it a commit of a period is accepted exactly when the
  period is new, continues the sequence of its pool, starts from the current ratings and rates matches
  that the pool has not rated; any other is refused and changes nothing; and the current ratings of a pool
  are the replay of its periods.
\<close>

section \<open>Lists\<close>

lemma find_key: "distinct (map k xs) \<Longrightarrow> List.find (\<lambda>x. k x = a) xs = Some x \<longleftrightarrow> x \<in> set xs \<and> k x = a"
  by (induction xs) auto

lemma try_fold_verdict:
  assumes "\<And>x. x \<in> set xs \<Longrightarrow> f x = (if P x then Ok () else Err e)"
  shows "try_fold (\<lambda>_. f) () xs = (if list_all P xs then Ok () else Err e)"
  using assms by (induction xs) auto

lemma foldl_max_sorted: "sorted (a # xs) \<Longrightarrow> foldl max a xs = last (a # xs :: int list)"
  by (induction xs arbitrary: a) (auto simp: max_def)

lemma filter_concat_key:
  assumes "distinct (map k rs)" "r \<in> set rs" "\<And>r x. r \<in> set rs \<Longrightarrow> x \<in> set (f r) \<Longrightarrow> g x = k r"
  shows "filter (\<lambda>x. g x = k r) (concat (map f rs)) = f r"
  using assms
proof (induction rs)
  case (Cons s rs)
  have own: "\<forall>x \<in> set (f t). g x = k t" if "t \<in> set (s # rs)" for t using Cons.prems(3) that by blast
  show ?case
  proof (cases "r = s")
    case True
    have "k t \<noteq> k s" if "t \<in> set rs" for t using Cons.prems(1) that by (metis distinct.simps(2) image_eqI list.map(2) list.set_map)
    then have "g x \<noteq> k r" if "t \<in> set rs" "x \<in> set (f t)" for t x using own[of t] that True by (metis list.set_intros(2))
    then have "filter (\<lambda>x. g x = k r) (concat (map f rs)) = []" by (auto simp: filter_empty_conv)
    then show ?thesis using own[of s] True by (simp add: filter_id_conv)
  next
    case False
    then have "r \<in> set rs" "k s \<noteq> k r" using Cons.prems(1,2) by auto
    moreover have "filter (\<lambda>x. g x = k r) (f s) = []" using own[of s] \<open>k s \<noteq> k r\<close> by (auto simp: filter_empty_conv)
    ultimately show ?thesis using Cons.IH[OF _ \<open>r \<in> set rs\<close>] Cons.prems(1,3) by simp
  qed
qed simp

section \<open>Current ratings\<close>

definition column_value :: "RatingColumns \<Rightarrow> RatingValue" where
  "column_value c = \<lparr>rv_rating_milli = rc_rating_milli c, rv_deviation_milli = nat (rc_deviation_milli c),
     rv_volatility_nano = nat (rc_volatility_nano c)\<rparr>"

lemma column_value_columns [simp]: "column_value (rating_columns v) = v"
  by (simp add: column_value_def rating_columns_def)

definition current_key :: "CurrentRow \<Rightarrow> string \<times> string" where
  "current_key r = (crr_pool_key r, crr_entrant_id r)"

definition current_get :: "CurrentRow list \<Rightarrow> string \<Rightarrow> string \<Rightarrow> RatingValue option" where
  "current_get cur key e = map_option (\<lambda>r. column_value (crr_rating r)) (List.find (\<lambda>r. current_key r = (key, e)) cur)"

lemma find_current_key: "find_current db key e = List.find (\<lambda>r. current_key r = (key, e)) (rdb_current db)"
  by (simp add: find_current_def current_key_def)

lemma current_get_Some:
  "distinct (map current_key cur) \<Longrightarrow>
    current_get cur key e = Some v \<longleftrightarrow> (\<exists>r \<in> set cur. current_key r = (key, e) \<and> column_value (crr_rating r) = v)"
  using find_key[of current_key cur "(key, e)"] by (auto simp: current_get_def)

definition put_current :: "CurrentRow list \<Rightarrow> CurrentRow \<Rightarrow> CurrentRow list" where
  "put_current cur r =
     (if current_key r \<notin> set (map current_key cur) then cur @ [r]
      else map (\<lambda>old. if current_key old = current_key r \<and> crr_sequence old < crr_sequence r then r else old) cur)"

lemma put_current_rows:
  assumes "distinct (map current_key cur)" "\<forall>old \<in> set cur. current_key old = current_key r \<longrightarrow> crr_sequence old < crr_sequence r"
  shows "distinct (map current_key (put_current cur r))" "set (put_current cur r) = {x \<in> set cur. current_key x \<noteq> current_key r} \<union> {r}"
proof -
  let ?new = "map (\<lambda>old. if current_key old = current_key r \<and> crr_sequence old < crr_sequence r then r else old) cur"
  have keys: "map current_key ?new = map current_key cur" by simp
  show "distinct (map current_key (put_current cur r))"
  proof (cases "current_key r \<in> set (map current_key cur)")
    case True
    then have "put_current cur r = ?new" by (simp add: put_current_def)
    then show ?thesis using keys assms(1) by argo
  next
    case False
    then show ?thesis using assms(1) by (auto simp: put_current_def)
  qed
  show "set (put_current cur r) = {x \<in> set cur. current_key x \<noteq> current_key r} \<union> {r}"
    using assms(2) by (auto simp: put_current_def image_iff)
qed

lemma put_current_get:
  assumes "distinct (map current_key cur)" "\<forall>old \<in> set cur. current_key old = current_key r \<longrightarrow> crr_sequence old < crr_sequence r"
  shows "current_get (put_current cur r) key e
    = (if (key, e) = current_key r then Some (column_value (crr_rating r)) else current_get cur key e)"
  by (rule option_ext) (use assms in \<open>auto simp: current_get_Some put_current_rows\<close>)

text \<open>The rows written for the updates of one period.\<close>

definition put_updates :: "string \<Rightarrow> string \<Rightarrow> int \<Rightarrow> (RatingUpdateInput \<Rightarrow> RatingValue) \<Rightarrow> CurrentRow list \<Rightarrow> RatingUpdateInput list \<Rightarrow> CurrentRow list" where
  "put_updates key i s w cur us = foldl (\<lambda>cur u. put_current cur (current_row key i s (ru_entrant_id u) (w u))) cur us"

lemma current_row_simps [simp]:
  "current_key (current_row key i s e v) = (key, e)" "crr_sequence (current_row key i s e v) = s"
  "crr_rating (current_row key i s e v) = rating_columns v" "crr_pool_key (current_row key i s e v) = key"
  "crr_entrant_id (current_row key i s e v) = e" "crr_period_id (current_row key i s e v) = i"
  by (simp_all add: current_row_def current_key_def)

lemma put_updates_rows:
  assumes "distinct (map current_key cur)" "distinct (map ru_entrant_id us)"
    "\<forall>old \<in> set cur. crr_pool_key old = key \<longrightarrow> crr_sequence old < s"
  shows "distinct (map current_key (put_updates key i s w cur us))
    \<and> set (put_updates key i s w cur us) = {r \<in> set cur. current_key r \<notin> (\<lambda>u. (key, ru_entrant_id u)) ` set us}
      \<union> (\<lambda>u. current_row key i s (ru_entrant_id u) (w u)) ` set us"
  using assms(2)
proof (induction us rule: rev_induct)
  case Nil
  then show ?case using assms(1) by (simp add: put_updates_def)
next
  case (snoc u us)
  let ?cur = "put_updates key i s w cur us" and ?r = "current_row key i s (ru_entrant_id u) (w u)"
  have ih: "distinct (map current_key ?cur)"
    "set ?cur = {r \<in> set cur. current_key r \<notin> (\<lambda>u. (key, ru_entrant_id u)) ` set us} \<union> (\<lambda>u. current_row key i s (ru_entrant_id u) (w u)) ` set us"
    using snoc by simp_all
  have older: "\<forall>old \<in> set ?cur. current_key old = current_key ?r \<longrightarrow> crr_sequence old < crr_sequence ?r"
  proof (intro ballI impI)
    fix old assume old: "old \<in> set ?cur" "current_key old = current_key ?r"
    have "ru_entrant_id u \<notin> ru_entrant_id ` set us" using snoc.prems by simp
    then have "old \<in> set cur" using old unfolding ih(2) by (auto simp: image_iff)
    then show "crr_sequence old < crr_sequence ?r" using assms(3) old(2) by (simp add: current_key_def)
  qed
  have step: "put_updates key i s w cur (us @ [u]) = put_current ?cur ?r" by (simp add: put_updates_def)
  have "ru_entrant_id x \<noteq> ru_entrant_id u" if "x \<in> set us" for x using snoc.prems that by (auto simp: image_iff)
  then show ?case unfolding step using put_current_rows[OF ih(1) older] by (auto simp: ih(2))
qed

lemma put_updates_get:
  assumes "distinct (map current_key cur)" "distinct (map ru_entrant_id us)"
    "\<forall>old \<in> set cur. crr_pool_key old = key \<longrightarrow> crr_sequence old < s"
  shows "current_get (put_updates key i s w cur us) key' e = Some v \<longleftrightarrow>
    (if key' = key \<and> e \<in> ru_entrant_id ` set us then \<exists>u \<in> set us. ru_entrant_id u = e \<and> w u = v else current_get cur key' e = Some v)"
proof -
  note p = put_updates_rows[OF assms, of i w]
  have g: "current_get (put_updates key i s w cur us) key' e = Some v \<longleftrightarrow>
      (\<exists>r. (r \<in> set cur \<and> current_key r \<notin> (\<lambda>u. (key, ru_entrant_id u)) ` set us
        \<or> r \<in> (\<lambda>u. current_row key i s (ru_entrant_id u) (w u)) ` set us) \<and> current_key r = (key', e) \<and> column_value (crr_rating r) = v)"
    using current_get_Some[OF p[THEN conjunct1]] p by auto
  have i: "(key', e) \<in> (\<lambda>u. (key, ru_entrant_id u)) ` set us \<longleftrightarrow> key' = key \<and> e \<in> ru_entrant_id ` set us" by auto
  show ?thesis
  proof (cases "key' = key \<and> e \<in> ru_entrant_id ` set us")
    case True
    then show ?thesis using i g by (auto simp: image_iff)
  next
    case False
    then have "current_key r \<noteq> (key', e)" if "r \<in> (\<lambda>u. current_row key i s (ru_entrant_id u) (w u)) ` set us" for r using that by auto
    then have "(r \<in> set cur \<and> current_key r \<notin> (\<lambda>u. (key, ru_entrant_id u)) ` set us
        \<or> r \<in> (\<lambda>u. current_row key i s (ru_entrant_id u) (w u)) ` set us) \<and> current_key r = (key', e) \<and> column_value (crr_rating r) = v
      \<longleftrightarrow> r \<in> set cur \<and> current_key r = (key', e) \<and> column_value (crr_rating r) = v" for r
      using i False by metis
    then show ?thesis using g False by (simp only: current_get_Some[OF assms(1)] if_False Bex_def)
  qed
qed

section \<open>Writing the updates of a period\<close>

definition update_fresh :: "string \<Rightarrow> string \<Rightarrow> int \<Rightarrow> RatingDb \<Rightarrow> RatingUpdateInput \<Rightarrow> bool" where
  "update_fresh key i s db u \<longleftrightarrow> (i, ru_entrant_id u) \<notin> set (map (\<lambda>r. (rir_period_id r, rir_entrant_id r)) (rdb_inputs db))
     \<and> (i, ru_entrant_id u) \<notin> set (map (\<lambda>r. (rur_period_id r, rur_entrant_id r)) (rdb_updates db))
     \<and> (key, s, ru_entrant_id u) \<notin> set (map (\<lambda>r. (rur_pool_key r, rur_sequence r, rur_entrant_id r)) (rdb_updates db))"

definition write_updates :: "string \<Rightarrow> RatingPeriod \<Rightarrow> (RatingUpdateInput \<Rightarrow> RatingValue) \<Rightarrow> RatingDb \<Rightarrow> RatingUpdateInput list \<Rightarrow> RatingDb" where
  "write_updates key p w db us = db\<lparr>rdb_inputs := rdb_inputs db @ map (input_row (rpd_period_id p)) us,
     rdb_updates := rdb_updates db @ map (\<lambda>u. update_row key (rpd_period_id p) (int (rpd_sequence p)) (ru_entrant_id u) (w u)) us,
     rdb_current := put_updates key (rpd_period_id p) (int (rpd_sequence p)) w (rdb_current db) us\<rparr>"

lemma commit_update_fresh:
  assumes "btree_get m (ru_entrant_id u) = Some (w u)" "rpd_sequence p < 2 ^ 63" "rating_in_bounds (ru_previous u)" "rating_in_bounds (w u)"
    "update_fresh key (rpd_period_id p) (int (rpd_sequence p)) db u" "rpd_period_id p \<in> set (map prr_period_id (rdb_periods db))"
  shows "commit_update key p m db u = Ok (write_updates key p w db [u])"
proof -
  have "find_current db key (ru_entrant_id u) = None \<longleftrightarrow> (key, ru_entrant_id u) \<notin> current_key ` set (rdb_current db)" for db
    by (force simp: find_current_key find_None_iff image_iff)
  moreover have "crr_pool_key old = key \<and> crr_entrant_id old = e \<and> crr_sequence old < s
      \<longleftrightarrow> current_key old = (key, e) \<and> crr_sequence old < s" for old e s by (auto simp: current_key_def)
  ultimately show ?thesis using assms
    by (simp add: commit_update_def insert_input_def insert_update_def upsert_current_def input_row_def update_row_def check_columns
        i64_sequence_def update_fresh_def write_updates_def put_updates_def put_current_def)
qed

lemma write_updates_Cons: "write_updates key p w db (u # us) = write_updates key p w (write_updates key p w db [u]) us"
  by (simp add: write_updates_def put_updates_def)

lemma commit_updates_fresh:
  assumes "\<forall>u \<in> set us. btree_get m (ru_entrant_id u) = Some (w u) \<and> rating_in_bounds (ru_previous u) \<and> rating_in_bounds (w u)
      \<and> update_fresh key (rpd_period_id p) (int (rpd_sequence p)) db u"
    "rpd_sequence p < 2 ^ 63" "rpd_period_id p \<in> set (map prr_period_id (rdb_periods db))" "distinct (map ru_entrant_id us)"
  shows "try_fold (commit_update key p m) db us = Ok (write_updates key p w db us)"
  using assms
proof (induction us arbitrary: db)
  case Nil
  then show ?case by (simp add: write_updates_def put_updates_def)
next
  case (Cons u us)
  let ?db = "write_updates key p w db [u]"
  have "commit_update key p m db u = Ok ?db" using Cons.prems by (intro commit_update_fresh) simp_all
  moreover have "try_fold (commit_update key p m) ?db us = Ok (write_updates key p w ?db us)"
  proof (rule Cons.IH)
    have "update_fresh key (rpd_period_id p) (int (rpd_sequence p)) ?db x" if "x \<in> set us" for x
    proof -
      have "ru_entrant_id x \<noteq> ru_entrant_id u" using Cons.prems(4) that by (metis distinct.simps(2) image_eqI list.map(2) list.set_map)
      then show ?thesis using Cons.prems(1) that by (auto simp: update_fresh_def write_updates_def input_row_def update_row_def)
    qed
    then show "\<forall>u \<in> set us. btree_get m (ru_entrant_id u) = Some (w u) \<and> rating_in_bounds (ru_previous u) \<and> rating_in_bounds (w u)
      \<and> update_fresh key (rpd_period_id p) (int (rpd_sequence p)) ?db u" using Cons.prems(1) by simp
  qed (use Cons.prems in \<open>simp_all add: write_updates_def\<close>)
  ultimately show ?case by (simp add: write_updates_Cons[of _ _ _ _ u us])
qed

section \<open>Writing the matches of a period\<close>

lemma insert_matches:
  assumes "distinct (map rm_match_id ms)" "list_all match_input_ok ms" "i \<in> set (map prr_period_id (rdb_periods db))"
  shows "try_fold (insert_match key i) db ms
    = (if list_all (\<lambda>g. (key, rm_match_id g) \<notin> set (map (\<lambda>r. (rmr_pool_key r, rmr_match_id r)) (rdb_matches db))) ms
       then Ok (db\<lparr>rdb_matches := rdb_matches db @ map (match_row key i) ms\<rparr>) else Err RatRepConflict)"
  using assms
proof (induction ms arbitrary: db)
  case (Cons g ms)
  let ?db = "db\<lparr>rdb_matches := rdb_matches db @ [match_row key i g]\<rparr>"
  have ins: "insert_match key i db g = (if (key, rm_match_id g) \<notin> set (map (\<lambda>r. (rmr_pool_key r, rmr_match_id r)) (rdb_matches db))
      then Ok ?db else Err RatRepConflict)"
    using Cons.prems by (auto simp: insert_match_def Let_def match_row_def check_match_row_def match_input_ok_def SCORE_SCALE_def)
  have "(key, rm_match_id x) \<notin> set (map (\<lambda>r. (rmr_pool_key r, rmr_match_id r)) (rdb_matches ?db))
      \<longleftrightarrow> (key, rm_match_id x) \<notin> set (map (\<lambda>r. (rmr_pool_key r, rmr_match_id r)) (rdb_matches db))" if "x \<in> set ms" for x
  proof -
    have "rm_match_id x \<noteq> rm_match_id g" using Cons.prems(1) that by (metis distinct.simps(2) image_eqI list.map(2) list.set_map)
    then show ?thesis by (simp add: match_row_def)
  qed
  then have "list_all (\<lambda>g. (key, rm_match_id g) \<notin> set (map (\<lambda>r. (rmr_pool_key r, rmr_match_id r)) (rdb_matches ?db))) ms
      \<longleftrightarrow> list_all (\<lambda>g. (key, rm_match_id g) \<notin> set (map (\<lambda>r. (rmr_pool_key r, rmr_match_id r)) (rdb_matches db))) ms"
    by (simp add: list_all_iff)
  then show ?case using Cons.IH[of ?db] Cons.prems ins by simp
qed simp

end
