(* ===== verification/RatingCommit.thy ===== *)
theory RatingCommit
  imports RatingInv
begin

text \<open>
  The invariant of the rating tables, the exact behaviour of a commit under it, and that a commit
  keeps it.
\<close>

section \<open>The invariant\<close>

definition pool_rows :: "string \<Rightarrow> RatingDb \<Rightarrow> PeriodRow list" where
  "pool_rows key db = filter (\<lambda>r. prr_pool_key r = key) (rdb_periods db)"

definition apply_row :: "(string, RatingValue) btree_map \<Rightarrow> PeriodRow \<Rightarrow> (string, RatingValue) btree_map" where
  "apply_row m r = foldl (\<lambda>m (e, v). btree_insert e v m) m (prr_derived r)"

text \<open>The ratings of a pool, replayed from its periods.\<close>

definition replay_rows :: "PeriodRow list \<Rightarrow> (string, RatingValue) btree_map" where
  "replay_rows rows = foldl apply_row [] rows"

definition starts_from :: "(string, RatingValue) btree_map \<Rightarrow> RatingPeriod \<Rightarrow> bool" where
  "starts_from m p \<longleftrightarrow> list_all (\<lambda>u. null_or (\<lambda>v. v = ru_previous u) (btree_get m (ru_entrant_id u))) (rpd_updates p)"

fun chained :: "(string, RatingValue) btree_map \<Rightarrow> PeriodRow list \<Rightarrow> bool" where
  "chained m [] = True"
| "chained m (r # rs) = (starts_from m (prr_period r) \<and> chained (apply_row m r) rs)"

definition period_matches :: "PeriodRow \<Rightarrow> MatchInputRow list" where
  "period_matches r = map (match_row (prr_pool_key r) (prr_period_id r)) (rpd_matches (prr_period r))"

definition period_inputs :: "PeriodRow \<Rightarrow> PeriodInputRow list" where
  "period_inputs r = map (input_row (prr_period_id r)) (rpd_updates (prr_period r))"

definition period_updates :: "PeriodRow \<Rightarrow> RatingUpdateRow list" where
  "period_updates r = map (\<lambda>u. update_row (prr_pool_key r) (prr_period_id r) (prr_sequence r) (ru_entrant_id u)
     (derived_rating (prr_derived r) u)) (rpd_updates (prr_period r))"

definition committed :: "env \<Rightarrow> 'f f64 \<Rightarrow> pool_json \<Rightarrow> PeriodRow \<Rightarrow> bool" where
  "committed E F json r \<longleftrightarrow> (\<exists>key p d now. r = period_row key p d now \<and> derive_period F p = Ok d
     \<and> pool_key E json (rpd_pool p) = Ok key \<and> 0 \<le> now \<and> rpd_sequence p < 2 ^ 63)"

definition current_ok :: "RatingDb \<Rightarrow> bool" where
  "current_ok db \<longleftrightarrow> distinct (map current_key (rdb_current db))
     \<and> (\<forall>key e. current_get (rdb_current db) key e = btree_get (replay_rows (pool_rows key db)) e)
     \<and> (\<forall>r \<in> set (rdb_current db). crr_sequence r < int (length (pool_rows (crr_pool_key r) db))
          \<and> (\<exists>v. crr_rating r = rating_columns v \<and> rating_in_bounds v))"

definition rating_inv :: "env \<Rightarrow> 'f f64 \<Rightarrow> pool_json \<Rightarrow> RatingDb \<Rightarrow> bool" where
  "rating_inv E F json db \<longleftrightarrow> distinct (map prr_period_id (rdb_periods db)) \<and> list_all (committed E F json) (rdb_periods db)
     \<and> (\<forall>key. map prr_sequence (pool_rows key db) = map int [0..<length (pool_rows key db)] \<and> chained [] (pool_rows key db))
     \<and> rdb_matches db = concat (map period_matches (rdb_periods db))
     \<and> rdb_inputs db = concat (map period_inputs (rdb_periods db))
     \<and> rdb_updates db = concat (map period_updates (rdb_periods db))
     \<and> current_ok db"

lemma period_row_simps [simp]:
  "prr_period_id (period_row key p d now) = rpd_period_id p" "prr_pool_key (period_row key p d now) = key"
  "prr_sequence (period_row key p d now) = int (rpd_sequence p)" "prr_period (period_row key p d now) = p"
  "prr_derived (period_row key p d now) = d" "prr_pool (period_row key p d now) = rpd_pool p"
  "prr_committed_at_ms (period_row key p d now) = now" "prr_schema_version (period_row key p d now) = int (rpd_schema_version p)"
  by (simp_all add: period_row_def)

lemma replay_ok:
  assumes "\<forall>r \<in> set rows. distinct (map fst (prr_derived r))"
  shows "btree_ok (replay_rows rows)"
  using assms
proof (induction rows rule: rev_induct)
  case (snoc r rows)
  then show ?case using get_inserts[of "replay_rows rows" "prr_derived r"] by (simp add: replay_rows_def apply_row_def)
qed (simp add: replay_rows_def btree_ok_def btree_keys_def)

lemma committed_derived: "committed E F json r \<Longrightarrow> distinct (map fst (prr_derived r))"
  using derive_period_Ok(4) by (auto simp: committed_def)

lemma pool_replay_ok: "rating_inv E F json db \<Longrightarrow> btree_ok (replay_rows (pool_rows key db))"
  by (rule replay_ok) (auto simp: rating_inv_def list_all_iff pool_rows_def dest: committed_derived)

lemma chained_append: "chained m (rs @ [r]) \<longleftrightarrow> chained m rs \<and> starts_from (foldl apply_row m rs) (prr_period r)"
  by (induction rs arbitrary: m) auto

section \<open>The checks of a commit\<close>

lemma max_sequence_next:
  assumes "map prr_sequence (pool_rows key db) = map int [0..<length (pool_rows key db)]"
  shows "max_sequence key (rdb_periods db) = (if pool_rows key db = [] then None else Some (int (length (pool_rows key db)) - 1))"
proof (cases "pool_rows key db")
  case Nil
  then show ?thesis by (simp add: max_sequence_def pool_rows_def)
next
  case (Cons r rs)
  have seq: "prr_sequence r # map prr_sequence rs = map int [0..<Suc (length rs)]" using assms by (simp add: Cons)
  have "sorted (prr_sequence r # map prr_sequence rs)" unfolding seq by (simp add: sorted_map del: upt_Suc)
  then have "foldl max (prr_sequence r) (map prr_sequence rs) = last (map int [0..<Suc (length rs)])"
    using foldl_max_sorted seq by metis
  then have "foldl max (prr_sequence r) (map prr_sequence rs) = int (length rs)" by simp
  then show ?thesis using Cons by (simp add: max_sequence_def pool_rows_def)
qed

lemma validate_previous_verdict:
  assumes "current_ok db"
  shows "validate_previous db key p = (if starts_from (replay_rows (pool_rows key db)) p then Ok () else Err RatRepConflict)"
  unfolding validate_previous_def starts_from_def
proof (rule try_fold_verdict)
  fix u
  note c = assms[unfolded current_ok_def]
  have get: "btree_get (replay_rows (pool_rows key db)) (ru_entrant_id u)
      = map_option (\<lambda>r. column_value (crr_rating r)) (find_current db key (ru_entrant_id u))"
    using c by (simp add: find_current_key current_get_def)
  show "(case find_current db key (ru_entrant_id u) of None \<Rightarrow> Ok ()
       | Some row \<Rightarrow> rbind (rating_row (crr_rating row)) (\<lambda>current. if current \<noteq> ru_previous u then Err RatRepConflict else Ok ()))
     = (if null_or (\<lambda>v. v = ru_previous u) (btree_get (replay_rows (pool_rows key db)) (ru_entrant_id u)) then Ok () else Err RatRepConflict)"
  proof (cases "find_current db key (ru_entrant_id u)")
    case None
    then show ?thesis by (simp add: get null_or_def)
  next
    case (Some row)
    then have "row \<in> set (rdb_current db)" by (auto simp: find_current_def find_Some_iff in_set_conv_nth)
    then obtain v where "crr_rating row = rating_columns v" "rating_in_bounds v" using c by blast
    then show ?thesis by (simp add: Some get null_or_def rating_row_columns)
  qed
qed

text \<open>When a period is accepted, and what is written.\<close>

definition acceptable :: "string \<Rightarrow> RatingPeriod \<Rightarrow> RatingDb \<Rightarrow> bool" where
  "acceptable key p db \<longleftrightarrow> rpd_period_id p \<notin> set (map prr_period_id (rdb_periods db))
     \<and> rpd_sequence p = length (pool_rows key db) \<and> starts_from (replay_rows (pool_rows key db)) p
     \<and> list_all (\<lambda>g. (key, rm_match_id g) \<notin> set (map (\<lambda>r. (rmr_pool_key r, rmr_match_id r)) (rdb_matches db))) (rpd_matches p)"

definition commit_db :: "string \<Rightarrow> RatingPeriod \<Rightarrow> (string \<times> RatingValue) list \<Rightarrow> millis \<Rightarrow> RatingDb \<Rightarrow> RatingDb" where
  "commit_db key p d now db = write_updates key p (derived_rating d)
     (db\<lparr>rdb_periods := rdb_periods db @ [period_row key p d now],
         rdb_matches := rdb_matches db @ map (match_row key (rpd_period_id p)) (rpd_matches p)\<rparr>) (rpd_updates p)"

lemma period_rows_ids:
  "x \<in> set (period_inputs r) \<Longrightarrow> rir_period_id x = prr_period_id r"
  "y \<in> set (period_matches r) \<Longrightarrow> rmr_period_id y = prr_period_id r"
  "z \<in> set (period_updates r) \<Longrightarrow> rur_period_id z = prr_period_id r \<and> rur_pool_key z = prr_pool_key r \<and> rur_sequence z = prr_sequence r"
  by (auto simp: period_inputs_def period_matches_def period_updates_def input_row_def match_row_def update_row_def)

lemma pool_sequences:
  assumes "rating_inv E F json db" "r \<in> set (rdb_periods db)"
  shows "0 \<le> prr_sequence r \<and> prr_sequence r < int (length (pool_rows (prr_pool_key r) db))"
proof -
  let ?rows = "pool_rows (prr_pool_key r) db"
  have "r \<in> set ?rows" using assms(2) by (simp add: pool_rows_def)
  then have "prr_sequence r \<in> set (map prr_sequence ?rows)" by simp
  moreover have "map prr_sequence ?rows = map int [0..<length ?rows]" using assms(1) by (simp add: rating_inv_def)
  ultimately have "prr_sequence r \<in> set (map int [0..<length ?rows])" by metis
  then show ?thesis by auto
qed

lemma pool_sequence_taken:
  assumes "rating_inv E F json db" "n < length (pool_rows key db)"
  shows "(key, int n) \<in> set (map (\<lambda>r. (prr_pool_key r, prr_sequence r)) (rdb_periods db))"
proof -
  have "map prr_sequence (pool_rows key db) = map int [0..<length (pool_rows key db)]" using assms(1) by (simp add: rating_inv_def)
  then have "prr_sequence (pool_rows key db ! n) = int n" using assms(2) by (metis add_0 length_upt minus_nat.diff_0 nth_map nth_upt)
  moreover have "pool_rows key db ! n \<in> set (pool_rows key db)" using assms(2) by simp
  ultimately show ?thesis by (force simp: pool_rows_def)
qed

lemma update_is_fresh:
  assumes "rating_inv E F json db" "acceptable key p db"
  shows "update_fresh key (rpd_period_id p) (int (rpd_sequence p))
    (db\<lparr>rdb_periods := ps, rdb_matches := ms\<rparr>) u"
proof -
  have i: "rdb_inputs db = concat (map period_inputs (rdb_periods db))" "rdb_updates db = concat (map period_updates (rdb_periods db))"
    using assms(1) by (simp_all add: rating_inv_def)
  have "(rpd_period_id p, e) \<notin> (\<lambda>r. (rir_period_id r, rir_entrant_id r)) ` set (rdb_inputs db)" for e
    using assms(2) period_rows_ids(1) by (auto simp: i acceptable_def)
  moreover have "(rpd_period_id p, e) \<notin> (\<lambda>r. (rur_period_id r, rur_entrant_id r)) ` set (rdb_updates db)" for e
    using assms(2) period_rows_ids(3) by (auto simp: i acceptable_def)
  moreover have "(key, int (rpd_sequence p), e) \<notin> (\<lambda>r. (rur_pool_key r, rur_sequence r, rur_entrant_id r)) ` set (rdb_updates db)" for e
  proof
    assume "(key, int (rpd_sequence p), e) \<in> (\<lambda>r. (rur_pool_key r, rur_sequence r, rur_entrant_id r)) ` set (rdb_updates db)"
    then obtain r where r: "r \<in> set (rdb_periods db)" "prr_pool_key r = key" "prr_sequence r = int (rpd_sequence p)"
      using period_rows_ids(3) by (auto simp: i)
    show False using pool_sequences[OF assms(1) r(1)] r assms(2) by (simp add: acceptable_def)
  qed
  ultimately show ?thesis by (simp add: update_fresh_def)
qed

lemma commit_insert_exact:
  assumes "rating_inv E F json db" "f64_ok F" "derive_period F p = Ok d" "0 \<le> now" "rpd_sequence p < 2 ^ 63"
  shows "commit_insert key p d now db = (if acceptable key p db
    then (commit_db key p d now db, Ok (RatApplied \<lparr>sr_period = p, sr_derived = d, sr_committed_at = now\<rparr>)) else (db, Err RatRepConflict))"
proof -
  let ?n = "length (pool_rows key db)"
  let ?db1 = "db\<lparr>rdb_periods := rdb_periods db @ [period_row key p d now]\<rparr>"
  let ?db2 = "?db1\<lparr>rdb_matches := rdb_matches db @ map (match_row key (rpd_period_id p)) (rpd_matches p)\<rparr>"
  note v = validate_period_Ok[OF derive_period_Ok(1)[OF assms(3)]]
  have seqs: "map prr_sequence (pool_rows key db) = map int [0..<?n]" and cur: "current_ok db" using assms(1) by (simp_all add: rating_inv_def)
  have seq: "validate_sequence db key (rpd_sequence p)
      = (if int (rpd_sequence p) = (if ?n = 0 then 0 else min (2 ^ 63 - 1) (int ?n)) then Ok () else Err RatRepConflict)"
    using max_sequence_next[OF seqs] assms(5) by (auto simp: validate_sequence_def i64_sequence_def)
  have row: "check_period_row (period_row key p d now)" using v(1) assms(4) by (simp add: check_period_row_def RATING_SCHEMA_VERSION_def)
  have ms: "try_fold (insert_match key (rpd_period_id p)) ?db1 (rpd_matches p)
      = (if list_all (\<lambda>g. (key, rm_match_id g) \<notin> set (map (\<lambda>r. (rmr_pool_key r, rmr_match_id r)) (rdb_matches db))) (rpd_matches p)
         then Ok ?db2 else Err RatRepConflict)"
    by (subst insert_matches[OF v(4,5)]) simp_all
  show ?thesis
  proof (cases "acceptable key p db")
    case True
    then have a: "rpd_period_id p \<notin> set (map prr_period_id (rdb_periods db))" "rpd_sequence p = ?n"
      "starts_from (replay_rows (pool_rows key db)) p"
      "list_all (\<lambda>g. (key, rm_match_id g) \<notin> set (map (\<lambda>r. (rmr_pool_key r, rmr_match_id r)) (rdb_matches db))) (rpd_matches p)"
      by (simp_all add: acceptable_def)
    have "(key, int ?n) \<notin> set (map (\<lambda>r. (prr_pool_key r, prr_sequence r)) (rdb_periods db))"
      using pool_sequences[OF assms(1)] by fastforce
    then have "insert_period db (period_row key p d now) = Ok ?db1" using row a(1,2) by (simp add: insert_period_def)
    moreover have "insert_updates key p d ?db2 = Ok (write_updates key p (derived_rating d) ?db2 (rpd_updates p))"
      unfolding insert_updates_def
    proof (rule commit_updates_fresh)
      have "btree_ok ([] :: (string, RatingValue) btree_map)" by (simp add: btree_ok_def btree_keys_def)
      then have "btree_get (foldl (\<lambda>m (e, v). btree_insert e v m) [] d) e = map_of d e" for e
        using get_inserts[OF _ derive_period_Ok(4)[OF assms(3)], of "[]" e] by (simp split: option.splits)
      then show "\<forall>u \<in> set (rpd_updates p). btree_get (foldl (\<lambda>m (e, v). btree_insert e v m) [] d) (ru_entrant_id u) = Some (derived_rating d u)
          \<and> rating_in_bounds (ru_previous u) \<and> rating_in_bounds (derived_rating d u)
          \<and> update_fresh key (rpd_period_id p) (int (rpd_sequence p)) ?db2 u"
        using derive_period_Ok(6)[OF assms(3)] derived_in_bounds[OF assms(2,3)] update_is_fresh[OF assms(1) True] by simp
    qed (use assms(5) v(6) in simp_all)
    moreover have "validate_sequence db key (rpd_sequence p) = Ok ()" using seq a(2) assms(5) by (simp add: min_def)
    ultimately show ?thesis using True a ms assms(5) validate_previous_verdict[OF cur]
      by (simp add: commit_insert_def transaction_def i64_sequence_def commit_db_def)
  next
    case False
    have taken: "insert_period db (period_row key p d now) = Err RatRepConflict" if "rpd_sequence p < ?n"
      using pool_sequence_taken[OF assms(1) that] by (auto simp: insert_period_def)
    have "rpd_sequence p < ?n" if "validate_sequence db key (rpd_sequence p) = Ok ()" "rpd_sequence p \<noteq> ?n"
      using that seq by (auto simp: min_def split: if_splits)
    moreover have "insert_period db (period_row key p d now) = Ok ?db1 \<or> insert_period db (period_row key p d now) = Err RatRepConflict"
      by (simp add: insert_period_def)
    moreover have "insert_period db (period_row key p d now) = Err RatRepConflict" if "rpd_period_id p \<in> set (map prr_period_id (rdb_periods db))"
      using that by (auto simp: insert_period_def)
    ultimately show ?thesis using False taken ms seq assms(5) validate_previous_verdict[OF cur, of key p]
      by (auto simp: commit_insert_def transaction_def i64_sequence_def acceptable_def split: if_splits)
  qed
qed

section \<open>Preservation\<close>

lemma commit_db_simps [simp]:
  "rdb_periods (commit_db key p d now db) = rdb_periods db @ [period_row key p d now]"
  "rdb_matches (commit_db key p d now db) = rdb_matches db @ period_matches (period_row key p d now)"
  "rdb_inputs (commit_db key p d now db) = rdb_inputs db @ period_inputs (period_row key p d now)"
  "rdb_updates (commit_db key p d now db) = rdb_updates db @ period_updates (period_row key p d now)"
  "rdb_current (commit_db key p d now db)
    = put_updates key (rpd_period_id p) (int (rpd_sequence p)) (derived_rating d) (rdb_current db) (rpd_updates p)"
  by (simp_all add: commit_db_def write_updates_def period_matches_def period_inputs_def period_updates_def)

lemma pool_rows_commit: "pool_rows key' (commit_db key p d now db) = pool_rows key' db @ (if key' = key then [period_row key p d now] else [])"
  by (simp add: pool_rows_def)

lemma replay_snoc: "replay_rows (rows @ [r]) = apply_row (replay_rows rows) r"
  by (simp add: replay_rows_def)

lemma commit_current:
  assumes "rating_inv E F json db" "f64_ok F" "derive_period F p = Ok d" "acceptable key p db"
  shows "current_ok (commit_db key p d now db)"
proof -
  let ?us = "rpd_updates p" and ?db = "commit_db key p d now db"
  note d = derive_period_Ok[OF assms(3)]
  have c: "current_ok db" using assms(1) by (simp add: rating_inv_def)
  have older: "\<forall>old \<in> set (rdb_current db). crr_pool_key old = key \<longrightarrow> crr_sequence old < int (rpd_sequence p)"
    using c assms(4) by (auto simp: current_ok_def acceptable_def)
  have dist: "distinct (map current_key (rdb_current db))" using c by (simp add: current_ok_def)
  note put = put_updates_rows[OF dist validate_period_Ok(6)[OF d(1)] older, of "rpd_period_id p" "derived_rating d"]
  note get = put_updates_get[OF dist validate_period_Ok(6)[OF d(1)] older, of "rpd_period_id p" "derived_rating d"]
  have "current_get (rdb_current ?db) key' e = btree_get (replay_rows (pool_rows key' ?db)) e" for key' e
  proof (rule option_ext)
    fix v
    have old: "current_get (rdb_current db) key' e = btree_get (replay_rows (pool_rows key' db)) e" using c by (simp add: current_ok_def)
    have new: "btree_get (apply_row (replay_rows (pool_rows key db)) (period_row key p d now)) e
        = (case map_of d e of None \<Rightarrow> btree_get (replay_rows (pool_rows key db)) e | Some v \<Rightarrow> Some v)"
      using get_inserts[OF pool_replay_ok[OF assms(1)] d(4)] by (simp add: apply_row_def)
    have mem: "map_of d e = None \<longleftrightarrow> e \<notin> ru_entrant_id ` set ?us" using d(5) by (simp add: map_of_eq_None_iff)
    have val: "map_of d e = Some v \<longleftrightarrow> (\<exists>u \<in> set ?us. ru_entrant_id u = e \<and> derived_rating d u = v)" if "e \<in> ru_entrant_id ` set ?us"
      using that d(6) by auto
    show "current_get (rdb_current ?db) key' e = Some v \<longleftrightarrow> btree_get (replay_rows (pool_rows key' ?db)) e = Some v"
    proof (cases "key' = key \<and> e \<in> ru_entrant_id ` set ?us")
      case True
      then have "map_of d e \<noteq> None" using mem by blast
      then show ?thesis using True val get[of key' e v] new by (auto simp: pool_rows_commit replay_snoc)
    next
      case False
      then show ?thesis using get[of key' e v] old new mem by (cases "key' = key") (simp_all add: pool_rows_commit replay_snoc)
    qed
  qed
  moreover have "crr_sequence r < int (length (pool_rows (crr_pool_key r) ?db)) \<and> (\<exists>v. crr_rating r = rating_columns v \<and> rating_in_bounds v)"
    if r: "r \<in> set (rdb_current ?db)" for r
  proof (cases "r \<in> set (rdb_current db)")
    case True
    then show ?thesis using c by (auto simp: current_ok_def pool_rows_commit)
  next
    case False
    then obtain u where u: "u \<in> set ?us" "r = current_row key (rpd_period_id p) (int (rpd_sequence p)) (ru_entrant_id u) (derived_rating d u)"
      using r put by auto
    then show ?thesis using derived_in_bounds(2)[OF assms(2,3) u(1)] assms(4) by (auto simp: pool_rows_commit acceptable_def)
  qed
  ultimately show ?thesis using put unfolding current_ok_def by (simp only: commit_db_simps) blast
qed

lemma commit_keeps_inv:
  assumes "rating_inv E F json db" "f64_ok F" "derive_period F p = Ok d" "pool_key E json (rpd_pool p) = Ok key" "0 \<le> now"
    "rpd_sequence p < 2 ^ 63" "acceptable key p db"
  shows "rating_inv E F json (commit_db key p d now db)"
proof -
  have "committed E F json (period_row key p d now)" using assms(3-6) by (auto simp: committed_def)
  moreover have "map prr_sequence (pool_rows key' (commit_db key p d now db)) = map int [0..<length (pool_rows key' (commit_db key p d now db))]
      \<and> chained [] (pool_rows key' (commit_db key p d now db))" for key'
    using assms(1,7) by (auto simp: pool_rows_commit rating_inv_def chained_append acceptable_def replay_rows_def)
  ultimately show ?thesis
    using assms(1,7) commit_current[OF assms(1-3,7)] unfolding rating_inv_def by (simp add: acceptable_def)
qed

lemma empty_rating_inv: "rating_inv E F json empty_rating_db"
  by (simp add: rating_inv_def empty_rating_db_def pool_rows_def current_ok_def current_get_def replay_rows_def)

text \<open>A step either commits an acceptable period or changes nothing.\<close>

lemma rating_step_cases:
  assumes "rating_step E F json db db'" "rating_inv E F json db" "f64_ok F"
  shows "db' = db \<or> (\<exists>key p d now. db' = commit_db key p d now db \<and> acceptable key p db \<and> derive_period F p = Ok d
    \<and> pool_key E json (rpd_pool p) = Ok key \<and> 0 \<le> now \<and> rpd_sequence p < 2 ^ 63)"
  using assms(1)
proof cases
  case (step_commit period derived key now)
  show ?thesis
  proof (cases "rpd_sequence period < 2 ^ 63")
    case True
    then show ?thesis using commit_insert_exact[OF assms(2,3) step_commit(2,4) True, of key] step_commit by (auto split: if_splits)
  next
    case False
    then have "commit_insert key period derived now db = (db, Err RatRepCorrupt)"
      by (simp add: commit_insert_def transaction_def validate_sequence_def i64_sequence_def Let_def)
    then show ?thesis using step_commit(1) by simp
  qed
qed

lemma rating_step_inv: "rating_step E F json db db' \<Longrightarrow> rating_inv E F json db \<Longrightarrow> f64_ok F \<Longrightarrow> rating_inv E F json db'"
  using rating_step_cases[of E F json db db'] commit_keeps_inv[of E F json db] by blast

lemma rating_steps_inv:
  "(rating_step E F json)\<^sup>*\<^sup>* db db' \<Longrightarrow> rating_inv E F json db \<Longrightarrow> f64_ok F \<Longrightarrow> rating_inv E F json db'"
  by (induction rule: rtranclp_induct) (auto intro: rating_step_inv)

lemma rating_reachable_inv: "rating_reachable E F json db \<Longrightarrow> f64_ok F \<Longrightarrow> rating_inv E F json db"
  unfolding rating_reachable_def by (rule rating_steps_inv[OF _ empty_rating_inv])

lemma rating_steps_grow:
  assumes "(rating_step E F json)\<^sup>*\<^sup>* db db'" "rating_inv E F json db" "f64_ok F"
  shows "\<exists>more. rdb_periods db' = rdb_periods db @ more"
  using assms
proof (induction rule: rtranclp_induct)
  case (step y z)
  have "z = y \<or> (\<exists>key p d now. z = commit_db key p d now y)"
    using rating_step_cases[OF step.hyps(2) rating_steps_inv[OF step.hyps(1) step.prems] step.prems(2)] by blast
  then have "\<exists>more. rdb_periods z = rdb_periods y @ more" by (elim disjE exE) simp_all
  then show ?case using step.IH[OF step.prems] by (metis append_assoc)
qed simp

end
