(* ===== verification/Binary64.thy ===== *)
theory Binary64
  imports RatingFacts Complex_Main
begin

text \<open>
  IEEE 754 binary64 arithmetic, the instance of the record \<open>f64\<close> that \<^verbatim>\<open>rating.rs\<close> computes with. A
  number is finite, the negative zero, an infinity or not a number; every operation is the operation on
  the reals followed by one rounding to the nearest multiple of the unit in the last place, ties to even,
  with 53 bits of precision, subnormal numbers and overflow to infinity. (\<^verbatim>\<open>exp\<close> and \<^verbatim>\<open>ln\<close>, whose precision
  Rust leaves open, are rounded correctly here; \<^verbatim>\<open>powi\<close> multiplies repeatedly.) \<open>ieee_f64_ok\<close> proves the
  hypothesis of the rating theorems, \<open>f64_ok\<close>, of this arithmetic.
\<close>

section \<open>Rounding\<close>

definition half_even :: "real \<Rightarrow> int" where
  "half_even q = (let f = \<lfloor>q\<rfloor>; d = q - of_int f in if d < 1 / 2 \<or> d = 1 / 2 \<and> even f then f else f + 1)"

definition ulp_exponent :: "real \<Rightarrow> int" where
  "ulp_exponent y = max (\<lfloor>log 2 y\<rfloor> - 52) (- 1074)"

definition ulp :: "real \<Rightarrow> real" where
  "ulp y = 2 powr real_of_int (ulp_exponent y)"

definition nearest_positive :: "real \<Rightarrow> real" where
  "nearest_positive y = of_int (half_even (y / ulp y)) * ulp y"

definition nearest :: "real \<Rightarrow> real" where
  "nearest y = (if y < 0 then - nearest_positive (- y) else nearest_positive y)"

lemma half_even_int [simp]: "half_even (of_int n) = n"
  by (simp add: half_even_def)

lemma half_even_numerals [simp]: "half_even 0 = 0" "half_even (numeral k) = numeral k"
  using half_even_int[of 0] half_even_int[of "numeral k"] by simp_all

lemma half_even_near: "\<bar>of_int (half_even q) - q\<bar> \<le> 1 / 2"
  unfolding half_even_def Let_def by (auto split: if_splits)

lemma half_even_mono: "p \<le> q \<Longrightarrow> half_even p \<le> half_even q"
proof -
  assume pq: "p \<le> q"
  then have f: "\<lfloor>p\<rfloor> \<le> \<lfloor>q\<rfloor>" by (rule floor_mono)
  show ?thesis
  proof (cases "\<lfloor>p\<rfloor> = \<lfloor>q\<rfloor>")
    case True
    then show ?thesis using pq by (auto simp: half_even_def Let_def)
  next
    case False
    then have "\<lfloor>p\<rfloor> + 1 \<le> \<lfloor>q\<rfloor>" using f by simp
    then show ?thesis by (auto simp: half_even_def Let_def)
  qed
qed

lemma half_even_between: "of_int a \<le> q \<Longrightarrow> q \<le> of_int b \<Longrightarrow> a \<le> half_even q \<and> half_even q \<le> b"
  using half_even_mono[of "of_int a" q] half_even_mono[of q "of_int b"] by simp

lemma ulp_pos [simp]: "0 < ulp y"
  by (simp add: ulp_def)

text \<open>The significand of a number has at most 53 bits, and 53 unless the number is subnormal.\<close>

lemma significand:
  assumes "0 < y"
  shows "y / ulp y < 2 ^ 53" "- 1074 < ulp_exponent y \<Longrightarrow> 2 ^ 52 \<le> y / ulp y"
proof -
  let ?k = "\<lfloor>log 2 y\<rfloor>"
  have k: "2 powr of_int ?k \<le> y" "y < 2 powr of_int (?k + 1)"
    using floor_log_eq_powr_iff[of y 2 ?k] assms by auto
  have "(2::real) powr of_int (?k + 1) \<le> 2 powr (of_int (ulp_exponent y) + 53)"
    by (rule powr_mono) (auto simp: ulp_exponent_def)
  then have "y < ulp y * 2 ^ 53" using k(2) by (simp add: ulp_def powr_add powr_numeral)
  then show "y / ulp y < 2 ^ 53" by (simp add: field_simps)
  show "2 ^ 52 \<le> y / ulp y" if "- 1074 < ulp_exponent y"
  proof -
    have "?k = ulp_exponent y + 52" using that by (auto simp: ulp_exponent_def)
    then have "ulp y * 2 ^ 52 \<le> y" using k(1) by (simp add: ulp_def powr_add powr_numeral)
    then show ?thesis by (simp add: field_simps)
  qed
qed

lemma ulp_exponent_mono: "0 < x \<Longrightarrow> x \<le> y \<Longrightarrow> ulp_exponent x \<le> ulp_exponent y"
  unfolding ulp_exponent_def by (intro max.mono diff_mono floor_mono) auto

lemma nearest_positive_mono:
  assumes "0 < x" "x \<le> y"
  shows "nearest_positive x \<le> nearest_positive y"
proof (cases "ulp_exponent x = ulp_exponent y")
  case True
  then have u: "ulp x = ulp y" by (simp add: ulp_def)
  have "half_even (x / ulp y) \<le> half_even (y / ulp y)" by (rule half_even_mono) (use assms ulp_pos[of y] in \<open>simp add: divide_right_mono less_imp_le\<close>)
  then show ?thesis by (simp add: nearest_positive_def u)
next
  case False
  then have e: "ulp_exponent x + 1 \<le> ulp_exponent y" using ulp_exponent_mono[OF assms] by simp
  have "half_even (x / ulp x) \<le> 2 ^ 53" using half_even_mono[of "x / ulp x" "of_int (2 ^ 53)"] significand(1)[OF assms(1)] by simp
  then have "of_int (half_even (x / ulp x)) \<le> (2 ^ 53 :: real)" by simp
  then have "nearest_positive x \<le> 2 ^ 53 * ulp x"
    unfolding nearest_positive_def by (rule mult_right_mono) (simp add: less_imp_le)
  also have "\<dots> = 2 ^ 52 * 2 powr (of_int (ulp_exponent x) + 1)" by (simp add: ulp_def powr_add)
  also have "\<dots> \<le> 2 ^ 52 * ulp y" unfolding ulp_def using e by (intro mult_left_mono powr_mono) auto
  also have "\<dots> \<le> nearest_positive y"
  proof -
    have "- 1074 < ulp_exponent y" using e by (simp add: ulp_exponent_def)
    then have "2 ^ 52 \<le> half_even (y / ulp y)"
      using half_even_mono[of "of_int (2 ^ 52)" "y / ulp y"] significand(2)[of y] assms by simp
    then have "(2 ^ 52 :: real) \<le> of_int (half_even (y / ulp y))" by simp
    then show ?thesis unfolding nearest_positive_def by (rule mult_right_mono) (simp add: less_imp_le)
  qed
  finally show ?thesis .
qed

lemma nearest_positive_zero [simp]: "nearest_positive 0 = 0"
  by (simp add: nearest_positive_def)

lemma nearest_zero [simp]: "nearest 0 = 0"
  by (simp add: nearest_def)

lemma nearest_minus: "nearest (- y) = - nearest y"
  by (auto simp: nearest_def nearest_positive_def)

lemma nearest_positive_nonneg: "0 < y \<Longrightarrow> 0 \<le> nearest_positive y"
  using half_even_mono[of 0 "y / ulp y"] ulp_pos[of y] by (simp add: nearest_positive_def less_imp_le)

lemma nearest_mono: "x \<le> y \<Longrightarrow> nearest x \<le> nearest y"
proof -
  assume xy: "x \<le> y"
  consider "0 < x" | "y < 0" | "x \<le> 0" "0 \<le> y" by linarith
  then show ?thesis
  proof cases
    case 1 then show ?thesis using nearest_positive_mono[OF 1 xy] xy by (simp add: nearest_def)
  next
    case 2 then show ?thesis using nearest_positive_mono[of "- y" "- x"] xy by (simp add: nearest_def)
  next
    case 3
    have "nearest x \<le> 0" using 3(1) nearest_positive_nonneg[of "- x"] by (cases "x = 0") (auto simp: nearest_def)
    moreover have "0 \<le> nearest y" using 3(2) nearest_positive_nonneg[of y] by (cases "y = 0") (auto simp: nearest_def)
    ultimately show ?thesis by simp
  qed
qed

text \<open>Integers of 53 bits are exact, and the relative error of a normal number is at most 2 to the -53.\<close>

lemma nearest_nat: "n < 2 ^ 53 \<Longrightarrow> nearest (real n) = real n"
proof (cases "n = 0")
  case False
  assume n: "n < 2 ^ 53"
  let ?k = "\<lfloor>log 2 (real n)\<rfloor>"
  have "0 \<le> ?k" using False by simp
  moreover have "real n < 2 powr 53" using n by (simp add: powr_numeral)
  then have "?k < 53" using False by (simp add: floor_less_iff log_less_iff)
  ultimately have e: "ulp_exponent (real n) = - int (nat (52 - ?k))" by (simp add: ulp_exponent_def)
  let ?j = "nat (52 - ?k)"
  have u: "ulp (real n) = 1 / 2 ^ ?j" unfolding ulp_def e
    by (simp only: of_int_minus of_int_of_nat_eq powr_minus powr_realpow zero_less_numeral inverse_eq_divide)
  have "real n / ulp (real n) = of_int (int n * 2 ^ ?j)" by (simp add: u)
  then have "half_even (real n / ulp (real n)) = int n * 2 ^ ?j" by (simp only: half_even_int)
  then show ?thesis by (simp add: nearest_def nearest_positive_def u)
qed simp

lemma nearest_int: "\<bar>n\<bar> < 2 ^ 53 \<Longrightarrow> nearest (of_int n) = of_int n"
  using nearest_nat[of "nat \<bar>n\<bar>"] nearest_minus[of "of_int \<bar>n\<bar>"] by (cases "n < 0") (auto simp: nat_less_iff)

lemma nearest_error:
  assumes "2 powr (- 1022) \<le> \<bar>y\<bar>"
  shows "\<bar>nearest y - y\<bar> \<le> \<bar>y\<bar> / 2 ^ 53"
proof -
  have pos: "\<bar>nearest_positive z - z\<bar> \<le> z / 2 ^ 53" if z: "2 powr (- 1022) \<le> z" for z
  proof -
    have "0 < z" using z by (rule less_le_trans[rotated]) simp
    have "- 1022 \<le> log 2 z" using z \<open>0 < z\<close> by (simp add: le_log_iff)
    then have "- 1022 \<le> \<lfloor>log 2 z\<rfloor>" by linarith
    then have e: "ulp_exponent z = \<lfloor>log 2 z\<rfloor> - 52" unfolding ulp_exponent_def by linarith
    have "2 powr of_int \<lfloor>log 2 z\<rfloor> \<le> z" using floor_log_eq_powr_iff[of z 2 "\<lfloor>log 2 z\<rfloor>"] \<open>0 < z\<close> by auto
    then have u: "ulp z \<le> z / 2 ^ 52" by (simp add: ulp_def e powr_diff powr_numeral field_simps)
    have "nearest_positive z - z = (of_int (half_even (z / ulp z)) - z / ulp z) * ulp z"
      using less_imp_neq[OF ulp_pos[of z]] by (simp add: nearest_positive_def left_diff_distrib)
    then have "\<bar>nearest_positive z - z\<bar> \<le> 1 / 2 * ulp z"
      using half_even_near[of "z / ulp z"] ulp_pos[of z] by (simp only: abs_mult) (intro mult_mono; simp add: less_imp_le)
    then show ?thesis using u by simp
  qed
  show ?thesis using pos[of "\<bar>y\<bar>"] assms by (cases "y < 0") (auto simp: nearest_def abs_minus_commute)
qed

section \<open>The numbers and their operations\<close>

datatype binary64 = Finite real | MinusZero | Infinite bool | NotANumber

text \<open>\<open>Infinite True\<close> is the negative infinity.\<close>

fun b_value :: "binary64 \<Rightarrow> real" where
  "b_value (Finite x) = x"
| "b_value _ = 0"

fun b_negative :: "binary64 \<Rightarrow> bool" where
  "b_negative (Finite x) \<longleftrightarrow> x < 0"
| "b_negative MinusZero \<longleftrightarrow> True"
| "b_negative (Infinite s) \<longleftrightarrow> s"
| "b_negative NotANumber \<longleftrightarrow> False"

fun b_finite :: "binary64 \<Rightarrow> bool" where
  "b_finite (Finite x) \<longleftrightarrow> True"
| "b_finite MinusZero \<longleftrightarrow> True"
| "b_finite _ \<longleftrightarrow> False"

text \<open>Rounded results from here on are infinite.\<close>

definition overflow :: real where
  "overflow = 2 ^ 1024"

text \<open>The rounded result of an operation; \<open>s\<close> is the sign of an exact zero.\<close>

definition deliver :: "bool \<Rightarrow> real \<Rightarrow> binary64" where
  "deliver s y = (let r = nearest y in
     if overflow \<le> \<bar>r\<bar> then Infinite (r < 0)
     else if r = 0 then (if y < 0 \<or> y = 0 \<and> s then MinusZero else Finite 0)
     else Finite r)"

fun b_neg :: "binary64 \<Rightarrow> binary64" where
  "b_neg (Finite x) = (if x = 0 then MinusZero else Finite (- x))"
| "b_neg MinusZero = Finite 0"
| "b_neg (Infinite s) = Infinite (\<not> s)"
| "b_neg NotANumber = NotANumber"

definition b_add :: "binary64 \<Rightarrow> binary64 \<Rightarrow> binary64" where
  "b_add a b =
     (if a = NotANumber \<or> b = NotANumber then NotANumber
      else if b_finite a \<and> b_finite b then deliver (b_negative a \<and> b_negative b) (b_value a + b_value b)
      else if b_finite b then a
      else if b_finite a \<or> a = b then b
      else NotANumber)"

definition b_sub :: "binary64 \<Rightarrow> binary64 \<Rightarrow> binary64" where
  "b_sub a b = b_add a (b_neg b)"

text \<open>The product of an infinity with a zero is not a number.\<close>

definition b_zero :: "binary64 \<Rightarrow> bool" where
  "b_zero a \<longleftrightarrow> b_finite a \<and> b_value a = 0"

definition b_mul :: "binary64 \<Rightarrow> binary64 \<Rightarrow> binary64" where
  "b_mul a b =
     (if a = NotANumber \<or> b = NotANumber then NotANumber
      else if b_finite a \<and> b_finite b then deliver (b_negative a \<noteq> b_negative b) (b_value a * b_value b)
      else if b_zero a \<or> b_zero b then NotANumber
      else Infinite (b_negative a \<noteq> b_negative b))"

definition b_div :: "binary64 \<Rightarrow> binary64 \<Rightarrow> binary64" where
  "b_div a b =
     (if a = NotANumber \<or> b = NotANumber then NotANumber
      else if b_finite a then
        if b_zero b then if b_zero a then NotANumber else Infinite (b_negative a \<noteq> b_negative b)
        else if b_finite b then deliver (b_negative a \<noteq> b_negative b) (b_value a / b_value b)
        else deliver (b_negative a \<noteq> b_negative b) 0
      else if b_finite b then Infinite (b_negative a \<noteq> b_negative b)
      else NotANumber)"

definition b_mul_add :: "binary64 \<Rightarrow> binary64 \<Rightarrow> binary64 \<Rightarrow> binary64" where
  "b_mul_add a b c =
     (if b_finite a \<and> b_finite b \<and> b_finite c
      then deliver ((b_negative a \<noteq> b_negative b) \<and> b_negative c) (b_value a * b_value b + b_value c)
      else if b_finite a \<and> b_finite b then c
      else b_add (b_mul a b) c)"

fun b_sqrt :: "binary64 \<Rightarrow> binary64" where
  "b_sqrt (Finite x) = (if x < 0 then NotANumber else deliver False (sqrt x))"
| "b_sqrt MinusZero = MinusZero"
| "b_sqrt (Infinite s) = (if s then NotANumber else Infinite False)"
| "b_sqrt NotANumber = NotANumber"

fun b_exp :: "binary64 \<Rightarrow> binary64" where
  "b_exp (Infinite s) = (if s then Finite 0 else Infinite False)"
| "b_exp NotANumber = NotANumber"
| "b_exp a = deliver False (exp (b_value a))"

fun b_ln :: "binary64 \<Rightarrow> binary64" where
  "b_ln (Finite x) = (if x = 0 then Infinite True else if x < 0 then NotANumber else deliver False (ln x))"
| "b_ln MinusZero = Infinite True"
| "b_ln (Infinite s) = (if s then NotANumber else Infinite False)"
| "b_ln NotANumber = NotANumber"

primrec b_power :: "binary64 \<Rightarrow> nat \<Rightarrow> binary64" where
  "b_power a 0 = Finite 1"
| "b_power a (Suc n) = b_mul a (b_power a n)"

definition b_powi :: "binary64 \<Rightarrow> int \<Rightarrow> binary64" where
  "b_powi a n = (if n < 0 then b_div (Finite 1) (b_power a (nat (- n))) else b_power a (nat n))"

fun b_lt :: "binary64 \<Rightarrow> binary64 \<Rightarrow> bool" where
  "b_lt NotANumber b \<longleftrightarrow> False"
| "b_lt a NotANumber \<longleftrightarrow> False"
| "b_lt (Infinite s) b \<longleftrightarrow> s \<and> b \<noteq> Infinite True"
| "b_lt a (Infinite s) \<longleftrightarrow> \<not> s"
| "b_lt a b \<longleftrightarrow> b_value a < b_value b"

definition b_le :: "binary64 \<Rightarrow> binary64 \<Rightarrow> bool" where
  "b_le a b \<longleftrightarrow> a \<noteq> NotANumber \<and> b \<noteq> NotANumber \<and> \<not> b_lt b a"

definition b_abs :: "binary64 \<Rightarrow> binary64" where
  "b_abs a = (if b_negative a then b_neg a else a)"

text \<open>\<^verbatim>\<open>format!("{:.0}")\<close> keeps the sign of a negative number that rounds to zero.\<close>

fun b_print :: "binary64 \<Rightarrow> string" where
  "b_print (Finite x) = (if x < 0 then CHR ''-'' # decimal (nat (- half_even x)) else decimal (nat (half_even x)))"
| "b_print MinusZero = ''-0''"
| "b_print (Infinite s) = (if s then ''-inf'' else ''inf'')"
| "b_print NotANumber = ''NaN''"

definition ieee_f64 :: "binary64 f64" where
  "ieee_f64 = \<lparr>fp_dec = (\<lambda>m k. deliver False (of_int m / 10 ^ k)), fp_pi = deliver False pi, fp_neg = b_neg, fp_add = b_add,
     fp_sub = b_sub, fp_mul = b_mul, fp_div = b_div, fp_mul_add = b_mul_add, fp_powi = b_powi, fp_sqrt = b_sqrt, fp_exp = b_exp,
     fp_ln = b_ln, fp_abs = b_abs, fp_le = b_le, fp_lt = b_lt, fp_is_finite = b_finite, fp_print = b_print\<rparr>"

lemma ieee_f64_simps [simp]:
  "fp_dec ieee_f64 = (\<lambda>m k. deliver False (of_int m / 10 ^ k))" "fp_add ieee_f64 = b_add" "fp_sub ieee_f64 = b_sub"
  "fp_mul ieee_f64 = b_mul" "fp_div ieee_f64 = b_div" "fp_mul_add ieee_f64 = b_mul_add" "fp_sqrt ieee_f64 = b_sqrt"
  "fp_le ieee_f64 = b_le" "fp_lt ieee_f64 = b_lt" "fp_is_finite ieee_f64 = b_finite" "fp_print ieee_f64 = b_print"
  by (simp_all add: ieee_f64_def)

section \<open>The hypothesis of the rating theorems\<close>

text \<open>A finite number is compared, multiplied and printed by its value.\<close>

lemma b_le_finite: "b_finite a \<Longrightarrow> b_finite b \<Longrightarrow> b_le a b \<longleftrightarrow> b_value a \<le> b_value b"
  by (cases a; cases b) (auto simp: b_le_def)

lemma b_div_finite:
  "b_finite a \<Longrightarrow> b_finite b \<Longrightarrow> b_value b \<noteq> 0 \<Longrightarrow> b_div a b = deliver (b_negative a \<noteq> b_negative b) (b_value a / b_value b)"
  by (cases a; cases b) (auto simp: b_div_def b_zero_def)

lemma deliver_value: "b_finite (deliver s y) \<Longrightarrow> b_value (deliver s y) = nearest y"
  by (auto simp: deliver_def Let_def split: if_splits)

lemma deliver_finite: "b_finite (deliver s y) \<longleftrightarrow> \<bar>nearest y\<bar> < overflow"
  by (auto simp: deliver_def Let_def)

lemma deliver_not_nan [simp]: "deliver s y \<noteq> NotANumber"
  by (simp add: deliver_def Let_def)

lemma b_print_value: "b_finite a \<Longrightarrow> prints_as (b_print a) (half_even (b_value a))"
proof (cases a)
  case (Finite x)
  have "half_even x \<le> 0" if "x < 0" using half_even_mono[of x 0] that by simp
  moreover have "0 \<le> half_even x" if "\<not> x < 0" using half_even_mono[of 0 x] that by simp
  moreover have "decimal 0 = ''0''" by code_simp
  ultimately show ?thesis using Finite by (auto simp: prints_as_def show_int_def)
qed (auto simp: prints_as_def)

text \<open>The rounded value of a number of moderate size.\<close>

lemma nearest_close:
  assumes "1 / 1000000000 \<le> y"
  shows "y - y / 1000000000000000 \<le> nearest y" "nearest y \<le> y + y / 1000000000000000"
proof -
  have "(2::real) powr (- 1022) \<le> 2 powr (- 30)" by (rule powr_mono) auto
  also have "\<dots> \<le> 1 / 1000000000" by (simp add: powr_minus powr_numeral)
  finally have "2 powr (- 1022) \<le> \<bar>y\<bar>" using assms by linarith
  from nearest_error[OF this] have "\<bar>nearest y - y\<bar> \<le> y / 2 ^ 53" using assms by simp
  also have "\<dots> \<le> y / 1000000000000000" using assms by (intro divide_left_mono) auto
  finally show "y - y / 1000000000000000 \<le> nearest y" "nearest y \<le> y + y / 1000000000000000" by linarith+
qed

lemma small_is_finite: "- (2 ^ 53) \<le> r \<Longrightarrow> r \<le> 2 ^ 53 \<Longrightarrow> \<bar>r\<bar> < overflow"
proof -
  assume r: "- (2 ^ 53) \<le> r" "r \<le> 2 ^ 53"
  have "2 ^ 53 < overflow" unfolding overflow_def by (rule power_strict_increasing) auto
  then show ?thesis using r by linarith
qed

lemma ieee_prints:
  assumes fin: "b_finite low" "b_finite high" "b_finite scale" and c: "b_value scale = of_int c" "0 < c"
    and lo: "of_int a - 1 / 2 < nearest (b_value low * of_int c)" and hi: "nearest (b_value high * of_int c) < of_int b + 1 / 2"
    and small: "\<bar>a\<bar> < 2 ^ 52" "\<bar>b\<bar> < 2 ^ 52"
  shows "prints_between ieee_f64 low high scale a b"
  unfolding prints_between_def
proof (intro allI impI)
  fix x assume x: "fp_is_finite ieee_f64 x \<and> fp_contains ieee_f64 low high x"
  let ?q = "nearest (b_value x * of_int c)"
  obtain s where m: "b_mul x scale = deliver s (b_value x * of_int c)"
    using x fin c by (cases x; cases scale) (auto simp: b_mul_def)
  have "b_value low \<le> b_value x" "b_value x \<le> b_value high" using x fin by (auto simp: fp_contains_def b_le_finite)
  then have q: "nearest (b_value low * of_int c) \<le> ?q" "?q \<le> nearest (b_value high * of_int c)"
    using c(2) by (auto intro!: nearest_mono mult_right_mono)
  have "\<bar>real_of_int a\<bar> < 2 ^ 52" "\<bar>real_of_int b\<bar> < 2 ^ 52" using small by auto
  then have "\<bar>?q\<bar> < overflow" using q lo hi by (intro small_is_finite) auto
  then have f: "b_finite (b_mul x scale)" by (simp add: m deliver_finite)
  then have v: "b_value (b_mul x scale) = ?q" by (simp add: m deliver_value)
  have "a \<le> half_even ?q" "half_even ?q \<le> b" using q lo hi half_even_near[of ?q] by linarith+
  then show "\<exists>n. a \<le> n \<and> n \<le> b \<and> prints_as (fp_print ieee_f64 (fp_mul ieee_f64 x scale)) n"
    using b_print_value[OF f] v by auto
qed

lemma ieee_reads:
  assumes fin: "b_finite low" "b_finite high" "b_finite scale" and c: "b_value scale = of_int c" "0 < c"
    and lo: "b_value low \<le> nearest (of_int a / of_int c)" "nearest (of_int (a - 1) / of_int c) < b_value low"
    and hi: "nearest (of_int b / of_int c) \<le> b_value high" "b_value high < nearest (of_int (b + 1) / of_int c)"
    and small: "\<bar>a\<bar> < 2 ^ 52" "\<bar>b\<bar> < 2 ^ 52" and moderate: "- (2 ^ 53) \<le> b_value low" "b_value high \<le> 2 ^ 53"
  shows "reads_between ieee_f64 low high scale a b"
  unfolding reads_between_def
proof
  fix n :: int
  define x where "x = lit ieee_f64 n"
  then have lit: "x = deliver False (of_int n)" by simp
  have "b_finite (b_div x scale) \<and> fp_contains ieee_f64 low high (b_div x scale) \<longleftrightarrow> a \<le> n \<and> n \<le> b"
  proof (cases "b_finite x")
    case False
    then have "\<not> b_finite (b_div x scale)" using fin(3) by (auto simp: b_div_def)
    moreover have "\<not> (a \<le> n \<and> n \<le> b)"
    proof
      assume n: "a \<le> n \<and> n \<le> b"
      then have "nearest (of_int n) = of_int n" using small by (intro nearest_int) auto
      moreover have "\<bar>real_of_int n\<bar> < overflow" by (rule small_is_finite) (use n small in auto)
      ultimately show False using False by (simp add: lit deliver_finite)
    qed
    ultimately show ?thesis by simp
  next
    case True
    let ?v = "nearest (of_int n)" and ?q = "nearest (nearest (of_int n) / of_int c)"
    have x: "b_value x = ?v" using True unfolding lit by (rule deliver_value)
    obtain s where d: "b_div x scale = deliver s (?v / of_int c)" using b_div_finite[OF True fin(3)] c x by auto
    have cmp: "b_finite (b_div x scale) \<and> fp_contains ieee_f64 low high (b_div x scale)
        \<longleftrightarrow> \<bar>?q\<bar> < overflow \<and> b_value low \<le> ?q \<and> ?q \<le> b_value high"
      using fin deliver_value[of s "?v / of_int c"] by (auto simp: fp_contains_def b_le_finite d deliver_finite)
    have mono: "nearest (of_int k / of_int c) \<le> ?q" if "k \<le> n" "\<bar>k\<bar> < 2 ^ 53" for k
      using that nearest_mono[of "of_int k" "of_int n"] nearest_int[of k] c(2) by (auto intro!: nearest_mono divide_right_mono)
    have mono': "?q \<le> nearest (of_int k / of_int c)" if "n \<le> k" "\<bar>k\<bar> < 2 ^ 53" for k
      using that nearest_mono[of "of_int n" "of_int k"] nearest_int[of k] c(2) by (auto intro!: nearest_mono divide_right_mono)
    show ?thesis
    proof (cases "a \<le> n \<and> n \<le> b")
      case True
      have q: "b_value low \<le> ?q" "?q \<le> b_value high" using mono[of a] mono'[of b] True small lo hi by auto
      then have "\<bar>?q\<bar> < overflow" using moderate by (intro small_is_finite) linarith+
      then show ?thesis using q True cmp by simp
    next
      case False
      then consider "n \<le> a - 1" | "b + 1 \<le> n" by linarith
      moreover have "\<bar>a - 1\<bar> < 2 ^ 53" "\<bar>b + 1\<bar> < 2 ^ 53" using small by auto
      ultimately have "\<not> (b_value low \<le> ?q \<and> ?q \<le> b_value high)"
        using mono'[of "a - 1"] mono[of "b + 1"] lo(2) hi(2) by cases auto
      then show ?thesis using False cmp by auto
    qed
  qed
  then show "fp_is_finite ieee_f64 (fp_div ieee_f64 (lit ieee_f64 n) scale)
      \<and> fp_contains ieee_f64 low high (fp_div ieee_f64 (lit ieee_f64 n) scale) \<longleftrightarrow> a \<le> n \<and> n \<le> b" by (simp add: lit)
qed

text \<open>The literals of \<^verbatim>\<open>rating.rs\<close>: the integers are exact, the two small fractions nearly so.\<close>

lemma lit_int: "\<bar>n\<bar> < 2 ^ 53 \<Longrightarrow> b_finite (lit ieee_f64 n) \<and> b_value (lit ieee_f64 n) = of_int n"
proof -
  assume n: "\<bar>n\<bar> < 2 ^ 53"
  have "\<bar>real_of_int n\<bar> < 2 ^ 53" using n by auto
  then have "\<bar>real_of_int n\<bar> < overflow" by (intro small_is_finite) auto
  then show ?thesis using deliver_finite[of False "of_int n"] deliver_value[of False "of_int n"] nearest_int[OF n] by simp
qed

lemma lit_fraction:
  "b_finite (fp_dec ieee_f64 1 k)" "b_value (fp_dec ieee_f64 1 k) = nearest (1 / 10 ^ k)"
proof -
  have "1 / 10 ^ k \<le> (1 :: real)" by simp
  then have "nearest (1 / 10 ^ k) \<le> 1" "0 \<le> nearest (1 / 10 ^ k)"
    using nearest_mono[of "1 / 10 ^ k" 1] nearest_mono[of 0 "1 / 10 ^ k"] nearest_int[of 1] by simp_all
  then have "\<bar>nearest (1 / 10 ^ k)\<bar> < overflow" by (intro small_is_finite) auto
  then show "b_finite (fp_dec ieee_f64 1 k)" by (simp add: deliver_finite)
  then show "b_value (fp_dec ieee_f64 1 k) = nearest (1 / 10 ^ k)" using deliver_value[of False "1 / 10 ^ k"] by simp
qed

lemma near_milli: "9 / 10000 \<le> nearest (1 / 1000)" "nearest (1 / 1000) \<le> 11 / 10000"
  using nearest_close[of "1 / 1000"] by simp_all

lemma near_micro: "9999 / 10000000000 \<le> nearest (1 / 1000000)" "nearest (1 / 1000000) \<le> 10001 / 10000000000"
  using nearest_close[of "1 / 1000000"] by simp_all

lemma ieee_rating_bounds:
  "prints_between ieee_f64 (lit ieee_f64 (- 1000)) (lit ieee_f64 5000) (lit ieee_f64 1000) (- 1000000) 5000000"
  "reads_between ieee_f64 (lit ieee_f64 (- 1000)) (lit ieee_f64 5000) (lit ieee_f64 1000) (- 1000000) 5000000"
proof -
  note l = lit_int[of "- 1000"] lit_int[of 5000] lit_int[of 1000]
  show "prints_between ieee_f64 (lit ieee_f64 (- 1000)) (lit ieee_f64 5000) (lit ieee_f64 1000) (- 1000000) 5000000"
    by (rule ieee_prints[of _ _ _ 1000]) (use l nearest_int[of "- 1000000"] nearest_int[of 5000000] in \<open>simp_all del: ieee_f64_simps\<close>)
  show "reads_between ieee_f64 (lit ieee_f64 (- 1000)) (lit ieee_f64 5000) (lit ieee_f64 1000) (- 1000000) 5000000"
    by (rule ieee_reads[of _ _ _ 1000]) (use l nearest_int[of "- 1000"] nearest_int[of 5000] nearest_close[of "1000001 / 1000"] nearest_minus[of "1000001 / 1000"]
      nearest_close[of "5000001 / 1000"] in \<open>simp_all del: ieee_f64_simps\<close>)
qed

lemma ieee_deviation_bounds:
  "prints_between ieee_f64 (fp_dec ieee_f64 1 3) (lit ieee_f64 350) (lit ieee_f64 1000) 1 350000"
  "reads_between ieee_f64 (fp_dec ieee_f64 1 3) (lit ieee_f64 350) (lit ieee_f64 1000) 1 350000"
proof -
  note l = lit_fraction(1,2)[of 3] lit_int[of 350] lit_int[of 1000]
  have "nearest (9 / 10) \<le> nearest (nearest (1 / 1000) * 1000)" using near_milli by (intro nearest_mono) simp
  then have n: "1 / 2 < nearest (nearest (1 / 1000) * 1000)" using nearest_close[of "9 / 10"] by simp
  show "prints_between ieee_f64 (fp_dec ieee_f64 1 3) (lit ieee_f64 350) (lit ieee_f64 1000) 1 350000"
    by (rule ieee_prints[of _ _ _ 1000]) (use l n nearest_int[of 350000] in \<open>simp_all del: ieee_f64_simps\<close>)
  show "reads_between ieee_f64 (fp_dec ieee_f64 1 3) (lit ieee_f64 350) (lit ieee_f64 1000) 1 350000"
    by (rule ieee_reads[of _ _ _ 1000]) (use l near_milli nearest_int[of 350] nearest_close[of "350001 / 1000"] in
      \<open>simp_all del: ieee_f64_simps\<close>)
qed

lemma ieee_volatility_bounds:
  "prints_between ieee_f64 (fp_dec ieee_f64 1 6) (lit ieee_f64 1) (lit ieee_f64 1000000000) 1000 1000000000"
  "reads_between ieee_f64 (fp_dec ieee_f64 1 6) (lit ieee_f64 1) (lit ieee_f64 1000000000) 1000 1000000000"
proof -
  note l = lit_fraction(1,2)[of 6] lit_int[of 1] lit_int[of 1000000000]
  have "nearest (9999 / 10) \<le> nearest (nearest (1 / 1000000) * 1000000000)" using near_micro by (intro nearest_mono) simp
  then have n: "1999 / 2 < nearest (nearest (1 / 1000000) * 1000000000)" using nearest_close[of "9999 / 10"] by simp
  show "prints_between ieee_f64 (fp_dec ieee_f64 1 6) (lit ieee_f64 1) (lit ieee_f64 1000000000) 1000 1000000000"
    by (rule ieee_prints[of _ _ _ 1000000000]) (use l n nearest_int[of 1000000000] in \<open>simp_all del: ieee_f64_simps\<close>)
  show "reads_between ieee_f64 (fp_dec ieee_f64 1 6) (lit ieee_f64 1) (lit ieee_f64 1000000000) 1000 1000000000"
    by (rule ieee_reads[of _ _ _ 1000000000]) (use l near_micro nearest_int[of 1] nearest_close[of "999 / 1000000000"]
      nearest_close[of "1000000001 / 1000000000"] in \<open>simp_all del: ieee_f64_simps\<close>)
qed

lemma ieee_f64_ok: "f64_ok ieee_f64"
  unfolding f64_ok_def by (intro conjI ieee_rating_bounds ieee_deviation_bounds ieee_volatility_bounds)

section \<open>An entrant with no opponent\<close>

text \<open>The update of a valid rating without opponents never meets a number that is not one.\<close>

definition b_nonneg :: "binary64 \<Rightarrow> bool" where
  "b_nonneg a \<longleftrightarrow> a \<noteq> NotANumber \<and> \<not> b_negative a"

lemma deliver_nonneg: "0 \<le> y \<Longrightarrow> \<not> s \<Longrightarrow> b_nonneg (deliver s y)"
  using nearest_mono[of 0 y] by (auto simp: b_nonneg_def deliver_def Let_def)

lemma nonneg_value: "b_nonneg a \<Longrightarrow> 0 \<le> b_value a"
  by (cases a) (auto simp: b_nonneg_def)

lemma square_nonneg: "a \<noteq> NotANumber \<Longrightarrow> b_nonneg (b_mul a a)"
  by (cases a) (auto simp: b_mul_def b_zero_def deliver_nonneg, simp add: b_nonneg_def)

lemma square_add_nonneg: "a \<noteq> NotANumber \<Longrightarrow> b_nonneg c \<Longrightarrow> b_nonneg (b_mul_add a a c)"
proof (cases "b_finite a \<and> b_finite c")
  case True
  assume "b_nonneg c"
  then show ?thesis using True nonneg_value[of c] by (simp add: b_mul_add_def deliver_nonneg)
next
  case False
  assume "a \<noteq> NotANumber" "b_nonneg c"
  then show ?thesis using False by (cases a; cases c) (auto simp: b_mul_add_def b_mul_def b_add_def b_zero_def b_nonneg_def)
qed

lemma sqrt_nonneg: "b_nonneg a \<Longrightarrow> b_sqrt a \<noteq> NotANumber"
  by (cases a) (auto simp: b_nonneg_def)

lemma b_div_defined: "a \<noteq> NotANumber \<Longrightarrow> b_finite b \<Longrightarrow> b_value b \<noteq> 0 \<Longrightarrow> b_div a b \<noteq> NotANumber"
  by (cases a; cases b) (auto simp: b_div_def b_zero_def)

lemma b_mul_defined: "a \<noteq> NotANumber \<Longrightarrow> b_finite b \<Longrightarrow> b_value b \<noteq> 0 \<Longrightarrow> b_mul a b \<noteq> NotANumber"
  by (cases a; cases b) (auto simp: b_mul_def b_zero_def)

lemma b_mul_add_defined:
  "a \<noteq> NotANumber \<Longrightarrow> b_finite b \<Longrightarrow> b_value b \<noteq> 0 \<Longrightarrow> b_finite c \<Longrightarrow> b_mul_add a b c \<noteq> NotANumber"
  by (cases a; cases b; cases c) (auto simp: b_mul_add_def b_mul_def b_add_def b_zero_def)

lemma b_sub_defined: "b_finite a \<Longrightarrow> b_finite b \<Longrightarrow> b_sub a b \<noteq> NotANumber"
  by (cases a; cases b) (auto simp: b_sub_def b_add_def)

lemma clamp_within:
  assumes "b_finite low" "b_finite high" "b_value low \<le> b_value high" "x \<noteq> NotANumber"
  shows "b_finite (fp_clamp ieee_f64 low high x)" "fp_contains ieee_f64 low high (fp_clamp ieee_f64 low high x)"
  using assms by (cases low; cases high; cases x; auto simp: fp_clamp_def fp_contains_def b_le_def Let_def)+

lemma glicko_scale: "b_finite (GLICKO_SCALE ieee_f64)" "b_value (GLICKO_SCALE ieee_f64) \<noteq> 0"
proof -
  have n: "173 \<le> nearest (1737178 / 10000)" "nearest (1737178 / 10000) \<le> 174" using nearest_close[of "1737178 / 10000"] by simp_all
  then have "\<bar>nearest (1737178 / 10000)\<bar> < overflow" by (intro small_is_finite) auto
  then show f: "b_finite (GLICKO_SCALE ieee_f64)" by (simp add: GLICKO_SCALE_def deliver_finite)
  then show "b_value (GLICKO_SCALE ieee_f64) \<noteq> 0" using n deliver_value[of False "1737178 / 10000"] by (simp add: GLICKO_SCALE_def)
qed

lemma ieee_fixed:
  assumes "mu \<noteq> NotANumber" "phi \<noteq> NotANumber" "sigma \<noteq> NotANumber"
  shows "\<exists>w. rating_fixed ieee_f64 mu phi sigma = Ok w"
proof -
  note l = lit_int[of "- 1000"] lit_int[of 5000] lit_int[of 350] lit_int[of 1] lit_int[of 1500] lit_fraction[of 3] lit_fraction[of 6]
  have m: "b_mul_add mu (GLICKO_SCALE ieee_f64) (lit ieee_f64 1500) \<noteq> NotANumber" "b_mul phi (GLICKO_SCALE ieee_f64) \<noteq> NotANumber"
    using assms glicko_scale l by (simp_all add: b_mul_add_defined b_mul_defined del: ieee_f64_simps)
  have d: "b_value (fp_dec ieee_f64 1 3) \<le> b_value (lit ieee_f64 350)" "b_value (fp_dec ieee_f64 1 6) \<le> b_value (lit ieee_f64 1)"
    using l near_milli near_micro by (simp_all del: ieee_f64_simps)
  show ?thesis
    unfolding rating_fixed_def
    using from_f64_within[OF ieee_f64_ok, of "fp_clamp ieee_f64 (lit ieee_f64 (- 1000)) (lit ieee_f64 5000) (b_mul_add mu (GLICKO_SCALE ieee_f64) (lit ieee_f64 1500))"
        "fp_clamp ieee_f64 (fp_dec ieee_f64 1 3) (lit ieee_f64 350) (b_mul phi (GLICKO_SCALE ieee_f64))"
        "fp_clamp ieee_f64 (fp_dec ieee_f64 1 6) (lit ieee_f64 1) sigma"]
      clamp_within[OF _ _ _ m(1), of "lit ieee_f64 (- 1000)" "lit ieee_f64 5000"]
      clamp_within[OF _ _ _ m(2), of "fp_dec ieee_f64 1 3" "lit ieee_f64 350"]
      clamp_within[OF _ _ _ assms(3), of "fp_dec ieee_f64 1 6" "lit ieee_f64 1"] l d
    by (auto simp: ieee_f64_simps(4,6,10) simp del: ieee_f64_simps(1-3,5,7-9,11))
qed

lemma ieee_update_unopposed:
  assumes "rating_in_bounds v"
  shows "\<exists>w. update_rating ieee_f64 v [] = Ok w"
proof -
  have v: "b_finite (rv_rating ieee_f64 v)" "b_finite (rv_deviation ieee_f64 v)" "b_finite (rv_volatility ieee_f64 v)"
    using readable[OF ieee_f64_ok, of v] assms by (simp_all add: rating_in_bounds_def del: ieee_f64_simps(1-9,11))
  let ?mu = "b_div (b_sub (rv_rating ieee_f64 v) (lit ieee_f64 1500)) (GLICKO_SCALE ieee_f64)"
  let ?phi = "b_div (rv_deviation ieee_f64 v) (GLICKO_SCALE ieee_f64)" and ?sigma = "rv_volatility ieee_f64 v"
  have nan: "\<not> b_finite NotANumber" by simp
  have mu: "?mu \<noteq> NotANumber" using v(1) glicko_scale lit_int[of 1500] by (intro b_div_defined b_sub_defined) auto
  have "?phi \<noteq> NotANumber" "?sigma \<noteq> NotANumber" using v glicko_scale nan by (metis b_div_defined)+
  then have "b_sqrt (b_mul_add ?phi ?phi (b_mul ?sigma ?sigma)) \<noteq> NotANumber" "?sigma \<noteq> NotANumber"
    by (auto intro!: sqrt_nonneg square_add_nonneg square_nonneg)
  from ieee_fixed[OF mu this] show ?thesis
    using validate_rating_cases[OF ieee_f64_ok, of v] assms by (simp add: update_rating_def Let_def)
qed

end
