(* ===== verification/RatingTheorems.thy ===== *)
theory RatingTheorems
  imports RatingCommit Binary64
begin

text \<open>
  The theorems about ratings: what is loaded and rebuilt is what was committed, a commit is
  accepted exactly when it continues the history of its pool, a committed period never changes, and every
  rating stays within its bounds. They hold of every arithmetic that satisfies \<open>f64_ok\<close>; the witnesses use
  IEEE binary64, of which \<open>Binary64\<close> proves it.
\<close>

section \<open>Reading back\<close>

lemma insort_key_map: "insort_key k (g x) (map g xs) = map g (insort_key (\<lambda>x. k (g x)) x xs)"
  by (induction xs) auto

lemma sort_key_map: "sort_key k (map g xs) = map g (sort_key (\<lambda>x. k (g x)) xs)"
  by (induction xs) (simp_all add: insort_key_map)

lemma zip_maps: "zip (map f xs) (map g xs) = map (\<lambda>x. (f x, g x)) xs"
  by (induction xs) auto

lemma zip_map_self: "zip (map f xs) xs = map (\<lambda>x. (f x, x)) xs"
  by (induction xs) auto

definition stored_rating :: "PeriodRow \<Rightarrow> StoredRatingPeriod" where
  "stored_rating r = \<lparr>sr_period = prr_period r, sr_derived = prr_derived r, sr_committed_at = prr_committed_at_ms r\<rparr>"

lemma stored_period_committed:
  assumes "committed E F json r"
  shows "stored_period E F json r = Ok (stored_rating r)"
proof -
  obtain key p d now where r: "r = period_row key p d now" "derive_period F p = Ok d" "pool_key E json (rpd_pool p) = Ok key"
    "rpd_sequence p < 2 ^ 63" using assms by (auto simp: committed_def)
  note v = derive_period_Ok(1)[OF r(2)]
  show ?thesis using r v validate_period_Ok(1)[OF v] by (simp add: stored_period_def stored_rating_def corrupt_def i64_sequence_def)
qed

lemma normalized_committed:
  assumes "rating_inv E F json db" "f64_ok F" "r \<in> set (rdb_periods db)"
  shows "validate_normalized_rows E json db (stored_rating r) = Ok ()"
proof -
  obtain key p d now where r: "r = period_row key p d now" "derive_period F p = Ok d" "pool_key E json (rpd_pool p) = Ok key"
    "rpd_sequence p < 2 ^ 63" using assms(1,3) by (auto simp: rating_inv_def list_all_iff committed_def)
  have dist: "distinct (map prr_period_id (rdb_periods db))" using assms(1) by (simp add: rating_inv_def)
  have tables: "rdb_matches db = concat (map period_matches (rdb_periods db))" "rdb_inputs db = concat (map period_inputs (rdb_periods db))"
    "rdb_updates db = concat (map period_updates (rdb_periods db))" using assms(1) by (simp_all add: rating_inv_def)
  have rows: "filter (\<lambda>x. rmr_period_id x = rpd_period_id p) (rdb_matches db) = map (match_row key (rpd_period_id p)) (rpd_matches p)"
    "filter (\<lambda>x. rir_period_id x = rpd_period_id p) (rdb_inputs db) = map (input_row (rpd_period_id p)) (rpd_updates p)"
    "filter (\<lambda>x. rur_period_id x = rpd_period_id p) (rdb_updates db)
      = map (\<lambda>u. update_row key (rpd_period_id p) (int (rpd_sequence p)) (ru_entrant_id u) (derived_rating d u)) (rpd_updates p)"
    using filter_concat_key[OF dist assms(3), of period_matches rmr_period_id, OF period_rows_ids(2)]
      filter_concat_key[OF dist assms(3), of period_inputs rir_period_id, OF period_rows_ids(1)]
      filter_concat_key[OF dist assms(3), of period_updates rur_period_id, OF period_rows_ids(3)[THEN conjunct1]] tables
    by (simp_all add: r(1) period_matches_def[of "period_row key p d now"] period_inputs_def[of "period_row key p d now"]
        period_updates_def[of "period_row key p d now"])
  let ?us = "sort_key ru_entrant_id (rpd_updates p)" and ?ms = "sort_key rm_match_id (rpd_matches p)"
  have d: "d = map (\<lambda>u. (ru_entrant_id u, derived_rating d u)) ?us" by (rule derive_period_Ok(2)[OF r(2)])
  have "sort_key rmr_match_id (map (match_row key (rpd_period_id p)) (rpd_matches p)) = map (match_row key (rpd_period_id p)) ?ms"
    "sort_key rir_entrant_id (map (input_row (rpd_period_id p)) (rpd_updates p)) = map (input_row (rpd_period_id p)) ?us"
    "sort_key rur_entrant_id (map (\<lambda>u. update_row key (rpd_period_id p) (int (rpd_sequence p)) (ru_entrant_id u) (derived_rating d u)) (rpd_updates p))
      = map (\<lambda>u. update_row key (rpd_period_id p) (int (rpd_sequence p)) (ru_entrant_id u) (derived_rating d u)) ?us"
    by (simp_all add: sort_key_map match_row_def input_row_def update_row_def)
  note sorted = this
  have m: "try_fold (\<lambda>_ (row, expected). if match_row_agrees key row expected then Ok () else Err RatRepCorrupt) ()
      (zip (map (match_row key (rpd_period_id p)) ?ms) ?ms) = Ok ()"
    unfolding try_fold_unit zip_map_self by (auto simp: match_row_agrees_def match_row_def)
  have i: "try_fold (\<lambda>_. check_input_row) () (zip (map (input_row (rpd_period_id p)) ?us) ?us) = Ok ()"
    unfolding try_fold_unit zip_map_self
    using derived_in_bounds(1)[OF assms(2) r(2)] by (auto simp: check_input_row_def input_row_def rating_row_columns)
  have u: "try_fold (\<lambda>_. check_update_row key (int (rpd_sequence p))) ()
      (zip (map (\<lambda>u. update_row key (rpd_period_id p) (int (rpd_sequence p)) (ru_entrant_id u) (derived_rating d u)) ?us)
        (map (\<lambda>u. (ru_entrant_id u, derived_rating d u)) ?us)) = Ok ()"
    unfolding try_fold_unit zip_maps
    using derived_in_bounds(2)[OF assms(2) r(2)] by (auto simp: check_update_row_def update_row_def rating_row_columns)
  have "length d = length ?us" by (subst d) simp
  then show ?thesis using r(1,3,4) m i u[folded d]
    by (simp add: validate_normalized_rows_def stored_rating_def corrupt_def rows sorted i64_sequence_def Let_def)
qed

lemma rating_validate_id_Ok: "rating_validate_id i = Ok u \<longleftrightarrow> valid_id 256 i"
  by (auto simp: rating_validate_id_def valid_id_def list_all_iff list_ex_iff)

lemma committed_id: "committed E F json r \<Longrightarrow> valid_id 256 (prr_period_id r)"
  using validate_period_Ok(2)[OF derive_period_Ok(1)] by (auto simp: committed_def)

lemma load_committed:
  assumes "rating_inv E F json db" "f64_ok F" "r \<in> set (rdb_periods db)"
  shows "load_period E F json db (prr_period_id r) = Ok (stored_rating r)"
proof -
  have c: "committed E F json r" "distinct (map prr_period_id (rdb_periods db))" using assms(1,3) by (auto simp: rating_inv_def list_all_iff)
  have "List.find (\<lambda>x. prr_period_id x = prr_period_id r) (rdb_periods db) = Some r" using find_key[OF c(2)] assms(3) by blast
  then show ?thesis
    using stored_period_committed[OF c(1)] normalized_committed[OF assms] rating_validate_id_Ok[of "prr_period_id r" "()"] committed_id[OF c(1)]
    by (simp add: load_period_def)
qed

section \<open>Rebuilding\<close>

lemma rebuild_rows:
  assumes "rating_inv E F json db" "f64_ok F" "set rs \<subseteq> set (rdb_periods db)" "map prr_sequence rs = map int [k..<k + length rs]" "chained m rs"
  shows "try_fold (rebuild_row E F json db pool) (k, m) rs
    = (if list_all (\<lambda>r. prr_pool r = pool) rs then Ok (k + length rs, foldl apply_row m rs) else Err RatRepCorrupt)"
  using assms(3-5)
proof (induction rs arbitrary: k m)
  case (Cons r rs)
  have r: "r \<in> set (rdb_periods db)" using Cons.prems(1) by simp
  obtain key p d now where c: "r = period_row key p d now" "rpd_sequence p < 2 ^ 63"
    using assms(1) r by (auto simp: rating_inv_def list_all_iff committed_def)
  have "committed E F json r" using assms(1) r by (simp add: rating_inv_def list_all_iff)
  note load = stored_period_committed[OF this] normalized_committed[OF assms(1,2) r]
  have range: "[k..<Suc (k + length rs)] = k # [Suc k..<Suc (k + length rs)]" by (simp add: upt_conv_Cons del: upt_Suc)
  have seq: "rpd_sequence p = k" "map prr_sequence rs = map int [Suc k..<Suc k + length rs]"
    using Cons.prems(2) c(1) by (simp_all add: range del: upt_Suc)
  have "\<not> list_ex (\<lambda>u. case btree_get m (ru_entrant_id u) of None \<Rightarrow> False | Some current \<Rightarrow> current \<noteq> ru_previous u) (rpd_updates p)"
    using Cons.prems(3) c(1) by (auto simp: starts_from_def null_or_def list_all_iff list_ex_iff split: option.splits)
  then have "rebuild_row E F json db pool (k, m) r = (if prr_pool r = pool then Ok (k + 1, apply_row m r) else Err RatRepCorrupt)"
    using load c seq(1) by (simp add: rebuild_row_def stored_rating_def try_from_def apply_row_def)
  then show ?case using Cons.IH[of "Suc k" "apply_row m r"] Cons.prems seq(2) by simp
qed simp

lemma zip_agree: "length xs = length ys \<Longrightarrow> list_all (\<lambda>(x, y). h x = y) (zip xs ys) \<longleftrightarrow> map h xs = ys"
  by (induction xs ys rule: list_induct2) auto

definition pool_current :: "string \<Rightarrow> RatingDb \<Rightarrow> CurrentRow list" where
  "pool_current key db = sort_key crr_entrant_id (filter (\<lambda>r. crr_pool_key r = key) (rdb_current db))"

lemma pool_current_replay:
  assumes "rating_inv E F json db"
  shows "map (\<lambda>r. (crr_entrant_id r, column_value (crr_rating r))) (pool_current key db) = replay_rows (pool_rows key db)" (is "?m = ?r")
proof (rule btree_ext)
  have c: "distinct (map current_key (rdb_current db))" "current_get (rdb_current db) key e = btree_get ?r e" for e
    using assms by (simp_all add: rating_inv_def current_ok_def)
  have "inj_on crr_entrant_id {r \<in> set (rdb_current db). crr_pool_key r = key}"
    using c(1) by (auto simp: inj_on_def distinct_map current_key_def)
  then have "distinct (map crr_entrant_id (pool_current key db))" using c(1) by (simp add: pool_current_def distinct_map)
  then show ok: "btree_ok ?m" by (simp add: btree_ok_def btree_keys_def strict_sorted_iff comp_def) (simp add: pool_current_def)
  show "btree_ok ?r" by (rule pool_replay_ok[OF assms])
  show "btree_get ?m e = btree_get ?r e" for e
  proof (rule option_ext)
    fix v
    have "btree_get ?m e = Some v \<longleftrightarrow> current_get (rdb_current db) key e = Some v"
      unfolding btree_get_Some[OF ok] current_get_Some[OF c(1)] by (auto simp: pool_current_def current_key_def image_iff)
    then show "btree_get ?m e = Some v \<longleftrightarrow> btree_get ?r e = Some v" using c(2) by simp
  qed
qed

lemma validate_current_verdict:
  assumes "rating_inv E F json db"
  shows "validate_current_rows db key rebuilt = (if replay_rows (pool_rows key db) = rebuilt then Ok () else Err RatRepCorrupt)"
proof -
  let ?rows = "pool_current key db" and ?h = "\<lambda>r. (crr_entrant_id r, column_value (crr_rating r))"
  have h: "map ?h ?rows = replay_rows (pool_rows key db)" by (rule pool_current_replay[OF assms])
  have v: "rating_row (crr_rating row) = Ok (column_value (crr_rating row))" if "row \<in> set ?rows" for row
    using assms that by (auto simp: rating_inv_def current_ok_def pool_current_def rating_row_columns)
  have "try_fold (\<lambda>_ (row, entrant, expected).
        if crr_entrant_id row \<noteq> entrant then Err RatRepCorrupt
        else rbind (rating_row (crr_rating row)) (\<lambda>value. if value \<noteq> expected then Err RatRepCorrupt else Ok ())) () (zip ?rows rebuilt)
      = (if list_all (\<lambda>(x, y). ?h x = y) (zip ?rows rebuilt) then Ok () else Err RatRepCorrupt)"
    by (rule try_fold_verdict) (use v set_zip_leftD in \<open>fastforce split: prod.splits\<close>)
  moreover have "length ?rows = length (replay_rows (pool_rows key db))" using h by (metis length_map)
  ultimately show ?thesis using zip_agree[of ?rows rebuilt ?h] h
    by (auto simp: validate_current_rows_def Let_def simp flip: pool_current_def)
qed

lemma pool_rows_sorted:
  assumes "rating_inv E F json db"
  shows "sort_key (\<lambda>r. (prr_sequence r, prr_period_id r)) (pool_rows key db) = pool_rows key db"
proof (rule sort_key_id_if_sorted)
  have s: "map prr_sequence (pool_rows key db) = map int [0..<length (pool_rows key db)]" using assms by (simp add: rating_inv_def)
  have n: "prr_sequence (pool_rows key db ! i) = int i" if "i < length (pool_rows key db)" for i
    using s that by (metis add_0 length_upt minus_nat.diff_0 nth_map nth_upt)
  show "sorted (map (\<lambda>r. (prr_sequence r, prr_period_id r)) (pool_rows key db))"
    unfolding sorted_iff_nth_mono_less by (simp add: n less_eq_prod_def)
qed

lemma rebuild_exact:
  assumes "rating_inv E F json db" "rating_inv E F json later" "f64_ok F" "pool_key E json pool = Ok key"
  shows "rebuild_pool E F json db later pool
    = (if list_all (\<lambda>r. prr_pool r = pool) (pool_rows key db) \<and> replay_rows (pool_rows key later) = replay_rows (pool_rows key db)
       then Ok (replay_rows (pool_rows key db)) else Err RatRepCorrupt)"
proof -
  have "try_fold (rebuild_row E F json db pool) (0, []) (pool_rows key db)
      = (if list_all (\<lambda>r. prr_pool r = pool) (pool_rows key db)
         then Ok (length (pool_rows key db), replay_rows (pool_rows key db)) else Err RatRepCorrupt)"
    using rebuild_rows[OF assms(1,3), of "pool_rows key db" 0 "[]" pool] assms(1)
    by (auto simp: rating_inv_def replay_rows_def) (auto simp: pool_rows_def)
  moreover have "sort_key (\<lambda>r. (prr_sequence r, prr_period_id r)) (filter (\<lambda>r. prr_pool_key r = key) (rdb_periods db)) = pool_rows key db"
    using pool_rows_sorted[OF assms(1), of key] by (simp add: pool_rows_def)
  ultimately show ?thesis using validate_current_verdict[OF assms(2), of key] assms(4)
    by (auto simp: rebuild_pool_def corrupt_def)
qed

section \<open>A concrete period\<close>

definition demo_rating_period :: "nat \<Rightarrow> string \<Rightarrow> RatingPeriod" where
  "demo_rating_period n i = \<lparr>rpd_schema_version = 1, rpd_period_id = i, rpd_sequence = n,
     rpd_pool = \<lparr>rpl_language = ''en'', rpl_ruleset_id = ''english-v1'', rpl_ruleset_sha256 = replicate 64 (CHR ''a''), rpl_rated_format_policy = ''single''\<rparr>,
     rpd_matches = [], rpd_updates = [\<lparr>ru_entrant_id = ''one'',
       ru_previous = \<lparr>rv_rating_milli = 1500000, rv_deviation_milli = 350000, rv_volatility_nano = 60000000\<rparr>, ru_opponents = []\<rparr>]\<rparr>"

definition demo_pool_json :: pool_json where
  "demo_pool_json p = Some (string_bytes (rpl_language p))"

lemma demo_rating_derives:
  assumes "valid_id 256 i"
  shows "\<exists>d. derive_period ieee_f64 (demo_rating_period n i) = Ok d"
proof -
  let ?v = "\<lparr>rv_rating_milli = 1500000, rv_deviation_milli = 350000, rv_volatility_nano = 60000000\<rparr>"
  have ids: "valid_id 256 ''one''" "pool_valid (rpd_pool (demo_rating_period n i))"
    by (code_simp, unfold demo_rating_period_def, simp, code_simp)
  have v: "validate_rating ieee_f64 ?v = Ok ()"
    by (simp add: validate_rating_cases[OF ieee_f64_ok] rating_in_bounds_def)
  have "\<exists>w. update_rating ieee_f64 ?v [] = Ok w" by (rule ieee_update_unopposed) (simp add: rating_in_bounds_def)
  moreover have "validate_period ieee_f64 (demo_rating_period n i) = Ok ()"
    using assms ids v
    by (simp add: validate_period_def demo_rating_period_def RATING_SCHEMA_VERSION_def check_update_def check_opponents_def previous_ratings_def Let_def)
  ultimately show ?thesis by (auto simp: derive_period_def) (auto simp: demo_rating_period_def)
qed

lemma demo_pool_key: "\<exists>key. pool_key demo_env demo_pool_json (rpd_pool (demo_rating_period n i)) = Ok key"
proof -
  have "pool_valid (rpd_pool (demo_rating_period n i))" unfolding demo_rating_period_def by (simp, code_simp)
  then show ?thesis by (simp add: pool_key_def demo_pool_json_def)
qed

section \<open>Commits\<close>

lemma commit_check_fresh:
  assumes "derive_period F p = Ok d" "pool_key E json (rpd_pool p) = Ok key" "0 \<le> now"
    "rpd_period_id p \<notin> set (map prr_period_id (rdb_periods db))"
  shows "commit_check E F json db p now = Ok (Inl (key, d))"
proof -
  note v = derive_period_Ok(1)[OF assms(1)]
  have "List.find (\<lambda>r. prr_period_id r = rpd_period_id p) (rdb_periods db) = None" using assms(4) by (force simp: find_None_iff image_iff)
  then have "load_period E F json db (rpd_period_id p) = Err RatRepNotFound"
    using rating_validate_id_Ok[of "rpd_period_id p" "()"] validate_period_Ok(2)[OF v] by (simp add: load_period_def)
  then show ?thesis using assms v by (simp add: commit_check_def corrupt_def)
qed

lemma commit_check_known:
  assumes "rating_inv E F json db" "f64_ok F" "r \<in> set (rdb_periods db)" "rpd_period_id p = prr_period_id r" "derive_period F p = Ok d" "0 \<le> now"
  shows "commit_check E F json db p now = (if p = prr_period r then Ok (Inr (RatAlreadyApplied (stored_rating r))) else Err RatRepConflict)"
proof -
  have "derive_period F (prr_period r) = Ok (prr_derived r)"
    using assms(1,3) by (auto simp: rating_inv_def list_all_iff committed_def)
  then show ?thesis using load_committed[OF assms(1-3)] assms(4-6) derive_period_Ok(1)[OF assms(5)]
    by (auto simp: commit_check_def corrupt_def stored_rating_def)
qed

text \<open>
  Claim C38. A new rating period that derives is committed exactly when it has the next sequence number
  of its pool, starts from the current ratings of its entrants and rates no match the pool has rated;
  then the current rating of each of its entrants is the derived one and no other changes. Any other
  is refused as a conflict and leaves the tables as they were.
\<close>
theorem rating_commits_are_exact:
  assumes "rating_reachable E F json db" "f64_ok F" "derive_period F p = Ok d" "pool_key E json (rpd_pool p) = Ok key" "0 \<le> now"
    "rpd_sequence p < 2 ^ 63" "rpd_period_id p \<notin> set (map prr_period_id (rdb_periods db))"
  shows "commit_period E F json db p now = (if acceptable key p db
      then (commit_db key p d now db, Ok (RatApplied \<lparr>sr_period = p, sr_derived = d, sr_committed_at = now\<rparr>))
      else (db, Err RatRepConflict))
    \<and> (acceptable key p db \<longrightarrow> rating_step E F json db (commit_db key p d now db)
      \<and> (\<forall>key' e. current_get (rdb_current (commit_db key p d now db)) key' e
            = (case map_of d e of Some v \<Rightarrow> if key' = key then Some v else current_get (rdb_current db) key' e
               | None \<Rightarrow> current_get (rdb_current db) key' e)))"
proof -
  note inv = rating_reachable_inv[OF assms(1,2)]
  note commit = commit_insert_exact[OF inv assms(2,3,5,6), of key]
  have "rating_step E F json db (commit_db key p d now db)" if "acceptable key p db"
    using step_commit[OF assms(3,4,5), of db] commit that by simp
  moreover have "current_get (rdb_current (commit_db key p d now db)) key' e
      = (case map_of d e of Some v \<Rightarrow> if key' = key then Some v else current_get (rdb_current db) key' e
         | None \<Rightarrow> current_get (rdb_current db) key' e)" if a: "acceptable key p db" for key' e
  proof -
    have "current_get (rdb_current (commit_db key p d now db)) key' e = btree_get (replay_rows (pool_rows key' (commit_db key p d now db))) e"
      "current_get (rdb_current db) key' e = btree_get (replay_rows (pool_rows key' db)) e"
      using commit_current[OF inv assms(2,3) a] inv by (simp_all add: current_ok_def rating_inv_def)
    then show ?thesis using get_inserts[OF pool_replay_ok[OF inv] derive_period_Ok(4)[OF assms(3)], of key' e]
      by (auto simp: pool_rows_commit replay_snoc apply_row_def split: option.splits)
  qed
  ultimately show ?thesis using commit commit_check_fresh[OF assms(3-5,7)] by (simp add: commit_period_def)
qed

theorem rating_commits_are_exact_witness:
  "\<exists>d db. commit_period demo_env ieee_f64 demo_pool_json empty_rating_db (demo_rating_period 0 ''p0'') 5
      = (db, Ok (RatApplied \<lparr>sr_period = demo_rating_period 0 ''p0'', sr_derived = d, sr_committed_at = 5\<rparr>))
    \<and> commit_period demo_env ieee_f64 demo_pool_json empty_rating_db (demo_rating_period 1 ''p1'') 5 = (empty_rating_db, Err RatRepConflict)"
proof -
  have ids: "valid_id 256 ''p0''" "valid_id 256 ''p1''" by code_simp+
  obtain d d1 where d: "derive_period ieee_f64 (demo_rating_period 0 ''p0'') = Ok d" "derive_period ieee_f64 (demo_rating_period 1 ''p1'') = Ok d1"
    using demo_rating_derives ids by meson
  obtain k k1 where k: "pool_key demo_env demo_pool_json (rpd_pool (demo_rating_period 0 ''p0'')) = Ok k"
    "pool_key demo_env demo_pool_json (rpd_pool (demo_rating_period 1 ''p1'')) = Ok k1" using demo_pool_key by meson
  have e: "rating_reachable demo_env ieee_f64 demo_pool_json empty_rating_db" by (simp add: rating_reachable_def)
  have a: "acceptable k (demo_rating_period 0 ''p0'') empty_rating_db" "\<not> acceptable k1 (demo_rating_period 1 ''p1'') empty_rating_db"
    by (simp_all add: acceptable_def empty_rating_db_def demo_rating_period_def pool_rows_def replay_rows_def starts_from_def null_or_def)
  show ?thesis
    using rating_commits_are_exact[OF e ieee_f64_ok d(1) k(1), of 5] rating_commits_are_exact[OF e ieee_f64_ok d(2) k(2), of 5] a
    by (auto simp: empty_rating_db_def demo_rating_period_def)
qed

text \<open>
  Claim C39. A committed period is final: whatever is committed later, it loads as it was committed,
  committing it again returns it as already applied, and committing anything else under its identifier is
  a conflict; neither changes the tables.
\<close>
theorem rating_periods_are_final:
  assumes "rating_reachable E F json db" "f64_ok F" "r \<in> set (rdb_periods db)" "(rating_step E F json)\<^sup>*\<^sup>* db later" "0 \<le> now"
    "derive_period F p = Ok d" "rpd_period_id p = prr_period_id r"
  shows "load_period E F json later (prr_period_id r)
      = Ok \<lparr>sr_period = prr_period r, sr_derived = prr_derived r, sr_committed_at = prr_committed_at_ms r\<rparr>
    \<and> commit_period E F json later p now = (later, if p = prr_period r
      then Ok (RatAlreadyApplied \<lparr>sr_period = p, sr_derived = d, sr_committed_at = prr_committed_at_ms r\<rparr>) else Err RatRepConflict)"
proof -
  note inv = rating_reachable_inv[OF assms(1,2)]
  note inv' = rating_steps_inv[OF assms(4) inv assms(2)]
  have r: "r \<in> set (rdb_periods later)" using rating_steps_grow[OF assms(4) inv assms(2)] assms(3) by auto
  have "derive_period F (prr_period r) = Ok (prr_derived r)" using inv assms(3) by (auto simp: rating_inv_def list_all_iff committed_def)
  then show ?thesis
    using load_committed[OF inv' assms(2) r] commit_check_known[OF inv' assms(2) r assms(7,6,5)] assms(6)
    by (auto simp: commit_period_def stored_rating_def)
qed

lemma demo_rating_commit:
  "\<exists>d db. commit_period demo_env ieee_f64 demo_pool_json empty_rating_db (demo_rating_period 0 ''p0'') 5
      = (db, Ok (RatApplied \<lparr>sr_period = demo_rating_period 0 ''p0'', sr_derived = d, sr_committed_at = 5\<rparr>))
    \<and> rating_reachable demo_env ieee_f64 demo_pool_json db \<and> derive_period ieee_f64 (demo_rating_period 0 ''p0'') = Ok d
    \<and> (\<exists>r. rdb_periods db = [r] \<and> prr_period r = demo_rating_period 0 ''p0'' \<and> prr_period_id r = ''p0''
        \<and> pool_key demo_env demo_pool_json (rpd_pool (demo_rating_period 0 ''p0'')) = Ok (prr_pool_key r))"
proof -
  let ?p = "demo_rating_period 0 ''p0''"
  have id: "valid_id 256 ''p0''" by code_simp
  obtain d where d: "derive_period ieee_f64 ?p = Ok d" using demo_rating_derives[OF id] by blast
  obtain k where k: "pool_key demo_env demo_pool_json (rpd_pool ?p) = Ok k" using demo_pool_key by blast
  have e: "rating_reachable demo_env ieee_f64 demo_pool_json empty_rating_db" by (simp add: rating_reachable_def)
  have a: "acceptable k ?p empty_rating_db" "rpd_sequence ?p < 2 ^ 63" "rpd_period_id ?p \<notin> set (map prr_period_id (rdb_periods empty_rating_db))"
    by (simp_all add: acceptable_def empty_rating_db_def demo_rating_period_def pool_rows_def replay_rows_def starts_from_def null_or_def)
  note c = commit_insert_exact[OF empty_rating_inv[of demo_env ieee_f64 demo_pool_json] ieee_f64_ok d, of 5 k]
  have "commit_period demo_env ieee_f64 demo_pool_json empty_rating_db ?p 5
      = (commit_db k ?p d 5 empty_rating_db, Ok (RatApplied \<lparr>sr_period = ?p, sr_derived = d, sr_committed_at = 5\<rparr>))"
    using c a commit_check_fresh[OF d k _ a(3), of 5] by (simp add: commit_period_def)
  moreover have "rating_step demo_env ieee_f64 demo_pool_json empty_rating_db (commit_db k ?p d 5 empty_rating_db)"
    using step_commit[OF d k, of 5 empty_rating_db] c a by simp
  then have "rating_reachable demo_env ieee_f64 demo_pool_json (commit_db k ?p d 5 empty_rating_db)"
    using e by (auto simp: rating_reachable_def)
  moreover have "rdb_periods (commit_db k ?p d 5 empty_rating_db) = [period_row k ?p d 5]" by (simp add: empty_rating_db_def)
  moreover have "rpd_period_id ?p = ''p0''" by (simp add: demo_rating_period_def)
  ultimately show ?thesis using d k by (metis period_row_simps(1,2,4))
qed

theorem rating_periods_are_final_witness:
  "\<exists>db stored. load_period demo_env ieee_f64 demo_pool_json db ''p0'' = Ok stored \<and> sr_period stored = demo_rating_period 0 ''p0''
    \<and> commit_period demo_env ieee_f64 demo_pool_json db (demo_rating_period 0 ''p0'') 9 = (db, Ok (RatAlreadyApplied stored))"
proof -
  obtain d db r where db: "rating_reachable demo_env ieee_f64 demo_pool_json db" "derive_period ieee_f64 (demo_rating_period 0 ''p0'') = Ok d"
    "rdb_periods db = [r]" "prr_period r = demo_rating_period 0 ''p0''" "prr_period_id r = ''p0''" using demo_rating_commit by blast
  have "rpd_period_id (demo_rating_period 0 ''p0'') = prr_period_id r" by (simp add: db(5) demo_rating_period_def)
  moreover have "prr_derived r = d"
    using rating_reachable_inv[OF db(1) ieee_f64_ok] db(2-4) by (auto simp: rating_inv_def committed_def)
  ultimately show ?thesis using rating_periods_are_final[OF db(1) ieee_f64_ok _ _ _ db(2), of r db 9] db(3-5)
    by (intro exI[of _ db] exI[of _ "stored_rating r"]) (auto simp: stored_rating_def)
qed

section \<open>Rebuilding\<close>

text \<open>
  Claim C37. The current ratings of a pool are the replay of its committed periods: rebuilding
  returns exactly them, in the order of the entrants, as long as no commit changed them between its two
  reads and no other pool has the same key; otherwise it reports corruption.
\<close>
theorem ratings_are_rebuilt:
  assumes "rating_reachable E F json db" "(rating_step E F json)\<^sup>*\<^sup>* db later" "f64_ok F" "pool_key E json pool = Ok key"
  shows "rebuild_pool E F json db later pool
      = (if list_all (\<lambda>r. prr_pool r = pool) (pool_rows key db) \<and> replay_rows (pool_rows key later) = replay_rows (pool_rows key db)
         then Ok (replay_rows (pool_rows key db)) else Err RatRepCorrupt)
    \<and> btree_ok (replay_rows (pool_rows key db))
    \<and> (\<forall>e. btree_get (replay_rows (pool_rows key db)) e = current_get (rdb_current db) key e)"
proof -
  note inv = rating_reachable_inv[OF assms(1,3)]
  have "current_ok db" using inv by (simp add: rating_inv_def)
  then show ?thesis
    using rebuild_exact[OF inv rating_steps_inv[OF assms(2) inv assms(3)] assms(3,4)] pool_replay_ok[OF inv]
    by (simp add: current_ok_def)
qed

theorem ratings_are_rebuilt_witness:
  "\<exists>db rs. rebuild_pool demo_env ieee_f64 demo_pool_json db db (rpd_pool (demo_rating_period 0 ''p0'')) = Ok rs \<and> rdb_periods db \<noteq> []"
proof -
  obtain db r where db: "rating_reachable demo_env ieee_f64 demo_pool_json db" "rdb_periods db = [r]" "prr_period r = demo_rating_period 0 ''p0''"
    "pool_key demo_env demo_pool_json (rpd_pool (demo_rating_period 0 ''p0'')) = Ok (prr_pool_key r)" using demo_rating_commit by blast
  have "committed demo_env ieee_f64 demo_pool_json r"
    using rating_reachable_inv[OF db(1) ieee_f64_ok] db(2) by (simp add: rating_inv_def)
  then have "prr_pool r = rpd_pool (demo_rating_period 0 ''p0'')" using db(3) by (auto simp: committed_def)
  then show ?thesis using ratings_are_rebuilt[OF db(1) _ ieee_f64_ok db(4), of db] db(2) by (auto simp: pool_rows_def)
qed

section \<open>Bounds\<close>

text \<open>
  Claim C40. Ratings stay within their bounds: validation accepts a rating exactly when its numbers
  are within the documented ranges, an update ends with a rating within them or with an error, whatever its
  arithmetic does, and so every current rating ever stored is within them.
\<close>
theorem ratings_stay_in_bounds:
  assumes "f64_ok F" "rating_reachable E F json db"
  shows "(validate_rating F v = Ok () \<longleftrightarrow> rating_in_bounds v)
    \<and> (update_rating F v os = Err RatInvalidInput \<or> update_rating F v os = Err RatNumericalFailure
       \<or> (\<exists>w. update_rating F v os = Ok w \<and> rating_in_bounds w))
    \<and> (current_get (rdb_current db) key e = Some w \<longrightarrow> rating_in_bounds w)"
proof -
  have c: "current_ok db" using rating_reachable_inv[OF assms(2,1)] by (simp add: rating_inv_def)
  have "rating_in_bounds w" if found: "current_get (rdb_current db) key e = Some w"
  proof -
    obtain r where "r \<in> set (rdb_current db)" "column_value (crr_rating r) = w"
      using found c current_get_Some[of "rdb_current db" key e w] by (auto simp: current_ok_def)
    then show ?thesis using c unfolding current_ok_def by (metis column_value_columns)
  qed
  moreover have "update_rating F v os = Err RatInvalidInput \<or> update_rating F v os = Err RatNumericalFailure
       \<or> (\<exists>w. update_rating F v os = Ok w \<and> rating_in_bounds w)"
    using update_rating_result[OF assms(1), of v os] by (cases "update_rating F v os") (auto intro: RatingError.exhaust)
  ultimately show ?thesis using validate_rating_iff[OF assms(1)] by blast
qed

theorem ratings_stay_in_bounds_witness:
  "\<exists>db w. rating_reachable demo_env ieee_f64 demo_pool_json db
    \<and> update_rating ieee_f64 \<lparr>rv_rating_milli = 1500000, rv_deviation_milli = 350000, rv_volatility_nano = 60000000\<rparr> [] = Ok w \<and> rating_in_bounds w"
proof -
  obtain d db where db: "rating_reachable demo_env ieee_f64 demo_pool_json db" "derive_period ieee_f64 (demo_rating_period 0 ''p0'') = Ok d"
    using demo_rating_commit by blast
  obtain w where "update_rating ieee_f64 \<lparr>rv_rating_milli = 1500000, rv_deviation_milli = 350000, rv_volatility_nano = 60000000\<rparr> [] = Ok w"
    using derive_period_Ok(6)[OF db(2)] by (auto simp: demo_rating_period_def)
  moreover from this have "rating_in_bounds w"
    using ratings_stay_in_bounds[OF ieee_f64_ok db(1), of "\<lparr>rv_rating_milli = 1500000, rv_deviation_milli = 350000, rv_volatility_nano = 60000000\<rparr>" "[]"]
    by auto
  ultimately show ?thesis using db(1) by blast
qed

end
