(* ===== verification/Spec2Isabelle.thy ===== *)
theory Spec2Isabelle
  imports DemoTable TournamentLive JobTheorems SchedulerPromises StatisticsTheorems RatingTheorems
begin

text \<open>
  Word Arena: a verification of the rules engine, the lexicon format, tournament schedules, the job
  queue, the execution scheduler, match statistics and ratings.

  \<^bold>\<open>The program.\<close> Word Arena runs word-placement games between humans and agents. Its rules live in
  \<^verbatim>\<open>crates/engine\<close>: rulesets, a seeded generator, the deal, and the \<^verbatim>\<open>Game\<close> aggregate, which accepts
  four moves, records a journal of events, and can be rebuilt from that journal. Words are
  looked up in packs described by \<^verbatim>\<open>crates/lexicon\<close>. \<^verbatim>\<open>crates/application\<close> schedules tournaments
  between entrants, and each scheduled match is one game of the engine, dealt from the seed whose
  commitment the schedule carries. Matches run as jobs: \<^verbatim>\<open>application/src/job.rs\<close> is the contract of a
  leased queue and of its workers, \<^verbatim>\<open>application/src/scheduler.rs\<close> of the admission of executions
  under concurrency and rate limits and of the publication of results; \<^verbatim>\<open>crates/persistence\<close>
  implements both on SQLite. The public events of a finished game become two observations, one of each
  seat (\<^verbatim>\<open>application/src/statistics.rs\<close>), which are recorded once and aggregated by queries
  (\<^verbatim>\<open>persistence/src/statistics_repository.rs\<close>). Rating periods over
  the results of a pool are derived by \<^verbatim>\<open>application/src/rating.rs\<close> and committed by
  \<^verbatim>\<open>persistence/src/rating_repository.rs\<close>. The other crates store, transport and display what these
  compute.

  \<^bold>\<open>Conventions.\<close> A fallible function returns \<open>('e, 'a) outcome\<close> (Prelude): \<open>Ok\<close>, \<open>Err\<close> for the
  error value of the source, \<open>Panic\<close> for an index out of range, an underflow or an \<^verbatim>\<open>expect\<close> that
  fails, \<open>Diverge\<close> for a loop that does not end. The operator \<^verbatim>\<open>?\<close> is \<open>rbind\<close>, a loop with early
  return is \<open>try_fold\<close>. Unsigned machine integers are \<open>nat\<close> with the checked and saturating
  operations of the source at their width, signed ones \<open>int\<close> with a range check; the generator
  works on \<open>64 word\<close>. A \<^verbatim>\<open>String\<close> is the list of its UTF-8 bytes. Third-party code is the record
  \<open>env\<close> (SHA-256, the Unicode tables, semantic versions) and the argument \<open>json\<close> of the schedulers;
  \<open>unicode_ok\<close>, its documented behaviour on ASCII, and \<open>sha256_ok\<close>, that a digest has 32 bytes, are the
  hypotheses on it; the third hypothesis of the development is \<open>f64_ok\<close>, on floating point, which Binary64
  proves of IEEE binary64 arithmetic. A database is a record of tables, a table the list of its rows, and its \<^verbatim>\<open>CHECK\<close>, unique and foreign key constraints are
  tested when a row is written; a repository call is a deferred transaction or one statement;
  SQLite has one writer at a time and refuses the others as unavailable, so the effect of
  concurrent processes is that of a sequence of calls (\<open>job_step\<close>, \<open>sched_step\<close>), and a call that fails leaves
  the tables as they were (\<open>transaction\<close>). JSON columns hold the value they encode; the round trip of a
  job payload through \<^verbatim>\<open>serde_json\<close> is the parameter \<open>canonical\<close>.

  \<^bold>\<open>Theories and sources.\<close>
  \<^item> Prelude, RustText: outcomes, checked arithmetic, strings, hex, the environment.
  \<^item> Lexicon: \<^verbatim>\<open>lexicon/src/{key,manifest,index,compatibility}.rs\<close>: normalised keys, the manifest
    schema, the key stream of an index, pack compatibility.
  \<^item> Model, Ruleset, Deal: \<^verbatim>\<open>engine/src/{model,language,ruleset,random}.rs\<close>: seats, coordinates,
    tiles, the two committed rulesets and their validation, the generator, rejection sampling,
    shuffle, the opening deal and tile conservation.
  \<^item> GameTypes, Placement, WordScan, Game, Replay: \<^verbatim>\<open>engine/src/game.rs\<close>. GameTypes holds the
    records and events, Placement \<^verbatim>\<open>prepare_placement\<close> and all it calls (ownership, line,
    contiguity, connection, words, scores), WordScan the theory of the word scan, Game creation and
    the moves (\<^verbatim>\<open>play_tiles\<close>, \<^verbatim>\<open>exchange_tiles\<close>, \<^verbatim>\<open>pass\<close>, \<^verbatim>\<open>resign\<close>) with final scores, Replay
    \<^verbatim>\<open>replay\<close>, \<^verbatim>\<open>replay_public\<close>, \<^verbatim>\<open>resume\<close>, the snapshots and the projections.
  \<^item> GameInv, GameSafety, Endgame, ReplaySound, Progress, WordRuns, Legality: the lemmas about games. WordRuns
    states on the board alone which words a move forms.
  \<^item> DemoGame, DemoTable: a concrete game, to which the theorems are applied.
  \<^item> Pairing, Tournament: \<^verbatim>\<open>application/src/tournament.rs\<close>: the circle method, Swiss byes and the
    Swiss search; specifications, the schedule builder, static and Swiss schedules, lifecycles.
  \<^item> TournamentSpecs, TournamentFair, TournamentProps, TournamentLive: the lemmas and theorems about
    schedules.
  \<^item> Sql: integer and text columns, guarded updates, transactions.
  \<^item> Jobs: \<^verbatim>\<open>application/src/job.rs\<close>, \<^verbatim>\<open>persistence/src/job_repository.rs\<close> and
    \<^verbatim>\<open>migrations/0009_jobs.sql\<close>: enqueue, claim, heartbeat, completion, cancellation, recovery of
    expired leases, queries, the worker. JobInv is the invariant of the tables, JobProps the interface
    \<open>job_queue\<close> and its interpretation, JobLive what every call returns, JobTheorems the theorems.
  \<^item> TokenBucket, Scheduler: \<^verbatim>\<open>application/src/scheduler.rs\<close>,
    \<^verbatim>\<open>persistence/src/scheduler_repository.rs\<close> and \<^verbatim>\<open>migrations/0010_scheduler_controls.sql\<close>:
    the integer token bucket; configuration, cancellation, acquisition, heartbeat, release, expiry and
    publication. SchedulerInv is the invariant, SchedulerAcq the theory of acquisition, SchedulerRate of
    the rate over time, SchedulerTheorems and SchedulerPromises the theorems.
  \<^item> OrderedMap: \<^verbatim>\<open>BTreeMap\<close>, with the interface \<open>ordered_map\<close> and its interpretation.
  \<^item> Statistics, Aggregate, StatisticsStore: \<^verbatim>\<open>application/src/statistics.rs\<close>,
    \<^verbatim>\<open>persistence/src/statistics_repository.rs\<close> and \<^verbatim>\<open>migrations/0012_statistics.sql\<close>: the observations
    of a match, filters and aggregation, the two tables. Recording reads before its transaction, so
    its check and its insertion are separate and \<open>stat_step\<close> is the insertion alone.
  \<^item> GameJournal, StatisticsFacts, StatisticsGames, AggregateFacts, StatisticsStoreFacts,
    ObservationTypes, StatisticsTheorems: what the journals of games hold, what is counted, that every
    finished game of two seats is accepted, the figures, the invariant of the tables, and the theorems.
  \<^item> Rating, RatingStore: \<^verbatim>\<open>application/src/rating.rs\<close>, \<^verbatim>\<open>persistence/src/rating_repository.rs\<close> and
    \<^verbatim>\<open>migrations/0011_ratings.sql\<close>: Glicko-2 over an abstract \<^verbatim>\<open>f64\<close> (the record \<open>f64\<close>, with \<open>f64_ok\<close> what
    the bounds rely on), the validation of periods, the five tables. RatingFacts holds the bounds and what
    a valid period is, Binary64 the arithmetic of IEEE binary64 with the proof that it satisfies \<open>f64_ok\<close>,
    RatingInv and RatingCommit the invariant and the exact behaviour of a commit, RatingTheorems the
    theorems, applied to IEEE binary64.

  \<^bold>\<open>What is shown.\<close> The game invariant \<open>game_inv\<close> (tiles conserved, counts true, journal without a
  gap, a result exactly when the game is over) holds in every reachable game, \<open>reachable\<close> being the
  inductive closure of creation under accepted moves. Under it no move panics; an exchange is the
  only move that may not return, when the generator rejects for ever, and Deal says exactly when
  that is. Journals are exact: what a reachable game records replays to that game, and what replays
  was recorded by a reachable game. Accepted placements are legal in the sense of Legality, which
  does not mention the code, and score every word they form, cross-words included; words are maximal
  runs; games end when the rules say and after at
  most 619 moves. Projections to a seat do not depend on what it must not see. Schedules cover
  every pair once per cycle, are balanced in seats, never double-book, consume seeds exactly, exist
  whenever the specification is valid and exactly seeded; Swiss search finds a pairing without
  rematch whenever there is one, and the Swiss bye goes to the last in the standings without one.

  For jobs: the tables satisfy their invariant after any calls of any processes; a claim takes the
  first job that is due, in the order of the queue, and gives a fresh lease; only the holder of the
  current lease can heartbeat or complete, a worker that lost its lease changes nothing, a completion is
  applied once and returned unchanged when it is repeated, and a job that is done stays done; a
  completion in time is applied, or refused after a cancellation request; an enqueue under the key of a
  stored job changes nothing, returns that job for the same input and is a conflict for another content. For the scheduler: no
  resource ever exceeds its capacity of live executions; refilling is exact, however the interval is
  cut into calls; a refused request is told the first time at which tokens suffice; over any
  interval the executions admitted are at most the burst and the tokens of the interval; a result is
  published once and never replaced; a cancelled tournament starts and publishes nothing.

  For statistics: every finished game of two seats is accepted, and its observations count its public
  events exactly; it is recorded once, whatever other processes record; a query equals the aggregation
  of all that was recorded, in any order, with exact sums and rounded rates and averages. Two limits of the code
  are theorems: a source identifier of more than 249 bytes is recorded and then makes every query fail,
  and an event of a third seat in a history of two scores is not refused.

  For ratings: every rating is within its documented bounds, whatever the floating-point functions
  return; a period is committed exactly when it continues the history of its pool and is final from then
  on; the current ratings are the replay of the committed periods, and a rebuild returns exactly them, or
  reports corruption when a commit came between its two reads.

  \<^bold>\<open>Loops and bounds.\<close> Structural loops are folds. \<^verbatim>\<open>uniform_below\<close> and the word scans are
  \<open>partial_function (option)\<close>: \<open>None\<close> is a run that does not end. For the scans it is excluded; for
  \<^verbatim>\<open>uniform_below\<close> the exact condition is proved, and it becomes \<open>Diverge\<close> of the deal and of exchange.
  There is no fuel; the two loops of \<^verbatim>\<open>solve_volatility\<close> count to ten thousand as the source does. 619
  bounds the moves because six scoreless turns in a row end a game and at most one hundred tiles and
  blanks can be placed.

  \<^bold>\<open>Not modelled.\<close> Parsing and printing of TOML and JSON (the committed fixtures are written as
  data, serialised bytes are parameters); SHA-256; the FST container of a lexicon and file access
  of packs and installed packs; the asynchronous application service, capabilities and exports;
  the precision of \<^verbatim>\<open>exp\<close> and \<^verbatim>\<open>ln\<close>; failures of the database connection; the other
  SQL repositories, the agent runtime, the lexicon builder, the server and command line, build tasks
  and the web client. These are I/O, concurrency and generated data around the rules above.
\<close>

section \<open>Journals rebuild games\<close>

text \<open>
  Claim C1. A finished game's replay bundle, replayed against its lexicon, rebuilds the game
  exactly: every reachable game, any mix of placements, exchanges, passes and a resignation,
  public state, racks, bag, events and private events included.
\<close>
theorem replay_rebuilds_game:
  assumes "reachable E g" and "unicode_ok E" and "replay_bundle E g = Some bundle"
  shows "replay E bundle (Some (g_lexicon g)) = Ok g"
  using replay_journal[OF assms(1,2)] assms(3) by (auto simp: replay_bundle_def split: if_splits)

theorem replay_rebuilds_game_witness:
  "\<exists>g bundle. reachable demo_env g \<and> unicode_ok demo_env \<and> replay_bundle demo_env g = Some bundle
     \<and> replay demo_env bundle (Some (g_lexicon g)) = Ok g"
  using demo_resigns replay_rebuilds_game demo_env_unicode_ok by blast

text \<open>
  Claim C6. Nothing else replays: a bundle that is accepted names a game that was created and
  played by legal moves, its events are that game's events, its private transitions are that
  game's up to order, and every other field is that game's.
\<close>
theorem replay_accepts_only_games:
  assumes "replay E bundle lexicon = Ok g"
  shows "reachable E g \<and> lexicon = Some (g_lexicon g)
    \<and> mset (rb_private_events bundle) = mset (g_private_events g)
    \<and> bundle = (journal_bundle E g)\<lparr>rb_private_events := rb_private_events bundle\<rparr>"
  using replay_sound[OF assms] by blast

theorem replay_accepts_only_games_witness:
  "replay demo_env (journal_bundle demo_env demo_game) (Some (g_lexicon demo_game)) = Ok demo_game
   \<and> reachable demo_env demo_game"
  using replay_accepts_only_games[OF replay_journal[OF demo_reachable demo_env_unicode_ok]]
    replay_journal[OF demo_reachable demo_env_unicode_ok] by blast

text \<open>
  Claim C7. A snapshot is resumed exactly when it is the snapshot of a reachable game and the
  ruleset and lexicon of that game are offered; the game resumed is that game, finished or
  not.
\<close>
theorem resume_exact:
  assumes "unicode_ok E"
  shows "resume E s r lexicon = Ok g \<longleftrightarrow>
    reachable E g \<and> r = g_ruleset g \<and> lexicon = Some (g_lexicon g) \<and> s = snapshot E g"
  using resume_sound[of E s r lexicon g] resume_snapshot[OF _ assms, of g] by auto

theorem resume_exact_witness:
  "resume demo_env (snapshot demo_env demo_game) (g_ruleset demo_game) (Some (g_lexicon demo_game)) = Ok demo_game"
  using resume_exact[OF demo_env_unicode_ok] demo_reachable by blast

text \<open>
  Claim C8. The public replay carries no private transition and still determines every hidden
  value: it is accepted exactly when it is the public journal of a reachable game, and then
  it rebuilds that game, racks and bag included, from the seed and the public events.
\<close>
theorem public_replay_exact:
  assumes "unicode_ok E"
  shows "replay_public E b lexicon = Ok g \<longleftrightarrow>
    reachable E g \<and> lexicon = Some (g_lexicon g) \<and> b = public_bundle (journal_bundle E g)"
  using replay_public_sound[of E b lexicon g] replay_public_journal[OF _ assms, of g] by auto

theorem public_replay_exact_witness:
  "replay_public demo_env (public_bundle (journal_bundle demo_env demo_game)) (Some (g_lexicon demo_game)) = Ok demo_game"
  using public_replay_exact[OF demo_env_unicode_ok] demo_reachable by blast

section \<open>Safety of the moves\<close>

text \<open>
  Claim C3. Every reachable game satisfies the game invariant: a built-in ruleset, two to
  four seats, every tile of the distribution in exactly one of bag, racks and board, racks of
  at most seven, true public counts, gapless event numbers, a result exactly when the game is
  over, and pinned identities.
\<close>
theorem reachable_games_are_valid:
  assumes "reachable E g"
  shows "game_inv E g"
  using assms by (rule reachable_inv)

theorem reachable_games_are_valid_witness: "reachable demo_env demo_game \<and> game_inv demo_env demo_game"
  using reachable_games_are_valid[OF demo_reachable] demo_reachable by blast

text \<open>
  Claim C2. No move on a valid game panics, and none is refused for an inconsistent tile
  state: the conservation check, the rack capacity, the counts and the seat lookups inside a
  move always succeed. Only an exchange can fail to return, when its reshuffle draws
  rejected values for ever.
\<close>
theorem moves_never_panic:
  assumes "game_inv E g" and "unicode_ok E"
  shows "apply_move E g player version move \<noteq> Panic
    \<and> (\<forall>reason. apply_move E g player version move \<noteq> Err (InvalidTileState reason))
    \<and> (apply_move E g player version move = Diverge \<longrightarrow> (\<exists>ids. move = Exchange ids))"
proof -
  have inv: "table_ok g" "tiles_ok E g" using assms(1) by (simp_all add: game_inv_def)
  have "sound (\<exists>ids. move = Exchange ids) (apply_move E g player version move)"
    using sound_play[OF inv assms(2)] sound_exchange[OF inv] sound_pass[OF inv(1)] sound_resign[OF inv(1)]
    by (cases move) simp_all
  then show ?thesis by (auto simp: sound_def)
qed

theorem moves_never_panic_witness:
  "game_inv demo_env demo_game \<and> apply_move demo_env demo_game One 0 Pass \<noteq> Panic"
  using moves_never_panic[OF demo_inv demo_env_unicode_ok] demo_inv by blast

text \<open>
  A move is checked in this order: a finished game refuses everything, then a
  seat out of turn is refused, then a stale version, whatever the move is.
\<close>
theorem moves_are_guarded:
  "(gs_phase (g_state g) = Finished \<longrightarrow> apply_move E g player version move = Err GameFinished)
   \<and> (gs_phase (g_state g) = Active \<and> player \<noteq> gs_current_player (g_state g) \<longrightarrow>
      apply_move E g player version move = Err (WrongPlayer (gs_current_player (g_state g)) player))
   \<and> (gs_phase (g_state g) = Active \<and> player = gs_current_player (g_state g) \<and> version \<noteq> gs_version (g_state g) \<longrightarrow>
      apply_move E g player version move = Err (StaleVersion (gs_version (g_state g)) version))"
  by (cases move) (auto simp: play_tiles_def exchange_tiles_def pass_def resign_def validate_action_def)

theorem moves_are_guarded_witness:
  "apply_move demo_env demo_game Two 0 Pass = Err (WrongPlayer One Two)"
  using moves_are_guarded[of demo_game demo_env Two 0 Pass] by (simp add: demo_state)

section \<open>Placements\<close>

text \<open>
  Claim C4. A placement that is accepted puts the seat's own tiles, each once and with its own
  face, on distinct free squares of one row or column without a gap, through the centre on an
  empty board and next to a tile otherwise. The words it reports are exactly the words it forms,
  each once: the maximal runs of at least two occupied squares of a row or column that contain a
  new tile, cross-words included. There is at least one, all are in the lexicon, and the score is
  the sum of their scores with premiums counted only under new tiles, plus the bonus when the
  whole rack is placed.
\<close>
theorem accepted_placements_are_legal:
  assumes "seat_index player < length (g_racks g)" and "prepare_placement E g player placements = Ok pr"
  shows "list_all (own_placement g (g_racks g ! seat_index player)) (pr_placements pr)
    \<and> distinct (map pl_tile_id (pr_placements pr)) \<and> distinct (map pl_coordinate (pr_placements pr))
    \<and> in_line (pr_placements pr) \<and> gap_free (g_state g) (pr_placements pr)
    \<and> connects (g_state g) (pr_placements pr)
    \<and> pr_words pr \<noteq> [] \<and> list_all (word_ok E g (pr_placements pr)) (pr_words pr)
    \<and> distinct (map fw_coordinates (pr_words pr))
    \<and> set (map fw_coordinates (pr_words pr)) = {cs. formed_word (g_state g) (pr_placements pr) cs}
    \<and> pr_score pr = words_score (pr_words pr)
        + (if length (pr_placements pr) = gr_rack_capacity (rs_game (g_ruleset g))
           then gr_bingo_bonus (rs_game (g_ruleset g)) else 0)"
  using prepared_legal[OF assms] by blast

theorem accepted_placements_are_legal_witness:
  "\<exists>pr. prepare_placement demo_env table_game One table_move = Ok pr \<and> pr_score pr = 8
     \<and> connects (g_state table_game) (pr_placements pr) \<and> in_line (pr_placements pr)"
proof -
  have "seat_index One < length (g_racks table_game)" by (simp add: table_game_def)
  from accepted_placements_are_legal[OF this table_prepared] table_prepared show ?thesis by simp
qed

text \<open>
  Claim C9. The word through an occupied square along a row or column is the maximal run of
  occupied squares around it, in order, and the scan for it ends.
\<close>
theorem words_are_maximal_runs:
  assumes "axis dr dc" and "in_bounds origin BOARD_SIZE BOARD_SIZE"
    and "tile_with_proposed s proposed origin \<noteq> None"
  shows "\<exists>a b. word_segment s proposed origin dr dc =
        Ok (map (\<lambda>k. the (step_at dr dc (int (row origin)) (int (column origin)) k)) [- int a..int b])
    \<and> (\<forall>k \<in> {- int a..int b}. filled (\<lambda>c. tile_with_proposed s proposed c \<noteq> None)
        (step_at dr dc (int (row origin)) (int (column origin)) k))
    \<and> \<not> filled (\<lambda>c. tile_with_proposed s proposed c \<noteq> None)
        (step_at dr dc (int (row origin)) (int (column origin)) (- int a - 1))
    \<and> \<not> filled (\<lambda>c. tile_with_proposed s proposed c \<noteq> None)
        (step_at dr dc (int (row origin)) (int (column origin)) (int b + 1))"
  using assms by (rule word_segment_run)

theorem words_are_maximal_runs_witness:
  "\<exists>cs. word_segment (g_state table_game) table_tiles (Coordinate 7 7) 0 1 = Ok cs"
proof -
  have "axis 0 1" "in_bounds (Coordinate 7 7) BOARD_SIZE BOARD_SIZE"
    "tile_with_proposed (g_state table_game) table_tiles (Coordinate 7 7) \<noteq> None"
    by (simp_all add: axis_def in_bounds_def BOARD_SIZE_def tile_with_proposed_def proposed_get_def)
  from words_are_maximal_runs[OF this] show ?thesis by blast
qed

text \<open>
  A tile on the board keeps its square, its letter and its identity through every
  later move.
\<close>
theorem placed_tiles_stay:
  assumes "game_inv E g" and "unicode_ok E" and "game_step E g ev g'"
    and "gs_board (g_state g) ! i = Some tile"
  shows "gs_board (g_state g') ! i = Some tile"
  using assms by (rule step_keeps_tiles)

theorem placed_tiles_stay_witness:
  "\<exists>ev g' tile. game_inv demo_env mid_game \<and> game_step demo_env mid_game ev g'
     \<and> gs_board (g_state mid_game) ! 112 = Some tile \<and> gs_board (g_state g') ! 112 = Some tile"
  using placed_tiles_stay[OF mid_inv demo_env_unicode_ok _ mid_game_simps(9)] mid_inv mid_pass mid_game_simps(9)
    step_pass by blast

section \<open>Turns and endings\<close>

text \<open>
  Claim C5. Every game is short: after at most 619 moves it is over, since six scoreless turns
  end it and every other turn puts at least one of at most 102 tiles on the board. In
  particular the version counter never overflows.
\<close>
theorem games_are_finite:
  assumes "reachable E g" and "unicode_ok E"
  shows "gs_version (g_state g) \<le> 619 \<and> length (g_events g) \<le> 620 \<and> next_version g \<noteq> Err VersionOverflow"
proof -
  have inv: "game_inv E g" by (rule reachable_inv[OF assms(1)])
  have v: "gs_version (g_state g) \<le> 619"
    using reachable_length_ok[OF assms] placed_bound[OF inv] by (auto simp: length_ok_def split: if_splits)
  moreover have "length (g_events g) = Suc (gs_version (g_state g))"
    using inv by (metis game_inv_def log_ok_def length_map length_upt diff_zero)
  moreover have "next_version g = Ok (Suc (gs_version (g_state g)))" using v by (simp add: next_version_Ok)
  ultimately show ?thesis by simp
qed

theorem games_are_finite_witness: "reachable demo_env demo_game \<and> length (g_events demo_game) \<le> 620"
  using games_are_finite[OF demo_reachable demo_env_unicode_ok] demo_reachable by blast



text \<open>
  After every move but a resignation the turn belongs to the next seat, cyclically.
\<close>
theorem turns_rotate:
  assumes "game_step E g ev g'" and "\<not> (\<exists>p r. ge_kind ev = Resigned p r)"
  shows "seat_index (gs_current_player (g_state g')) =
    Suc (seat_index (gs_current_player (g_state g))) mod length (g_racks g)"
  using step_rotates[OF assms(1)] assms(2) by blast

theorem turns_rotate_witness:
  "\<exists>ev g'. game_step demo_env mid_game ev g' \<and> seat_index (gs_current_player (g_state g')) = 1"
proof -
  obtain g' ev where p: "pass mid_game One 0 = Ok (g', ev)" "ge_kind ev = Passed One 1 Two None" using mid_pass by blast
  then have s: "game_step demo_env mid_game ev g'" by (blast intro: step_pass)
  from turns_rotate[OF s] p(2) s show ?thesis by auto
qed

text \<open>
  The winner is the one eligible seat whose score is strictly above every other
  eligible seat's; without such a seat there is none.
\<close>
theorem winner_is_strictly_best:
  assumes "length scores \<le> 4"
  shows "(\<forall>s. unique_winner scores excluded = Some s \<longleftrightarrow> strict_best scores excluded s)
    \<and> (unique_winner scores excluded = None \<longleftrightarrow> \<not> (\<exists>s. strict_best scores excluded s))"
  using unique_winner_spec[OF assms] by (metis not_None_eq)

theorem winner_is_strictly_best_witness:
  "unique_winner [3, 7, 7] (Some Three) = Some Two \<and> strict_best [3, 7, 7] (Some Three) Two"
proof -
  have "unique_winner [3, 7, 7] (Some Three) = Some Two" by (simp add: unique_winner_def list_get_def SEAT_ALL_def)
  then show ?thesis using winner_is_strictly_best[of "[3, 7, 7]" "Some Three"] by simp
qed

text \<open>
  Claim C11. When a rack is emptied the final adjustment moves points between seats and
  creates none; at the scoreless limit each seat loses exactly the value of its own rack.
\<close>
theorem final_adjustments:
  assumes "final_scores r scores racks active reason = Ok scores'" and "seat_active (length racks) = Some active"
    and "length scores = length racks"
  shows "(\<forall>out. reason = RackEmptied out \<longrightarrow> sum_list scores' = sum_list scores)
    \<and> (reason = ScorelessTurns \<longrightarrow> (\<forall>i < length racks. scores' ! i = scores ! i - rack_points r (racks ! i)))
    \<and> (\<forall>p. reason = Resignation p \<longrightarrow> scores' = scores)"
  using assms rack_emptied_zero_sum scoreless_scores by (auto simp: final_scores_def)

theorem final_adjustments_witness:
  "\<exists>scores'. final_scores (the_builtin EnglishV1) [10, 20]
      [[\<lparr>pt_id = 9, pt_face = Letter ''B''\<rparr>], []] [One, Two] (RackEmptied Two) = Ok scores' \<and> sum_list scores' = 30"
proof -
  let ?racks = "[[\<lparr>pt_id = 9, pt_face = Letter ''B''\<rparr>], []] :: Rack list"
  have "seat_active (length ?racks) = Some [One, Two]" by (simp add: seat_active_def SEAT_ALL_def)
  moreover have f: "final_scores (the_builtin EnglishV1) [10, 20] ?racks [One, Two] (RackEmptied Two) = Ok [7, 23]"
    by (simp add: final_scores_def deduct_def index_at_def store_at_def rack_value_def face_value_def demo_values
        checked_add_signed_def score_checked_add_def signed_range_def)
  ultimately show ?thesis using final_adjustments[OF f] by simp
qed

section \<open>Projections\<close>

text \<open>
  Claim C12. What a seat is shown does not depend on the other racks, the bag, the seed or the
  other seats' private transitions: two games that agree on the public state, the events and
  the seat's own rack and transitions have the same seat projection.
\<close>
theorem seat_projection_hides:
  assumes "same_for_seat seat g h"
  shows "seat_projection g seat = seat_projection h seat"
  using assms by (rule seat_projection_eq)

theorem seat_projection_hides_witness:
  "seat_projection table_game One = seat_projection (table_game\<lparr>g_bag := [\<lparr>pt_id = 5, pt_face = Blank\<rparr>], g_seed := []\<rparr>) One"
  by (rule seat_projection_hides) (simp add: same_for_seat_def table_game_def)

end
